(* ===== verification/Prelude.thy ===== *)
theory Prelude
  imports Main "HOL-Library.Word" "HOL-Library.Signed_Division" "HOL-Library.Multiset"
begin

text \<open>
  Shared vocabulary of the development: the machine integers of the Rust code, the
  state-and-error programs that methods with an \<open>&mut self\<close> receiver and a \<open>Result\<close>
  return type become, ordered maps (\<open>BTreeMap\<close>), and the lemma collections and generic facts the
  component theories share.

  Rust's \<open>u8\<close>, \<open>u32\<close>, \<open>u64\<close> are words of that width; \<open>i32\<close> and \<open>i64\<close> are the same words read
  with \<open>sint\<close> and compared with the signed order; \<open>usize\<close> (64 bit on the host) is \<open>nat\<close>.
  The operators \<open>+\<close>, \<open>-\<close> and \<open>*\<close> of the source are the wrapping operators of words, as in a
  release build (a build with overflow checks panics where these wrap).
\<close>

unbundle bit_operations_syntax

type_synonym u8 = "8 word"
type_synonym u32 = "32 word"
type_synonym u64 = "64 word"
type_synonym i32 = "32 word"
type_synonym i64 = "64 word"
type_synonym usize = nat

named_theorems prog_simps \<open>evaluation rules of state-and-error programs\<close>
named_theorems frame \<open>components of a state that an operation leaves alone\<close>
named_theorems outcome \<open>inversion of an operation's successful result\<close>

text \<open>\<open>i32::wrapping_div\<close> and \<open>i32::wrapping_rem\<close>: truncated towards zero, and wrapped.\<close>

definition wrapping_div :: "i32 \<Rightarrow> i32 \<Rightarrow> i32" where
  "wrapping_div a b = word_of_int (sint a sdiv sint b)"

definition wrapping_rem :: "i32 \<Rightarrow> i32 \<Rightarrow> i32" where
  "wrapping_rem a b = word_of_int (sint a smod sint b)"

subsection \<open>State-and-error programs\<close>

text \<open>
  A method on \<open>&mut self\<close> that returns \<open>Result<T>\<close> maps a state to its outcome and the state it
  leaves behind. \<open>Inl\<close> is a Rust error or a panic, \<open>Inr\<close> the returned value. The state after an
  error is kept: the mutations made before the \<open>?\<close> that propagated it are visible to the caller.
\<close>

type_synonym ('s, 'e, 'a) prog = "'s \<Rightarrow> ('e + 'a) \<times> 's"

definition ok :: "'a \<Rightarrow> ('s, 'e, 'a) prog" where
  "ok x = (\<lambda>s. (Inr x, s))"

definition fail :: "'e \<Rightarrow> ('s, 'e, 'a) prog" where
  "fail e = (\<lambda>s. (Inl e, s))"

definition gets :: "('s \<Rightarrow> 'a) \<Rightarrow> ('s, 'e, 'a) prog" where
  "gets f = (\<lambda>s. (Inr (f s), s))"

definition modify :: "('s \<Rightarrow> 's) \<Rightarrow> ('s, 'e, unit) prog" where
  "modify f = (\<lambda>s. (Inr (), f s))"

definition lift :: "('s \<Rightarrow> 'e + 'a) \<Rightarrow> ('s, 'e, 'a) prog" where
  "lift f = (\<lambda>s. (f s, s))"

text \<open>\<open>andThen m k\<close> is \<open>let x = m?; k(x)\<close>.\<close>

definition andThen :: "('s, 'e, 'a) prog \<Rightarrow> ('a \<Rightarrow> ('s, 'e, 'b) prog) \<Rightarrow> ('s, 'e, 'b) prog" where
  "andThen m k = (\<lambda>s. case m s of (Inl e, s') \<Rightarrow> (Inl e, s') | (Inr x, s') \<Rightarrow> k x s')"

lemma ok_apply [prog_simps]: "ok x s = (Inr x, s)"
  by (simp add: ok_def)

lemma fail_apply [prog_simps]: "fail e s = (Inl e, s)"
  by (simp add: fail_def)

lemma gets_apply [prog_simps]: "gets f s = (Inr (f s), s)"
  by (simp add: gets_def)

lemma modify_apply [prog_simps]: "modify f s = (Inr (), f s)"
  by (simp add: modify_def)

lemma lift_apply [prog_simps]: "lift f s = (f s, s)"
  by (simp add: lift_def)

lemma andThen_Inr [prog_simps]: "m s = (Inr x, s') \<Longrightarrow> andThen m k s = k x s'"
  by (simp add: andThen_def)

lemma andThen_Inl [prog_simps]: "m s = (Inl e, s') \<Longrightarrow> andThen m k s = (Inl e, s')"
  by (simp add: andThen_def)

lemma andThen_ok [prog_simps]: "andThen (ok x) k = k x"
  by (simp add: andThen_def ok_def)

lemma andThen_fail [prog_simps]: "andThen (fail e) k = fail e"
  by (simp add: andThen_def fail_def)

lemma andThen_gets [prog_simps]: "andThen (gets f) k s = k (f s) s"
  by (simp add: andThen_def gets_def)

lemma andThen_modify [prog_simps]: "andThen (modify f) k s = k () (f s)"
  by (simp add: andThen_def modify_def)

lemma andThen_success:
  "andThen m k s = (Inr y, t) \<longleftrightarrow> (\<exists>x s'. m s = (Inr x, s') \<and> k x s' = (Inr y, t))"
  by (auto simp: andThen_def split: prod.splits sum.splits)

lemma andThen_successE [outcome]:
  assumes "andThen m k s = (Inr y, t)"
  obtains x s' where "m s = (Inr x, s')" and "k x s' = (Inr y, t)"
  using assms by (auto simp: andThen_success)

lemma ok_success [simp]: "ok x s = (Inr y, t) \<longleftrightarrow> y = x \<and> t = s"
  by (auto simp: ok_def)

lemma fail_success [simp]: "fail e s = (Inr y, t) \<longleftrightarrow> False"
  by (simp add: fail_def)

lemma gets_success [simp]: "gets f s = (Inr y, t) \<longleftrightarrow> y = f s \<and> t = s"
  by (auto simp: gets_def)

lemma modify_success [simp]: "modify f s = (Inr y, t) \<longleftrightarrow> t = f s"
  by (auto simp: modify_def)

lemma lift_success [simp]: "lift f s = (Inr y, t) \<longleftrightarrow> f s = Inr y \<and> t = s"
  by (auto simp: lift_def)

text \<open>Calls that do not change the state: \<open>bindE\<close> propagates an error or a panic.\<close>

definition bindE :: "'e + 'a \<Rightarrow> ('a \<Rightarrow> 'e + 'b) \<Rightarrow> 'e + 'b" where
  "bindE m k = (case m of Inl e \<Rightarrow> Inl e | Inr x \<Rightarrow> k x)"

lemma bindE_simps [simp]: "bindE (Inl e) k = Inl e" "bindE (Inr x) k = k x"
  by (simp_all add: bindE_def)

lemma bindE_success: "bindE m k = Inr y \<longleftrightarrow> (\<exists>x. m = Inr x \<and> k x = Inr y)"
  by (cases m) auto

definition unwrap :: "'e \<Rightarrow> 'a option \<Rightarrow> 'e + 'a" where
  "unwrap e x = (case x of None \<Rightarrow> Inl e | Some v \<Rightarrow> Inr v)"

lemma unwrap_simps [simp]: "unwrap e None = Inl e" "unwrap e (Some v) = Inr v"
  by (simp_all add: unwrap_def)

subsection \<open>Ordered maps\<close>

text \<open>
  A \<open>BTreeMap\<close> is its list of entries in increasing key order, the order in which it is iterated.
  \<open>bt_insert\<close> is \<open>insert\<close>; \<open>bt_upto\<close> is \<open>range(..=k).next_back()\<close>, the entry with the largest key
  that is at most \<open>k\<close>.
\<close>

type_synonym ('k, 'v) btree_map = "('k \<times> 'v) list"

fun bt_insert :: "'k::linorder \<Rightarrow> 'v \<Rightarrow> ('k, 'v) btree_map \<Rightarrow> ('k, 'v) btree_map" where
  "bt_insert k v [] = [(k, v)]"
| "bt_insert k v ((k', v') # m) =
     (if k < k' then (k, v) # (k', v') # m
      else if k = k' then (k, v) # m
      else (k', v') # bt_insert k v m)"

definition bt_upto :: "'k::linorder \<Rightarrow> ('k, 'v) btree_map \<Rightarrow> ('k \<times> 'v) option" where
  "bt_upto k m = (case filter (\<lambda>(k', _). k' \<le> k) m of [] \<Rightarrow> None | e # es \<Rightarrow> Some (last (e # es)))"

abbreviation bt_keys :: "('k, 'v) btree_map \<Rightarrow> 'k list" where
  "bt_keys m \<equiv> map fst m"

lemma set_bt_keys_insert [simp]: "set (bt_keys (bt_insert k v m)) = insert k (set (bt_keys m))"
  by (induction k v m rule: bt_insert.induct) auto

abbreviation bt_wf :: "('k::linorder, 'v) btree_map \<Rightarrow> bool" where
  "bt_wf m \<equiv> sorted_wrt (<) (bt_keys m)"

lemma bt_wf_insert [simp]: "bt_wf m \<Longrightarrow> bt_wf (bt_insert k v m)"
proof (induction k v m rule: bt_insert.induct)
  case (2 k v k' v' m)
  then have "bt_wf m" and least: "\<forall>x\<in>set (bt_keys m). k' < x" by auto
  moreover from \<open>bt_wf m\<close> "2.IH" have "\<not> k < k' \<Longrightarrow> k \<noteq> k' \<Longrightarrow> bt_wf (bt_insert k v m)"
    by simp
  moreover have "\<not> k < k' \<Longrightarrow> k \<noteq> k' \<Longrightarrow> \<forall>x\<in>set (bt_keys (bt_insert k v m)). k' < x"
    using least by (simp only: set_bt_keys_insert) auto
  ultimately show ?case by fastforce
qed simp

lemma map_of_bt_insert [simp]:
  "bt_wf m \<Longrightarrow> map_of (bt_insert k v m) = (map_of m)(k \<mapsto> v)"
proof (induction k v m rule: bt_insert.induct)
  case (2 k v k' v' m)
  then show ?case by (cases "k < k'"; cases "k = k'") (auto simp: fun_eq_iff)
qed simp

lemma bt_upto_mem:
  assumes "bt_upto k m = Some (k', v)"
  shows "(k', v) \<in> set m" and "k' \<le> k"
proof -
  define es where "es = filter (\<lambda>(k', _). k' \<le> k) m"
  from assms have "es \<noteq> []" and "last es = (k', v)"
    by (auto simp: bt_upto_def es_def simp del: last.simps split: list.splits)
  then have "(k', v) \<in> set (filter (\<lambda>(k', _). k' \<le> k) m)"
    by (metis last_in_set es_def)
  then show "(k', v) \<in> set m" and "k' \<le> k" by auto
qed

subsection \<open>Bit lengths\<close>

text \<open>The number of bits of \<open>k\<close>, which is \<open>u64::BITS - k.leading_zeros()\<close>.\<close>

fun bit_length :: "nat \<Rightarrow> nat" where
  "bit_length n = (if n = 0 then 0 else bit_length (n div 2) + 1)"

declare bit_length.simps [simp del]

end
