(* ===== verification/Addr.thy ===== *)
theory Addr
  imports Prelude
begin

text \<open>
  Addresses of the virtual machine (\<open>ceno_emul/src/addr.rs\<close>): the byte and word address newtypes,
  their conversions, their arithmetic and the iteration over an address range. The lemmas relate
  word addresses, alignment and the two low bits of a byte address.
\<close>

definition WORD_SIZE :: usize where "WORD_SIZE = 4"
definition PC_STEP_SIZE :: usize where "PC_STEP_SIZE = 4"

type_synonym Word = u32
type_synonym Addr = u32
type_synonym Cycle = u64
type_synonym RegIdx = usize

datatype byte_addr = ByteAddr (byte_addr_0: u32)
datatype word_addr = WordAddr (word_addr_0: u32)

text \<open>Both newtypes derive \<open>Ord\<close>: they are ordered as the numbers they wrap.\<close>

instantiation byte_addr :: linorder
begin
definition less_eq_byte_addr :: "byte_addr \<Rightarrow> byte_addr \<Rightarrow> bool" where
  "less_eq_byte_addr a b \<longleftrightarrow> byte_addr_0 a \<le> byte_addr_0 b"
definition less_byte_addr :: "byte_addr \<Rightarrow> byte_addr \<Rightarrow> bool" where
  "less_byte_addr a b \<longleftrightarrow> byte_addr_0 a < byte_addr_0 b"
instance
  by standard (auto simp: less_eq_byte_addr_def less_byte_addr_def byte_addr.expand)
end

instantiation word_addr :: linorder
begin
definition less_eq_word_addr :: "word_addr \<Rightarrow> word_addr \<Rightarrow> bool" where
  "less_eq_word_addr a b \<longleftrightarrow> word_addr_0 a \<le> word_addr_0 b"
definition less_word_addr :: "word_addr \<Rightarrow> word_addr \<Rightarrow> bool" where
  "less_word_addr a b \<longleftrightarrow> word_addr_0 a < word_addr_0 b"
instance
  by standard (auto simp: less_eq_word_addr_def less_word_addr_def word_addr.expand)
end

lemmas addr_order =
  less_eq_byte_addr_def less_byte_addr_def less_eq_word_addr_def less_word_addr_def

subsection \<open>Byte and word addresses\<close>

definition waddr :: "byte_addr \<Rightarrow> word_addr" where
  "waddr a = WordAddr (byte_addr_0 a div of_nat WORD_SIZE)"

definition baddr :: "word_addr \<Rightarrow> byte_addr" where
  "baddr a = ByteAddr (word_addr_0 a * of_nat WORD_SIZE)"

definition shift :: "byte_addr \<Rightarrow> u32" where
  "shift a = byte_addr_0 a AND 3"

definition is_aligned :: "byte_addr \<Rightarrow> bool" where
  "is_aligned a \<longleftrightarrow> byte_addr_0 a mod of_nat WORD_SIZE = 0"

definition is_null :: "byte_addr \<Rightarrow> bool" where
  "is_null a \<longleftrightarrow> byte_addr_0 a = 0"

definition wrapping_add :: "byte_addr \<Rightarrow> u32 \<Rightarrow> byte_addr" where
  "wrapping_add a rhs = ByteAddr (byte_addr_0 a + rhs)"

text \<open>The conversions \<open>From\<close> and the operators \<open>+\<close> on the newtypes.\<close>

definition word_addr_from_u32 :: "u32 \<Rightarrow> word_addr" where
  "word_addr_from_u32 addr = waddr (ByteAddr addr)"

definition u32_from_word_addr :: "word_addr \<Rightarrow> u32" where
  "u32_from_word_addr addr = byte_addr_0 (baddr addr)"

definition byte_addr_add :: "byte_addr \<Rightarrow> usize \<Rightarrow> byte_addr" where
  "byte_addr_add a rhs = ByteAddr (byte_addr_0 a + of_nat rhs)"

definition word_addr_add :: "word_addr \<Rightarrow> word_addr \<Rightarrow> word_addr" where
  "word_addr_add a rhs = WordAddr (word_addr_0 a + word_addr_0 rhs)"

definition word_addr_add_usize :: "word_addr \<Rightarrow> usize \<Rightarrow> word_addr" where
  "word_addr_add_usize a rhs = WordAddr (word_addr_0 a + of_nat rhs)"

text \<open>\<open>Step for WordAddr\<close>: the \<open>n\<close> first addresses of the range \<open>start..\<close>.\<close>

definition word_addrs_from :: "word_addr \<Rightarrow> usize \<Rightarrow> word_addr list" where
  "word_addrs_from start n = map (\<lambda>i. WordAddr (word_addr_0 start + of_nat i)) [0..<n]"

text \<open>\<open>IterAddresses for Range\<close>: every fourth address from \<open>start\<close>, below \<open>end\<close>.\<close>

record addr_range =
  rng_start :: Addr
  rng_end :: Addr

definition range_contains :: "addr_range \<Rightarrow> Addr \<Rightarrow> bool" where
  "range_contains r a \<longleftrightarrow> rng_start r \<le> a \<and> a < rng_end r"

definition iter_addresses :: "addr_range \<Rightarrow> Addr list" where
  "iter_addresses r =
     map (\<lambda>i. rng_start r + of_nat (i * WORD_SIZE))
       [0..<(unat (rng_end r) - unat (rng_start r) + (WORD_SIZE - 1)) div WORD_SIZE]"

subsection \<open>Facts about words shared by the components\<close>

lemma and_3_eq_mod: "(a :: u32) AND 3 = a mod 4"
proof -
  have "a AND mask 2 = take_bit 2 a" by (simp add: take_bit_eq_mask)
  then show ?thesis by (simp add: mask_eq_exp_minus_1 take_bit_eq_mod)
qed

lemma unat_div_4: "unat ((a :: u32) div 4) = unat a div 4"
  by (simp add: unat_div)

lemma unat_mod_4: "unat ((a :: u32) mod 4) = unat a mod 4"
  by (simp add: unat_mod)

lemma unat_u32_less [simp]: "unat (a :: u32) < 4294967296"
  using unsigned_less [of a, where 'a = nat] by simp

lemma unat_u64_less [simp]: "unat (a :: u64) < 18446744073709551616"
  using unsigned_less [of a, where 'a = nat] by simp

lemma word_addr_0_waddr: "unat (word_addr_0 (waddr a)) = unat (byte_addr_0 a) div 4"
  by (simp add: waddr_def WORD_SIZE_def unat_div_4)

lemma waddr_bound: "unat (word_addr_0 (waddr a)) < 1073741824"
  using unat_u32_less [of "byte_addr_0 a"] unfolding word_addr_0_waddr by presburger

lemma is_aligned_iff: "is_aligned a \<longleftrightarrow> unat (byte_addr_0 a) mod 4 = 0"
  by (simp add: is_aligned_def WORD_SIZE_def unat_mod_4 [symmetric] unat_eq_0)

lemma is_aligned_iff_shift: "is_aligned a \<longleftrightarrow> shift a = 0"
  by (simp add: is_aligned_def shift_def WORD_SIZE_def and_3_eq_mod)

lemma baddr_waddr: "byte_addr_0 (baddr (waddr a)) + shift a = byte_addr_0 a"
  by (simp add: baddr_def waddr_def shift_def WORD_SIZE_def and_3_eq_mod div_mult_mod_eq)

lemma baddr_waddr_aligned [simp]: "is_aligned a \<Longrightarrow> baddr (waddr a) = a"
  using baddr_waddr [of a] by (simp add: is_aligned_iff_shift byte_addr.expand)

lemma unat_mult_4: "unat (a :: u32) < 1073741824 \<Longrightarrow> unat (a * 4) = unat a * 4"
  by (subst unat_mult_lem [THEN iffD1]) simp_all

lemma waddr_baddr [simp]:
  assumes "unat (word_addr_0 w) < 1073741824"
  shows "waddr (baddr w) = w"
proof -
  have "unat (word_addr_0 (waddr (baddr w))) = unat (word_addr_0 w)"
    unfolding word_addr_0_waddr using assms by (simp add: baddr_def WORD_SIZE_def unat_mult_4)
  then show ?thesis by (metis word_addr.expand word_unat_eq_iff)
qed

lemma is_aligned_baddr: "unat (word_addr_0 w) < 1073741824 \<Longrightarrow> is_aligned (baddr w)"
  by (simp add: is_aligned_iff baddr_def WORD_SIZE_def unat_mult_4)

lemma unat_add_4_mod: "unat ((a :: u32) + 4) mod 4 = unat a mod 4"
proof -
  have "unat (a + 4) = (unat a + 4) mod 4294967296"
    by (simp add: unat_word_ariths)
  also have "\<dots> mod 4 = unat a mod 4"
    by (simp add: mod_mod_cancel)
  finally show ?thesis .
qed

lemma is_aligned_add_step [simp]: "is_aligned (byte_addr_add a PC_STEP_SIZE) = is_aligned a"
  by (simp add: is_aligned_iff byte_addr_add_def PC_STEP_SIZE_def unat_add_4_mod)

lemma of_nat_u32_inj:
  "i < 4294967296 \<Longrightarrow> j < 4294967296 \<Longrightarrow> (of_nat i :: u32) = of_nat j \<longleftrightarrow> i = j"
  by (simp add: word_unat_eq_iff unat_of_nat)

lemma distinct_word_addrs_from: "n < 4294967296 \<Longrightarrow> distinct (word_addrs_from s n)"
  by (auto simp: word_addrs_from_def distinct_map inj_on_def of_nat_u32_inj)

end
