(* ===== verification/Platform.thy ===== *)
theory Platform
  imports Addr
begin

text \<open>
  The platform of the virtual machine (\<open>ceno_emul/src/platform.rs\<close>): the layout of its memory, the
  access permissions, the virtual addresses of the registers, the registers and codes of the
  environment calls, and the validation of a layout. The lemmas show that an accepted layout has
  pairwise disjoint regions and that register addresses are injective and aligned.
\<close>

record Platform =
  rom :: addr_range
  prog_data :: "Addr set"
  public_io :: addr_range
  stack :: addr_range
  heap :: addr_range
  hints :: addr_range
  unsafe_ecall_nop :: bool
  is_debug :: bool

definition CENO_PLATFORM :: Platform where
  "CENO_PLATFORM =
     \<lparr>rom = \<lparr>rng_start = 0x20000000, rng_end = 0x28000000\<rparr>,
      prog_data = {},
      public_io = \<lparr>rng_start = 0x30000000, rng_end = 0x30040000\<rparr>,
      stack = \<lparr>rng_start = 0xB0000000, rng_end = 0xC0000000\<rparr>,
      heap = \<lparr>rng_start = 0x80000000, rng_end = 0xFFFF0000\<rparr>,
      hints = \<lparr>rng_start = 0x40000000, rng_end = 0x50000000\<rparr>,
      unsafe_ecall_nop = False,
      is_debug = False\<rparr>"

definition is_rom :: "Platform \<Rightarrow> Addr \<Rightarrow> bool" where
  "is_rom p addr \<longleftrightarrow> range_contains (rom p) addr"

definition is_prog_data :: "Platform \<Rightarrow> Addr \<Rightarrow> bool" where
  "is_prog_data p addr \<longleftrightarrow> (addr AND NOT 3) \<in> prog_data p"

definition is_ram :: "Platform \<Rightarrow> Addr \<Rightarrow> bool" where
  "is_ram p addr \<longleftrightarrow>
     range_contains (stack p) addr \<or> range_contains (heap p) addr \<or> is_prog_data p addr"

definition is_pub_io :: "Platform \<Rightarrow> Addr \<Rightarrow> bool" where
  "is_pub_io p addr \<longleftrightarrow> range_contains (public_io p) addr"

definition is_hints :: "Platform \<Rightarrow> Addr \<Rightarrow> bool" where
  "is_hints p addr \<longleftrightarrow> range_contains (hints p) addr"

text \<open>\<open>(index << 8) as Addr\<close> and \<open>(vma >> 8) as RegIdx\<close>.\<close>

definition register_vma :: "RegIdx \<Rightarrow> Addr" where
  "register_vma index = of_nat (push_bit 8 index)"

definition register_index :: "Addr \<Rightarrow> RegIdx" where
  "register_index vma = unat (drop_bit 8 vma)"

definition pc_base :: "Platform \<Rightarrow> Addr" where
  "pc_base p = rng_start (rom p)"

definition can_write :: "Platform \<Rightarrow> Addr \<Rightarrow> bool" where
  "can_write p addr \<longleftrightarrow> is_ram p addr \<or> is_pub_io p addr \<or> is_hints p addr"

definition can_read :: "Platform \<Rightarrow> Addr \<Rightarrow> bool" where
  "can_read p addr = can_write p addr"

definition reg_ecall :: RegIdx where "reg_ecall = 5"
definition reg_arg0 :: RegIdx where "reg_arg0 = 10"
definition reg_arg1 :: RegIdx where "reg_arg1 = 11"
definition ecall_halt :: u32 where "ecall_halt = 0"
definition code_success :: u32 where "code_success = 0"

text \<open>
  \<open>validate\<close> sorts the five ranges by their start and compares each with the next one.
\<close>

fun no_overlap :: "addr_range list \<Rightarrow> bool" where
  "no_overlap (r1 # r2 # rs) = (if rng_end r1 > rng_start r2 then False else no_overlap (r2 # rs))"
| "no_overlap _ = True"

definition platform_ranges :: "Platform \<Rightarrow> addr_range list" where
  "platform_ranges p = [rom p, stack p, heap p, public_io p, hints p]"

definition validate :: "Platform \<Rightarrow> bool" where
  "validate p = no_overlap (sort_key rng_start (platform_ranges p))"

subsection \<open>Validation\<close>

lemma no_overlap_Cons:
  "no_overlap (r # rs) \<Longrightarrow> sorted (map rng_start (r # rs)) \<Longrightarrow> \<forall>s\<in>set rs. rng_end r \<le> rng_start s"
proof (cases rs)
  case (Cons s ss)
  assume "no_overlap (r # rs)" and "sorted (map rng_start (r # rs))"
  with Cons have "rng_end r \<le> rng_start s" and "\<forall>t\<in>set ss. rng_start s \<le> rng_start t"
    by (auto split: if_splits)
  with Cons show ?thesis by auto
qed simp

lemma no_overlap_tl: "no_overlap (r # rs) \<Longrightarrow> no_overlap rs"
  by (cases rs) (auto split: if_splits)

lemma range_contains_order:
  "rng_end r \<le> rng_start s \<Longrightarrow> range_contains r a \<Longrightarrow> \<not> range_contains s a"
  by (auto simp: range_contains_def)

text \<open>At most one range of a list without overlap contains a given address.\<close>

lemma no_overlap_unique:
  assumes "no_overlap rs" and "sorted (map rng_start rs)"
  shows "length (filter (\<lambda>r. range_contains r a) rs) \<le> 1"
  using assms
proof (induction rs)
  case (Cons r rs)
  have tl: "length (filter (\<lambda>r. range_contains r a) rs) \<le> 1"
    using Cons by (auto intro: no_overlap_tl)
  show ?case
  proof (cases "range_contains r a")
    case True
    then have "\<forall>s\<in>set rs. \<not> range_contains s a"
      using no_overlap_Cons [OF Cons.prems] by (blast dest: range_contains_order)
    then show ?thesis by simp
  qed (use tl in simp)
qed simp

lemma length_filter_mset_eq:
  "mset xs = mset ys \<Longrightarrow> length (filter P xs) = length (filter P ys)"
  by (metis mset_filter size_mset)

lemma validate_unique:
  assumes "validate p"
  shows "length (filter (\<lambda>r. range_contains r a) (platform_ranges p)) \<le> 1"
proof -
  have "length (filter (\<lambda>r. range_contains r a) (sort_key rng_start (platform_ranges p))) \<le> 1"
    using assms by (intro no_overlap_unique) (auto simp: validate_def)
  then show ?thesis
    using length_filter_mset_eq [of "sort_key rng_start (platform_ranges p)" "platform_ranges p"]
    by simp
qed

subsection \<open>Register addresses\<close>

lemma unat_register_vma: "i < 16777216 \<Longrightarrow> unat (register_vma i) = i * 256"
  unfolding register_vma_def push_bit_eq_mult unat_of_nat by simp

lemma register_index_vma: "i < 16777216 \<Longrightarrow> register_index (register_vma i) = i"
  unfolding register_index_def unat_drop_bit_eq by (simp add: drop_bit_eq_div unat_register_vma)

lemma register_vma_inj:
  "i < 16777216 \<Longrightarrow> j < 16777216 \<Longrightarrow> register_vma i = register_vma j \<longleftrightarrow> i = j"
  by (metis register_index_vma)

lemma register_word_addr:
  "i < 16777216 \<Longrightarrow> unat (word_addr_0 (word_addr_from_u32 (register_vma i))) = i * 64"
  by (simp add: word_addr_from_u32_def word_addr_0_waddr unat_register_vma)

lemma baddr_register_word_addr:
  "i < 16777216 \<Longrightarrow> baddr (word_addr_from_u32 (register_vma i)) = ByteAddr (register_vma i)"
  by (simp add: word_addr_from_u32_def is_aligned_iff unat_register_vma)

end
