(* ===== verification/Rv32im.thy ===== *)
theory Rv32im
  imports Addr
begin

text \<open>
  The instruction set and the interpreter step of the emulator (\<open>ceno_emul/src/rv32im.rs\<close>): the
  decoded instruction, its categories and formats, the interface \<open>EmuContext\<close> as a record of the
  operations the interpreter calls, and \<open>step\<close> with its five sub-steps over any such record.
\<close>

subsection \<open>Instructions\<close>

datatype InsnKind =
    INVALID | ADD | SUB | XOR_K | OR_K | AND_K | SLL | SRL | SRA | SLT | SLTU
  | ADDI | XORI | ORI | ANDI | SLLI | SRLI | SRAI | SLTI | SLTIU
  | BEQ | BNE | BLT | BGE | BLTU | BGEU | JAL | JALR
  | MUL | MULH | MULHSU | MULHU | DIV | DIVU | REM | REMU
  | LB | LH | LW | LBU | LHU | SB | SH | SW | ECALL

datatype InsnCategory = Compute | Branch | Load | Store | System | Invalid

datatype InsnFormat = Fmt_R | Fmt_I | Fmt_S | Fmt_B | Fmt_U | Fmt_J

record Instruction =
  insn_kind :: InsnKind
  insn_rs1 :: RegIdx
  insn_rs2 :: RegIdx
  insn_rd :: RegIdx
  insn_imm :: i32
  insn_raw :: Word

definition default_Instruction :: Instruction where
  "default_Instruction =
     \<lparr>insn_kind = INVALID, insn_rs1 = 0, insn_rs2 = 0, insn_rd = 0, insn_imm = 0, insn_raw = 0\<rparr>"

definition encode_rv32 :: "InsnKind \<Rightarrow> u32 \<Rightarrow> u32 \<Rightarrow> u32 \<Rightarrow> i32 \<Rightarrow> Instruction" where
  "encode_rv32 knd rs1 rs2 rd imm =
     \<lparr>insn_kind = knd, insn_rs1 = unat rs1, insn_rs2 = unat rs2, insn_rd = unat rd,
      insn_imm = imm, insn_raw = 0\<rparr>"

definition encode_rv32u :: "InsnKind \<Rightarrow> u32 \<Rightarrow> u32 \<Rightarrow> u32 \<Rightarrow> u32 \<Rightarrow> Instruction" where
  "encode_rv32u knd rs1 rs2 rd imm =
     \<lparr>insn_kind = knd, insn_rs1 = unat rs1, insn_rs2 = unat rs2, insn_rd = unat rd,
      insn_imm = imm, insn_raw = 0\<rparr>"

fun category :: "InsnKind \<Rightarrow> InsnCategory" where
  "category INVALID = Invalid"
| "category BEQ = Branch" | "category BNE = Branch" | "category BLT = Branch"
| "category BGE = Branch" | "category BLTU = Branch" | "category BGEU = Branch"
| "category LB = Load" | "category LH = Load" | "category LW = Load"
| "category LBU = Load" | "category LHU = Load"
| "category SB = Store" | "category SH = Store" | "category SW = Store"
| "category ECALL = System"
| "category _ = Compute"

fun insn_format :: "InsnKind \<Rightarrow> InsnFormat" where
  "insn_format ADDI = Fmt_I" | "insn_format XORI = Fmt_I" | "insn_format ORI = Fmt_I"
| "insn_format ANDI = Fmt_I" | "insn_format SLLI = Fmt_I" | "insn_format SRLI = Fmt_I"
| "insn_format SRAI = Fmt_I" | "insn_format SLTI = Fmt_I" | "insn_format SLTIU = Fmt_I"
| "insn_format BEQ = Fmt_B" | "insn_format BNE = Fmt_B" | "insn_format BLT = Fmt_B"
| "insn_format BGE = Fmt_B" | "insn_format BLTU = Fmt_B" | "insn_format BGEU = Fmt_B"
| "insn_format JAL = Fmt_J"
| "insn_format JALR = Fmt_I"
| "insn_format LB = Fmt_I" | "insn_format LH = Fmt_I" | "insn_format LW = Fmt_I"
| "insn_format LBU = Fmt_I" | "insn_format LHU = Fmt_I"
| "insn_format SB = Fmt_S" | "insn_format SH = Fmt_S" | "insn_format SW = Fmt_S"
| "insn_format ECALL = Fmt_I"
| "insn_format INVALID = Fmt_I"
| "insn_format _ = Fmt_R"

definition RD_NULL :: u32 where "RD_NULL = 32"

definition rd_internal :: "Instruction \<Rightarrow> u32" where
  "rd_internal insn =
     (if insn_format (insn_kind insn) \<in> {Fmt_R, Fmt_I, Fmt_U, Fmt_J} \<and> insn_rd insn \<noteq> 0
      then of_nat (insn_rd insn) else RD_NULL)"

definition rs1_or_zero :: "Instruction \<Rightarrow> u32" where
  "rs1_or_zero insn =
     (if insn_format (insn_kind insn) \<in> {Fmt_R, Fmt_I, Fmt_S, Fmt_B}
      then of_nat (insn_rs1 insn) else 0)"

definition rs2_or_zero :: "Instruction \<Rightarrow> u32" where
  "rs2_or_zero insn =
     (if insn_format (insn_kind insn) \<in> {Fmt_R, Fmt_S, Fmt_B}
      then of_nat (insn_rs2 insn) else 0)"

subsection \<open>The interface to the machine\<close>

datatype TrapCause =
    InstructionAddressMisaligned
  | InstructionAccessFault
  | IllegalInstruction u32
  | Breakpoint
  | LoadAddressMisaligned
  | LoadAccessFault byte_addr
  | StoreAddressMisaligned byte_addr
  | StoreAccessFault
  | EcallError

text \<open>
  The errors (\<open>anyhow!\<close> values, told apart by their message) and the panics of the emulator.
\<close>

datatype emu_error =
    TrapError TrapCause
  | CouldNotFetch byte_addr
  | StuckInLoop
  | UnknownSyscall u32
  | Panic string

record 's emu_context =
  ecall :: "('s, emu_error, bool) prog"
  trap :: "TrapCause \<Rightarrow> ('s, emu_error, bool) prog"
  on_normal_end :: "Instruction \<Rightarrow> 's \<Rightarrow> 's"
  get_pc :: "'s \<Rightarrow> byte_addr"
  set_pc :: "byte_addr \<Rightarrow> 's \<Rightarrow> 's"
  load_register :: "RegIdx \<Rightarrow> ('s, emu_error, Word) prog"
  store_register :: "RegIdx \<Rightarrow> Word \<Rightarrow> ('s, emu_error, unit) prog"
  load_memory :: "word_addr \<Rightarrow> ('s, emu_error, Word) prog"
  store_memory :: "word_addr \<Rightarrow> Word \<Rightarrow> ('s, emu_error, unit) prog"
  peek_register :: "RegIdx \<Rightarrow> 's \<Rightarrow> emu_error + Word"
  peek_memory :: "word_addr \<Rightarrow> 's \<Rightarrow> Word"
  fetch :: "word_addr \<Rightarrow> ('s, emu_error, Instruction option) prog"
  check_data_load :: "byte_addr \<Rightarrow> 's \<Rightarrow> bool"
  check_data_store :: "byte_addr \<Rightarrow> 's \<Rightarrow> bool"

subsection \<open>The values that instructions compute\<close>

definition sign_extend_u32 :: "u32 \<Rightarrow> i64" where
  "sign_extend_u32 x = scast x"

text \<open>The arms of \<open>step_compute\<close> that read only \<open>rs1\<close>; \<open>None\<close> is its fall-through arm.\<close>

fun alu_imm :: "InsnKind \<Rightarrow> u32 \<Rightarrow> u32 \<Rightarrow> u32 option" where
  "alu_imm ADDI rs1 imm_i = Some (rs1 + imm_i)"
| "alu_imm XORI rs1 imm_i = Some (rs1 XOR imm_i)"
| "alu_imm ORI rs1 imm_i = Some (rs1 OR imm_i)"
| "alu_imm ANDI rs1 imm_i = Some (rs1 AND imm_i)"
| "alu_imm SLLI rs1 imm_i = Some (push_bit (unat (imm_i AND 0x1f)) rs1)"
| "alu_imm SRLI rs1 imm_i = Some (drop_bit (unat (imm_i AND 0x1f)) rs1)"
| "alu_imm SRAI rs1 imm_i = Some (signed_drop_bit (unat (imm_i AND 0x1f)) rs1)"
| "alu_imm SLTI rs1 imm_i = Some (if rs1 <s imm_i then 1 else 0)"
| "alu_imm SLTIU rs1 imm_i = Some (if rs1 < imm_i then 1 else 0)"
| "alu_imm _ rs1 imm_i = None"

text \<open>The arms that read \<open>rs1\<close> and \<open>rs2\<close>; \<open>None\<close> is \<open>unreachable!\<close>.\<close>

fun alu_reg :: "InsnKind \<Rightarrow> u32 \<Rightarrow> u32 \<Rightarrow> u32 option" where
  "alu_reg ADD rs1 rs2 = Some (rs1 + rs2)"
| "alu_reg SUB rs1 rs2 = Some (rs1 - rs2)"
| "alu_reg XOR_K rs1 rs2 = Some (rs1 XOR rs2)"
| "alu_reg OR_K rs1 rs2 = Some (rs1 OR rs2)"
| "alu_reg AND_K rs1 rs2 = Some (rs1 AND rs2)"
| "alu_reg SLL rs1 rs2 = Some (push_bit (unat (rs2 AND 0x1f)) rs1)"
| "alu_reg SRL rs1 rs2 = Some (drop_bit (unat (rs2 AND 0x1f)) rs1)"
| "alu_reg SRA rs1 rs2 = Some (signed_drop_bit (unat (rs2 AND 0x1f)) rs1)"
| "alu_reg SLT rs1 rs2 = Some (if rs1 <s rs2 then 1 else 0)"
| "alu_reg SLTU rs1 rs2 = Some (if rs1 < rs2 then 1 else 0)"
| "alu_reg MUL rs1 rs2 = Some (rs1 * rs2)"
| "alu_reg MULH rs1 rs2 =
     Some (ucast (signed_drop_bit 32 (sign_extend_u32 rs1 * sign_extend_u32 rs2)))"
| "alu_reg MULHSU rs1 rs2 =
     Some (ucast (signed_drop_bit 32 (sign_extend_u32 rs1 * (ucast rs2 :: i64))))"
| "alu_reg MULHU rs1 rs2 =
     Some (ucast (drop_bit 32 ((ucast rs1 :: u64) * (ucast rs2 :: u64))))"
| "alu_reg DIV rs1 rs2 = Some (if rs2 = 0 then - 1 else wrapping_div rs1 rs2)"
| "alu_reg DIVU rs1 rs2 = Some (if rs2 = 0 then - 1 else rs1 div rs2)"
| "alu_reg REM rs1 rs2 = Some (if rs2 = 0 then rs1 else wrapping_rem rs1 rs2)"
| "alu_reg REMU rs1 rs2 = Some (if rs2 = 0 then rs1 else rs1 mod rs2)"
| "alu_reg _ rs1 rs2 = None"

fun branch_taken :: "InsnKind \<Rightarrow> u32 \<Rightarrow> u32 \<Rightarrow> bool option" where
  "branch_taken BEQ rs1 rs2 = Some (rs1 = rs2)"
| "branch_taken BNE rs1 rs2 = Some (rs1 \<noteq> rs2)"
| "branch_taken BLT rs1 rs2 = Some (rs1 <s rs2)"
| "branch_taken BGE rs1 rs2 = Some (rs2 \<le>s rs1)"
| "branch_taken BLTU rs1 rs2 = Some (rs1 < rs2)"
| "branch_taken BGEU rs1 rs2 = Some (rs2 \<le> rs1)"
| "branch_taken _ rs1 rs2 = None"

text \<open>
  The value a load extracts from the memory word that holds its address, and the word a store
  writes back: \<open>Inr\<close> the value, \<open>Inl (Some cause)\<close> a trap, \<open>Inl None\<close> the \<open>unreachable!()\<close> arm.
\<close>

definition bit_offset :: "byte_addr \<Rightarrow> nat" where
  "bit_offset addr = unat (8 * (byte_addr_0 addr AND 3))"

fun load_value :: "InsnKind \<Rightarrow> byte_addr \<Rightarrow> u32 \<Rightarrow> TrapCause option + u32" where
  "load_value LB addr data =
     (let out = drop_bit (bit_offset addr) data AND 0xff
      in Inr (if out AND 0x80 \<noteq> 0 then out OR 0xffffff00 else out))"
| "load_value LH addr data =
     (if byte_addr_0 addr AND 0x01 \<noteq> 0 then Inl (Some LoadAddressMisaligned)
      else let out = drop_bit (bit_offset addr) data AND 0xffff
           in Inr (if out AND 0x8000 \<noteq> 0 then out OR 0xffff0000 else out))"
| "load_value LW addr data =
     (if byte_addr_0 addr AND 0x03 \<noteq> 0 then Inl (Some LoadAddressMisaligned) else Inr data)"
| "load_value LBU addr data = Inr (drop_bit (bit_offset addr) data AND 0xff)"
| "load_value LHU addr data =
     (if byte_addr_0 addr AND 0x01 \<noteq> 0 then Inl (Some LoadAddressMisaligned)
      else Inr (drop_bit (bit_offset addr) data AND 0xffff))"
| "load_value _ addr data = Inl None"

fun store_value :: "InsnKind \<Rightarrow> byte_addr \<Rightarrow> u32 \<Rightarrow> u32 \<Rightarrow> TrapCause option + u32" where
  "store_value SB addr rs2 data =
     (let data' = data XOR (data AND push_bit (bit_offset addr) 0xff)
      in Inr (data' OR push_bit (bit_offset addr) (rs2 AND 0xff)))"
| "store_value SH addr rs2 data =
     (if byte_addr_0 addr AND 0x01 \<noteq> 0 then Inl (Some (StoreAddressMisaligned addr))
      else let data' = data XOR (data AND push_bit (bit_offset addr) 0xffff)
           in Inr (data' OR push_bit (bit_offset addr) (rs2 AND 0xffff)))"
| "store_value SW addr rs2 data =
     (if byte_addr_0 addr AND 0x03 \<noteq> 0 then Inl (Some (StoreAddressMisaligned addr)) else Inr rs2)"
| "store_value _ addr rs2 data = Inl None"

subsection \<open>The interpreter\<close>

text \<open>The common end of \<open>step_compute\<close>: check the new pc, write \<open>rd\<close>, set the pc.\<close>

definition finish_compute ::
  "'s emu_context \<Rightarrow> Instruction \<Rightarrow> u32 \<times> byte_addr \<Rightarrow> ('s, emu_error, bool) prog" where
  "finish_compute c insn = (\<lambda>(out, new_pc).
     if \<not> is_aligned new_pc then trap c InstructionAddressMisaligned
     else andThen (store_register c (unat (rd_internal insn)) out) (\<lambda>_.
          andThen (modify (set_pc c new_pc)) (\<lambda>_. ok True)))"

definition compute_result ::
  "'s emu_context \<Rightarrow> InsnKind \<Rightarrow> Instruction \<Rightarrow> byte_addr \<Rightarrow> ('s, emu_error, u32 \<times> byte_addr) prog" where
  "compute_result c knd insn pc =
     (let new_pc = byte_addr_add pc WORD_SIZE; imm_i = insn_imm insn in
      if knd = JAL then
        ok (byte_addr_0 (byte_addr_add pc WORD_SIZE), wrapping_add pc (insn_imm insn))
      else andThen (load_register c (insn_rs1 insn)) (\<lambda>rs1.
        if knd = JALR then
          ok (byte_addr_0 (byte_addr_add pc WORD_SIZE), ByteAddr ((rs1 + imm_i) AND NOT 1))
        else case alu_imm knd rs1 imm_i of
          Some out \<Rightarrow> ok (out, new_pc)
        | None \<Rightarrow> andThen (load_register c (insn_rs2 insn)) (\<lambda>rs2.
            case alu_reg knd rs1 rs2 of
              Some out \<Rightarrow> ok (out, new_pc)
            | None \<Rightarrow> fail (Panic ''Illegal compute instruction''))))"

definition step_compute ::
  "'s emu_context \<Rightarrow> InsnKind \<Rightarrow> Instruction \<Rightarrow> ('s, emu_error, bool) prog" where
  "step_compute c knd insn =
     andThen (gets (get_pc c)) (\<lambda>pc.
     andThen (compute_result c knd insn pc) (finish_compute c insn))"

definition step_branch ::
  "'s emu_context \<Rightarrow> InsnKind \<Rightarrow> Instruction \<Rightarrow> ('s, emu_error, bool) prog" where
  "step_branch c knd decoded =
     andThen (gets (get_pc c)) (\<lambda>pc.
     andThen (load_register c (insn_rs1 decoded)) (\<lambda>rs1.
     andThen (load_register c (insn_rs2 decoded)) (\<lambda>rs2.
     case branch_taken knd rs1 rs2 of
       None \<Rightarrow> fail (Panic ''Illegal branch instruction'')
     | Some taken \<Rightarrow>
         let new_pc = (if taken then wrapping_add pc (insn_imm decoded)
                       else byte_addr_add pc WORD_SIZE) in
         if \<not> is_aligned new_pc then trap c InstructionAddressMisaligned
         else andThen (modify (set_pc c new_pc)) (\<lambda>_. ok True))))"

definition advance_pc :: "'s emu_context \<Rightarrow> ('s, emu_error, bool) prog" where
  "advance_pc c = andThen (gets (get_pc c)) (\<lambda>pc.
     andThen (modify (set_pc c (byte_addr_add pc WORD_SIZE))) (\<lambda>_. ok True))"

definition step_load ::
  "'s emu_context \<Rightarrow> InsnKind \<Rightarrow> Instruction \<Rightarrow> ('s, emu_error, bool) prog" where
  "step_load c knd decoded =
     andThen (load_register c (insn_rs1 decoded)) (\<lambda>rs1.
     let addr = ByteAddr (rs1 + insn_imm decoded) in
     andThen (gets (check_data_load c addr)) (\<lambda>allowed.
     if \<not> allowed then trap c (LoadAccessFault addr)
     else andThen (load_memory c (waddr addr)) (\<lambda>data.
       case load_value knd addr data of
         Inl (Some cause) \<Rightarrow> trap c cause
       | Inl None \<Rightarrow> fail (Panic ''unreachable'')
       | Inr out \<Rightarrow>
           andThen (store_register c (unat (rd_internal decoded)) out) (\<lambda>_. advance_pc c))))"

definition step_store ::
  "'s emu_context \<Rightarrow> InsnKind \<Rightarrow> Instruction \<Rightarrow> ('s, emu_error, bool) prog" where
  "step_store c knd decoded =
     andThen (load_register c (insn_rs1 decoded)) (\<lambda>rs1.
     andThen (load_register c (insn_rs2 decoded)) (\<lambda>rs2.
     let addr = ByteAddr (rs1 + insn_imm decoded) in
     andThen (gets (check_data_store c addr)) (\<lambda>allowed.
     if \<not> allowed then trap c StoreAccessFault
     else andThen (gets (peek_memory c (waddr addr))) (\<lambda>data.
       case store_value knd addr rs2 data of
         Inl (Some cause) \<Rightarrow> trap c cause
       | Inl None \<Rightarrow> fail (Panic ''unreachable'')
       | Inr data' \<Rightarrow> andThen (store_memory c (waddr addr) data') (\<lambda>_. advance_pc c)))))"

definition step_system ::
  "'s emu_context \<Rightarrow> InsnKind \<Rightarrow> Instruction \<Rightarrow> ('s, emu_error, bool) prog" where
  "step_system c knd decoded =
     (if knd = ECALL then ecall c else trap c (IllegalInstruction (insn_raw decoded)))"

definition step_insn :: "'s emu_context \<Rightarrow> Instruction \<Rightarrow> ('s, emu_error, bool) prog" where
  "step_insn c insn =
     (case category (insn_kind insn) of
        Compute \<Rightarrow> step_compute c (insn_kind insn) insn
      | Branch \<Rightarrow> step_branch c (insn_kind insn) insn
      | Load \<Rightarrow> step_load c (insn_kind insn) insn
      | Store \<Rightarrow> step_store c (insn_kind insn) insn
      | System \<Rightarrow> step_system c (insn_kind insn) insn
      | Invalid \<Rightarrow> trap c (IllegalInstruction (insn_raw insn)))"

definition step :: "'s emu_context \<Rightarrow> ('s, emu_error, unit) prog" where
  "step c =
     andThen (gets (get_pc c)) (\<lambda>pc.
     andThen (fetch c (waddr pc)) (\<lambda>fetched.
     case fetched of
       None \<Rightarrow> andThen (trap c InstructionAccessFault) (\<lambda>_. fail (CouldNotFetch pc))
     | Some insn \<Rightarrow>
         andThen (step_insn c insn) (\<lambda>normal.
           if normal then modify (on_normal_end c insn) else ok ())))"

end
