(* ===== verification/Tracer.thy ===== *)
theory Tracer
  imports Platform Rv32im
begin

text \<open>
  The execution trace (\<open>ceno_emul/src/tracer.rs\<close>): the record of one step, its constructors, and
  the tracer, which assigns each register and memory access a cycle, remembers when every address
  was last accessed and keeps the bounds of the accessed part of each region. The lemmas give the
  fields each operation writes and the cycles it hands out.
\<close>

subsection \<open>The record of a step\<close>

record 'a Change =
  before :: 'a
  after :: 'a

definition change :: "'a \<Rightarrow> 'a \<Rightarrow> 'a Change" where
  "change b a = \<lparr>before = b, after = a\<rparr>"

record 'v MemOp =
  op_addr :: word_addr
  op_value :: 'v
  previous_cycle :: Cycle

type_synonym ReadOp = "Word MemOp"
type_synonym WriteOp = "Word Change MemOp"

definition new_register_op :: "RegIdx \<Rightarrow> 'v \<Rightarrow> Cycle \<Rightarrow> 'v MemOp" where
  "new_register_op idx val prev_cycle =
     \<lparr>op_addr = word_addr_from_u32 (register_vma idx), op_value = val,
      previous_cycle = prev_cycle\<rparr>"

definition op_register_index :: "'v MemOp \<Rightarrow> RegIdx" where
  "op_register_index opn = register_index (u32_from_word_addr (op_addr opn))"

text \<open>The witness of a system call (\<open>ceno_emul/src/syscalls.rs\<close>).\<close>

record SyscallWitness =
  mem_ops :: "WriteOp list"
  reg_ops :: "WriteOp list"

record StepRecord =
  rec_cycle :: Cycle
  rec_pc :: "byte_addr Change"
  rec_insn :: Instruction
  rec_rs1 :: "ReadOp option"
  rec_rs2 :: "ReadOp option"
  rec_rd :: "WriteOp option"
  rec_memory_op :: "WriteOp option"
  rec_syscall :: "SyscallWitness option"

definition default_StepRecord :: StepRecord where
  "default_StepRecord =
     \<lparr>rec_cycle = 0, rec_pc = change (ByteAddr 0) (ByteAddr 0), rec_insn = default_Instruction,
      rec_rs1 = None, rec_rs2 = None, rec_rd = None, rec_memory_op = None, rec_syscall = None\<rparr>"

definition new_insn ::
  "Cycle \<Rightarrow> byte_addr Change \<Rightarrow> Instruction \<Rightarrow> Word option \<Rightarrow> Word option \<Rightarrow> Word Change option \<Rightarrow>
   WriteOp option \<Rightarrow> Cycle \<Rightarrow> StepRecord" where
  "new_insn cycle pc insn rs1_read rs2_read rd memory_op prev_cycle =
     \<lparr>rec_cycle = cycle, rec_pc = pc, rec_insn = insn,
      rec_rs1 = map_option (\<lambda>rs1.
        \<lparr>op_addr = word_addr_from_u32 (register_vma (insn_rs1 insn)), op_value = rs1,
         previous_cycle = prev_cycle\<rparr>) rs1_read,
      rec_rs2 = map_option (\<lambda>rs2.
        \<lparr>op_addr = word_addr_from_u32 (register_vma (insn_rs2 insn)), op_value = rs2,
         previous_cycle = prev_cycle\<rparr>) rs2_read,
      rec_rd = map_option (\<lambda>rd.
        \<lparr>op_addr = word_addr_from_u32 (register_vma (unat (rd_internal insn))), op_value = rd,
         previous_cycle = prev_cycle\<rparr>) rd,
      rec_memory_op = memory_op, rec_syscall = None\<rparr>"

definition new_r_instruction where
  "new_r_instruction cycle pc insn_code rs1_read rs2_read rd prev_cycle =
     new_insn cycle (change pc (byte_addr_add pc PC_STEP_SIZE)) insn_code
       (Some rs1_read) (Some rs2_read) (Some rd) None prev_cycle"

definition new_b_instruction where
  "new_b_instruction cycle pc insn_code rs1_read rs2_read prev_cycle =
     new_insn cycle pc insn_code (Some rs1_read) (Some rs2_read) None None prev_cycle"

definition new_i_instruction where
  "new_i_instruction cycle pc insn_code rs1_read rd prev_cycle =
     new_insn cycle pc insn_code (Some rs1_read) None (Some rd) None prev_cycle"

definition new_im_instruction where
  "new_im_instruction cycle pc insn_code rs1_read rd (mem_op :: ReadOp) prev_cycle =
     new_insn cycle (change pc (byte_addr_add pc PC_STEP_SIZE)) insn_code
       (Some rs1_read) None (Some rd)
       (Some \<lparr>op_addr = op_addr mem_op, op_value = change (op_value mem_op) (op_value mem_op),
              previous_cycle = previous_cycle mem_op\<rparr>) prev_cycle"

definition new_u_instruction where
  "new_u_instruction cycle pc insn_code rd prev_cycle =
     new_insn cycle (change pc (byte_addr_add pc PC_STEP_SIZE)) insn_code
       None None (Some rd) None prev_cycle"

definition new_j_instruction where
  "new_j_instruction cycle pc insn_code rd prev_cycle =
     new_insn cycle pc insn_code None None (Some rd) None prev_cycle"

definition new_s_instruction where
  "new_s_instruction cycle pc insn_code rs1_read rs2_read memory_op prev_cycle =
     new_insn cycle (change pc (byte_addr_add pc PC_STEP_SIZE)) insn_code
       (Some rs1_read) (Some rs2_read) None (Some memory_op) prev_cycle"

definition new_ecall_any :: "Cycle \<Rightarrow> byte_addr \<Rightarrow> StepRecord" where
  "new_ecall_any cycle pc =
     new_insn cycle (change pc (byte_addr_add pc PC_STEP_SIZE)) (encode_rv32 ECALL 0 0 0 0)
       (Some 1234) (Some 1234) (Some (change 1234 1234))
       (Some \<lparr>op_addr = word_addr_from_u32 (rng_start (heap CENO_PLATFORM)),
              op_value = change 1234 1234, previous_cycle = 0\<rparr>) 0"

definition is_busy_loop :: "StepRecord \<Rightarrow> bool" where
  "is_busy_loop r \<longleftrightarrow> before (rec_pc r) = after (rec_pc r)"

subsection \<open>The tracer\<close>

text \<open>
  \<open>mmio_min_max_access\<close> maps the start of a region to its start, its end, and the least and (one
  past) the largest accessed address; \<open>latest_accesses\<close> is the hash map of last access cycles.
\<close>

type_synonym mmio_bounds = "(word_addr, word_addr \<times> word_addr \<times> word_addr \<times> word_addr) btree_map"

record Tracer =
  step_record :: StepRecord
  mmio_min_max_access :: "mmio_bounds option"
  latest_accesses :: "word_addr \<rightharpoonup> Cycle"

definition SUBCYCLE_RS1 :: Cycle where "SUBCYCLE_RS1 = 0"
definition SUBCYCLE_RS2 :: Cycle where "SUBCYCLE_RS2 = 1"
definition SUBCYCLE_RD :: Cycle where "SUBCYCLE_RD = 2"
definition SUBCYCLE_MEM :: Cycle where "SUBCYCLE_MEM = 3"
definition SUBCYCLES_PER_INSN :: Cycle where "SUBCYCLES_PER_INSN = 4"

definition mmio_entry :: "addr_range \<Rightarrow> word_addr \<times> word_addr \<times> word_addr \<times> word_addr" where
  "mmio_entry r =
     (waddr (ByteAddr (rng_start r)), waddr (ByteAddr (rng_end r)),
      waddr (ByteAddr (rng_end r)), waddr (ByteAddr (rng_start r)))"

definition mmio_regions :: "Platform \<Rightarrow> mmio_bounds" where
  "mmio_regions p =
     bt_insert (waddr (ByteAddr (rng_start (hints p)))) (mmio_entry (hints p))
       (bt_insert (waddr (ByteAddr (rng_start (stack p)))) (mmio_entry (stack p))
         (bt_insert (waddr (ByteAddr (rng_start (heap p)))) (mmio_entry (heap p)) []))"

definition new_Tracer :: "Platform option \<Rightarrow> Tracer" where
  "new_Tracer platform =
     \<lparr>step_record = default_StepRecord\<lparr>rec_cycle := SUBCYCLES_PER_INSN\<rparr>,
      mmio_min_max_access = map_option mmio_regions platform,
      latest_accesses = Map.empty\<rparr>"

text \<open>\<open>advance\<close> returns the completed record and starts a fresh one.\<close>

definition advance :: "Tracer \<Rightarrow> StepRecord \<times> Tracer" where
  "advance tr =
     (step_record tr,
      tr\<lparr>step_record := default_StepRecord\<lparr>rec_cycle := rec_cycle (step_record tr) + SUBCYCLES_PER_INSN\<rparr>\<rparr>)"

definition store_pc :: "byte_addr \<Rightarrow> Tracer \<Rightarrow> Tracer" where
  "store_pc pc tr = tr\<lparr>step_record := (step_record tr)\<lparr>rec_pc := (rec_pc (step_record tr))\<lparr>after := pc\<rparr>\<rparr>\<rparr>"

definition trace_fetch :: "word_addr \<Rightarrow> Instruction \<Rightarrow> Tracer \<Rightarrow> Tracer" where
  "trace_fetch pc insn tr =
     tr\<lparr>step_record := (step_record tr)\<lparr>rec_pc := (rec_pc (step_record tr))\<lparr>before := baddr pc\<rparr>, rec_insn := insn\<rparr>\<rparr>"

definition track_access :: "word_addr \<Rightarrow> Cycle \<Rightarrow> Tracer \<Rightarrow> Cycle \<times> Tracer" where
  "track_access addr subcycle tr =
     (case latest_accesses tr addr of None \<Rightarrow> 0 | Some c \<Rightarrow> c,
      tr\<lparr>latest_accesses := (latest_accesses tr)(addr \<mapsto> rec_cycle (step_record tr) + subcycle)\<rparr>)"

definition trace_load_register :: "RegIdx \<Rightarrow> Word \<Rightarrow> (Tracer, emu_error, unit) prog" where
  "trace_load_register idx val = (\<lambda>tr.
     let addr = word_addr_from_u32 (register_vma idx) in
     case (rec_rs1 (step_record tr), rec_rs2 (step_record tr)) of
       (None, None) \<Rightarrow>
         (case track_access addr SUBCYCLE_RS1 tr of (prev, tr') \<Rightarrow>
            (Inr (), tr'\<lparr>step_record := (step_record tr')\<lparr>rec_rs1 :=
               Some \<lparr>op_addr = addr, op_value = val, previous_cycle = prev\<rparr>\<rparr>\<rparr>))
     | (Some _, None) \<Rightarrow>
         (case track_access addr SUBCYCLE_RS2 tr of (prev, tr') \<Rightarrow>
            (Inr (), tr'\<lparr>step_record := (step_record tr')\<lparr>rec_rs2 :=
               Some \<lparr>op_addr = addr, op_value = val, previous_cycle = prev\<rparr>\<rparr>\<rparr>))
     | _ \<Rightarrow> (Inl (Panic ''Only two register reads are supported''), tr))"

definition trace_store_register :: "RegIdx \<Rightarrow> Word Change \<Rightarrow> (Tracer, emu_error, unit) prog" where
  "trace_store_register idx val = (\<lambda>tr.
     if rec_rd (step_record tr) \<noteq> None then (Inl (Panic ''Only one register write is supported''), tr)
     else let addr = word_addr_from_u32 (register_vma idx) in
       (case track_access addr SUBCYCLE_RD tr of (prev, tr') \<Rightarrow>
          (Inr (), tr'\<lparr>step_record := (step_record tr')\<lparr>rec_rd :=
             Some \<lparr>op_addr = addr, op_value = val, previous_cycle = prev\<rparr>\<rparr>\<rparr>)))"

text \<open>The bounds of the region whose start is the largest one at most \<open>addr\<close> are widened.\<close>

definition widen_bounds :: "word_addr \<Rightarrow> mmio_bounds \<Rightarrow> mmio_bounds" where
  "widen_bounds addr m =
     (case bt_upto addr m of
        None \<Rightarrow> m
      | Some (key, (start_addr, end_addr, min_addr, max_addr)) \<Rightarrow>
          if addr < end_addr then
            bt_insert key
              (start_addr, end_addr,
               if addr < min_addr then addr else min_addr,
               if addr \<ge> max_addr then word_addr_add addr (word_addr_from_u32 (of_nat WORD_SIZE))
               else max_addr) m
          else m)"

definition trace_store_memory :: "word_addr \<Rightarrow> Word Change \<Rightarrow> (Tracer, emu_error, unit) prog" where
  "trace_store_memory addr val = (\<lambda>tr.
     if rec_memory_op (step_record tr) \<noteq> None then (Inl (Panic ''Only one memory access is supported''), tr)
     else let tr1 = tr\<lparr>mmio_min_max_access := map_option (widen_bounds addr) (mmio_min_max_access tr)\<rparr> in
       (case track_access addr SUBCYCLE_MEM tr1 of (prev, tr') \<Rightarrow>
          (Inr (), tr'\<lparr>step_record := (step_record tr')\<lparr>rec_memory_op :=
             Some \<lparr>op_addr = addr, op_value = val, previous_cycle = prev\<rparr>\<rparr>\<rparr>)))"

definition trace_load_memory :: "word_addr \<Rightarrow> Word \<Rightarrow> (Tracer, emu_error, unit) prog" where
  "trace_load_memory addr val = trace_store_memory addr (change val val)"

definition final_accesses :: "Tracer \<Rightarrow> (word_addr \<rightharpoonup> Cycle)" where
  "final_accesses tr = latest_accesses tr"

definition executed_insts :: "Tracer \<Rightarrow> usize" where
  "executed_insts tr = unat (rec_cycle (step_record tr) div SUBCYCLES_PER_INSN) - 1"

definition probe_min_max_address_by_start_addr ::
  "Tracer \<Rightarrow> word_addr \<Rightarrow> emu_error + (word_addr \<times> word_addr) option" where
  "probe_min_max_address_by_start_addr tr start_addr =
     (case Option.bind (mmio_min_max_access tr) (bt_upto start_addr) of
        None \<Rightarrow> Inr None
      | Some (_, (expected_start_addr, _, mn, mx)) \<Rightarrow>
          if start_addr \<noteq> expected_start_addr
          then Inl (Panic ''please use section start for searching'')
          else if start_addr = expected_start_addr \<and> mn < mx then Inr (Some (mn, mx))
          else Inr None)"

text \<open>\<open>SyscallEffects::finalize\<close> tracks the register accesses, then the memory accesses.\<close>

fun finalize_ops :: "Cycle \<Rightarrow> WriteOp list \<Rightarrow> Tracer \<Rightarrow> WriteOp list \<times> Tracer" where
  "finalize_ops subcycle [] tr = ([], tr)"
| "finalize_ops subcycle (opn # ops) tr =
     (case track_access (op_addr opn) subcycle tr of (prev, tr1) \<Rightarrow>
      case finalize_ops subcycle ops tr1 of (ops', tr2) \<Rightarrow>
        (opn\<lparr>previous_cycle := prev\<rparr> # ops', tr2))"

definition finalize :: "SyscallWitness \<Rightarrow> Tracer \<Rightarrow> SyscallWitness \<times> Tracer" where
  "finalize w tr =
     (case finalize_ops SUBCYCLE_RD (reg_ops w) tr of (regs, tr1) \<Rightarrow>
      case finalize_ops SUBCYCLE_MEM (mem_ops w) tr1 of (mems, tr2) \<Rightarrow>
        (w\<lparr>mem_ops := mems, reg_ops := regs\<rparr>, tr2))"

definition track_syscall :: "SyscallWitness \<Rightarrow> (Tracer, emu_error, unit) prog" where
  "track_syscall w = (\<lambda>tr.
     case finalize w tr of (w', tr') \<Rightarrow>
       if rec_syscall (step_record tr') \<noteq> None then (Inl (Panic ''Only one syscall per step''), tr')
       else (Inr (), tr'\<lparr>step_record := (step_record tr')\<lparr>rec_syscall := Some w'\<rparr>\<rparr>))"

end
