(* ===== verification/Machine.thy ===== *)
theory Machine
  imports Tracer
begin

text \<open>
  The state of the virtual machine: the program (\<open>Program\<close> of \<open>ceno_emul/src/elf.rs\<close>), the record
  \<open>VMState\<close> and the accesses without side effects of \<open>ceno_emul/src/vm_state.rs\<close>, and the views of
  memory segments (\<open>ceno_emul/src/utils.rs\<close>) through which system calls read and write memory.
\<close>

record Program =
  entry :: u32
  base_address :: u32
  sheap :: u32
  instructions :: "Instruction list"
  image :: "(u32, u32) btree_map"

definition new_Program :: "u32 \<Rightarrow> u32 \<Rightarrow> u32 \<Rightarrow> Instruction list \<Rightarrow> (u32, u32) btree_map \<Rightarrow> Program" where
  "new_Program ent base heap_start insns img =
     \<lparr>entry = ent, base_address = base, sheap = heap_start, instructions = insns, image = img\<rparr>"

definition Program_from_instructions :: "Instruction list \<Rightarrow> Program" where
  "Program_from_instructions insn_codes =
     \<lparr>entry = pc_base CENO_PLATFORM, base_address = pc_base CENO_PLATFORM,
      sheap = rng_start (heap CENO_PLATFORM), instructions = insn_codes, image = []\<rparr>"

record VMState =
  vm_program :: Program
  vm_platform :: Platform
  vm_pc :: Word
  vm_memory :: "word_addr \<rightharpoonup> Word"
  vm_registers :: "Word list"
  vm_halted :: bool
  vm_tracer :: Tracer

definition REG_COUNT :: usize where "REG_COUNT = 32 + 1"

definition vm_init_memory :: "word_addr \<Rightarrow> Word \<Rightarrow> VMState \<Rightarrow> VMState" where
  "vm_init_memory addr val vm = vm\<lparr>vm_memory := (vm_memory vm)(addr \<mapsto> val)\<rparr>"

definition new_VMState :: "Platform \<Rightarrow> Program \<Rightarrow> VMState" where
  "new_VMState plat prog =
     fold (\<lambda>(addr, val) vm. vm_init_memory (waddr (ByteAddr addr)) val vm) (image prog)
       \<lparr>vm_program = prog, vm_platform = plat, vm_pc = entry prog, vm_memory = Map.empty,
        vm_registers = replicate REG_COUNT 0, vm_halted = False,
        vm_tracer = new_Tracer (Some plat)\<rparr>"

text \<open>Indexing the register array out of its bounds panics; absent memory words read as zero.\<close>

definition vm_peek_register :: "RegIdx \<Rightarrow> VMState \<Rightarrow> emu_error + Word" where
  "vm_peek_register idx vm =
     (if idx < length (vm_registers vm) then Inr (vm_registers vm ! idx)
      else Inl (Panic ''index out of bounds''))"

definition vm_peek_memory :: "word_addr \<Rightarrow> VMState \<Rightarrow> Word" where
  "vm_peek_memory addr vm = (case vm_memory vm addr of None \<Rightarrow> 0 | Some v \<Rightarrow> v)"

subsection \<open>Bytes of words\<close>

definition to_le_bytes :: "u32 \<Rightarrow> u8 list" where
  "to_le_bytes w = map (\<lambda>k. ucast (drop_bit (8 * k) w)) [0..<4]"

definition from_le_bytes :: "u8 list \<Rightarrow> u32" where
  "from_le_bytes bs = foldr (\<lambda>b acc. ucast b OR push_bit 8 acc) bs 0"

text \<open>\<open>chunks_exact(n)\<close> drops a last incomplete chunk.\<close>

function chunks_exact :: "nat \<Rightarrow> 'a list \<Rightarrow> 'a list list" where
  "chunks_exact n xs = (if n = 0 \<or> length xs < n then [] else take n xs # chunks_exact n (drop n xs))"
  by pat_completeness auto
termination
  by (relation "measure (\<lambda>(n, xs). length xs)") auto

declare chunks_exact.simps [simp del]

subsection \<open>Views of memory segments\<close>

record MemoryView =
  view_length :: nat
  view_start :: word_addr
  writes :: "Word list option"

definition new_MemoryView :: "nat \<Rightarrow> u32 \<Rightarrow> emu_error + MemoryView" where
  "new_MemoryView len start =
     (if start mod of_nat WORD_SIZE = 0
      then Inr \<lparr>view_length = len, view_start = word_addr_from_u32 start, writes = None\<rparr>
      else Inl (Panic ''start % WORD_SIZE == 0''))"

definition addrs :: "MemoryView \<Rightarrow> word_addr list" where
  "addrs v = word_addrs_from (view_start v) (view_length v)"

definition view_words :: "VMState \<Rightarrow> MemoryView \<Rightarrow> Word list" where
  "view_words vm v = map (\<lambda>addr. vm_peek_memory addr vm) (addrs v)"

definition view_bytes :: "VMState \<Rightarrow> MemoryView \<Rightarrow> u8 list" where
  "view_bytes vm v = concat (map to_le_bytes (view_words vm v))"

definition view_write :: "Word list \<Rightarrow> MemoryView \<Rightarrow> emu_error + MemoryView" where
  "view_write ws v =
     (if writes v = None then Inr (v\<lparr>writes := Some ws\<rparr>)
      else Inl (Panic ''view can only be written once''))"

definition view_mem_ops :: "VMState \<Rightarrow> MemoryView \<Rightarrow> WriteOp list" where
  "view_mem_ops vm v =
     map (\<lambda>(addr, bef, aft). \<lparr>op_addr = addr, op_value = change bef aft, previous_cycle = 0\<rparr>)
       (zip (addrs v) (zip (view_words vm v)
         (case writes v of Some ws \<Rightarrow> ws | None \<Rightarrow> view_words vm v)))"

subsection \<open>Facts about states and views\<close>

lemma vm_peek_memory_upd:
  "vm_peek_memory a (vm\<lparr>vm_memory := (vm_memory vm)(b \<mapsto> v)\<rparr>) =
   (if a = b then v else vm_peek_memory a vm)"
  by (simp add: vm_peek_memory_def)

lemma fold_init_memory [simp]:
  "vm_registers (fold (\<lambda>(a, v) vm. vm_init_memory (f a) v vm) img vm) = vm_registers vm"
  "vm_pc (fold (\<lambda>(a, v) vm. vm_init_memory (f a) v vm) img vm) = vm_pc vm"
  "vm_tracer (fold (\<lambda>(a, v) vm. vm_init_memory (f a) v vm) img vm) = vm_tracer vm"
  "vm_halted (fold (\<lambda>(a, v) vm. vm_init_memory (f a) v vm) img vm) = vm_halted vm"
  "vm_program (fold (\<lambda>(a, v) vm. vm_init_memory (f a) v vm) img vm) = vm_program vm"
  "vm_platform (fold (\<lambda>(a, v) vm. vm_init_memory (f a) v vm) img vm) = vm_platform vm"
  by (induction img arbitrary: vm) (auto simp: vm_init_memory_def)

lemma new_VMState_simps [simp]:
  "vm_registers (new_VMState plat prog) = replicate REG_COUNT 0"
  "vm_pc (new_VMState plat prog) = entry prog"
  "vm_tracer (new_VMState plat prog) = new_Tracer (Some plat)"
  "vm_halted (new_VMState plat prog) = False"
  "vm_program (new_VMState plat prog) = prog"
  "vm_platform (new_VMState plat prog) = plat"
  by (simp_all add: new_VMState_def)

lemma length_addrs [simp]: "length (addrs v) = view_length v"
  by (simp add: addrs_def word_addrs_from_def)

lemma length_view_words [simp]: "length (view_words vm v) = view_length v"
  by (simp add: view_words_def)

lemma op_addrs_view:
  assumes "case writes v of Some ws \<Rightarrow> length ws = view_length v | None \<Rightarrow> True"
  shows "map op_addr (view_mem_ops vm v) = addrs v"
  using assms by (auto simp: view_mem_ops_def o_def case_prod_unfold map_fst_zip_take split: option.splits)

lemma view_mem_ops_before:
  "opn \<in> set (view_mem_ops vm v) \<Longrightarrow> before (op_value opn) = vm_peek_memory (op_addr opn) vm"
  by (auto simp: view_mem_ops_def view_words_def change_def set_zip)

end
