(* ===== verification/Syscalls.thy ===== *)
theory Syscalls
  imports Machine
begin

text \<open>
  The system calls (\<open>ceno_emul/src/syscalls.rs\<close> and \<open>syscalls/\<close>): the effects of a call, the
  dispatcher, and each call as the function of the machine state it is. The permutation and the
  curve and field arithmetic come from the crates \<open>tiny_keccak\<close>, \<open>secp\<close> and \<open>substrate_bn\<close>: they are
  the fields of the record \<open>crypto_lib\<close>, a parameter of every definition that uses them.
\<close>

subsection \<open>External cryptography\<close>

record ('p, 'mp, 'fq, 'fq2, 'g1) crypto_lib =
  lib_keccakf :: "u64 list \<Rightarrow> u64 list"
  secp_from_slice :: "u8 list \<Rightarrow> 'p option"
  secp_add :: "'p \<Rightarrow> 'p \<Rightarrow> 'mp"
  secp_times_two :: "'p \<Rightarrow> 'p"
  secp_into_maybe :: "'p \<Rightarrow> 'mp"
  secp_serialize_uncompressed :: "'mp \<Rightarrow> u8 list"
  fq_from_slice :: "u8 list \<Rightarrow> 'fq option"
  fq_to_big_endian :: "'fq \<Rightarrow> u8 list"
  fq_one :: 'fq
  fq_add :: "'fq \<Rightarrow> 'fq \<Rightarrow> 'fq"
  fq_mul :: "'fq \<Rightarrow> 'fq \<Rightarrow> 'fq"
  fq2_new :: "'fq \<Rightarrow> 'fq \<Rightarrow> 'fq2"
  fq2_real :: "'fq2 \<Rightarrow> 'fq"
  fq2_imaginary :: "'fq2 \<Rightarrow> 'fq"
  fq2_add :: "'fq2 \<Rightarrow> 'fq2 \<Rightarrow> 'fq2"
  fq2_mul :: "'fq2 \<Rightarrow> 'fq2 \<Rightarrow> 'fq2"
  g1_new :: "'fq \<Rightarrow> 'fq \<Rightarrow> 'fq \<Rightarrow> 'g1"
  g1_add :: "'g1 \<Rightarrow> 'g1 \<Rightarrow> 'g1"
  g1_times_two :: "'g1 \<Rightarrow> 'g1"
  affine_from_jacobian :: "'g1 \<Rightarrow> ('fq \<times> 'fq) option"

subsection \<open>Effects\<close>

definition KECCAK_PERMUTE :: u32 where "KECCAK_PERMUTE = 0x00010109"
definition SECP256K1_ADD :: u32 where "SECP256K1_ADD = 0x0001010A"
definition SECP256K1_DOUBLE :: u32 where "SECP256K1_DOUBLE = 0x0000010B"
definition SECP256K1_DECOMPRESS :: u32 where "SECP256K1_DECOMPRESS = 0x0000010C"
definition SHA_EXTEND :: u32 where "SHA_EXTEND = 0x00300105"
definition BN254_ADD :: u32 where "BN254_ADD = 0x0001010E"
definition BN254_DOUBLE :: u32 where "BN254_DOUBLE = 0x0000010F"
definition BN254_FP_ADD :: u32 where "BN254_FP_ADD = 0x00010126"
definition BN254_FP_MUL :: u32 where "BN254_FP_MUL = 0x00010128"
definition BN254_FP2_ADD :: u32 where "BN254_FP2_ADD = 0x00010129"
definition BN254_FP2_MUL :: u32 where "BN254_FP2_MUL = 0x0001012B"

record SyscallEffects =
  witness :: SyscallWitness
  next_pc :: "u32 option"

definition iter_reg_values :: "SyscallEffects \<Rightarrow> (RegIdx \<times> Word) list" where
  "iter_reg_values e =
     map (\<lambda>opn. (op_register_index opn, after (op_value opn))) (reg_ops (witness e))"

definition iter_mem_values :: "SyscallEffects \<Rightarrow> (word_addr \<times> Word) list" where
  "iter_mem_values e = map (\<lambda>opn. (op_addr opn, after (op_value opn))) (mem_ops (witness e))"

text \<open>The two argument registers, read and written back unchanged.\<close>

definition arg_reg_ops :: "Word \<Rightarrow> Word \<Rightarrow> WriteOp list" where
  "arg_reg_ops a0 a1 =
     [new_register_op reg_arg0 (change a0 a0) 0, new_register_op reg_arg1 (change a1 a1) 0]"

definition new_effects :: "WriteOp list \<Rightarrow> WriteOp list \<Rightarrow> SyscallEffects" where
  "new_effects mems regs = \<lparr>witness = \<lparr>mem_ops = mems, reg_ops = regs\<rparr>, next_pc = None\<rparr>"

definition assert_eq :: "string \<Rightarrow> bool \<Rightarrow> emu_error + unit" where
  "assert_eq msg b = (if b then Inr () else Inl (Panic msg))"

lemma assert_eq_Inr [simp]: "assert_eq msg b = Inr u \<longleftrightarrow> b"
  by (simp add: assert_eq_def)

subsection \<open>Keccak\<close>

definition KECCAK_CELLS :: usize where "KECCAK_CELLS = 25"
definition KECCAK_WORDS :: usize where "KECCAK_WORDS = KECCAK_CELLS * 2"

definition keccak_state_from_words :: "Word list \<Rightarrow> u64 list" where
  "keccak_state_from_words ws =
     map (\<lambda>chunk. ucast (chunk ! 0) OR push_bit 32 (ucast (chunk ! 1))) (chunks_exact 2 ws)"

definition keccak_state_into_words :: "u64 list \<Rightarrow> Word list" where
  "keccak_state_into_words st = concat (map (\<lambda>elem. [ucast elem, ucast (drop_bit 32 elem)]) st)"

text \<open>
  The shape of the calls with one pointer and a second argument that must be zero: a view of \<open>len\<close>
  words at the pointer, replaced by the words \<open>f\<close> computes from it.
\<close>

definition one_segment_call ::
  "nat \<Rightarrow> (Word list \<Rightarrow> emu_error + Word list) \<Rightarrow> VMState \<Rightarrow> emu_error + SyscallEffects" where
  "one_segment_call len f vm =
     bindE (vm_peek_register reg_arg0 vm) (\<lambda>ptr.
     bindE (vm_peek_register reg_arg1 vm) (\<lambda>arg1.
     bindE (assert_eq ''a1 == 0'' (arg1 = 0)) (\<lambda>_.
     bindE (new_MemoryView len ptr) (\<lambda>view.
     bindE (f (view_words vm view)) (\<lambda>output_words.
     bindE (view_write output_words view) (\<lambda>view'.
     bindE (assert_eq ''mem_ops.len()'' (length (view_mem_ops vm view') = len)) (\<lambda>_.
     Inr (new_effects (view_mem_ops vm view') (arg_reg_ops ptr 0)))))))))"

text \<open>
  The shape of the calls with two pointers: the segment at the first is replaced by the words \<open>f\<close>
  computes from both, the second is read.
\<close>

definition two_segment_call ::
  "nat \<Rightarrow> (Word list \<Rightarrow> Word list \<Rightarrow> emu_error + Word list) \<Rightarrow> VMState \<Rightarrow> emu_error + SyscallEffects" where
  "two_segment_call len f vm =
     bindE (vm_peek_register reg_arg0 vm) (\<lambda>p_ptr.
     bindE (vm_peek_register reg_arg1 vm) (\<lambda>q_ptr.
     bindE (new_MemoryView len p_ptr) (\<lambda>p_view.
     bindE (new_MemoryView len q_ptr) (\<lambda>q_view.
     bindE (f (view_words vm p_view) (view_words vm q_view)) (\<lambda>output_words.
     bindE (view_write output_words p_view) (\<lambda>p_view'.
     let ops = view_mem_ops vm p_view' @ view_mem_ops vm q_view in
     bindE (assert_eq ''mem_ops.len()'' (length ops = 2 * len)) (\<lambda>_.
     Inr (new_effects ops (arg_reg_ops p_ptr q_ptr)))))))))"

definition keccak_permute :: "('p, 'mp, 'fq, 'fq2, 'g1) crypto_lib \<Rightarrow> VMState \<Rightarrow> emu_error + SyscallEffects" where
  "keccak_permute lib =
     one_segment_call KECCAK_WORDS
       (\<lambda>ws. Inr (keccak_state_into_words (lib_keccakf lib (keccak_state_from_words ws))))"

subsection \<open>SHA-256 message schedule\<close>

definition SHA_EXTEND_WORDS :: usize where "SHA_EXTEND_WORDS = 64"

definition sha_extend_step :: "nat \<Rightarrow> u32 list \<Rightarrow> u32 list" where
  "sha_extend_step i w =
     (let s0 = word_rotr 7 (w ! (i - 15)) XOR word_rotr 18 (w ! (i - 15)) XOR drop_bit 3 (w ! (i - 15));
          s1 = word_rotr 17 (w ! (i - 2)) XOR word_rotr 19 (w ! (i - 2)) XOR drop_bit 10 (w ! (i - 2))
      in w[i := w ! (i - 16) + s0 + w ! (i - 7) + s1])"

definition sha_extend :: "u32 list \<Rightarrow> u32 list" where
  "sha_extend w = fold sha_extend_step [16..<64] w"

definition sha_extend_call :: "VMState \<Rightarrow> emu_error + SyscallEffects" where
  "sha_extend_call = one_segment_call SHA_EXTEND_WORDS (\<lambda>ws. Inr (sha_extend ws))"

subsection \<open>secp256k1\<close>

definition SECP256K1_ARG_WORDS :: usize where "SECP256K1_ARG_WORDS = 16"
definition COORDINATE_WORDS :: usize where "COORDINATE_WORDS = SECP256K1_ARG_WORDS div 2"

definition secp_point_from_words ::
  "('p, 'mp, 'fq, 'fq2, 'g1) crypto_lib \<Rightarrow> Word list \<Rightarrow> emu_error + 'p" where
  "secp_point_from_words lib ws =
     (let bytes = concat (map to_le_bytes ws) in
      unwrap (Panic ''secp::Point::from_slice'')
        (secp_from_slice lib (4 # rev (take 32 bytes) @ rev (drop 32 bytes))))"

definition words_from_bytes :: "u8 list \<Rightarrow> Word list" where
  "words_from_bytes bytes = map from_le_bytes (chunks_exact 4 bytes)"

definition secp_maybe_into_words ::
  "('p, 'mp, 'fq, 'fq2, 'g1) crypto_lib \<Rightarrow> 'mp \<Rightarrow> Word list" where
  "secp_maybe_into_words lib mp =
     (let bytes = tl (secp_serialize_uncompressed lib mp) in
      words_from_bytes (rev (take 32 bytes) @ rev (drop 32 bytes)))"

definition secp256k1_add :: "('p, 'mp, 'fq, 'fq2, 'g1) crypto_lib \<Rightarrow> VMState \<Rightarrow> emu_error + SyscallEffects" where
  "secp256k1_add lib =
     two_segment_call SECP256K1_ARG_WORDS (\<lambda>pws qws.
       bindE (secp_point_from_words lib pws) (\<lambda>p.
       bindE (secp_point_from_words lib qws) (\<lambda>q.
       Inr (secp_maybe_into_words lib (secp_add lib p q)))))"

definition secp256k1_double :: "('p, 'mp, 'fq, 'fq2, 'g1) crypto_lib \<Rightarrow> VMState \<Rightarrow> emu_error + SyscallEffects" where
  "secp256k1_double lib =
     one_segment_call SECP256K1_ARG_WORDS (\<lambda>pws.
       bindE (secp_point_from_words lib pws) (\<lambda>p.
       Inr (secp_maybe_into_words lib (secp_into_maybe lib (secp_times_two lib p)))))"

definition secp256k1_decompress :: "('p, 'mp, 'fq, 'fq2, 'g1) crypto_lib \<Rightarrow> VMState \<Rightarrow> emu_error + SyscallEffects" where
  "secp256k1_decompress lib vm =
     bindE (vm_peek_register reg_arg0 vm) (\<lambda>ptr.
     bindE (vm_peek_register reg_arg1 vm) (\<lambda>y_is_odd.
     bindE (new_MemoryView COORDINATE_WORDS ptr) (\<lambda>input_view.
     bindE (new_MemoryView COORDINATE_WORDS (ptr + of_nat (COORDINATE_WORDS * WORD_SIZE))) (\<lambda>output_view.
     bindE (if y_is_odd = 0 then Inr 2 else if y_is_odd = 1 then Inr 3
            else Inl (Panic ''y_is_odd should be 0/1'')) (\<lambda>parity_byte.
     bindE (unwrap (Panic ''secp::Point::from_slice'')
             (secp_from_slice lib (parity_byte # concat (map to_le_bytes (view_words vm input_view))))) (\<lambda>point.
     let y_bytes = drop 32 (tl (secp_serialize_uncompressed lib (secp_into_maybe lib point))) in
     bindE (view_write (words_from_bytes y_bytes) output_view) (\<lambda>output_view'.
     let ops = view_mem_ops vm input_view @ view_mem_ops vm output_view' in
     bindE (assert_eq ''mem_ops.len()'' (length ops = 2 * COORDINATE_WORDS)) (\<lambda>_.
     Inr (new_effects ops (arg_reg_ops ptr y_is_odd))))))))))"

subsection \<open>bn254\<close>

definition BN254_FP_WORDS :: usize where "BN254_FP_WORDS = 8"
definition BN254_FP2_WORDS :: usize where "BN254_FP2_WORDS = 2 * BN254_FP_WORDS"
definition BN254_POINT_WORDS :: usize where "BN254_POINT_WORDS = 2 * BN254_FP_WORDS"

definition bn254_fp_from_words :: "('p, 'mp, 'fq, 'fq2, 'g1) crypto_lib \<Rightarrow> Word list \<Rightarrow> emu_error + 'fq" where
  "bn254_fp_from_words lib ws =
     unwrap (Panic ''cannot parse Fq'') (fq_from_slice lib (rev (concat (map to_le_bytes ws))))"

definition bn254_fp_into_words :: "('p, 'mp, 'fq, 'fq2, 'g1) crypto_lib \<Rightarrow> 'fq \<Rightarrow> Word list" where
  "bn254_fp_into_words lib x = words_from_bytes (rev (fq_to_big_endian lib x))"

definition bn254_fp2_from_words :: "('p, 'mp, 'fq, 'fq2, 'g1) crypto_lib \<Rightarrow> Word list \<Rightarrow> emu_error + 'fq2" where
  "bn254_fp2_from_words lib ws =
     bindE (bn254_fp_from_words lib (take BN254_FP_WORDS ws)) (\<lambda>a.
     bindE (bn254_fp_from_words lib (drop BN254_FP_WORDS ws)) (\<lambda>b.
     Inr (fq2_new lib a b)))"

definition bn254_fp2_into_words :: "('p, 'mp, 'fq, 'fq2, 'g1) crypto_lib \<Rightarrow> 'fq2 \<Rightarrow> Word list" where
  "bn254_fp2_into_words lib x =
     bn254_fp_into_words lib (fq2_real lib x) @ bn254_fp_into_words lib (fq2_imaginary lib x)"

definition bn254_point_from_words :: "('p, 'mp, 'fq, 'fq2, 'g1) crypto_lib \<Rightarrow> Word list \<Rightarrow> emu_error + 'g1" where
  "bn254_point_from_words lib ws =
     bindE (bn254_fp_from_words lib (take BN254_FP_WORDS ws)) (\<lambda>a.
     bindE (bn254_fp_from_words lib (drop BN254_FP_WORDS ws)) (\<lambda>b.
     Inr (g1_new lib a b (fq_one lib))))"

definition bn254_point_into_words :: "('p, 'mp, 'fq, 'fq2, 'g1) crypto_lib \<Rightarrow> 'g1 \<Rightarrow> emu_error + Word list" where
  "bn254_point_into_words lib g =
     bindE (unwrap (Panic ''cannot unpack affine'') (affine_from_jacobian lib g)) (\<lambda>(x, y).
     Inr (bn254_fp_into_words lib x @ bn254_fp_into_words lib y))"

definition bn254_add :: "('p, 'mp, 'fq, 'fq2, 'g1) crypto_lib \<Rightarrow> VMState \<Rightarrow> emu_error + SyscallEffects" where
  "bn254_add lib =
     two_segment_call BN254_POINT_WORDS (\<lambda>pws qws.
       bindE (bn254_point_from_words lib pws) (\<lambda>p.
       bindE (bn254_point_from_words lib qws) (\<lambda>q.
       bn254_point_into_words lib (g1_add lib p q))))"

definition bn254_double :: "('p, 'mp, 'fq, 'fq2, 'g1) crypto_lib \<Rightarrow> VMState \<Rightarrow> emu_error + SyscallEffects" where
  "bn254_double lib =
     one_segment_call BN254_POINT_WORDS (\<lambda>pws.
       bindE (bn254_point_from_words lib pws) (\<lambda>p.
       bn254_point_into_words lib (g1_times_two lib p)))"

text \<open>\<open>bn254_fptower_binary_op\<close>, for a field with the given conversions and operation.\<close>

definition bn254_fptower_binary_op ::
  "nat \<Rightarrow> (Word list \<Rightarrow> emu_error + 'f) \<Rightarrow> ('f \<Rightarrow> Word list) \<Rightarrow> ('f \<Rightarrow> 'f \<Rightarrow> 'f) \<Rightarrow>
   VMState \<Rightarrow> emu_error + SyscallEffects" where
  "bn254_fptower_binary_op len from_words into_words oper =
     two_segment_call len (\<lambda>pws qws.
       bindE (from_words pws) (\<lambda>p. bindE (from_words qws) (\<lambda>q. Inr (into_words (oper p q)))))"

definition bn254_fp_add where
  "bn254_fp_add lib =
     bn254_fptower_binary_op BN254_FP_WORDS (bn254_fp_from_words lib) (bn254_fp_into_words lib) (fq_add lib)"

definition bn254_fp_mul where
  "bn254_fp_mul lib =
     bn254_fptower_binary_op BN254_FP_WORDS (bn254_fp_from_words lib) (bn254_fp_into_words lib) (fq_mul lib)"

definition bn254_fp2_add where
  "bn254_fp2_add lib =
     bn254_fptower_binary_op BN254_FP2_WORDS (bn254_fp2_from_words lib) (bn254_fp2_into_words lib) (fq2_add lib)"

definition bn254_fp2_mul where
  "bn254_fp2_mul lib =
     bn254_fptower_binary_op BN254_FP2_WORDS (bn254_fp2_from_words lib) (bn254_fp2_into_words lib) (fq2_mul lib)"

subsection \<open>The dispatcher\<close>

definition handle_syscall ::
  "('p, 'mp, 'fq, 'fq2, 'g1) crypto_lib \<Rightarrow> VMState \<Rightarrow> u32 \<Rightarrow> emu_error + SyscallEffects" where
  "handle_syscall lib vm function_code =
     (if function_code = KECCAK_PERMUTE then keccak_permute lib vm
      else if function_code = SECP256K1_ADD then secp256k1_add lib vm
      else if function_code = SECP256K1_DOUBLE then secp256k1_double lib vm
      else if function_code = SECP256K1_DECOMPRESS then secp256k1_decompress lib vm
      else if function_code = SHA_EXTEND then sha_extend_call vm
      else if function_code = BN254_ADD then bn254_add lib vm
      else if function_code = BN254_DOUBLE then bn254_double lib vm
      else if function_code = BN254_FP_ADD then bn254_fp_add lib vm
      else if function_code = BN254_FP_MUL then bn254_fp_mul lib vm
      else if function_code = BN254_FP2_ADD then bn254_fp2_add lib vm
      else if function_code = BN254_FP2_MUL then bn254_fp2_mul lib vm
      else Inl (UnknownSyscall function_code))"

end
