(* ===== verification/Isa.thy ===== *)
theory Isa
  imports Rv32im
begin

text \<open>
  The instruction set the emulator promises: RV32IM over mathematical integers, byte-addressed
  little-endian memory and 32 registers of which \<open>x0\<close> reads as zero. The lemmas show that the
  values \<open>ceno_emul/src/rv32im.rs\<close> computes with 32- and 64-bit machine operations are the ones
  of this specification; the locale \<open>machine_context\<close> states what the interpreter needs of an
  \<open>EmuContext\<close> and lifts the lemmas to its \<open>step\<close>.
\<close>

subsection \<open>Arithmetic and logic\<close>

text \<open>
  The integer whose low 32 bits an instruction writes, with signed operands read by \<open>sint\<close> and
  unsigned ones by \<open>uint\<close>, and the division conventions of the M extension.
\<close>

fun isa_alu :: "InsnKind \<Rightarrow> u32 \<Rightarrow> u32 \<Rightarrow> int option" where
  "isa_alu ADD a b = Some (uint a + uint b)"
| "isa_alu SUB a b = Some (uint a - uint b)"
| "isa_alu XOR_K a b = Some (uint a XOR uint b)"
| "isa_alu OR_K a b = Some (uint a OR uint b)"
| "isa_alu AND_K a b = Some (uint a AND uint b)"
| "isa_alu SLL a b = Some (uint a * 2 ^ (unat b mod 32))"
| "isa_alu SRL a b = Some (uint a div 2 ^ (unat b mod 32))"
| "isa_alu SRA a b = Some (sint a div 2 ^ (unat b mod 32))"
| "isa_alu SLT a b = Some (of_bool (sint a < sint b))"
| "isa_alu SLTU a b = Some (of_bool (uint a < uint b))"
| "isa_alu MUL a b = Some (sint a * sint b)"
| "isa_alu MULH a b = Some (sint a * sint b div 2 ^ 32)"
| "isa_alu MULHSU a b = Some (sint a * uint b div 2 ^ 32)"
| "isa_alu MULHU a b = Some (uint a * uint b div 2 ^ 32)"
| "isa_alu DIV a b = Some (if uint b = 0 then - 1 else sint a sdiv sint b)"
| "isa_alu DIVU a b = Some (if uint b = 0 then 2 ^ 32 - 1 else uint a div uint b)"
| "isa_alu REM a b = Some (if uint b = 0 then sint a else sint a smod sint b)"
| "isa_alu REMU a b = Some (if uint b = 0 then uint a else uint a mod uint b)"
| "isa_alu _ a b = None"

lemma shift_amount: "unat ((b :: u32) AND 0x1f) = unat b mod 32"
proof -
  have "b AND mask 5 = take_bit 5 b" by (simp add: take_bit_eq_mask)
  then show ?thesis
    by (simp add: mask_eq_exp_minus_1 take_bit_eq_mod unat_mod)
qed

lemma word_of_int_drop_bit: "drop_bit n (a :: 'a::len word) = word_of_int (uint a div 2 ^ n)"
proof -
  have "drop_bit n a = word_of_int (uint (drop_bit n a))" by simp
  also have "uint (drop_bit n a) = uint a div 2 ^ n"
    unfolding unsigned_drop_bit_eq by (simp add: drop_bit_eq_div take_bit_int_eq_self)
  finally show ?thesis .
qed

lemma word_of_int_push_bit: "push_bit n (a :: 'a::len word) = word_of_int (uint a * 2 ^ n)"
  by (simp add: push_bit_eq_mult)

lemma word_of_int_signed_drop_bit:
  "signed_drop_bit n (a :: 'a::len word) = word_of_int (sint a div 2 ^ n)"
proof -
  have "signed_drop_bit n a = word_of_int (sint (signed_drop_bit n a))" by simp
  then show ?thesis by (simp only: sint_signed_drop_bit_eq drop_bit_eq_div)
qed

lemma uint_32: "uint (a :: u32) < 2 ^ 32" "0 \<le> uint a"
  using uint_lt2p [of a] by simp_all

lemma sint_32: "sint (a :: u32) < 2 ^ 31" "- (2 ^ 31) \<le> sint a"
  using sint_lt [of a] sint_ge [of a] by simp_all

lemma sint_64_word_of_int:
  assumes "- (2 ^ 63) \<le> k" and "k < 2 ^ 63"
  shows "sint (word_of_int k :: i64) = k"
  using assms by (simp add: signed_of_int signed_take_bit_int_eq_self)

lemma abs_prod_bound:
  assumes "- (2 ^ 31) \<le> (x :: int)" "x \<le> 2 ^ 31" "- (2 ^ 32) < y" "y < (2 ^ 32 :: int)"
  shows "- (2 ^ 63) \<le> x * y" and "x * y < 2 ^ 63"
proof -
  have "\<bar>x\<bar> \<le> 2 ^ 31" and "\<bar>y\<bar> \<le> 2 ^ 32 - 1" using assms by auto
  then have "\<bar>x * y\<bar> \<le> 2 ^ 31 * (2 ^ 32 - 1)"
    unfolding abs_mult by (intro mult_mono) auto
  then show "- (2 ^ 63) \<le> x * y" and "x * y < 2 ^ 63" by auto
qed

lemma high_word_signed:
  assumes "- (2 ^ 63) \<le> k" and "k < 2 ^ 63"
  shows "(ucast (signed_drop_bit 32 (word_of_int k :: i64)) :: u32) = word_of_int (k div 2 ^ 32)"
proof -
  have "signed_drop_bit 32 (word_of_int k :: i64) = word_of_int (k div 2 ^ 32)"
    unfolding word_of_int_signed_drop_bit sint_64_word_of_int [OF assms] ..
  then show ?thesis
    by (simp add: unsigned_of_int word_of_int_eq_iff take_bit_eq_mod mod_mod_cancel)
qed

lemma mulh_correct:
  "alu_reg MULH a b = map_option word_of_int (isa_alu MULH a b)"
proof -
  have "sign_extend_u32 a * sign_extend_u32 b = word_of_int (sint a * sint b)"
    by (simp add: sign_extend_u32_def)
  moreover have "- (2 ^ 63) \<le> sint a * sint b" "sint a * sint b < 2 ^ 63"
    using abs_prod_bound [of "sint a" "sint b"] sint_32 [of a] sint_32 [of b] by auto
  ultimately show ?thesis by (simp only: alu_reg.simps isa_alu.simps option.map high_word_signed)
qed

lemma mulhsu_correct:
  "alu_reg MULHSU a b = map_option word_of_int (isa_alu MULHSU a b)"
proof -
  have "sign_extend_u32 a * (ucast b :: i64) = word_of_int (sint a * uint b)"
    by (simp add: sign_extend_u32_def)
  moreover have "- (2 ^ 63) \<le> sint a * uint b" "sint a * uint b < 2 ^ 63"
    using abs_prod_bound [of "sint a" "uint b"] sint_32 [of a] uint_32 [of b] by auto
  ultimately show ?thesis by (simp only: alu_reg.simps isa_alu.simps option.map high_word_signed)
qed


lemma ucast_drop_bit_32: "(ucast (drop_bit 32 (x :: u64)) :: u32) = word_of_int (uint x div 2 ^ 32)"
  unfolding word_of_int_drop_bit
  by (simp add: unsigned_of_int word_of_int_eq_iff take_bit_eq_mod mod_mod_cancel)

lemma mulhu_correct:
  "alu_reg MULHU a b = map_option word_of_int (isa_alu MULHU a b)"
proof -
  have "uint a * uint b < 2 ^ 64"
    using mult_strict_mono [of "uint a" "2 ^ 32" "uint b" "2 ^ 32"] uint_32 [of a] uint_32 [of b]
    by simp
  then have "uint ((ucast a :: u64) * ucast b) = uint a * uint b"
    by (simp add: uint_word_ariths unsigned_ucast_eq take_bit_eq_mod mod_mult_eq mod_pos_pos_trivial)
  then show ?thesis by (simp only: alu_reg.simps isa_alu.simps option.map ucast_drop_bit_32)
qed

lemma word_of_int_bits:
  "(a :: 'a::len word) XOR b = word_of_int (uint a XOR uint b)"
  "a OR b = word_of_int (uint a OR uint b)"
  "a AND b = word_of_int (uint a AND uint b)"
  by (simp_all flip: unsigned_xor_eq unsigned_or_eq unsigned_and_eq)

theorem alu_reg_isa: "alu_reg knd a b = map_option word_of_int (isa_alu knd a b)"
proof (cases knd)
  case SLL
  then show ?thesis by (simp only: alu_reg.simps isa_alu.simps option.map shift_amount word_of_int_push_bit)
next
  case SRL
  then show ?thesis by (simp only: alu_reg.simps isa_alu.simps option.map shift_amount word_of_int_drop_bit)
next
  case SRA
  then show ?thesis by (simp only: alu_reg.simps isa_alu.simps option.map shift_amount word_of_int_signed_drop_bit)
next
  case MULH then show ?thesis by (simp only: mulh_correct)
next
  case MULHSU then show ?thesis by (simp only: mulhsu_correct)
next
  case MULHU then show ?thesis by (simp only: mulhu_correct)
next
  case SLT then show ?thesis by (simp add: word_sless_alt)
next
  case SLTU then show ?thesis by (simp add: word_less_def)
next
  case DIV then show ?thesis by (simp add: wrapping_div_def uint_0_iff)
next
  case REM then show ?thesis by (simp add: wrapping_rem_def uint_0_iff)
next
  case DIVU then show ?thesis by (simp add: word_div_def uint_0_iff)
next
  case REMU then show ?thesis by (simp add: word_mod_def uint_0_iff)
next
  case XOR_K then show ?thesis by (simp only: alu_reg.simps isa_alu.simps option.map word_of_int_bits)
next
  case OR_K then show ?thesis by (simp only: alu_reg.simps isa_alu.simps option.map word_of_int_bits)
next
  case AND_K then show ?thesis by (simp only: alu_reg.simps isa_alu.simps option.map word_of_int_bits)
qed simp_all


text \<open>An immediate instruction is the register instruction with the immediate as second operand.\<close>

fun reg_form :: "InsnKind \<Rightarrow> InsnKind option" where
  "reg_form ADDI = Some ADD" | "reg_form XORI = Some XOR_K" | "reg_form ORI = Some OR_K"
| "reg_form ANDI = Some AND_K" | "reg_form SLLI = Some SLL" | "reg_form SRLI = Some SRL"
| "reg_form SRAI = Some SRA" | "reg_form SLTI = Some SLT" | "reg_form SLTIU = Some SLTU"
| "reg_form _ = None"

lemma alu_imm_reg_form: "alu_imm knd a b = Option.bind (reg_form knd) (\<lambda>k. alu_reg k a b)"
  by (cases knd) simp_all

lemma reg_form_isa: "isa_alu k a b = None \<Longrightarrow> reg_form knd \<noteq> Some k"
  by (cases knd) auto

subsection \<open>Branches\<close>

fun isa_branch :: "InsnKind \<Rightarrow> u32 \<Rightarrow> u32 \<Rightarrow> bool option" where
  "isa_branch BEQ a b = Some (uint a = uint b)"
| "isa_branch BNE a b = Some (uint a \<noteq> uint b)"
| "isa_branch BLT a b = Some (sint a < sint b)"
| "isa_branch BGE a b = Some (sint a \<ge> sint b)"
| "isa_branch BLTU a b = Some (uint a < uint b)"
| "isa_branch BGEU a b = Some (uint a \<ge> uint b)"
| "isa_branch _ a b = None"

lemma branch_taken_isa: "branch_taken knd a b = isa_branch knd a b"
  by (cases knd) (simp_all add: word_uint_eq_iff word_sless_alt word_sle_eq word_less_def word_le_def)

subsection \<open>Byte-addressed memory\<close>

definition byte_of :: "nat \<Rightarrow> u32 \<Rightarrow> u8" where
  "byte_of k d = ucast (drop_bit (8 * k) d)"

definition byte_at :: "(word_addr \<Rightarrow> u32) \<Rightarrow> u32 \<Rightarrow> u8" where
  "byte_at m a = byte_of (unat (a AND 3)) (m (waddr (ByteAddr a)))"

fun isa_load :: "InsnKind \<Rightarrow> (u32 \<Rightarrow> u8) \<Rightarrow> u32 \<Rightarrow> u32 option" where
  "isa_load LB m a = Some (scast (m a))"
| "isa_load LBU m a = Some (ucast (m a))"
| "isa_load LH m a = Some (scast (word_cat (m (a + 1)) (m a) :: 16 word))"
| "isa_load LHU m a = Some (ucast (word_cat (m (a + 1)) (m a) :: 16 word))"
| "isa_load LW m a =
     Some (word_cat (word_cat (m (a + 3)) (m (a + 2)) :: 16 word)
                    (word_cat (m (a + 1)) (m a) :: 16 word))"
| "isa_load _ m a = None"

fun isa_store :: "InsnKind \<Rightarrow> (u32 \<Rightarrow> u8) \<Rightarrow> u32 \<Rightarrow> u32 \<Rightarrow> (u32 \<Rightarrow> u8) option" where
  "isa_store SB m a v = Some (m(a := byte_of 0 v))"
| "isa_store SH m a v = Some (m(a := byte_of 0 v, a + 1 := byte_of 1 v))"
| "isa_store SW m a v =
     Some (m(a := byte_of 0 v, a + 1 := byte_of 1 v, a + 2 := byte_of 2 v, a + 3 := byte_of 3 v))"
| "isa_store _ m a v = None"

text \<open>The size of an access; it must be a multiple of it for the access to be aligned.\<close>

fun access_size :: "InsnKind \<Rightarrow> nat" where
  "access_size LH = 2" | "access_size LHU = 2" | "access_size SH = 2"
| "access_size LW = 4" | "access_size SW = 4"
| "access_size _ = 1"

lemma unat_and_3: "unat ((a :: u32) AND 3) = unat a mod 4"
  by (simp add: and_3_eq_mod unat_mod_4)

lemma and_1_eq_0: "(a :: u32) AND 1 = 0 \<longleftrightarrow> unat a mod 2 = 0"
proof -
  have "a AND mask 1 = take_bit 1 a" by (simp add: take_bit_eq_mask)
  then have "unat (a AND 1) = unat a mod 2"
    by (simp add: take_bit_eq_mod unat_mod)
  then show ?thesis by (metis unat_eq_0)
qed

lemma and_3_eq_0: "(a :: u32) AND 3 = 0 \<longleftrightarrow> unat a mod 4 = 0"
  by (metis unat_and_3 unat_eq_0)

lemma bit_offset_eq: "bit_offset (ByteAddr a) = 8 * (unat a mod 4)"
proof -
  have "unat (8 * (a AND 3)) = 8 * unat (a AND 3)"
    by (subst unat_mult_lem [THEN iffD1]) (simp_all add: unat_and_3)
  then show ?thesis by (simp add: bit_offset_def unat_and_3)
qed

lemma nat_same_word:
  assumes "(x :: nat) mod 4 + j < 4"
  shows "(x + j) mod 4 = x mod 4 + j" and "(x + j) div 4 = x div 4"
proof -
  have "(x + j) mod 4 = (x mod 4 + j) mod 4" by (simp add: mod_add_left_eq)
  with assms show m: "(x + j) mod 4 = x mod 4 + j" by simp
  have "x + j = 4 * ((x + j) div 4) + (x + j) mod 4" and "x = 4 * (x div 4) + x mod 4"
    by simp_all
  with m show "(x + j) div 4 = x div 4" by linarith
qed

lemma same_word:
  assumes "unat (a :: u32) mod 4 + j < 4"
  shows "waddr (ByteAddr (a + of_nat j)) = waddr (ByteAddr a)"
    and "unat (a + of_nat j) mod 4 = unat a mod 4 + j"
proof -
  have "unat a = 4 * (unat a div 4) + unat a mod 4" and "unat a div 4 < 1073741824"
    using unat_u32_less [of a] by (simp_all add: div_less_iff_less_mult)
  with assms have "unat a + j < 4294967296" by linarith
  then have u: "unat (a + of_nat j) = unat a + j"
    using assms by (simp add: unat_word_ariths unat_of_nat)
  show "unat (a + of_nat j) mod 4 = unat a mod 4 + j"
    unfolding u by (rule nat_same_word(1) [OF assms])
  have "unat (word_addr_0 (waddr (ByteAddr (a + of_nat j)))) =
      unat (word_addr_0 (waddr (ByteAddr a)))"
    unfolding word_addr_0_waddr byte_addr.sel u by (rule nat_same_word(2) [OF assms])
  then show "waddr (ByteAddr (a + of_nat j)) = waddr (ByteAddr a)"
    unfolding word_unat_eq_iff [symmetric] by (rule word_addr.expand)
qed

lemma byte_at_same_word:
  assumes "unat (a :: u32) mod 4 + j < 4"
  shows "byte_at m (a + of_nat j) = byte_of (unat a mod 4 + j) (m (waddr (ByteAddr a)))"
  using same_word [OF assms] by (simp add: byte_at_def unat_and_3)

lemma byte_at_word: "byte_at m a = byte_of (unat a mod 4) (m (waddr (ByteAddr a)))"
  by (simp add: byte_at_def unat_and_3)

lemma byte_load_bits:
  "drop_bit (8 * k) (d :: u32) AND 0xff = ucast (byte_of k d)"
proof -
  have "drop_bit (8 * k) d AND mask 8 = ucast (byte_of k d)"
    by (rule bit_word_eqI) (auto simp: byte_of_def bit_simps)
  then show ?thesis by (simp add: mask_eq_exp_minus_1)
qed

lemma half_load_bits:
  "drop_bit (8 * k) (d :: u32) AND 0xffff =
   ucast (word_cat (byte_of (k + 1) d) (byte_of k d) :: 16 word)"
proof -
  have "drop_bit (8 * k) d AND mask 16 =
      ucast (word_cat (byte_of (k + 1) d) (byte_of k d) :: 16 word)"
    by (rule bit_word_eqI) (auto simp: byte_of_def bit_simps bit_word_cat_iff)
  then show ?thesis by (simp add: mask_eq_exp_minus_1)
qed

lemma word_load_bits:
  "d = word_cat (word_cat (byte_of 3 d) (byte_of 2 d) :: 16 word)
                (word_cat (byte_of 1 d) (byte_of 0 d) :: 16 word)"
  by (rule bit_word_eqI) (auto simp: byte_of_def bit_simps bit_word_cat_iff)

lemma not_mask_u32: "NOT (mask 8) = (0xffffff00 :: u32)" "NOT (mask 16) = (0xffff0000 :: u32)"
  by (simp_all add: mask_eq_exp_minus_1)

lemma sign_extend_8: 
  "(if (ucast (b :: u8) :: u32) AND 0x80 \<noteq> 0 then ucast b OR 0xffffff00 else ucast b) = (scast b :: u32)"
proof -
  have "(ucast b :: u32) AND 2 ^ 7 \<noteq> 0 \<longleftrightarrow> bit b 7"
    unfolding and_exp_eq_0_iff_not_bit by (simp add: bit_simps)
  moreover have "(if bit b 7 then ucast b OR NOT (mask 8) else (ucast b :: u32)) = scast b"
  proof (rule bit_word_eqI)
    fix n assume "n < LENGTH(32)"
    moreover have "n < 7 \<or> n = 7 \<or> n \<ge> 8" by auto
    ultimately show "bit (if bit b 7 then ucast b OR NOT (mask 8) else (ucast b :: u32)) n =
        bit (scast b :: u32) n"
      by (auto simp: bit_simps min_def dest: bit_imp_le_length)
  qed
  ultimately show ?thesis unfolding not_mask_u32 by simp
qed

lemma sign_extend_16: 
  "(if (ucast (b :: 16 word) :: u32) AND 0x8000 \<noteq> 0 then ucast b OR 0xffff0000 else ucast b) =
   (scast b :: u32)"
proof -
  have "(ucast b :: u32) AND 2 ^ 15 \<noteq> 0 \<longleftrightarrow> bit b 15"
    unfolding and_exp_eq_0_iff_not_bit by (simp add: bit_simps)
  moreover have "(if bit b 15 then ucast b OR NOT (mask 16) else (ucast b :: u32)) = scast b"
  proof (rule bit_word_eqI)
    fix n assume "n < LENGTH(32)"
    moreover have "n < 15 \<or> n = 15 \<or> n \<ge> 16" by auto
    ultimately show "bit (if bit b 15 then ucast b OR NOT (mask 16) else (ucast b :: u32)) n =
        bit (scast b :: u32) n"
      by (auto simp: bit_simps min_def dest: bit_imp_le_length)
  qed
  ultimately show ?thesis unfolding not_mask_u32 by simp
qed


text \<open>An aligned load reads the bytes at its address and the following ones.\<close>

theorem load_value_isa:
  assumes "unat a mod access_size knd = 0" and "isa_load knd (byte_at m) a = Some v"
  shows "load_value knd (ByteAddr a) (m (waddr (ByteAddr a))) = Inr v"
proof -
  let ?d = "m (waddr (ByteAddr a))" and ?k = "unat a mod 4"
  note eqs = bit_offset_eq byte_load_bits half_load_bits sign_extend_8 sign_extend_16
  have half: "byte_at m (a + 1) = byte_of (?k + 1) ?d" if "unat a mod 2 = 0"
  proof -
    have "?k + 1 < 4" using that by presburger
    then show ?thesis using byte_at_same_word [of a 1 m] by simp
  qed
  show ?thesis
  proof (cases knd)
    case LB
    then show ?thesis using assms(2) by (simp add: byte_at_word [of m a] eqs Let_def)
  next
    case LBU
    then show ?thesis using assms(2) by (simp add: byte_at_word [of m a] eqs Let_def)
  next
    case LH
    then have "unat a mod 2 = 0" using assms(1) by simp
    with LH show ?thesis using assms(2)
      by (simp add: byte_at_word [of m a] half eqs Let_def and_1_eq_0)
  next
    case LHU
    then have "unat a mod 2 = 0" using assms(1) by simp
    with LHU show ?thesis using assms(2)
      by (simp add: byte_at_word [of m a] half eqs Let_def and_1_eq_0)
  next
    case LW
    then have k: "?k = 0" using assms(1) by simp
    then have "byte_at m (a + of_nat j) = byte_of j ?d" if "j < 4" for j
      using byte_at_same_word [of a j m] that by simp
    from this [of 0] this [of 1] this [of 2] this [of 3] LW k show ?thesis
      using assms(2) word_load_bits [of ?d] by (simp add: and_3_eq_0)
  qed (use assms(2) in simp_all)
qed


text \<open>An aligned store changes exactly the bytes it covers.\<close>

lemma byte_of_set:
  assumes "k < 4"
  shows "byte_of k ((d XOR (d AND push_bit (8 * k') 0xff)) OR push_bit (8 * k') (v AND 0xff)) =
    (if k = k' then byte_of 0 v else byte_of k d)"
proof -
  have "byte_of k ((d XOR (d AND push_bit (8 * k') (mask 8))) OR push_bit (8 * k') (v AND mask 8)) =
    (if k = k' then byte_of 0 v else byte_of k d)"
  proof (rule bit_word_eqI)
    fix n assume n: "n < LENGTH(8)"
    then have "8 * k' \<le> 8 * k + n \<and> 8 * k + n - 8 * k' < 8 \<longleftrightarrow> k = k'" by (simp, presburger)
    with n assms show "bit (byte_of k
         ((d XOR (d AND push_bit (8 * k') (mask 8))) OR push_bit (8 * k') (v AND mask 8))) n =
      bit (if k = k' then byte_of 0 v else byte_of k d) n"
      by (auto simp: byte_of_def bit_simps)
  qed
  then show ?thesis by (simp add: mask_eq_exp_minus_1)
qed

lemma byte_of_set_half:
  assumes "k < 4" and "even k'" and "k' < 4"
  shows "byte_of k ((d XOR (d AND push_bit (8 * k') 0xffff)) OR push_bit (8 * k') (v AND 0xffff)) =
    (if k = k' then byte_of 0 v else if k = k' + 1 then byte_of 1 v else byte_of k d)"
proof -
  have "byte_of k ((d XOR (d AND push_bit (8 * k') (mask 16))) OR push_bit (8 * k') (v AND mask 16)) =
    (if k = k' then byte_of 0 v else if k = k' + 1 then byte_of 1 v else byte_of k d)"
  proof (rule bit_word_eqI)
    fix n assume n: "n < LENGTH(8)"
    then have "8 * k' \<le> 8 * k + n \<and> 8 * k + n - 8 * k' < 16 \<longleftrightarrow> k = k' \<or> k = k' + 1"
      by (simp, presburger)
    with n assms show "bit (byte_of k
         ((d XOR (d AND push_bit (8 * k') (mask 16))) OR push_bit (8 * k') (v AND mask 16))) n =
      bit (if k = k' then byte_of 0 v else if k = k' + 1 then byte_of 1 v else byte_of k d) n"
      by (auto simp: byte_of_def bit_simps)
  qed
  then show ?thesis by (simp add: mask_eq_exp_minus_1)
qed

lemma addr_split: "(x :: u32) = y \<longleftrightarrow> waddr (ByteAddr x) = waddr (ByteAddr y) \<and> unat x mod 4 = unat y mod 4"
proof
  assume h: "waddr (ByteAddr x) = waddr (ByteAddr y) \<and> unat x mod 4 = unat y mod 4"
  then have "unat x div 4 = unat y div 4"
    by (metis word_addr_0_waddr byte_addr.sel)
  with h have "unat x = unat y" by (metis div_mult_mod_eq)
  then show "x = y" by (simp only: word_unat_eq_iff)
qed simp

text \<open>Writing the word of \<open>a\<close> so that its byte \<open>k\<close> becomes \<open>f k\<close> writes byte \<open>j\<close> of the access.\<close>

lemma byte_at_update:
  "byte_at (m(waddr (ByteAddr a) := d)) x =
    (if waddr (ByteAddr x) = waddr (ByteAddr a) then byte_of (unat x mod 4) d else byte_at m x)"
  by (simp add: byte_at_word)

lemma store_value_isa:
  assumes "unat a mod access_size knd = 0" and "isa_store knd (byte_at m) a v = Some m'"
  shows "\<exists>d. store_value knd (ByteAddr a) v (m (waddr (ByteAddr a))) = Inr d \<and>
    byte_at (m(waddr (ByteAddr a) := d)) = m'"
proof -
  let ?w = "waddr (ByteAddr a)" and ?k = "unat a mod 4"
  have at: "x = a + of_nat j \<longleftrightarrow> waddr (ByteAddr x) = ?w \<and> unat x mod 4 = ?k + j"
    if "?k + j < 4" for x j
    using same_word [OF that] by (simp add: addr_split [of x])
  have at0: "x = a \<longleftrightarrow> waddr (ByteAddr x) = ?w \<and> unat x mod 4 = ?k" for x
    using at [of 0] by simp
  show ?thesis
  proof (cases knd)
    case SB
    define d where "d = (m ?w XOR (m ?w AND push_bit (8 * ?k) 0xff)) OR push_bit (8 * ?k) (v AND 0xff)"
    have d: "byte_of k d = (if k = ?k then byte_of 0 v else byte_of k (m ?w))" if "k < 4" for k
      unfolding d_def by (rule byte_of_set [OF that])
    have "byte_at (m(?w := d)) x = ((byte_at m)(a := byte_of 0 v)) x" for x
      unfolding byte_at_update by (simp add: d at0 [of x] byte_at_word [of m x])
    with SB assms(2) show ?thesis by (auto simp: bit_offset_eq Let_def d_def)
  next
    case SH
    then have a2: "unat a mod 2 = 0" using assms(1) by simp
    then have k: "even ?k" "?k + 1 < 4" by presburger+
    define d where "d = (m ?w XOR (m ?w AND push_bit (8 * ?k) 0xffff)) OR push_bit (8 * ?k) (v AND 0xffff)"
    have d: "byte_of k d = (if k = ?k then byte_of 0 v else if k = ?k + 1 then byte_of 1 v
        else byte_of k (m ?w))" if "k < 4" for k
      unfolding d_def by (rule byte_of_set_half) (use that k in auto)
    have at1: "x = a + 1 \<longleftrightarrow> waddr (ByteAddr x) = ?w \<and> unat x mod 4 = ?k + 1" for x
      using at [of 1] k by simp
    have "byte_at (m(?w := d)) x = ((byte_at m)(a := byte_of 0 v, a + 1 := byte_of 1 v)) x" for x
      unfolding byte_at_update by (simp add: d fun_upd_apply at0 [of x] at1 [of x] byte_at_word [of m x])
    with SH assms(2) a2 show ?thesis by (auto simp: bit_offset_eq Let_def d_def and_1_eq_0)
  next
    case SW
    then have k: "?k = 0" using assms(1) by simp
    have "byte_at (m(?w := v)) x = ((byte_at m)(a := byte_of 0 v, a + 1 := byte_of 1 v,
        a + 2 := byte_of 2 v, a + 3 := byte_of 3 v)) x" for x
    proof -
      have "unat x mod 4 = 0 \<or> unat x mod 4 = 1 \<or> unat x mod 4 = 2 \<or> unat x mod 4 = 3" by auto
      moreover have "x = a + 1 \<longleftrightarrow> waddr (ByteAddr x) = ?w \<and> unat x mod 4 = 1"
        "x = a + 2 \<longleftrightarrow> waddr (ByteAddr x) = ?w \<and> unat x mod 4 = 2"
        "x = a + 3 \<longleftrightarrow> waddr (ByteAddr x) = ?w \<and> unat x mod 4 = 3"
        using at [of 1] at [of 2] at [of 3] k by (simp_all add: numeral_2_eq_2)
      ultimately show ?thesis
        unfolding byte_at_update fun_upd_apply at0 [of x] k by (auto simp: byte_at_word [of m x])
    qed
    then have "byte_at (m(?w := v)) = (byte_at m)(a := byte_of 0 v, a + 1 := byte_of 1 v,
        a + 2 := byte_of 2 v, a + 3 := byte_of 3 v)" by (rule ext)
    with SW assms(2) k show ?thesis by (simp add: and_3_eq_0)
  qed (use assms(2) in simp_all)
qed


lemma load_value_aligned:
  "load_value knd (ByteAddr a) d = Inr v \<Longrightarrow> unat a mod access_size knd = 0"
  by (cases knd) (auto simp: and_1_eq_0 and_3_eq_0 split: if_splits)

lemma store_value_aligned:
  "store_value knd (ByteAddr a) v d = Inr d' \<Longrightarrow> unat a mod access_size knd = 0"
  by (cases knd) (auto simp: and_1_eq_0 and_3_eq_0 split: if_splits)

lemma isa_load_defined: "category knd = Load \<Longrightarrow> \<exists>v. isa_load knd m a = Some v"
  by (cases knd) simp_all

lemma isa_store_defined: "category knd = Store \<Longrightarrow> \<exists>m'. isa_store knd m a v = Some m'"
  by (cases knd) simp_all

subsection \<open>The abstract machine\<close>

text \<open>
  The architectural state: the pc, the registers (\<open>x0\<close> included, always read as zero) and the byte
  memory. \<open>isa_exec\<close> is the effect of one instruction that completes; \<open>None\<close> for the kinds that are
  not instructions of the machine proper (\<open>ECALL\<close>, \<open>INVALID\<close>).
\<close>

record isa_state =
  isa_pc :: u32
  isa_reg :: "nat \<Rightarrow> u32"
  isa_mem :: "u32 \<Rightarrow> u8"

definition read_reg :: "isa_state \<Rightarrow> nat \<Rightarrow> u32" where
  "read_reg s i = (if i = 0 then 0 else isa_reg s i)"

definition write_reg :: "nat \<Rightarrow> u32 \<Rightarrow> isa_state \<Rightarrow> isa_state" where
  "write_reg i v s = (if i = 0 then s else s\<lparr>isa_reg := (isa_reg s)(i := v)\<rparr>)"

definition isa_exec :: "Instruction \<Rightarrow> isa_state \<Rightarrow> isa_state option" where
  "isa_exec insn s =
     (let knd = insn_kind insn; pc = isa_pc s; imm = insn_imm insn; rd = insn_rd insn;
          a = read_reg s (insn_rs1 insn); b = read_reg s (insn_rs2 insn);
          next = s\<lparr>isa_pc := pc + 4\<rparr> in
      case category knd of
        Compute \<Rightarrow>
          (if knd = JAL then Some (write_reg rd (pc + 4) (s\<lparr>isa_pc := pc + imm\<rparr>))
           else if knd = JALR then Some (write_reg rd (pc + 4) (s\<lparr>isa_pc := (a + imm) AND NOT 1\<rparr>))
           else case reg_form knd of
             Some k \<Rightarrow> map_option (\<lambda>v. write_reg rd (word_of_int v) next) (isa_alu k a imm)
           | None \<Rightarrow> map_option (\<lambda>v. write_reg rd (word_of_int v) next) (isa_alu knd a b))
      | Branch \<Rightarrow> map_option (\<lambda>t. if t then s\<lparr>isa_pc := pc + imm\<rparr> else next) (isa_branch knd a b)
      | Load \<Rightarrow> map_option (\<lambda>v. write_reg rd v next) (isa_load knd (isa_mem s) (a + imm))
      | Store \<Rightarrow> map_option (\<lambda>m. next\<lparr>isa_mem := m\<rparr>) (isa_store knd (isa_mem s) (a + imm) b)
      | _ \<Rightarrow> None)"

text \<open>An instruction names architectural registers only.\<close>

definition wf_insn :: "Instruction \<Rightarrow> bool" where
  "wf_insn insn \<longleftrightarrow> insn_rs1 insn < 32 \<and> insn_rs2 insn < 32 \<and> insn_rd insn < 32"

text \<open>The abstract state of a machine whose registers and words are given by \<open>reg\<close> and \<open>mem\<close>.\<close>

definition isa_view :: "u32 \<Rightarrow> (nat \<Rightarrow> u32) \<Rightarrow> (word_addr \<Rightarrow> u32) \<Rightarrow> isa_state" where
  "isa_view pc reg mem =
     \<lparr>isa_pc = pc, isa_reg = (\<lambda>i. if 0 < i \<and> i < 32 then reg i else 0), isa_mem = byte_at mem\<rparr>"

lemma isa_view_simps [simp]:
  "isa_pc (isa_view p r m) = p"
  "isa_mem (isa_view p r m) = byte_at m"
  "(isa_view p r m)\<lparr>isa_pc := q\<rparr> = isa_view q r m"
  "(isa_view p r m)\<lparr>isa_mem := byte_at m'\<rparr> = isa_view p r m'"
  by (simp_all add: isa_view_def)

subsection \<open>What the interpreter needs of an \<open>EmuContext\<close>\<close>

text \<open>
  The contract of the trait \<open>EmuContext\<close>, over the pc, the registers and the memory words of a
  context. Every law is about calls that return a value: a context may fail, and may keep a trace
  besides the machine state.
\<close>

locale machine_context =
  fixes c :: "'s emu_context"
    and pc_of :: "'s \<Rightarrow> u32"
    and reg_of :: "'s \<Rightarrow> nat \<Rightarrow> u32"
    and mem_of :: "'s \<Rightarrow> word_addr \<Rightarrow> u32"
    and machine_inv :: "'s \<Rightarrow> bool"
  assumes get_pc: "get_pc c s = ByteAddr (pc_of s)"
    and set_pc: "pc_of (set_pc c a s) = byte_addr_0 a" "reg_of (set_pc c a s) = reg_of s"
      "mem_of (set_pc c a s) = mem_of s" "machine_inv (set_pc c a s) = machine_inv s"
    and on_normal_end: "pc_of (on_normal_end c insn s) = pc_of s"
      "reg_of (on_normal_end c insn s) = reg_of s" "mem_of (on_normal_end c insn s) = mem_of s"
    and trap_fails: "trap c cause s \<noteq> (Inr r, s')"
    and load_register: "load_register c i s = (Inr v, s') \<Longrightarrow> i < 32 \<Longrightarrow>
      v = reg_of s i \<and> pc_of s' = pc_of s \<and> reg_of s' = reg_of s \<and> mem_of s' = mem_of s \<and>
      (machine_inv s \<longrightarrow> machine_inv s')"
    and store_register: "store_register c i v s = (Inr u, s') \<Longrightarrow>
      pc_of s' = pc_of s \<and> (\<forall>j < 32. 0 < j \<longrightarrow> reg_of s' j = (if i = j then v else reg_of s j)) \<and>
      mem_of s' = mem_of s"
    and load_memory: "load_memory c w s = (Inr v, s') \<Longrightarrow>
      v = mem_of s w \<and> pc_of s' = pc_of s \<and> reg_of s' = reg_of s \<and> mem_of s' = mem_of s"
    and peek_memory: "peek_memory c w s = mem_of s w"
    and store_memory: "store_memory c w v s = (Inr u, s') \<Longrightarrow>
      pc_of s' = pc_of s \<and> reg_of s' = reg_of s \<and> mem_of s' = (mem_of s)(w := v)"
    and fetch: "fetch c w s = (Inr f, s') \<Longrightarrow>
      pc_of s' = pc_of s \<and> reg_of s' = reg_of s \<and> mem_of s' = mem_of s \<and> (machine_inv s \<longrightarrow> machine_inv s')"
    and zero_register: "machine_inv s \<Longrightarrow> reg_of s 0 = 0"
begin

lemma reg_view:
  assumes "machine_inv s" and "i < 32"
  shows "read_reg (isa_view p (reg_of s) m) i = reg_of s i"
  using assms zero_register by (simp add: read_reg_def isa_view_def)

lemma store_register_view:
  assumes "store_register c (unat (rd_internal insn)) v s = (Inr u, s')"
    and "insn_format (insn_kind insn) \<in> {Fmt_R, Fmt_I, Fmt_J}" and "insn_rd insn < 32"
  shows "isa_view p (reg_of s') (mem_of s') =
    write_reg (insn_rd insn) v (isa_view p (reg_of s) (mem_of s))"
    and "pc_of s' = pc_of s"
proof -
  have rd: "unat (rd_internal insn) = (if insn_rd insn = 0 then 32 else insn_rd insn)"
    using assms(2,3) by (auto simp: rd_internal_def RD_NULL_def unat_of_nat)
  show "pc_of s' = pc_of s" using store_register [OF assms(1)] by simp
  show "isa_view p (reg_of s') (mem_of s') =
    write_reg (insn_rd insn) v (isa_view p (reg_of s) (mem_of s))"
  proof -
    have "mem_of s' = mem_of s"
      and "\<forall>j < 32. 0 < j \<longrightarrow> reg_of s' j = (if unat (rd_internal insn) = j then v else reg_of s j)"
      using store_register [OF assms(1)] by auto
    then show ?thesis using assms(3) by (auto simp: isa_view_def write_reg_def rd)
  qed
qed

lemma finish_compute_view:
  assumes "finish_compute c insn (out, new_pc) s = (Inr r, s')"
    and "insn_format (insn_kind insn) \<in> {Fmt_R, Fmt_I, Fmt_J}" and "insn_rd insn < 32"
  shows "isa_view (pc_of s') (reg_of s') (mem_of s') =
    write_reg (insn_rd insn) out (isa_view (byte_addr_0 new_pc) (reg_of s) (mem_of s))"
proof -
  from assms(1) obtain u s1 where st: "store_register c (unat (rd_internal insn)) out s = (Inr u, s1)"
    and s': "s' = set_pc c new_pc s1"
    by (auto simp: finish_compute_def andThen_success trap_fails split: if_splits)
  show ?thesis unfolding s' set_pc by (rule store_register_view(1) [OF st assms(2,3)])
qed

lemma step_compute_view:
  assumes "step_compute c (insn_kind insn) insn s = (Inr r, s')"
    and "category (insn_kind insn) = Compute" and "wf_insn insn" and "machine_inv s"
  shows "isa_exec insn (isa_view (pc_of s) (reg_of s) (mem_of s)) =
    Some (isa_view (pc_of s') (reg_of s') (mem_of s'))"
proof -
  let ?V = "isa_view (pc_of s) (reg_of s) (mem_of s)"
  from assms(1) obtain out new_pc s1
    where res: "compute_result c (insn_kind insn) insn (ByteAddr (pc_of s)) s = (Inr (out, new_pc), s1)"
      and fin: "finish_compute c insn (out, new_pc) s1 = (Inr r, s')"
    by (auto simp: step_compute_def andThen_success get_pc)
  have fmt: "insn_format (insn_kind insn) \<in> {Fmt_R, Fmt_I, Fmt_J}"
    using assms(2) by (cases "insn_kind insn") simp_all
  have regs: "insn_rs1 insn < 32" "insn_rs2 insn < 32" "insn_rd insn < 32"
    using assms(3) by (auto simp: wf_insn_def)
  have same: "reg_of s1 = reg_of s" "mem_of s1 = mem_of s"
    and exec: "isa_exec insn ?V =
      Some (write_reg (insn_rd insn) out (isa_view (byte_addr_0 new_pc) (reg_of s) (mem_of s)))"
    using res assms(2,4) regs
    by (auto simp: compute_result_def isa_exec_def andThen_success Let_def reg_view alu_imm_reg_form
        alu_reg_isa byte_addr_add_def wrapping_add_def WORD_SIZE_def
        split: if_splits option.splits bind_splits dest!: load_register dest: reg_form_isa)
  then show ?thesis
    using finish_compute_view [OF fin fmt regs(3)] by simp
qed

lemma step_branch_view:
  assumes "step_branch c (insn_kind insn) insn s = (Inr r, s')"
    and "category (insn_kind insn) = Branch" and "wf_insn insn" and "machine_inv s"
  shows "isa_exec insn (isa_view (pc_of s) (reg_of s) (mem_of s)) =
    Some (isa_view (pc_of s') (reg_of s') (mem_of s'))"
proof -
  have regs: "insn_rs1 insn < 32" "insn_rs2 insn < 32"
    using assms(3) by (auto simp: wf_insn_def)
  let ?a = "reg_of s (insn_rs1 insn)" and ?b = "reg_of s (insn_rs2 insn)"
  from assms(1) obtain s1 s2 v1 v2 taken
    where s1: "load_register c (insn_rs1 insn) s = (Inr v1, s1)"
      and s2: "load_register c (insn_rs2 insn) s1 = (Inr v2, s2)"
      and taken: "branch_taken (insn_kind insn) v1 v2 = Some taken"
      and s': "s' = set_pc c (if taken then wrapping_add (ByteAddr (pc_of s)) (insn_imm insn)
                              else byte_addr_add (ByteAddr (pc_of s)) WORD_SIZE) s2"
    unfolding step_branch_def andThen_success gets_success get_pc Let_def
    by (auto simp: trap_fails andThen_success simp del: if_split_asm
        split: if_split_asm option.splits)
  have same: "v1 = ?a" "v2 = ?b" "reg_of s2 = reg_of s" "mem_of s2 = mem_of s"
    using load_register [OF s1 regs(1)] load_register [OF s2 regs(2)] by simp_all
  show ?thesis
    using taken assms(2,4) regs unfolding s' set_pc same branch_taken_isa
    by (simp add: isa_exec_def reg_view Let_def wrapping_add_def byte_addr_add_def WORD_SIZE_def)
qed

lemma advance_pc_view:
  "advance_pc c s = (Inr r, s') \<Longrightarrow> pc_of s' = pc_of s + 4 \<and> reg_of s' = reg_of s \<and> mem_of s' = mem_of s"
  by (auto simp: advance_pc_def andThen_success get_pc set_pc byte_addr_add_def WORD_SIZE_def)

lemma access_outcome:
  "(case r of Inl x \<Rightarrow> (case x of None \<Rightarrow> fail e | Some cause \<Rightarrow> trap c cause) | Inr v \<Rightarrow> k v) s = (Inr y, t)
   \<longleftrightarrow> (\<exists>v. r = Inr v \<and> k v s = (Inr y, t))"
  by (auto simp: trap_fails split: sum.split option.split)

lemma step_load_view:
  assumes "step_load c (insn_kind insn) insn s = (Inr r, s')"
    and "category (insn_kind insn) = Load" and "wf_insn insn" and "machine_inv s"
  shows "isa_exec insn (isa_view (pc_of s) (reg_of s) (mem_of s)) =
    Some (isa_view (pc_of s') (reg_of s') (mem_of s'))"
proof -
  have regs: "insn_rs1 insn < 32" "insn_rd insn < 32"
    using assms(3) by (auto simp: wf_insn_def)
  have fmt: "insn_format (insn_kind insn) \<in> {Fmt_R, Fmt_I, Fmt_J}"
    using assms(2) by (cases "insn_kind insn") simp_all
  let ?a = "reg_of s (insn_rs1 insn) + insn_imm insn"
  from assms(1) obtain s1 s2 s3 v1 data out u
    where s1: "load_register c (insn_rs1 insn) s = (Inr v1, s1)"
      and s2: "load_memory c (waddr (ByteAddr (v1 + insn_imm insn))) s1 = (Inr data, s2)"
      and out: "load_value (insn_kind insn) (ByteAddr (v1 + insn_imm insn)) data = Inr out"
      and s3: "store_register c (unat (rd_internal insn)) out s2 = (Inr u, s3)"
      and s': "advance_pc c s3 = (Inr r, s')"
    by (auto simp: step_load_def andThen_success Let_def trap_fails access_outcome
        split: if_split_asm)
  have same: "v1 = reg_of s (insn_rs1 insn)" "data = mem_of s (waddr (ByteAddr ?a))"
    "pc_of s2 = pc_of s" "reg_of s2 = reg_of s" "mem_of s2 = mem_of s"
    using load_register [OF s1 regs(1)] load_memory [OF s2] by simp_all
  obtain v where v: "isa_load (insn_kind insn) (byte_at (mem_of s)) ?a = Some v"
    using isa_load_defined [OF assms(2)] by blast
  then have "v = out"
    using load_value_isa [OF load_value_aligned [OF out], of "mem_of s" v] out same by simp
  with v have "isa_exec insn (isa_view (pc_of s) (reg_of s) (mem_of s)) =
    Some (write_reg (insn_rd insn) out (isa_view (pc_of s + 4) (reg_of s) (mem_of s)))"
    using assms(2,4) regs by (simp add: isa_exec_def reg_view Let_def)
  then show ?thesis
    using store_register_view [OF s3 fmt regs(2)] advance_pc_view [OF s'] same by simp
qed

lemma step_store_view:
  assumes "step_store c (insn_kind insn) insn s = (Inr r, s')"
    and "category (insn_kind insn) = Store" and "wf_insn insn" and "machine_inv s"
  shows "isa_exec insn (isa_view (pc_of s) (reg_of s) (mem_of s)) =
    Some (isa_view (pc_of s') (reg_of s') (mem_of s'))"
proof -
  have regs: "insn_rs1 insn < 32" "insn_rs2 insn < 32"
    using assms(3) by (auto simp: wf_insn_def)
  let ?a = "reg_of s (insn_rs1 insn) + insn_imm insn" and ?b = "reg_of s (insn_rs2 insn)"
  from assms(1) obtain s1 s2 s3 v1 v2 d u
    where s1: "load_register c (insn_rs1 insn) s = (Inr v1, s1)"
      and s2: "load_register c (insn_rs2 insn) s1 = (Inr v2, s2)"
      and d: "store_value (insn_kind insn) (ByteAddr (v1 + insn_imm insn)) v2
          (mem_of s2 (waddr (ByteAddr (v1 + insn_imm insn)))) = Inr d"
      and s3: "store_memory c (waddr (ByteAddr (v1 + insn_imm insn))) d s2 = (Inr u, s3)"
      and s': "advance_pc c s3 = (Inr r, s')"
    by (auto simp: step_store_def andThen_success Let_def trap_fails peek_memory access_outcome
        split: if_split_asm)
  have same: "v1 = reg_of s (insn_rs1 insn)" "v2 = ?b"
    "pc_of s2 = pc_of s" "reg_of s2 = reg_of s" "mem_of s2 = mem_of s"
    using load_register [OF s1 regs(1)] load_register [OF s2 regs(2)] by simp_all
  obtain m' where m': "isa_store (insn_kind insn) (byte_at (mem_of s)) ?a ?b = Some m'"
    using isa_store_defined [OF assms(2)] by blast
  then have "byte_at ((mem_of s)(waddr (ByteAddr ?a) := d)) = m'"
    using store_value_isa [OF store_value_aligned [OF d], of "mem_of s" ?b m'] d same by auto
  with m' have "isa_exec insn (isa_view (pc_of s) (reg_of s) (mem_of s)) =
    Some (isa_view (pc_of s + 4) (reg_of s) ((mem_of s)(waddr (ByteAddr ?a) := d)))"
    using assms(2,4) regs by (auto simp: isa_exec_def reg_view Let_def)
  then show ?thesis
    using store_memory [OF s3] advance_pc_view [OF s'] same by simp
qed

text \<open>Every instruction other than an environment call has the effect the specification gives it.\<close>

lemma step_insn_view:
  assumes "step_insn c insn s = (Inr r, s')" and "insn_kind insn \<noteq> ECALL"
    and "wf_insn insn" and "machine_inv s"
  shows "isa_exec insn (isa_view (pc_of s) (reg_of s) (mem_of s)) =
    Some (isa_view (pc_of s') (reg_of s') (mem_of s'))"
proof (cases "category (insn_kind insn)")
  case System
  then have "insn_kind insn = ECALL" by (cases "insn_kind insn") simp_all
  with assms(2) show ?thesis by simp
next
  case Invalid
  then show ?thesis using assms(1) by (simp add: step_insn_def trap_fails)
qed (use assms step_compute_view step_branch_view step_load_view step_store_view
      in \<open>simp_all add: step_insn_def\<close>)

theorem step_view:
  assumes "step c s = (Inr (), s')" and "machine_inv s"
  obtains insn s1 where "fetch c (waddr (ByteAddr (pc_of s))) s = (Inr (Some insn), s1)"
    and "insn_kind insn \<noteq> ECALL \<Longrightarrow> wf_insn insn \<Longrightarrow>
      isa_exec insn (isa_view (pc_of s) (reg_of s) (mem_of s)) =
      Some (isa_view (pc_of s') (reg_of s') (mem_of s'))"
proof -
  from assms(1) obtain insn s1 r s2
    where f: "fetch c (waddr (ByteAddr (pc_of s))) s = (Inr (Some insn), s1)"
      and i: "step_insn c insn s1 = (Inr r, s2)"
      and s': "s' = (if r then on_normal_end c insn s2 else s2)"
    by (auto simp: step_def andThen_success get_pc trap_fails split: option.splits if_splits)
  show ?thesis
  proof (rule that [OF f])
    assume "insn_kind insn \<noteq> ECALL" and "wf_insn insn"
    with step_insn_view [OF i] fetch [OF f] assms(2)
    show "isa_exec insn (isa_view (pc_of s) (reg_of s) (mem_of s)) =
      Some (isa_view (pc_of s') (reg_of s') (mem_of s'))"
      unfolding s' by (simp add: on_normal_end)
  qed
qed

end

end
