(* ===== verification/Vm.thy ===== *)
theory Vm
  imports Syscalls Isa
begin

text \<open>
  The virtual machine (\<open>ceno_emul/src/vm_state.rs\<close>): its implementation of the interface
  \<open>EmuContext\<close>, one operation at a time, environment calls and halting, and the outer \<open>step\<close> that
  completes the trace record. The locale \<open>machine_context\<close> is interpreted on it, so the
  interpreter's steps on a machine state have the effects of the instruction set specification.
\<close>

subsection \<open>Operations\<close>

definition with_tracer :: "(Tracer, emu_error, 'a) prog \<Rightarrow> (VMState, emu_error, 'a) prog" where
  "with_tracer p = (\<lambda>vm. case p (vm_tracer vm) of (r, tr) \<Rightarrow> (r, vm\<lparr>vm_tracer := tr\<rparr>))"

definition vm_trap :: "TrapCause \<Rightarrow> (VMState, emu_error, bool) prog" where
  "vm_trap cause = fail (TrapError cause)"

definition vm_on_normal_end :: "Instruction \<Rightarrow> VMState \<Rightarrow> VMState" where
  "vm_on_normal_end decoded vm = vm\<lparr>vm_tracer := store_pc (ByteAddr (vm_pc vm)) (vm_tracer vm)\<rparr>"

definition vm_get_pc :: "VMState \<Rightarrow> byte_addr" where
  "vm_get_pc vm = ByteAddr (vm_pc vm)"

definition vm_set_pc :: "byte_addr \<Rightarrow> VMState \<Rightarrow> VMState" where
  "vm_set_pc aft vm = vm\<lparr>vm_pc := byte_addr_0 aft\<rparr>"

definition vm_load_register :: "RegIdx \<Rightarrow> (VMState, emu_error, Word) prog" where
  "vm_load_register idx =
     andThen (lift (vm_peek_register idx)) (\<lambda>val.
     andThen (with_tracer (trace_load_register idx val)) (\<lambda>_.
     lift (vm_peek_register idx)))"

definition vm_store_register :: "RegIdx \<Rightarrow> Word \<Rightarrow> (VMState, emu_error, unit) prog" where
  "vm_store_register idx aft =
     (if idx \<noteq> 0 then
        andThen (lift (vm_peek_register idx)) (\<lambda>bef.
        andThen (with_tracer (trace_store_register idx (change bef aft))) (\<lambda>_.
        modify (\<lambda>vm. vm\<lparr>vm_registers := (vm_registers vm)[idx := aft]\<rparr>)))
      else ok ())"

definition vm_load_memory :: "word_addr \<Rightarrow> (VMState, emu_error, Word) prog" where
  "vm_load_memory addr =
     andThen (gets (vm_peek_memory addr)) (\<lambda>val.
     andThen (with_tracer (trace_load_memory addr val)) (\<lambda>_. ok val))"

definition vm_store_memory :: "word_addr \<Rightarrow> Word \<Rightarrow> (VMState, emu_error, unit) prog" where
  "vm_store_memory addr aft =
     andThen (gets (vm_peek_memory addr)) (\<lambda>bef.
     andThen (with_tracer (trace_store_memory addr (change bef aft))) (\<lambda>_.
     modify (vm_init_memory addr aft)))"

definition vm_fetch :: "word_addr \<Rightarrow> (VMState, emu_error, Instruction option) prog" where
  "vm_fetch pc = (\<lambda>vm.
     let relative_pc = byte_addr_0 (baddr pc) - base_address (vm_program vm);
         idx = unat (relative_pc div of_nat WORD_SIZE)
     in if idx < length (instructions (vm_program vm))
        then let word = instructions (vm_program vm) ! idx
             in (Inr (Some word), vm\<lparr>vm_tracer := trace_fetch pc word (vm_tracer vm)\<rparr>)
        else (Inr None, vm))"

definition vm_check_data_load :: "byte_addr \<Rightarrow> VMState \<Rightarrow> bool" where
  "vm_check_data_load addr vm = can_read (vm_platform vm) (byte_addr_0 addr)"

definition vm_check_data_store :: "byte_addr \<Rightarrow> VMState \<Rightarrow> bool" where
  "vm_check_data_store addr vm = can_write (vm_platform vm) (byte_addr_0 addr)"

subsection \<open>Environment calls\<close>

definition vm_halt :: "VMState \<Rightarrow> VMState" where
  "vm_halt vm = (vm_set_pc (ByteAddr 0) vm)\<lparr>vm_halted := True\<rparr>"

text \<open>The register writes of a system call; an index out of bounds panics.\<close>

fun write_registers :: "(RegIdx \<times> Word) list \<Rightarrow> (VMState, emu_error, unit) prog" where
  "write_registers [] = ok ()"
| "write_registers ((idx, val) # rs) =
     andThen (lift (vm_peek_register idx)) (\<lambda>_.
     andThen (modify (\<lambda>vm. vm\<lparr>vm_registers := (vm_registers vm)[idx := val]\<rparr>)) (\<lambda>_.
     write_registers rs))"

definition apply_syscall :: "SyscallEffects \<Rightarrow> (VMState, emu_error, unit) prog" where
  "apply_syscall effects =
     andThen (modify (fold (\<lambda>(addr, val). vm_init_memory addr val) (iter_mem_values effects))) (\<lambda>_.
     andThen (write_registers (iter_reg_values effects)) (\<lambda>_.
     andThen (modify (\<lambda>vm. vm_set_pc (ByteAddr (case next_pc effects of
         None \<Rightarrow> vm_pc vm + of_nat PC_STEP_SIZE | Some pc \<Rightarrow> pc)) vm)) (\<lambda>_.
     with_tracer (track_syscall (witness effects)))))"

definition ecall_nop :: "(VMState, emu_error, bool) prog" where
  "ecall_nop =
     andThen (vm_load_register reg_arg0) (\<lambda>_.
     andThen (vm_store_register (unat RD_NULL) 0) (\<lambda>_.
     andThen (gets (\<lambda>vm. word_addr_from_u32 (rng_end (stack (vm_platform vm)) - of_nat WORD_SIZE))) (\<lambda>addr.
     andThen (gets (vm_peek_memory addr)) (\<lambda>val.
     andThen (vm_store_memory addr val) (\<lambda>_.
     andThen (modify (\<lambda>vm. vm_set_pc (byte_addr_add (ByteAddr (vm_pc vm)) PC_STEP_SIZE) vm)) (\<lambda>_.
     ok True))))))"

text \<open>
  An \<open>Err\<close> of the dispatcher (an unknown code) is ignored with \<open>unsafe_ecall_nop\<close> and traps
  otherwise; a panic inside a call unwinds in both cases.
\<close>

definition vm_ecall ::
  "('p, 'mp, 'fq, 'fq2, 'g1) crypto_lib \<Rightarrow> (VMState, emu_error, bool) prog" where
  "vm_ecall lib =
     andThen (vm_load_register reg_ecall) (\<lambda>function.
     if function = ecall_halt then
       andThen (vm_load_register reg_arg0) (\<lambda>exit_code.
       andThen (modify vm_halt) (\<lambda>_. ok True))
     else andThen (gets (\<lambda>vm. handle_syscall lib vm function)) (\<lambda>result.
       case result of
         Inr effects \<Rightarrow> andThen (apply_syscall effects) (\<lambda>_. ok True)
       | Inl (Panic msg) \<Rightarrow> fail (Panic msg)
       | Inl err \<Rightarrow>
           andThen (gets (\<lambda>vm. unsafe_ecall_nop (vm_platform vm))) (\<lambda>nop.
           if nop then ecall_nop else vm_trap EcallError)))"

definition vm_context :: "('p, 'mp, 'fq, 'fq2, 'g1) crypto_lib \<Rightarrow> VMState emu_context" where
  "vm_context lib =
     \<lparr>ecall = vm_ecall lib, trap = vm_trap, on_normal_end = vm_on_normal_end,
      get_pc = vm_get_pc, set_pc = vm_set_pc,
      load_register = vm_load_register, store_register = vm_store_register,
      load_memory = vm_load_memory, store_memory = vm_store_memory,
      peek_register = vm_peek_register, peek_memory = vm_peek_memory,
      fetch = vm_fetch, check_data_load = vm_check_data_load, check_data_store = vm_check_data_store\<rparr>"

subsection \<open>Running the machine\<close>

definition vm_step ::
  "('p, 'mp, 'fq, 'fq2, 'g1) crypto_lib \<Rightarrow> (VMState, emu_error, StepRecord) prog" where
  "vm_step lib =
     andThen (step (vm_context lib)) (\<lambda>_.
     andThen (with_tracer (\<lambda>tr. case advance tr of (r, tr') \<Rightarrow> (Inr r, tr'))) (\<lambda>record.
     andThen (gets vm_halted) (\<lambda>halted.
     if is_busy_loop record \<and> \<not> halted then fail StuckInLoop else ok record)))"

text \<open>
  \<open>iter_until_halt\<close> is a lazy iterator; \<open>run_steps n\<close> is what taking at most \<open>n\<close> of its items
  yields: the records up to the first error, and the state the machine is left in.
\<close>

fun run_steps ::
  "('p, 'mp, 'fq, 'fq2, 'g1) crypto_lib \<Rightarrow> nat \<Rightarrow> (VMState, emu_error, StepRecord list) prog" where
  "run_steps lib 0 = ok []"
| "run_steps lib (Suc n) = (\<lambda>vm.
     if vm_halted vm then (Inr [], vm)
     else andThen (vm_step lib) (\<lambda>r. andThen (run_steps lib n) (\<lambda>rs. ok (r # rs))) vm)"

definition init_register_unsafe :: "RegIdx \<Rightarrow> Word \<Rightarrow> (VMState, emu_error, unit) prog" where
  "init_register_unsafe idx val =
     andThen (lift (vm_peek_register idx)) (\<lambda>_.
     modify (\<lambda>vm. vm\<lparr>vm_registers := (vm_registers vm)[idx := val]\<rparr>))"


subsection \<open>The operations as an implementation of the interface\<close>

lemma with_tracer_success [simp]:
  "with_tracer p vm = (Inr x, vm') \<longleftrightarrow>
   (\<exists>tr. p (vm_tracer vm) = (Inr x, tr) \<and> vm' = vm\<lparr>vm_tracer := tr\<rparr>)"
  by (auto simp: with_tracer_def split: prod.splits)

lemma vm_peek_register_Inr [simp]:
  "vm_peek_register idx vm = Inr v \<longleftrightarrow> idx < length (vm_registers vm) \<and> v = vm_registers vm ! idx"
  by (auto simp: vm_peek_register_def)

lemma vm_trap_fails [simp]: "vm_trap cause vm \<noteq> (Inr r, vm')"
  by (simp add: vm_trap_def)

lemmas vm_ops_def =
  vm_load_register_def vm_store_register_def vm_load_memory_def vm_store_memory_def vm_fetch_def

lemma vm_peek_memory_init [simp]:
  "vm_peek_memory a (vm_init_memory b v vm) = (if a = b then v else vm_peek_memory a vm)"
  by (simp add: vm_init_memory_def vm_peek_memory_def)

lemma vm_init_memory_simps [simp]:
  "vm_registers (vm_init_memory a v vm) = vm_registers vm"
  "vm_pc (vm_init_memory a v vm) = vm_pc vm"
  "vm_tracer (vm_init_memory a v vm) = vm_tracer vm"
  "vm_halted (vm_init_memory a v vm) = vm_halted vm"
  "vm_program (vm_init_memory a v vm) = vm_program vm"
  "vm_platform (vm_init_memory a v vm) = vm_platform vm"
  by (simp_all add: vm_init_memory_def)

lemma vm_peek_memory_frame [simp]:
  "vm_peek_memory a (vm\<lparr>vm_tracer := tr\<rparr>) = vm_peek_memory a vm"
  "vm_peek_memory a (vm\<lparr>vm_pc := p\<rparr>) = vm_peek_memory a vm"
  "vm_peek_memory a (vm\<lparr>vm_registers := rs\<rparr>) = vm_peek_memory a vm"
  "vm_peek_memory a (vm\<lparr>vm_halted := h\<rparr>) = vm_peek_memory a vm"
  by (simp_all add: vm_peek_memory_def)

text \<open>The register file has 33 entries, and \<open>x0\<close> holds zero.\<close>

definition registers_ok :: "VMState \<Rightarrow> bool" where
  "registers_ok vm \<longleftrightarrow> length (vm_registers vm) = REG_COUNT \<and> vm_registers vm ! 0 = 0"

lemma vm_fetch_success:
  "vm_fetch w vm = (Inr f, vm') \<Longrightarrow> \<exists>tr. vm' = vm\<lparr>vm_tracer := tr\<rparr>"
proof -
  assume "vm_fetch w vm = (Inr f, vm')"
  then have "vm' = vm \<or> (\<exists>tr. vm' = vm\<lparr>vm_tracer := tr\<rparr>)"
    by (auto simp: vm_fetch_def Let_def split: if_splits)
  moreover have "vm = vm\<lparr>vm_tracer := vm_tracer vm\<rparr>" by simp
  ultimately show ?thesis by metis
qed

interpretation vm: machine_context "vm_context lib" vm_pc "\<lambda>vm i. vm_registers vm ! i"
  "\<lambda>vm a. vm_peek_memory a vm" registers_ok for lib
proof (unfold_locales, goal_cases)
  case (11 i v s u s')
  then show ?case
    by (cases "i = 0")
      (auto simp: vm_context_def vm_store_register_def andThen_success nth_list_update)
next
  case (14 w v s u s')
  then show ?case
    by (auto simp: vm_context_def vm_store_memory_def andThen_success fun_eq_iff)
next
  case (15 w s f s')
  then have "vm_fetch w s = (Inr f, s')" by (simp add: vm_context_def)
  then obtain tr where "s' = s\<lparr>vm_tracer := tr\<rparr>"
    using vm_fetch_success by blast
  then show ?case by (simp add: registers_ok_def)
qed (auto simp: vm_context_def vm_get_pc_def vm_set_pc_def vm_on_normal_end_def registers_ok_def
      vm_load_register_def vm_load_memory_def andThen_success)

end
