(* ===== verification/StepInvariant.thy ===== *)
theory StepInvariant
  imports Rv32im
begin

text \<open>
  Invariants of the interpreter (\<open>ceno_emul/src/rv32im.rs\<close>). A step of the interpreter first reads
  registers, then makes its other accesses, and ends by setting the pc to an address that is
  aligned, or that is aligned when the pc was. The locale \<open>step_phases\<close> has a property of the
  machine for each of these phases: \<open>R\<close> before and while registers are read, \<open>W\<close> while memory is
  accessed and the results are written, \<open>D\<close> when the step is done. A property that every operation
  of \<open>EmuContext\<close> preserves is the case where the three are the same.
\<close>

lemma is_aligned_next: "is_aligned a \<Longrightarrow> is_aligned (byte_addr_add a WORD_SIZE)"
  by (simp add: is_aligned_iff byte_addr_add_def WORD_SIZE_def unat_add_4_mod)

locale step_phases =
  fixes c :: "'s emu_context" and R W D :: "'s \<Rightarrow> bool"
  assumes traps: "trap c cause s \<noteq> (Inr r, s')"
    and reading_writing: "R s \<Longrightarrow> W s"
    and writing_done: "W s \<Longrightarrow> D s"
    and fetch_keeps: "fetch c m s = (Inr f, s') \<Longrightarrow> R s \<Longrightarrow> R s'"
    and load_register_keeps: "load_register c i s = (Inr v, s') \<Longrightarrow> R s \<Longrightarrow> R s'"
    and store_register_keeps: "store_register c i w s = (Inr u, s') \<Longrightarrow> W s \<Longrightarrow> W s'"
    and load_memory_keeps: "load_memory c (waddr b) s = (Inr v, s') \<Longrightarrow> W s \<Longrightarrow> W s'"
    and store_memory_keeps: "store_memory c (waddr b) w s = (Inr u, s') \<Longrightarrow> W s \<Longrightarrow> W s'"
    and set_pc_keeps: "W s \<Longrightarrow> (is_aligned (get_pc c s) \<longrightarrow> is_aligned a) \<Longrightarrow> W (set_pc c a s)"
    and ecall_keeps: "ecall c s = (Inr r, s') \<Longrightarrow> R s \<Longrightarrow> D s'"
    and normal_end_keeps: "D s \<Longrightarrow> D (on_normal_end c insn s)"
begin

lemma case_trap_or:
  "(if b then trap c cause else k) s = (Inr r, s') \<longleftrightarrow> \<not> b \<and> k s = (Inr r, s')"
  by (simp add: traps)

lemma case_access:
  "(case r of Inl x \<Rightarrow> (case x of None \<Rightarrow> fail e | Some cause \<Rightarrow> trap c cause) | Inr v \<Rightarrow> k v) s = (Inr y, t)
   \<longleftrightarrow> (\<exists>v. r = Inr v \<and> k v s = (Inr y, t))"
  by (auto simp: traps split: sum.split option.split)

lemma case_illegal:
  "(case x of None \<Rightarrow> fail e | Some v \<Rightarrow> k v) s = (Inr y, t) \<longleftrightarrow> (\<exists>v. x = Some v \<and> k v s = (Inr y, t))"
  by (auto split: option.split)

lemma finish_compute_keeps:
  "finish_compute c insn out_pc s = (Inr r, s') \<Longrightarrow> W s \<Longrightarrow> W s'"
  by (cases out_pc)
    (auto simp: finish_compute_def case_trap_or andThen_success intro: set_pc_keeps
      dest: store_register_keeps)

lemma compute_result_keeps:
  assumes "compute_result c knd insn pc s = (Inr r, s')" and "R s"
  shows "R s'"
proof (cases "knd = JAL")
  case False
  with assms(1) obtain v s1 where load: "load_register c (insn_rs1 insn) s = (Inr v, s1)"
    and rest: "(if knd = JALR then ok (byte_addr_0 (byte_addr_add pc WORD_SIZE), ByteAddr ((v + insn_imm insn) AND NOT 1))
      else case alu_imm knd v (insn_imm insn) of
        Some out \<Rightarrow> ok (out, byte_addr_add pc WORD_SIZE)
      | None \<Rightarrow> andThen (load_register c (insn_rs2 insn)) (\<lambda>rs2.
          case alu_reg knd v rs2 of
            Some out \<Rightarrow> ok (out, byte_addr_add pc WORD_SIZE)
          | None \<Rightarrow> fail (Panic ''Illegal compute instruction''))) s1 = (Inr r, s')"
    by (auto simp: compute_result_def Let_def andThen_success)
  have "R s1" using load_register_keeps [OF load assms(2)] .
  with rest show ?thesis
    by (auto simp: andThen_success case_illegal dest: load_register_keeps
        split: if_split_asm option.split_asm)
qed (use assms in \<open>simp add: compute_result_def Let_def\<close>)

lemma step_compute_keeps: "step_compute c knd insn s = (Inr r, s') \<Longrightarrow> R s \<Longrightarrow> W s'"
  by (auto simp: step_compute_def andThen_success
      dest: compute_result_keeps finish_compute_keeps reading_writing)

lemma step_branch_keeps: "step_branch c knd insn s = (Inr r, s') \<Longrightarrow> R s \<Longrightarrow> W s'"
  unfolding step_branch_def andThen_success gets_success case_illegal Let_def case_trap_or
  by (auto simp: andThen_success intro!: set_pc_keeps dest: load_register_keeps reading_writing
      simp del: if_split_asm)

lemma advance_pc_keeps: "advance_pc c s = (Inr r, s') \<Longrightarrow> W s \<Longrightarrow> W s'"
  by (auto simp: advance_pc_def andThen_success intro!: set_pc_keeps is_aligned_next)

lemma step_load_keeps: "step_load c knd insn s = (Inr r, s') \<Longrightarrow> R s \<Longrightarrow> W s'"
  unfolding step_load_def Let_def andThen_success gets_success case_trap_or case_access
  by (blast dest: load_register_keeps load_memory_keeps store_register_keeps advance_pc_keeps
      reading_writing)

lemma step_store_keeps: "step_store c knd insn s = (Inr r, s') \<Longrightarrow> R s \<Longrightarrow> W s'"
  unfolding step_store_def Let_def andThen_success gets_success case_trap_or case_access
  by (blast dest: load_register_keeps store_memory_keeps advance_pc_keeps reading_writing)

lemma step_insn_keeps: "step_insn c insn s = (Inr r, s') \<Longrightarrow> R s \<Longrightarrow> D s'"
  by (auto simp: step_insn_def step_system_def traps split: InsnCategory.splits if_splits
      dest: step_compute_keeps step_branch_keeps step_load_keeps step_store_keeps ecall_keeps
        writing_done)

text \<open>A successful step takes a machine ready to read to one that is done.\<close>

lemma step_keeps: "step c s = (Inr u, s') \<Longrightarrow> R s \<Longrightarrow> D s'"
  by (auto simp: step_def andThen_success traps intro: normal_end_keeps
      split: option.splits if_splits dest!: fetch_keeps step_insn_keeps)

end

end
