(* ===== verification/VmInv.thy ===== *)
theory VmInv
  imports Vm StepInvariant
begin

text \<open>
  What the steps of the virtual machine (\<open>ceno_emul/src/vm_state.rs\<close>) preserve: the outcomes of the
  system calls and of the operations, inverted, the invariant \<open>machine_ok\<close> (program and platform
  fixed, 33 registers, \<open>x0\<close> zero, pc aligned), and induction over runs.
\<close>

subsection \<open>Outcomes of system calls\<close>

lemma one_segment_call_success:
  assumes "one_segment_call len f vm = Inr e"
  obtains ptr view ws view' where
    "vm_peek_register reg_arg0 vm = Inr ptr" and "vm_peek_register reg_arg1 vm = Inr 0"
    and "new_MemoryView len ptr = Inr view" and "f (view_words vm view) = Inr ws"
    and "view_write ws view = Inr view'" and "length (view_mem_ops vm view') = len"
    and "e = new_effects (view_mem_ops vm view') (arg_reg_ops ptr 0)"
  using assms unfolding one_segment_call_def by (auto simp: bindE_success)

lemma two_segment_call_success:
  assumes "two_segment_call len f vm = Inr e"
  obtains p_ptr q_ptr p_view q_view ws p_view' where
    "vm_peek_register reg_arg0 vm = Inr p_ptr" and "vm_peek_register reg_arg1 vm = Inr q_ptr"
    and "new_MemoryView len p_ptr = Inr p_view" and "new_MemoryView len q_ptr = Inr q_view"
    and "f (view_words vm p_view) (view_words vm q_view) = Inr ws"
    and "view_write ws p_view = Inr p_view'"
    and "length (view_mem_ops vm p_view' @ view_mem_ops vm q_view) = 2 * len"
    and "e = new_effects (view_mem_ops vm p_view' @ view_mem_ops vm q_view) (arg_reg_ops p_ptr q_ptr)"
  using assms unfolding two_segment_call_def by (auto simp: bindE_success Let_def)

definition reads_args :: "VMState \<Rightarrow> SyscallEffects \<Rightarrow> bool" where
  "reads_args vm e \<longleftrightarrow> next_pc e = None \<and>
     (\<exists>a0 a1. vm_peek_register reg_arg0 vm = Inr a0 \<and> vm_peek_register reg_arg1 vm = Inr a1 \<and>
       reg_ops (witness e) = arg_reg_ops a0 a1)"

lemma one_segment_args: "one_segment_call len f vm = Inr e \<Longrightarrow> reads_args vm e"
  by (erule one_segment_call_success) (simp add: reads_args_def new_effects_def)

lemma two_segment_args: "two_segment_call len f vm = Inr e \<Longrightarrow> reads_args vm e"
  by (erule two_segment_call_success) (simp add: reads_args_def new_effects_def)

lemma decompress_args: "secp256k1_decompress lib vm = Inr e \<Longrightarrow> reads_args vm e"
  by (auto simp: secp256k1_decompress_def bindE_success Let_def reads_args_def new_effects_def)

lemmas syscall_defs = keccak_permute_def sha_extend_call_def secp256k1_add_def secp256k1_double_def
  bn254_add_def bn254_double_def bn254_fp_add_def bn254_fp_mul_def bn254_fp2_add_def bn254_fp2_mul_def
  bn254_fptower_binary_op_def

lemma handle_syscall_args: "handle_syscall lib vm code = Inr e \<Longrightarrow> reads_args vm e"
  by (auto simp: handle_syscall_def syscall_defs dest: one_segment_args two_segment_args decompress_args
      split: if_splits)


subsection \<open>What every step preserves\<close>

text \<open>The program and the platform are fixed; the register file keeps its length and \<open>x0\<close>.\<close>

definition machine_ok :: "Program \<Rightarrow> Platform \<Rightarrow> VMState \<Rightarrow> bool" where
  "machine_ok prog plat vm \<longleftrightarrow>
     vm_program vm = prog \<and> vm_platform vm = plat \<and> registers_ok vm \<and> is_aligned (vm_get_pc vm)"

lemma machine_ok_frame [simp]:
  "machine_ok prog plat (vm\<lparr>vm_tracer := tr\<rparr>) = machine_ok prog plat vm"
  "machine_ok prog plat (vm_init_memory a v vm) = machine_ok prog plat vm"
  "machine_ok prog plat (vm\<lparr>vm_halted := h\<rparr>) = machine_ok prog plat vm"
  by (simp_all add: machine_ok_def registers_ok_def vm_get_pc_def)

lemma vm_load_register_success:
  "vm_load_register i vm = (Inr v, vm') \<Longrightarrow>
   \<exists>tr. vm' = vm\<lparr>vm_tracer := tr\<rparr> \<and> i < length (vm_registers vm) \<and> v = vm_registers vm ! i \<and>
     trace_load_register i v (vm_tracer vm) = (Inr (), tr)"
  by (auto simp: vm_load_register_def andThen_success)

lemma vm_store_register_success:
  "vm_store_register i w vm = (Inr u, vm') \<Longrightarrow> vm' = vm \<and> i = 0 \<or>
   (\<exists>tr. vm' = vm\<lparr>vm_tracer := tr, vm_registers := (vm_registers vm)[i := w]\<rparr> \<and>
     0 < i \<and> i < length (vm_registers vm) \<and>
     trace_store_register i (change (vm_registers vm ! i) w) (vm_tracer vm) = (Inr (), tr))"
  by (auto simp: vm_store_register_def andThen_success split: if_splits)

lemma vm_load_memory_success:
  "vm_load_memory a vm = (Inr v, vm') \<Longrightarrow>
   \<exists>tr. vm' = vm\<lparr>vm_tracer := tr\<rparr> \<and> v = vm_peek_memory a vm \<and>
     trace_load_memory a v (vm_tracer vm) = (Inr (), tr)"
  by (auto simp: vm_load_memory_def andThen_success)

lemma vm_store_memory_success:
  "vm_store_memory a w vm = (Inr u, vm') \<Longrightarrow>
   \<exists>tr. vm' = vm_init_memory a w (vm\<lparr>vm_tracer := tr\<rparr>) \<and>
     trace_store_memory a (change (vm_peek_memory a vm) w) (vm_tracer vm) = (Inr (), tr)"
  by (auto simp: vm_store_memory_def andThen_success)

lemmas vm_ops_success = vm_load_register_success vm_store_register_success vm_load_memory_success
  vm_store_memory_success

lemma machine_ok_update:
  assumes "machine_ok prog plat vm" and "0 < i"
  shows "machine_ok prog plat (vm\<lparr>vm_registers := (vm_registers vm)[i := w]\<rparr>)"
  using assms by (simp add: machine_ok_def registers_ok_def vm_get_pc_def)

text \<open>The values a call writes to the argument registers are the ones they hold.\<close>

lemma op_register_index_new [simp]:
  "i < 16777216 \<Longrightarrow> op_register_index (new_register_op i v c) = i"
  by (simp add: op_register_index_def new_register_op_def u32_from_word_addr_def
      baddr_register_word_addr register_index_vma)

lemma iter_reg_values_args:
  "reg_ops (witness e) = arg_reg_ops a0 a1 \<Longrightarrow>
   iter_reg_values e = [(reg_arg0, a0), (reg_arg1, a1)]"
  by (simp add: iter_reg_values_def arg_reg_ops_def reg_arg0_def reg_arg1_def)
    (simp add: new_register_op_def change_def)

lemma vm_registers_fold_init [simp]:
  "vm_registers (fold (\<lambda>(a, v). vm_init_memory a v) ops vm) = vm_registers vm"
  "vm_tracer (fold (\<lambda>(a, v). vm_init_memory a v) ops vm) = vm_tracer vm"
  "vm_pc (fold (\<lambda>(a, v). vm_init_memory a v) ops vm) = vm_pc vm"
  "vm_halted (fold (\<lambda>(a, v). vm_init_memory a v) ops vm) = vm_halted vm"
  "vm_program (fold (\<lambda>(a, v). vm_init_memory a v) ops vm) = vm_program vm"
  "vm_platform (fold (\<lambda>(a, v). vm_init_memory a v) ops vm) = vm_platform vm"
  by (induction ops arbitrary: vm) (auto simp: vm_init_memory_def split: prod.splits)

text \<open>Applying the effects of a call: memory is written, the registers are not, the pc advances.\<close>

lemma apply_syscall_success:
  assumes "reads_args vm e" and "apply_syscall e vm = (Inr u, vm')"
  shows "\<exists>tr. track_syscall (witness e) (vm_tracer vm) = (Inr (), tr) \<and>
    vm' = (fold (\<lambda>(a, v). vm_init_memory a v) (iter_mem_values e) vm)
            \<lparr>vm_pc := vm_pc vm + 4, vm_tracer := tr\<rparr>"
proof -
  let ?m = "fold (\<lambda>(a, v). vm_init_memory a v) (iter_mem_values e) vm"
  from assms(1) obtain a0 a1 where args: "reg_arg0 < length (vm_registers vm)"
      "reg_arg1 < length (vm_registers vm)" "a0 = vm_registers vm ! reg_arg0"
      "a1 = vm_registers vm ! reg_arg1"
    and vals: "iter_reg_values e = [(reg_arg0, a0), (reg_arg1, a1)]" and pc: "next_pc e = None"
    by (auto simp: reads_args_def iter_reg_values_args)
  have "write_registers (iter_reg_values e) ?m = (Inr (), ?m)"
    using args by (simp add: vals prog_simps vm_peek_register_def)
  then show ?thesis
    using assms(2) pc
    by (auto simp: apply_syscall_def andThen_success vm_set_pc_def PC_STEP_SIZE_def)
qed


text \<open>A successful environment call halts, applies the effects of a call, or is the ignored call.\<close>

lemma vm_ecall_success:
  assumes "vm_ecall lib vm = (Inr r, vm')"
  obtains (halt) s1 s2 v where "vm_load_register reg_ecall vm = (Inr ecall_halt, s1)"
      and "vm_load_register reg_arg0 s1 = (Inr v, s2)" and "vm' = vm_halt s2" and "r = True"
  | (syscall) f s1 e u where "vm_load_register reg_ecall vm = (Inr f, s1)" and "f \<noteq> ecall_halt"
      and "handle_syscall lib s1 f = Inr e" and "apply_syscall e s1 = (Inr u, vm')" and "r = True"
  | (nop) f s1 where "vm_load_register reg_ecall vm = (Inr f, s1)" and "f \<noteq> ecall_halt"
      and "unsafe_ecall_nop (vm_platform s1)" and "ecall_nop s1 = (Inr r, vm')" and "r = True"
proof -
  from assms obtain f s1 where load: "vm_load_register reg_ecall vm = (Inr f, s1)"
    and rest: "(if f = ecall_halt then
       andThen (vm_load_register reg_arg0) (\<lambda>exit_code. andThen (modify vm_halt) (\<lambda>_. ok True))
     else andThen (gets (\<lambda>vm. handle_syscall lib vm f)) (\<lambda>result.
       case result of
         Inr effects \<Rightarrow> andThen (apply_syscall effects) (\<lambda>_. ok True)
       | Inl (Panic msg) \<Rightarrow> fail (Panic msg)
       | Inl err \<Rightarrow>
           andThen (gets (\<lambda>vm. unsafe_ecall_nop (vm_platform vm))) (\<lambda>nop.
           if nop then ecall_nop else vm_trap EcallError))) s1 = (Inr r, vm')"
    by (auto simp: vm_ecall_def andThen_success)
  have nopr: "ecall_nop s1 = (Inr r, vm') \<Longrightarrow> r = True"
    by (auto simp: ecall_nop_def andThen_success)
  show ?thesis
  proof (cases "f = ecall_halt")
    case True
    with rest load show ?thesis by (auto simp: andThen_success intro: halt)
  next
    case False
    show ?thesis
    proof (cases "handle_syscall lib s1 f")
      case (Inr e)
      with rest False load show ?thesis by (auto simp: andThen_success intro: syscall)
    next
      case (Inl err)
      with rest False load nopr show ?thesis
        by (auto simp: andThen_success intro: nop split: emu_error.splits if_splits)
    qed
  qed
qed

lemma ecall_nop_success:
  assumes "ecall_nop vm = (Inr r, vm')"
  obtains v s1 s2 s3 where "vm_load_register reg_arg0 vm = (Inr v, s1)"
    and "vm_store_register (unat RD_NULL) 0 s1 = (Inr (), s2)"
    and "vm_store_memory (word_addr_from_u32 (rng_end (stack (vm_platform s2)) - of_nat WORD_SIZE))
      (vm_peek_memory (word_addr_from_u32 (rng_end (stack (vm_platform s2)) - of_nat WORD_SIZE)) s2) s2
      = (Inr (), s3)"
    and "vm' = vm_set_pc (byte_addr_add (ByteAddr (vm_pc s3)) PC_STEP_SIZE) s3"
  using assms by (auto simp: ecall_nop_def andThen_success)

lemma machine_ok_set_pc:
  "machine_ok prog plat vm \<Longrightarrow> is_aligned a \<Longrightarrow> machine_ok prog plat (vm_set_pc a vm)"
  by (simp add: machine_ok_def registers_ok_def vm_get_pc_def vm_set_pc_def)

lemma machine_ok_fold_init [simp]:
  "machine_ok prog plat (fold (\<lambda>(a, v). vm_init_memory a v) ops vm) = machine_ok prog plat vm"
  by (simp add: machine_ok_def registers_ok_def vm_get_pc_def)

lemma machine_ok_ops:
  "vm_load_register i vm = (Inr v, vm') \<Longrightarrow> machine_ok prog plat vm \<Longrightarrow> machine_ok prog plat vm'"
  "vm_store_register i w vm = (Inr u, vm') \<Longrightarrow> machine_ok prog plat vm \<Longrightarrow> machine_ok prog plat vm'"
  "vm_load_memory a vm = (Inr v, vm') \<Longrightarrow> machine_ok prog plat vm \<Longrightarrow> machine_ok prog plat vm'"
  "vm_store_memory a w vm = (Inr u, vm') \<Longrightarrow> machine_ok prog plat vm \<Longrightarrow> machine_ok prog plat vm'"
  "vm_fetch m vm = (Inr f, vm') \<Longrightarrow> machine_ok prog plat vm \<Longrightarrow> machine_ok prog plat vm'"
  by (auto dest!: vm_ops_success vm_fetch_success
      simp: machine_ok_update machine_ok_update [where vm = "vm\<lparr>vm_tracer := tr\<rparr>" for tr, simplified])

lemma machine_ok_halt: "machine_ok prog plat vm \<Longrightarrow> machine_ok prog plat (vm_halt vm)"
  by (simp add: vm_halt_def machine_ok_set_pc is_aligned_def WORD_SIZE_def)

lemma aligned_next: "machine_ok prog plat vm \<Longrightarrow> is_aligned (byte_addr_add (ByteAddr (vm_pc vm)) PC_STEP_SIZE)"
  by (simp add: machine_ok_def vm_get_pc_def)

lemma machine_ok_syscall:
  assumes "reads_args vm e" and "apply_syscall e vm = (Inr u, vm')" and "machine_ok prog plat vm"
  shows "machine_ok prog plat vm'"
proof -
  let ?m = "fold (\<lambda>(a, v). vm_init_memory a v) (iter_mem_values e) vm"
  have "machine_ok prog plat (vm_set_pc (ByteAddr (vm_pc vm + 4)) ?m)"
    using assms(3) aligned_next [OF assms(3)]
    by (intro machine_ok_set_pc) (simp_all add: byte_addr_add_def PC_STEP_SIZE_def)
  then show ?thesis using apply_syscall_success [OF assms(1,2)] by (auto simp: vm_set_pc_def)
qed

lemma machine_ok_ecall:
  "vm_ecall lib vm = (Inr r, vm') \<Longrightarrow> machine_ok prog plat vm \<Longrightarrow> machine_ok prog plat vm'"
proof (erule vm_ecall_success)
  fix f s1 e u
  assume "machine_ok prog plat vm" "vm_load_register reg_ecall vm = (Inr f, s1)"
    "handle_syscall lib s1 f = Inr e" "apply_syscall e s1 = (Inr u, vm')"
  then show "machine_ok prog plat vm'"
    by (blast intro: machine_ok_syscall handle_syscall_args machine_ok_ops)
next
  fix f s1
  assume ok: "machine_ok prog plat vm" "vm_load_register reg_ecall vm = (Inr f, s1)"
    and "ecall_nop s1 = (Inr r, vm')"
  then show "machine_ok prog plat vm'"
    by (auto elim!: ecall_nop_success intro!: machine_ok_set_pc aligned_next dest!: machine_ok_ops)
qed (auto dest!: machine_ok_ops intro: machine_ok_halt)

lemma machine_ok_aligned: "machine_ok prog plat vm \<Longrightarrow> is_aligned (vm_get_pc vm)"
  by (simp add: machine_ok_def)

interpretation ok_inv: step_phases "vm_context lib" "machine_ok prog plat" "machine_ok prog plat"
  "machine_ok prog plat" for lib prog plat
  by unfold_locales
    (auto simp: vm_context_def vm_on_normal_end_def
      intro: machine_ok_ecall machine_ok_ops machine_ok_set_pc dest: machine_ok_aligned)

subsection \<open>Steps and runs\<close>

lemma vm_step_success:
  "vm_step lib vm = (Inr record, vm') \<longleftrightarrow>
   (\<exists>s. step (vm_context lib) vm = (Inr (), s) \<and> record = step_record (vm_tracer s) \<and>
     vm' = s\<lparr>vm_tracer := snd (advance (vm_tracer s))\<rparr> \<and> (is_busy_loop record \<longrightarrow> vm_halted vm'))"
  by (auto simp: vm_step_def andThen_success advance_def)

lemma vm_step_machine_ok:
  "vm_step lib vm = (Inr r, vm') \<Longrightarrow> machine_ok prog plat vm \<Longrightarrow> machine_ok prog plat vm'"
  by (auto simp: vm_step_success dest: ok_inv.step_keeps)

text \<open>A property that every step preserves holds at the end of a run.\<close>

lemma run_steps_induct:
  assumes "run_steps lib n vm = (Inr rs, vm')" and "P [] vm"
    and step: "\<And>rs s r s'. P rs s \<Longrightarrow> \<not> vm_halted s \<Longrightarrow> vm_step lib s = (Inr r, s') \<Longrightarrow> P (rs @ [r]) s'"
  shows "P rs vm'"
proof -
  have "P (pre @ rs) vm'" if "run_steps lib n vm = (Inr rs, vm')" "P pre vm" for pre
    using that
  proof (induction n arbitrary: vm rs pre)
    case (Suc n)
    show ?case
    proof (cases "vm_halted vm")
      case False
      with Suc.prems(1) obtain r s1 rs' where "vm_step lib vm = (Inr r, s1)"
        and "run_steps lib n s1 = (Inr rs', vm')" and "rs = r # rs'"
        by (auto simp: andThen_success)
      moreover from this have "P (pre @ [r]) s1" using step Suc.prems(2) False by blast
      ultimately show ?thesis using Suc.IH [of s1 rs' "pre @ [r]"] by simp
    qed (use Suc.prems in simp)
  qed simp
  from this [OF assms(1), of "[]"] assms(2) show ?thesis by simp
qed

lemma run_steps_machine_ok:
  "run_steps lib n vm = (Inr rs, vm') \<Longrightarrow> machine_ok prog plat vm \<Longrightarrow> machine_ok prog plat vm'"
  by (erule run_steps_induct [where P = "\<lambda>_. machine_ok prog plat"]) (auto dest: vm_step_machine_ok)

lemma run_steps_halted: "vm_halted vm \<Longrightarrow> run_steps lib n vm = (Inr [], vm)"
  by (cases n) (simp_all add: ok_def)

lemma machine_ok_new [simp]:
  "machine_ok prog plat (new_VMState plat prog) \<longleftrightarrow> is_aligned (ByteAddr (entry prog))"
  by (simp add: machine_ok_def registers_ok_def vm_get_pc_def REG_COUNT_def)

end
