(* ===== verification/MemoryTrace.thy ===== *)
theory MemoryTrace
  imports VmInv
begin

text \<open>
  The memory argument of the trace. Every access of a step record reads a value at its previous
  cycle and writes a value at its own; the proof system checks that, for each address, the pairs
  read (with the final one) are the pairs written (with the initial one). The lemmas show that the
  records a run of \<open>ceno_emul/src/vm_state.rs\<close> emits have this balance.
\<close>

subsection \<open>The accesses of a record\<close>

record Access =
  acc_addr :: word_addr
  acc_before :: Word
  acc_after :: Word
  acc_prev :: Cycle
  acc_cycle :: Cycle

definition write_access :: "Cycle \<Rightarrow> WriteOp \<Rightarrow> Access" where
  "write_access cycle opn =
     \<lparr>acc_addr = op_addr opn, acc_before = before (op_value opn), acc_after = after (op_value opn),
      acc_prev = previous_cycle opn, acc_cycle = cycle\<rparr>"

definition read_access :: "Cycle \<Rightarrow> ReadOp \<Rightarrow> Access" where
  "read_access cycle opn =
     \<lparr>acc_addr = op_addr opn, acc_before = op_value opn, acc_after = op_value opn,
      acc_prev = previous_cycle opn, acc_cycle = cycle\<rparr>"

definition opt_list :: "'a option \<Rightarrow> 'a list" where
  "opt_list x = (case x of None \<Rightarrow> [] | Some v \<Rightarrow> [v])"

lemma opt_list_simps [simp]: "opt_list None = []" "opt_list (Some v) = [v]"
  by (simp_all add: opt_list_def)

definition syscall_accesses :: "Cycle \<Rightarrow> SyscallWitness \<Rightarrow> Access list" where
  "syscall_accesses cycle w =
     map (write_access (cycle + SUBCYCLE_RD)) (reg_ops w) @
     map (write_access (cycle + SUBCYCLE_MEM)) (mem_ops w)"

definition record_accesses :: "StepRecord \<Rightarrow> Access list" where
  "record_accesses r =
     map (read_access (rec_cycle r + SUBCYCLE_RS1)) (opt_list (rec_rs1 r)) @
     map (read_access (rec_cycle r + SUBCYCLE_RS2)) (opt_list (rec_rs2 r)) @
     map (write_access (rec_cycle r + SUBCYCLE_RD)) (opt_list (rec_rd r)) @
     map (write_access (rec_cycle r + SUBCYCLE_MEM)) (opt_list (rec_memory_op r)) @
     concat (map (syscall_accesses (rec_cycle r)) (opt_list (rec_syscall r)))"

subsection \<open>The contents of an address\<close>

text \<open>Registers live at the word addresses \<open>64 * i\<close>; everything else is memory.\<close>

definition register_at :: "word_addr \<Rightarrow> RegIdx option" where
  "register_at a =
     (let n = unat (word_addr_0 a) in if n mod 64 = 0 \<and> n div 64 < REG_COUNT then Some (n div 64) else None)"

definition vm_value :: "VMState \<Rightarrow> word_addr \<Rightarrow> Word" where
  "vm_value vm a =
     (case register_at a of Some i \<Rightarrow> vm_registers vm ! i | None \<Rightarrow> vm_peek_memory a vm)"

definition last_access :: "Tracer \<Rightarrow> word_addr \<Rightarrow> Cycle" where
  "last_access tr a = (case latest_accesses tr a of None \<Rightarrow> 0 | Some c \<Rightarrow> c)"

lemma register_at_addr [simp]:
  "i < REG_COUNT \<Longrightarrow> register_at (word_addr_from_u32 (register_vma i)) = Some i"
  by (simp add: register_at_def register_word_addr REG_COUNT_def Let_def)

lemma register_addr_inj [simp]:
  "i < REG_COUNT \<Longrightarrow> j < REG_COUNT \<Longrightarrow>
   word_addr_from_u32 (register_vma i) = word_addr_from_u32 (register_vma j) \<longleftrightarrow> i = j"
  by (metis option.inject register_at_addr)

lemma register_at_Some:
  "register_at a = Some i \<Longrightarrow> i < REG_COUNT \<and> a = word_addr_from_u32 (register_vma i)"
proof -
  assume "register_at a = Some i"
  then have n: "unat (word_addr_0 a) = i * 64" "i < REG_COUNT"
    by (auto simp: register_at_def Let_def split: if_splits)
  then have "unat (word_addr_0 (word_addr_from_u32 (register_vma i))) = unat (word_addr_0 a)"
    by (simp add: register_word_addr REG_COUNT_def)
  then show ?thesis using n by (metis word_addr.expand word_unat_eq_iff)
qed

subsection \<open>The balance\<close>

abbreviation at :: "word_addr \<Rightarrow> Access list \<Rightarrow> Access list" where
  "at a xs \<equiv> filter (\<lambda>x. acc_addr x = a) xs"

definition balanced ::
  "(word_addr \<Rightarrow> Word) \<Rightarrow> Access list \<Rightarrow> (word_addr \<Rightarrow> Word) \<Rightarrow> (word_addr \<Rightarrow> Cycle) \<Rightarrow> bool" where
  "balanced ini xs fin lat \<longleftrightarrow>
     (\<forall>a. mset (map (\<lambda>x. (acc_before x, acc_prev x)) (at a xs)) + {#(fin a, lat a)#} =
          mset (map (\<lambda>x. (acc_after x, acc_cycle x)) (at a xs)) + {#(ini a, 0)#})"

lemma balanced_nil [simp]: "balanced v [] v (\<lambda>_. 0)"
  by (simp add: balanced_def)

lemma balanced_perm: "mset xs = mset ys \<Longrightarrow> balanced ini xs fin lat = balanced ini ys fin lat"
  by (simp add: balanced_def)

lemma balanced_access:
  assumes "balanced ini xs fin lat"
    and "acc_before x = fin (acc_addr x)" and "acc_prev x = lat (acc_addr x)"
  shows "balanced ini (x # xs) (fin(acc_addr x := acc_after x)) (lat(acc_addr x := acc_cycle x))"
  using assms by (auto simp: balanced_def)


text \<open>Each operation of the tracer adds one access to the record under construction.\<close>

definition emits :: "Access \<Rightarrow> Tracer \<Rightarrow> Tracer \<Rightarrow> bool" where
  "emits x tr tr' \<longleftrightarrow>
     mset (record_accesses (step_record tr')) = add_mset x (mset (record_accesses (step_record tr))) \<and>
     acc_prev x = last_access tr (acc_addr x) \<and>
     last_access tr' = (last_access tr)(acc_addr x := acc_cycle x)"

lemma balanced_emits:
  assumes "balanced ini (done @ record_accesses (step_record tr)) fin (last_access tr)"
    and "emits x tr tr'" and "acc_before x = fin (acc_addr x)"
  shows "balanced ini (done @ record_accesses (step_record tr')) (fin(acc_addr x := acc_after x))
    (last_access tr')"
proof -
  have "balanced ini (x # done @ record_accesses (step_record tr)) (fin(acc_addr x := acc_after x))
    (last_access tr')"
    using assms balanced_access [OF assms(1), of x] by (simp add: emits_def)
  moreover have "mset (done @ record_accesses (step_record tr')) =
    mset (x # done @ record_accesses (step_record tr))"
    using assms(2) by (simp add: emits_def)
  ultimately show ?thesis using balanced_perm by blast
qed

lemma last_access_track [simp]:
  "last_access (snd (track_access a sub tr)) = (last_access tr)(a := rec_cycle (step_record tr) + sub)"
  "fst (track_access a sub tr) = last_access tr a"
  "step_record (snd (track_access a sub tr)) = step_record tr"
  by (auto simp: track_access_def last_access_def fun_eq_iff split: option.splits)

lemma last_access_frame [simp]:
  "last_access (tr\<lparr>step_record := r\<rparr>) = last_access tr"
  "last_access (tr\<lparr>mmio_min_max_access := m\<rparr>) = last_access tr"
  by (simp_all add: last_access_def fun_eq_iff)

lemmas record_accesses_simps =
  record_accesses_def read_access_def write_access_def change_def

lemma trace_load_register_emits:
  assumes "trace_load_register i v tr = (Inr (), tr')"
  obtains x where "emits x tr tr'" and "acc_addr x = word_addr_from_u32 (register_vma i)"
    and "acc_before x = v" and "acc_after x = v"
    and "rec_memory_op (step_record tr') = rec_memory_op (step_record tr)"
    and "rec_syscall (step_record tr') = rec_syscall (step_record tr)"
proof -
  let ?a = "word_addr_from_u32 (register_vma i)" and ?c = "rec_cycle (step_record tr)"
  let ?x = "\<lambda>sub. \<lparr>acc_addr = ?a, acc_before = v, acc_after = v, acc_prev = last_access tr ?a,
    acc_cycle = ?c + sub\<rparr>"
  have "\<exists>sub. emits (?x sub) tr tr' \<and>
      rec_memory_op (step_record tr') = rec_memory_op (step_record tr) \<and>
      rec_syscall (step_record tr') = rec_syscall (step_record tr)"
  proof (cases "rec_rs1 (step_record tr)")
    case None
    with assms have "emits (?x SUBCYCLE_RS1) tr tr'"
      by (auto simp: trace_load_register_def case_prod_unfold Let_def emits_def record_accesses_simps
          split: option.splits)
    then show ?thesis using assms None
      by (auto simp: trace_load_register_def case_prod_unfold Let_def split: option.splits)
  next
    case (Some o1)
    with assms have "emits (?x SUBCYCLE_RS2) tr tr'"
      by (auto simp: trace_load_register_def case_prod_unfold Let_def emits_def record_accesses_simps
          split: option.splits)
    then show ?thesis using assms Some
      by (auto simp: trace_load_register_def case_prod_unfold Let_def split: option.splits)
  qed
  then show ?thesis by (auto intro: that)
qed

lemma trace_store_register_emits:
  assumes "trace_store_register i ch tr = (Inr (), tr')"
  obtains x where "emits x tr tr'" and "acc_addr x = word_addr_from_u32 (register_vma i)"
    and "acc_before x = before ch" and "acc_after x = after ch"
    and "rec_memory_op (step_record tr') = rec_memory_op (step_record tr)"
    and "rec_syscall (step_record tr') = rec_syscall (step_record tr)"
proof (rule that)
  let ?a = "word_addr_from_u32 (register_vma i)"
  show "emits \<lparr>acc_addr = ?a, acc_before = before ch, acc_after = after ch,
    acc_prev = last_access tr ?a, acc_cycle = rec_cycle (step_record tr) + SUBCYCLE_RD\<rparr> tr tr'"
    using assms
    by (auto simp: trace_store_register_def case_prod_unfold Let_def emits_def record_accesses_simps
        split: if_splits)
qed (use assms in \<open>auto simp: trace_store_register_def case_prod_unfold Let_def split: if_splits\<close>)

lemma trace_store_memory_emits:
  assumes "trace_store_memory a ch tr = (Inr (), tr')"
  obtains x where "emits x tr tr'" and "acc_addr x = a"
    and "acc_before x = before ch" and "acc_after x = after ch"
    and "rec_memory_op (step_record tr) = None"
    and "\<exists>opn. rec_memory_op (step_record tr') = Some opn \<and> op_addr opn = a"
    and "rec_syscall (step_record tr') = rec_syscall (step_record tr)"
proof (rule that)
  show "emits \<lparr>acc_addr = a, acc_before = before ch, acc_after = after ch,
    acc_prev = last_access tr a, acc_cycle = rec_cycle (step_record tr) + SUBCYCLE_MEM\<rparr> tr tr'"
    using assms
    by (auto simp: trace_store_memory_def case_prod_unfold Let_def emits_def record_accesses_simps
        split: if_splits)
qed (use assms in \<open>auto simp: trace_store_memory_def case_prod_unfold Let_def split: if_splits\<close>)

text \<open>The operations of a call, tracked one after the other, at distinct addresses.\<close>

lemma finalize_ops_frame:
  "finalize_ops sub ops tr = (ops', tr') \<Longrightarrow> step_record tr' = step_record tr \<and>
   map op_addr ops' = map op_addr ops \<and> map op_value ops' = map op_value ops \<and>
   (\<forall>a. a \<notin> op_addr ` set ops \<longrightarrow> last_access tr' a = last_access tr a)"
proof (induction sub ops tr arbitrary: ops' tr' rule: finalize_ops.induct)
  case (2 sub opn ops tr)
  let ?t = "snd (track_access (op_addr opn) sub tr)"
  obtain os t where rest: "finalize_ops sub ops ?t = (os, t)" by force
  with "2.prems" have "ops' = opn\<lparr>previous_cycle := last_access tr (op_addr opn)\<rparr> # os" "tr' = t"
    by (auto simp: case_prod_unfold)
  moreover have "(last_access tr (op_addr opn), ?t) = track_access (op_addr opn) sub tr"
    by (simp add: prod_eq_iff)
  ultimately show ?case using "2.IH" [OF _ rest] by auto
qed simp

abbreviation write_values :: "WriteOp list \<Rightarrow> (word_addr \<Rightarrow> Word) \<Rightarrow> word_addr \<Rightarrow> Word" where
  "write_values ops \<equiv> fold (\<lambda>opn f. f(op_addr opn := after (op_value opn))) ops"

lemma finalize_ops_balanced:
  assumes "finalize_ops sub ops tr = (ops', tr')" and "distinct (map op_addr ops)"
    and "\<forall>opn \<in> set ops. before (op_value opn) = fin (op_addr opn)"
    and "balanced ini xs fin (last_access tr)"
  shows "balanced ini (xs @ map (write_access (rec_cycle (step_record tr) + sub)) ops')
    (write_values ops fin) (last_access tr')"
  using assms
proof (induction sub ops tr arbitrary: ops' tr' fin xs rule: finalize_ops.induct)
  case (2 sub opn ops tr)
  let ?t = "snd (track_access (op_addr opn) sub tr)" and ?c = "rec_cycle (step_record tr) + sub"
  let ?x = "write_access ?c (opn\<lparr>previous_cycle := last_access tr (op_addr opn)\<rparr>)"
  let ?f = "fin(op_addr opn := after (op_value opn))"
  obtain os t where rest: "finalize_ops sub ops ?t = (os, t)" by force
  with "2.prems"(1) have res: "ops' = opn\<lparr>previous_cycle := last_access tr (op_addr opn)\<rparr> # os" "tr' = t"
    by (auto simp: case_prod_unfold)
  have "balanced ini (?x # xs) ?f (last_access ?t)"
    using balanced_access [OF "2.prems"(4), of ?x] "2.prems"(3) by (simp add: write_access_def)
  moreover have "\<forall>o' \<in> set ops. before (op_value o') = ?f (op_addr o')"
    using "2.prems"(2,3) by (metis (no_types, lifting) distinct.simps(2) fun_upd_other list.set_intros(2)
        list.set_map list.simps(9) rev_image_eqI)
  moreover have tk: "(last_access tr (op_addr opn), ?t) = track_access (op_addr opn) sub tr"
    by (simp add: prod_eq_iff)
  moreover have "distinct (map op_addr ops)" using "2.prems"(2) by simp
  ultimately have "balanced ini ((?x # xs) @ map (write_access (rec_cycle (step_record ?t) + sub)) os)
      (write_values ops ?f) (last_access t)"
    using "2.IH" [OF tk rest] by blast
  moreover have "mset ((?x # xs) @ map (write_access ?c) os) = mset (xs @ map (write_access ?c) ops')"
    unfolding res by simp
  ultimately have "balanced ini (xs @ map (write_access ?c) ops') (write_values ops ?f) (last_access t)"
    using balanced_perm [THEN iffD1] by (metis (no_types, lifting) last_access_track(3))
  then show ?case by (simp add: res fun_upd_def)
qed simp


subsection \<open>The balance of the virtual machine's records\<close>

text \<open>
  The memory operations of a record keep clear of the register addresses, and a call names no
  address twice. Loads and stores are kept clear by the platform's access checks; the pointers of
  a call are not checked, and two that overlap name an address twice.
\<close>

definition memory_private :: "StepRecord \<Rightarrow> bool" where
  "memory_private r \<longleftrightarrow>
     (\<forall>opn \<in> set (opt_list (rec_memory_op r)). register_at (op_addr opn) = None) \<and>
     (\<forall>w \<in> set (opt_list (rec_syscall r)).
        (\<forall>opn \<in> set (mem_ops w). register_at (op_addr opn) = None) \<and> distinct (map op_addr (mem_ops w)))"

definition consistent :: "(word_addr \<Rightarrow> Word) \<Rightarrow> Access list \<Rightarrow> VMState \<Rightarrow> bool" where
  "consistent ini done vm \<longleftrightarrow> length (vm_registers vm) = REG_COUNT \<and>
     (memory_private (step_record (vm_tracer vm)) \<longrightarrow>
        balanced ini (done @ record_accesses (step_record (vm_tracer vm))) (vm_value vm)
          (last_access (vm_tracer vm)))"

lemma vm_value_frame [simp]:
  "vm_value (vm\<lparr>vm_tracer := tr\<rparr>) = vm_value vm"
  "vm_value (vm\<lparr>vm_pc := p\<rparr>) = vm_value vm"
  "vm_value (vm\<lparr>vm_halted := h\<rparr>) = vm_value vm"
  by (auto simp: vm_value_def fun_eq_iff split: option.splits)

lemma vm_value_register:
  assumes "i < REG_COUNT" and "length (vm_registers vm) = REG_COUNT"
  shows "vm_value (vm\<lparr>vm_registers := (vm_registers vm)[i := w]\<rparr>) =
    (vm_value vm)(word_addr_from_u32 (register_vma i) := w)"
proof
  fix a
  show "vm_value (vm\<lparr>vm_registers := (vm_registers vm)[i := w]\<rparr>) a =
    ((vm_value vm)(word_addr_from_u32 (register_vma i) := w)) a"
    using assms register_at_Some [of a]
    by (cases "register_at a") (auto simp: vm_value_def nth_list_update)
qed

lemma vm_value_memory:
  "register_at a = None \<Longrightarrow> vm_value (vm_init_memory a w vm) = (vm_value vm)(a := w)"
  by (auto simp: vm_value_def fun_eq_iff split: option.splits)

lemma consistent_tracer:
  assumes "consistent ini done vm" and "emits x (vm_tracer vm) (vm_tracer vm')"
    and "acc_before x = vm_value vm (acc_addr x)" and "length (vm_registers vm') = REG_COUNT"
    and "memory_private (step_record (vm_tracer vm')) \<Longrightarrow> memory_private (step_record (vm_tracer vm))"
    and "memory_private (step_record (vm_tracer vm')) \<Longrightarrow>
      vm_value vm' = (vm_value vm)(acc_addr x := acc_after x)"
  shows "consistent ini done vm'"
  unfolding consistent_def
proof (intro conjI impI)
  assume "memory_private (step_record (vm_tracer vm'))"
  then show "balanced ini (done @ record_accesses (step_record (vm_tracer vm'))) (vm_value vm')
      (last_access (vm_tracer vm'))"
    using assms(1,5,6) balanced_emits [OF _ assms(2), of ini "done" "vm_value vm"] assms(3)
    by (simp add: consistent_def)
qed (rule assms(4))

lemma memory_private_cong:
  "rec_memory_op r = rec_memory_op r' \<Longrightarrow> rec_syscall r = rec_syscall r' \<Longrightarrow>
   memory_private r = memory_private r'"
  by (simp add: memory_private_def)

lemma consistent_load_register:
  assumes "vm_load_register i vm = (Inr v, vm')" and "consistent ini done vm"
  shows "consistent ini done vm'"
proof -
  let ?a = "word_addr_from_u32 (register_vma i)"
  have len: "length (vm_registers vm) = REG_COUNT" using assms(2) by (simp add: consistent_def)
  from assms(1) obtain tr where vm': "vm' = vm\<lparr>vm_tracer := tr\<rparr>" and i: "i < length (vm_registers vm)"
    and v: "v = vm_registers vm ! i" and t: "trace_load_register i v (vm_tracer vm) = (Inr (), tr)"
    using vm_load_register_success by blast
  have val: "vm_value vm ?a = v" using i len v by (simp add: vm_value_def)
  from t obtain x where x: "emits x (vm_tracer vm) tr" "acc_addr x = ?a" "acc_before x = v" "acc_after x = v"
    and "rec_memory_op (step_record tr) = rec_memory_op (step_record (vm_tracer vm))"
    "rec_syscall (step_record tr) = rec_syscall (step_record (vm_tracer vm))"
    by (rule trace_load_register_emits)
  then have "memory_private (step_record tr) = memory_private (step_record (vm_tracer vm))"
    by (intro memory_private_cong)
  with x val len show ?thesis unfolding vm'
    by (intro consistent_tracer [OF assms(2), of x]) (simp_all add: fun_upd_idem)
qed

lemma consistent_store_register:
  assumes "vm_store_register i w vm = (Inr u, vm')" and "consistent ini done vm"
  shows "consistent ini done vm'"
  using vm_store_register_success [OF assms(1)]
proof (elim disjE exE conjE)
  fix tr
  let ?a = "word_addr_from_u32 (register_vma i)"
  assume vm': "vm' = vm\<lparr>vm_tracer := tr, vm_registers := (vm_registers vm)[i := w]\<rparr>"
    and i: "0 < i" "i < length (vm_registers vm)"
    and t: "trace_store_register i (change (vm_registers vm ! i) w) (vm_tracer vm) = (Inr (), tr)"
  have len: "length (vm_registers vm) = REG_COUNT" using assms(2) by (simp add: consistent_def)
  have val: "vm_value vm ?a = vm_registers vm ! i" using i len by (simp add: vm_value_def)
  have val': "vm_value vm' = (vm_value vm)(?a := w)"
    using vm_value_register [of i "vm\<lparr>vm_tracer := tr\<rparr>" w] i len by (simp add: vm')
  from t obtain x where x: "emits x (vm_tracer vm) tr" "acc_addr x = ?a"
      "acc_before x = vm_registers vm ! i" "acc_after x = w"
    and "rec_memory_op (step_record tr) = rec_memory_op (step_record (vm_tracer vm))"
    "rec_syscall (step_record tr) = rec_syscall (step_record (vm_tracer vm))"
    by (rule trace_store_register_emits) (auto simp: change_def)
  then have "memory_private (step_record tr) = memory_private (step_record (vm_tracer vm))"
    by (intro memory_private_cong)
  with x val val' len show ?thesis
    by (intro consistent_tracer [OF assms(2), of x]) (simp_all add: vm')
qed (use assms(2) in simp)

lemma consistent_store_memory_tracer:
  assumes t: "trace_store_memory a (change (vm_peek_memory a vm) w) (vm_tracer vm) = (Inr (), tr)"
    and "consistent ini done vm" and "vm_tracer vm' = tr" and "vm_registers vm' = vm_registers vm"
    and "register_at a = None \<Longrightarrow> vm_value vm' = (vm_value vm)(a := w)"
  shows "consistent ini done vm'"
proof -
  from t obtain x where x: "emits x (vm_tracer vm) tr" "acc_addr x = a"
    "acc_before x = vm_peek_memory a vm" "acc_after x = w"
    and none: "rec_memory_op (step_record (vm_tracer vm)) = None"
    and some: "\<exists>opn. rec_memory_op (step_record tr) = Some opn \<and> op_addr opn = a"
    and sys: "rec_syscall (step_record tr) = rec_syscall (step_record (vm_tracer vm))"
    by (rule trace_store_memory_emits) (auto simp: change_def)
  have clear: "memory_private (step_record tr) \<Longrightarrow> register_at a = None"
    "memory_private (step_record tr) \<Longrightarrow> memory_private (step_record (vm_tracer vm))"
    using none some sys by (auto simp: memory_private_def)
  have val: "register_at a = None \<Longrightarrow> vm_value vm a = vm_peek_memory a vm" by (simp add: vm_value_def)
  show ?thesis
  proof (cases "register_at a")
    case None
    with x val clear assms(2-5) show ?thesis
      by (intro consistent_tracer [OF assms(2), of x]) (simp_all add: consistent_def)
  next
    case (Some i)
    then show ?thesis using assms(2-4) clear by (auto simp: consistent_def)
  qed
qed

lemma consistent_load_memory:
  assumes "vm_load_memory a vm = (Inr v, vm')" and "consistent ini done vm"
  shows "consistent ini done vm'"
proof -
  from assms(1) obtain tr where vm': "vm' = vm\<lparr>vm_tracer := tr\<rparr>" and v: "v = vm_peek_memory a vm"
    and t: "trace_load_memory a v (vm_tracer vm) = (Inr (), tr)"
    using vm_load_memory_success by blast
  have "register_at a = None \<Longrightarrow> vm_value vm = (vm_value vm)(a := v)"
    by (simp add: vm_value_def v fun_upd_idem)
  then show ?thesis
    using consistent_store_memory_tracer [OF t [unfolded trace_load_memory_def v] assms(2), of vm'] v
    by (simp add: vm')
qed

lemma consistent_store_memory:
  assumes "vm_store_memory a w vm = (Inr u, vm')" and "consistent ini done vm"
  shows "consistent ini done vm'"
  using vm_store_memory_success [OF assms(1)] assms(2)
  by (auto simp: vm_value_memory intro: consistent_store_memory_tracer)


subsection \<open>System calls\<close>

definition reads_memory :: "VMState \<Rightarrow> SyscallEffects \<Rightarrow> bool" where
  "reads_memory vm e \<longleftrightarrow>
     (\<forall>opn \<in> set (mem_ops (witness e)). before (op_value opn) = vm_peek_memory (op_addr opn) vm)"

lemma one_segment_reads: "one_segment_call len f vm = Inr e \<Longrightarrow> reads_memory vm e"
  by (erule one_segment_call_success) (auto simp: reads_memory_def new_effects_def dest: view_mem_ops_before)

lemma two_segment_reads: "two_segment_call len f vm = Inr e \<Longrightarrow> reads_memory vm e"
  by (erule two_segment_call_success) (auto simp: reads_memory_def new_effects_def dest: view_mem_ops_before)

lemma decompress_reads: "secp256k1_decompress lib vm = Inr e \<Longrightarrow> reads_memory vm e"
  by (auto simp: secp256k1_decompress_def bindE_success Let_def reads_memory_def new_effects_def
      dest: view_mem_ops_before)

lemma handle_syscall_reads: "handle_syscall lib vm code = Inr e \<Longrightarrow> reads_memory vm e"
  by (auto simp: handle_syscall_def syscall_defs dest: one_segment_reads two_segment_reads decompress_reads
      split: if_splits)

lemma vm_value_fold_init:
  assumes "\<forall>opn \<in> set ops. register_at (op_addr opn) = None"
  shows "vm_value (fold (\<lambda>(a, v). vm_init_memory a v) (map (\<lambda>opn. (op_addr opn, after (op_value opn))) ops) vm) =
    write_values ops (vm_value vm)"
  using assms by (induction ops arbitrary: vm) (simp_all add: vm_value_memory)

lemma track_syscall_success:
  assumes "track_syscall w tr = (Inr (), tr')"
  obtains regs mems tr1 tr2 where "finalize_ops SUBCYCLE_RD (reg_ops w) tr = (regs, tr1)"
    and "finalize_ops SUBCYCLE_MEM (mem_ops w) tr1 = (mems, tr2)"
    and "rec_syscall (step_record tr) = None"
    and "tr' = tr2\<lparr>step_record := (step_record tr)\<lparr>rec_syscall := Some (w\<lparr>mem_ops := mems, reg_ops := regs\<rparr>)\<rparr>\<rparr>"
proof -
  obtain regs tr1 where f1: "finalize_ops SUBCYCLE_RD (reg_ops w) tr = (regs, tr1)" by force
  obtain mems tr2 where f2: "finalize_ops SUBCYCLE_MEM (mem_ops w) tr1 = (mems, tr2)" by force
  have "step_record tr2 = step_record tr"
    using finalize_ops_frame [OF f1] finalize_ops_frame [OF f2] by simp
  with assms f1 f2 show ?thesis
    by (auto simp: track_syscall_def finalize_def intro: that split: if_splits)
qed

lemma consistent_syscall:
  assumes "reads_args vm e" and "reads_memory vm e" and "apply_syscall e vm = (Inr u, vm')"
    and "consistent ini done vm"
  shows "consistent ini done vm'"
proof -
  let ?w = "witness e" and ?r = "step_record (vm_tracer vm)"
  let ?m = "fold (\<lambda>(a, v). vm_init_memory a v) (iter_mem_values e) vm"
  obtain tr where tr: "track_syscall ?w (vm_tracer vm) = (Inr (), tr)"
    and vm': "vm' = ?m\<lparr>vm_pc := vm_pc vm + 4, vm_tracer := tr\<rparr>"
    using apply_syscall_success [OF assms(1,3)] by blast
  from tr obtain regs mems tr1 tr2
    where f1: "finalize_ops SUBCYCLE_RD (reg_ops ?w) (vm_tracer vm) = (regs, tr1)"
      and f2: "finalize_ops SUBCYCLE_MEM (mem_ops ?w) tr1 = (mems, tr2)"
      and none: "rec_syscall ?r = None"
      and tr': "tr = tr2\<lparr>step_record := ?r\<lparr>rec_syscall := Some (?w\<lparr>mem_ops := mems, reg_ops := regs\<rparr>)\<rparr>\<rparr>"
    by (rule track_syscall_success)
  have len: "length (vm_registers vm) = REG_COUNT" using assms(4) by (simp add: consistent_def)
  show ?thesis unfolding consistent_def
  proof (intro conjI impI)
    assume clear: "memory_private (step_record (vm_tracer vm'))"
    have addrs: "map op_addr mems = map op_addr (mem_ops ?w)"
      using finalize_ops_frame [OF f2] by simp
    have "distinct (map op_addr mems)" and "register_at ` op_addr ` set mems \<subseteq> {None}"
      and old: "memory_private ?r"
      using clear none by (auto simp: vm' tr' memory_private_def)
    then have dist: "distinct (map op_addr (mem_ops ?w))"
      and memory: "\<forall>opn \<in> set (mem_ops ?w). register_at (op_addr opn) = None"
      using addrs by (metis, metis (no_types, lifting) image_eqI image_subset_iff list.set_map singletonD)
    from assms(1) obtain a0 a1 where regs: "reg_ops ?w = arg_reg_ops a0 a1"
      and a0: "a0 = vm_registers vm ! reg_arg0" and a1: "a1 = vm_registers vm ! reg_arg1"
      by (auto simp: reads_args_def)
    have vals: "vm_value vm (word_addr_from_u32 (register_vma reg_arg0)) = a0"
      "vm_value vm (word_addr_from_u32 (register_vma reg_arg1)) = a1"
      by (simp_all add: vm_value_def REG_COUNT_def reg_arg0_def reg_arg1_def a0 a1)
    have b1: "balanced ini (done @ record_accesses ?r) (vm_value vm) (last_access (vm_tracer vm))"
      using assms(4) old by (simp add: consistent_def)
    have d1: "distinct (map op_addr (reg_ops ?w))"
      by (simp add: regs arg_reg_ops_def new_register_op_def REG_COUNT_def reg_arg0_def reg_arg1_def)
    have v1: "\<forall>opn \<in> set (reg_ops ?w). before (op_value opn) = vm_value vm (op_addr opn)"
      using vals by (simp add: regs arg_reg_ops_def new_register_op_def change_def)
    have w1: "write_values (reg_ops ?w) (vm_value vm) = vm_value vm"
      using vals by (simp add: regs arg_reg_ops_def new_register_op_def change_def fun_upd_idem)
    have v2: "\<forall>opn \<in> set (mem_ops ?w). before (op_value opn) = vm_value vm (op_addr opn)"
      using assms(2) memory by (simp add: reads_memory_def vm_value_def)
    have r1: "step_record tr1 = ?r" using finalize_ops_frame [OF f1] by simp
    have "balanced ini (((done @ record_accesses ?r) @
        map (write_access (rec_cycle ?r + SUBCYCLE_RD)) regs) @
        map (write_access (rec_cycle ?r + SUBCYCLE_MEM)) mems)
        (write_values (mem_ops ?w) (vm_value vm)) (last_access tr2)"
      using finalize_ops_balanced [OF f2 dist v2
          finalize_ops_balanced [OF f1 d1 v1 b1, unfolded w1]] unfolding r1 .
    moreover have "vm_value vm' = write_values (mem_ops ?w) (vm_value vm)"
      using vm_value_fold_init [OF memory, of vm] by (simp add: vm' iter_mem_values_def)
    ultimately show "balanced ini (done @ record_accesses (step_record (vm_tracer vm'))) (vm_value vm')
        (last_access (vm_tracer vm'))"
      using none by (simp add: vm' tr' record_accesses_def syscall_accesses_def)
  qed (simp add: vm' len)
qed


subsection \<open>Every step\<close>

lemma consistent_frame [simp]:
  "consistent ini done (vm\<lparr>vm_pc := p\<rparr>) = consistent ini done vm"
  "consistent ini done (vm\<lparr>vm_halted := h\<rparr>) = consistent ini done vm"
  "consistent ini done (vm_set_pc a vm) = consistent ini done vm"
  "consistent ini done (vm_halt vm) = consistent ini done vm"
  by (simp_all add: consistent_def vm_set_pc_def vm_halt_def)

lemma consistent_pc_record:
  assumes "rec_cycle r = rec_cycle (step_record (vm_tracer vm))"
    and "rec_rs1 r = rec_rs1 (step_record (vm_tracer vm))"
    and "rec_rs2 r = rec_rs2 (step_record (vm_tracer vm))"
    and "rec_rd r = rec_rd (step_record (vm_tracer vm))"
    and "rec_memory_op r = rec_memory_op (step_record (vm_tracer vm))"
    and "rec_syscall r = rec_syscall (step_record (vm_tracer vm))"
  shows "consistent ini done (vm\<lparr>vm_tracer := (vm_tracer vm)\<lparr>step_record := r\<rparr>\<rparr>) = consistent ini done vm"
  using assms by (simp add: consistent_def record_accesses_def memory_private_def)

lemma consistent_fetch:
  "vm_fetch m vm = (Inr f, vm') \<Longrightarrow> consistent ini done vm \<Longrightarrow> consistent ini done vm'"
  by (auto simp: vm_fetch_def Let_def trace_fetch_def consistent_pc_record split: if_splits)

lemma consistent_normal_end:
  "consistent ini done vm \<Longrightarrow> consistent ini done (vm_on_normal_end insn vm)"
  by (simp add: vm_on_normal_end_def store_pc_def consistent_pc_record)

lemma consistent_ecall:
  "vm_ecall lib vm = (Inr r, vm') \<Longrightarrow> consistent ini done vm \<Longrightarrow> consistent ini done vm'"
proof (erule vm_ecall_success)
  fix f s1 e u
  assume "consistent ini done vm" "vm_load_register reg_ecall vm = (Inr f, s1)"
    "handle_syscall lib s1 f = Inr e" "apply_syscall e s1 = (Inr u, vm')"
  then show "consistent ini done vm'"
    by (blast intro: consistent_syscall handle_syscall_args handle_syscall_reads consistent_load_register)
next
  fix f s1
  assume "consistent ini done vm" "vm_load_register reg_ecall vm = (Inr f, s1)"
    and "ecall_nop s1 = (Inr r, vm')"
  then show "consistent ini done vm'"
    by (auto elim!: ecall_nop_success
        dest!: consistent_load_register consistent_store_register consistent_store_memory)
qed (auto dest!: consistent_load_register)

interpretation balance: step_phases "vm_context lib" "consistent ini done" "consistent ini done"
  "consistent ini done" for lib ini "done"
  by unfold_locales
    (auto simp: vm_context_def intro: consistent_normal_end consistent_fetch consistent_load_register
      consistent_store_register consistent_load_memory consistent_store_memory consistent_ecall)

lemma record_accesses_default [simp]:
  "record_accesses (default_StepRecord\<lparr>rec_cycle := c\<rparr>) = []"
  "memory_private (default_StepRecord\<lparr>rec_cycle := c\<rparr>)"
  by (simp_all add: record_accesses_def default_StepRecord_def memory_private_def)

text \<open>Between steps the record under construction is empty.\<close>

definition fresh_record :: "VMState \<Rightarrow> bool" where
  "fresh_record vm \<longleftrightarrow> (\<exists>c. step_record (vm_tracer vm) = default_StepRecord\<lparr>rec_cycle := c\<rparr>)"

lemma vm_step_fresh: "vm_step lib vm = (Inr r, vm') \<Longrightarrow> fresh_record vm'"
  by (auto simp: vm_step_success advance_def fresh_record_def)

lemma vm_step_consistent:
  assumes "vm_step lib vm = (Inr r, vm')" and "fresh_record vm" and "consistent ini done vm"
    and "memory_private r"
  shows "consistent ini (done @ record_accesses r) vm'"
proof -
  from assms(1) obtain s where s: "step (vm_context lib) vm = (Inr (), s)"
    and r: "r = step_record (vm_tracer s)"
    and vm': "vm' = s\<lparr>vm_tracer := snd (advance (vm_tracer s))\<rparr>"
    by (auto simp: vm_step_success)
  have "consistent ini done s" using balance.step_keeps [OF s assms(3)] .
  then show ?thesis using assms(4) by (simp add: consistent_def vm' r advance_def)
qed

lemma run_consistent:
  assumes "run_steps lib n vm = (Inr rs, vm')" and "fresh_record vm" and "consistent ini [] vm"
    and "\<forall>r \<in> set rs. memory_private r"
  shows "fresh_record vm' \<and> consistent ini (concat (map record_accesses rs)) vm'"
proof -
  have "(\<forall>r \<in> set rs. memory_private r) \<longrightarrow> fresh_record vm' \<and>
      consistent ini (concat (map record_accesses rs)) vm'"
    using assms(1)
    by (rule run_steps_induct)
      (use assms(2,3) in \<open>auto intro: vm_step_fresh dest: vm_step_consistent\<close>)
  with assms(4) show ?thesis by blast
qed

end
