(* ===== verification/TraceOrder.thy ===== *)
theory TraceOrder
  imports MemoryTrace
begin

text \<open>
  The order of the accesses in time. The tracer of \<open>ceno_emul/src/tracer.rs\<close> gives the accesses of
  a step the cycles of its four subcycles, and each access the cycle of the one before it at the
  same address. The lemmas show that the previous cycle of every access is smaller than its own,
  which is what the circuits check of a previous timestamp.
\<close>

definition ordered_record :: "StepRecord \<Rightarrow> bool" where
  "ordered_record r \<longleftrightarrow> (\<forall>x \<in> set (record_accesses r). acc_prev x < acc_cycle x)"

text \<open>The record of a system call has no other write; its registers are written at addresses of their own.\<close>

definition lone_syscall :: "StepRecord \<Rightarrow> bool" where
  "lone_syscall r \<longleftrightarrow> (\<forall>w. rec_syscall r = Some w \<longrightarrow>
     rec_rd r = None \<and> rec_memory_op r = None \<and> distinct (map op_addr (reg_ops w)))"

definition whole_record :: "StepRecord \<Rightarrow> bool" where
  "whole_record r \<longleftrightarrow> ordered_record r \<and> lone_syscall r"

definition registers_read :: "StepRecord \<Rightarrow> nat" where
  "registers_read r = (if rec_rs1 r = None then 0 else if rec_rs2 r = None then 1 else 2)"

text \<open>
  Within the step of cycle \<open>C\<close>, the last access to every address lies below \<open>C\<close> plus a limit that
  depends on what the step has done so far.
\<close>

definition below :: "Cycle \<Rightarrow> (word_addr \<Rightarrow> nat) \<Rightarrow> Tracer \<Rightarrow> bool" where
  "below C lim tr \<longleftrightarrow> (\<forall>a. unat (last_access tr a) < unat C + lim a)"

definition read_limit :: "StepRecord \<Rightarrow> word_addr \<Rightarrow> nat" where
  "read_limit r a = (if register_at a = None then 0 else registers_read r)"

definition write_limit :: "StepRecord \<Rightarrow> word_addr \<Rightarrow> nat" where
  "write_limit r a =
     (if register_at a = None then if rec_memory_op r = None then 0 else 4
      else if rec_rd r = None then 2 else 3)"

definition in_step :: "Cycle \<Rightarrow> VMState \<Rightarrow> bool" where
  "in_step C vm \<longleftrightarrow> length (vm_registers vm) = REG_COUNT \<and>
     rec_cycle (step_record (vm_tracer vm)) = C \<and> unat C + 4 < 18446744073709551616"

definition reading :: "Cycle \<Rightarrow> VMState \<Rightarrow> bool" where
  "reading C vm \<longleftrightarrow> in_step C vm \<and> (let tr = vm_tracer vm; r = step_record tr in
     rec_rd r = None \<and> rec_memory_op r = None \<and> rec_syscall r = None \<and>
     ordered_record r \<and> below C (read_limit r) tr)"

definition writing :: "Cycle \<Rightarrow> VMState \<Rightarrow> bool" where
  "writing C vm \<longleftrightarrow> in_step C vm \<and> (let tr = vm_tracer vm; r = step_record tr in
     rec_syscall r = None \<and> (memory_private r \<longrightarrow> ordered_record r \<and> below C (write_limit r) tr))"

definition step_done :: "Cycle \<Rightarrow> VMState \<Rightarrow> bool" where
  "step_done C vm \<longleftrightarrow> in_step C vm \<and> (let tr = vm_tracer vm; r = step_record tr in
     lone_syscall r \<and> (memory_private r \<longrightarrow> ordered_record r \<and> below C (\<lambda>_. 4) tr))"

lemma unat_cycle_add:
  assumes "unat C + 4 < 18446744073709551616"
  shows "unat ((C :: Cycle) + SUBCYCLE_RS1) = unat C" "unat (C + SUBCYCLE_RS2) = unat C + 1"
    "unat (C + SUBCYCLE_RD) = unat C + 2" "unat (C + SUBCYCLE_MEM) = unat C + 3"
    "unat (C + SUBCYCLES_PER_INSN) = unat C + 4"
  using assms by (simp_all add: unat_word_ariths SUBCYCLE_RS1_def SUBCYCLE_RS2_def SUBCYCLE_RD_def
      SUBCYCLE_MEM_def SUBCYCLES_PER_INSN_def)

lemma below_mono: "below C lim tr \<Longrightarrow> (\<And>a. lim a \<le> lim' a) \<Longrightarrow> below C lim' tr"
  unfolding below_def by (meson add_left_mono less_le_trans)

lemma below_update:
  assumes "below C lim tr" and "last_access tr' = (last_access tr)(a := c)"
    and "unat c < unat C + lim' a" and "\<And>b. b \<noteq> a \<Longrightarrow> lim b \<le> lim' b"
  shows "below C lim' tr'"
  using assms unfolding below_def by (metis add_left_mono fun_upd_apply less_le_trans)

lemma reading_writing: "reading C vm \<Longrightarrow> writing C vm"
  by (auto simp: reading_def writing_def Let_def read_limit_def write_limit_def registers_read_def
      elim!: below_mono)

lemma writing_done: "writing C vm \<Longrightarrow> step_done C vm"
  by (auto simp: writing_def step_done_def Let_def write_limit_def lone_syscall_def elim!: below_mono)

lemma reading_load_register:
  assumes "vm_load_register i vm = (Inr v, vm')" and "reading C vm"
  shows "reading C vm'"
proof -
  let ?r = "step_record (vm_tracer vm)" and ?a = "word_addr_from_u32 (register_vma i)"
  from assms(1) obtain tr where vm': "vm' = vm\<lparr>vm_tracer := tr\<rparr>" and i: "i < length (vm_registers vm)"
    and t: "trace_load_register i v (vm_tracer vm) = (Inr (), tr)"
    using vm_load_register_success by blast
  have C: "in_step C vm" "rec_cycle ?r = C" "unat C + 4 < 18446744073709551616" "i < REG_COUNT"
    and ord: "ordered_record ?r" and lim: "below C (read_limit ?r) (vm_tracer vm)"
    and none: "rec_rd ?r = None" "rec_memory_op ?r = None" "rec_syscall ?r = None"
    using assms(2) i by (auto simp: reading_def in_step_def Let_def)
  have prev: "unat (last_access (vm_tracer vm) ?a) < unat C + registers_read ?r"
    using lim [unfolded below_def, rule_format, of ?a] C(4) by (simp add: read_limit_def)
  show ?thesis
  proof (cases "rec_rs1 ?r")
    case None
    with t have rs2: "rec_rs2 ?r = None"
      by (auto simp: trace_load_register_def Let_def split: option.splits)
    define opn where "opn = \<lparr>op_addr = ?a, op_value = v, previous_cycle = last_access (vm_tracer vm) ?a\<rparr>"
    from t None rs2 have rec: "step_record tr = ?r\<lparr>rec_rs1 := Some opn\<rparr>"
      and last: "last_access tr = (last_access (vm_tracer vm))(?a := C + SUBCYCLE_RS1)"
      by (auto simp: trace_load_register_def case_prod_unfold Let_def opn_def C(2))
    have "ordered_record (step_record tr)"
      using ord prev None C by (auto simp: ordered_record_def rec record_accesses_def read_access_def
          opn_def registers_read_def word_less_nat_alt unat_cycle_add)
    moreover have "below C (read_limit (step_record tr)) tr"
      by (rule below_update [OF lim last])
        (use None rs2 C in \<open>auto simp: rec read_limit_def registers_read_def unat_cycle_add\<close>)
    ultimately show ?thesis using C none by (simp add: reading_def in_step_def vm' rec)
  next
    case (Some o1)
    with t have rs2: "rec_rs2 ?r = None"
      by (auto simp: trace_load_register_def Let_def split: option.splits)
    define opn where "opn = \<lparr>op_addr = ?a, op_value = v, previous_cycle = last_access (vm_tracer vm) ?a\<rparr>"
    from t Some rs2 have rec: "step_record tr = ?r\<lparr>rec_rs2 := Some opn\<rparr>"
      and last: "last_access tr = (last_access (vm_tracer vm))(?a := C + SUBCYCLE_RS2)"
      by (auto simp: trace_load_register_def case_prod_unfold Let_def opn_def C(2))
    have "ordered_record (step_record tr)"
      using ord prev Some rs2 C by (auto simp: ordered_record_def rec record_accesses_def read_access_def
          opn_def registers_read_def word_less_nat_alt unat_cycle_add)
    moreover have "below C (read_limit (step_record tr)) tr"
      by (rule below_update [OF lim last])
        (use Some rs2 C in \<open>auto simp: rec read_limit_def registers_read_def unat_cycle_add\<close>)
    ultimately show ?thesis using C none by (simp add: reading_def in_step_def vm' rec)
  qed
qed

lemma writing_store_register:
  assumes "vm_store_register i w vm = (Inr u, vm')" and "writing C vm"
  shows "writing C vm'"
  using vm_store_register_success [OF assms(1)]
proof (elim disjE exE conjE)
  fix tr
  let ?r = "step_record (vm_tracer vm)" and ?a = "word_addr_from_u32 (register_vma i)"
  assume vm': "vm' = vm\<lparr>vm_tracer := tr, vm_registers := (vm_registers vm)[i := w]\<rparr>"
    and i: "0 < i" "i < length (vm_registers vm)"
    and t: "trace_store_register i (change (vm_registers vm ! i) w) (vm_tracer vm) = (Inr (), tr)"
  define opn where "opn = \<lparr>op_addr = ?a, op_value = change (vm_registers vm ! i) w,
    previous_cycle = last_access (vm_tracer vm) ?a\<rparr>"
  have C: "in_step C vm" "rec_cycle ?r = C" "unat C + 4 < 18446744073709551616" "i < REG_COUNT"
    and none: "rec_syscall ?r = None"
    and ord: "memory_private ?r \<Longrightarrow> ordered_record ?r \<and> below C (write_limit ?r) (vm_tracer vm)"
    using assms(2) i by (auto simp: writing_def in_step_def Let_def)
  from t have rd: "rec_rd ?r = None" by (auto simp: trace_store_register_def split: if_splits)
  with t have rec: "step_record tr = ?r\<lparr>rec_rd := Some opn\<rparr>"
    and last: "last_access tr = (last_access (vm_tracer vm))(?a := C + SUBCYCLE_RD)"
    by (auto simp: trace_store_register_def case_prod_unfold Let_def opn_def C(2))
  have "memory_private (step_record tr) \<Longrightarrow>
    ordered_record (step_record tr) \<and> below C (write_limit (step_record tr)) tr"
  proof (intro conjI)
    assume "memory_private (step_record tr)"
    then have "memory_private ?r" by (simp add: rec memory_private_def)
    with ord have old: "ordered_record ?r" "below C (write_limit ?r) (vm_tracer vm)" by simp_all
    then have "unat (last_access (vm_tracer vm) ?a) < unat C + 2"
      using C(4) rd by (auto simp: below_def write_limit_def dest: spec [where x = ?a])
    then show "ordered_record (step_record tr)"
      using old(1) rd C by (auto simp: ordered_record_def rec record_accesses_def write_access_def
          opn_def word_less_nat_alt unat_cycle_add)
    show "below C (write_limit (step_record tr)) tr"
      by (rule below_update [OF old(2) last])
        (use rd C in \<open>auto simp: rec write_limit_def unat_cycle_add\<close>)
  qed
  with C none show ?thesis by (simp add: writing_def in_step_def vm' rec)
qed (use assms(2) in simp)

lemma writing_memory:
  assumes t: "trace_store_memory a ch (vm_tracer vm) = (Inr (), tr)" and "writing C vm"
    and "vm_tracer vm' = tr" and "vm_registers vm' = vm_registers vm"
  shows "writing C vm'"
proof -
  let ?r = "step_record (vm_tracer vm)"
  define opn where "opn = \<lparr>op_addr = a, op_value = ch, previous_cycle = last_access (vm_tracer vm) a\<rparr>"
  have C: "in_step C vm" "rec_cycle ?r = C" "unat C + 4 < 18446744073709551616"
    and none: "rec_syscall ?r = None"
    and ord: "memory_private ?r \<Longrightarrow> ordered_record ?r \<and> below C (write_limit ?r) (vm_tracer vm)"
    using assms(2) by (auto simp: writing_def in_step_def Let_def)
  from t have mem: "rec_memory_op ?r = None" by (auto simp: trace_store_memory_def split: if_splits)
  with t have rec: "step_record tr = ?r\<lparr>rec_memory_op := Some opn\<rparr>"
    and last: "last_access tr = (last_access (vm_tracer vm))(a := C + SUBCYCLE_MEM)"
    by (auto simp: trace_store_memory_def case_prod_unfold Let_def opn_def C(2))
  have "memory_private (step_record tr) \<Longrightarrow>
    ordered_record (step_record tr) \<and> below C (write_limit (step_record tr)) tr"
  proof (intro conjI)
    assume "memory_private (step_record tr)"
    then have a: "register_at a = None" and "memory_private ?r"
      using mem none by (simp_all add: rec memory_private_def opn_def)
    with ord have old: "ordered_record ?r" "below C (write_limit ?r) (vm_tracer vm)" by simp_all
    then have "unat (last_access (vm_tracer vm) a) < unat C + 0"
      using a mem by (auto simp: below_def write_limit_def dest: spec [where x = a])
    then show "ordered_record (step_record tr)"
      using old(1) mem C by (auto simp: ordered_record_def rec record_accesses_def write_access_def
          opn_def word_less_nat_alt unat_cycle_add)
    show "below C (write_limit (step_record tr)) tr"
      by (rule below_update [OF old(2) last])
        (use mem a C in \<open>auto simp: rec write_limit_def unat_cycle_add\<close>)
  qed
  with C none assms(3,4) show ?thesis by (simp add: writing_def in_step_def rec)
qed


lemma finalize_ops_ordered:
  assumes "finalize_ops sub ops tr = (ops', tr')" and "distinct (map op_addr ops)"
    and "\<forall>opn \<in> set ops. last_access tr (op_addr opn) < rec_cycle (step_record tr) + sub"
  shows "(\<forall>x \<in> set (map (write_access (rec_cycle (step_record tr) + sub)) ops'). acc_prev x < acc_cycle x) \<and>
    (\<forall>a. last_access tr' a =
      (if a \<in> set (map op_addr ops) then rec_cycle (step_record tr) + sub else last_access tr a))"
  using assms
proof (induction sub ops tr arbitrary: ops' tr' rule: finalize_ops.induct)
  case (2 sub opn ops tr)
  let ?t = "snd (track_access (op_addr opn) sub tr)"
  obtain os t where rest: "finalize_ops sub ops ?t = (os, t)" by force
  with "2.prems"(1) have res: "ops' = opn\<lparr>previous_cycle := last_access tr (op_addr opn)\<rparr> # os" "tr' = t"
    by (auto simp: case_prod_unfold)
  have tk: "(last_access tr (op_addr opn), ?t) = track_access (op_addr opn) sub tr"
    by (simp add: prod_eq_iff)
  have "\<forall>o' \<in> set ops. last_access ?t (op_addr o') < rec_cycle (step_record ?t) + sub"
    using "2.prems"(2,3) by (auto simp: rev_image_eqI)
  with "2.IH" [OF tk rest] "2.prems"(2)
  have "(\<forall>x \<in> set (map (write_access (rec_cycle (step_record ?t) + sub)) os). acc_prev x < acc_cycle x) \<and>
    (\<forall>a. last_access t a =
      (if a \<in> set (map op_addr ops) then rec_cycle (step_record ?t) + sub else last_access ?t a))"
    by simp
  then show ?case using "2.prems"(3) by (auto simp: res write_access_def)
qed simp

lemma syscall_done:
  assumes "reads_args vm e" and "apply_syscall e vm = (Inr u, vm')" and "reading C vm"
  shows "step_done C vm'"
proof -
  let ?w = "witness e" and ?r = "step_record (vm_tracer vm)" and ?t = "vm_tracer vm"
  let ?m = "fold (\<lambda>(a, v). vm_init_memory a v) (iter_mem_values e) vm"
  obtain tr where tr: "track_syscall ?w ?t = (Inr (), tr)"
    and vm': "vm' = ?m\<lparr>vm_pc := vm_pc vm + 4, vm_tracer := tr\<rparr>"
    using apply_syscall_success [OF assms(1,2)] by blast
  from tr obtain regs mems tr1 tr2
    where f1: "finalize_ops SUBCYCLE_RD (reg_ops ?w) ?t = (regs, tr1)"
      and f2: "finalize_ops SUBCYCLE_MEM (mem_ops ?w) tr1 = (mems, tr2)"
      and none: "rec_syscall ?r = None"
      and tr': "tr = tr2\<lparr>step_record := ?r\<lparr>rec_syscall := Some (?w\<lparr>mem_ops := mems, reg_ops := regs\<rparr>)\<rparr>\<rparr>"
    by (rule track_syscall_success)
  have C: "in_step C vm" "rec_cycle ?r = C" "unat C + 4 < 18446744073709551616"
    and ord: "ordered_record ?r" and lim: "below C (read_limit ?r) ?t"
    using assms(3) by (auto simp: reading_def in_step_def Let_def)
  from assms(1) obtain a0 a1 where regs: "reg_ops ?w = arg_reg_ops a0 a1"
    by (auto simp: reads_args_def)
  have d1: "distinct (map op_addr (reg_ops ?w))"
    by (simp add: regs arg_reg_ops_def new_register_op_def REG_COUNT_def reg_arg0_def reg_arg1_def)
  have at1: "\<forall>opn \<in> set (reg_ops ?w). register_at (op_addr opn) \<noteq> None"
    by (simp add: regs arg_reg_ops_def new_register_op_def REG_COUNT_def reg_arg0_def reg_arg1_def)
  have l1: "unat (last_access ?t a) < unat C + (if register_at a = None then 0 else 2)" for a
    using lim by (auto simp: below_def read_limit_def registers_read_def
        elim: less_le_trans dest: spec [where x = a] split: if_splits)
  have "\<forall>opn \<in> set (reg_ops ?w). last_access ?t (op_addr opn) < rec_cycle ?r + SUBCYCLE_RD"
    using at1 l1 by (fastforce simp: C word_less_nat_alt unat_cycle_add split: if_splits)
  note o1 = finalize_ops_ordered [OF f1 d1 this]
  have r1: "step_record tr1 = ?r" using finalize_ops_frame [OF f1] by simp
  have l2: "unat (last_access tr1 a) < unat C + (if register_at a = None then 0 else 3)" for a
    using o1 l1 [of a] at1 by (auto simp: C unat_cycle_add split: if_splits)
  have "ordered_record (step_record tr) \<and> below C (\<lambda>_. 4) tr" if clear: "memory_private (step_record tr)"
  proof -
    have addrs: "map op_addr mems = map op_addr (mem_ops ?w)"
      using finalize_ops_frame [OF f2] by simp
    have "distinct (map op_addr mems)" and "register_at ` op_addr ` set mems \<subseteq> {None}"
      using clear none by (auto simp: tr' memory_private_def)
    then have d2: "distinct (map op_addr (mem_ops ?w))"
      and memory: "\<forall>opn \<in> set (mem_ops ?w). register_at (op_addr opn) = None"
      using addrs by (metis, metis (no_types, lifting) image_eqI image_subset_iff list.set_map singletonD)
    have "\<forall>opn \<in> set (mem_ops ?w). last_access tr1 (op_addr opn) < rec_cycle (step_record tr1) + SUBCYCLE_MEM"
    proof
      fix opn assume "opn \<in> set (mem_ops ?w)"
      with memory l2 [of "op_addr opn"] show "last_access tr1 (op_addr opn) < rec_cycle (step_record tr1) + SUBCYCLE_MEM"
        by (simp add: r1 C word_less_nat_alt unat_cycle_add)
    qed
    note o2 = finalize_ops_ordered [OF f2 d2 this]
    have "unat (last_access tr2 a) < unat C + 4" for a
      using o2 l2 [of a] by (auto simp: r1 C unat_cycle_add split: if_splits)
    then have "below C (\<lambda>_. 4) tr" by (simp add: below_def tr')
    moreover have "ordered_record (step_record tr)"
      using ord o1 o2 none by (auto simp: ordered_record_def tr' record_accesses_def
          syscall_accesses_def r1 simp del: set_map)
    ultimately show ?thesis by simp
  qed
  moreover have "lone_syscall (step_record tr)"
    using assms(3) d1 finalize_ops_frame [OF f1] by (auto simp: lone_syscall_def tr' reading_def Let_def)
  moreover have "rec_cycle (step_record tr) = C" by (simp add: tr' C)
  ultimately show ?thesis using C(1) by (simp add: step_done_def in_step_def vm' Let_def)
qed


subsection \<open>Steps and runs\<close>

lemma phase_frame [simp]:
  "writing C (vm_set_pc a vm) = writing C vm"
  "step_done C (vm_halt vm) = step_done C vm"
  by (simp_all add: writing_def step_done_def in_step_def vm_set_pc_def vm_halt_def)

lemma record_pc [simp]:
  "record_accesses (r\<lparr>rec_pc := p\<rparr>) = record_accesses r"
  "record_accesses (r\<lparr>rec_insn := insn\<rparr>) = record_accesses r"
  "memory_private (r\<lparr>rec_pc := p\<rparr>) = memory_private r"
  "memory_private (r\<lparr>rec_insn := insn\<rparr>) = memory_private r"
  "read_limit (r\<lparr>rec_pc := p\<rparr>) = read_limit r"
  "read_limit (r\<lparr>rec_insn := insn\<rparr>) = read_limit r"
  "lone_syscall (r\<lparr>rec_pc := p\<rparr>) = lone_syscall r"
  by (simp_all add: record_accesses_def memory_private_def read_limit_def registers_read_def lone_syscall_def fun_eq_iff)

lemma below_step_record [simp]: "below C lim (tr\<lparr>step_record := r\<rparr>) = below C lim tr"
  by (simp add: below_def)

lemma reading_fetch: "vm_fetch m vm = (Inr f, vm') \<Longrightarrow> reading C vm \<Longrightarrow> reading C vm'"
  by (auto simp: vm_fetch_def Let_def trace_fetch_def reading_def in_step_def ordered_record_def
      split: if_splits)

lemma done_normal_end: "step_done C vm \<Longrightarrow> step_done C (vm_on_normal_end insn vm)"
  by (simp add: vm_on_normal_end_def store_pc_def step_done_def in_step_def ordered_record_def Let_def)

lemma writing_load_memory: "vm_load_memory a vm = (Inr v, vm') \<Longrightarrow> writing C vm \<Longrightarrow> writing C vm'"
  by (auto dest!: vm_load_memory_success simp: trace_load_memory_def intro: writing_memory)

lemma writing_store_memory: "vm_store_memory a w vm = (Inr v, vm') \<Longrightarrow> writing C vm \<Longrightarrow> writing C vm'"
  by (auto dest!: vm_store_memory_success intro: writing_memory)

lemma ecall_done: "vm_ecall lib vm = (Inr r, vm') \<Longrightarrow> reading C vm \<Longrightarrow> step_done C vm'"
proof (erule vm_ecall_success)
  fix f s1 e u
  assume "reading C vm" "vm_load_register reg_ecall vm = (Inr f, s1)"
    "handle_syscall lib s1 f = Inr e" "apply_syscall e s1 = (Inr u, vm')"
  then show "step_done C vm'"
    by (blast intro: syscall_done handle_syscall_args reading_load_register)
next
  fix f s1
  assume "reading C vm" "vm_load_register reg_ecall vm = (Inr f, s1)"
    and "ecall_nop s1 = (Inr r, vm')"
  then show "step_done C vm'"
    by (elim ecall_nop_success)
      (metis phase_frame(1) reading_load_register reading_writing writing_done writing_store_memory
        writing_store_register)
qed (auto dest!: reading_load_register intro: reading_writing writing_done)

interpretation timing: step_phases "vm_context lib" "reading C" "writing C" "step_done C" for lib C
  by unfold_locales
    (auto simp: vm_context_def intro: done_normal_end reading_fetch reading_load_register
      writing_store_register writing_load_memory writing_store_memory ecall_done reading_writing
      writing_done)

text \<open>Between steps, the next step's cycle is larger than every access so far.\<close>

definition between :: "Cycle \<Rightarrow> VMState \<Rightarrow> bool" where
  "between C vm \<longleftrightarrow> length (vm_registers vm) = REG_COUNT \<and>
     step_record (vm_tracer vm) = default_StepRecord\<lparr>rec_cycle := C\<rparr> \<and> below C (\<lambda>_. 0) (vm_tracer vm)"

lemma between_reading:
  "between C vm \<Longrightarrow> unat C + 4 < 18446744073709551616 \<Longrightarrow> reading C vm"
  by (auto simp: between_def reading_def in_step_def ordered_record_def Let_def
      simp: default_StepRecord_def elim: below_mono)
    (simp add: record_accesses_def)

lemma vm_step_ordered:
  assumes "vm_step lib vm = (Inr r, vm')" and "between C vm" and "unat C + 4 < 18446744073709551616"
  shows "rec_cycle r = C" and "memory_private r \<Longrightarrow> whole_record r \<and> between (C + 4) vm'"
proof -
  from assms(1) obtain s where s: "step (vm_context lib) vm = (Inr (), s)"
    and r: "r = step_record (vm_tracer s)"
    and vm': "vm' = s\<lparr>vm_tracer := snd (advance (vm_tracer s))\<rparr>"
    by (auto simp: vm_step_success)
  have "step_done C s" using timing.step_keeps [OF s between_reading [OF assms(2,3)]] .
  then have d: "length (vm_registers s) = REG_COUNT" "rec_cycle r = C" "lone_syscall r"
    "memory_private r \<Longrightarrow> ordered_record r \<and> below C (\<lambda>_. 4) (vm_tracer s)"
    by (auto simp: step_done_def in_step_def Let_def r)
  show "rec_cycle r = C" by (rule d)
  assume "memory_private r"
  with d show "whole_record r \<and> between (C + 4) vm'"
    using assms(3) unat_cycle_add(5) [OF assms(3)]
    by (simp add: whole_record_def between_def vm' advance_def r SUBCYCLES_PER_INSN_def below_def)
qed

lemma unat_of_nat_cycle: "k < 18446744073709551616 \<Longrightarrow> unat (of_nat k :: Cycle) = k"
  by (simp add: unat_of_nat)

lemma run_ordered:
  assumes "run_steps lib n vm = (Inr rs, vm')" and "between 4 vm" and "n < 2 ^ 62 - 2"
    and "\<forall>r \<in> set rs. memory_private r"
  shows "\<forall>i < length rs. whole_record (rs ! i) \<and> unat (rec_cycle (rs ! i)) = 4 * (i + 1)"
proof -
  have "length rs \<le> n" using assms(1)
  proof (induction n arbitrary: vm rs)
    case (Suc n)
    then show ?case by (auto simp: andThen_success split: if_splits)
  qed simp
  then have len: "length rs < 2 ^ 62 - 2" using assms(3) by simp
  have "(\<forall>r \<in> set rs. memory_private r) \<and> length rs < 2 ^ 62 - 2 \<longrightarrow>
      between (of_nat (4 * (length rs + 1))) vm' \<and>
      (\<forall>i < length rs. whole_record (rs ! i) \<and> unat (rec_cycle (rs ! i)) = 4 * (i + 1))"
    using assms(1)
  proof (rule run_steps_induct)
    fix rs s r s'
    assume IH: "(\<forall>r \<in> set rs. memory_private r) \<and> length rs < 2 ^ 62 - 2 \<longrightarrow>
        between (of_nat (4 * (length rs + 1))) s \<and>
        (\<forall>i < length rs. whole_record (rs ! i) \<and> unat (rec_cycle (rs ! i)) = 4 * (i + 1))"
      and step: "vm_step lib s = (Inr r, s')"
    let ?C = "of_nat (4 * (length rs + 1)) :: Cycle"
    show "(\<forall>r \<in> set (rs @ [r]). memory_private r) \<and> length (rs @ [r]) < 2 ^ 62 - 2 \<longrightarrow>
        between (of_nat (4 * (length (rs @ [r]) + 1))) s' \<and>
        (\<forall>i < length (rs @ [r]). whole_record ((rs @ [r]) ! i) \<and>
          unat (rec_cycle ((rs @ [r]) ! i)) = 4 * (i + 1))"
    proof (intro impI)
      assume h: "(\<forall>r \<in> set (rs @ [r]). memory_private r) \<and> length (rs @ [r]) < 2 ^ 62 - 2"
      then have "4 * (length rs + 1) < 18446744073709551616" by simp
      then have C: "unat ?C = 4 * (length rs + 1)" by (rule unat_of_nat_cycle)
      have bound: "unat ?C + 4 < 18446744073709551616" using h C by simp
      from IH h have "between ?C s" and old: "\<forall>i < length rs. whole_record (rs ! i) \<and>
          unat (rec_cycle (rs ! i)) = 4 * (i + 1)"
        by auto
      from vm_step_ordered [OF step this(1) bound] h
      have new: "rec_cycle r = ?C" "whole_record r" "between (?C + 4) s'" by auto
      moreover have "?C + 4 = of_nat (4 * (length (rs @ [r]) + 1))" by simp
      ultimately have "between (of_nat (4 * (length (rs @ [r]) + 1))) s'" by metis
      moreover have "\<forall>i < length (rs @ [r]). whole_record ((rs @ [r]) ! i) \<and>
          unat (rec_cycle ((rs @ [r]) ! i)) = 4 * (i + 1)"
        using old new C by (auto simp: nth_append less_Suc_eq)
      ultimately show "between (of_nat (4 * (length (rs @ [r]) + 1))) s' \<and>
          (\<forall>i < length (rs @ [r]). whole_record ((rs @ [r]) ! i) \<and>
            unat (rec_cycle ((rs @ [r]) ! i)) = 4 * (i + 1))"
        by blast
    qed
  qed (use assms(2) in simp)
  with assms(4) len show ?thesis by blast
qed


subsection \<open>Offline memory checking\<close>

text \<open>
  The converse. A list of accesses is honest when each reads the value and the cycle the access
  before it at the same address left. Balance and order force honesty: the earliest access must
  consume the initial pair, since every other pair on the side of the writes has a later cycle.
\<close>

fun honest :: "(word_addr \<Rightarrow> Word) \<Rightarrow> (word_addr \<Rightarrow> Cycle) \<Rightarrow> Access list \<Rightarrow> bool" where
  "honest val lat [] \<longleftrightarrow> True"
| "honest val lat (x # xs) \<longleftrightarrow>
     acc_before x = val (acc_addr x) \<and> acc_prev x = lat (acc_addr x) \<and>
     honest (val(acc_addr x := acc_after x)) (lat(acc_addr x := acc_cycle x)) xs"

fun honest_at :: "Word \<Rightarrow> Cycle \<Rightarrow> Access list \<Rightarrow> bool" where
  "honest_at v c [] \<longleftrightarrow> True"
| "honest_at v c (x # xs) \<longleftrightarrow>
     acc_before x = v \<and> acc_prev x = c \<and> honest_at (acc_after x) (acc_cycle x) xs"

lemma honest_iff_at: "honest val lat xs \<longleftrightarrow> (\<forall>a. honest_at (val a) (lat a) (at a xs))"
proof (induction xs arbitrary: val lat)
  case (Cons x xs)
  let ?v = "val(acc_addr x := acc_after x)" and ?l = "lat(acc_addr x := acc_cycle x)"
  have "(\<forall>a. honest_at (?v a) (?l a) (at a xs)) \<and> acc_before x = val (acc_addr x) \<and>
      acc_prev x = lat (acc_addr x) \<longleftrightarrow> (\<forall>a. honest_at (val a) (lat a) (at a (x # xs)))"
  proof (intro iffI allI conjI; (elim conjE)?)
    fix a
    assume "\<forall>a. honest_at (?v a) (?l a) (at a xs)" "acc_before x = val (acc_addr x)"
      "acc_prev x = lat (acc_addr x)"
    then show "honest_at (val a) (lat a) (at a (x # xs))" by (cases "a = acc_addr x") (auto split: if_splits)
  next
    fix a
    assume all: "\<forall>a. honest_at (val a) (lat a) (at a (x # xs))"
    show "honest_at (?v a) (?l a) (at a xs)"
      using all [rule_format, of a] by (cases "a = acc_addr x") simp_all
    show "acc_before x = val (acc_addr x)" "acc_prev x = lat (acc_addr x)"
      using all [rule_format, of "acc_addr x"] by simp_all
  qed
  then show ?case using Cons.IH [of ?v ?l] by (simp only: honest.simps) blast
qed simp

lemma honest_at_balance:
  assumes "sorted_wrt (<) (c # map acc_cycle xs)" and "\<forall>x \<in> set xs. acc_prev x < acc_cycle x"
    and "mset (map (\<lambda>x. (acc_before x, acc_prev x)) xs) + {#(v', c')#} =
         mset (map (\<lambda>x. (acc_after x, acc_cycle x)) xs) + {#(v, c)#}"
  shows "honest_at v c xs"
  using assms
proof (induction xs arbitrary: v c)
  case (Cons x xs)
  have "(acc_before x, acc_prev x) \<in># mset (map (\<lambda>x. (acc_before x, acc_prev x)) (x # xs)) + {#(v', c')#}"
    by simp
  then have "(acc_before x, acc_prev x) \<in># mset (map (\<lambda>x. (acc_after x, acc_cycle x)) (x # xs)) + {#(v, c)#}"
    by (simp only: Cons.prems(3))
  moreover have "acc_prev x \<noteq> acc_cycle y" if "y \<in> set (x # xs)" for y
  proof -
    have "acc_cycle x \<le> acc_cycle y" using Cons.prems(1) that by (auto intro: less_imp_le)
    then show ?thesis using Cons.prems(2) by (auto dest: leD)
  qed
  ultimately have x: "(acc_before x, acc_prev x) = (v, c)"
    by auto
  then have "mset (map (\<lambda>x. (acc_before x, acc_prev x)) xs) + {#(v', c')#} =
      mset (map (\<lambda>x. (acc_after x, acc_cycle x)) xs) + {#(acc_after x, acc_cycle x)#}"
    using Cons.prems(3) by simp
  moreover have "sorted_wrt (<) (acc_cycle x # map acc_cycle xs)"
    using Cons.prems(1) by simp
  ultimately have "honest_at (acc_after x) (acc_cycle x) xs"
    using Cons.IH Cons.prems(2) by simp
  with x show ?case by simp
qed simp

lemma balanced_honest:
  assumes "balanced ini xs fin lat" and "\<forall>x \<in> set xs. acc_prev x < acc_cycle x"
    and "\<And>a. sorted_wrt (<) (0 # map acc_cycle (at a xs))"
  shows "honest ini (\<lambda>_. 0) xs"
  unfolding honest_iff_at
proof
  fix a
  show "honest_at (ini a) 0 (at a xs)"
    using assms(1,2) by (intro honest_at_balance [OF assms(3)]) (auto simp: balanced_def)
qed

subsection \<open>The order of a run\<close>

text \<open>Accesses of one subcycle, to addresses of their own.\<close>

definition subcycle_accesses :: "Cycle \<Rightarrow> Access list \<Rightarrow> bool" where
  "subcycle_accesses c xs \<longleftrightarrow> distinct (map acc_addr xs) \<and> (\<forall>x \<in> set xs. acc_cycle x = c)"

lemma subcycle_sorted: "subcycle_accesses c xs \<Longrightarrow> sorted_wrt (<) (map acc_cycle (at a xs))"
proof (induction xs)
  case (Cons x xs)
  have "at a xs = []" if "acc_addr x = a"
  proof -
    have "a \<notin> set (map acc_addr xs)" using Cons.prems that by (auto simp: subcycle_accesses_def)
    then have "acc_addr y \<noteq> a" if "y \<in> set xs" for y using that by (metis image_eqI list.set_map)
    then show ?thesis by (simp add: filter_empty_conv)
  qed
  moreover have "sorted_wrt (<) (map acc_cycle (at a xs))"
    using Cons by (simp add: subcycle_accesses_def)
  ultimately show ?case by simp
qed simp

lemma subcycles_sorted:
  "sorted_wrt (<) cs \<Longrightarrow> list_all2 subcycle_accesses cs xss \<Longrightarrow> sorted_wrt (<) (map acc_cycle (at a (concat xss)))"
proof (induction cs arbitrary: xss)
  case (Cons c cs)
  then obtain xs yss where xss: "xss = xs # yss" "subcycle_accesses c xs" "list_all2 subcycle_accesses cs yss"
    by (auto simp: list_all2_Cons1)
  have "c < acc_cycle y" if "y \<in> set (concat yss)" for y
  proof -
    from that obtain ys where "ys \<in> set yss" "y \<in> set ys" by auto
    then obtain i where i: "i < length yss" "y \<in> set (yss ! i)" by (metis in_set_conv_nth)
    with xss(3) have "acc_cycle y = cs ! i" "i < length cs"
      by (auto simp: list_all2_conv_all_nth subcycle_accesses_def)
    with Cons.prems(1) show ?thesis by simp
  qed
  moreover have "acc_cycle x = c" if "x \<in> set xs" for x using xss(2) that by (simp add: subcycle_accesses_def)
  ultimately show ?case
    using Cons.IH [OF _ xss(3)] Cons.prems(1) subcycle_sorted [OF xss(2), of a]
    by (auto simp: xss(1) sorted_wrt_append)
qed simp

lemma record_accesses_sorted:
  assumes "memory_private r" and "lone_syscall r" and "unat (rec_cycle r) + 4 < 18446744073709551616"
  shows "sorted_wrt (<) (map acc_cycle (at a (record_accesses r)))"
    and "x \<in> set (record_accesses r) \<Longrightarrow> unat (rec_cycle r) \<le> unat (acc_cycle x) \<and> unat (acc_cycle x) \<le> unat (rec_cycle r) + 3"
proof -
  let ?c = "rec_cycle r" and ?cs = "\<lambda>c. [c + SUBCYCLE_RS1, c + SUBCYCLE_RS2, c + SUBCYCLE_RD, c + SUBCYCLE_MEM]"
  let ?reads = "[map (read_access (?c + SUBCYCLE_RS1)) (opt_list (rec_rs1 r)), map (read_access (?c + SUBCYCLE_RS2)) (opt_list (rec_rs2 r))]"
  have one: "subcycle_accesses c (map (read_access c) (opt_list x))" "subcycle_accesses c (map (write_access c) (opt_list y))" for c x y
    by (cases x; cases y; simp add: subcycle_accesses_def read_access_def write_access_def)+
  have many: "distinct (map op_addr ops) \<Longrightarrow> subcycle_accesses c (map (write_access c) ops)" for c ops
    by (simp add: subcycle_accesses_def write_access_def comp_def)
  have "\<exists>xss. record_accesses r = concat xss \<and> list_all2 subcycle_accesses (?cs ?c) xss"
  proof (cases "rec_syscall r")
    case None
    then show ?thesis
      by (intro exI [of _ "?reads @ [map (write_access (?c + SUBCYCLE_RD)) (opt_list (rec_rd r)),
          map (write_access (?c + SUBCYCLE_MEM)) (opt_list (rec_memory_op r))]"])
        (simp add: record_accesses_def one)
  next
    case (Some w)
    with assms(1,2) have "rec_rd r = None" "rec_memory_op r = None" "distinct (map op_addr (reg_ops w))" "distinct (map op_addr (mem_ops w))"
      by (auto simp: lone_syscall_def memory_private_def)
    with Some show ?thesis
      by (intro exI [of _ "?reads @ [map (write_access (?c + SUBCYCLE_RD)) (reg_ops w), map (write_access (?c + SUBCYCLE_MEM)) (mem_ops w)]"])
        (simp add: record_accesses_def syscall_accesses_def one many)
  qed
  then obtain xss where xss: "record_accesses r = concat xss" "list_all2 subcycle_accesses (?cs ?c) xss" by blast
  have "sorted_wrt (<) (?cs ?c)"
    using assms(3) by (simp add: word_less_nat_alt unat_cycle_add)
  then show "sorted_wrt (<) (map acc_cycle (at a (record_accesses r)))"
    unfolding xss(1) using xss(2) by (rule subcycles_sorted)
  assume "x \<in> set (record_accesses r)"
  then obtain xs where "xs \<in> set xss" "x \<in> set xs" unfolding xss(1) by auto
  then obtain i where i: "i < length xss" "x \<in> set (xss ! i)" by (metis in_set_conv_nth)
  have "acc_cycle x = ?cs ?c ! i"
    using list_all2_nthD2 [OF xss(2) i(1)] i(2) unfolding subcycle_accesses_def by blast
  moreover have "?cs ?c ! i \<in> set (?cs ?c)"
    using i(1) list_all2_lengthD [OF xss(2)] by (intro nth_mem) simp
  ultimately have "acc_cycle x \<in> set (?cs ?c)" by (simp only:)
  then show "unat ?c \<le> unat (acc_cycle x) \<and> unat (acc_cycle x) \<le> unat ?c + 3"
    using unat_cycle_add [OF assms(3)] by auto
qed

lemma run_accesses_sorted:
  assumes "run_steps lib n vm = (Inr rs, vm')" and "between 4 vm" and "n < 2 ^ 62 - 2"
    and "\<forall>r \<in> set rs. memory_private r"
  shows "sorted_wrt (<) (0 # map acc_cycle (at a (concat (map record_accesses rs))))"
    and "\<forall>x \<in> set (concat (map record_accesses rs)). acc_prev x < acc_cycle x"
proof -
  have len: "length rs \<le> n" using assms(1)
  proof (induction n arbitrary: vm rs)
    case (Suc n)
    then show ?case by (auto simp: andThen_success split: if_splits)
  qed simp
  have recs: "\<forall>i < length rs. whole_record (rs ! i) \<and> unat (rec_cycle (rs ! i)) = 4 * (i + 1)"
    by (rule run_ordered [OF assms])
  then show "\<forall>x \<in> set (concat (map record_accesses rs)). acc_prev x < acc_cycle x"
    by (fastforce simp: whole_record_def ordered_record_def in_set_conv_nth)
  have "k \<le> length rs \<Longrightarrow> sorted_wrt (<) (map acc_cycle (at a (concat (map record_accesses (take k rs))))) \<and>
      (\<forall>x \<in> set (concat (map record_accesses (take k rs))). 0 < acc_cycle x \<and> unat (acc_cycle x) < 4 * (k + 1))" for k
  proof (induction k)
    case (Suc k)
    let ?r = "rs ! k" and ?old = "concat (map record_accesses (take k rs))"
    have k: "k < length rs" using Suc.prems by simp
    then have snoc: "take (Suc k) rs = take k rs @ [?r]" by (rule take_Suc_conv_app_nth)
    have cyc: "unat (rec_cycle ?r) = 4 * (k + 1)" and r: "memory_private ?r" "lone_syscall ?r"
      using recs assms(4) k by (auto simp: whole_record_def)
    have bound: "unat (rec_cycle ?r) + 4 < 18446744073709551616" using k len assms(3) by (simp add: cyc)
    note new = record_accesses_sorted [OF r bound]
    have old: "sorted_wrt (<) (map acc_cycle (at a ?old))"
      "\<forall>x \<in> set ?old. 0 < acc_cycle x \<and> unat (acc_cycle x) < 4 * (k + 1)"
      using Suc.IH k by simp_all
    have range: "4 * (k + 1) \<le> unat (acc_cycle x) \<and> unat (acc_cycle x) \<le> 4 * (k + 1) + 3"
      if "x \<in> set (record_accesses ?r)" for x
      using new(2) [OF that] by (simp only: cyc)
    have "acc_cycle x < acc_cycle y" if "x \<in> set ?old" "y \<in> set (record_accesses ?r)" for x y
      using bspec [OF old(2) that(1)] range [OF that(2)] unfolding word_less_nat_alt by linarith
    with old(1) new(1) [of a]
    have "sorted_wrt (<) (map acc_cycle (at a (?old @ record_accesses ?r)))"
      by (simp add: sorted_wrt_append)
    moreover have "0 < acc_cycle x \<and> unat (acc_cycle x) < 4 * (Suc k + 1)" if "x \<in> set (?old @ record_accesses ?r)" for x
    proof (cases "x \<in> set ?old")
      case True
      with old(2) have "0 < acc_cycle x" "unat (acc_cycle x) < 4 * (k + 1)" by blast+
      then show ?thesis by simp
    next
      case False
      with that have "x \<in> set (record_accesses ?r)" by simp
      from range [OF this] show ?thesis by (simp add: word_less_nat_alt)
    qed
    ultimately show ?case unfolding snoc by simp
  qed simp
  from this [of "length rs"] show "sorted_wrt (<) (0 # map acc_cycle (at a (concat (map record_accesses rs))))"
    by auto
qed

subsection \<open>Replaying a trace\<close>

text \<open>A memory of values and last cycles that refuses an access which does not find what it claims.\<close>

fun replay ::
  "(word_addr \<Rightarrow> Word) \<Rightarrow> (word_addr \<Rightarrow> Cycle) \<Rightarrow> Access list \<Rightarrow> ((word_addr \<Rightarrow> Word) \<times> (word_addr \<Rightarrow> Cycle)) option" where
  "replay val lat [] = Some (val, lat)"
| "replay val lat (x # xs) =
     (if acc_before x = val (acc_addr x) \<and> acc_prev x = lat (acc_addr x)
      then replay (val(acc_addr x := acc_after x)) (lat(acc_addr x := acc_cycle x)) xs else None)"

lemma replay_honest: "honest val lat xs \<Longrightarrow> \<exists>fin l. replay val lat xs = Some (fin, l)"
  by (induction xs arbitrary: val lat) auto

lemma replay_balance:
  "replay val lat xs = Some (fin, l) \<Longrightarrow>
   mset (map (\<lambda>x. (acc_before x, acc_prev x)) (at a xs)) + {#(fin a, l a)#} =
   mset (map (\<lambda>x. (acc_after x, acc_cycle x)) (at a xs)) + {#(val a, lat a)#}"
proof (induction xs arbitrary: val lat)
  case (Cons x xs)
  from Cons.prems have x: "acc_before x = val (acc_addr x)" "acc_prev x = lat (acc_addr x)"
    and rest: "replay (val(acc_addr x := acc_after x)) (lat(acc_addr x := acc_cycle x)) xs = Some (fin, l)"
    by (simp_all split: if_splits)
  from Cons.IH [OF rest] show ?case by (cases "acc_addr x = a") (auto simp: x)
qed simp

lemma balanced_replay:
  assumes "balanced ini xs fin lat" and "\<forall>x \<in> set xs. acc_prev x < acc_cycle x"
    and "\<And>a. sorted_wrt (<) (0 # map acc_cycle (at a xs))"
  shows "replay ini (\<lambda>_. 0) xs = Some (fin, lat)"
proof -
  obtain fin' l where r: "replay ini (\<lambda>_. 0) xs = Some (fin', l)"
    using replay_honest [OF balanced_honest [OF assms]] by blast
  have "{#(fin' a, l a)#} = {#(fin a, lat a)#}" for a
  proof -
    let ?reads = "mset (map (\<lambda>x. (acc_before x, acc_prev x)) (at a xs))"
    have "?reads + {#(fin a, lat a)#} = ?reads + {#(fin' a, l a)#}"
      using assms(1) unfolding balanced_def replay_balance [OF r, of a] by (rule spec)
    then show ?thesis by (simp only: add_left_cancel)
  qed
  then have "fin' = fin" "l = lat" by (auto simp: fun_eq_iff)
  with r show ?thesis by simp
qed

end
