(* ===== verification/NoPanic.thy ===== *)
theory NoPanic
  imports TraceOrder
begin

text \<open>
  Errors of a step. The tracer of \<open>ceno_emul/src/tracer.rs\<close> panics on a third register read, a
  second register write or a second memory access in one step, the register file panics out of
  bounds, and the interpreter has \<open>unreachable!\<close> arms. The lemmas show that a step on a
  well-formed instruction reaches none of these: it succeeds or reports a trap.
\<close>

definition unchanged :: "VMState \<Rightarrow> VMState \<Rightarrow> bool" where
  "unchanged vm0 vm \<longleftrightarrow> vm_registers vm = vm_registers vm0 \<and> vm_memory vm = vm_memory vm0 \<and>
     vm_pc vm = vm_pc vm0 \<and> vm_halted vm = vm_halted vm0"

definition traps_only ::
  "VMState \<Rightarrow> (VMState \<Rightarrow> bool) \<Rightarrow> (VMState, emu_error, 'a) prog \<Rightarrow> ('a \<Rightarrow> VMState \<Rightarrow> bool) \<Rightarrow> bool" where
  "traps_only vm0 P p Q \<longleftrightarrow> (\<forall>s. P s \<longrightarrow>
     (case p s of (Inr x, s') \<Rightarrow> Q x s'
      | (Inl e, s') \<Rightarrow> (\<exists>cause. e = TrapError cause) \<and> unchanged vm0 s'))"

named_theorems traps_intro \<open>rules for programs that fail with traps only\<close>

lemma traps_only_andThen [traps_intro]:
  "traps_only vm0 P m Q \<Longrightarrow> (\<And>x. traps_only vm0 (Q x) (k x) T) \<Longrightarrow> traps_only vm0 P (andThen m k) T"
  unfolding traps_only_def andThen_def by (fastforce split: prod.splits sum.splits)

lemma traps_only_ok [traps_intro]: "(\<And>s. P s \<Longrightarrow> Q x s) \<Longrightarrow> traps_only vm0 P (ok x) Q"
  by (simp add: traps_only_def ok_def)

lemma traps_only_trap [traps_intro]:
  "(\<And>s. P s \<Longrightarrow> unchanged vm0 s) \<Longrightarrow> traps_only vm0 P (vm_trap cause) Q"
  by (simp add: traps_only_def vm_trap_def fail_def)

lemma traps_only_gets: "(\<And>s. P s \<Longrightarrow> Q (f s) s) \<Longrightarrow> traps_only vm0 P (gets f) Q"
  by (simp add: traps_only_def gets_def)

lemma traps_only_gets_then:
  "(\<And>x. traps_only vm0 P (k x) T) \<Longrightarrow> traps_only vm0 P (andThen (gets f) k) T"
  by (simp add: traps_only_def andThen_gets)

lemma traps_only_modify: "(\<And>s. P s \<Longrightarrow> Q () (f s)) \<Longrightarrow> traps_only vm0 P (modify f) Q"
  by (simp add: traps_only_def modify_def)

lemma traps_only_pre: "traps_only vm0 P p Q \<Longrightarrow> (\<And>s. P' s \<Longrightarrow> P s) \<Longrightarrow> traps_only vm0 P' p Q"
  by (auto simp: traps_only_def)

text \<open>\<open>slots n w m\<close>: \<open>n\<close> more register reads, a register write and a memory access are free.\<close>

definition slots :: "nat \<Rightarrow> bool \<Rightarrow> bool \<Rightarrow> VMState \<Rightarrow> bool" where
  "slots n w m vm \<longleftrightarrow> (let r = step_record (vm_tracer vm) in
     length (vm_registers vm) = REG_COUNT \<and>
     (0 < n \<longrightarrow> rec_rs2 r = None) \<and> (1 < n \<longrightarrow> rec_rs1 r = None) \<and> n \<le> 2 \<and>
     (w \<longrightarrow> rec_rd r = None) \<and> (m \<longrightarrow> rec_memory_op r = None))"

text \<open>Before its write, a step has not changed what \<open>unchanged\<close> compares.\<close>

definition ready :: "VMState \<Rightarrow> nat \<Rightarrow> bool \<Rightarrow> bool \<Rightarrow> VMState \<Rightarrow> bool" where
  "ready vm0 n w m vm \<longleftrightarrow> slots n w m vm \<and> unchanged vm0 vm"

lemma ready_unchanged [intro]: "ready vm0 n w m vm \<Longrightarrow> unchanged vm0 vm"
  by (simp add: ready_def)

lemma slots_load_register:
  "i < REG_COUNT \<Longrightarrow> traps_only vm0 (slots (Suc n) w m) (vm_load_register i) (\<lambda>_. slots n w m)"
  unfolding traps_only_def slots_def Let_def
  by (auto simp: vm_load_register_def andThen_def lift_def vm_peek_register_def with_tracer_def
      trace_load_register_def Let_def case_prod_unfold split: option.splits)

lemma slots_store_register:
  "i < REG_COUNT \<Longrightarrow> traps_only vm0 (slots n True m) (vm_store_register i v) (\<lambda>_. slots n False m)"
  unfolding traps_only_def slots_def Let_def
  by (auto simp: vm_store_register_def andThen_def lift_def vm_peek_register_def with_tracer_def ok_def
      modify_def trace_store_register_def Let_def case_prod_unfold)

lemma slots_store_memory:
  "traps_only vm0 (slots n w True) (vm_store_memory a v) (\<lambda>_. slots n w False)"
  unfolding traps_only_def slots_def Let_def
  by (auto simp: vm_store_memory_def andThen_def gets_def with_tracer_def
      modify_def trace_store_memory_def Let_def case_prod_unfold vm_init_memory_def track_access_def)

lemma slots_load_memory:
  "traps_only vm0 (slots n w True) (vm_load_memory a) (\<lambda>_. slots n w False)"
  unfolding traps_only_def slots_def Let_def
  by (auto simp: vm_load_memory_def andThen_def gets_def with_tracer_def ok_def
      trace_load_memory_def trace_store_memory_def Let_def case_prod_unfold track_access_def)

lemma slots_fetch: "traps_only vm0 (slots n w m) (vm_fetch a) (\<lambda>_. slots n w m)"
  by (auto simp: traps_only_def slots_def Let_def vm_fetch_def trace_fetch_def)

lemma ready_of_slots:
  assumes "traps_only vm0 (slots n w m) p (\<lambda>_. slots n' w' m')"
    and "\<And>s x s'. p s = (Inr x, s') \<Longrightarrow> unchanged s s'"
  shows "traps_only vm0 (ready vm0 n w m) p (\<lambda>_. ready vm0 n' w' m')"
proof -
  have "case p s of (Inr x, s') \<Rightarrow> ready vm0 n' w' m' s'
      | (Inl e, s') \<Rightarrow> (\<exists>cause. e = TrapError cause) \<and> unchanged vm0 s'" if "ready vm0 n w m s" for s
  proof -
    obtain r s' where p: "p s = (r, s')" by force
    have "slots n w m s" and same: "unchanged vm0 s" using that by (simp_all add: ready_def)
    then have *: "case p s of (Inr x, s') \<Rightarrow> slots n' w' m' s'
      | (Inl e, s') \<Rightarrow> (\<exists>cause. e = TrapError cause) \<and> unchanged vm0 s'"
      using assms(1) by (simp add: traps_only_def)
    show ?thesis
    proof (cases r)
      case (Inr x)
      then have "unchanged s s'" using assms(2) p by blast
      then have "unchanged vm0 s'" using same by (simp add: unchanged_def)
      then show ?thesis using * by (simp add: p Inr ready_def)
    qed (use * in \<open>simp add: p\<close>)
  qed
  then show ?thesis by (simp add: traps_only_def)
qed

lemma unchanged_tracer [simp]: "unchanged vm (vm\<lparr>vm_tracer := tr\<rparr>)"
  by (simp add: unchanged_def)

lemma ready_load_register:
  "i < REG_COUNT \<Longrightarrow> traps_only vm0 (ready vm0 (Suc n) w m) (vm_load_register i) (\<lambda>_. ready vm0 n w m)"
  by (rule ready_of_slots [OF slots_load_register]) (auto dest: vm_load_register_success)

lemma ready_load_memory:
  "traps_only vm0 (ready vm0 n w True) (vm_load_memory a) (\<lambda>_. ready vm0 n w False)"
  by (rule ready_of_slots [OF slots_load_memory]) (auto dest: vm_load_memory_success)

lemma ready_fetch: "traps_only vm0 (ready vm0 n w m) (vm_fetch a) (\<lambda>_. ready vm0 n w m)"
  by (rule ready_of_slots [OF slots_fetch]) (auto dest: vm_fetch_success)

lemma ready_store_register:
  "i < REG_COUNT \<Longrightarrow> traps_only vm0 (ready vm0 n True m) (vm_store_register i v) (\<lambda>_. slots n False m)"
  by (rule traps_only_pre [OF slots_store_register]) (auto simp: ready_def)

lemma ready_store_memory:
  "traps_only vm0 (ready vm0 n w True) (vm_store_memory a v) (\<lambda>_. slots n w False)"
  by (rule traps_only_pre [OF slots_store_memory]) (auto simp: ready_def)

lemma ready_weaken:
  "ready vm0 n w m vm \<Longrightarrow> k \<le> n \<Longrightarrow> (w' \<longrightarrow> w) \<Longrightarrow> (m' \<longrightarrow> m) \<Longrightarrow> ready vm0 k w' m' vm"
  by (auto simp: ready_def slots_def Let_def)

subsection \<open>The steps of the interpreter\<close>

lemma vm_context_simps [simp]:
  "ecall (vm_context lib) = vm_ecall lib" "trap (vm_context lib) = vm_trap"
  "on_normal_end (vm_context lib) = vm_on_normal_end" "get_pc (vm_context lib) = vm_get_pc"
  "set_pc (vm_context lib) = vm_set_pc" "load_register (vm_context lib) = vm_load_register"
  "store_register (vm_context lib) = vm_store_register" "load_memory (vm_context lib) = vm_load_memory"
  "store_memory (vm_context lib) = vm_store_memory" "peek_memory (vm_context lib) = vm_peek_memory"
  "fetch (vm_context lib) = vm_fetch" "check_data_load (vm_context lib) = vm_check_data_load"
  "check_data_store (vm_context lib) = vm_check_data_store"
  by (simp_all add: vm_context_def)

lemma wf_insn_bounds:
  "wf_insn insn \<Longrightarrow> insn_rs1 insn < REG_COUNT" "wf_insn insn \<Longrightarrow> insn_rs2 insn < REG_COUNT"
  "wf_insn insn \<Longrightarrow> unat (rd_internal insn) < REG_COUNT"
  by (auto simp: wf_insn_def REG_COUNT_def rd_internal_def RD_NULL_def unat_of_nat)

lemma slots_set_pc [simp]: "slots n w m (vm_set_pc a vm) = slots n w m vm"
  by (simp add: slots_def vm_set_pc_def)

lemma slots_set_pc_prog:
  "traps_only vm0 (slots n w m) (modify (vm_set_pc a)) (\<lambda>_. slots n w m)"
  "traps_only vm0 (ready vm0 n w m) (modify (vm_set_pc a)) (\<lambda>_. slots n w m)"
  by (auto simp: ready_def intro: traps_only_modify)

lemma alu_complete:
  "category knd = Compute \<Longrightarrow> knd \<noteq> JAL \<Longrightarrow> knd \<noteq> JALR \<Longrightarrow> alu_imm knd a i = None \<Longrightarrow> \<exists>v. alu_reg knd a b = Some v"
  by (cases knd) simp_all

lemma branch_complete: "category knd = Branch \<Longrightarrow> \<exists>v. branch_taken knd a b = Some v"
  by (cases knd) simp_all

lemma load_complete: "category knd = Load \<Longrightarrow> load_value knd a d \<noteq> Inl None"
  by (cases knd) (auto simp: Let_def)

lemma store_complete: "category knd = Store \<Longrightarrow> store_value knd a v d \<noteq> Inl None"
  by (cases knd) (auto simp: Let_def)

lemma finish_compute_traps:
  assumes "wf_insn insn"
  shows "traps_only vm0 (ready vm0 n True m) (finish_compute (vm_context lib) insn x) (\<lambda>_ _. True)"
  using wf_insn_bounds(3) [OF assms]
  by (cases x) (auto simp: finish_compute_def
      intro!: traps_intro ready_store_register slots_set_pc_prog)

lemma compute_result_traps:
  assumes "wf_insn insn" and "category knd = Compute"
  shows "traps_only vm0 (ready vm0 2 True True) (compute_result (vm_context lib) knd insn pc) (\<lambda>_. ready vm0 0 True True)"
proof -
  have load: "traps_only vm0 (ready vm0 (Suc 0) True True) (vm_load_register (insn_rs2 insn)) (\<lambda>_. ready vm0 0 True True)"
    and load1: "traps_only vm0 (ready vm0 2 True True) (vm_load_register (insn_rs1 insn)) (\<lambda>_. ready vm0 (Suc 0) True True)"
    using ready_load_register wf_insn_bounds [OF assms(1)] by (simp_all add: numeral_2_eq_2)
  show ?thesis
  proof (cases "knd = JAL")
    case False
    have rest: "traps_only vm0 (ready vm0 (Suc 0) True True)
        (case alu_imm knd rs1 imm of Some out \<Rightarrow> ok (out, new_pc)
         | None \<Rightarrow> andThen (vm_load_register (insn_rs2 insn)) (\<lambda>rs2.
            case alu_reg knd rs1 rs2 of Some out \<Rightarrow> ok (out, new_pc)
            | None \<Rightarrow> fail (Panic ''Illegal compute instruction'')))
        (\<lambda>_. ready vm0 0 True True)" if "knd \<noteq> JALR" for rs1 imm new_pc
    proof (cases "alu_imm knd rs1 imm")
      case None
      have "traps_only vm0 (ready vm0 0 True True) (case alu_reg knd rs1 rs2 of Some out \<Rightarrow> ok (out, new_pc)
            | None \<Rightarrow> fail (Panic ''Illegal compute instruction'')) (\<lambda>_. ready vm0 0 True True)" for rs2
        using alu_complete [OF assms(2) False that None, of rs2] by (auto intro: traps_only_ok)
      then show ?thesis using None by (auto intro!: traps_only_andThen load)
    qed (auto intro!: traps_only_ok elim: ready_weaken)
    show ?thesis unfolding compute_result_def Let_def vm_context_simps if_not_P [OF False]
    proof (rule traps_only_andThen [OF load1])
      fix rs1
      show "traps_only vm0 (ready vm0 (Suc 0) True True)
        (if knd = JALR then ok (byte_addr_0 (byte_addr_add pc WORD_SIZE), ByteAddr ((rs1 + insn_imm insn) AND NOT 1))
         else case alu_imm knd rs1 (insn_imm insn) of Some out \<Rightarrow> ok (out, byte_addr_add pc WORD_SIZE)
         | None \<Rightarrow> andThen (vm_load_register (insn_rs2 insn)) (\<lambda>rs2.
            case alu_reg knd rs1 rs2 of Some out \<Rightarrow> ok (out, byte_addr_add pc WORD_SIZE)
            | None \<Rightarrow> fail (Panic ''Illegal compute instruction'')))
        (\<lambda>_. ready vm0 0 True True)"
        using rest by (cases "knd = JALR") (auto intro!: traps_only_ok intro: ready_weaken)
    qed
  qed (auto simp: compute_result_def Let_def intro!: traps_only_ok elim: ready_weaken)
qed

lemma step_compute_traps:
  assumes "wf_insn insn" and "category knd = Compute"
  shows "traps_only vm0 (ready vm0 2 True True) (step_compute (vm_context lib) knd insn) (\<lambda>_ _. True)"
  unfolding step_compute_def
  by (intro traps_only_gets_then traps_only_andThen [OF compute_result_traps] finish_compute_traps assms)

lemma loads_two:
  assumes "wf_insn insn" and "\<And>a b. traps_only vm0 (ready vm0 0 True True) (k a b) Q"
  shows "traps_only vm0 (ready vm0 2 True True)
    (andThen (vm_load_register (insn_rs1 insn)) (\<lambda>a. andThen (vm_load_register (insn_rs2 insn)) (k a))) Q"
proof -
  have "traps_only vm0 (ready vm0 (Suc 0) True True) (vm_load_register (insn_rs2 insn)) (\<lambda>_. ready vm0 0 True True)"
    and "traps_only vm0 (ready vm0 2 True True) (vm_load_register (insn_rs1 insn)) (\<lambda>_. ready vm0 (Suc 0) True True)"
    using ready_load_register wf_insn_bounds [OF assms(1)] by (simp_all add: numeral_2_eq_2)
  then show ?thesis using assms(2) by (blast intro: traps_only_andThen)
qed

lemma step_branch_traps:
  assumes "wf_insn insn" and "category knd = Branch"
  shows "traps_only vm0 (ready vm0 2 True True) (step_branch (vm_context lib) knd insn) (\<lambda>_ _. True)"
  unfolding step_branch_def vm_context_simps
proof (rule traps_only_gets_then, rule loads_two [OF assms(1)])
  fix pc a b
  obtain t where "branch_taken knd a b = Some t" using branch_complete [OF assms(2)] by blast
  then show "traps_only vm0 (ready vm0 0 True True) (case branch_taken knd a b of
      None \<Rightarrow> fail (Panic ''Illegal branch instruction'')
    | Some taken \<Rightarrow>
        let new_pc = (if taken then wrapping_add pc (insn_imm insn) else byte_addr_add pc WORD_SIZE)
        in if \<not> is_aligned new_pc then vm_trap InstructionAddressMisaligned
           else andThen (modify (vm_set_pc new_pc)) (\<lambda>_. ok True)) (\<lambda>_ _. True)"
    by (auto simp: Let_def intro!: traps_intro slots_set_pc_prog)
qed

lemma advance_pc_traps: "traps_only vm0 (slots n w m) (advance_pc (vm_context lib)) (\<lambda>_ _. True)"
  unfolding advance_pc_def
  by (auto intro!: traps_only_gets_then traps_intro slots_set_pc_prog)

lemma step_load_traps:
  assumes "wf_insn insn" and "category knd = Load"
  shows "traps_only vm0 (ready vm0 2 True True) (step_load (vm_context lib) knd insn) (\<lambda>_ _. True)"
proof -
  have load: "traps_only vm0 (ready vm0 2 True True) (vm_load_register (insn_rs1 insn)) (\<lambda>_. ready vm0 (Suc 0) True True)"
    using ready_load_register wf_insn_bounds [OF assms(1)] by (simp add: numeral_2_eq_2)
  have rest: "traps_only vm0 (ready vm0 (Suc 0) True False) (case load_value knd addr data of
      Inl (Some cause) \<Rightarrow> vm_trap cause | Inl None \<Rightarrow> fail (Panic ''unreachable'')
    | Inr out \<Rightarrow> andThen (vm_store_register (unat (rd_internal insn)) out) (\<lambda>_. advance_pc (vm_context lib)))
    (\<lambda>_ _. True)" for addr data
    using load_complete [OF assms(2), of addr data] wf_insn_bounds(3) [OF assms(1)]
    by (auto split: sum.split option.split
        intro!: traps_intro ready_store_register advance_pc_traps)
  show ?thesis unfolding step_load_def Let_def vm_context_simps
    by (rule traps_only_andThen [OF load], rule traps_only_gets_then)
      (auto intro!: traps_intro ready_load_memory rest)
qed

lemma step_store_traps:
  assumes "wf_insn insn" and "category knd = Store"
  shows "traps_only vm0 (ready vm0 2 True True) (step_store (vm_context lib) knd insn) (\<lambda>_ _. True)"
proof -
  have rest: "traps_only vm0 (ready vm0 0 True True) (case store_value knd addr v data of
      Inl (Some cause) \<Rightarrow> vm_trap cause | Inl None \<Rightarrow> fail (Panic ''unreachable'')
    | Inr data' \<Rightarrow> andThen (vm_store_memory a data') (\<lambda>_. advance_pc (vm_context lib)))
    (\<lambda>_ _. True)" for addr v data a
    using store_complete [OF assms(2), of addr v data]
    by (auto split: sum.split option.split intro!: traps_intro ready_store_memory advance_pc_traps)
  show ?thesis unfolding step_store_def Let_def vm_context_simps
    by (rule loads_two [OF assms(1)], rule traps_only_gets_then)
      (auto intro!: traps_only_gets_then traps_only_trap rest)
qed

lemma step_insn_traps:
  assumes "wf_insn insn" and "insn_kind insn \<noteq> ECALL"
  shows "traps_only vm0 (ready vm0 2 True True) (step_insn (vm_context lib) insn) (\<lambda>_ _. True)"
proof (cases "category (insn_kind insn)")
  case System
  then have "insn_kind insn = ECALL" by (cases "insn_kind insn") simp_all
  with assms(2) show ?thesis by simp
qed (use assms in \<open>auto simp: step_insn_def intro: step_compute_traps step_branch_traps step_load_traps
      step_store_traps traps_only_trap ready_unchanged\<close>)

lemma fresh_slots: "fresh_record vm \<Longrightarrow> length (vm_registers vm) = REG_COUNT \<Longrightarrow> slots 2 True True vm"
  by (auto simp: fresh_record_def slots_def default_StepRecord_def)

text \<open>The instruction the step fetches is well formed and no environment call.\<close>

lemma vm_step_errors:
  assumes "vm_step lib vm = (Inl e, vm')" and "fresh_record vm" and "length (vm_registers vm) = REG_COUNT"
    and "\<And>insn. fst (vm_fetch (waddr (vm_get_pc vm)) vm) = Inr (Some insn) \<Longrightarrow> wf_insn insn \<and> insn_kind insn \<noteq> ECALL"
  shows "e = StuckInLoop \<and>
      (\<exists>s. step (vm_context lib) vm = (Inr (), s) \<and> is_busy_loop (step_record (vm_tracer s)) \<and> \<not> vm_halted s) \<or>
    (\<exists>cause. e = TrapError cause) \<and> unchanged vm vm'"
proof -
  obtain f s1 where fetch: "vm_fetch (waddr (vm_get_pc vm)) vm = (f, s1)" by force
  have "ready vm 2 True True vm"
    using fresh_slots [OF assms(2,3)] by (simp add: ready_def unchanged_def)
  then have s1: "ready vm 2 True True s1"
    using ready_fetch [of vm 2 True True "waddr (vm_get_pc vm)"] fetch
    by (auto simp: traps_only_def vm_fetch_def Let_def split: if_splits)
  have "traps_only vm (\<lambda>s. s = vm) (step (vm_context lib)) (\<lambda>_ _. True)"
  proof (cases f)
    case (Inr i)
    show ?thesis
    proof (cases i)
      case (Some insn)
      with Inr fetch assms(4) have "traps_only vm (ready vm 2 True True) (step_insn (vm_context lib) insn) (\<lambda>_ _. True)"
        by (auto intro: step_insn_traps)
      then show ?thesis using s1 fetch Inr Some
        by (auto simp: traps_only_def step_def andThen_def gets_def ok_def modify_def
            split: prod.splits sum.splits)
    next
      case None
      then show ?thesis using fetch Inr ready_unchanged [OF s1]
        by (auto simp: traps_only_def step_def andThen_def gets_def vm_trap_def fail_def)
    qed
  qed (use fetch in \<open>auto simp: vm_fetch_def Let_def split: if_splits\<close>)
  then show ?thesis using assms(1)
    by (auto simp: traps_only_def vm_step_def andThen_def gets_def with_tracer_def fail_def ok_def advance_def
        split: prod.splits sum.splits if_splits)
qed

end
