(* ===== verification/SyscallFacts.thy ===== *)
theory SyscallFacts
  imports NoPanic
begin

text \<open>
  What the system calls of \<open>ceno_emul/src/syscalls/\<close> do to the machine: the words a call writes,
  the memory it leaves alone, the conversions of the Keccak state, the SHA-256 message schedule, and
  what happens when the two segments of a binary call are the same one.
\<close>

subsection \<open>Memory after a call\<close>

lemma peek_fold_init:
  "vm_peek_memory a (fold (\<lambda>(a, v). vm_init_memory a v) ops vm) =
   (case map_of (rev ops) a of Some v \<Rightarrow> v | None \<Rightarrow> vm_peek_memory a vm)"
proof (induction ops rule: rev_induct)
  case (snoc x xs)
  then show ?case by (cases x) simp
qed simp

lemma mem_values_view:
  assumes "case writes v of Some ws \<Rightarrow> length ws = view_length v | None \<Rightarrow> True"
  shows "map (\<lambda>opn. (op_addr opn, after (op_value opn))) (view_mem_ops vm v) =
    zip (addrs v) (case writes v of Some ws \<Rightarrow> ws | None \<Rightarrow> view_words vm v)"
proof -
  have "map (\<lambda>opn. (op_addr opn, after (op_value opn))) (view_mem_ops vm v) =
    map (\<lambda>(a, b, c). (a, c)) (zip (addrs v) (zip (view_words vm v)
         (case writes v of Some ws \<Rightarrow> ws | None \<Rightarrow> view_words vm v)))"
    by (simp add: view_mem_ops_def o_def case_prod_unfold change_def)
  also have "\<dots> = zip (addrs v) (case writes v of Some ws \<Rightarrow> ws | None \<Rightarrow> view_words vm v)"
    using assms by (intro nth_equalityI) (auto split: option.splits)
  finally show ?thesis .
qed

lemma map_of_rev_zip_self:
  "map_of (rev (zip xs (map f xs))) a = (if a \<in> set xs then Some (f a) else None)"
  by (induction xs) (auto simp: map_add_def)

lemma new_MemoryView_Inr:
  "new_MemoryView len ptr = Inr v \<longleftrightarrow> ptr mod of_nat WORD_SIZE = 0 \<and>
   v = \<lparr>view_length = len, view_start = word_addr_from_u32 ptr, writes = None\<rparr>"
  by (auto simp: new_MemoryView_def)

lemma view_write_Inr:
  "view_write ws v = Inr v' \<longleftrightarrow> writes v = None \<and> v' = v\<lparr>writes := Some ws\<rparr>"
  by (auto simp: view_write_def)

lemma view_unwritten [simp]: "addrs (v\<lparr>writes := w\<rparr>) = addrs v" "view_words vm (v\<lparr>writes := w\<rparr>) = view_words vm v"
  by (simp_all add: addrs_def view_words_def)

text \<open>The words a call finds at a pointer, and the addresses it covers.\<close>

definition segment_addrs :: "nat \<Rightarrow> u32 \<Rightarrow> word_addr list" where
  "segment_addrs len ptr = word_addrs_from (word_addr_from_u32 ptr) len"

definition segment :: "nat \<Rightarrow> u32 \<Rightarrow> VMState \<Rightarrow> Word list" where
  "segment len ptr vm = map (\<lambda>a. vm_peek_memory a vm) (segment_addrs len ptr)"

lemma length_segment [simp]: "length (segment_addrs len ptr) = len" "length (segment len ptr vm) = len"
  by (simp_all add: segment_addrs_def segment_def word_addrs_from_def)

lemma view_segment [simp]:
  "addrs \<lparr>view_length = len, view_start = word_addr_from_u32 ptr, writes = w\<rparr> = segment_addrs len ptr"
  "view_words vm \<lparr>view_length = len, view_start = word_addr_from_u32 ptr, writes = w\<rparr> = segment len ptr vm"
  by (simp_all add: addrs_def view_words_def segment_addrs_def segment_def)

lemma peek_after_call:
  assumes "reads_args vm e" and "apply_syscall e vm = (Inr u, vm')"
  shows "vm_peek_memory a vm' =
    (case map_of (rev (iter_mem_values e)) a of Some v \<Rightarrow> v | None \<Rightarrow> vm_peek_memory a vm)"
  using apply_syscall_success [OF assms] peek_fold_init by auto

text \<open>A call with one segment replaces it by the words it computes.\<close>

lemma one_segment_effect:
  assumes "one_segment_call len f vm = Inr e" and "apply_syscall e vm = (Inr u, vm')"
    and "len < 4294967296" and "f (segment len (vm_registers vm ! reg_arg0) vm) = Inr ws" and "length ws = len"
  shows "segment len (vm_registers vm ! reg_arg0) vm' = ws"
    and "\<And>a. a \<notin> set (segment_addrs len (vm_registers vm ! reg_arg0)) \<Longrightarrow>
      vm_peek_memory a vm' = vm_peek_memory a vm"
proof -
  let ?ptr = "vm_registers vm ! reg_arg0" and ?as = "segment_addrs len (vm_registers vm ! reg_arg0)"
  from assms(1) have vals: "iter_mem_values e = zip ?as ws"
  proof (rule one_segment_call_success)
    fix ptr view ws' view'
    assume "vm_peek_register reg_arg0 vm = Inr ptr" "new_MemoryView len ptr = Inr view"
      "f (view_words vm view) = Inr ws'" "view_write ws' view = Inr view'"
      and e: "e = new_effects (view_mem_ops vm view') (arg_reg_ops ptr 0)"
    then have "view' = \<lparr>view_length = len, view_start = word_addr_from_u32 ?ptr, writes = Some ws\<rparr>"
      using assms(4) by (auto simp: new_MemoryView_Inr view_write_Inr)
    then show ?thesis using mem_values_view [of view' vm] assms(5)
      by (simp add: iter_mem_values_def e new_effects_def)
  qed
  have peek: "vm_peek_memory a vm' = (case map_of (rev (zip ?as ws)) a of Some v \<Rightarrow> v | None \<Rightarrow> vm_peek_memory a vm)" for a
    using peek_after_call [OF one_segment_args [OF assms(1)] assms(2), of a] by (simp only: vals)
  have dist: "distinct ?as" using assms(3) by (simp add: segment_addrs_def distinct_word_addrs_from)
  show "segment len ?ptr vm' = ws"
  proof (rule nth_equalityI)
    fix i assume "i < length (segment len ?ptr vm')"
    then have i: "i < len" by simp
    have "map_of (rev (zip ?as ws)) = map_of (zip ?as ws)"
      using dist assms(5) by (intro map_of_inject_set [THEN iffD2]) (simp_all flip: rev_map)
    moreover have "map_of (zip ?as ws) (?as ! i) = Some (ws ! i)"
      using dist assms(5) i by (simp add: map_of_zip_nth)
    ultimately show "segment len ?ptr vm' ! i = ws ! i"
      using i peek by (simp add: segment_def)
  qed (simp add: assms(5))
  fix a assume "a \<notin> set ?as"
  then have "map_of (rev (zip ?as ws)) a = None"
    by (auto simp: map_of_eq_None_iff dest: set_zip_leftD)
  then show "vm_peek_memory a vm' = vm_peek_memory a vm" by (simp add: peek)
qed

text \<open>A call with two pointers to the same segment writes the old words back over its result.\<close>

lemma aliased_segments_effect:
  assumes "two_segment_call len f vm = Inr e" and "apply_syscall e vm = (Inr u, vm')"
    and "vm_registers vm ! reg_arg0 = vm_registers vm ! reg_arg1"
  shows "vm_peek_memory a vm' = vm_peek_memory a vm"
proof -
  let ?ptr = "vm_registers vm ! reg_arg0"
  let ?as = "segment_addrs len ?ptr"
  from assms(1) have "\<exists>ops. iter_mem_values e = ops @ zip ?as (segment len ?ptr vm) \<and> fst ` set ops \<subseteq> set ?as"
  proof (rule two_segment_call_success)
    fix p_ptr q_ptr p_view q_view ws p_view'
    assume "vm_peek_register reg_arg0 vm = Inr p_ptr" "vm_peek_register reg_arg1 vm = Inr q_ptr"
      "new_MemoryView len p_ptr = Inr p_view" "new_MemoryView len q_ptr = Inr q_view"
      "view_write ws p_view = Inr p_view'"
      and e: "e = new_effects (view_mem_ops vm p_view' @ view_mem_ops vm q_view) (arg_reg_ops p_ptr q_ptr)"
    then have p: "addrs p_view' = ?as"
      and q: "q_view = \<lparr>view_length = len, view_start = word_addr_from_u32 ?ptr, writes = None\<rparr>"
      using assms(3) by (auto simp: new_MemoryView_Inr view_write_Inr)
    have "map (\<lambda>opn. (op_addr opn, after (op_value opn))) (view_mem_ops vm q_view) = zip ?as (segment len ?ptr vm)"
      using mem_values_view [of q_view vm] by (simp add: q)
    moreover have "fst ` set (map (\<lambda>opn. (op_addr opn, after (op_value opn))) (view_mem_ops vm p_view')) \<subseteq> set ?as"
      unfolding p [symmetric] by (auto simp: view_mem_ops_def dest: set_zip_leftD)
    ultimately show ?thesis by (auto simp: iter_mem_values_def e new_effects_def)
  qed
  then obtain ops where vals: "iter_mem_values e = ops @ zip ?as (segment len ?ptr vm)"
    and ops: "fst ` set ops \<subseteq> set ?as" by blast
  have "vm_peek_memory a vm' = (case map_of (rev (iter_mem_values e)) a of Some v \<Rightarrow> v | None \<Rightarrow> vm_peek_memory a vm)"
    using peek_after_call [OF two_segment_args [OF assms(1)] assms(2)] by simp
  also have "map_of (rev (iter_mem_values e)) a = (if a \<in> set ?as then Some (vm_peek_memory a vm) else None)"
  proof (cases "a \<in> set ?as")
    case False
    then have "a \<notin> fst ` set ops" using ops by auto
    then have "map_of (rev ops) a = None" by (simp add: map_of_eq_None_iff)
    then show ?thesis using False by (simp add: vals segment_def map_of_rev_zip_self)
  qed (simp add: vals segment_def map_of_rev_zip_self)
  finally show ?thesis by (simp split: if_splits)
qed


text \<open>With disjoint segments the first one holds the result and the rest of memory is unchanged.\<close>

lemma two_segment_effect:
  assumes "two_segment_call len f vm = Inr e" and "apply_syscall e vm = (Inr u, vm')"
    and "len < 4294967296" and "set (segment_addrs len (vm_registers vm ! reg_arg0)) \<inter>
      set (segment_addrs len (vm_registers vm ! reg_arg1)) = {}"
    and "f (segment len (vm_registers vm ! reg_arg0) vm) (segment len (vm_registers vm ! reg_arg1) vm) = Inr ws"
    and "length ws = len"
  shows "segment len (vm_registers vm ! reg_arg0) vm' = ws"
    and "\<And>a. a \<notin> set (segment_addrs len (vm_registers vm ! reg_arg0)) \<Longrightarrow>
      vm_peek_memory a vm' = vm_peek_memory a vm"
proof -
  let ?ps = "segment_addrs len (vm_registers vm ! reg_arg0)"
    and ?qs = "segment_addrs len (vm_registers vm ! reg_arg1)"
    and ?old = "segment len (vm_registers vm ! reg_arg1) vm"
  from assms(1) have vals: "iter_mem_values e = zip ?ps ws @ zip ?qs ?old"
  proof (rule two_segment_call_success)
    fix p_ptr q_ptr p_view q_view ws' p_view'
    assume "vm_peek_register reg_arg0 vm = Inr p_ptr" "vm_peek_register reg_arg1 vm = Inr q_ptr"
      "new_MemoryView len p_ptr = Inr p_view" "new_MemoryView len q_ptr = Inr q_view"
      "f (view_words vm p_view) (view_words vm q_view) = Inr ws'" "view_write ws' p_view = Inr p_view'"
      and e: "e = new_effects (view_mem_ops vm p_view' @ view_mem_ops vm q_view) (arg_reg_ops p_ptr q_ptr)"
    then have "p_view' = \<lparr>view_length = len, view_start = word_addr_from_u32 (vm_registers vm ! reg_arg0), writes = Some ws\<rparr>"
      and "q_view = \<lparr>view_length = len, view_start = word_addr_from_u32 (vm_registers vm ! reg_arg1), writes = None\<rparr>"
      using assms(5) by (auto simp: new_MemoryView_Inr view_write_Inr)
    then show ?thesis using mem_values_view [of p_view' vm] mem_values_view [of q_view vm] assms(6)
      by (simp add: iter_mem_values_def e new_effects_def)
  qed
  have peek: "vm_peek_memory a vm' = (case map_of (rev (zip ?ps ws @ zip ?qs ?old)) a of Some v \<Rightarrow> v | None \<Rightarrow> vm_peek_memory a vm)" for a
    using peek_after_call [OF two_segment_args [OF assms(1)] assms(2), of a] by (simp only: vals)
  have second: "map_of (rev (zip ?qs ?old)) a = (if a \<in> set ?qs then Some (vm_peek_memory a vm) else None)" for a
    by (simp add: segment_def map_of_rev_zip_self)
  have dist: "distinct ?ps" using assms(3) by (simp add: segment_addrs_def distinct_word_addrs_from)
  show "segment len (vm_registers vm ! reg_arg0) vm' = ws"
  proof (rule nth_equalityI)
    fix i assume "i < length (segment len (vm_registers vm ! reg_arg0) vm')"
    then have i: "i < len" by simp
    then have "?ps ! i \<notin> set ?qs" using assms(4) nth_mem [of i ?ps] by (metis IntI empty_iff length_segment(1))
    moreover have "map_of (rev (zip ?ps ws)) = map_of (zip ?ps ws)"
      using dist assms(6) by (intro map_of_inject_set [THEN iffD2]) (simp_all flip: rev_map)
    moreover have "map_of (zip ?ps ws) (?ps ! i) = Some (ws ! i)"
      using dist assms(6) i by (simp add: map_of_zip_nth)
    ultimately show "segment len (vm_registers vm ! reg_arg0) vm' ! i = ws ! i"
      using i peek by (simp add: segment_def second [unfolded segment_def] map_add_def)
  qed (simp add: assms(6))
  fix a assume "a \<notin> set ?ps"
  then have "map_of (rev (zip ?ps ws)) a = None"
    by (auto simp: map_of_eq_None_iff dest: set_zip_leftD)
  then show "vm_peek_memory a vm' = vm_peek_memory a vm" by (simp add: peek second map_add_def)
qed

text \<open>Every call: the addresses it names are the only ones that change, and it names as many as its \<open>SyscallSpec\<close> says.\<close>

definition mem_ops_count :: "u32 \<Rightarrow> nat" where
  "mem_ops_count code =
     (if code = KECCAK_PERMUTE then KECCAK_WORDS
      else if code = SECP256K1_ADD then 2 * SECP256K1_ARG_WORDS
      else if code = SECP256K1_DOUBLE then SECP256K1_ARG_WORDS
      else if code = SECP256K1_DECOMPRESS then 2 * COORDINATE_WORDS
      else if code = SHA_EXTEND then SHA_EXTEND_WORDS
      else if code = BN254_ADD then 2 * BN254_POINT_WORDS
      else if code = BN254_DOUBLE then BN254_POINT_WORDS
      else if code = BN254_FP_ADD then 2 * BN254_FP_WORDS
      else if code = BN254_FP_MUL then 2 * BN254_FP_WORDS
      else if code = BN254_FP2_ADD then 2 * BN254_FP2_WORDS
      else if code = BN254_FP2_MUL then 2 * BN254_FP2_WORDS
      else 0)"

lemma one_segment_count: "one_segment_call len f vm = Inr e \<Longrightarrow> length (mem_ops (witness e)) = len"
  by (erule one_segment_call_success) (simp add: new_effects_def)

lemma two_segment_count: "two_segment_call len f vm = Inr e \<Longrightarrow> length (mem_ops (witness e)) = 2 * len"
  by (erule two_segment_call_success) (simp add: new_effects_def)

lemma decompress_count:
  "secp256k1_decompress lib vm = Inr e \<Longrightarrow> length (mem_ops (witness e)) = 2 * COORDINATE_WORDS"
  by (auto simp: secp256k1_decompress_def bindE_success Let_def new_effects_def)

lemma dispatch_arm:
  "(if c then x else y) = Inr e \<Longrightarrow> (c \<Longrightarrow> x = Inr e \<Longrightarrow> n = a) \<Longrightarrow> (\<not> c \<Longrightarrow> y = Inr e \<Longrightarrow> n = b) \<Longrightarrow>
   n = (if c then a else b)"
  by (simp split: if_splits)

lemma handle_syscall_count:
  "handle_syscall lib vm code = Inr e \<Longrightarrow> length (mem_ops (witness e)) = mem_ops_count code"
  unfolding handle_syscall_def mem_ops_count_def syscall_defs
  by (elim dispatch_arm) (simp_all add: one_segment_count two_segment_count decompress_count)

lemma apply_syscall_frame:
  assumes "reads_args vm e" and "apply_syscall e vm = (Inr u, vm')"
  shows "vm_registers vm' = vm_registers vm" and "vm_pc vm' = vm_pc vm + 4"
    and "vm_halted vm' = vm_halted vm"
    and "\<And>a. a \<notin> op_addr ` set (mem_ops (witness e)) \<Longrightarrow> vm_peek_memory a vm' = vm_peek_memory a vm"
proof -
  from apply_syscall_success [OF assms] obtain tr
    where vm': "vm' = (fold (\<lambda>(a, v). vm_init_memory a v) (iter_mem_values e) vm)
      \<lparr>vm_pc := vm_pc vm + 4, vm_tracer := tr\<rparr>" by blast
  show "vm_registers vm' = vm_registers vm" "vm_pc vm' = vm_pc vm + 4" "vm_halted vm' = vm_halted vm"
    by (simp_all add: vm')
  fix a assume "a \<notin> op_addr ` set (mem_ops (witness e))"
  then have "map_of (rev (iter_mem_values e)) a = None"
    by (auto simp: map_of_eq_None_iff iter_mem_values_def)
  then show "vm_peek_memory a vm' = vm_peek_memory a vm" by (simp add: vm' peek_fold_init)
qed

subsection \<open>Keccak state\<close>

lemma keccak_word_pair:
  "ucast ((ucast (a :: u32) :: u64) OR push_bit 32 (ucast (b :: u32))) = a"
  "ucast (drop_bit 32 ((ucast (a :: u32) :: u64) OR push_bit 32 (ucast (b :: u32)))) = b"
  by (rule bit_word_eqI; auto simp: bit_simps dest: bit_imp_le_length)+

lemma keccak_cell:
  "(ucast (ucast (x :: u64) :: u32) :: u64) OR push_bit 32 (ucast (ucast (drop_bit 32 x) :: u32)) = x"
  by (rule bit_word_eqI) (auto simp: bit_simps not_less)

lemma chunks_exact_pairs: "chunks_exact 2 (concat (map (\<lambda>x. [f x, g x]) xs)) = map (\<lambda>x. [f x, g x]) xs"
  by (induction xs) (simp_all add: chunks_exact.simps)

lemma keccak_from_into: "keccak_state_from_words (keccak_state_into_words st) = st"
  unfolding keccak_state_from_words_def keccak_state_into_words_def chunks_exact_pairs
  by (simp add: o_def keccak_cell)

lemma chunks_exact_2 [simp]:
  "chunks_exact 2 (a # b # xs) = [a, b] # chunks_exact 2 xs" "chunks_exact 2 [] = []" "chunks_exact 2 [a] = []"
  by (subst chunks_exact.simps, simp)+

lemma keccak_into_from:
  "even (length ws) \<Longrightarrow> keccak_state_into_words (keccak_state_from_words ws) = ws"
proof (induction ws rule: induct_list012)
  case (3 a b ws)
  have "keccak_state_into_words (keccak_state_from_words (a # b # ws)) =
      a # b # keccak_state_into_words (keccak_state_from_words ws)"
    using keccak_word_pair [of a b]
    by (simp add: keccak_state_from_words_def keccak_state_into_words_def del: unsigned_or_eq drop_bit_or)
  then show ?case using 3 by simp
qed (simp_all add: keccak_state_from_words_def keccak_state_into_words_def)

subsection \<open>SHA-256 message schedule\<close>

text \<open>The message schedule of FIPS 180-4, as its recurrence.\<close>

function sha_schedule :: "u32 list \<Rightarrow> nat \<Rightarrow> u32" where
  "sha_schedule w i =
     (if i < 16 then w ! i
      else (word_rotr 17 (sha_schedule w (i - 2)) XOR word_rotr 19 (sha_schedule w (i - 2)) XOR
              drop_bit 10 (sha_schedule w (i - 2)))
           + sha_schedule w (i - 7)
           + (word_rotr 7 (sha_schedule w (i - 15)) XOR word_rotr 18 (sha_schedule w (i - 15)) XOR
              drop_bit 3 (sha_schedule w (i - 15)))
           + sha_schedule w (i - 16))"
  by pat_completeness auto
termination
  by (relation "measure snd") auto

declare sha_schedule.simps [simp del]

lemma length_sha_extend_step [simp]: "length (sha_extend_step i w) = length w"
  by (simp add: sha_extend_step_def Let_def)

lemma fold_sha_extend:
  assumes "length w = 64" and "16 \<le> n" and "n \<le> 64"
  shows "length (fold sha_extend_step [16..<n] w) = 64 \<and>
    (\<forall>i < n. fold sha_extend_step [16..<n] w ! i = sha_schedule w i)"
  using assms(2,3)
proof (induction n rule: dec_induct)
  case base
  then show ?case using assms(1) by (simp add: sha_schedule.simps)
next
  case (step n)
  let ?w = "fold sha_extend_step [16..<n] w"
  from step have IH: "length ?w = 64" "\<forall>i < n. ?w ! i = sha_schedule w i" by simp_all
  have "sha_extend_step n ?w ! i = sha_schedule w i" if "i < Suc n" for i
  proof (cases "i = n")
    case True
    then show ?thesis using IH step.hyps step.prems
      by (simp add: sha_extend_step_def Let_def sha_schedule.simps [of w n] ac_simps)
  qed (use IH that in \<open>simp add: sha_extend_step_def Let_def\<close>)
  then show ?case using IH step.hyps by simp
qed

lemma sha_extend_schedule:
  "length w = 64 \<Longrightarrow> length (sha_extend w) = 64 \<and> (\<forall>i < 64. sha_extend w ! i = sha_schedule w i)"
  using fold_sha_extend [of w 64] by (simp add: sha_extend_def)

end
