(* ===== verification/MmioBounds.thy ===== *)
theory MmioBounds
  imports NoPanic
begin

text \<open>
  The accessed part of a region. The tracer of \<open>ceno_emul/src/tracer.rs\<close> keeps, for the hints, the
  stack and the heap, the least accessed word address and one past the largest, from which the
  prover sizes the memory tables. The lemmas show that these bounds enclose every load and store a
  run records in the region.
\<close>

definition covers :: "mmio_bounds \<Rightarrow> word_addr \<Rightarrow> bool" where
  "covers m a \<longleftrightarrow>
     (case bt_upto a m of None \<Rightarrow> True | Some (_, (_, en, mn, mx)) \<Rightarrow> a < en \<longrightarrow> mn \<le> a \<and> a < mx)"

abbreviation is_word :: "word_addr \<Rightarrow> bool" where
  "is_word a \<equiv> unat (word_addr_0 a) < 1073741824"

lemma bt_insert_present:
  "bt_wf m \<Longrightarrow> k \<in> set (bt_keys m) \<Longrightarrow>
   bt_insert k v m = map (\<lambda>(k', w). (k', if k' = k then v else w)) m"
proof (induction k v m rule: bt_insert.induct)
  case (2 k v k' v' m)
  show ?case
  proof (cases "k = k'")
    case True
    then have "\<forall>x \<in> set m. fst x \<noteq> k" using "2.prems" by auto
    then show ?thesis using True by (auto intro!: map_idI [symmetric])
  next
    case False
    then have "k \<in> set (bt_keys m)" and "\<not> k < k'" using "2.prems" by auto
    then show ?thesis using 2 False by simp
  qed
qed simp

lemma bt_upto_map_values:
  "bt_upto a (map (\<lambda>(k, w). (k, f k w)) m) = map_option (\<lambda>(k, w). (k, f k w)) (bt_upto a m)"
proof -
  have "filter (\<lambda>(k', _). k' \<le> a) (map (\<lambda>(k, w). (k, f k w)) m) =
      map (\<lambda>(k, w). (k, f k w)) (filter (\<lambda>(k', _). k' \<le> a) m)"
    by (induction m) auto
  moreover have "last ((k, f k w) # map (\<lambda>(k, w). (k, f k w)) es) =
      (case last ((k, w) # es) of (k, w) \<Rightarrow> (k, f k w))" for k w es
    by (induction es arbitrary: k w) auto
  ultimately show ?thesis
    by (cases "filter (\<lambda>(k', _). k' \<le> a) m") (auto simp: bt_upto_def simp del: last.simps)
qed

lemma bt_wf_functional: "bt_wf m \<Longrightarrow> (k, v) \<in> set m \<Longrightarrow> (k, w) \<in> set m \<Longrightarrow> v = w"
  by (induction m) force+

lemma next_word:
  assumes "is_word a"
  shows "a < word_addr_add a (word_addr_from_u32 (of_nat WORD_SIZE))"
    and "\<And>b. b \<le> a \<Longrightarrow> b < word_addr_add a (word_addr_from_u32 (of_nat WORD_SIZE))"
proof -
  have "unat (word_addr_0 a + 1) = unat (word_addr_0 a) + 1"
    using assms by (simp add: unat_word_ariths)
  then show less: "a < word_addr_add a (word_addr_from_u32 (of_nat WORD_SIZE))"
    by (simp add: addr_order word_less_nat_alt word_addr_add_def word_addr_from_u32_def waddr_def WORD_SIZE_def)
  show "b < word_addr_add a (word_addr_from_u32 (of_nat WORD_SIZE))" if "b \<le> a" for b
    using that less by (rule le_less_trans)
qed

text \<open>Widening covers the address and keeps covering what was covered.\<close>

lemma widen_bounds_wf: "bt_wf m \<Longrightarrow> bt_wf (widen_bounds a m)"
  by (auto simp: widen_bounds_def split: option.splits)

lemma widen_bounds_covers:
  assumes "bt_wf m" and "is_word a"
  shows "covers (widen_bounds a m) a" and "\<And>b. covers m b \<Longrightarrow> covers (widen_bounds a m) b"
proof -
  let ?next = "word_addr_add a (word_addr_from_u32 (of_nat WORD_SIZE))"
  have "covers (widen_bounds a m) a \<and> (\<forall>b. covers m b \<longrightarrow> covers (widen_bounds a m) b)"
  proof (cases "bt_upto a m")
    case None
    then show ?thesis by (simp add: widen_bounds_def covers_def)
  next
    case (Some entry)
    obtain key st en mn mx where e: "entry = (key, (st, en, mn, mx))" by (metis prod_cases5)
    have key: "key \<in> set (bt_keys m)" using bt_upto_mem(1) [of a m key] Some e by force
    let ?v = "(st, en, if a < mn then a else mn, if mx \<le> a then ?next else mx)"
    have wide: "a < en \<Longrightarrow> widen_bounds a m = map (\<lambda>(k, w). (k, if k = key then ?v else w)) m"
      using bt_insert_present [OF assms(1) key, of ?v] by (simp add: widen_bounds_def Some e)
    have narrow: "\<not> a < en \<Longrightarrow> widen_bounds a m = m" by (simp add: widen_bounds_def Some e)
    show ?thesis
    proof (cases "a < en")
      case True
      note up = bt_upto_map_values [where f = "\<lambda>k w. if k = key then ?v else w" and m = m]
      have "covers (widen_bounds a m) a"
        using next_word(1) [OF assms(2)] unfolding wide [OF True] covers_def up
        by (auto simp: Some e not_less not_le)
      moreover have "covers (widen_bounds a m) b" if "covers m b" for b
      proof (cases "bt_upto b m")
        case (Some entry')
        obtain k' w' where e': "entry' = (k', w')" by (cases entry')
        have "k' = key \<Longrightarrow> w' = (st, en, mn, mx)"
          using bt_upto_mem(1) [of b m k' w'] bt_upto_mem(1) [of a m key "(st, en, mn, mx)"]
            \<open>bt_upto a m = Some entry\<close> Some e e' assms(1)
          by (metis bt_wf_functional)
        then show ?thesis
          using that next_word(2) [OF assms(2), of b] unfolding wide [OF True] covers_def up
          by (auto simp: Some e' split: prod.splits if_splits)
      qed (use that in \<open>simp add: covers_def wide [OF True] up\<close>)
      ultimately show ?thesis by blast
    next
      case False
      then show ?thesis using narrow by (simp add: covers_def Some e)
    qed
  qed
  then show "covers (widen_bounds a m) a" and "\<And>b. covers m b \<Longrightarrow> covers (widen_bounds a m) b" by auto
qed


subsection \<open>Bounds along a run\<close>

text \<open>Every memory operation of a list of records lies within the bounds.\<close>

definition mem_addrs :: "StepRecord list \<Rightarrow> word_addr set" where
  "mem_addrs rs = (\<Union>r \<in> set rs. op_addr ` set_option (rec_memory_op r))"

lemma mem_addrs_simps [simp]:
  "mem_addrs [] = {}" "mem_addrs (rs @ rs') = mem_addrs rs \<union> mem_addrs rs'"
  "mem_addrs (r # rs) = op_addr ` set_option (rec_memory_op r) \<union> mem_addrs rs"
  by (auto simp: mem_addrs_def)

definition bounds_cover :: "StepRecord list \<Rightarrow> VMState \<Rightarrow> bool" where
  "bounds_cover done vm \<longleftrightarrow>
     (\<exists>m. mmio_min_max_access (vm_tracer vm) = Some m \<and> bt_wf m \<and>
       (\<forall>a \<in> mem_addrs (done @ [step_record (vm_tracer vm)]). covers m a))"

lemma bounds_cover_cong:
  assumes "mmio_min_max_access (vm_tracer vm') = mmio_min_max_access (vm_tracer vm)"
    and "rec_memory_op (step_record (vm_tracer vm')) = rec_memory_op (step_record (vm_tracer vm))"
  shows "bounds_cover done vm' = bounds_cover done vm"
  by (simp add: bounds_cover_def assms)

lemma bounds_cover_access:
  assumes "bounds_cover done vm" and "trace_store_memory a ch (vm_tracer vm) = (Inr (), tr)"
    and "vm_tracer vm' = tr" and "is_word a"
  shows "bounds_cover done vm'"
proof -
  obtain m where m: "mmio_min_max_access (vm_tracer vm) = Some m" "bt_wf m"
    "\<forall>b \<in> mem_addrs (done @ [step_record (vm_tracer vm)]). covers m b"
    using assms(1) by (auto simp: bounds_cover_def)
  from assms(2) have none: "rec_memory_op (step_record (vm_tracer vm)) = None"
    by (auto simp: trace_store_memory_def split: if_splits)
  with assms(2) m(1) obtain opn where tr: "rec_memory_op (step_record tr) = Some opn" "op_addr opn = a"
      "mmio_min_max_access tr = Some (widen_bounds a m)"
    by (auto simp: trace_store_memory_def Let_def track_access_def)
  have "mem_addrs (done @ [step_record tr]) = insert a (mem_addrs (done @ [step_record (vm_tracer vm)]))"
    using tr none by simp
  then show ?thesis
    using tr assms(3) m(3) widen_bounds_covers [OF m(2) assms(4)] widen_bounds_wf [OF m(2)]
    by (auto simp: bounds_cover_def simp del: mem_addrs_simps)
qed

lemma trace_register_frame:
  "trace_load_register i v tr = (Inr (), tr') \<Longrightarrow>
   mmio_min_max_access tr' = mmio_min_max_access tr \<and>
   rec_memory_op (step_record tr') = rec_memory_op (step_record tr)"
  "trace_store_register i ch tr = (Inr (), tr') \<Longrightarrow>
   mmio_min_max_access tr' = mmio_min_max_access tr \<and>
   rec_memory_op (step_record tr') = rec_memory_op (step_record tr)"
  by (auto simp: trace_load_register_def trace_store_register_def track_access_def Let_def
      split: option.splits if_splits)

lemma finalize_ops_mmio:
  "finalize_ops sub ops tr = (ops', tr') \<Longrightarrow> mmio_min_max_access tr' = mmio_min_max_access tr"
proof (induction sub ops tr arbitrary: ops' tr' rule: finalize_ops.induct)
  case (2 sub opn ops tr)
  let ?t = "snd (track_access (op_addr opn) sub tr)"
  obtain os t where rest: "finalize_ops sub ops ?t = (os, t)" by force
  with "2.prems" have "tr' = t" by (auto simp: case_prod_unfold)
  moreover have "(fst (track_access (op_addr opn) sub tr), ?t) = track_access (op_addr opn) sub tr"
    by (simp add: prod_eq_iff)
  moreover have "mmio_min_max_access ?t = mmio_min_max_access tr" by (simp add: track_access_def)
  ultimately show ?case using "2.IH" [OF _ rest] by simp
qed simp

lemma bounds_cover_registers:
  "vm_load_register i vm = (Inr v, vm') \<Longrightarrow> bounds_cover done vm \<Longrightarrow> bounds_cover done vm'"
  "vm_store_register i w vm = (Inr u, vm') \<Longrightarrow> bounds_cover done vm \<Longrightarrow> bounds_cover done vm'"
proof -
  assume "vm_load_register i vm = (Inr v, vm')" "bounds_cover done vm"
  then show "bounds_cover done vm'"
    using bounds_cover_cong [of vm' vm "done"] trace_register_frame(1)
    by (fastforce dest!: vm_load_register_success)
next
  assume "vm_store_register i w vm = (Inr u, vm')" "bounds_cover done vm"
  then show "bounds_cover done vm'"
    using bounds_cover_cong [of vm' vm "done"] trace_register_frame(2)
    by (fastforce dest!: vm_store_register_success)
qed

lemma bounds_cover_memory:
  "vm_load_memory (waddr b) vm = (Inr v, vm') \<Longrightarrow> bounds_cover done vm \<Longrightarrow> bounds_cover done vm'"
  "vm_store_memory (waddr b) w vm = (Inr u, vm') \<Longrightarrow> bounds_cover done vm \<Longrightarrow> bounds_cover done vm'"
  by (auto dest!: vm_load_memory_success vm_store_memory_success simp: trace_load_memory_def
      intro: bounds_cover_access waddr_bound)

lemma bounds_cover_fetch:
  "vm_fetch m vm = (Inr f, vm') \<Longrightarrow> bounds_cover done vm \<Longrightarrow> bounds_cover done vm'"
  by (auto simp: vm_fetch_def Let_def trace_fetch_def bounds_cover_def split: if_splits)

lemmas bounds_cover_ops = bounds_cover_registers bounds_cover_memory bounds_cover_fetch

lemma bounds_cover_frame:
  "bounds_cover done vm \<Longrightarrow> bounds_cover done (vm_on_normal_end insn vm)"
  "bounds_cover done vm \<Longrightarrow> bounds_cover done (vm_set_pc a vm)"
  "bounds_cover done vm \<Longrightarrow> bounds_cover done (vm_halt vm)"
  by (auto simp: bounds_cover_def vm_on_normal_end_def store_pc_def vm_set_pc_def vm_halt_def)

lemma bounds_cover_syscall:
  assumes "reads_args vm e" and "apply_syscall e vm = (Inr u, vm')" and "bounds_cover done vm"
  shows "bounds_cover done vm'"
proof -
  obtain tr where tr: "track_syscall (witness e) (vm_tracer vm) = (Inr (), tr)" and "vm_tracer vm' = tr"
    using apply_syscall_success [OF assms(1,2)] by auto
  moreover from tr have "mmio_min_max_access tr = mmio_min_max_access (vm_tracer vm) \<and>
      rec_memory_op (step_record tr) = rec_memory_op (step_record (vm_tracer vm))"
    by (auto elim!: track_syscall_success dest!: finalize_ops_mmio)
  ultimately show ?thesis using assms(3) bounds_cover_cong by blast
qed

lemma bounds_cover_ecall:
  "vm_ecall lib vm = (Inr r, vm') \<Longrightarrow> bounds_cover done vm \<Longrightarrow> bounds_cover done vm'"
proof (erule vm_ecall_success)
  fix f s1 e u
  assume "bounds_cover done vm" "vm_load_register reg_ecall vm = (Inr f, s1)"
    "handle_syscall lib s1 f = Inr e" "apply_syscall e s1 = (Inr u, vm')"
  then show "bounds_cover done vm'"
    by (blast intro: bounds_cover_syscall handle_syscall_args bounds_cover_ops)
next
  fix f s1
  assume "bounds_cover done vm" "vm_load_register reg_ecall vm = (Inr f, s1)"
    and "ecall_nop s1 = (Inr r, vm')"
  then show "bounds_cover done vm'"
    by (auto elim!: ecall_nop_success intro!: bounds_cover_frame simp: word_addr_from_u32_def
        dest!: bounds_cover_ops)
qed (auto dest!: bounds_cover_ops intro: bounds_cover_frame)

interpretation bounds: step_phases "vm_context lib" "bounds_cover done" "bounds_cover done"
  "bounds_cover done" for lib "done"
  by unfold_locales (auto intro: bounds_cover_frame bounds_cover_ops bounds_cover_ecall)

lemma run_bounds_cover:
  assumes "run_steps lib n vm = (Inr rs, vm')" and "fresh_record vm"
    and "mmio_min_max_access (vm_tracer vm) = Some m" and "bt_wf m"
  shows "\<exists>m'. mmio_min_max_access (vm_tracer vm') = Some m' \<and> (\<forall>a \<in> mem_addrs rs. covers m' a)"
proof -
  have fresh: "rec_memory_op (step_record (vm_tracer s)) = None" if "fresh_record s" for s
    using that by (auto simp: fresh_record_def default_StepRecord_def)
  have "fresh_record vm' \<and> bounds_cover rs vm'"
    using assms(1)
  proof (rule run_steps_induct)
    show "fresh_record vm \<and> bounds_cover [] vm"
      using assms(2-4) fresh by (auto simp: bounds_cover_def)
  next
    fix rs s r s'
    assume IH: "fresh_record s \<and> bounds_cover rs s" and step: "vm_step lib s = (Inr r, s')"
    from step obtain t where t: "step (vm_context lib) s = (Inr (), t)" "r = step_record (vm_tracer t)"
      and s': "s' = t\<lparr>vm_tracer := snd (advance (vm_tracer t))\<rparr>"
      by (auto simp: vm_step_success)
    have "bounds_cover rs t" using bounds.step_keeps [OF t(1)] IH by blast
    then show "fresh_record s' \<and> bounds_cover (rs @ [r]) s'"
      using vm_step_fresh [OF step] t(2)
      by (auto simp: bounds_cover_def s' advance_def default_StepRecord_def)
  qed
  then show ?thesis using fresh [of vm'] by (auto simp: bounds_cover_def)
qed

end
