(* ===== verification/EmulatorTheorems.thy ===== *)
theory EmulatorTheorems
  imports SyscallFacts MmioBounds
begin

text \<open>
  The properties of the emulator (\<open>ceno_emul\<close>): what a step does against the instruction set, what a
  run preserves, the trace it emits, its errors, the system calls and the platform. Each hypothesis
  is discharged on a small program that stores a word, loads it back and halts.
\<close>

subsection \<open>A program to run\<close>

definition demo_program :: Program where
  "demo_program = Program_from_instructions
     [encode_rv32 ADDI 0 0 1 0x80000000, encode_rv32 ADDI 0 0 2 7,
      encode_rv32 SW 1 2 0 0, encode_rv32 LW 1 0 3 0, encode_rv32 ECALL 0 0 0 0]"

definition demo_lib :: "(unit, unit, unit, unit, unit) crypto_lib" where
  "demo_lib = \<lparr>lib_keccakf = (\<lambda>s. s), secp_from_slice = (\<lambda>_. Some ()), secp_add = (\<lambda>_ _. ()),
     secp_times_two = (\<lambda>_. ()), secp_into_maybe = (\<lambda>_. ()), secp_serialize_uncompressed = (\<lambda>_. replicate 65 0),
     fq_from_slice = (\<lambda>_. Some ()), fq_to_big_endian = (\<lambda>_. replicate 32 0), fq_one = (), fq_add = (\<lambda>_ _. ()),
     fq_mul = (\<lambda>_ _. ()), fq2_new = (\<lambda>_ _. ()), fq2_real = (\<lambda>_. ()), fq2_imaginary = (\<lambda>_. ()),
     fq2_add = (\<lambda>_ _. ()), fq2_mul = (\<lambda>_ _. ()), g1_new = (\<lambda>_ _ _. ()), g1_add = (\<lambda>_ _. ()),
     g1_times_two = (\<lambda>_. ()), affine_from_jacobian = (\<lambda>_. Some ((), ()))\<rparr>"

definition demo_start :: VMState where
  "demo_start = new_VMState CENO_PLATFORM demo_program"

lemmas eval_simps = prog_simps Let_def
  vm_step_def step_def step_insn_def step_compute_def step_branch_def step_load_def step_store_def
  step_system_def compute_result_def finish_compute_def advance_pc_def
  vm_get_pc_def vm_set_pc_def vm_load_register_def vm_store_register_def vm_load_memory_def
  vm_store_memory_def vm_fetch_def vm_on_normal_end_def vm_check_data_load_def
  vm_check_data_store_def with_tracer_def andThen_def vm_peek_register_def vm_peek_memory_def
  vm_init_memory_def vm_ecall_def vm_halt_def trace_load_register_def trace_store_register_def
  trace_store_memory_def trace_load_memory_def track_access_def widen_bounds_def bt_upto_def
  advance_def store_pc_def trace_fetch_def is_busy_loop_def change_def default_StepRecord_def
  default_Instruction_def waddr_def baddr_def is_aligned_def word_addr_from_u32_def
  u32_from_word_addr_def byte_addr_add_def word_addr_add_def wrapping_add_def WORD_SIZE_def
  PC_STEP_SIZE_def register_vma_def SUBCYCLE_RS1_def SUBCYCLE_RS2_def SUBCYCLE_RD_def
  SUBCYCLE_MEM_def SUBCYCLES_PER_INSN_def rd_internal_def RD_NULL_def encode_rv32_def addr_order
  reg_ecall_def reg_arg0_def ecall_halt_def can_read_def can_write_def is_ram_def is_pub_io_def
  is_hints_def is_prog_data_def range_contains_def

lemmas demo_simps = demo_program_def Program_from_instructions_def CENO_PLATFORM_def pc_base_def
  new_Tracer_def mmio_regions_def mmio_entry_def eval_simps

lemma demo_start_eval:
  "demo_start = \<lparr>vm_program = demo_program, vm_platform = CENO_PLATFORM, vm_pc = 0x20000000,
     vm_memory = Map.empty, vm_registers = replicate 33 0, vm_halted = False,
     vm_tracer = new_Tracer (Some CENO_PLATFORM)\<rparr>"
  by (simp add: demo_start_def new_VMState_def demo_program_def Program_from_instructions_def
      CENO_PLATFORM_def pc_base_def REG_COUNT_def)

lemma demo_step: "\<exists>r vm. vm_step demo_lib demo_start = (Inr r, vm)"
  unfolding demo_start_eval by (simp add: demo_simps)

lemma six: "(6 :: nat) = (Suc (Suc (Suc (Suc (Suc (Suc 0))))))"
  by simp

lemma demo_run:
  obtains rs vm where "run_steps demo_lib 6 demo_start = (Inr rs, vm)"
    and "length rs = 5" and "\<forall>r \<in> set rs. memory_private r" and "vm_halted vm"
    and "vm_peek_memory (waddr (ByteAddr 0x80000000)) vm = 7"
proof -
  have "case run_steps demo_lib 6 demo_start of
      (Inr rs, vm) \<Rightarrow> length rs = 5 \<and> (\<forall>r \<in> set rs. memory_private r) \<and> vm_halted vm \<and>
        vm_peek_memory (waddr (ByteAddr 0x80000000)) vm = 7
    | (Inl e, vm) \<Rightarrow> False"
    unfolding demo_start_eval six
    by (simp add: demo_simps memory_private_def register_at_def REG_COUNT_def)
  then show ?thesis by (auto split: prod.splits sum.splits intro: that)
qed

lemma demo_start_simps [simp]:
  "fresh_record demo_start" "vm_registers demo_start = replicate REG_COUNT 0"
  "vm_tracer demo_start = new_Tracer (Some CENO_PLATFORM)" "vm_program demo_start = demo_program"
  by (simp_all add: demo_start_def fresh_record_def new_Tracer_def) (auto simp: default_StepRecord_def)

subsection \<open>Steps\<close>

definition vm_view :: "VMState \<Rightarrow> isa_state" where
  "vm_view vm = isa_view (vm_pc vm) (\<lambda>i. vm_registers vm ! i) (\<lambda>a. vm_peek_memory a vm)"

text \<open>
  C1. A successful step on a machine whose \<open>x0\<close> is zero has exactly the effect that RV32IM gives the
  fetched instruction, on the pc, the registers and the bytes of memory, for every instruction
  other than an environment call.
\<close>

theorem vm_step_implements_isa:
  assumes "vm_step lib vm = (Inr r, vm')" and "registers_ok vm"
    and "fst (vm_fetch (waddr (vm_get_pc vm)) vm) = Inr (Some insn)"
    and "insn_kind insn \<noteq> ECALL" and "wf_insn insn"
  shows "isa_exec insn (vm_view vm) = Some (vm_view vm')"
proof -
  from assms(1) obtain s where s: "step (vm_context lib) vm = (Inr (), s)"
    and vm': "vm' = s\<lparr>vm_tracer := snd (advance (vm_tracer s))\<rparr>"
    by (auto simp: vm_step_success)
  from vm.step_view [OF s assms(2)] obtain insn' s1
    where f: "vm_fetch (waddr (vm_get_pc vm)) vm = (Inr (Some insn'), s1)"
      and ex: "insn_kind insn' \<noteq> ECALL \<Longrightarrow> wf_insn insn' \<Longrightarrow> isa_exec insn' (vm_view vm) = Some (vm_view s)"
    by (auto simp: vm_view_def vm_get_pc_def simp del: isa_view_simps)
  have "insn' = insn" using assms(3) f by simp
  then show ?thesis using ex assms(4,5) by (simp add: vm' vm_view_def)
qed

theorem vm_step_implements_isa_witness:
  "\<exists>r vm'. vm_step demo_lib demo_start = (Inr r, vm') \<and>
     isa_exec (encode_rv32 ADDI 0 0 1 0x80000000) (vm_view demo_start) = Some (vm_view vm')"
proof -
  obtain r vm' where st: "vm_step demo_lib demo_start = (Inr r, vm')" using demo_step by blast
  have "isa_exec (encode_rv32 ADDI 0 0 1 0x80000000) (vm_view demo_start) = Some (vm_view vm')"
  proof (rule vm_step_implements_isa [OF st])
    show "fst (vm_fetch (waddr (vm_get_pc demo_start)) demo_start) =
        Inr (Some (encode_rv32 ADDI 0 0 1 0x80000000))"
      unfolding demo_start_eval by (simp add: demo_simps)
  qed (simp_all add: registers_ok_def REG_COUNT_def encode_rv32_def wf_insn_def)
  with st show ?thesis by blast
qed

text \<open>
  C2. The result of every register-register instruction is the low word of the integer RV32IM
  defines: signed and unsigned products and their high words, division truncated towards zero with
  the conventions for zero and overflow, shifts by the low five bits, comparisons.
\<close>

theorem alu_matches_isa: "alu_reg knd a b = map_option word_of_int (isa_alu knd a b)"
  by (rule alu_reg_isa)

text \<open>
  C3. A run never changes the program or the platform, keeps 33 registers with \<open>x0\<close> zero, and keeps
  the pc aligned, whatever instructions and system calls it executes.
\<close>

theorem run_keeps_machine_ok:
  assumes "run_steps lib n (new_VMState plat prog) = (Inr rs, vm')" and "is_aligned (ByteAddr (entry prog))"
  shows "vm_program vm' = prog \<and> vm_platform vm' = plat \<and> length (vm_registers vm') = REG_COUNT \<and>
    vm_registers vm' ! 0 = 0 \<and> is_aligned (vm_get_pc vm')"
proof -
  have "machine_ok prog plat (new_VMState plat prog)" using assms(2) by simp
  from run_steps_machine_ok [OF assms(1) this] show ?thesis
    by (simp add: machine_ok_def registers_ok_def)
qed

theorem run_keeps_machine_ok_witness:
  "\<exists>rs vm'. run_steps demo_lib 6 (new_VMState CENO_PLATFORM demo_program)
     = (Inr rs, vm') \<and> length rs = 5 \<and> vm_registers vm' ! 0 = 0"
proof (rule demo_run)
  fix rs vm assume r: "run_steps demo_lib 6 demo_start = (Inr rs, vm)"
    and l: "length rs = 5"
  have "is_aligned (ByteAddr (entry demo_program))"
    by (simp add: demo_program_def Program_from_instructions_def is_aligned_def pc_base_def
        CENO_PLATFORM_def WORD_SIZE_def)
  from run_keeps_machine_ok [OF r [unfolded demo_start_def] this] r l show ?thesis
    unfolding demo_start_def by blast
qed

text \<open>
  C4. A step that fails, and whose instruction at the pc, if there is one, is well formed and no
  environment call, does not panic: it reports a trap, with registers, memory and pc as before the
  instruction, or the instruction was executed, left the pc as it was without halting, and the step
  reports a busy loop. Other instructions of the program, environment calls included, do not matter;
  the step of an environment call itself is left out, since the precompiles do panic on arguments they
  do not accept.
\<close>

theorem vm_step_traps_precisely:
  assumes "vm_step lib vm = (Inl e, vm')" and "fresh_record vm" and "length (vm_registers vm) = REG_COUNT"
    and "\<And>insn. fst (vm_fetch (waddr (vm_get_pc vm)) vm) = Inr (Some insn) \<Longrightarrow> wf_insn insn \<and> insn_kind insn \<noteq> ECALL"
  shows "e = StuckInLoop \<and>
      (\<exists>s. step (vm_context lib) vm = (Inr (), s) \<and> is_busy_loop (step_record (vm_tracer s)) \<and> \<not> vm_halted s) \<or>
    (\<exists>cause. e = TrapError cause) \<and> vm_registers vm' = vm_registers vm \<and>
      vm_memory vm' = vm_memory vm \<and> vm_pc vm' = vm_pc vm"
  using vm_step_errors [OF assms] by (auto simp: unchanged_def)

definition trap_start :: VMState where
  "trap_start = new_VMState CENO_PLATFORM (Program_from_instructions [encode_rv32 LW 0 0 1 2, encode_rv32 ECALL 0 0 0 0])"

theorem vm_step_traps_precisely_witness:
  "\<exists>vm'. vm_step demo_lib trap_start = (Inl (TrapError (LoadAccessFault (ByteAddr 2))), vm') \<and>
     vm_pc vm' = vm_pc trap_start"
proof -
  obtain vm' where st: "vm_step demo_lib trap_start = (Inl (TrapError (LoadAccessFault (ByteAddr 2))), vm')"
    by (simp add: trap_start_def new_VMState_def demo_simps REG_COUNT_def vm_trap_def)
  have "fresh_record trap_start"
    by (simp add: trap_start_def fresh_record_def new_Tracer_def) (auto simp: default_StepRecord_def)
  moreover have "fst (vm_fetch (waddr (vm_get_pc trap_start)) trap_start) = Inr (Some (encode_rv32 LW 0 0 1 2))"
    by (simp add: trap_start_def new_VMState_def demo_simps)
  ultimately show ?thesis
    using vm_step_traps_precisely [OF st] st by (auto simp: trap_start_def encode_rv32_def wf_insn_def)
qed


text \<open>
  An environment call with \<open>x5\<close> zero halts: the pc is set to zero, registers and memory are
  kept, and the machine takes no further step.
\<close>

theorem ecall_zero_halts:
  assumes "vm_step lib vm = (Inr r, vm')" and "length (vm_registers vm) = REG_COUNT"
    and "fst (vm_fetch (waddr (vm_get_pc vm)) vm) = Inr (Some insn)"
    and "insn_kind insn = ECALL" and "vm_registers vm ! reg_ecall = ecall_halt"
  shows "vm_halted vm' \<and> vm_pc vm' = 0 \<and> vm_registers vm' = vm_registers vm \<and>
    vm_memory vm' = vm_memory vm \<and> run_steps lib n vm' = (Inr [], vm')"
proof -
  from assms(1) obtain s where s: "step (vm_context lib) vm = (Inr (), s)"
    and vm': "vm' = s\<lparr>vm_tracer := snd (advance (vm_tracer s))\<rparr>"
    by (auto simp: vm_step_success)
  obtain s1 where f: "vm_fetch (waddr (vm_get_pc vm)) vm = (Inr (Some insn), s1)"
    using assms(3) by (cases "vm_fetch (waddr (vm_get_pc vm)) vm") simp
  then have s1: "unchanged vm s1" using vm_fetch_success by force
  from s f assms(4) obtain q s2 where e: "vm_ecall lib s1 = (Inr q, s2)"
    and s2: "s = vm_on_normal_end insn s2 \<or> s = s2"
    by (auto simp: step_def andThen_success step_insn_def step_system_def split: if_splits)
  from e have "unchanged (vm_halt vm) s2"
  proof (rule vm_ecall_success)
    fix t1 t2 v
    assume "vm_load_register reg_ecall s1 = (Inr ecall_halt, t1)"
      "vm_load_register reg_arg0 t1 = (Inr v, t2)" "s2 = vm_halt t2"
    then show ?thesis using s1
      by (auto dest!: vm_load_register_success simp: unchanged_def vm_halt_def vm_set_pc_def)
  next
    fix f' t1 e' u
    assume "vm_load_register reg_ecall s1 = (Inr f', t1)" "f' \<noteq> ecall_halt"
    then show ?thesis using s1 assms(5)
      by (auto dest!: vm_load_register_success simp: unchanged_def)
  next
    fix f' t1
    assume "vm_load_register reg_ecall s1 = (Inr f', t1)" "f' \<noteq> ecall_halt"
    then show ?thesis using s1 assms(5)
      by (auto dest!: vm_load_register_success simp: unchanged_def)
  qed
  then have "unchanged (vm_halt vm) vm'"
    using s2 by (auto simp: vm' unchanged_def vm_on_normal_end_def)
  then show ?thesis
    using run_steps_halted [of vm' lib n] by (simp add: unchanged_def vm_halt_def vm_set_pc_def)
qed

definition halt_start :: VMState where
  "halt_start = new_VMState CENO_PLATFORM (Program_from_instructions [encode_rv32 ECALL 0 0 0 0])"

theorem ecall_zero_halts_witness:
  "\<exists>r vm'. vm_step demo_lib halt_start = (Inr r, vm') \<and> vm_halted vm' \<and>
     run_steps demo_lib 3 vm' = (Inr [], vm')"
proof -
  obtain r vm' where st: "vm_step demo_lib halt_start = (Inr r, vm')"
    by (simp add: halt_start_def new_VMState_def demo_simps REG_COUNT_def)
  have "fst (vm_fetch (waddr (vm_get_pc halt_start)) halt_start) = Inr (Some (encode_rv32 ECALL 0 0 0 0))"
    by (simp add: halt_start_def new_VMState_def demo_simps)
  from ecall_zero_halts [OF st _ this, of 3] st show ?thesis
    by (simp add: halt_start_def encode_rv32_def reg_ecall_def ecall_halt_def REG_COUNT_def)
qed

subsection \<open>The trace\<close>

lemma consistent_start:
  assumes "length (vm_registers vm) = REG_COUNT" and "vm_tracer vm = new_Tracer p"
  shows "consistent (vm_value vm) [] vm" and "fresh_record vm" and "between 4 vm"
proof -
  have rec: "step_record (new_Tracer p) = default_StepRecord\<lparr>rec_cycle := 4\<rparr>"
    and last: "last_access (new_Tracer p) = (\<lambda>_. 0)"
    by (simp_all add: new_Tracer_def SUBCYCLES_PER_INSN_def last_access_def fun_eq_iff)
  show "consistent (vm_value vm) [] vm"
    using assms by (simp add: consistent_def rec last)
  show "fresh_record vm" using assms by (auto simp: fresh_record_def rec)
  show "between 4 vm" using assms by (simp add: between_def rec below_def last)
qed

text \<open>
  C6. The trace of a run is balanced: for every register and memory address, the (value, cycle)
  pairs its accesses read, with the final contents and the final cycle, are as a multiset the pairs
  its accesses write, with the initial contents at cycle 0. Memory operations must keep clear of the
  register addresses and a system call must not name an address twice.
\<close>

theorem run_trace_balanced:
  assumes "run_steps lib n vm = (Inr rs, vm')" and "length (vm_registers vm) = REG_COUNT"
    and "vm_tracer vm = new_Tracer p" and "\<forall>r \<in> set rs. memory_private r"
  shows "let xs = filter (\<lambda>x. acc_addr x = a) (concat (map record_accesses rs)) in
    mset (map (\<lambda>x. (acc_before x, acc_prev x)) xs) + {#(vm_value vm' a, last_access (vm_tracer vm') a)#} =
    mset (map (\<lambda>x. (acc_after x, acc_cycle x)) xs) + {#(vm_value vm a, 0)#}"
proof -
  have "fresh_record vm' \<and> consistent (vm_value vm) (concat (map record_accesses rs)) vm'"
    using run_consistent [OF assms(1)] consistent_start [OF assms(2,3)] assms(4) by blast
  then have "balanced (vm_value vm) (concat (map record_accesses rs)) (vm_value vm')
      (last_access (vm_tracer vm'))"
    by (auto simp: consistent_def fresh_record_def)
  then show ?thesis by (simp add: balanced_def Let_def)
qed

theorem run_trace_balanced_witness:
  "\<exists>rs vm'. run_steps demo_lib 6 demo_start = (Inr rs, vm') \<and> length rs = 5 \<and>
    (let xs = filter (\<lambda>x. acc_addr x = WordAddr 0x20000000) (concat (map record_accesses rs)) in
      mset (map (\<lambda>x. (acc_before x, acc_prev x)) xs) +
        {#(vm_value vm' (WordAddr 0x20000000), last_access (vm_tracer vm') (WordAddr 0x20000000))#} =
      mset (map (\<lambda>x. (acc_after x, acc_cycle x)) xs) + {#(vm_value demo_start (WordAddr 0x20000000), 0)#})"
proof (rule demo_run)
  fix rs vm assume r: "run_steps demo_lib 6 demo_start = (Inr rs, vm)" and l: "length rs = 5"
    and m: "\<forall>r \<in> set rs. memory_private r"
  show ?thesis
    using run_trace_balanced [OF r _ _ m, of "Some CENO_PLATFORM" "WordAddr 0x20000000"] r l
    by (intro exI conjI; simp add: REG_COUNT_def)
qed

text \<open>
  C7. In a run of fewer than \<open>2^62 - 2\<close> steps whose memory operations keep clear of the register
  addresses and whose system calls name no address twice (\<open>memory_private\<close>), the record of step \<open>i\<close>
  has cycle \<open>4 * (i + 1)\<close>, and every access of it has a previous cycle smaller than its own. A call that
  names an address twice does have an access whose previous cycle is its own.
\<close>

theorem run_trace_ordered:
  assumes "run_steps lib n vm = (Inr rs, vm')" and "length (vm_registers vm) = REG_COUNT"
    and "vm_tracer vm = new_Tracer p" and "\<forall>r \<in> set rs. memory_private r"
    and "n < 2 ^ 62 - 2" and "i < length rs"
  shows "unat (rec_cycle (rs ! i)) = 4 * (i + 1) \<and>
    (\<forall>x \<in> set (record_accesses (rs ! i)). acc_prev x < acc_cycle x)"
  using run_ordered [OF assms(1) _ assms(5,4)] consistent_start(3) [OF assms(2,3)] assms(6)
  by (auto simp: whole_record_def ordered_record_def)

theorem run_trace_ordered_witness:
  "\<exists>rs vm'. run_steps demo_lib 6 demo_start = (Inr rs, vm') \<and> unat (rec_cycle (rs ! 4)) = 20"
proof (rule demo_run)
  fix rs vm assume r: "run_steps demo_lib 6 demo_start = (Inr rs, vm)" and l: "length rs = 5"
    and m: "\<forall>r \<in> set rs. memory_private r"
  show ?thesis
    using run_trace_ordered [OF r _ _ m, of "Some CENO_PLATFORM" 4] r l
    by (auto simp: REG_COUNT_def)
qed

text \<open>
  C8. The trace of a run is a memory. For runs as in C7, replaying the accesses of the records in their
  order on the initial contents succeeds: each access reads the value its address holds and the
  cycle of the last access to it (0 if there is none), and the replay ends with the final contents and
  the tracer's last cycles.
\<close>

theorem run_trace_replays:
  assumes "run_steps lib n vm = (Inr rs, vm')" and "length (vm_registers vm) = REG_COUNT"
    and "vm_tracer vm = new_Tracer p" and "\<forall>r \<in> set rs. memory_private r" and "n < 2 ^ 62 - 2"
  shows "replay (vm_value vm) (\<lambda>_. 0) (concat (map record_accesses rs)) =
    Some (vm_value vm', last_access (vm_tracer vm'))"
proof -
  have start: "fresh_record vm" "consistent (vm_value vm) [] vm" "between 4 vm"
    using consistent_start [OF assms(2,3)] by simp_all
  have "fresh_record vm' \<and> consistent (vm_value vm) (concat (map record_accesses rs)) vm'"
    using run_consistent [OF assms(1) start(1,2) assms(4)] .
  then have "balanced (vm_value vm) (concat (map record_accesses rs)) (vm_value vm') (last_access (vm_tracer vm'))"
    by (auto simp: consistent_def fresh_record_def)
  then show ?thesis using run_accesses_sorted [OF assms(1) start(3) assms(5,4)] by (intro balanced_replay) auto
qed

theorem run_trace_replays_witness:
  "\<exists>rs vm'. run_steps demo_lib 6 demo_start = (Inr rs, vm') \<and> length rs = 5 \<and>
     replay (vm_value demo_start) (\<lambda>_. 0) (concat (map record_accesses rs)) =
       Some (vm_value vm', last_access (vm_tracer vm'))"
proof (rule demo_run)
  fix rs vm assume r: "run_steps demo_lib 6 demo_start = (Inr rs, vm)" and l: "length rs = 5"
    and m: "\<forall>r \<in> set rs. memory_private r"
  show ?thesis
    using run_trace_replays [OF r _ _ m, of "Some CENO_PLATFORM"] r l by (auto simp: REG_COUNT_def)
qed

text \<open>
  C9. The bounds the tracer keeps for the hints, the stack and the heap enclose, at the end of a run,
  every load and store address that falls into the region it is attributed to.
\<close>

theorem run_bounds_enclose:
  assumes "run_steps lib n (new_VMState plat prog) = (Inr rs, vm')"
    and "r \<in> set rs" and "rec_memory_op r = Some opn"
  shows "\<exists>m. mmio_min_max_access (vm_tracer vm') = Some m \<and>
    (case bt_upto (op_addr opn) m of None \<Rightarrow> True
     | Some (_, (_, en, mn, mx)) \<Rightarrow> op_addr opn < en \<longrightarrow> mn \<le> op_addr opn \<and> op_addr opn < mx)"
proof -
  have "fresh_record (new_VMState plat prog)"
    by (simp add: fresh_record_def new_Tracer_def) (auto simp: default_StepRecord_def)
  moreover have "mmio_min_max_access (vm_tracer (new_VMState plat prog)) = Some (mmio_regions plat)"
    by (simp add: new_Tracer_def)
  moreover have "bt_wf (mmio_regions plat)" by (simp add: mmio_regions_def del: bt_insert.simps)
  ultimately obtain m where "mmio_min_max_access (vm_tracer vm') = Some m"
    and "\<forall>a \<in> mem_addrs rs. covers m a"
    using run_bounds_cover [OF assms(1)] by blast
  moreover have "op_addr opn \<in> mem_addrs rs" using assms(2,3) by (force simp: mem_addrs_def)
  ultimately show ?thesis unfolding covers_def by blast
qed

lemma demo_run_memory:
  obtains rs vm where "run_steps demo_lib 6 demo_start = (Inr rs, vm)" and "length rs = 5"
    and "map_option op_addr (rec_memory_op (rs ! 2)) = Some (WordAddr 0x20000000)"
proof -
  have "case run_steps demo_lib 6 demo_start of
      (Inr rs, vm) \<Rightarrow> length rs = 5 \<and> map_option op_addr (rec_memory_op (rs ! 2)) = Some (WordAddr 0x20000000)
    | (Inl e, vm) \<Rightarrow> False"
    unfolding demo_start_eval six by (simp add: demo_simps)
  then show ?thesis by (auto split: prod.splits sum.splits intro: that)
qed

theorem run_bounds_enclose_witness:
  "\<exists>rs vm' m. run_steps demo_lib 6 demo_start = (Inr rs, vm') \<and>
    mmio_min_max_access (vm_tracer vm') = Some m \<and>
    (case bt_upto (WordAddr 0x20000000) m of None \<Rightarrow> True
     | Some (_, (_, en, mn, mx)) \<Rightarrow>
         WordAddr 0x20000000 < en \<longrightarrow> mn \<le> WordAddr 0x20000000 \<and> WordAddr 0x20000000 < mx)"
proof (rule demo_run_memory)
  fix rs vm assume r: "run_steps demo_lib 6 demo_start = (Inr rs, vm)" and l: "length rs = 5"
    and "map_option op_addr (rec_memory_op (rs ! 2)) = Some (WordAddr 0x20000000)"
  then obtain opn where o: "rec_memory_op (rs ! 2) = Some opn" "op_addr opn = WordAddr 0x20000000" by auto
  have "rs ! 2 \<in> set rs" using l by simp
  from run_bounds_enclose [OF r [unfolded demo_start_def] this o(1), unfolded o(2)] r show ?thesis by blast
qed


subsection \<open>System calls\<close>

text \<open>
  C10. Whatever a system call computes, applying its effects keeps every register and the halting
  flag, moves the pc to the next instruction, changes memory at the named addresses only, and the
  number of memory operations is the one its \<open>SyscallSpec\<close> declares.
\<close>

theorem syscall_frame:
  assumes "handle_syscall lib vm code = Inr e" and "apply_syscall e vm = (Inr u, vm')"
  shows "vm_registers vm' = vm_registers vm \<and> vm_pc vm' = vm_pc vm + 4 \<and> vm_halted vm' = vm_halted vm \<and>
    (\<forall>a. a \<notin> op_addr ` set (mem_ops (witness e)) \<longrightarrow> vm_peek_memory a vm' = vm_peek_memory a vm) \<and>
    length (mem_ops (witness e)) = mem_ops_count code"
  using apply_syscall_frame [OF handle_syscall_args [OF assms(1)] assms(2)]
    handle_syscall_count [OF assms(1)] by blast

text \<open>A machine about to call with both argument registers at the start of the heap.\<close>

definition call_start :: VMState where
  "call_start = (new_VMState CENO_PLATFORM demo_program)
     \<lparr>vm_registers := (replicate REG_COUNT 0)[reg_arg0 := 0x80000000, reg_arg1 := 0x80000000],
      vm_memory := [WordAddr 0x20000000 \<mapsto> 5]\<rparr>"

definition keccak_start :: VMState where
  "keccak_start = (new_VMState CENO_PLATFORM demo_program)
     \<lparr>vm_registers := (replicate REG_COUNT 0)[reg_arg0 := 0x80000000]\<rparr>"

lemma apply_syscall_runs:
  assumes "reads_args vm e" and "rec_syscall (step_record (vm_tracer vm)) = None"
  shows "\<exists>vm'. apply_syscall e vm = (Inr (), vm')"
proof -
  let ?m = "fold (\<lambda>(a, v). vm_init_memory a v) (iter_mem_values e) vm"
  from assms(1) obtain a0 a1 where "reg_arg0 < length (vm_registers vm)"
      "reg_arg1 < length (vm_registers vm)" "a0 = vm_registers vm ! reg_arg0"
      "a1 = vm_registers vm ! reg_arg1"
    and vals: "iter_reg_values e = [(reg_arg0, a0), (reg_arg1, a1)]" and pc: "next_pc e = None"
    by (auto simp: reads_args_def iter_reg_values_args)
  then have "write_registers (iter_reg_values e) ?m = (Inr (), ?m)"
    by (simp add: vals prog_simps vm_peek_register_def)
  moreover obtain w tr where fin: "finalize (witness e) (vm_tracer vm) = (w, tr)" by force
  moreover have "rec_syscall (step_record tr) = None"
    using fin assms(2) by (auto simp: finalize_def split: prod.splits dest!: finalize_ops_frame)
  ultimately show ?thesis
    by (simp add: apply_syscall_def prog_simps vm_set_pc_def pc with_tracer_def track_syscall_def)
qed

lemma eight: "[0..<8] = [0, 1, 2, 3, 4, 5, 6, 7 :: nat]"
  by (simp add: upt_rec)

lemma length_chunks_exact: "0 < n \<Longrightarrow> length (chunks_exact n xs) = length xs div n"
proof (induction n xs rule: chunks_exact.induct)
  case (1 n xs)
  then show ?case
    by (subst chunks_exact.simps) (auto simp: div_if le_div_geq)
qed

lemma length_words_from_bytes: "length (words_from_bytes bs) = length bs div 4"
  by (simp add: words_from_bytes_def length_chunks_exact)

lemma view_mem_ops_length:
  assumes "writes v = Some ws" and "length ws = view_length v"
  shows "length (view_mem_ops vm v) = view_length v"
  using assms by (simp add: view_mem_ops_def)

lemma view_mem_ops_length_read: "writes v = None \<Longrightarrow> length (view_mem_ops vm v) = view_length v"
  by (simp add: view_mem_ops_def)

lemmas mul_eval = bn254_fp_mul_def bn254_fptower_binary_op_def two_segment_call_def
  vm_peek_register_def REG_COUNT_def reg_arg0_def reg_arg1_def new_MemoryView_def WORD_SIZE_def
  BN254_FP_WORDS_def bn254_fp_from_words_def bn254_fp_into_words_def demo_lib_def view_write_def
  Let_def view_mem_ops_length view_mem_ops_length_read length_words_from_bytes assert_eq_def

lemmas syscall_codes = KECCAK_PERMUTE_def SECP256K1_ADD_def SECP256K1_DOUBLE_def
  SECP256K1_DECOMPRESS_def SHA_EXTEND_def BN254_ADD_def BN254_DOUBLE_def BN254_FP_ADD_def
  BN254_FP_MUL_def BN254_FP2_ADD_def BN254_FP2_MUL_def

lemma call_start_mul: "\<exists>e. handle_syscall demo_lib call_start BN254_FP_MUL = Inr e"
proof -
  have "handle_syscall demo_lib call_start BN254_FP_MUL = bn254_fp_mul demo_lib call_start"
    by (simp add: handle_syscall_def syscall_codes)
  moreover have "\<exists>e. bn254_fp_mul demo_lib call_start = Inr e"
    by (simp add: mul_eval call_start_def)
  ultimately show ?thesis by simp
qed

theorem syscall_frame_witness:
  "\<exists>e vm'. handle_syscall demo_lib call_start BN254_FP_MUL = Inr e \<and>
     apply_syscall e call_start = (Inr (), vm') \<and> vm_registers vm' = vm_registers call_start \<and>
     length (mem_ops (witness e)) = 16"
proof -
  obtain e where e: "handle_syscall demo_lib call_start BN254_FP_MUL = Inr e"
    using call_start_mul by blast
  have "rec_syscall (step_record (vm_tracer call_start)) = None"
    by (simp add: call_start_def new_Tracer_def default_StepRecord_def)
  then obtain vm' where a: "apply_syscall e call_start = (Inr (), vm')"
    using apply_syscall_runs [OF handle_syscall_args [OF e]] by blast
  from syscall_frame [OF e a] e a show ?thesis
    by (auto simp: mem_ops_count_def BN254_FP_WORDS_def syscall_codes)
qed

text \<open>
  C11. A binary call whose two pointers are equal leaves memory as it was: the words of the second
  segment, read before the call, are written back over the result. So \<open>x * x\<close> computed in place
  by \<open>BN254_FP_MUL\<close>, or a sum or product of a value with itself by the other binary calls, is lost.
\<close>

theorem aliased_call_discards_result:
  assumes "handle_syscall lib vm code = Inr e" and "apply_syscall e vm = (Inr u, vm')"
    and "code \<in> {SECP256K1_ADD, BN254_ADD, BN254_FP_ADD, BN254_FP_MUL, BN254_FP2_ADD, BN254_FP2_MUL}"
    and "vm_registers vm ! reg_arg0 = vm_registers vm ! reg_arg1"
  shows "vm_peek_memory a vm' = vm_peek_memory a vm"
proof -
  have "\<exists>len f. two_segment_call len f vm = Inr e"
    using assms(1,3)
    by (auto simp: handle_syscall_def syscall_codes secp256k1_add_def bn254_add_def
        bn254_fp_add_def bn254_fp_mul_def bn254_fp2_add_def bn254_fp2_mul_def bn254_fptower_binary_op_def)
      ((rule exI)+, assumption)+
  then show ?thesis using aliased_segments_effect [OF _ assms(2,4)] by blast
qed

theorem aliased_call_discards_result_witness:
  "\<exists>e vm'. handle_syscall demo_lib call_start BN254_FP_MUL = Inr e \<and>
     apply_syscall e call_start = (Inr (), vm') \<and>
     bn254_fp_into_words demo_lib (fq_mul demo_lib () ()) ! 0 = 0 \<and>
     vm_peek_memory (WordAddr 0x20000000) vm' = 5"
proof -
  obtain e where e: "handle_syscall demo_lib call_start BN254_FP_MUL = Inr e"
    using call_start_mul by blast
  have "rec_syscall (step_record (vm_tracer call_start)) = None"
    by (simp add: call_start_def new_Tracer_def default_StepRecord_def)
  then obtain vm' where a: "apply_syscall e call_start = (Inr (), vm')"
    using apply_syscall_runs [OF handle_syscall_args [OF e]] by blast
  have "vm_peek_memory (WordAddr 0x20000000) vm' = vm_peek_memory (WordAddr 0x20000000) call_start"
    by (rule aliased_call_discards_result [OF e a]) (simp_all add: call_start_def REG_COUNT_def reg_arg0_def reg_arg1_def)
  moreover have "vm_peek_memory (WordAddr 0x20000000) call_start = 5"
    by (simp add: call_start_def vm_peek_memory_def)
  moreover have "bn254_fp_into_words demo_lib (fq_mul demo_lib () ()) ! 0 = 0"
    by (simp add: bn254_fp_into_words_def demo_lib_def words_from_bytes_def chunks_exact.simps
        from_le_bytes_def numeral_eq_Suc)
  ultimately show ?thesis using e a by metis
qed

text \<open>
  With disjoint segments a prime-field multiplication of \<open>bn254\<close> leaves the words of the
  product in the first one and changes nothing else.
\<close>

theorem bn254_fp_mul_writes_product:
  assumes "bn254_fp_mul lib vm = Inr e" and "apply_syscall e vm = (Inr u, vm')"
    and "bn254_fp_from_words lib (segment BN254_FP_WORDS (vm_registers vm ! reg_arg0) vm) = Inr p"
    and "bn254_fp_from_words lib (segment BN254_FP_WORDS (vm_registers vm ! reg_arg1) vm) = Inr q"
    and "length (fq_to_big_endian lib (fq_mul lib p q)) = 32"
    and "set (segment_addrs BN254_FP_WORDS (vm_registers vm ! reg_arg0)) \<inter>
      set (segment_addrs BN254_FP_WORDS (vm_registers vm ! reg_arg1)) = {}"
  shows "segment BN254_FP_WORDS (vm_registers vm ! reg_arg0) vm' =
      bn254_fp_into_words lib (fq_mul lib p q) \<and>
    (\<forall>a. a \<notin> set (segment_addrs BN254_FP_WORDS (vm_registers vm ! reg_arg0)) \<longrightarrow>
      vm_peek_memory a vm' = vm_peek_memory a vm)"
proof -
  have call: "two_segment_call BN254_FP_WORDS (\<lambda>pws qws. bindE (bn254_fp_from_words lib pws) (\<lambda>p.
      bindE (bn254_fp_from_words lib qws) (\<lambda>q. Inr (bn254_fp_into_words lib (fq_mul lib p q))))) vm = Inr e"
    using assms(1) by (simp add: bn254_fp_mul_def bn254_fptower_binary_op_def)
  have "length (bn254_fp_into_words lib (fq_mul lib p q)) = BN254_FP_WORDS"
    using assms(5) by (simp add: bn254_fp_into_words_def length_words_from_bytes BN254_FP_WORDS_def)
  then show ?thesis
    using two_segment_effect [OF call assms(2) _ assms(6)] assms(3,4) by (simp add: BN254_FP_WORDS_def)
qed

definition mul_start :: VMState where
  "mul_start = (new_VMState CENO_PLATFORM demo_program)
     \<lparr>vm_registers := (replicate REG_COUNT 0)[reg_arg0 := 0x80000000, reg_arg1 := 0x80001000]\<rparr>"

theorem bn254_fp_mul_writes_product_witness:
  "\<exists>e vm'. bn254_fp_mul demo_lib mul_start = Inr e \<and> apply_syscall e mul_start = (Inr (), vm') \<and>
     segment 8 0x80000000 vm' = bn254_fp_into_words demo_lib ()"
proof -
  obtain e where e: "bn254_fp_mul demo_lib mul_start = Inr e"
    by (simp add: mul_eval mul_start_def)
  then have "reads_args mul_start e"
    unfolding bn254_fp_mul_def bn254_fptower_binary_op_def by (rule two_segment_args)
  moreover have "rec_syscall (step_record (vm_tracer mul_start)) = None"
    by (simp add: mul_start_def new_Tracer_def default_StepRecord_def)
  ultimately obtain vm' where a: "apply_syscall e mul_start = (Inr (), vm')"
    using apply_syscall_runs by blast
  have regs: "vm_registers mul_start ! reg_arg0 = 0x80000000" "vm_registers mul_start ! reg_arg1 = 0x80001000"
    by (simp_all add: mul_start_def REG_COUNT_def reg_arg0_def reg_arg1_def)
  have "segment BN254_FP_WORDS (vm_registers mul_start ! reg_arg0) vm' =
      bn254_fp_into_words demo_lib (fq_mul demo_lib () ()) \<and>
    (\<forall>a. a \<notin> set (segment_addrs BN254_FP_WORDS (vm_registers mul_start ! reg_arg0)) \<longrightarrow>
      vm_peek_memory a vm' = vm_peek_memory a mul_start)"
    by (rule bn254_fp_mul_writes_product [OF e a])
      (auto simp: bn254_fp_from_words_def demo_lib_def regs segment_addrs_def word_addrs_from_def
        word_addr_from_u32_def waddr_def WORD_SIZE_def BN254_FP_WORDS_def eight)
  with e a regs show ?thesis by (auto simp: BN254_FP_WORDS_def demo_lib_def)
qed


text \<open>
  C13. A Keccak call replaces the fifty words at its pointer by the permuted state, packed low word
  first, and changes nothing else.
\<close>

theorem keccak_call_permutes:
  assumes "keccak_permute lib vm = Inr e" and "apply_syscall e vm = (Inr u, vm')"
    and "\<And>st. length st = 25 \<Longrightarrow> length (lib_keccakf lib st) = 25"
  shows "keccak_state_from_words (segment KECCAK_WORDS (vm_registers vm ! reg_arg0) vm') =
      lib_keccakf lib (keccak_state_from_words (segment KECCAK_WORDS (vm_registers vm ! reg_arg0) vm)) \<and>
    (\<forall>a. a \<notin> set (segment_addrs KECCAK_WORDS (vm_registers vm ! reg_arg0)) \<longrightarrow>
      vm_peek_memory a vm' = vm_peek_memory a vm)"
proof -
  let ?seg = "segment KECCAK_WORDS (vm_registers vm ! reg_arg0) vm"
  let ?out = "lib_keccakf lib (keccak_state_from_words ?seg)"
  have into_len: "length (keccak_state_into_words st) = 2 * length st" for st
    by (induction st) (simp_all add: keccak_state_into_words_def)
  have "length (keccak_state_from_words ?seg) = 25"
    by (simp add: keccak_state_from_words_def length_chunks_exact KECCAK_WORDS_def KECCAK_CELLS_def)
  then have "length (keccak_state_into_words ?out) = KECCAK_WORDS"
    using assms(3) by (simp add: into_len KECCAK_WORDS_def KECCAK_CELLS_def)
  from one_segment_effect [OF assms(1) [unfolded keccak_permute_def] assms(2) _ refl this]
  show ?thesis by (simp add: keccak_from_into KECCAK_WORDS_def KECCAK_CELLS_def)
qed

theorem keccak_call_permutes_witness:
  "\<exists>e vm'. keccak_permute demo_lib keccak_start = Inr e \<and> apply_syscall e keccak_start = (Inr (), vm') \<and>
     keccak_state_from_words (segment 50 0x80000000 vm') =
     keccak_state_from_words (segment 50 0x80000000 keccak_start)"
proof -
  have len: "length (keccak_state_into_words (keccak_state_from_words (segment 50 ptr vm))) = 50" for ptr vm
    using keccak_into_from [of "segment 50 ptr vm"] by simp
  obtain e where e: "keccak_permute demo_lib keccak_start = Inr e"
    by (simp add: keccak_permute_def one_segment_call_def vm_peek_register_def keccak_start_def
        REG_COUNT_def reg_arg0_def reg_arg1_def new_MemoryView_def WORD_SIZE_def demo_lib_def
        view_write_def view_mem_ops_length assert_eq_def KECCAK_WORDS_def KECCAK_CELLS_def len)
  then have "reads_args keccak_start e" unfolding keccak_permute_def by (rule one_segment_args)
  moreover have "rec_syscall (step_record (vm_tracer keccak_start)) = None"
    by (simp add: keccak_start_def new_Tracer_def default_StepRecord_def)
  ultimately obtain vm' where a: "apply_syscall e keccak_start = (Inr (), vm')"
    using apply_syscall_runs by blast
  have "vm_registers keccak_start ! reg_arg0 = 0x80000000"
    by (simp add: keccak_start_def REG_COUNT_def reg_arg0_def)
  with keccak_call_permutes [OF e a] e a show ?thesis
    by (auto simp: demo_lib_def KECCAK_WORDS_def KECCAK_CELLS_def)
qed

text \<open>
  C14. The 32-bit words a Keccak state is stored as determine it and are determined by it.
\<close>

theorem keccak_state_roundtrip:
  "keccak_state_from_words (keccak_state_into_words st) = st \<and>
   (length ws = 50 \<longrightarrow> keccak_state_into_words (keccak_state_from_words ws) = ws)"
  by (simp add: keccak_from_into keccak_into_from)

theorem keccak_state_roundtrip_witness:
  "keccak_state_into_words (keccak_state_from_words (replicate 50 7)) = replicate 50 7"
  using keccak_state_roundtrip [of "[]" "replicate 50 7"] by simp

text \<open>
  C15. The in-place loop of \<open>sha_extend\<close> computes the SHA-256 message schedule, every word from the
  recurrence of the standard.
\<close>

theorem sha_extend_computes_schedule:
  assumes "length w = 64" and "i < 64"
  shows "sha_extend w ! i = sha_schedule w i"
  using sha_extend_schedule [OF assms(1)] assms(2) by blast

theorem sha_extend_computes_schedule_witness:
  "sha_extend (replicate 64 1) ! 16 = sha_schedule (replicate 64 1) 16"
  by (rule sha_extend_computes_schedule) simp_all

subsection \<open>The platform\<close>

text \<open>
  C16. A validated platform attributes every address to at most one of its five regions.
\<close>

theorem validate_sound:
  assumes "validate p"
  shows "\<not> (is_rom p a \<and> range_contains (stack p) a) \<and> \<not> (is_rom p a \<and> range_contains (heap p) a) \<and>
    \<not> (is_rom p a \<and> is_pub_io p a) \<and> \<not> (is_rom p a \<and> is_hints p a) \<and>
    \<not> (range_contains (stack p) a \<and> range_contains (heap p) a) \<and>
    \<not> (range_contains (stack p) a \<and> is_pub_io p a) \<and> \<not> (range_contains (stack p) a \<and> is_hints p a) \<and>
    \<not> (range_contains (heap p) a \<and> is_pub_io p a) \<and> \<not> (range_contains (heap p) a \<and> is_hints p a) \<and>
    \<not> (is_pub_io p a \<and> is_hints p a)"
  using validate_unique [OF assms, of a]
  by (auto simp: platform_ranges_def is_rom_def is_pub_io_def is_hints_def split: if_splits)

definition small_heap_platform :: Platform where
  "small_heap_platform = CENO_PLATFORM\<lparr>heap := \<lparr>rng_start = 0x80000000, rng_end = 0x90000000\<rparr>\<rparr>"

theorem validate_sound_witness:
  "validate small_heap_platform \<and> \<not> (is_rom small_heap_platform 0x20000000 \<and> is_hints small_heap_platform 0x20000000)"
proof -
  have "validate small_heap_platform"
    by (simp add: validate_def small_heap_platform_def CENO_PLATFORM_def platform_ranges_def)
  from validate_sound [OF this] this show ?thesis by blast
qed

text \<open>
  The constant \<open>CENO_PLATFORM\<close> is not a valid platform: its heap contains its stack.
\<close>

theorem default_platform_overlaps:
  "\<not> validate CENO_PLATFORM \<and>
   (\<forall>a. range_contains (stack CENO_PLATFORM) a \<longrightarrow> range_contains (heap CENO_PLATFORM) a)"
proof
  show "\<not> validate CENO_PLATFORM"
    by (simp add: validate_def CENO_PLATFORM_def platform_ranges_def)
  show "\<forall>a. range_contains (stack CENO_PLATFORM) a \<longrightarrow> range_contains (heap CENO_PLATFORM) a"
    by (auto simp: CENO_PLATFORM_def range_contains_def word_le_nat_alt word_less_nat_alt)
qed

theorem default_platform_overlaps_witness:
  "range_contains (heap CENO_PLATFORM) 0xB0000000"
  using default_platform_overlaps by (simp add: CENO_PLATFORM_def range_contains_def)

end
