(* ===== verification/Elf.thy ===== *)
theory Elf
  imports Machine Isa
begin

text \<open>
  Loading a program: the transpiler from encoded to decoded instructions
  (\<open>ceno_emul/src/disassemble/mod.rs\<close>) and the ELF loader (\<open>ceno_emul/src/elf.rs\<close>). The decoder of
  the crate \<open>rrs_lib\<close> and the parser of the crate \<open>elf\<close> are parameters: the decoder maps a word to
  the \<open>InstructionProcessor\<close> method it calls with its operands, the parser maps bytes to headers.
\<close>

subsection \<open>The decoder's callbacks\<close>

record r_type = r_rs1 :: usize  r_rs2 :: usize  r_rd :: usize
record i_type = i_imm :: i32  i_rs1 :: usize  i_rd :: usize
record i_type_shamt = sh_shamt :: u32  sh_rs1 :: usize  sh_rd :: usize
record s_type = s_imm :: i32  s_rs1 :: usize  s_rs2 :: usize
record b_type = b_imm :: i32  b_rs1 :: usize  b_rs2 :: usize
record u_type = u_imm :: i32  u_rd :: usize
record j_type = j_imm :: i32  j_rd :: usize

datatype callback =
    Process_add r_type | Process_addi i_type | Process_sub r_type | Process_xor r_type
  | Process_xori i_type | Process_or r_type | Process_ori i_type | Process_and r_type
  | Process_andi i_type | Process_sll r_type | Process_slli i_type_shamt | Process_srl r_type
  | Process_srli i_type_shamt | Process_sra r_type | Process_srai i_type_shamt
  | Process_slt r_type | Process_slti i_type | Process_sltu r_type | Process_sltui i_type
  | Process_lb i_type | Process_lh i_type | Process_lw i_type | Process_lbu i_type | Process_lhu i_type
  | Process_sb s_type | Process_sh s_type | Process_sw s_type
  | Process_beq b_type | Process_bne b_type | Process_blt b_type | Process_bge b_type
  | Process_bltu b_type | Process_bgeu b_type
  | Process_jal j_type | Process_jalr i_type | Process_lui u_type | Process_auipc u_type
  | Process_ecall | Process_ebreak
  | Process_mul r_type | Process_mulh r_type | Process_mulhu r_type | Process_mulhsu r_type
  | Process_div r_type | Process_divu r_type | Process_rem r_type | Process_remu r_type
  | Process_csrrc | Process_csrrci | Process_csrrs | Process_csrrsi | Process_csrrw | Process_csrrwi
  | Process_fence | Process_mret | Process_wfi

definition from_r_type :: "InsnKind \<Rightarrow> r_type \<Rightarrow> u32 \<Rightarrow> Instruction" where
  "from_r_type knd d raw =
     \<lparr>insn_kind = knd, insn_rs1 = r_rs1 d, insn_rs2 = r_rs2 d, insn_rd = r_rd d, insn_imm = 0, insn_raw = raw\<rparr>"

definition from_i_type :: "InsnKind \<Rightarrow> i_type \<Rightarrow> u32 \<Rightarrow> Instruction" where
  "from_i_type knd d raw =
     \<lparr>insn_kind = knd, insn_rs1 = i_rs1 d, insn_rs2 = 0, insn_rd = i_rd d, insn_imm = i_imm d, insn_raw = raw\<rparr>"

definition from_i_type_shamt :: "InsnKind \<Rightarrow> i_type_shamt \<Rightarrow> u32 \<Rightarrow> Instruction" where
  "from_i_type_shamt knd d raw =
     \<lparr>insn_kind = knd, insn_rs1 = sh_rs1 d, insn_rs2 = 0, insn_rd = sh_rd d, insn_imm = sh_shamt d, insn_raw = raw\<rparr>"

definition from_s_type :: "InsnKind \<Rightarrow> s_type \<Rightarrow> u32 \<Rightarrow> Instruction" where
  "from_s_type knd d raw =
     \<lparr>insn_kind = knd, insn_rs1 = s_rs1 d, insn_rs2 = s_rs2 d, insn_rd = 0, insn_imm = s_imm d, insn_raw = raw\<rparr>"

definition from_b_type :: "InsnKind \<Rightarrow> b_type \<Rightarrow> u32 \<Rightarrow> Instruction" where
  "from_b_type knd d raw =
     \<lparr>insn_kind = knd, insn_rs1 = b_rs1 d, insn_rs2 = b_rs2 d, insn_rd = 0, insn_imm = b_imm d, insn_raw = raw\<rparr>"

definition unimp :: "u32 \<Rightarrow> Instruction" where
  "unimp raw =
     \<lparr>insn_kind = INVALID, insn_rs1 = 0, insn_rs2 = 0, insn_rd = 0, insn_imm = 0, insn_raw = raw\<rparr>"

text \<open>The instruction whose only operands are \<open>rd\<close>, \<open>rs1\<close> and an immediate.\<close>

definition imm_instruction :: "InsnKind \<Rightarrow> usize \<Rightarrow> usize \<Rightarrow> i32 \<Rightarrow> u32 \<Rightarrow> Instruction" where
  "imm_instruction knd rd rs1 imm raw =
     \<lparr>insn_kind = knd, insn_rs1 = rs1, insn_rs2 = 0, insn_rd = rd, insn_imm = imm, insn_raw = raw\<rparr>"

subsection \<open>The transpiler\<close>

fun process_callback :: "u32 \<Rightarrow> u32 \<Rightarrow> callback \<Rightarrow> emu_error + Instruction" where
  "process_callback pc word (Process_add d) = Inr (from_r_type ADD d word)"
| "process_callback pc word (Process_addi d) = Inr (from_i_type ADDI d word)"
| "process_callback pc word (Process_sub d) = Inr (from_r_type SUB d word)"
| "process_callback pc word (Process_xor d) = Inr (from_r_type XOR_K d word)"
| "process_callback pc word (Process_xori d) = Inr (from_i_type XORI d word)"
| "process_callback pc word (Process_or d) = Inr (from_r_type OR_K d word)"
| "process_callback pc word (Process_ori d) = Inr (from_i_type ORI d word)"
| "process_callback pc word (Process_and d) = Inr (from_r_type AND_K d word)"
| "process_callback pc word (Process_andi d) = Inr (from_i_type ANDI d word)"
| "process_callback pc word (Process_sll d) = Inr (from_r_type SLL d word)"
| "process_callback pc word (Process_slli d) = Inr (from_i_type_shamt SLLI d word)"
| "process_callback pc word (Process_srl d) = Inr (from_r_type SRL d word)"
| "process_callback pc word (Process_srli d) = Inr (from_i_type_shamt SRLI d word)"
| "process_callback pc word (Process_sra d) = Inr (from_r_type SRA d word)"
| "process_callback pc word (Process_srai d) = Inr (from_i_type_shamt SRAI d word)"
| "process_callback pc word (Process_slt d) = Inr (from_r_type SLT d word)"
| "process_callback pc word (Process_slti d) = Inr (from_i_type SLTI d word)"
| "process_callback pc word (Process_sltu d) = Inr (from_r_type SLTU d word)"
| "process_callback pc word (Process_sltui d) = Inr (from_i_type SLTIU d word)"
| "process_callback pc word (Process_lb d) = Inr (from_i_type LB d word)"
| "process_callback pc word (Process_lh d) = Inr (from_i_type LH d word)"
| "process_callback pc word (Process_lw d) = Inr (from_i_type LW d word)"
| "process_callback pc word (Process_lbu d) = Inr (from_i_type LBU d word)"
| "process_callback pc word (Process_lhu d) = Inr (from_i_type LHU d word)"
| "process_callback pc word (Process_sb d) = Inr (from_s_type SB d word)"
| "process_callback pc word (Process_sh d) = Inr (from_s_type SH d word)"
| "process_callback pc word (Process_sw d) = Inr (from_s_type SW d word)"
| "process_callback pc word (Process_beq d) = Inr (from_b_type BEQ d word)"
| "process_callback pc word (Process_bne d) = Inr (from_b_type BNE d word)"
| "process_callback pc word (Process_blt d) = Inr (from_b_type BLT d word)"
| "process_callback pc word (Process_bge d) = Inr (from_b_type BGE d word)"
| "process_callback pc word (Process_bltu d) = Inr (from_b_type BLTU d word)"
| "process_callback pc word (Process_bgeu d) = Inr (from_b_type BGEU d word)"
| "process_callback pc word (Process_jal d) = Inr (imm_instruction JAL (j_rd d) 0 (j_imm d) word)"
| "process_callback pc word (Process_jalr d) =
     Inr (imm_instruction JALR (i_rd d) (i_rs1 d) (i_imm d) word)"
| "process_callback pc word (Process_lui d) =
     (if u_imm d AND 0xfff = 0 then Inr (imm_instruction ADDI (u_rd d) 0 (u_imm d) word)
      else Inl (Panic ''dec_insn.imm & 0xfff''))"
| "process_callback pc word (Process_auipc d) =
     (if u_imm d AND 0xfff = 0 then Inr (imm_instruction ADDI (u_rd d) 0 (u_imm d + pc) word)
      else Inl (Panic ''dec_insn.imm & 0xfff''))"
| "process_callback pc word Process_ecall = Inr (imm_instruction ECALL 0 0 0 word)"
| "process_callback pc word (Process_mul d) = Inr (from_r_type MUL d word)"
| "process_callback pc word (Process_mulh d) = Inr (from_r_type MULH d word)"
| "process_callback pc word (Process_mulhu d) = Inr (from_r_type MULHU d word)"
| "process_callback pc word (Process_mulhsu d) = Inr (from_r_type MULHSU d word)"
| "process_callback pc word (Process_div d) = Inr (from_r_type DIV d word)"
| "process_callback pc word (Process_divu d) = Inr (from_r_type DIVU d word)"
| "process_callback pc word (Process_rem d) = Inr (from_r_type REM d word)"
| "process_callback pc word (Process_remu d) = Inr (from_r_type REMU d word)"
| "process_callback pc word _ = Inr (unimp word)"

text \<open>\<open>unwrap_or\<close>: a word the decoder rejects becomes an invalid instruction.\<close>

definition transpile_word :: "(u32 \<Rightarrow> callback option) \<Rightarrow> u32 \<Rightarrow> u32 \<Rightarrow> emu_error + Instruction" where
  "transpile_word decode pc word =
     (case decode word of None \<Rightarrow> Inr (unimp word) | Some cb \<Rightarrow> process_callback pc word cb)"

fun transpile :: "(u32 \<Rightarrow> callback option) \<Rightarrow> u32 \<Rightarrow> u32 list \<Rightarrow> emu_error + Instruction list" where
  "transpile decode base [] = Inr []"
| "transpile decode base (word # ws) =
     bindE (transpile_word decode base word) (\<lambda>insn.
     bindE (transpile decode (base + 4) ws) (\<lambda>insns. Inr (insn # insns)))"

lemma transpile_length: "transpile decode base ws = Inr insns \<Longrightarrow> length insns = length ws"
  by (induction decode base ws arbitrary: insns rule: transpile.induct) (auto simp: bindE_success)

lemma transpile_nth:
  "transpile decode base ws = Inr insns \<Longrightarrow> i < length ws \<Longrightarrow>
   transpile_word decode (base + of_nat (4 * i)) (ws ! i) = Inr (insns ! i)"
proof (induction decode base ws arbitrary: insns i rule: transpile.induct)
  case (2 decode base word ws)
  then show ?case by (cases i) (auto simp: bindE_success algebra_simps)
qed simp

text \<open>The decoder promises register fields of five bits and U-type immediates with twelve low zero bits.\<close>

fun callback_registers :: "callback \<Rightarrow> usize list" where
  "callback_registers (Process_add d) = [r_rs1 d, r_rs2 d, r_rd d]"
| "callback_registers (Process_sub d) = [r_rs1 d, r_rs2 d, r_rd d]" | "callback_registers (Process_xor d) = [r_rs1 d, r_rs2 d, r_rd d]"
| "callback_registers (Process_or d) = [r_rs1 d, r_rs2 d, r_rd d]" | "callback_registers (Process_and d) = [r_rs1 d, r_rs2 d, r_rd d]"
| "callback_registers (Process_sll d) = [r_rs1 d, r_rs2 d, r_rd d]" | "callback_registers (Process_srl d) = [r_rs1 d, r_rs2 d, r_rd d]"
| "callback_registers (Process_sra d) = [r_rs1 d, r_rs2 d, r_rd d]" | "callback_registers (Process_slt d) = [r_rs1 d, r_rs2 d, r_rd d]"
| "callback_registers (Process_sltu d) = [r_rs1 d, r_rs2 d, r_rd d]" | "callback_registers (Process_mul d) = [r_rs1 d, r_rs2 d, r_rd d]"
| "callback_registers (Process_mulh d) = [r_rs1 d, r_rs2 d, r_rd d]" | "callback_registers (Process_mulhu d) = [r_rs1 d, r_rs2 d, r_rd d]"
| "callback_registers (Process_mulhsu d) = [r_rs1 d, r_rs2 d, r_rd d]" | "callback_registers (Process_div d) = [r_rs1 d, r_rs2 d, r_rd d]"
| "callback_registers (Process_divu d) = [r_rs1 d, r_rs2 d, r_rd d]" | "callback_registers (Process_rem d) = [r_rs1 d, r_rs2 d, r_rd d]"
| "callback_registers (Process_remu d) = [r_rs1 d, r_rs2 d, r_rd d]" | "callback_registers (Process_addi d) = [i_rs1 d, i_rd d]"
| "callback_registers (Process_xori d) = [i_rs1 d, i_rd d]" | "callback_registers (Process_ori d) = [i_rs1 d, i_rd d]"
| "callback_registers (Process_andi d) = [i_rs1 d, i_rd d]" | "callback_registers (Process_slti d) = [i_rs1 d, i_rd d]"
| "callback_registers (Process_sltui d) = [i_rs1 d, i_rd d]" | "callback_registers (Process_lb d) = [i_rs1 d, i_rd d]"
| "callback_registers (Process_lh d) = [i_rs1 d, i_rd d]" | "callback_registers (Process_lw d) = [i_rs1 d, i_rd d]"
| "callback_registers (Process_lbu d) = [i_rs1 d, i_rd d]" | "callback_registers (Process_lhu d) = [i_rs1 d, i_rd d]"
| "callback_registers (Process_jalr d) = [i_rs1 d, i_rd d]" | "callback_registers (Process_slli d) = [sh_rs1 d, sh_rd d]"
| "callback_registers (Process_srli d) = [sh_rs1 d, sh_rd d]" | "callback_registers (Process_srai d) = [sh_rs1 d, sh_rd d]"
| "callback_registers (Process_sb d) = [s_rs1 d, s_rs2 d]" | "callback_registers (Process_sh d) = [s_rs1 d, s_rs2 d]"
| "callback_registers (Process_sw d) = [s_rs1 d, s_rs2 d]" | "callback_registers (Process_beq d) = [b_rs1 d, b_rs2 d]"
| "callback_registers (Process_bne d) = [b_rs1 d, b_rs2 d]" | "callback_registers (Process_blt d) = [b_rs1 d, b_rs2 d]"
| "callback_registers (Process_bge d) = [b_rs1 d, b_rs2 d]" | "callback_registers (Process_bltu d) = [b_rs1 d, b_rs2 d]"
| "callback_registers (Process_bgeu d) = [b_rs1 d, b_rs2 d]" | "callback_registers (Process_jal d) = [j_rd d]"
| "callback_registers (Process_lui d) = [u_rd d]" | "callback_registers (Process_auipc d) = [u_rd d]"
| "callback_registers _ = []"

fun upper_immediate_ok :: "callback \<Rightarrow> bool" where
  "upper_immediate_ok (Process_lui d) \<longleftrightarrow> u_imm d AND 0xfff = 0"
| "upper_immediate_ok (Process_auipc d) \<longleftrightarrow> u_imm d AND 0xfff = 0"
| "upper_immediate_ok _ \<longleftrightarrow> True"

definition decoder_ok :: "(u32 \<Rightarrow> callback option) \<Rightarrow> bool" where
  "decoder_ok decode \<longleftrightarrow> (\<forall>w cb. decode w = Some cb \<longrightarrow>
     upper_immediate_ok cb \<and> (\<forall>r \<in> set (callback_registers cb). r < 32))"

lemma process_callback_wf:
  "upper_immediate_ok cb \<Longrightarrow> \<forall>r \<in> set (callback_registers cb). r < 32 \<Longrightarrow>
   \<exists>insn. process_callback pc w cb = Inr insn \<and> wf_insn insn"
  by (cases cb) (simp_all add: wf_insn_def from_r_type_def from_i_type_def from_i_type_shamt_def
      from_s_type_def from_b_type_def imm_instruction_def unimp_def)

lemma transpile_word_total:
  "decoder_ok decode \<Longrightarrow> \<exists>insn. transpile_word decode pc w = Inr insn \<and> wf_insn insn"
  by (cases "decode w") (auto simp: transpile_word_def decoder_ok_def intro: process_callback_wf,
      simp add: unimp_def wf_insn_def)

lemma transpile_total:
  "decoder_ok decode \<Longrightarrow> \<exists>insns. transpile decode base ws = Inr insns \<and> (\<forall>insn \<in> set insns. wf_insn insn)"
proof (induction ws arbitrary: base)
  case (Cons w ws)
  from transpile_word_total [OF Cons.prems] obtain insn where "transpile_word decode base w = Inr insn" "wf_insn insn"
    by blast
  with Cons.IH [OF Cons.prems, of "base + 4"] show ?case by auto
qed simp


subsection \<open>ELF files\<close>

text \<open>
  What \<open>ElfBytes::minimal_parse\<close>, \<open>segments\<close> and \<open>symbol_table\<close> return. A symbol is the lookup of
  its name (\<open>None\<close> when the string table has none) and its value.
\<close>

record elf_segment =
  p_type :: u32
  p_flags :: u32
  p_offset :: u64
  p_vaddr :: u64
  p_filesz :: u64
  p_memsz :: u64

record elf_file =
  is_elf32 :: bool
  e_machine :: "16 word"
  e_type :: "16 word"
  e_entry :: u64
  elf_segments :: "elf_segment list option"
  elf_symbols :: "unit + (string option \<times> u64) list option"

datatype load_error = Bail string | LoadPanic emu_error

definition EM_RISCV :: "16 word" where "EM_RISCV = 243"
definition ET_EXEC :: "16 word" where "ET_EXEC = 2"
definition PT_LOAD :: u32 where "PT_LOAD = 1"
definition PF_X :: u32 where "PF_X = 1"

definition bail_if :: "bool \<Rightarrow> string \<Rightarrow> load_error + unit" where
  "bail_if b msg = (if b then Inl (Bail msg) else Inr ())"

definition load_assert :: "bool \<Rightarrow> load_error + unit" where
  "load_assert b = (if b then Inr () else Inl (LoadPanic (Panic ''assertion failed'')))"

lemma load_checks [simp]: "bail_if b msg = Inr u \<longleftrightarrow> \<not> b" "load_assert b = Inr u \<longleftrightarrow> b"
  by (simp_all add: bail_if_def load_assert_def)

definition lift_panic :: "emu_error + 'a \<Rightarrow> load_error + 'a" where
  "lift_panic r = (case r of Inl e \<Rightarrow> Inl (LoadPanic e) | Inr x \<Rightarrow> Inr x)"

lemma lift_panic_Inr [simp]: "lift_panic r = Inr x \<longleftrightarrow> r = Inr x"
  by (simp add: lift_panic_def split: sum.split)

definition u32_try_from :: "u64 \<Rightarrow> load_error + u32" where
  "u32_try_from x = (if unat x < 2 ^ 32 then Inr (ucast x) else Inl (Bail ''larger than 32 bits''))"

definition checked_add :: "u32 \<Rightarrow> u32 \<Rightarrow> load_error + u32" where
  "checked_add a b = (if unat a + unat b < 2 ^ 32 then Inr (a + b) else Inl (Bail ''Invalid segment''))"

type_synonym symbol_map = "(u64, string) btree_map"

definition collect_addr_symbols_mapping :: "elf_file \<Rightarrow> load_error + symbol_map" where
  "collect_addr_symbols_mapping elf =
     (case elf_symbols elf of
        Inl _ \<Rightarrow> Inl (Bail ''symbol table'')
      | Inr None \<Rightarrow> Inr []
      | Inr (Some syms) \<Rightarrow>
          Inr (fold (\<lambda>(name, st_value) m. case name of None \<Rightarrow> m
                 | Some n \<Rightarrow> if n \<noteq> [] \<and> st_value \<noteq> 0 then bt_insert st_value n m else m) syms []))"

definition find_max_symbol_in_range :: "symbol_map \<Rightarrow> u64 \<Rightarrow> u64 \<Rightarrow> u64 option" where
  "find_max_symbol_in_range symbols start en =
     (case filter (\<lambda>(addr, _). start \<le> addr \<and> addr < en) symbols of
        [] \<Rightarrow> None | e # es \<Rightarrow> Some (fst (last (e # es))))"

text \<open>The word at offset \<open>i\<close> of a segment's file bytes; bytes past the file are zero.\<close>

definition segment_word :: "u8 list \<Rightarrow> u32 \<Rightarrow> u32 \<Rightarrow> u32 \<Rightarrow> u32" where
  "segment_word input offset file_size i =
     fold (\<lambda>j acc. let k = unat (offset + i + of_nat j);
                       byte = (if k < length input then input ! k else 0)
                   in acc OR push_bit (j * 8) (ucast byte))
       (take (unat (file_size - i)) [0..<WORD_SIZE]) 0"

text \<open>The loop state: the base address, the instruction words and the image.\<close>

record load_state =
  ld_base :: "u32 option"
  ld_instructions :: "u32 list"
  ld_image :: "(u32, u32) btree_map"

fun load_words :: "u8 list \<Rightarrow> u32 \<Rightarrow> u32 \<Rightarrow> u32 \<Rightarrow> u32 \<Rightarrow> bool \<Rightarrow> u32 list \<Rightarrow> load_state \<Rightarrow> load_error + load_state" where
  "load_words input max_mem vaddr offset file_size executable [] st = Inr st"
| "load_words input max_mem vaddr offset file_size executable (i # is) st =
     bindE (checked_add vaddr i) (\<lambda>addr.
     bindE (bail_if (addr \<ge> max_mem) ''Address exceeds max'') (\<lambda>_.
     let word = segment_word input offset file_size i in
     load_words input max_mem vaddr offset file_size executable is
       (st\<lparr>ld_image := bt_insert addr word (ld_image st),
           ld_instructions := ld_instructions st @ (if executable then [word] else [])\<rparr>)))"

fun zero_fill :: "u32 \<Rightarrow> u32 \<Rightarrow> u32 list \<Rightarrow> load_state \<Rightarrow> load_error + load_state" where
  "zero_fill max_mem vaddr [] st = Inr st"
| "zero_fill max_mem vaddr (i # is) st =
     bindE (checked_add vaddr i) (\<lambda>addr.
     bindE (bail_if (addr \<ge> max_mem) ''zero-fill addr exceeds max'') (\<lambda>_.
     zero_fill max_mem vaddr is (st\<lparr>ld_image := bt_insert addr 0 (ld_image st)\<rparr>)))"

text \<open>\<open>(start..n).step_by(WORD_SIZE)\<close>.\<close>

definition step_by_words :: "nat \<Rightarrow> nat \<Rightarrow> u32 list" where
  "step_by_words start n = map (\<lambda>k. of_nat (start + k * WORD_SIZE)) [0..<(n - start + (WORD_SIZE - 1)) div WORD_SIZE]"

definition load_segment ::
  "u8 list \<Rightarrow> u32 \<Rightarrow> symbol_map \<Rightarrow> elf_segment \<Rightarrow> load_state \<Rightarrow> load_error + load_state" where
  "load_segment input max_mem symbols seg st =
     bindE (u32_try_from (p_filesz seg)) (\<lambda>file_size.
     bindE (bail_if (file_size \<ge> max_mem) ''Invalid segment file_size'') (\<lambda>_.
     bindE (u32_try_from (p_memsz seg)) (\<lambda>mem_size.
     bindE (bail_if (mem_size \<ge> max_mem) ''Invalid segment mem_size'') (\<lambda>_.
     bindE (u32_try_from (p_vaddr seg)) (\<lambda>vaddr.
     let executable = (p_flags seg AND PF_X \<noteq> 0) in
     bindE (bail_if (executable \<and> ld_base st \<noteq> None) ''only support one executable segment'') (\<lambda>_.
     let st1 = (if executable then st\<lparr>ld_base := Some vaddr\<rparr> else st) in
     bindE (bail_if (vaddr mod of_nat WORD_SIZE \<noteq> 0) ''vaddr is unaligned'') (\<lambda>_.
     bindE (u32_try_from (p_offset seg)) (\<lambda>offset.
     bindE (load_words input max_mem vaddr offset file_size executable
              (step_by_words 0 (unat file_size)) st1) (\<lambda>st2.
     bindE (checked_add vaddr mem_size) (\<lambda>seg_end.
     case find_max_symbol_in_range symbols (ucast vaddr) (ucast seg_end) of
       None \<Rightarrow> Inr st2
     | Some max_addr \<Rightarrow>
         let zero_upper = (if (ucast max_addr :: u32) < vaddr then 0 else ucast max_addr - vaddr) in
         zero_fill max_mem vaddr (step_by_words (unat file_size) (unat zero_upper + 1)) st2))))))))))"

fun load_segments ::
  "u8 list \<Rightarrow> u32 \<Rightarrow> symbol_map \<Rightarrow> elf_segment list \<Rightarrow> load_state \<Rightarrow> load_error + load_state" where
  "load_segments input max_mem symbols [] st = Inr st"
| "load_segments input max_mem symbols (seg # segs) st =
     bindE (load_segment input max_mem symbols seg st) (load_segments input max_mem symbols segs)"

text \<open>\<open>usize::next_power_of_two\<close>.\<close>

function next_power_of_two_from :: "nat \<Rightarrow> nat \<Rightarrow> nat" where
  "next_power_of_two_from p n = (if n \<le> p \<or> p = 0 then p else next_power_of_two_from (2 * p) n)"
  by pat_completeness auto
termination
  by (relation "measure (\<lambda>(p, n). n - p)") auto

declare next_power_of_two_from.simps [simp del]

definition next_power_of_two :: "nat \<Rightarrow> nat" where
  "next_power_of_two n = next_power_of_two_from 1 n"

text \<open>The padding entries follow the last one.\<close>

definition pad_program_data :: "(u32, u32) btree_map \<Rightarrow> (u32 \<times> u32) list" where
  "pad_program_data img =
     (case img of [] \<Rightarrow> []
      | e # es \<Rightarrow> img @ map (\<lambda>k. (fst (last (e # es)) + of_nat ((k + 1) * WORD_SIZE), 0))
           [0..<next_power_of_two (length img) - length img])"

definition load_elf ::
  "(u8 list \<Rightarrow> elf_file option) \<Rightarrow> (u32 \<Rightarrow> callback option) \<Rightarrow> u8 list \<Rightarrow> u32 \<Rightarrow> load_error + Program" where
  "load_elf minimal_parse decode input max_mem =
     bindE (unwrap (Bail ''Elf parse error'') (minimal_parse input)) (\<lambda>elf.
     bindE (bail_if (\<not> is_elf32 elf) ''Not a 32-bit ELF'') (\<lambda>_.
     bindE (bail_if (e_machine elf \<noteq> EM_RISCV) ''Invalid machine type, must be RISC-V'') (\<lambda>_.
     bindE (bail_if (e_type elf \<noteq> ET_EXEC) ''Invalid ELF type, must be executable'') (\<lambda>_.
     bindE (u32_try_from (e_entry elf)) (\<lambda>ent.
     bindE (bail_if (ent \<ge> max_mem \<or> ent mod of_nat WORD_SIZE \<noteq> 0) ''Invalid entrypoint'') (\<lambda>_.
     bindE (unwrap (Bail ''Missing segment table'') (elf_segments elf)) (\<lambda>segs.
     bindE (bail_if (length segs > 256) ''Too many program headers'') (\<lambda>_.
     bindE (collect_addr_symbols_mapping elf) (\<lambda>symbols.
     bindE (load_segments input max_mem symbols (filter (\<lambda>x. p_type x = PT_LOAD) segs)
              \<lparr>ld_base = None, ld_instructions = [], ld_image = []\<rparr>) (\<lambda>st.
     bindE (unwrap (Bail ''does not have executable segment'') (ld_base st)) (\<lambda>base.
     bindE (load_assert (ent \<ge> base)) (\<lambda>_.
     bindE (load_assert (unat (ent - base) \<le> length (ld_instructions st) * WORD_SIZE)) (\<lambda>_.
     bindE (lift_panic (transpile decode base (ld_instructions st))) (\<lambda>insns.
     let program_data = pad_program_data (ld_image st) in
     bindE (bail_if (program_data = []) ''invalid size of data'') (\<lambda>_.
     let padded_max = fst (last program_data); bss_max = fst (last (ld_image st)) in
     bindE (bail_if (padded_max < bss_max) ''padded_max_static_addr should larger than bss_max_addr'') (\<lambda>_.
     bindE (unwrap (Bail ''unable to find _sheap symbol'')
              (map_option (\<lambda>(k, _). ucast k) (find (\<lambda>(_, v). v = ''_sheap'') symbols))) (\<lambda>sheap_addr.
     bindE (bail_if (padded_max \<ge> sheap_addr) ''padded_max_static_addr overlap with _sheap'') (\<lambda>_.
     Inr \<lparr>entry = ent, base_address = base, sheap = sheap_addr, instructions = insns,
          image = fold (\<lambda>(k, v). bt_insert k v) program_data []\<rparr>))))))))))))))))))"

definition new_from_elf ::
  "(u8 list \<Rightarrow> elf_file option) \<Rightarrow> (u32 \<Rightarrow> callback option) \<Rightarrow> Platform \<Rightarrow> u8 list \<Rightarrow> load_error + VMState" where
  "new_from_elf minimal_parse decode plat input =
     bindE (load_elf minimal_parse decode input 0xFFFFFFFF) (\<lambda>prog.
     Inr (new_VMState (plat\<lparr>prog_data := set (bt_keys (image prog))\<rparr>) prog))"


subsection \<open>Properties of loaded programs\<close>

text \<open>
  C18. The transpiled form of \<open>LUI\<close> and \<open>AUIPC\<close>: executing instruction \<open>i\<close> of the program, at its
  address, writes the upper immediate, or the upper immediate plus that address, to the destination
  and moves on, although the instruction has become an \<open>ADDI\<close> on \<open>x0\<close>.
\<close>

theorem transpiled_upper_immediates:
  assumes "transpile decode base ws = Inr insns" and "i < length ws"
    and "isa_pc s = base + of_nat (4 * i)" and "u_rd d < 32"
    and "decode (ws ! i) = Some (if relative then Process_auipc d else Process_lui d)"
  shows "isa_exec (insns ! i) s =
    Some (write_reg (u_rd d) (u_imm d + (if relative then isa_pc s else 0)) (s\<lparr>isa_pc := isa_pc s + 4\<rparr>))"
proof -
  have "transpile_word decode (isa_pc s) (ws ! i) = Inr (insns ! i)"
    using transpile_nth [OF assms(1,2)] by (simp add: assms(3))
  then have insn: "insns ! i = imm_instruction ADDI (u_rd d) 0
      (u_imm d + (if relative then isa_pc s else 0)) (ws ! i)"
    using assms(5) by (auto simp: transpile_word_def split: if_splits)
  show ?thesis
    by (simp add: insn imm_instruction_def isa_exec_def Let_def read_reg_def)
qed

theorem transpiled_upper_immediates_witness:
  "\<exists>insns. transpile (\<lambda>_. Some (Process_auipc \<lparr>u_imm = 0x1000, u_rd = 3\<rparr>)) 0x20000000 [7, 7] = Inr insns \<and>
     isa_exec (insns ! 1) \<lparr>isa_pc = 0x20000004, isa_reg = (\<lambda>_. 0), isa_mem = (\<lambda>_. 0)\<rparr> =
     Some (write_reg 3 0x20001004 \<lparr>isa_pc = 0x20000008, isa_reg = (\<lambda>_. 0), isa_mem = (\<lambda>_. 0)\<rparr>)"
proof -
  let ?s = "\<lparr>isa_pc = 0x20000004, isa_reg = (\<lambda>_. 0), isa_mem = (\<lambda>_. 0)\<rparr> :: isa_state"
  let ?dec = "\<lambda>_ :: u32. Some (Process_auipc \<lparr>u_imm = 0x1000, u_rd = 3\<rparr>)"
  obtain insns where t: "transpile ?dec 0x20000000 [7, 7] = Inr insns"
    by (simp add: transpile_word_def)
  from transpiled_upper_immediates [OF t, of 1 ?s "\<lparr>u_imm = 0x1000, u_rd = 3\<rparr>" True] t
  show ?thesis by auto
qed

lemma load_elf_success:
  assumes "load_elf minimal_parse decode input max_mem = Inr prog"
  obtains words where "entry prog mod of_nat WORD_SIZE = 0" and "base_address prog \<le> entry prog"
    and "unat (entry prog - base_address prog) \<le> length (instructions prog) * WORD_SIZE"
    and "transpile decode (base_address prog) words = Inr (instructions prog)"
proof -
  have "\<exists>st :: load_state. entry prog mod of_nat WORD_SIZE = 0 \<and> base_address prog \<le> entry prog \<and>
      unat (entry prog - base_address prog) \<le> length (ld_instructions st) * WORD_SIZE \<and>
      transpile decode (base_address prog) (ld_instructions st) = Inr (instructions prog)"
    using assms by (clarsimp simp: load_elf_def bindE_success Let_def not_le del: mod_0_imp_dvd)
      (intro exI conjI, assumption+)
  then show ?thesis using that transpile_length by metis
qed

text \<open>
  C19. A program the loader accepts starts at an aligned address inside its code, one position past
  the end included, and when the decoder keeps its promises every instruction of it is well formed.
\<close>

theorem load_elf_well_formed:
  assumes "load_elf minimal_parse decode input max_mem = Inr prog" and "decoder_ok decode"
  shows "is_aligned (ByteAddr (entry prog)) \<and> base_address prog \<le> entry prog \<and>
    unat (entry prog - base_address prog) \<le> 4 * length (instructions prog) \<and>
    (\<forall>insn \<in> set (instructions prog). wf_insn insn)"
proof -
  from assms(1) obtain words where p: "entry prog mod of_nat WORD_SIZE = 0" "base_address prog \<le> entry prog"
    "unat (entry prog - base_address prog) \<le> length (instructions prog) * WORD_SIZE"
    and t: "transpile decode (base_address prog) words = Inr (instructions prog)"
    by (rule load_elf_success)
  from p(1) have "is_aligned (ByteAddr (entry prog))" by (simp only: is_aligned_def byte_addr.sel)
  moreover from p(3) have "unat (entry prog - base_address prog) \<le> 4 * length (instructions prog)"
    by (simp add: WORD_SIZE_def mult.commute)
  moreover have "\<forall>insn \<in> set (instructions prog). wf_insn insn"
    using transpile_total [OF assms(2), of "base_address prog" words] t by auto
  ultimately show ?thesis using p(2) by blast
qed

definition demo_elf :: elf_file where
  "demo_elf = \<lparr>is_elf32 = True, e_machine = EM_RISCV, e_type = ET_EXEC, e_entry = 0x20000000,
     elf_segments = Some
       [\<lparr>p_type = PT_LOAD, p_flags = PF_X, p_offset = 0, p_vaddr = 0x20000000, p_filesz = 4, p_memsz = 4\<rparr>,
        \<lparr>p_type = PT_LOAD, p_flags = 6, p_offset = 4, p_vaddr = 0x20000010, p_filesz = 5, p_memsz = 16\<rparr>],
     elf_symbols = Inr (Some [(Some ''bss'', 0x20000018), (Some ''_sheap'', 0x80000000)])\<rparr>"

definition demo_bytes :: "u8 list" where
  "demo_bytes = [0x73, 0, 0, 0, 1, 2, 3, 4, 5]"

definition demo_decode :: "u32 \<Rightarrow> callback option" where
  "demo_decode w = (if w = 0x73 then Some Process_ecall else None)"

lemmas elf_eval = load_elf_def demo_elf_def demo_bytes_def demo_decode_def bail_if_def load_assert_def
  u32_try_from_def checked_add_def collect_addr_symbols_mapping_def find_max_symbol_in_range_def
  segment_word_def step_by_words_def load_segment_def pad_program_data_def next_power_of_two_def
  next_power_of_two_from.simps transpile_word_def lift_panic_def imm_instruction_def EM_RISCV_def ET_EXEC_def
  PT_LOAD_def PF_X_def WORD_SIZE_def Let_def unwrap_def unimp_def

lemma demo_elf_loads:
  "load_elf (\<lambda>_. Some demo_elf) demo_decode demo_bytes 0xFFFFFFFF =
   Inr \<lparr>entry = 0x20000000, base_address = 0x20000000, sheap = 0x80000000,
     instructions = [imm_instruction ECALL 0 0 0 0x73],
     image = [(0x20000000, 0x73), (0x20000010, 0x04030201), (0x20000014, 5), (0x20000015, 0)]\<rparr>"
  by (simp add: elf_eval upt_rec)


theorem load_elf_well_formed_witness:
  "\<exists>prog. load_elf (\<lambda>_. Some demo_elf) demo_decode demo_bytes 0xFFFFFFFF = Inr prog \<and>
     is_aligned (ByteAddr (entry prog)) \<and> (\<forall>insn \<in> set (instructions prog). wf_insn insn)"
proof -
  have "decoder_ok demo_decode" by (simp add: decoder_ok_def demo_decode_def)
  from load_elf_well_formed [OF demo_elf_loads this] demo_elf_loads show ?thesis by blast
qed

lemma load_words_wf:
  "load_words input max_mem vaddr offset file_size ex is st = Inr st' \<Longrightarrow> bt_wf (ld_image st) \<Longrightarrow>
   bt_wf (ld_image st')"
  by (induction input max_mem vaddr offset file_size ex "is" st arbitrary: st' rule: load_words.induct)
    (auto simp: bindE_success Let_def)

lemma zero_fill_image:
  "zero_fill max_mem vaddr is st = Inr st' \<Longrightarrow> bt_wf (ld_image st) \<Longrightarrow> i \<in> set is \<or> map_of (ld_image st) (vaddr + i) = Some 0 \<Longrightarrow>
   map_of (ld_image st') (vaddr + i) = Some 0"
  by (induction max_mem vaddr "is" st arbitrary: st' rule: zero_fill.induct)
    (auto simp: bindE_success checked_add_def split: if_splits)

lemma step_by_words_mem:
  "start + 4 * k < n \<Longrightarrow> of_nat (start + 4 * k) \<in> set (step_by_words start n)"
  by (auto simp: step_by_words_def WORD_SIZE_def image_iff intro!: bexI [of _ k])

text \<open>
  The keys of the image that are not aligned come from zero-fills, so they are mapped to zero. The
  machine keeps, for every word, the value of the largest key in it.
\<close>

definition unaligned_zero :: "(u32, u32) btree_map \<Rightarrow> bool" where
  "unaligned_zero m \<longleftrightarrow> (\<forall>(a, v) \<in> set m. unat a mod 4 \<noteq> 0 \<longrightarrow> v = 0)"

lemma set_bt_insert: "set (bt_insert k v m) \<subseteq> insert (k, v) (set m)"
  by (induction k v m rule: bt_insert.induct) auto

lemma unaligned_zero_insert:
  "unaligned_zero m \<Longrightarrow> (unat k mod 4 \<noteq> 0 \<longrightarrow> v = 0) \<Longrightarrow> unaligned_zero (bt_insert k v m)"
  using set_bt_insert [of k v m] by (auto simp: unaligned_zero_def)

lemma load_words_aligned:
  "load_words input max_mem vaddr offset file_size ex is st = Inr st' \<Longrightarrow> unaligned_zero (ld_image st) \<Longrightarrow>
   unat vaddr mod 4 = 0 \<Longrightarrow> \<forall>i \<in> set is. unat i mod 4 = 0 \<Longrightarrow> unaligned_zero (ld_image st')"
proof (induction input max_mem vaddr offset file_size ex "is" st arbitrary: st' rule: load_words.induct)
  case (2 input max_mem vaddr offset file_size ex i "is" st)
  from "2.prems"(1) have fits: "unat vaddr + unat i < 2 ^ 32"
    by (auto simp: bindE_success checked_add_def split: if_splits)
  then have "unat (vaddr + i) = unat vaddr + unat i" by (simp add: unat_word_ariths)
  then have "unat (vaddr + i) mod 4 = 0" using "2.prems"(3,4) by (simp add: mod_add_eq [symmetric])
  then have ins: "unaligned_zero (bt_insert (vaddr + i) (segment_word input offset file_size i) (ld_image st))"
    using "2.prems"(2) by (simp add: unaligned_zero_insert)
  let ?st = "st\<lparr>ld_image := bt_insert (vaddr + i) (segment_word input offset file_size i) (ld_image st),
    ld_instructions := ld_instructions st @ (if ex then [segment_word input offset file_size i] else [])\<rparr>"
  have sum: "checked_add vaddr i = Inr (vaddr + i)" using fits by (simp add: checked_add_def)
  have rest: "load_words input max_mem vaddr offset file_size ex is ?st = Inr st'"
    and bound: "bail_if (max_mem \<le> vaddr + i) ''Address exceeds max'' = Inr ()"
    using "2.prems"(1) by (simp_all add: bindE_success sum Let_def)
  show ?case
    by (rule "2.IH" [OF refl]) (use rest ins "2.prems"(3,4) in simp_all)
qed simp

lemma zero_fill_aligned:
  "zero_fill max_mem vaddr is st = Inr st' \<Longrightarrow> unaligned_zero (ld_image st) \<Longrightarrow> unaligned_zero (ld_image st')"
  by (induction max_mem vaddr "is" st arbitrary: st' rule: zero_fill.induct)
    (auto simp: bindE_success intro: unaligned_zero_insert)

lemma zero_fill_wf:
  "zero_fill max_mem vaddr is st = Inr st' \<Longrightarrow> bt_wf (ld_image st) \<Longrightarrow> bt_wf (ld_image st')"
  by (induction max_mem vaddr "is" st arbitrary: st' rule: zero_fill.induct) (auto simp: bindE_success)

lemma step_by_words_aligned:
  assumes "n \<le> 2 ^ LENGTH(32)" and "i \<in> set (step_by_words 0 n)"
  shows "unat i mod 4 = 0"
proof -
  from assms(2) obtain j where j: "i = of_nat (j * 4)" "j < (n + 3) div 4"
    by (auto simp: step_by_words_def WORD_SIZE_def)
  then have "j * 4 < 2 ^ 32" using assms(1) by simp
  then have "unat (of_nat (j * 4) :: u32) = j * 4" by (simp only: unat_of_nat take_bit_nat_eq_self len_bit0 len_num1) simp
  then show ?thesis unfolding j(1) by simp
qed

lemma new_memory:
  "vm_memory (new_VMState p prog) w =
     (case filter (\<lambda>(a, _). waddr (ByteAddr a) = w) (image prog) of [] \<Rightarrow> None | e # es \<Rightarrow> Some (snd (last (e # es))))"
proof -
  have "vm_memory (fold (\<lambda>(addr, val) vm. vm_init_memory (waddr (ByteAddr addr)) val vm) m vm) w =
      (case filter (\<lambda>(a, _). waddr (ByteAddr a) = w) m of [] \<Rightarrow> vm_memory vm w | e # es \<Rightarrow> Some (snd (last (e # es))))" for m vm
    by (induction m arbitrary: vm) (auto simp: vm_init_memory_def split: list.splits)
  then show ?thesis by (simp add: new_VMState_def split: list.split)
qed

lemma sorted_le_last: "sorted xs \<Longrightarrow> x \<in> set xs \<Longrightarrow> x \<le> last xs"
  by (induction xs) (auto intro: order_trans)

lemma zero_key_reads_zero:
  assumes wf: "bt_wf (image prog)" and zero: "unaligned_zero (image prog)" and x: "map_of (image prog) x = Some 0"
  shows "vm_peek_memory (waddr (ByteAddr x)) (new_VMState p prog) = 0"
proof -
  let ?L = "filter (\<lambda>(a, _). waddr (ByteAddr a) = waddr (ByteAddr x)) (image prog)"
  have mem: "(x, 0) \<in> set ?L" using map_of_SomeD [OF x] by simp
  then obtain y v where last: "last ?L = (y, v)" and y: "(y, v) \<in> set ?L" and some: "?L \<noteq> []"
    by (metis empty_iff last_in_set list.set(1) prod.exhaust)
  have sorted: "sorted_wrt (<) (map fst ?L)"
    using wf by (simp add: sorted_wrt_map sorted_wrt_filter)
  have "x \<le> y"
  proof -
    from sorted have "sorted (map fst ?L)" by (rule strict_sorted_imp_sorted)
    moreover have "x \<in> set (map fst ?L)" using mem by force
    ultimately have "x \<le> last (map fst ?L)" by (rule sorted_le_last)
    then show ?thesis using last some by (simp add: last_map)
  qed
  have "v = 0"
  proof (cases "y = x")
    case True
    have "distinct (map fst (image prog))" using wf by (simp add: strict_sorted_iff)
    with y True x show ?thesis by (auto dest: map_of_is_SomeI)
  next
    case False
    with \<open>x \<le> y\<close> have "unat x < unat y" by (metis word_less_nat_alt order.strict_iff_order)
    moreover have "unat y div 4 = unat x div 4"
      using y by (auto simp: waddr_def WORD_SIZE_def unat_div dest!: arg_cong [where f = unat])
    moreover have "unat y = 4 * (unat y div 4) + unat y mod 4" "4 * (unat x div 4) \<le> unat x" by simp_all
    ultimately have "unat y mod 4 \<noteq> 0" by linarith
    with y zero show ?thesis by (auto simp: unaligned_zero_def)
  qed
  with some last show ?thesis
    by (auto simp: vm_peek_memory_def new_memory split: list.splits)
qed

text \<open>
  C20. The zero-fill of a segment starts at its file size and goes up in steps of four to the last
  symbol of the segment: the image maps each of these addresses to zero, whether or not they are
  aligned, and in a machine built from the image the whole word around each of them reads zero. With
  a file size that is not a multiple of four this erases the trailing bytes of the file in the word
  of the first address, although the image still holds them under the aligned key (the witness). The
  unaligned keys of the image so far have to be mapped to zero, as in the empty image; the result
  keeps this.
\<close>

theorem zero_fill_starts_at_file_size:
  assumes load: "load_segment input max_mem symbols seg st = Inr st'"
    and wf: "bt_wf (ld_image st)" "unaligned_zero (ld_image st)"
    and sym: "find_max_symbol_in_range symbols (ucast (ucast (p_vaddr seg) :: u32))
      (ucast (ucast (p_vaddr seg) + ucast (p_memsz seg) :: u32)) = Some m"
    and k: "unat (ucast (p_vaddr seg) :: u32) + (unat (ucast (p_filesz seg) :: u32) + 4 * k) \<le> unat (ucast m :: u32)"
    and addr: "addr = ucast (p_vaddr seg) + (ucast (p_filesz seg) + 4 * of_nat k)"
  shows "map_of (ld_image st') addr = Some 0 \<and> unaligned_zero (ld_image st') \<and>
    (image prog = ld_image st' \<longrightarrow> vm_peek_memory (waddr (ByteAddr addr)) (new_VMState plat prog) = 0)"
proof -
  let ?v = "ucast (p_vaddr seg) :: u32" and ?f = "ucast (p_filesz seg) :: u32" and ?m = "ucast m :: u32"
  have "?v \<le> ?m" using k by (simp add: word_le_nat_alt)
  then have "\<not> ?m < ?v" and zu: "unat (?m - ?v) = unat ?m - unat ?v" by (simp_all add: unat_sub)
  obtain st1 st2 ex offset where w: "load_words input max_mem ?v offset ?f ex (step_by_words 0 (unat ?f)) st1 = Inr st2"
    and st1: "ld_image st1 = ld_image st" and v: "?v mod of_nat WORD_SIZE = 0"
    and z: "zero_fill max_mem ?v (step_by_words (unat ?f) (unat (?m - ?v) + 1)) st2 = Inr st'"
    using load sym \<open>\<not> ?m < ?v\<close>
    by (fastforce simp: load_segment_def bindE_success Let_def u32_try_from_def checked_add_def split: if_splits)
  have "unat ?v mod 4 = 0" using arg_cong [OF v, of unat] by (simp add: WORD_SIZE_def unat_mod)
  moreover have small: "\<forall>i \<in> set (step_by_words 0 (unat ?f)). unat i mod 4 = 0"
  proof -
    have "unat ?f < 2 ^ LENGTH(32)" by (rule unsigned_less)
    then have "unat ?f \<le> 2 ^ LENGTH(32)" by (rule less_imp_le)
    then show ?thesis using step_by_words_aligned by blast
  qed
  ultimately have st2: "bt_wf (ld_image st2)" "unaligned_zero (ld_image st2)"
    using load_words_wf [OF w] load_words_aligned [OF w] wf small by (simp_all add: st1)
  have "of_nat (unat ?f + 4 * k) \<in> set (step_by_words (unat ?f) (unat (?m - ?v) + 1))"
    using k zu by (intro step_by_words_mem) linarith
  from zero_fill_image [OF z st2(1) disjI1, OF this] have zero: "map_of (ld_image st') addr = Some 0"
    by (simp add: addr)
  with zero_fill_wf [OF z st2(1)] zero_fill_aligned [OF z st2(2)] zero_key_reads_zero [of prog] show ?thesis by auto
qed

theorem zero_fill_starts_at_file_size_witness:
  "\<exists>seg st st' prog.
     load_segment demo_bytes 0xFFFFFFFF [(0x20000018, ''bss''), (0x80000000, ''_sheap'')] seg st = Inr st' \<and>
     p_filesz seg = 5 \<and> map_of (ld_image st') 0x20000015 = Some 0 \<and>
     load_elf (\<lambda>_. Some demo_elf) demo_decode demo_bytes 0xFFFFFFFF = Inr prog \<and> image prog = ld_image st' \<and>
     map_of (image prog) 0x20000014 = Some 5 \<and>
     vm_peek_memory (waddr (ByteAddr 0x20000014)) (new_VMState CENO_PLATFORM prog) = 0"
proof -
  let ?seg = "\<lparr>p_type = PT_LOAD, p_flags = 6, p_offset = 4, p_vaddr = 0x20000010, p_filesz = 5, p_memsz = 16\<rparr>"
  let ?st = "\<lparr>ld_base = Some 0x20000000, ld_instructions = [0x73], ld_image = [(0x20000000, 0x73)]\<rparr> :: load_state"
  let ?image = "[(0x20000000, 0x73), (0x20000010, 0x04030201), (0x20000014, 5), (0x20000015, 0)] :: (u32, u32) btree_map"
  let ?sy = "[(0x20000018, ''bss''), (0x80000000, ''_sheap'')] :: symbol_map"
  let ?prog = "\<lparr>entry = 0x20000000, base_address = 0x20000000, sheap = 0x80000000,
     instructions = [imm_instruction ECALL 0 0 0 0x73], image = ?image\<rparr>"
  have l: "load_segment demo_bytes 0xFFFFFFFF ?sy ?seg ?st = Inr (?st\<lparr>ld_image := ?image\<rparr>)"
    by (simp add: elf_eval upt_rec)
  have s: "find_max_symbol_in_range ?sy (ucast (ucast (p_vaddr ?seg) :: u32))
      (ucast (ucast (p_vaddr ?seg) + ucast (p_memsz ?seg) :: u32)) = Some 0x20000018"
    by (simp add: find_max_symbol_in_range_def)
  have wf: "bt_wf (ld_image ?st)" "unaligned_zero (ld_image ?st)" by (simp_all add: unaligned_zero_def)
  from zero_fill_starts_at_file_size [OF l wf s, of 0 "0x20000015" ?prog CENO_PLATFORM]
  have "vm_peek_memory (waddr (ByteAddr 0x20000015)) (new_VMState CENO_PLATFORM ?prog) = 0"
    and mapped: "map_of ?image (0x20000015 :: u32) = Some (0 :: u32)" by simp_all
  then have peek: "vm_peek_memory (waddr (ByteAddr 0x20000014)) (new_VMState CENO_PLATFORM ?prog) = 0"
    by (simp add: waddr_def WORD_SIZE_def)
  show ?thesis
    by (rule exI [of _ ?seg], intro exI conjI, rule l, simp, use mapped in simp, rule demo_elf_loads, simp, simp, use peek in simp)
qed

end
