(* ===== verification/Goldilocks.thy ===== *)
theory Goldilocks
  imports Prelude
begin

text \<open>
  The Goldilocks field, the base field the circuits are built over (\<open>p3::goldilocks\<close>): the integers
  modulo the prime \<open>2^64 - 2^32 + 1\<close>. That the modulus is prime is proved from an element of order
  \<open>2^32\<close>, so a divisor of it is one or exceeds \<open>2^32\<close>.
\<close>

subsection \<open>The modulus is prime\<close>

text \<open>If \<open>b ^ 2 ^ n\<close> is minus one modulo \<open>q\<close>, the first \<open>2 ^ (n + 1)\<close> powers of \<open>b\<close> differ modulo \<open>q\<close>.\<close>

lemma odd_part:
  fixes d :: nat
  assumes "0 < d"
  obtains k m where "d = 2 ^ k * m" and "odd m"
proof -
  have "\<exists>k m. d = 2 ^ k * m \<and> odd m" using assms
  proof (induction d rule: less_induct)
    case (less d)
    show ?case
    proof (cases "odd d")
      case True
      then show ?thesis by (intro exI [of _ 0] exI [of _ d]) simp
    next
      case False
      then obtain e where e: "d = 2 * e" by blast
      with less.prems have "0 < e" "e < d" by auto
      from less.IH [OF this(2) this(1)] obtain k m where "e = 2 ^ k * m" "odd m" by blast
      with e show ?thesis by (intro exI [of _ "Suc k"] exI [of _ m]) simp
    qed
  qed
  then show thesis using that by blast
qed

lemma power_mod_cong: "(x :: int) mod q = y mod q \<Longrightarrow> x ^ n mod q = y ^ n mod q"
  by (metis power_mod)

lemma power_not_one:
  fixes b q :: int
  assumes half: "b ^ 2 ^ n mod q = - 1 mod q" and q: "odd q" "1 < q" and d: "0 < d" "d < 2 ^ Suc n"
  shows "b ^ d mod q \<noteq> 1"
proof
  assume one: "b ^ d mod q = 1"
  obtain k m where km: "d = 2 ^ k * m" "odd m" using d(1) by (rule odd_part)
  have "k \<le> n"
  proof (rule ccontr)
    assume "\<not> k \<le> n"
    then have "(2 :: nat) ^ Suc n \<le> 2 ^ k" by (intro power_increasing) simp_all
    also have "2 ^ k \<le> d" using km d(1) by (cases m) auto
    finally show False using d(2) by simp
  qed
  then have "d * 2 ^ (n - k) = 2 ^ n * m" using km(1) by (simp flip: power_add)
  then have "(b ^ d) ^ 2 ^ (n - k) = (b ^ 2 ^ n) ^ m" by (simp flip: power_mult)
  moreover have "(b ^ d) ^ 2 ^ (n - k) mod q = 1 ^ 2 ^ (n - k) mod q"
    using one q(2) by (intro power_mod_cong) simp
  moreover have "(b ^ 2 ^ n) ^ m mod q = (- 1) ^ m mod q" by (rule power_mod_cong) (rule half)
  ultimately have "1 mod q = - 1 mod q" using km(2) by simp
  then have "q dvd 2" by (simp add: mod_eq_dvd_iff)
  then have "q \<le> 2" by (rule zdvd_imp_le) simp
  with q(2) have "q = 2" by simp
  with q(1) show False by simp
qed

lemma order_bound:
  fixes b q :: int
  assumes half: "b ^ 2 ^ n mod q = - 1 mod q" and q: "odd q" "1 < q"
  shows "2 ^ Suc n < q"
proof -
  have unit: "coprime (b ^ i) q" for i
  proof -
    have "coprime (b ^ 2 ^ n mod q) q" unfolding half using q(2) by simp
    then have "coprime (b ^ 2 ^ n) q" using q(2) by simp
    then have "coprime b q" by simp
    then show ?thesis by simp
  qed
  have "inj_on (\<lambda>i. b ^ i mod q) {0..<2 ^ Suc n}"
  proof (rule linorder_inj_onI)
    fix i j :: nat
    assume ij: "i < j" "i \<in> {0..<2 ^ Suc n}" "j \<in> {0..<2 ^ Suc n}"
    then have d: "0 < j - i" "j - i < 2 ^ Suc n" by auto
    show "b ^ i mod q \<noteq> b ^ j mod q"
    proof
      assume "b ^ i mod q = b ^ j mod q"
      then have "q dvd b ^ j - b ^ i" by (metis mod_eq_dvd_iff)
      also have "b ^ j - b ^ i = b ^ i * (b ^ (j - i) - 1)"
        using ij(1) by (simp add: algebra_simps flip: power_add)
      finally have "q dvd b ^ (j - i) - 1"
        using unit [of i] by (simp add: coprime_commute coprime_dvd_mult_right_iff)
      then have "b ^ (j - i) mod q = 1 mod q" by (simp add: mod_eq_dvd_iff)
      then have "b ^ (j - i) mod q = 1" using q(2) by simp
      with power_not_one [OF half q d] show False by blast
    qed
  qed auto
  moreover have "(\<lambda>i. b ^ i mod q) ` {0..<2 ^ Suc n} \<subseteq> {1..<q}"
  proof
    fix x assume "x \<in> (\<lambda>i. b ^ i mod q) ` {0..<2 ^ Suc n}"
    then obtain i where x: "x = b ^ i mod q" by blast
    have "x \<noteq> 0"
    proof
      assume "x = 0"
      then have "coprime 0 q" using unit [of i] x by (metis coprime_mod_left_iff q(2) not_one_less_zero)
      then show False using q(2) by simp
    qed
    then show "x \<in> {1..<q}" using q(2) pos_mod_sign [of q "b ^ i"] pos_mod_bound [of q "b ^ i"] unfolding x
      by (simp del: pos_mod_sign pos_mod_bound)
  qed
  ultimately have "card {0..<2 ^ Suc n :: nat} \<le> card {1..<q}" by (rule card_inj_on_le) simp
  then have "2 ^ Suc n \<le> nat (q - 1)" by simp
  then have "int (2 ^ Suc n) \<le> q - 1" using q(2) by linarith
  then show ?thesis by simp
qed

definition gl_modulus :: int where "gl_modulus = 18446744069414584321"

lemma gl_modulus_pos [simp]: "0 < gl_modulus" "1 < gl_modulus" "gl_modulus \<noteq> 0" "0 \<le> gl_modulus"
  by (simp_all add: gl_modulus_def)

fun squarings :: "nat \<Rightarrow> int \<Rightarrow> int" where
  "squarings 0 b = b"
| "squarings (Suc k) b = squarings k (b * b mod gl_modulus)"

lemma squarings_power: "squarings k b mod gl_modulus = b ^ 2 ^ k mod gl_modulus"
proof (induction k arbitrary: b)
  case (Suc k)
  have "squarings (Suc k) b mod gl_modulus = (b * b mod gl_modulus) ^ 2 ^ k mod gl_modulus"
    using Suc [of "b * b mod gl_modulus"] by simp
  also have "\<dots> = (b * b) ^ 2 ^ k mod gl_modulus" by (rule power_mod)
  also have "(b * b) ^ 2 ^ k = b ^ 2 ^ Suc k" by (simp add: power_mult power2_eq_square)
  finally show ?case .
qed simp

lemma squarings_numeral: "squarings (numeral k) b = squarings (pred_numeral k) (b * b mod gl_modulus)"
  by (simp add: numeral_eq_Suc)

lemma gl_root_half: "squarings 31 1753635133440165772 = gl_modulus - 1"
  by (simp add: gl_modulus_def squarings_numeral)

lemma gl_divisor_large:
  assumes "q dvd gl_modulus" and "1 < q"
  shows "2 ^ 32 < q"
proof -
  have "odd q"
  proof
    assume "even q"
    then have "2 dvd gl_modulus" using assms(1) by (rule dvd_trans)
    then show False by (simp add: gl_modulus_def)
  qed
  obtain n :: nat where n: "n = 31" by blast
  have "squarings n 1753635133440165772 mod gl_modulus = - 1 mod gl_modulus"
    unfolding n gl_root_half by (simp add: mod_eq_dvd_iff)
  then have "1753635133440165772 ^ 2 ^ n mod gl_modulus = - 1 mod gl_modulus"
    unfolding squarings_power .
  then have "1753635133440165772 ^ 2 ^ n mod q = - 1 mod q"
    using mod_mod_cancel [OF assms(1)] by metis
  from order_bound [OF this \<open>odd q\<close> assms(2)] show ?thesis unfolding n by simp
qed

lemma gl_modulus_prime:
  assumes "gl_modulus dvd x * y"
  shows "gl_modulus dvd x \<or> gl_modulus dvd y"
proof -
  define g where "g = gcd x gl_modulus"
  obtain h where h: "gl_modulus = g * h" unfolding g_def using gcd_dvd2 by (rule dvdE)
  have "0 < g" by (simp add: g_def)
  then have "0 < h" using h gl_modulus_pos(1) by (metis zero_less_mult_pos)
  consider "g = 1" | "h = 1" | "1 < g" "1 < h" using \<open>0 < g\<close> \<open>0 < h\<close> by linarith
  then show ?thesis
  proof cases
    case 1
    then have "coprime gl_modulus x" by (simp add: g_def coprime_iff_gcd_eq_1 gcd.commute)
    then show ?thesis using assms by (simp add: coprime_dvd_mult_right_iff)
  next
    case 2
    then have "gl_modulus = gcd x gl_modulus" using h by (simp add: g_def)
    then show ?thesis by (metis gcd_dvd1)
  next
    case 3
    have "2 ^ 32 < g" using 3(1) by (intro gl_divisor_large) (simp add: h)
    moreover have "2 ^ 32 < h" using 3(2) by (intro gl_divisor_large) (simp add: h)
    ultimately have "(2 ^ 32 + 1) * (2 ^ 32 + 1) \<le> g * h" by (intro mult_mono) auto
    then show ?thesis using h by (simp add: gl_modulus_def)
  qed
qed

subsection \<open>The field\<close>

typedef gl = "{0..<gl_modulus}"
  morphisms gl_rep Abs_gl
  by (intro exI [of _ 0]) simp

setup_lifting type_definition_gl

instantiation gl :: comm_ring_1
begin

lift_definition zero_gl :: gl is 0 by simp
lift_definition one_gl :: gl is 1 by simp
lift_definition plus_gl :: "gl \<Rightarrow> gl \<Rightarrow> gl" is "\<lambda>x y. (x + y) mod gl_modulus" by simp
lift_definition minus_gl :: "gl \<Rightarrow> gl \<Rightarrow> gl" is "\<lambda>x y. (x - y) mod gl_modulus" by simp
lift_definition uminus_gl :: "gl \<Rightarrow> gl" is "\<lambda>x. (- x) mod gl_modulus" by simp
lift_definition times_gl :: "gl \<Rightarrow> gl \<Rightarrow> gl" is "\<lambda>x y. (x * y) mod gl_modulus" by simp

instance
proof
  fix a b c :: gl
  show "a + b + c = a + (b + c)" by transfer (simp add: mod_simps add.assoc)
  show "a + b = b + a" by transfer (simp add: add.commute)
  show "0 + a = a" by transfer simp
  show "- a + a = 0" by transfer (simp add: mod_simps)
  show "a - b = a + - b" by transfer (simp add: mod_simps)
  show "a * b * c = a * (b * c)" by transfer (simp add: mod_simps mult.assoc)
  show "a * b = b * a" by transfer (simp add: mult.commute)
  show "1 * a = a" by transfer simp
  show "(a + b) * c = a * c + b * c" by transfer (simp add: mod_simps distrib_right)
  show "(0 :: gl) \<noteq> 1" by transfer simp
qed

end

lemma gl_rep_bounds [simp]: "0 \<le> gl_rep x" "gl_rep x < gl_modulus"
  using gl_rep [of x] by simp_all

lemma gl_rep_of_int: "gl_rep (of_int n) = n mod gl_modulus"
proof (induction n rule: int_induct [of _ 0])
  case base
  then show ?case by (simp add: zero_gl.rep_eq)
next
  case (step1 i)
  then show ?case by (simp add: plus_gl.rep_eq one_gl.rep_eq mod_simps)
next
  case (step2 i)
  then show ?case by (simp add: minus_gl.rep_eq one_gl.rep_eq mod_simps)
qed

lemma of_int_gl_rep [simp]: "of_int (gl_rep x) = x"
  by (simp add: gl_rep_inject [symmetric] gl_rep_of_int)

lemma of_int_gl_eq_iff: "(of_int a :: gl) = of_int b \<longleftrightarrow> a mod gl_modulus = b mod gl_modulus"
  by (simp add: gl_rep_inject [symmetric] gl_rep_of_int)

lemma of_int_gl_eq_0_iff: "(of_int a :: gl) = 0 \<longleftrightarrow> gl_modulus dvd a"
  using of_int_gl_eq_iff [of a 0] by (simp add: dvd_eq_mod_eq_0)

instantiation gl :: field
begin

lift_definition inverse_gl :: "gl \<Rightarrow> gl" is "\<lambda>x. fst (bezw (nat x) (nat gl_modulus)) mod gl_modulus"
  by simp

definition divide_gl :: "gl \<Rightarrow> gl \<Rightarrow> gl" where "divide_gl x y = x * inverse y"

instance
proof
  fix a b :: gl
  show "inverse (0 :: gl) = 0"
    by transfer (simp add: bezw_non_0 gl_modulus_def)
  show "a div b = a * inverse b" by (rule divide_gl_def)
  assume "a \<noteq> 0"
  define x where "x = gl_rep a"
  have x: "0 < x" "x < gl_modulus" using \<open>a \<noteq> 0\<close> gl_rep_bounds [of a]
    by (auto simp: x_def gl_rep_inject [symmetric] zero_gl.rep_eq less_le simp del: gl_rep_bounds)
  have "coprime x gl_modulus"
  proof -
    let ?g = "gcd x gl_modulus"
    have "?g = 1"
    proof (rule ccontr)
      assume "?g \<noteq> 1"
      moreover have "0 < ?g" by simp
      ultimately have g: "1 < ?g" by linarith
      obtain h where h: "gl_modulus = ?g * h" using gcd_dvd2 by (rule dvdE)
      have "?g \<le> x" using x(1) by (simp add: zdvd_imp_le)
      have "\<not> gl_modulus dvd ?g" using \<open>?g \<le> x\<close> x(2) g by (auto dest: zdvd_imp_le)
      moreover have "gl_modulus dvd ?g * h" using h by simp
      ultimately have "gl_modulus dvd h" using gl_modulus_prime by blast
      moreover have "0 < h"
      proof (rule zero_less_mult_pos)
        show "0 < ?g * h" using h gl_modulus_pos(1) by simp
        show "0 < ?g" using g by simp
      qed
      ultimately have "gl_modulus \<le> h" by (rule zdvd_imp_le)
      then have "?g * h > h" using g \<open>0 < h\<close> by simp
      with h \<open>gl_modulus \<le> h\<close> show False by simp
    qed
    then show ?thesis by (simp add: coprime_iff_gcd_eq_1)
  qed
  then have "int (gcd (nat x) (nat gl_modulus)) = 1"
    using x by (simp add: gcd_int_def coprime_iff_gcd_eq_1)
  then have "1 = fst (bezw (nat x) (nat gl_modulus)) * x + snd (bezw (nat x) (nat gl_modulus)) * gl_modulus"
    using bezw_aux [of "nat x" "nat gl_modulus"] x(1) by simp
  then have "1 mod gl_modulus = fst (bezw (nat x) (nat gl_modulus)) * x mod gl_modulus"
    by (metis mod_mult_self1)
  then show "inverse a * a = 1"
    by (simp add: gl_rep_inject [symmetric] times_gl.rep_eq inverse_gl.rep_eq one_gl.rep_eq x_def mod_simps)
qed

end

text \<open>Canonical values, \<open>from_canonical_u64\<close> (which is \<open>of_nat\<close>) and \<open>to_canonical_u64\<close>.\<close>

definition to_canonical_u64 :: "gl \<Rightarrow> nat" where
  "to_canonical_u64 x = nat (gl_rep x)"

lemma to_canonical_of_nat: "n < 18446744069414584321 \<Longrightarrow> to_canonical_u64 (of_nat n) = n"
  using gl_rep_of_int [of "int n"] by (simp add: to_canonical_u64_def gl_modulus_def)

lemma of_nat_to_canonical [simp]: "of_nat (to_canonical_u64 x) = x"
  by (metis gl_rep_bounds(1) int_nat_eq of_int_gl_rep of_int_of_nat_eq to_canonical_u64_def)

text \<open>Equations between images of integers of less than the modulus are equations of integers.\<close>

lemma of_int_gl_inject:
  "\<bar>a - b\<bar> < gl_modulus \<Longrightarrow> (of_int a :: gl) = of_int b \<longleftrightarrow> a = b"
  using of_int_gl_eq_0_iff [of "a - b"] zdvd_imp_le [of gl_modulus "\<bar>a - b\<bar>"] by auto

lemma of_nat_gl_inject:
  "a < 18446744069414584321 \<Longrightarrow> b < 18446744069414584321 \<Longrightarrow> (of_nat a :: gl) = of_nat b \<longleftrightarrow> a = b"
  by (metis to_canonical_of_nat)

lemma numeral_gl_eq_iff: "(numeral a :: gl) = numeral b \<longleftrightarrow> (numeral a :: int) mod gl_modulus = numeral b mod gl_modulus"
  using of_int_gl_eq_iff [of "numeral a" "numeral b"] by simp

lemma numeral_gl_eq_0_iff: "(numeral a :: gl) = 0 \<longleftrightarrow> (numeral a :: int) mod gl_modulus = 0"
  using of_int_gl_eq_iff [of "numeral a" 0] by simp

lemma numeral_gl_eq_1_iff: "(numeral a :: gl) = 1 \<longleftrightarrow> (numeral a :: int) mod gl_modulus = 1"
  using of_int_gl_eq_iff [of "numeral a" 1] by simp

end
