(* ===== verification/Expression.thy ===== *)
theory Expression
  imports Goldilocks
begin

text \<open>
  Circuit expressions (\<open>multilinear_extensions/src/expression.rs\<close>): their operators, which fold
  constants and challenges and form scaled sums, their degree and their evaluation. An element of
  the base field is represented by its image in the extension field; \<open>Inl\<close> and \<open>Inr\<close> of a
  constant are \<open>Either::Left\<close> and \<open>Either::Right\<close>.
\<close>

subsection \<open>Expressions\<close>

datatype 'f expression =
    WitIn nat
  | StructuralWitIn nat nat nat nat
  | Fixed nat
  | Instance nat
  | Constant "'f + 'f"
  | SumE "'f expression" "'f expression"
  | ProductE "'f expression" "'f expression"
  | ScaledSum "'f expression" "'f expression" "'f expression"
  | Challenge nat nat 'f 'f

definition either_value :: "'f + 'f \<Rightarrow> 'f" where
  "either_value c = (case c of Inl x \<Rightarrow> x | Inr x \<Rightarrow> x)"

lemma either_value_simps [simp]: "either_value (Inl x) = x" "either_value (Inr x) = x"
  by (simp_all add: either_value_def)

fun combine_cumulative_either :: "'f + 'f \<Rightarrow> 'f + 'f \<Rightarrow> ('f \<Rightarrow> 'f \<Rightarrow> 'f) \<Rightarrow> 'f + 'f" where
  "combine_cumulative_either (Inl c1) (Inl c2) f = Inl (f c1 c2)"
| "combine_cumulative_either (Inl c1) (Inr c2) f = Inr (f c2 c1)"
| "combine_cumulative_either (Inr c1) (Inl c2) f = Inr (f c1 c2)"
| "combine_cumulative_either (Inr c1) (Inr c2) f = Inr (f c2 c1)"

lemma either_value_combine:
  "(\<And>x y. f x y = f y x) \<Longrightarrow>
   either_value (combine_cumulative_either a b f) = f (either_value a) (either_value b)"
  by (cases a; cases b) auto

fun degree :: "'f expression \<Rightarrow> nat" where
  "degree (Fixed _) = 1"
| "degree (WitIn _) = 1"
| "degree (StructuralWitIn _ _ _ _) = 1"
| "degree (Instance _) = 0"
| "degree (Constant _) = 0"
| "degree (SumE a b) = max (degree a) (degree b)"
| "degree (ProductE a b) = degree a + degree b"
| "degree (ScaledSum x _ _) = degree x"
| "degree (Challenge _ _ _ _) = 0"

subsection \<open>Evaluation\<close>

text \<open>The closures \<open>evaluate_with_instance\<close> takes.\<close>

record ('f, 't) evaluator =
  fixed_in :: "nat \<Rightarrow> 't"
  wit_in :: "nat \<Rightarrow> 't"
  structural_wit_in :: "nat \<Rightarrow> nat \<Rightarrow> nat \<Rightarrow> nat \<Rightarrow> 't"
  instance_in :: "nat \<Rightarrow> 't"
  constant_in :: "'f + 'f \<Rightarrow> 't"
  challenge_in :: "nat \<Rightarrow> nat \<Rightarrow> 'f \<Rightarrow> 'f \<Rightarrow> 't"
  sum_in :: "'t \<Rightarrow> 't \<Rightarrow> 't"
  product_in :: "'t \<Rightarrow> 't \<Rightarrow> 't"
  scaled_in :: "'t \<Rightarrow> 't \<Rightarrow> 't \<Rightarrow> 't"

primrec evaluate_with_instance :: "('f, 't) evaluator \<Rightarrow> 'f expression \<Rightarrow> 't" where
  "evaluate_with_instance ev (Fixed f) = fixed_in ev f"
| "evaluate_with_instance ev (WitIn i) = wit_in ev i"
| "evaluate_with_instance ev (StructuralWitIn i max_len offset multi_factor) =
     structural_wit_in ev i max_len offset multi_factor"
| "evaluate_with_instance ev (Instance i) = instance_in ev i"
| "evaluate_with_instance ev (Constant scalar) = constant_in ev scalar"
| "evaluate_with_instance ev (SumE a b) =
     sum_in ev (evaluate_with_instance ev a) (evaluate_with_instance ev b)"
| "evaluate_with_instance ev (ProductE a b) =
     product_in ev (evaluate_with_instance ev a) (evaluate_with_instance ev b)"
| "evaluate_with_instance ev (ScaledSum x a b) =
     scaled_in ev (evaluate_with_instance ev x) (evaluate_with_instance ev a) (evaluate_with_instance ev b)"
| "evaluate_with_instance ev (Challenge i pow scalar offset) = challenge_in ev i pow scalar offset"

text \<open>The values expressions refer to, and the value of an expression in the field.\<close>

record 'f environment =
  fixed_value :: "nat \<Rightarrow> 'f"
  witness_value :: "nat \<Rightarrow> 'f"
  structural_value :: "nat \<Rightarrow> 'f"
  instance_value :: "nat \<Rightarrow> 'f"
  challenge_value :: "nat \<Rightarrow> 'f"

definition field_evaluator :: "'f::field environment \<Rightarrow> ('f, 'f) evaluator" where
  "field_evaluator env =
     \<lparr>fixed_in = fixed_value env, wit_in = witness_value env,
      structural_wit_in = (\<lambda>i _ _ _. structural_value env i), instance_in = instance_value env,
      constant_in = either_value,
      challenge_in = (\<lambda>i pow scalar offset. challenge_value env i ^ pow * scalar + offset),
      sum_in = (+), product_in = (*), scaled_in = (\<lambda>x a b. a * x + b)\<rparr>"

definition eval :: "'f::field environment \<Rightarrow> 'f expression \<Rightarrow> 'f" where
  "eval env = evaluate_with_instance (field_evaluator env)"

lemma eval_simps [simp]:
  "eval env (Fixed f) = fixed_value env f"
  "eval env (WitIn i) = witness_value env i"
  "eval env (StructuralWitIn i m off k) = structural_value env i"
  "eval env (Instance i) = instance_value env i"
  "eval env (Constant c) = either_value c"
  "eval env (SumE a b) = eval env a + eval env b"
  "eval env (ProductE a b) = eval env a * eval env b"
  "eval env (ScaledSum x a b) = eval env a * eval env x + eval env b"
  "eval env (Challenge i pow s t) = challenge_value env i ^ pow * s + t"
  by (simp_all add: eval_def field_evaluator_def)

subsection \<open>Operators\<close>

primrec neg_expression :: "'a::field expression \<Rightarrow> 'a expression" where
  "neg_expression (Fixed f) = ScaledSum (Fixed f) (Constant (Inl (- 1))) (Constant (Inl 0))"
| "neg_expression (WitIn i) = ScaledSum (WitIn i) (Constant (Inl (- 1))) (Constant (Inl 0))"
| "neg_expression (StructuralWitIn i m t k) =
     ScaledSum (StructuralWitIn i m t k) (Constant (Inl (- 1))) (Constant (Inl 0))"
| "neg_expression (Instance i) = ScaledSum (Instance i) (Constant (Inl (- 1))) (Constant (Inl 0))"
| "neg_expression (Constant c1) = Constant (map_sum uminus uminus c1)"
| "neg_expression (SumE a b) = SumE (neg_expression a) (neg_expression b)"
| "neg_expression (ProductE a b) = ProductE (neg_expression a) b"
| "neg_expression (ScaledSum x a b) = ScaledSum x (neg_expression a) (neg_expression b)"
| "neg_expression (Challenge i pow scalar offset) = Challenge i pow (- scalar) (- offset)"

text \<open>The variants the operators treat as \<open>x\<close> and as \<open>b\<close> of a scaled sum \<open>a * x + b\<close>.\<close>

definition is_linear_atom :: "'a expression \<Rightarrow> bool" where
  "is_linear_atom e = (case e of WitIn _ \<Rightarrow> True | Fixed _ \<Rightarrow> True | Instance _ \<Rightarrow> True | _ \<Rightarrow> False)"

definition is_scalar_atom :: "'a expression \<Rightarrow> bool" where
  "is_scalar_atom e = (case e of Constant _ \<Rightarrow> True | Challenge _ _ _ _ \<Rightarrow> True | _ \<Rightarrow> False)"

function add_expression :: "'a::field expression \<Rightarrow> 'a expression \<Rightarrow> 'a expression" where
  "add_expression l r =
     (if is_linear_atom l \<and> is_scalar_atom r then ScaledSum l (Constant (Inl 1)) r
      else if is_scalar_atom l \<and> is_linear_atom r then ScaledSum r (Constant (Inl 1)) l
      else case (l, r) of
        (Constant c1, Challenge i pow scalar offset) \<Rightarrow> Challenge i pow scalar (offset + either_value c1)
      | (Challenge i pow scalar offset, Constant c1) \<Rightarrow> Challenge i pow scalar (offset + either_value c1)
      | (Challenge i1 pow1 scalar1 offset1, Challenge i2 pow2 scalar2 offset2) \<Rightarrow>
          if i1 = i2 \<and> pow1 = pow2 then Challenge i1 pow1 (scalar1 + scalar2) (offset1 + offset2)
          else SumE l r
      | (Constant c1, Constant c2) \<Rightarrow> Constant (combine_cumulative_either c1 c2 (+))
      | (Constant c1, ScaledSum x a b) \<Rightarrow> ScaledSum x a (add_expression b l)
      | (ScaledSum x a b, Constant c1) \<Rightarrow> ScaledSum x a (add_expression b r)
      | _ \<Rightarrow> SumE l r)"
  by pat_completeness auto
termination
  by (relation "measure (\<lambda>(l, r). size l + size r)") auto

declare add_expression.simps [simp del]

function sub_expression :: "'a::field expression \<Rightarrow> 'a expression \<Rightarrow> 'a expression" where
  "sub_expression l r =
     (if is_linear_atom l \<and> is_scalar_atom r then ScaledSum l (Constant (Inl 1)) (neg_expression r)
      else if is_scalar_atom l \<and> is_linear_atom r then ScaledSum r (Constant (Inl (- 1))) l
      else case (l, r) of
        (Constant c1, Challenge i pow scalar offset) \<Rightarrow> Challenge i pow scalar (- offset + either_value c1)
      | (Challenge i pow scalar offset, Constant c1) \<Rightarrow> Challenge i pow scalar (offset - either_value c1)
      | (Challenge i1 pow1 scalar1 offset1, Challenge i2 pow2 scalar2 offset2) \<Rightarrow>
          if i1 = i2 \<and> pow1 = pow2 then Challenge i1 pow1 (scalar1 - scalar2) (offset1 - offset2)
          else SumE l (neg_expression r)
      | (Constant c1, Constant c2) \<Rightarrow> Constant
          (case (c1, c2) of
             (Inl x, Inl y) \<Rightarrow> Inl (x - y)
           | (Inl x, Inr y) \<Rightarrow> Inr (- y + x)
           | (Inr x, Inl y) \<Rightarrow> Inr (x - y)
           | (Inr x, Inr y) \<Rightarrow> Inr (x - y))
      | (Constant c1, ScaledSum x a b) \<Rightarrow> ScaledSum x (neg_expression a) (sub_expression l b)
      | (ScaledSum x a b, Constant c1) \<Rightarrow> ScaledSum x a (sub_expression b r)
      | (Challenge i pow scalar offset, ScaledSum x a b) \<Rightarrow> ScaledSum x (neg_expression a) (sub_expression l b)
      | (ScaledSum x a b, Challenge i pow scalar offset) \<Rightarrow> ScaledSum x a (sub_expression b r)
      | _ \<Rightarrow> SumE l (neg_expression r))"
  by pat_completeness auto
termination
  by (relation "measure (\<lambda>(l, r). size l + size r)") auto

declare sub_expression.simps [simp del]

text \<open>The product of two challenges of the same id, \<open>(s1 * c ^ p1 + t1) * (s2 * c ^ p2 + t2)\<close>.\<close>

definition times_challenges ::
  "nat \<Rightarrow> nat \<Rightarrow> 'a::field \<Rightarrow> 'a \<Rightarrow> nat \<Rightarrow> 'a \<Rightarrow> 'a \<Rightarrow> 'a expression" where
  "times_challenges i pow1 s1 offset1 pow2 s2 offset2 =
     (let result = Challenge i (pow1 + pow2) (s1 * s2) (offset1 * offset2);
          result = (if s1 \<noteq> 0 \<and> offset2 \<noteq> 0 then SumE result (Challenge i pow1 (offset2 * s1) 0) else result)
      in if s2 \<noteq> 0 \<and> offset1 \<noteq> 0 then SumE result (Challenge i pow2 (offset1 * s2) 0) else result)"

definition is_committed_atom :: "'a expression \<Rightarrow> bool" where
  "is_committed_atom e = (case e of WitIn _ \<Rightarrow> True | Fixed _ \<Rightarrow> True | _ \<Rightarrow> False)"

definition is_factor_atom :: "'a expression \<Rightarrow> bool" where
  "is_factor_atom e =
     (case e of Constant _ \<Rightarrow> True | Challenge _ _ _ _ \<Rightarrow> True | Instance _ \<Rightarrow> True | _ \<Rightarrow> False)"

function mul_expression :: "'a::field expression \<Rightarrow> 'a expression \<Rightarrow> 'a expression" where
  "mul_expression l r =
     (if is_factor_atom l \<and> is_committed_atom r then ScaledSum r l (Constant (Inl 0))
      else if is_committed_atom l \<and> is_factor_atom r then ScaledSum l r (Constant (Inl 0))
      else case (l, r) of
        (Constant c1, Challenge i pow scalar offset) \<Rightarrow>
          Challenge i pow (scalar * either_value c1) (offset * either_value c1)
      | (Challenge i pow scalar offset, Constant c1) \<Rightarrow>
          Challenge i pow (scalar * either_value c1) (offset * either_value c1)
      | (Challenge i1 pow1 s1 offset1, Challenge i2 pow2 s2 offset2) \<Rightarrow>
          if i1 = i2 then times_challenges i1 pow1 s1 offset1 pow2 s2 offset2 else ProductE l r
      | (Constant c1, Constant c2) \<Rightarrow> Constant (combine_cumulative_either c1 c2 (*))
      | (ScaledSum x a b, Constant c2) \<Rightarrow> ScaledSum x (mul_expression a r) (mul_expression b r)
      | (Constant c2, ScaledSum x a b) \<Rightarrow> ScaledSum x (mul_expression a l) (mul_expression b l)
      | (ScaledSum x a b, Challenge i pow scalar offset) \<Rightarrow>
          ScaledSum x (mul_expression a r) (mul_expression b r)
      | (Challenge i pow scalar offset, ScaledSum x a b) \<Rightarrow>
          ScaledSum x (mul_expression a l) (mul_expression b l)
      | _ \<Rightarrow> ProductE l r)"
  by pat_completeness auto
termination
  by (relation "measure (\<lambda>(l, r). size l + size r)") auto

declare mul_expression.simps [simp del]

text \<open>The trait implementations: the operators are the functions above.\<close>

instantiation expression :: (field) "{zero, one, uminus, plus, minus, times}"
begin

definition zero_expression :: "'a expression" where "zero_expression = Constant (Inl 0)"
definition one_expression :: "'a expression" where "one_expression = Constant (Inl 1)"
definition uminus_expression :: "'a expression \<Rightarrow> 'a expression" where
  "uminus_expression = neg_expression"
definition plus_expression :: "'a expression \<Rightarrow> 'a expression \<Rightarrow> 'a expression" where
  "plus_expression = add_expression"
definition minus_expression :: "'a expression \<Rightarrow> 'a expression \<Rightarrow> 'a expression" where
  "minus_expression = sub_expression"
definition times_expression :: "'a expression \<Rightarrow> 'a expression \<Rightarrow> 'a expression" where
  "times_expression = mul_expression"

instance ..
end

lemmas operator_folds = uminus_expression_def [symmetric] plus_expression_def [symmetric]
  minus_expression_def [symmetric] times_expression_def [symmetric]

lemmas uminus_expression_simps [simp] = neg_expression.simps [unfolded operator_folds]
lemmas plus_expression_simps = add_expression.simps [unfolded operator_folds]
lemmas minus_expression_simps = sub_expression.simps [unfolded operator_folds]
lemmas times_expression_simps = mul_expression.simps [unfolded operator_folds]
lemmas plus_expression_induct = add_expression.induct [unfolded operator_folds]
lemmas minus_expression_induct = sub_expression.induct [unfolded operator_folds]
lemmas times_expression_induct = mul_expression.induct [unfolded operator_folds]

lemmas atom_defs = is_linear_atom_def is_scalar_atom_def is_committed_atom_def is_factor_atom_def

subsection \<open>Evaluation is a homomorphism\<close>

lemma eval_zero_one [simp]: "eval env 0 = 0" "eval env 1 = 1"
  by (simp_all add: zero_expression_def one_expression_def)

lemma either_value_map [simp]: "either_value (map_sum uminus uminus c) = - either_value c"
  by (cases c) auto

lemma eval_uminus [simp]: "eval env (- e) = - eval env e"
  by (induction e) (simp_all add: algebra_simps)

lemma eval_plus [simp]: "eval env (l + r) = eval env l + eval env r"
proof (induction l r rule: plus_expression_induct)
  case (1 l r)
  show ?case
    by (subst plus_expression_simps)
      (use 1 in \<open>auto simp: atom_defs algebra_simps either_value_combine split: expression.split\<close>)
qed

lemma eval_times [simp]: "eval env (l * r) = eval env l * eval env r"
proof (induction l r rule: times_expression_induct)
  case (1 l r)
  show ?case
    by (subst times_expression_simps)
      (use 1 in \<open>auto simp: atom_defs algebra_simps either_value_combine times_challenges_def Let_def power_add
        split: expression.split\<close>)
qed

text \<open>
  A difference of a constant and a challenge keeps the sign of the challenge's scalar; wherever no
  such difference is formed, subtraction evaluates as in the field.
\<close>

fun sub_safe :: "'f expression \<Rightarrow> 'f expression \<Rightarrow> bool" where
  "sub_safe (Constant _) (Challenge _ _ _ _) \<longleftrightarrow> False"
| "sub_safe (Constant c) (ScaledSum x a b) \<longleftrightarrow> sub_safe (Constant c) b"
| "sub_safe (ScaledSum x a b) (Challenge i pow s t) \<longleftrightarrow> sub_safe b (Challenge i pow s t)"
| "sub_safe _ _ \<longleftrightarrow> True"

lemma sub_safe_challenge_left [simp]: "sub_safe (Challenge i pow s t) e"
  by (cases e) auto

lemma eval_minus_safe: "sub_safe l r \<Longrightarrow> eval env (l - r) = eval env l - eval env r"
proof (induction l r rule: minus_expression_induct)
  case (1 l r)
  show ?case
    by (subst minus_expression_simps)
      (use 1 in \<open>auto simp: atom_defs algebra_simps split: expression.split sum.split\<close>)
qed

text \<open>Expressions without challenges, which is what constraints are made of.\<close>

primrec challenge_free :: "'f expression \<Rightarrow> bool" where
  "challenge_free (WitIn _) \<longleftrightarrow> True"
| "challenge_free (StructuralWitIn _ _ _ _) \<longleftrightarrow> True"
| "challenge_free (Fixed _) \<longleftrightarrow> True"
| "challenge_free (Instance _) \<longleftrightarrow> True"
| "challenge_free (Constant _) \<longleftrightarrow> True"
| "challenge_free (SumE a b) \<longleftrightarrow> challenge_free a \<and> challenge_free b"
| "challenge_free (ProductE a b) \<longleftrightarrow> challenge_free a \<and> challenge_free b"
| "challenge_free (ScaledSum x a b) \<longleftrightarrow> challenge_free x \<and> challenge_free a \<and> challenge_free b"
| "challenge_free (Challenge _ _ _ _) \<longleftrightarrow> False"

lemma challenge_free_zero_one [simp]: "challenge_free 0" "challenge_free 1"
  by (simp_all add: zero_expression_def one_expression_def)

lemma challenge_free_uminus [simp]: "challenge_free (- e) = challenge_free e"
  by (induction e) simp_all

lemma challenge_free_plus [simp]: "challenge_free l \<Longrightarrow> challenge_free r \<Longrightarrow> challenge_free (l + r)"
proof (induction l r rule: plus_expression_induct)
  case (1 l r)
  show ?case
    by (subst plus_expression_simps) (use 1 in \<open>auto simp: atom_defs split: expression.splits\<close>)
qed

lemma challenge_free_minus [simp]: "challenge_free l \<Longrightarrow> challenge_free r \<Longrightarrow> challenge_free (l - r)"
proof (induction l r rule: minus_expression_induct)
  case (1 l r)
  show ?case
    by (subst minus_expression_simps) (use 1 in \<open>auto simp: atom_defs split: expression.splits\<close>)
qed

lemma challenge_free_times [simp]: "challenge_free l \<Longrightarrow> challenge_free r \<Longrightarrow> challenge_free (l * r)"
proof (induction l r rule: times_expression_induct)
  case (1 l r)
  show ?case
    by (subst times_expression_simps) (use 1 in \<open>auto simp: atom_defs split: expression.splits\<close>)
qed

lemma sub_safe_challenge_free: "challenge_free r \<Longrightarrow> sub_safe l r"
  by (induction l r rule: sub_safe.induct) auto

lemma eval_minus [simp]: "challenge_free r \<Longrightarrow> eval env (l - r) = eval env l - eval env r"
  by (simp add: eval_minus_safe sub_safe_challenge_free)

subsection \<open>Sums, products, shifts and conversions\<close>

text \<open>\<open>Sum\<close> and \<open>Product\<close> of iterators fold from zero and one; \<open>expr << n\<close> is \<open>expr * (1 << n)\<close>.\<close>

definition sum_expr :: "'f::field expression list \<Rightarrow> 'f expression" where
  "sum_expr es = foldl (+) 0 es"

definition product_expr :: "'f::field expression list \<Rightarrow> 'f expression" where
  "product_expr es = foldl (*) 1 es"

definition from_unsigned :: "nat \<Rightarrow> 'f::field expression" where
  "from_unsigned n = Constant (Inl (of_nat n))"

definition shl_expr :: "'f::field expression \<Rightarrow> nat \<Rightarrow> 'f expression" where
  "shl_expr e n = e * from_unsigned (2 ^ n)"

lemma eval_foldl_plus: "eval env (foldl (+) a es) = eval env a + sum_list (map (eval env) es)"
  by (induction es arbitrary: a) (simp_all add: add.assoc)

lemma eval_foldl_times: "eval env (foldl (*) a es) = eval env a * prod_list (map (eval env) es)"
  by (induction es arbitrary: a) (simp_all add: mult.assoc)

lemma eval_sum_expr [simp]: "eval env (sum_expr es) = sum_list (map (eval env) es)"
  by (simp add: sum_expr_def eval_foldl_plus)

lemma eval_product_expr [simp]: "eval env (product_expr es) = prod_list (map (eval env) es)"
  by (simp add: product_expr_def eval_foldl_times)

lemma eval_from_unsigned [simp]: "eval env (from_unsigned n) = of_nat n"
  by (simp add: from_unsigned_def)

lemma eval_shl_expr [simp]: "eval env (shl_expr e n) = eval env e * 2 ^ n"
  by (simp add: shl_expr_def)

lemma challenge_free_from [simp]: "challenge_free (from_unsigned n)"
  by (simp add: from_unsigned_def)

lemma challenge_free_shl [simp]: "challenge_free e \<Longrightarrow> challenge_free (shl_expr e n)"
  by (simp add: shl_expr_def)

lemma challenge_free_foldl_plus:
  "challenge_free a \<Longrightarrow> \<forall>e \<in> set es. challenge_free e \<Longrightarrow> challenge_free (foldl (+) a es)"
  by (induction es arbitrary: a) simp_all

lemma challenge_free_sum [simp]: "\<forall>e \<in> set es. challenge_free e \<Longrightarrow> challenge_free (sum_expr es)"
  by (simp add: sum_expr_def challenge_free_foldl_plus)

subsection \<open>Degrees\<close>

lemma degree_uminus [simp]: "degree (- e) = degree e"
  by (induction e) simp_all

lemma degree_plus [simp]: "degree (l + r) = max (degree l) (degree r)"
proof (induction l r rule: plus_expression_induct)
  case (1 l r)
  show ?case
    by (subst plus_expression_simps) (use 1 in \<open>auto simp: atom_defs split: expression.splits\<close>)
qed

lemma degree_minus [simp]: "degree (l - r) = max (degree l) (degree r)"
proof (induction l r rule: minus_expression_induct)
  case (1 l r)
  show ?case
    by (subst minus_expression_simps) (use 1 in \<open>auto simp: atom_defs split: expression.splits\<close>)
qed

lemma degree_times [simp]: "degree (l * r) = degree l + degree r"
proof (induction l r rule: times_expression_induct)
  case (1 l r)
  show ?case
    by (subst times_expression_simps)
      (use 1 in \<open>auto simp: atom_defs times_challenges_def Let_def split: expression.splits\<close>)
qed

lemma degree_zero_one [simp]: "degree 0 = 0" "degree 1 = 0"
  by (simp_all add: zero_expression_def one_expression_def)

lemma degree_from_unsigned [simp]: "degree (from_unsigned n) = 0"
  by (simp add: from_unsigned_def)

lemma degree_shl_expr [simp]: "degree (shl_expr e n) = degree e"
  by (simp add: shl_expr_def)

lemma degree_foldl_plus: "degree (foldl (+) a es) = fold max (map degree es) (degree a)"
  by (induction es arbitrary: a) (simp_all add: max.commute)

lemma degree_sum_expr [simp]: "degree (sum_expr es) = fold max (map degree es) 0"
  by (simp add: sum_expr_def degree_foldl_plus)

subsection \<open>Evaluation over value lists\<close>

text \<open>
  \<open>eval_by_expr_with_fixed\<close> and \<open>eval_by_expr_with_instance\<close> of \<open>expression/utils.rs\<close>. A panic (an index
  out of bounds, or an instance in the first) is \<open>None\<close>.
\<close>

definition index_checked :: "'a list \<Rightarrow> nat \<Rightarrow> 'a option" where
  "index_checked xs i = (if i < length xs then Some (xs ! i) else None)"

definition challenge_checked :: "'f::field list \<Rightarrow> nat \<Rightarrow> nat \<Rightarrow> 'f \<Rightarrow> 'f \<Rightarrow> 'f option" where
  "challenge_checked challenges i pow scalar offset =
     map_option (\<lambda>c. c ^ pow * scalar + offset) (index_checked challenges i)"

definition both :: "('a \<Rightarrow> 'a \<Rightarrow> 'a) \<Rightarrow> 'a option \<Rightarrow> 'a option \<Rightarrow> 'a option" where
  "both f a b = (case a of None \<Rightarrow> None | Some x \<Rightarrow> map_option (f x) b)"

definition eval_by_expr_with_fixed ::
  "'f::field list \<Rightarrow> 'f list \<Rightarrow> 'f list \<Rightarrow> 'f list \<Rightarrow> 'f expression \<Rightarrow> 'f option" where
  "eval_by_expr_with_fixed fixed witnesses structural_witnesses challenges =
     evaluate_with_instance
       \<lparr>fixed_in = index_checked fixed, wit_in = index_checked witnesses,
        structural_wit_in = (\<lambda>i _ _ _. index_checked structural_witnesses i),
        instance_in = (\<lambda>_. None), constant_in = (\<lambda>c. Some (either_value c)),
        challenge_in = challenge_checked challenges, sum_in = both (+), product_in = both (*),
        scaled_in = (\<lambda>x a b. both (+) (both (*) a x) b)\<rparr>"

definition eval_by_expr :: "'f::field list \<Rightarrow> 'f list \<Rightarrow> 'f list \<Rightarrow> 'f expression \<Rightarrow> 'f option" where
  "eval_by_expr witnesses structural_witnesses challenges =
     eval_by_expr_with_fixed [] witnesses structural_witnesses challenges"

definition eval_by_expr_constant :: "'f::field list \<Rightarrow> 'f expression \<Rightarrow> 'f option" where
  "eval_by_expr_constant challenges = eval_by_expr_with_fixed [] [] [] challenges"

definition eval_by_expr_with_instance ::
  "'f::field list \<Rightarrow> 'f list \<Rightarrow> 'f list \<Rightarrow> 'f list \<Rightarrow> 'f list \<Rightarrow> 'f expression \<Rightarrow> ('f + 'f) option" where
  "eval_by_expr_with_instance fixed witnesses structural_witnesses inst challenges =
     (let combine = (\<lambda>f. both (\<lambda>a b. combine_cumulative_either a b f)) in
      evaluate_with_instance
       \<lparr>fixed_in = (\<lambda>i. map_option Inr (index_checked fixed i)),
        wit_in = (\<lambda>i. map_option Inr (index_checked witnesses i)),
        structural_wit_in = (\<lambda>i _ _ _. map_option Inr (index_checked structural_witnesses i)),
        instance_in = (\<lambda>i. map_option Inr (index_checked inst i)), constant_in = Some,
        challenge_in = (\<lambda>i pow s t. map_option Inr (challenge_checked challenges i pow s t)),
        sum_in = combine (+), product_in = combine (*),
        scaled_in = (\<lambda>x a b. combine (+) (combine (*) a x) b)\<rparr>)"

definition env_of_lists :: "'f list \<Rightarrow> 'f list \<Rightarrow> 'f list \<Rightarrow> 'f list \<Rightarrow> 'f list \<Rightarrow> 'f environment" where
  "env_of_lists fixed witnesses structural_witnesses inst challenges =
     \<lparr>fixed_value = (!) fixed, witness_value = (!) witnesses, structural_value = (!) structural_witnesses,
      instance_value = (!) inst, challenge_value = (!) challenges\<rparr>"

lemma both_Some: "both f a b = Some z \<longleftrightarrow> (\<exists>x y. a = Some x \<and> b = Some y \<and> z = f x y)"
  by (auto simp: both_def split: option.splits)

lemma index_checked_Some: "index_checked xs i = Some x \<longleftrightarrow> i < length xs \<and> xs ! i = x"
  by (simp add: index_checked_def)

lemma eval_by_expr_with_fixed_value:
  "eval_by_expr_with_fixed fixed wits swits chals e = Some v \<Longrightarrow>
   eval (env_of_lists fixed wits swits inst chals) e = v"
  by (induction e arbitrary: v)
    (auto simp: eval_by_expr_with_fixed_def env_of_lists_def both_Some index_checked_Some challenge_checked_def)

lemma eval_by_expr_with_instance_value:
  "eval_by_expr_with_instance fixed wits swits inst chals e = Some v \<Longrightarrow>
   eval (env_of_lists fixed wits swits inst chals) e = either_value v"
  by (induction e arbitrary: v)
    (auto simp: eval_by_expr_with_instance_def env_of_lists_def both_Some index_checked_Some
      challenge_checked_def Let_def either_value_combine algebra_simps)

lemma evaluators_agree:
  "eval_by_expr_with_instance fixed wits swits inst chals e = Some v \<Longrightarrow>
   eval_by_expr_with_fixed fixed wits swits chals e = Some w \<Longrightarrow> either_value v = w"
  using eval_by_expr_with_instance_value eval_by_expr_with_fixed_value by fastforce

subsection \<open>Properties\<close>

text \<open>
  A constant minus a challenge is not their difference: the scalar of the challenge keeps its
  sign, so the value is off by twice the scaled power of the challenge.
\<close>

theorem constant_minus_challenge:
  "eval env (Constant c - Challenge i pow s t) =
   (eval env (Constant c) - eval env (Challenge i pow s t)) + 2 * (challenge_value env i ^ pow * s)"
  by (simp add: minus_expression_simps atom_defs algebra_simps)

text \<open>
  C21. The operators on expressions, whatever folding they do, evaluate to the field operations: sum,
  product and negation for all expressions, the difference for \<open>sub_safe\<close> ones, in which no constant
  meets a challenge to be subtracted from it; a constant minus a challenge is off by twice the scaled
  power of the challenge.
\<close>

theorem expression_operators_homomorphic:
  "eval env (a + b) = eval env a + eval env b \<and> eval env (a * b) = eval env a * eval env b \<and>
   eval env (- a) = - eval env a \<and> (sub_safe a b \<longrightarrow> eval env (a - b) = eval env a - eval env b) \<and>
   eval env (Constant c - Challenge i pow s t) =
     eval env (Constant c) - eval env (Challenge i pow s t) + 2 * (challenge_value env i ^ pow * s)"
  by (simp add: eval_minus_safe constant_minus_challenge)

theorem expression_operators_homomorphic_witness:
  "let env = env_of_lists [] [7] [] [] [] in
     eval env (WitIn 0 - (Constant (Inl 5) :: gl expression)) = 2 \<and> eval env (WitIn 0 * (Constant (Inl 5) :: gl expression)) = 35"
  using expression_operators_homomorphic [of "env_of_lists [] [7] [] [] []" "WitIn 0" "Constant (Inl (5 :: gl))"]
  by (simp add: env_of_lists_def Let_def)

end
