(* ===== verification/Monomial.thy ===== *)
theory Monomial
  imports Expression "HOL-Library.Multiset" "HOL-Library.Product_Lexorder"
begin

text \<open>
  Expressions as sums of monomials (\<open>multilinear_extensions/src/expression/monomial.rs\<close>, and
  \<open>is_monomial_form\<close> of \<open>expression.rs\<close>). \<open>into_group_map\<close> collects into a \<open>HashMap\<close>, whose iteration
  order is unspecified; the model takes the order of first occurrence, and
  \<open>eval_sum_terms_mset\<close> shows that the value does not depend on it.
\<close>

subsection \<open>Terms\<close>

record 'f Term =
  scalar :: "'f expression"
  product :: "'f expression list"

definition eval_term :: "'f::field environment \<Rightarrow> 'f Term \<Rightarrow> 'f" where
  "eval_term env t = eval env (scalar t) * prod_list (map (eval env) (product t))"

lemma eval_term_make [simp]:
  "eval_term env \<lparr>scalar = s, product = ps\<rparr> = eval env s * prod_list (map (eval env) ps)"
  by (simp add: eval_term_def)

lemma eval_term_fun: "eval_term env = (\<lambda>t. eval env (scalar t) * prod_list (map (eval env) (product t)))"
  by (rule ext) (rule eval_term_def)

text \<open>\<open>iproduct!\<close> varies its last argument first.\<close>

definition multiply_terms :: "'f::field Term list \<Rightarrow> 'f Term list \<Rightarrow> 'f Term list" where
  "multiply_terms xs ys =
     concat (map (\<lambda>a. map (\<lambda>b. \<lparr>scalar = scalar a * scalar b, product = product a @ product b\<rparr>) ys) xs)"

primrec distribute :: "'f::field expression \<Rightarrow> 'f Term list" where
  "distribute (Constant c) = [\<lparr>scalar = Constant c, product = []\<rparr>]"
| "distribute (Challenge i pow s t) = [\<lparr>scalar = Challenge i pow s t, product = []\<rparr>]"
| "distribute (Instance i) = [\<lparr>scalar = Instance i, product = []\<rparr>]"
| "distribute (Fixed f) = [\<lparr>scalar = 1, product = [Fixed f]\<rparr>]"
| "distribute (WitIn i) = [\<lparr>scalar = 1, product = [WitIn i]\<rparr>]"
| "distribute (StructuralWitIn i m off k) = [\<lparr>scalar = 1, product = [StructuralWitIn i m off k]\<rparr>]"
| "distribute (SumE a b) = distribute a @ distribute b"
| "distribute (ProductE a b) = multiply_terms (distribute a) (distribute b)"
| "distribute (ScaledSum x a b) = distribute b @ multiply_terms (distribute x) (distribute a)"

text \<open>The derived order on the variants that products consist of.\<close>

fun atom_key :: "'f expression \<Rightarrow> nat \<times> nat \<times> nat \<times> nat \<times> nat" where
  "atom_key (WitIn i) = (0, i, 0, 0, 0)"
| "atom_key (StructuralWitIn i m off k) = (1, i, m, off, k)"
| "atom_key (Fixed f) = (2, f, 0, 0, 0)"
| "atom_key _ = (3, 0, 0, 0, 0)"

fun group_insert :: "'k \<Rightarrow> 'v \<Rightarrow> ('k \<times> 'v list) list \<Rightarrow> ('k \<times> 'v list) list" where
  "group_insert k v [] = [(k, [v])]"
| "group_insert k v ((k', vs) # m) = (if k = k' then (k', vs @ [v]) # m else (k', vs) # group_insert k v m)"

definition into_group_map :: "('k \<times> 'v) list \<Rightarrow> ('k \<times> 'v list) list" where
  "into_group_map kvs = fold (\<lambda>(k, v). group_insert k v) kvs []"

definition combine :: "'f::field Term list \<Rightarrow> 'f Term list" where
  "combine terms =
     map (\<lambda>(prod, scalars). \<lparr>scalar = sum_expr scalars, product = prod\<rparr>)
       (into_group_map (map (\<lambda>t. (sort_key atom_key (product t), scalar t)) terms))"

definition nonzero_term :: "'f::field Term \<Rightarrow> bool" where
  "nonzero_term t = (case scalar t of Constant c \<Rightarrow> either_value c \<noteq> 0 | _ \<Rightarrow> True)"

definition get_monomial_terms :: "'f::field expression \<Rightarrow> 'f Term list" where
  "get_monomial_terms e = filter nonzero_term (combine (distribute e))"

definition sum_terms :: "'f::field Term list \<Rightarrow> 'f expression" where
  "sum_terms ts = sum_expr (map (\<lambda>t. scalar t * product_expr (product t)) ts)"

definition get_monomial_form :: "'f::field expression \<Rightarrow> 'f expression" where
  "get_monomial_form e = sum_terms (get_monomial_terms e)"

subsection \<open>Evaluation\<close>

lemma eval_sum_terms: "eval env (sum_terms ts) = sum_list (map (eval_term env) ts)"
  by (simp add: sum_terms_def eval_term_fun comp_def)

lemma eval_sum_terms_mset:
  "mset ts = mset us \<Longrightarrow> eval env (sum_terms ts) = eval env (sum_terms us)"
  by (metis eval_sum_terms mset_map sum_mset_sum_list)

lemma eval_multiply_terms:
  "sum_list (map (eval_term env) (multiply_terms xs ys)) =
   sum_list (map (eval_term env) xs) * sum_list (map (eval_term env) ys)"
proof (induction xs)
  case (Cons a xs)
  have "sum_list (map (eval_term env)
      (map (\<lambda>b. \<lparr>scalar = scalar a * scalar b, product = product a @ product b\<rparr>) ys)) =
    eval_term env a * sum_list (map (eval_term env) ys)"
    by (simp add: comp_def eval_term_fun algebra_simps flip: sum_list_const_mult)
  with Cons show ?case by (simp add: multiply_terms_def algebra_simps)
qed (simp add: multiply_terms_def)

lemma eval_distribute: "sum_list (map (eval_term env) (distribute e)) = eval env e"
  by (induction e) (simp_all add: eval_multiply_terms)

lemma eval_group_insert:
  fixes w :: "'k \<Rightarrow> 'f::field" and g :: "'v \<Rightarrow> 'f"
  shows "(\<Sum>(k, vs) \<leftarrow> group_insert k v m. w k * sum_list (map g vs)) =
     w k * g v + (\<Sum>(k, vs) \<leftarrow> m. w k * sum_list (map g vs))"
  by (induction k v m rule: group_insert.induct) (simp_all add: algebra_simps)

lemma eval_fold_group_insert:
  fixes w :: "'k \<Rightarrow> 'f::field" and g :: "'v \<Rightarrow> 'f"
  shows "(\<Sum>(k, vs) \<leftarrow> fold (\<lambda>(k, v). group_insert k v) kvs m. w k * sum_list (map g vs)) =
     (\<Sum>(k, v) \<leftarrow> kvs. w k * g v) + (\<Sum>(k, vs) \<leftarrow> m. w k * sum_list (map g vs))"
  by (induction kvs arbitrary: m) (auto simp: eval_group_insert algebra_simps)

lemma prod_list_sort_key: "prod_list (map f (sort_key k xs)) = (prod_list (map f xs) :: 'f::field)"
  by (metis mset_map mset_sort prod_mset_prod_list)

lemma eval_combine: "sum_list (map (eval_term env) (combine ts)) = sum_list (map (eval_term env) ts)"
  using eval_fold_group_insert [of "\<lambda>ps. prod_list (map (eval env) ps)" "eval env"
      "map (\<lambda>t. (sort_key atom_key (product t), scalar t)) ts" "[]"]
  by (simp add: combine_def into_group_map_def eval_term_fun comp_def case_prod_beta' prod_list_sort_key
      mult.commute)

lemma eval_nonzero_terms:
  "sum_list (map (eval_term env) (filter nonzero_term ts)) = sum_list (map (eval_term env) ts)"
  by (induction ts) (auto simp: nonzero_term_def eval_term_def split: expression.splits)

lemma eval_get_monomial_form: "eval env (get_monomial_form e) = eval env e"
  by (simp add: get_monomial_form_def get_monomial_terms_def eval_sum_terms eval_nonzero_terms
      eval_combine eval_distribute)

subsection \<open>Monomial form\<close>

datatype MonomialState = SumTerm | ProductTerm

primrec is_zero_expr :: "'f::zero expression \<Rightarrow> bool" where
  "is_zero_expr (Fixed _) \<longleftrightarrow> False"
| "is_zero_expr (WitIn _) \<longleftrightarrow> False"
| "is_zero_expr (StructuralWitIn _ _ _ _) \<longleftrightarrow> False"
| "is_zero_expr (Instance _) \<longleftrightarrow> False"
| "is_zero_expr (Constant c) \<longleftrightarrow> either_value c = 0"
| "is_zero_expr (SumE a b) \<longleftrightarrow> is_zero_expr a \<and> is_zero_expr b"
| "is_zero_expr (ProductE a b) \<longleftrightarrow> is_zero_expr a \<or> is_zero_expr b"
| "is_zero_expr (ScaledSum x a b) \<longleftrightarrow> (is_zero_expr x \<or> is_zero_expr a) \<and> is_zero_expr b"
| "is_zero_expr (Challenge _ _ s t) \<longleftrightarrow> s = 0 \<and> t = 0"

fun is_monomial_form_inner :: "MonomialState \<Rightarrow> 'f::zero expression \<Rightarrow> bool" where
  "is_monomial_form_inner SumTerm (SumE a b) \<longleftrightarrow>
     is_monomial_form_inner SumTerm a \<and> is_monomial_form_inner SumTerm b"
| "is_monomial_form_inner ProductTerm (SumE a b) \<longleftrightarrow> False"
| "is_monomial_form_inner st (ProductE a b) \<longleftrightarrow>
     is_monomial_form_inner ProductTerm a \<and> is_monomial_form_inner ProductTerm b"
| "is_monomial_form_inner SumTerm (ScaledSum x a b) \<longleftrightarrow> True"
| "is_monomial_form_inner ProductTerm (ScaledSum x a b) \<longleftrightarrow>
     is_zero_expr x \<or> is_zero_expr a \<or> is_zero_expr b"
| "is_monomial_form_inner st e \<longleftrightarrow> True"

definition is_monomial_form :: "'f::zero expression \<Rightarrow> bool" where
  "is_monomial_form e = is_monomial_form_inner SumTerm e"

text \<open>Expressions over witnesses, fixed columns and constants.\<close>

primrec committed_only :: "'f expression \<Rightarrow> bool" where
  "committed_only (Fixed _) \<longleftrightarrow> True"
| "committed_only (WitIn _) \<longleftrightarrow> True"
| "committed_only (StructuralWitIn _ _ _ _) \<longleftrightarrow> True"
| "committed_only (Instance _) \<longleftrightarrow> False"
| "committed_only (Constant _) \<longleftrightarrow> True"
| "committed_only (SumE a b) \<longleftrightarrow> committed_only a \<and> committed_only b"
| "committed_only (ProductE a b) \<longleftrightarrow> committed_only a \<and> committed_only b"
| "committed_only (ScaledSum x a b) \<longleftrightarrow> committed_only x \<and> committed_only a \<and> committed_only b"
| "committed_only (Challenge _ _ _ _) \<longleftrightarrow> False"

lemma committed_only_zero_one [simp]: "committed_only 0" "committed_only 1"
  by (simp_all add: zero_expression_def one_expression_def)

lemma committed_only_uminus [simp]: "committed_only (- e) = committed_only e"
  by (induction e) simp_all

lemma committed_only_plus [simp]: "committed_only l \<Longrightarrow> committed_only r \<Longrightarrow> committed_only (l + r)"
proof (induction l r rule: plus_expression_induct)
  case (1 l r)
  show ?case
    by (subst plus_expression_simps) (use 1 in \<open>auto simp: atom_defs split: expression.splits\<close>)
qed

lemma committed_only_minus [simp]: "committed_only l \<Longrightarrow> committed_only r \<Longrightarrow> committed_only (l - r)"
proof (induction l r rule: minus_expression_induct)
  case (1 l r)
  show ?case
    by (subst minus_expression_simps) (use 1 in \<open>auto simp: atom_defs split: expression.splits\<close>)
qed

lemma committed_only_times [simp]: "committed_only l \<Longrightarrow> committed_only r \<Longrightarrow> committed_only (l * r)"
proof (induction l r rule: times_expression_induct)
  case (1 l r)
  show ?case
    by (subst times_expression_simps) (use 1 in \<open>auto simp: atom_defs split: expression.splits\<close>)
qed

lemma committed_only_challenge_free: "committed_only e \<Longrightarrow> challenge_free e"
  by (induction e) simp_all

lemma committed_only_from [simp]: "committed_only (from_unsigned n)"
  by (simp add: from_unsigned_def)

lemma committed_only_shl [simp]: "committed_only e \<Longrightarrow> committed_only (shl_expr e n)"
  by (simp add: shl_expr_def)

lemma committed_only_sum [simp]: "\<forall>e \<in> set es. committed_only e \<Longrightarrow> committed_only (sum_expr es)"
proof -
  have "committed_only a \<Longrightarrow> \<forall>e \<in> set es. committed_only e \<Longrightarrow> committed_only (foldl (+) a es)" for a
    by (induction es arbitrary: a) simp_all
  then show "\<forall>e \<in> set es. committed_only e \<Longrightarrow> committed_only (sum_expr es)" by (simp add: sum_expr_def)
qed

fun is_column :: "'f expression \<Rightarrow> bool" where
  "is_column (WitIn _) \<longleftrightarrow> True" | "is_column (Fixed _) \<longleftrightarrow> True"
| "is_column (StructuralWitIn _ _ _ _) \<longleftrightarrow> True" | "is_column _ \<longleftrightarrow> False"

definition constant_term :: "'f Term \<Rightarrow> bool" where
  "constant_term t \<longleftrightarrow> (\<exists>c. scalar t = Constant c) \<and> (\<forall>p \<in> set (product t). is_column p)"

lemma constant_times_constant: "\<exists>c. (Constant a :: 'f::field expression) * Constant b = Constant c"
  by (simp add: times_expression_simps atom_defs)

lemma constant_plus_constant: "\<exists>c. (Constant a :: 'f::field expression) + Constant b = Constant c"
  by (simp add: plus_expression_simps atom_defs)

lemma constant_term_multiply:
  "\<forall>t \<in> set xs. constant_term t \<Longrightarrow> \<forall>t \<in> set ys. constant_term t \<Longrightarrow>
   \<forall>t \<in> set (multiply_terms xs ys). constant_term t"
  by (fastforce simp: multiply_terms_def constant_term_def intro: constant_times_constant)

lemma constant_term_distribute: "committed_only e \<Longrightarrow> \<forall>t \<in> set (distribute e). constant_term t"
proof (induction e)
  case (ProductE a b)
  then show ?case using constant_term_multiply [of "distribute a" "distribute b"] by simp
next
  case (ScaledSum x a b)
  then show ?case using constant_term_multiply [of "distribute x" "distribute a"] by auto
qed (auto simp: constant_term_def one_expression_def)

lemma group_insert_keeps:
  "(\<forall>(k, vs) \<in> set m. P k \<and> (\<forall>v \<in> set vs. Q v)) \<Longrightarrow> P k \<Longrightarrow> Q v \<Longrightarrow>
   \<forall>(k, vs) \<in> set (group_insert k v m). P k \<and> (\<forall>v \<in> set vs. Q v)"
  by (induction k v m rule: group_insert.induct) auto

lemma into_group_map_keeps:
  assumes "\<forall>(k, v) \<in> set kvs. P k \<and> Q v"
  shows "\<forall>(k, vs) \<in> set (into_group_map kvs). P k \<and> (\<forall>v \<in> set vs. Q v)"
proof -
  have "\<forall>(k, vs) \<in> set m. P k \<and> (\<forall>v \<in> set vs. Q v) \<Longrightarrow>
    \<forall>(k, vs) \<in> set (fold (\<lambda>(k, v). group_insert k v) kvs m). P k \<and> (\<forall>v \<in> set vs. Q v)" for m
    using assms
  proof (induction kvs arbitrary: m)
    case (Cons kv kvs)
    obtain k v where kv: "kv = (k, v)" by (cases kv)
    from Cons.prems kv have "P k" "Q v" by auto
    from group_insert_keeps [OF Cons.prems(1) this] Cons.IH Cons.prems(2) kv show ?case by simp
  qed simp
  from this [of "[]"] show ?thesis by (simp add: into_group_map_def)
qed

lemma sum_of_constants: "\<forall>e \<in> set es. \<exists>c. e = Constant c \<Longrightarrow> \<exists>c. sum_expr es = (Constant c :: 'f::field expression)"
proof -
  have "\<forall>e \<in> set es. \<exists>c. e = Constant c \<Longrightarrow> \<exists>c. foldl (+) (Constant a) es = (Constant c :: 'f expression)" for a
  proof (induction es arbitrary: a)
    case (Cons e es)
    then obtain b where "e = Constant b" by auto
    moreover obtain c where "Constant a + Constant b = (Constant c :: 'f expression)"
      using constant_plus_constant by blast
    ultimately show ?case using Cons by simp
  qed simp
  then show "\<forall>e \<in> set es. \<exists>c. e = Constant c \<Longrightarrow> \<exists>c. sum_expr es = (Constant c :: 'f expression)"
    by (simp add: sum_expr_def zero_expression_def)
qed

lemma constant_term_combine:
  assumes "\<forall>t \<in> set ts. constant_term t"
  shows "\<forall>t \<in> set (combine ts). constant_term t"
proof -
  let ?kvs = "map (\<lambda>t. (sort_key atom_key (product t), scalar t)) ts"
  have "\<forall>(k, vs) \<in> set (into_group_map ?kvs). (\<forall>p \<in> set k. is_column p) \<and> (\<forall>v \<in> set vs. \<exists>c. v = Constant c)"
    by (rule into_group_map_keeps) (use assms in \<open>auto simp: constant_term_def\<close>)
  then show ?thesis by (fastforce simp: combine_def constant_term_def intro: sum_of_constants)
qed

lemma product_form_times_column:
  "is_monomial_form_inner ProductTerm e \<Longrightarrow> is_column p \<Longrightarrow>
   is_monomial_form_inner ProductTerm (e * p :: 'f::field expression)"
  by (cases e; cases p) (simp_all add: times_expression_simps atom_defs)

lemma product_form_product:
  "\<forall>p \<in> set ps. is_column p \<Longrightarrow> is_monomial_form_inner ProductTerm (product_expr ps :: 'f::field expression)"
proof -
  have "\<forall>p \<in> set ps. is_column p \<Longrightarrow> is_monomial_form_inner ProductTerm e \<Longrightarrow>
    is_monomial_form_inner ProductTerm (foldl (*) e ps :: 'f expression)" for e
    by (induction ps arbitrary: e) (simp_all add: product_form_times_column)
  then show "\<forall>p \<in> set ps. is_column p \<Longrightarrow> is_monomial_form_inner ProductTerm (product_expr ps :: 'f expression)"
    by (simp add: product_expr_def one_expression_def)
qed

lemma sum_form_constant_times:
  "is_monomial_form_inner ProductTerm e \<Longrightarrow>
   is_monomial_form_inner SumTerm (Constant c * e :: 'f::field expression)"
  by (cases e) (simp_all add: times_expression_simps atom_defs)

lemma sum_form_plus:
  "is_monomial_form_inner SumTerm l \<Longrightarrow> is_monomial_form_inner SumTerm r \<Longrightarrow>
   is_monomial_form_inner SumTerm (l + r :: 'f::field expression)"
  by (cases l; cases r) (simp_all add: plus_expression_simps atom_defs)

lemma sum_form_sum:
  "\<forall>e \<in> set es. is_monomial_form_inner SumTerm e \<Longrightarrow>
   is_monomial_form_inner SumTerm (sum_expr es :: 'f::field expression)"
proof -
  have "\<forall>e \<in> set es. is_monomial_form_inner SumTerm e \<Longrightarrow> is_monomial_form_inner SumTerm a \<Longrightarrow>
    is_monomial_form_inner SumTerm (foldl (+) a es :: 'f expression)" for a
    by (induction es arbitrary: a) (simp_all add: sum_form_plus)
  then show "\<forall>e \<in> set es. is_monomial_form_inner SumTerm e \<Longrightarrow>
      is_monomial_form_inner SumTerm (sum_expr es :: 'f expression)"
    by (simp add: sum_expr_def zero_expression_def)
qed

lemma monomial_form_reached:
  assumes "committed_only e"
  shows "is_monomial_form (get_monomial_form e)"
proof -
  have "\<forall>t \<in> set (get_monomial_terms e). constant_term t"
    using constant_term_combine [OF constant_term_distribute [OF assms]] by (auto simp: get_monomial_terms_def)
  then have "\<forall>t \<in> set (get_monomial_terms e). is_monomial_form_inner SumTerm (scalar t * product_expr (product t))"
    by (auto simp: constant_term_def intro!: sum_form_constant_times product_form_product)
  then show ?thesis
    unfolding is_monomial_form_def get_monomial_form_def sum_terms_def by (intro sum_form_sum) auto
qed

text \<open>
  C23. Putting an expression in monomial form never changes its value, whatever witnesses,
  instances and challenges it refers to, and for an expression over columns and constants the result
  passes the check \<open>is_monomial_form\<close> that constraint systems assert of it.
\<close>

theorem monomial_form_correct:
  "eval env (get_monomial_form e) = eval env e \<and>
   (committed_only e \<longrightarrow> is_monomial_form (get_monomial_form e))"
  using eval_get_monomial_form monomial_form_reached by blast

theorem monomial_form_correct_witness:
  "let e = (WitIn 0 + WitIn 1) * (WitIn 1 - Constant (Inl 3)) :: gl expression in
   eval (env_of_lists [] [7, 9] [] [] []) (get_monomial_form e) = 96 \<and> is_monomial_form (get_monomial_form e)"
  using monomial_form_correct [of "env_of_lists [] [7, 9] [] [] []"
      "(WitIn 0 + WitIn 1) * (WitIn 1 - Constant (Inl 3)) :: gl expression"]
  by (simp add: Let_def env_of_lists_def plus_expression_simps minus_expression_simps times_expression_simps atom_defs)

end
