(* ===== verification/Rom.thy ===== *)
theory Rom
  imports Monomial Machine
begin

unbundle bit_operations_syntax

text \<open>
  The fixed tables that circuits look values up in: ranges (\<open>ceno_zkvm/src/tables/range*\<close>), byte
  operations (\<open>tables/ops*\<close>) and the program (\<open>tables/program.rs\<close>).
\<close>

subsection \<open>Table types\<close>

datatype ROMType = U5 | U8 | U14 | U16 | And | Or | Xor | Ltu | Pow | InsnRom

datatype RAMType = GlobalState | Register | Memory

definition rom_types :: "ROMType list" where
  "rom_types = [U5, U8, U14, U16, And, Or, Xor, Ltu, Pow, InsnRom]"

text \<open>\<open>rom_type as u64\<close>, the position in the enumeration; \<open>ram_type as u64\<close> likewise.\<close>

fun rom_code :: "ROMType \<Rightarrow> nat" where
  "rom_code U5 = 0" | "rom_code U8 = 1" | "rom_code U14 = 2" | "rom_code U16 = 3" | "rom_code And = 4"
| "rom_code Or = 5" | "rom_code Xor = 6" | "rom_code Ltu = 7" | "rom_code Pow = 8" | "rom_code InsnRom = 9"

fun ram_code :: "RAMType \<Rightarrow> nat" where
  "ram_code GlobalState = 0" | "ram_code Register = 1" | "ram_code Memory = 2"

subsection \<open>Range and operation tables\<close>

fun range_len :: "ROMType \<Rightarrow> nat" where
  "range_len U5 = 2 ^ 5" | "range_len U8 = 2 ^ 8" | "range_len U14 = 2 ^ 14" | "range_len U16 = 2 ^ 16"
| "range_len _ = 0"

definition range_content :: "ROMType \<Rightarrow> nat list" where
  "range_content rt = [0..<range_len rt]"

definition pack :: "u64 \<Rightarrow> u64 \<Rightarrow> u64" where
  "pack a b = a OR push_bit 8 b"

definition unpack :: "u64 \<Rightarrow> u64 \<times> u64" where
  "unpack i = (i AND 0xff, drop_bit 8 i AND 0xff)"

text \<open>The third column of a byte table.\<close>

fun op_result :: "ROMType \<Rightarrow> u64 \<Rightarrow> u64 \<Rightarrow> u64" where
  "op_result And a b = a AND b"
| "op_result Or a b = a OR b"
| "op_result Xor a b = a XOR b"
| "op_result Ltu a b = (if a < b then 1 else 0)"
| "op_result _ a b = 0"

definition ops_content :: "ROMType \<Rightarrow> u64 list list" where
  "ops_content rt = map (\<lambda>i. let (a, b) = unpack (of_nat i) in [a, b, op_result rt a b]) [0..<2 ^ 16]"

definition pow_content :: "u64 list list" where
  "pow_content = map (\<lambda>exponent. [2, of_nat exponent, push_bit exponent 1]) [0..<2 ^ 5]"

subsection \<open>The program table\<close>

definition insn_kinds :: "InsnKind list" where
  "insn_kinds = [INVALID, ADD, SUB, XOR_K, OR_K, AND_K, SLL, SRL, SRA, SLT, SLTU, ADDI, XORI, ORI, ANDI,
     SLLI, SRLI, SRAI, SLTI, SLTIU, BEQ, BNE, BLT, BGE, BLTU, BGEU, JAL, JALR, MUL, MULH, MULHSU, MULHU,
     DIV, DIVU, REM, REMU, LB, LH, LW, LBU, LHU, SB, SH, SW, ECALL]"

definition insn_kind_code :: "InsnKind \<Rightarrow> nat" where
  "insn_kind_code k = length (takeWhile (\<lambda>k'. k' \<noteq> k) insn_kinds)"

lemma insn_kind_code_nth: "insn_kinds ! insn_kind_code k = k"
  by (cases k) (simp_all add: insn_kinds_def insn_kind_code_def)

lemma insn_kind_code_less: "insn_kind_code k < 45"
  by (cases k) (simp_all add: insn_kinds_def insn_kind_code_def)

lemma insn_kind_code_inject: "insn_kind_code a = insn_kind_code b \<longleftrightarrow> a = b"
  by (metis insn_kind_code_nth)

text \<open>\<open>i64_to_base\<close> and the immediate as the program table stores it.\<close>

definition i64_to_base :: "i64 \<Rightarrow> gl" where
  "i64_to_base x = (if 0 \<le>s x then of_nat (unat x) else - of_nat (unat (- x)))"

definition imm_internal :: "Instruction \<Rightarrow> i64" where
  "imm_internal insn =
     (if insn_kind insn \<in> {SLLI, SRLI, SRAI} then push_bit (unat (insn_imm insn AND 63)) 1
      else if insn_format (insn_kind insn) \<in> {Fmt_R, Fmt_U} \<or> insn_kind insn \<in> {ADDI, SLTIU, ANDI, XORI, ORI}
      then ucast (insn_imm insn)
      else scast (insn_imm insn))"

lemma i64_to_base_eq: "i64_to_base x = of_int (sint x)"
proof -
  have u: "0 \<le> uint x" "uint x < 2 ^ 64" using uint_lt2p [of x] by simp_all
  then have "take_bit 64 (uint x) = uint x" by (simp add: take_bit_int_eq_self_iff)
  then have s: "sint x = uint x - 2 ^ 64 * of_bool (bit (uint x) 63)"
    by (simp add: sint_uint signed_take_bit_eq_take_bit_minus)
  have m: "0 \<le>s x \<longleftrightarrow> \<not> bit (uint x) 63" using s u by (auto simp: word_sle_eq)
  show ?thesis
  proof (cases "bit (uint x) 63")
    case True
    then have "uint x \<noteq> 0" by auto
    with u(1) have "0 < uint x" by linarith
    then have "uint (- x) = 2 ^ 64 - uint x"
      using u by (simp add: uint_word_ariths zmod_zminus1_eq_if)
    then have "(of_nat (unat (- x)) :: gl) = of_int (2 ^ 64 - uint x)"
      by (metis of_int_of_nat_eq uint_nat)
    with True m s show ?thesis by (simp add: i64_to_base_def)
  next
    case False
    with m s show ?thesis by (simp add: i64_to_base_def flip: uint_nat)
  qed
qed

text \<open>A row of the program table: pc, kind, \<open>rd\<close>, \<open>rs1\<close>, \<open>rs2\<close>, immediate.\<close>

definition from_decoded :: "u32 \<Rightarrow> Instruction \<Rightarrow> gl list" where
  "from_decoded pc insn =
     [of_nat (unat pc), of_nat (insn_kind_code (insn_kind insn)), of_nat (unat (rd_internal insn)),
      of_nat (unat (rs1_or_zero insn)), of_nat (unat (rs2_or_zero insn)), i64_to_base (imm_internal insn)]"

text \<open>The fixed columns, padded with zero rows up to the size of the table.\<close>

definition program_rows :: "nat \<Rightarrow> Program \<Rightarrow> gl list list" where
  "program_rows table_size prog =
     map (\<lambda>i. from_decoded (base_address prog + of_nat (i * PC_STEP_SIZE)) (instructions prog ! i))
       [0..<length (instructions prog)] @
     replicate (table_size - length (instructions prog)) (replicate 6 0)"

text \<open>The rows of every table, as field elements.\<close>

definition rom_rows :: "gl list list \<Rightarrow> ROMType \<Rightarrow> gl list list" where
  "rom_rows prog_rows rt =
     (case rt of
        InsnRom \<Rightarrow> prog_rows
      | Pow \<Rightarrow> map (map (\<lambda>w. of_nat (unat w))) pow_content
      | _ \<Rightarrow> if rt \<in> {U5, U8, U14, U16} then map (\<lambda>n. [of_nat n]) (range_content rt)
             else map (map (\<lambda>w. of_nat (unat w))) (ops_content rt))"

subsection \<open>Membership\<close>

lemma range_rows:
  "rt \<in> {U5, U8, U14, U16} \<Longrightarrow> items \<in> set (rom_rows pr rt) \<longleftrightarrow> (\<exists>n < range_len rt. items = [of_nat n])"
  by (auto simp: rom_rows_def range_content_def split: ROMType.splits)

lemma byte_mask: "(a :: u64) AND 0xff = take_bit 8 a"
  by (simp add: take_bit_eq_mask mask_eq_exp_minus_1)

lemma byte_bits: "unat (a :: u64) < 256 \<longleftrightarrow> (\<forall>n. bit a n \<longrightarrow> n < 8)"
proof -
  have "unat a < 256 \<longleftrightarrow> take_bit 8 a = a"
    by (simp add: word_unat_eq_iff unsigned_take_bit_eq take_bit_nat_eq_self_iff)
  also have "\<dots> \<longleftrightarrow> (\<forall>n. bit a n \<longrightarrow> n < 8)"
    using bit_imp_le_length [of a] by (fastforce simp: bit_eq_iff bit_take_bit_iff)
  finally show ?thesis .
qed

lemma unpack_pack:
  assumes "unat a < 256" "unat b < 256"
  shows "unpack (pack a b) = (a, b)"
proof -
  have "take_bit 8 (pack a b) = a"
    by (rule bit_word_eqI) (use assms(1) in \<open>auto simp: pack_def bit_simps byte_bits\<close>)
  moreover have "take_bit 8 (drop_bit 8 (pack a b)) = b"
    by (rule bit_word_eqI) (use assms in \<open>fastforce simp: pack_def bit_simps byte_bits\<close>)
  ultimately show ?thesis by (simp add: unpack_def byte_mask)
qed

lemma pack_less: "unat a < 256 \<Longrightarrow> unat b < 256 \<Longrightarrow> unat (pack a b) < 2 ^ 16"
proof -
  assume ab: "unat a < 256" "unat b < 256"
  then have "\<forall>n. bit (pack a b) n \<longrightarrow> n < 16" by (auto simp: pack_def bit_simps byte_bits)
  then have "take_bit 16 (pack a b) = pack a b" by (auto simp: bit_eq_iff bit_take_bit_iff)
  then show ?thesis
    by (simp add: word_unat_eq_iff [of "take_bit 16 _"] unsigned_take_bit_eq take_bit_nat_eq_self_iff)
qed

lemma unpack_bytes: "unpack i = (a, b) \<Longrightarrow> unat a < 256 \<and> unat b < 256"
  by (auto simp: unpack_def byte_mask byte_bits bit_simps)

lemma ops_rows:
  assumes "rt \<in> {And, Or, Xor, Ltu}"
  shows "items \<in> set (rom_rows pr rt) \<longleftrightarrow>
    (\<exists>a b. unat a < 256 \<and> unat b < 256 \<and> items = map (\<lambda>w. of_nat (unat w)) [a, b, op_result rt a b])"
proof
  assume "items \<in> set (rom_rows pr rt)"
  then obtain i where "items = map (\<lambda>w. of_nat (unat w)) (let (a, b) = unpack (of_nat i) in [a, b, op_result rt a b])"
    using assms by (auto simp: rom_rows_def ops_content_def split: ROMType.splits)
  moreover obtain a b where "unpack (of_nat i) = (a, b)" by fastforce
  ultimately show "\<exists>a b. unat a < 256 \<and> unat b < 256 \<and> items = map (\<lambda>w. of_nat (unat w)) [a, b, op_result rt a b]"
    using unpack_bytes by (intro exI [of _ a] exI [of _ b]) auto
next
  assume "\<exists>a b. unat a < 256 \<and> unat b < 256 \<and> items = map (\<lambda>w. of_nat (unat w)) [a, b, op_result rt a b]"
  then obtain a b where ab: "unat a < 256" "unat b < 256"
    and items: "items = map (\<lambda>w. of_nat (unat w)) [a, b, op_result rt a b]" by blast
  have "[a, b, op_result rt a b] \<in> set (ops_content rt)"
    unfolding ops_content_def set_map
    by (rule image_eqI [of _ _ "unat (pack a b)"]) (use unpack_pack [OF ab] pack_less [OF ab] in simp_all)
  then have "items \<in> map (\<lambda>w. of_nat (unat w)) ` set (ops_content rt)"
    unfolding items by (rule imageI)
  then show "items \<in> set (rom_rows pr rt)"
    using assms by (auto simp: rom_rows_def)
qed

lemma pow_rows:
  "items \<in> set (rom_rows pr Pow) \<longleftrightarrow> (\<exists>e < 32. items = [2, of_nat e, 2 ^ e])"
proof -
  have small: "(unsigned (of_nat n :: u64) :: gl) = of_nat n" if "n < 2 ^ 64" for n
    using that take_bit_nat_eq_self [of n 64] by (simp add: unsigned_of_nat)
  have "(unsigned (2 ^ e :: u64) :: gl) = 2 ^ e" if "e < 32" for e
    using small [of "2 ^ e"] that power_strict_increasing [of e 64 "2 :: nat"] by simp
  then have "rom_rows pr Pow = map (\<lambda>e. [2, of_nat e, 2 ^ e]) [0..<32]"
    using small [of 2] small by (simp add: rom_rows_def pow_content_def)
  then show ?thesis by auto
qed

text \<open>A program row whose kind is not \<open>INVALID\<close> is a decoded instruction.\<close>

lemma program_row_insn:
  assumes "items \<in> set (rom_rows (program_rows n prog) InsnRom)"
    and "items ! 1 = of_nat (insn_kind_code k)" and "k \<noteq> INVALID"
  obtains i where "i < length (instructions prog)"
    and "items = from_decoded (base_address prog + of_nat (i * PC_STEP_SIZE)) (instructions prog ! i)"
    and "insn_kind (instructions prog ! i) = k"
proof -
  have "insn_kind_code k \<noteq> 0" using insn_kind_code_inject [of k INVALID] assms(3)
    by (simp add: insn_kind_code_def insn_kinds_def)
  then have "(of_nat (insn_kind_code k) :: gl) \<noteq> 0"
    using of_nat_gl_inject [of "insn_kind_code k" 0] insn_kind_code_less [of k] by simp
  then have "items \<noteq> replicate 6 0" using assms(2) by (auto simp: numeral_eq_Suc)
  then obtain i where i: "i < length (instructions prog)"
    "items = from_decoded (base_address prog + of_nat (i * PC_STEP_SIZE)) (instructions prog ! i)"
    using assms(1) by (auto simp: rom_rows_def program_rows_def)
  moreover have "insn_kind_code (insn_kind (instructions prog ! i)) = insn_kind_code k"
    using assms(2) i(2) insn_kind_code_less [of k] insn_kind_code_less [of "insn_kind (instructions prog ! i)"]
    by (simp add: from_decoded_def of_nat_gl_inject)
  ultimately show thesis using that by (simp add: insn_kind_code_inject)
qed

end
