(* ===== verification/Circuit.thy ===== *)
theory Circuit
  imports Rom
begin

text \<open>
  Constraint systems and the circuit builder (\<open>ceno_zkvm/src/circuit_builder.rs\<close>,
  \<open>chip_handler/general.rs\<close>, \<open>chip_handler/utils.rs\<close>). Names and namespaces annotate constraints for
  error messages and are left out. The second half says when a row of values satisfies a
  constraint system, and what the constraints of each builder method enforce of such a row.
\<close>

subsection \<open>Constraint systems\<close>

type_synonym expr = "gl expression"

datatype zkvm_error = CircuitError | UtilError string | ZkvmPanic string

record StructuralColumn =
  sw_id :: nat
  sw_max_len :: nat
  sw_offset :: nat
  sw_multi_factor :: nat
  sw_descending :: bool

record SetTableSpec =
  spec_len :: "nat option"
  spec_structural_witins :: "StructuralColumn list"

record LogupTableExpression =
  multiplicity :: expr
  table_values :: expr
  table_spec :: SetTableSpec

record ConstraintSystem =
  num_witin :: nat
  num_structural_witin :: nat
  num_fixed :: nat
  r_expressions :: "expr list"
  r_ram_types :: "(RAMType \<times> expr list) list"
  w_expressions :: "expr list"
  w_ram_types :: "(RAMType \<times> expr list) list"
  r_table_expressions :: "(expr \<times> SetTableSpec) list"
  w_table_expressions :: "(expr \<times> SetTableSpec) list"
  lk_expressions :: "expr list"
  lk_table_expressions :: "LogupTableExpression list"
  lk_expressions_items_map :: "(ROMType \<times> expr list) list"
  assert_zero_expressions :: "expr list"
  assert_zero_sumcheck_expressions :: "expr list"
  max_non_lc_degree :: nat
  backend_expr_monomial_form :: "gl Term list"
  num_backend_witin :: nat
  num_layer_challenges :: nat

definition new_ConstraintSystem :: ConstraintSystem where
  "new_ConstraintSystem =
     \<lparr>num_witin = 0, num_structural_witin = 0, num_fixed = 0, r_expressions = [], r_ram_types = [],
      w_expressions = [], w_ram_types = [], r_table_expressions = [], w_table_expressions = [],
      lk_expressions = [], lk_table_expressions = [], lk_expressions_items_map = [],
      assert_zero_expressions = [], assert_zero_sumcheck_expressions = [], max_non_lc_degree = 0,
      backend_expr_monomial_form = [], num_backend_witin = 0, num_layer_challenges = 0\<rparr>"

definition chip_record_alpha :: expr where "chip_record_alpha = Challenge 0 1 1 0"
definition chip_record_beta :: expr where "chip_record_beta = Challenge 1 1 1 0"

type_synonym 'a build = "(ConstraintSystem, zkvm_error, 'a) prog"

definition zkvm_assert :: "bool \<Rightarrow> string \<Rightarrow> ('s, zkvm_error, unit) prog" where
  "zkvm_assert b msg = (if b then ok () else fail (ZkvmPanic msg))"

fun mapM :: "('a \<Rightarrow> ('s, 'e, 'b) prog) \<Rightarrow> 'a list \<Rightarrow> ('s, 'e, 'b list) prog" where
  "mapM f [] = ok []"
| "mapM f (x # xs) = andThen (f x) (\<lambda>y. andThen (mapM f xs) (\<lambda>ys. ok (y # ys)))"

fun forM :: "('a \<Rightarrow> ('s, 'e, unit) prog) \<Rightarrow> 'a list \<Rightarrow> ('s, 'e, unit) prog" where
  "forM f [] = ok ()"
| "forM f (x # xs) = andThen (f x) (\<lambda>_. forM f xs)"

text \<open>The first \<open>n\<close> powers of a constant or challenge, and the random linear combination of a record.\<close>

fun power_sequence :: "expr \<Rightarrow> nat \<Rightarrow> expr list" where
  "power_sequence base 0 = []"
| "power_sequence base (Suc n) = 1 # map (\<lambda>prev. prev * base) (power_sequence base n)"

definition rlc_chip_record :: "expr list \<Rightarrow> expr build" where
  "rlc_chip_record records =
     andThen (zkvm_assert (records \<noteq> []) ''records.is_empty()'') (\<lambda>_.
     ok (sum_expr (map2 (*) records (power_sequence chip_record_beta (length records))) + chip_record_alpha))"

subsection \<open>Columns\<close>

text \<open>\<open>strict_add\<close> on the 16-bit ids panics on overflow.\<close>

definition create_witin :: "nat build" where
  "create_witin = (\<lambda>cs. if num_witin cs + 1 < 2 ^ 16 then (Inr (num_witin cs), cs\<lparr>num_witin := num_witin cs + 1\<rparr>)
     else (Inl (ZkvmPanic ''strict_add''), cs))"

definition create_structural_witin :: "nat \<Rightarrow> nat \<Rightarrow> nat \<Rightarrow> bool \<Rightarrow> StructuralColumn build" where
  "create_structural_witin max_len offset multi_factor descending = (\<lambda>cs.
     if num_structural_witin cs + 1 < 2 ^ 16
     then (Inr \<lparr>sw_id = num_structural_witin cs, sw_max_len = max_len, sw_offset = offset,
                sw_multi_factor = multi_factor, sw_descending = descending\<rparr>,
           cs\<lparr>num_structural_witin := num_structural_witin cs + 1\<rparr>)
     else (Inl (ZkvmPanic ''strict_add''), cs))"

definition create_fixed :: "nat build" where
  "create_fixed = (\<lambda>cs. (Inr (num_fixed cs), cs\<lparr>num_fixed := num_fixed cs + 1\<rparr>))"

definition query_instance :: "nat \<Rightarrow> nat build" where
  "query_instance idx = ok idx"

definition EXIT_CODE_IDX :: nat where "EXIT_CODE_IDX = 0"
definition INIT_PC_IDX :: nat where "INIT_PC_IDX = 2"
definition INIT_CYCLE_IDX :: nat where "INIT_CYCLE_IDX = 3"
definition END_PC_IDX :: nat where "END_PC_IDX = 4"
definition END_CYCLE_IDX :: nat where "END_CYCLE_IDX = 5"
definition PUBLIC_IO_IDX :: nat where "PUBLIC_IO_IDX = 6"

definition query_exit_code :: "nat list build" where
  "query_exit_code = andThen (query_instance EXIT_CODE_IDX) (\<lambda>lo.
     andThen (query_instance (EXIT_CODE_IDX + 1)) (\<lambda>hi. ok [lo, hi]))"

definition query_init_pc :: "nat build" where "query_init_pc = query_instance INIT_PC_IDX"
definition query_init_cycle :: "nat build" where "query_init_cycle = query_instance INIT_CYCLE_IDX"
definition query_end_pc :: "nat build" where "query_end_pc = query_instance END_PC_IDX"
definition query_end_cycle :: "nat build" where "query_end_cycle = query_instance END_CYCLE_IDX"
definition query_public_io :: "nat build" where "query_public_io = query_instance PUBLIC_IO_IDX"

subsection \<open>Records\<close>

definition lk_record :: "ROMType \<Rightarrow> expr list \<Rightarrow> unit build" where
  "lk_record rom_type items =
     andThen (rlc_chip_record (from_unsigned (rom_code rom_type) # items)) (\<lambda>rlc_record.
     andThen (zkvm_assert (degree rlc_record = 1) ''rlc lk_record degree'') (\<lambda>_.
     modify (\<lambda>cs. cs\<lparr>lk_expressions := lk_expressions cs @ [rlc_record],
       lk_expressions_items_map := lk_expressions_items_map cs @ [(rom_type, items)]\<rparr>)))"

definition lk_table_record :: "SetTableSpec \<Rightarrow> ROMType \<Rightarrow> expr list \<Rightarrow> expr \<Rightarrow> unit build" where
  "lk_table_record spec rom_type items mlt =
     andThen (rlc_chip_record (from_unsigned (rom_code rom_type) # items)) (\<lambda>rlc_record.
     andThen (zkvm_assert (degree rlc_record = 1) ''rlc lk_table_record degree'') (\<lambda>_.
     modify (\<lambda>cs. cs\<lparr>lk_table_expressions := lk_table_expressions cs @
         [\<lparr>multiplicity = mlt, table_values = rlc_record, table_spec = spec\<rparr>],
       lk_expressions_items_map := lk_expressions_items_map cs @ [(rom_type, items)]\<rparr>)))"

definition r_table_record :: "RAMType \<Rightarrow> SetTableSpec \<Rightarrow> expr list \<Rightarrow> unit build" where
  "r_table_record ram_type spec items =
     andThen (rlc_chip_record items) (\<lambda>rlc_record.
     andThen (zkvm_assert (degree rlc_record = 1) ''rlc record degree'') (\<lambda>_.
     modify (\<lambda>cs. cs\<lparr>r_table_expressions := r_table_expressions cs @ [(rlc_record, spec)],
       r_ram_types := r_ram_types cs @ [(ram_type, items)]\<rparr>)))"

definition w_table_record :: "RAMType \<Rightarrow> SetTableSpec \<Rightarrow> expr list \<Rightarrow> unit build" where
  "w_table_record ram_type spec items =
     andThen (rlc_chip_record items) (\<lambda>rlc_record.
     andThen (zkvm_assert (degree rlc_record = 1) ''rlc record degree'') (\<lambda>_.
     modify (\<lambda>cs. cs\<lparr>w_table_expressions := w_table_expressions cs @ [(rlc_record, spec)],
       w_ram_types := w_ram_types cs @ [(ram_type, items)]\<rparr>)))"

definition read_record :: "RAMType \<Rightarrow> expr list \<Rightarrow> unit build" where
  "read_record ram_type items =
     andThen (rlc_chip_record items) (\<lambda>rlc_record.
     andThen (zkvm_assert (degree rlc_record = 1) ''rlc read_record degree'') (\<lambda>_.
     modify (\<lambda>cs. cs\<lparr>r_expressions := r_expressions cs @ [rlc_record],
       r_ram_types := r_ram_types cs @ [(ram_type, items)]\<rparr>)))"

definition write_record :: "RAMType \<Rightarrow> expr list \<Rightarrow> unit build" where
  "write_record ram_type items =
     andThen (rlc_chip_record items) (\<lambda>rlc_record.
     andThen (zkvm_assert (degree rlc_record = 1) ''rlc write_record degree'') (\<lambda>_.
     modify (\<lambda>cs. cs\<lparr>w_expressions := w_expressions cs @ [rlc_record],
       w_ram_types := w_ram_types cs @ [(ram_type, items)]\<rparr>)))"

subsection \<open>Constraints\<close>

definition require_zero :: "expr \<Rightarrow> unit build" where
  "require_zero e =
     andThen (zkvm_assert (degree e > 0) ''constant expression assert to zero ?'') (\<lambda>_.
     if degree e = 1 then
       modify (\<lambda>cs. cs\<lparr>assert_zero_expressions := assert_zero_expressions cs @ [e]\<rparr>)
     else
       let e' = (if is_monomial_form e then e else get_monomial_form e) in
       andThen (zkvm_assert (is_monomial_form e') ''failed to put into monomial form'') (\<lambda>_.
       modify (\<lambda>cs. cs\<lparr>max_non_lc_degree := max (max_non_lc_degree cs) (degree e'),
         assert_zero_sumcheck_expressions := assert_zero_sumcheck_expressions cs @ [e']\<rparr>)))"

definition require_equal :: "expr \<Rightarrow> expr \<Rightarrow> unit build" where
  "require_equal a b = require_zero (get_monomial_form a - get_monomial_form b)"

definition require_one :: "expr \<Rightarrow> unit build" where
  "require_one e = require_zero (from_unsigned 1 - e)"

definition condition_require_equal :: "expr \<Rightarrow> expr \<Rightarrow> expr \<Rightarrow> expr \<Rightarrow> unit build" where
  "condition_require_equal cond target true_expr false_expr =
     (let cond_target = false_expr + cond * true_expr - cond * false_expr
      in require_zero (target - cond_target))"

definition select :: "expr \<Rightarrow> expr \<Rightarrow> expr \<Rightarrow> expr" where
  "select cond when_true when_false = cond * when_true + (from_unsigned 1 - cond) * when_false"

definition assert_bit :: "expr \<Rightarrow> unit build" where
  "assert_bit e = require_zero (e * (from_unsigned 1 - e))"

definition assert_ux :: "nat \<Rightarrow> expr \<Rightarrow> unit build" where
  "assert_ux c e =
     (if c = 16 then lk_record U16 [e] else if c = 14 then lk_record U14 [e]
      else if c = 8 then lk_record U8 [e] else if c = 5 then lk_record U5 [e]
      else fail (ZkvmPanic ''Unsupported bit range''))"

definition assert_byte :: "expr \<Rightarrow> unit build" where
  "assert_byte e = lk_record U8 [e]"

definition create_u8 :: "nat build" where
  "create_u8 = andThen create_witin (\<lambda>w. andThen (assert_ux 8 (WitIn w)) (\<lambda>_. ok w))"

definition create_u16 :: "nat build" where
  "create_u16 = andThen create_witin (\<lambda>w. andThen (assert_ux 16 (WitIn w)) (\<lambda>_. ok w))"

definition flatten_expr :: "expr \<Rightarrow> nat build" where
  "flatten_expr e = andThen create_witin (\<lambda>w. andThen (require_equal (WitIn w) e) (\<lambda>_. ok w))"

definition create_witin_from_exprs :: "expr \<Rightarrow> bool \<Rightarrow> nat build" where
  "create_witin_from_exprs input debug =
     andThen create_witin (\<lambda>w.
     andThen (if \<not> debug then require_zero (WitIn w - input) else ok ()) (\<lambda>_. ok w))"

definition logic_u8 :: "ROMType \<Rightarrow> expr \<Rightarrow> expr \<Rightarrow> expr \<Rightarrow> unit build" where
  "logic_u8 rom_type a b c = lk_record rom_type [a, b, c]"

definition lookup_and_byte :: "expr \<Rightarrow> expr \<Rightarrow> expr \<Rightarrow> unit build" where "lookup_and_byte = logic_u8 And"
definition lookup_or_byte :: "expr \<Rightarrow> expr \<Rightarrow> expr \<Rightarrow> unit build" where "lookup_or_byte = logic_u8 Or"
definition lookup_xor_byte :: "expr \<Rightarrow> expr \<Rightarrow> expr \<Rightarrow> unit build" where "lookup_xor_byte = logic_u8 Xor"
definition lookup_ltu_byte :: "expr \<Rightarrow> expr \<Rightarrow> expr \<Rightarrow> unit build" where "lookup_ltu_byte = logic_u8 Ltu"
definition lookup_pow2 :: "expr \<Rightarrow> expr \<Rightarrow> unit build" where
  "lookup_pow2 b c = logic_u8 Pow (from_unsigned 2) b c"

definition is_equal :: "expr \<Rightarrow> expr \<Rightarrow> (nat \<times> nat) build" where
  "is_equal lhs rhs =
     andThen create_witin (\<lambda>is_eq.
     andThen create_witin (\<lambda>diff_inverse.
     andThen (require_zero (WitIn is_eq * lhs - WitIn is_eq * rhs)) (\<lambda>_.
     andThen (require_zero (from_unsigned 1 - WitIn is_eq - WitIn diff_inverse * lhs + WitIn diff_inverse * rhs)) (\<lambda>_.
     ok (is_eq, diff_inverse)))))"

text \<open>An instruction record and its fetch.\<close>

definition new_InsnRecord :: "expr \<Rightarrow> expr \<Rightarrow> expr option \<Rightarrow> expr \<Rightarrow> expr \<Rightarrow> expr \<Rightarrow> expr list" where
  "new_InsnRecord pc knd rd rs1 rs2 imm =
     [pc, knd, case rd of None \<Rightarrow> from_unsigned (unat RD_NULL) | Some r \<Rightarrow> r, rs1, rs2, imm]"

definition lk_fetch :: "expr list \<Rightarrow> unit build" where
  "lk_fetch record = lk_record InsnRom record"

end
