(* ===== verification/Satisfy.thy ===== *)
theory Satisfy
  imports Circuit
begin

text \<open>
  What the constraints of a builder method enforce. A row of values satisfies a constraint system
  when its zero constraints evaluate to zero and its lookups are rows of the tables; the random
  linear combinations of records stand for the tuples they combine. \<open>builds row m Q\<close> says that the
  constraints \<open>m\<close> adds force \<open>Q\<close> of its result and of the records it reads and writes.
\<close>

named_theorems builder \<open>what a builder method enforces\<close>
named_theorems returning \<open>the shape of the expressions and configurations a builder method returns\<close>

subsection \<open>Satisfying rows\<close>

record circuit_row =
  row_env :: "gl environment"
  row_program :: "gl list list"

abbreviation value_of :: "circuit_row \<Rightarrow> expr \<Rightarrow> gl" where
  "value_of row \<equiv> eval (row_env row)"

abbreviation wit :: "circuit_row \<Rightarrow> nat \<Rightarrow> gl" where
  "wit row i \<equiv> witness_value (row_env row) i"

definition looked_up :: "circuit_row \<Rightarrow> ROMType \<Rightarrow> expr list \<Rightarrow> bool" where
  "looked_up row table items \<longleftrightarrow> map (value_of row) items \<in> set (rom_rows (row_program row) table)"

definition satisfied :: "circuit_row \<Rightarrow> ConstraintSystem \<Rightarrow> bool" where
  "satisfied row cs \<longleftrightarrow>
     (\<forall>e \<in> set (assert_zero_expressions cs @ assert_zero_sumcheck_expressions cs). value_of row e = 0) \<and>
     (\<forall>(table, items) \<in> set (lk_expressions_items_map cs). looked_up row table items)"

type_synonym ram_values = "(RAMType \<times> gl list) list"

definition record_values :: "circuit_row \<Rightarrow> (RAMType \<times> expr list) list \<Rightarrow> ram_values" where
  "record_values row = map (\<lambda>(mem, items). (mem, map (value_of row) items))"

lemma record_values_simps [simp]:
  "record_values row [] = []"
  "record_values row ((mem, items) # rs) = (mem, map (value_of row) items) # record_values row rs"
  "record_values row (rs @ rs') = record_values row rs @ record_values row rs'"
  by (simp_all add: record_values_def)

subsection \<open>Triples\<close>

definition builds :: "circuit_row \<Rightarrow> 'a build \<Rightarrow> ('a \<Rightarrow> ram_values \<Rightarrow> ram_values \<Rightarrow> bool) \<Rightarrow> bool" where
  "builds row m Q \<longleftrightarrow>
     (\<forall>cs a cs'. m cs = (Inr a, cs') \<longrightarrow> satisfied row cs' \<longrightarrow>
        satisfied row cs \<and>
        (\<exists>rs ws. r_ram_types cs' = r_ram_types cs @ rs \<and> w_ram_types cs' = w_ram_types cs @ ws \<and>
           Q a (record_values row rs) (record_values row ws)))"

abbreviation enforces :: "circuit_row \<Rightarrow> 'a build \<Rightarrow> ('a \<Rightarrow> bool) \<Rightarrow> bool" where
  "enforces row m Q \<equiv> builds row m (\<lambda>a rs ws. rs = [] \<and> ws = [] \<and> Q a)"

lemma builds_bind:
  assumes "builds row m Q"
    and "\<And>a. builds row (f a) (\<lambda>b rs ws. \<forall>rs1 ws1. Q a rs1 ws1 \<longrightarrow> S b (rs1 @ rs) (ws1 @ ws))"
  shows "builds row (andThen m f) S"
  unfolding builds_def
proof (intro allI impI)
  fix cs b cs''
  assume run: "andThen m f cs = (Inr b, cs'')" and sat: "satisfied row cs''"
  from run obtain a cs' where m: "m cs = (Inr a, cs')" and f: "f a cs' = (Inr b, cs'')"
    by (auto simp: andThen_success)
  from assms(2) [of a] f sat obtain rs ws where sat': "satisfied row cs'"
    and f': "r_ram_types cs'' = r_ram_types cs' @ rs" "w_ram_types cs'' = w_ram_types cs' @ ws"
    and S: "\<forall>rs1 ws1. Q a rs1 ws1 \<longrightarrow> S b (rs1 @ record_values row rs) (ws1 @ record_values row ws)"
    unfolding builds_def by blast
  from assms(1) m sat' obtain rs1 ws1 where "satisfied row cs"
    and "r_ram_types cs' = r_ram_types cs @ rs1" "w_ram_types cs' = w_ram_types cs @ ws1"
    and "Q a (record_values row rs1) (record_values row ws1)"
    unfolding builds_def by blast
  with f' S show "satisfied row cs \<and> (\<exists>rs ws. r_ram_types cs'' = r_ram_types cs @ rs \<and>
      w_ram_types cs'' = w_ram_types cs @ ws \<and> S b (record_values row rs) (record_values row ws))"
    by (intro conjI exI [of _ "rs1 @ rs"] exI [of _ "ws1 @ ws"]) auto
qed

lemma enforces_bind:
  assumes "enforces row m Q"
    and "\<And>a. builds row (f a) (\<lambda>b rs ws. Q a \<longrightarrow> S b rs ws)"
  shows "builds row (andThen m f) S"
  by (rule builds_bind [OF assms(1)]) (use assms(2) in simp)

text \<open>What a method returns, whether or not its constraints are satisfied.\<close>

definition returns :: "('s, 'e, 'a) prog \<Rightarrow> ('a \<Rightarrow> bool) \<Rightarrow> bool" where
  "returns m P \<longleftrightarrow> (\<forall>s a t. m s = (Inr a, t) \<longrightarrow> P a)"

lemma returns_any: "returns m (\<lambda>_. True)"
  by (simp add: returns_def)

lemma returns_bind: "returns m P \<Longrightarrow> (\<And>a. P a \<Longrightarrow> returns (f a) R) \<Longrightarrow> returns (andThen m f) R"
  unfolding returns_def andThen_success by blast

lemma returns_then: "(\<And>a. returns (f a) R) \<Longrightarrow> returns (andThen m f) R"
  by (rule returns_bind [OF returns_any])

lemma returns_ok: "P x \<Longrightarrow> returns (ok x) P"
  by (simp add: returns_def)

lemma returns_fail: "returns (fail e) P"
  by (simp add: returns_def)

lemma returns_conseq: "returns m P \<Longrightarrow> (\<And>a. P a \<Longrightarrow> R a) \<Longrightarrow> returns m R"
  by (simp add: returns_def)

lemma returns_mapM: "(\<And>x. x \<in> set xs \<Longrightarrow> returns (f x) (Q x)) \<Longrightarrow> returns (mapM f xs) (\<lambda>ys. list_all2 Q xs ys)"
proof (induction xs)
  case (Cons x xs)
  then show ?case unfolding mapM.simps
    by (intro returns_bind [OF Cons.prems [of x]] returns_bind [OF Cons.IH] returns_ok) auto
qed (simp add: returns_ok)

lemma builds_bind_returns:
  assumes "returns m P" and "builds row m Q"
    and "\<And>a. P a \<Longrightarrow> builds row (f a) (\<lambda>b rs ws. \<forall>rs1 ws1. Q a rs1 ws1 \<longrightarrow> S b (rs1 @ rs) (ws1 @ ws))"
  shows "builds row (andThen m f) S"
proof -
  have "andThen m f = andThen m (\<lambda>a. if P a then f a else fail undefined)"
    using assms(1) by (auto simp: fun_eq_iff andThen_def returns_def split: prod.splits sum.splits)
  moreover have "builds row (andThen m (\<lambda>a. if P a then f a else fail undefined)) S"
    by (rule builds_bind [OF assms(2)]) (use assms(3) in \<open>simp add: builds_def\<close>)
  ultimately show ?thesis by simp
qed

lemma enforces_bind_returns:
  assumes "returns m P" and "enforces row m Q"
    and "\<And>a. P a \<Longrightarrow> builds row (f a) (\<lambda>b rs ws. Q a \<longrightarrow> S b rs ws)"
  shows "builds row (andThen m f) S"
  by (rule builds_bind_returns [OF assms(1,2)]) (use assms(3) in simp)

lemma builds_conseq:
  "builds row m Q \<Longrightarrow> (\<And>a rs ws. Q a rs ws \<Longrightarrow> S a rs ws) \<Longrightarrow> builds row m S"
  unfolding builds_def by blast

lemma builds_ok: "Q x [] [] \<Longrightarrow> builds row (ok x) Q"
  unfolding builds_def by fastforce

lemma builds_fail: "builds row (fail e) Q"
  unfolding builds_def by simp

lemma enforces_ok [builder]: "enforces row (ok x) (\<lambda>a. a = x)"
  by (rule builds_ok) simp

lemma enforces_fail [builder]: "enforces row (fail e) (\<lambda>_. False)"
  by (rule builds_fail)

lemma enforces_assert [builder]: "enforces row (zkvm_assert b msg) (\<lambda>_. b)"
  by (simp add: zkvm_assert_def builds_ok builds_fail)

lemma enforces_mapM [builder]:
  assumes "\<And>x. enforces row (f x) (Q x)"
  shows "enforces row (mapM f xs) (\<lambda>ys. list_all2 Q xs ys)"
proof (induction xs)
  case Nil
  show ?case by (simp add: builds_ok)
next
  case (Cons x xs)
  show ?case unfolding mapM.simps
    by (rule enforces_bind [OF assms], rule enforces_bind [OF Cons.IH]) (simp add: builds_ok)
qed

lemma enforces_forM [builder]:
  assumes "\<And>x. enforces row (f x) (\<lambda>_. Q x)"
  shows "enforces row (forM f xs) (\<lambda>_. \<forall>x \<in> set xs. Q x)"
proof (induction xs)
  case Nil
  show ?case by (simp add: builds_ok)
next
  case (Cons x xs)
  show ?case unfolding forM.simps
    by (rule enforces_bind [OF assms], rule builds_conseq [OF Cons.IH]) simp
qed

lemma enforces_imp:
  "enforces row m Q \<Longrightarrow> m cs = (Inr a, cs') \<Longrightarrow> satisfied row cs' \<Longrightarrow> satisfied row cs \<and> Q a"
  unfolding builds_def by blast

lemma builds_imp:
  "builds row m Q \<Longrightarrow> m new_ConstraintSystem = (Inr a, cs) \<Longrightarrow> satisfied row cs \<Longrightarrow>
   Q a (record_values row (r_ram_types cs)) (record_values row (w_ram_types cs))"
  unfolding builds_def by (force simp: new_ConstraintSystem_def)

subsection \<open>Columns and records\<close>

lemma satisfied_num_witin [simp]: "satisfied row (cs\<lparr>num_witin := n\<rparr>) = satisfied row cs"
  by (simp add: satisfied_def)

lemma create_witin_builds [builder]: "enforces row create_witin (\<lambda>_. True)"
  unfolding builds_def create_witin_def by (auto split: if_splits)

lemma rlc_chip_record_builds [builder]: "enforces row (rlc_chip_record items) (\<lambda>_. True)"
  unfolding rlc_chip_record_def by (rule enforces_bind [OF enforces_assert]) (simp add: builds_ok)

lemma lk_record_builds [builder]: "enforces row (lk_record table items) (\<lambda>_. looked_up row table items)"
proof -
  have step: "enforces row (modify (\<lambda>cs. cs\<lparr>lk_expressions := lk_expressions cs @ [e],
      lk_expressions_items_map := lk_expressions_items_map cs @ [(table, items)]\<rparr>))
    (\<lambda>_. looked_up row table items)" for e
    unfolding builds_def by (auto simp: satisfied_def)
  show ?thesis unfolding lk_record_def
    by (intro enforces_bind [OF rlc_chip_record_builds] enforces_bind [OF enforces_assert]
        builds_conseq [OF step]) auto
qed

lemma read_record_builds [builder]:
  "builds row (read_record mem items) (\<lambda>_ rs ws. rs = [(mem, map (value_of row) items)] \<and> ws = [])"
proof -
  have step: "builds row (modify (\<lambda>cs. cs\<lparr>r_expressions := r_expressions cs @ [e],
      r_ram_types := r_ram_types cs @ [(mem, items)]\<rparr>))
    (\<lambda>_ rs ws. rs = [(mem, map (value_of row) items)] \<and> ws = [])" for e
    unfolding builds_def by (auto simp: satisfied_def)
  show ?thesis unfolding read_record_def
    by (intro enforces_bind [OF rlc_chip_record_builds] enforces_bind [OF enforces_assert]
        builds_conseq [OF step]) auto
qed

lemma write_record_builds [builder]:
  "builds row (write_record mem items) (\<lambda>_ rs ws. rs = [] \<and> ws = [(mem, map (value_of row) items)])"
proof -
  have step: "builds row (modify (\<lambda>cs. cs\<lparr>w_expressions := w_expressions cs @ [e],
      w_ram_types := w_ram_types cs @ [(mem, items)]\<rparr>))
    (\<lambda>_ rs ws. rs = [] \<and> ws = [(mem, map (value_of row) items)])" for e
    unfolding builds_def by (auto simp: satisfied_def)
  show ?thesis unfolding write_record_def
    by (intro enforces_bind [OF rlc_chip_record_builds] enforces_bind [OF enforces_assert]
        builds_conseq [OF step]) auto
qed

subsection \<open>Zero constraints\<close>

lemma require_zero_builds [builder]: "enforces row (require_zero e) (\<lambda>_. value_of row e = 0)"
proof -
  have linear: "enforces row (modify (\<lambda>cs. cs\<lparr>assert_zero_expressions := assert_zero_expressions cs @ [e']\<rparr>))
    (\<lambda>_. value_of row e' = 0)" for e'
    unfolding builds_def by (auto simp: satisfied_def)
  have sumcheck: "enforces row (modify (\<lambda>cs. cs\<lparr>max_non_lc_degree := d cs,
      assert_zero_sumcheck_expressions := assert_zero_sumcheck_expressions cs @ [e']\<rparr>))
    (\<lambda>_. value_of row e' = 0)" for e' d
    unfolding builds_def by (auto simp: satisfied_def)
  show ?thesis unfolding require_zero_def Let_def
    by (rule enforces_bind [OF enforces_assert])
      (auto simp: eval_get_monomial_form intro!: enforces_bind [OF enforces_assert]
        builds_conseq [OF linear] builds_conseq [OF sumcheck] split: if_splits)
qed

text \<open>The monomial form of an expression without challenges has none either.\<close>

lemma challenge_free_product: "\<forall>e \<in> set es. challenge_free e \<Longrightarrow> challenge_free (product_expr es)"
proof -
  have "challenge_free a \<Longrightarrow> \<forall>e \<in> set es. challenge_free e \<Longrightarrow> challenge_free (foldl (*) a es)" for a
    by (induction es arbitrary: a) simp_all
  then show "\<forall>e \<in> set es. challenge_free e \<Longrightarrow> challenge_free (product_expr es)"
    by (simp add: product_expr_def)
qed

definition free_term :: "'f Term \<Rightarrow> bool" where
  "free_term t \<longleftrightarrow> challenge_free (scalar t) \<and> (\<forall>p \<in> set (product t). challenge_free p)"

lemma free_multiply_terms:
  "\<forall>t \<in> set xs. free_term t \<Longrightarrow> \<forall>t \<in> set ys. free_term t \<Longrightarrow> \<forall>t \<in> set (multiply_terms xs ys). free_term t"
  by (auto simp: multiply_terms_def free_term_def)

lemma free_distribute: "challenge_free e \<Longrightarrow> \<forall>t \<in> set (distribute e). free_term t"
proof (induction e)
  case (ProductE a b)
  then show ?case using free_multiply_terms [of "distribute a" "distribute b"] by simp
next
  case (ScaledSum x a b)
  then show ?case using free_multiply_terms [of "distribute x" "distribute a"] by auto
next
  case (SumE a b)
  then show ?case by (simp add: ball_Un)
qed (simp_all add: free_term_def)

lemma free_combine:
  assumes "\<forall>t \<in> set ts. free_term t"
  shows "\<forall>t \<in> set (combine ts). free_term t"
proof -
  let ?kvs = "map (\<lambda>t. (sort_key atom_key (product t), scalar t)) ts"
  have "\<forall>(k, vs) \<in> set (into_group_map ?kvs). (\<forall>p \<in> set k. challenge_free p) \<and> (\<forall>v \<in> set vs. challenge_free v)"
    by (rule into_group_map_keeps) (use assms in \<open>auto simp: free_term_def\<close>)
  then show ?thesis by (fastforce simp: combine_def free_term_def)
qed

lemma challenge_free_monomial [simp]:
  assumes "challenge_free e"
  shows "challenge_free (get_monomial_form e)"
proof -
  have "\<forall>t \<in> set (get_monomial_terms e). free_term t"
    using free_combine [OF free_distribute [OF assms]] by (auto simp: get_monomial_terms_def)
  then show ?thesis
    by (auto simp: get_monomial_form_def sum_terms_def free_term_def challenge_free_product
        intro!: challenge_free_sum)
qed

lemma require_equal_builds [builder]:
  "challenge_free b \<Longrightarrow> enforces row (require_equal a b) (\<lambda>_. value_of row a = value_of row b)"
  unfolding require_equal_def
  by (rule builds_conseq [OF require_zero_builds]) (simp add: eval_get_monomial_form)

lemma require_one_builds [builder]:
  "challenge_free e \<Longrightarrow> enforces row (require_one e) (\<lambda>_. value_of row e = 1)"
  unfolding require_one_def by (rule builds_conseq [OF require_zero_builds]) simp

lemma select_value [simp]:
  "challenge_free c \<Longrightarrow> value_of row c \<in> {0, 1} \<Longrightarrow>
   value_of row (select c t f) = (if value_of row c = 1 then value_of row t else value_of row f)"
  by (auto simp: select_def)

lemma challenge_free_select [simp]:
  "challenge_free c \<Longrightarrow> challenge_free t \<Longrightarrow> challenge_free f \<Longrightarrow> challenge_free (select c t f)"
  by (simp add: select_def)

lemma condition_require_equal_builds [builder]:
  assumes "challenge_free c" "challenge_free x" "challenge_free t" "challenge_free f"
  shows "enforces row (condition_require_equal c x t f)
    (\<lambda>_. value_of row x = value_of row f + value_of row c * (value_of row t - value_of row f))"
  unfolding condition_require_equal_def Let_def
  by (rule builds_conseq [OF require_zero_builds]) (use assms in \<open>simp add: algebra_simps\<close>)

lemma zero_or_one: "(x :: gl) * (1 - x) = 0 \<longleftrightarrow> x \<in> {0, 1}"
  by auto

lemma assert_bit_builds [builder]:
  "challenge_free e \<Longrightarrow> enforces row (assert_bit e) (\<lambda>_. value_of row e \<in> {0, 1})"
  unfolding assert_bit_def
  by (rule builds_conseq [OF require_zero_builds]) (simp only: eval_times eval_minus eval_from_unsigned
      of_nat_1 zero_or_one simp_thms)

subsection \<open>Lookups\<close>

lemma unsigned_gl [simp]:
  "unsigned (a AND b) = (of_nat (unat a AND unat b) :: gl)"
  "unsigned (a OR b) = (of_nat (unat a OR unat b) :: gl)"
  "unsigned (a XOR b) = (of_nat (unat a XOR unat b) :: gl)"
  by (metis of_nat_unat unsigned_and_eq unsigned_or_eq unsigned_xor_eq)+

abbreviation canon :: "gl \<Rightarrow> nat" where "canon \<equiv> to_canonical_u64"

lemma canon_of_nat_small [simp]: "n < 2 ^ 63 \<Longrightarrow> canon (of_nat n) = n"
  by (rule to_canonical_of_nat) simp

lemma canon_unsigned_small [simp]: "unat w < 2 ^ 8 \<Longrightarrow> canon (unsigned w) = unat w"
  using canon_of_nat_small [of "unat w"] by simp

lemma assert_ux_builds [builder]:
  "c \<in> {5, 8, 14, 16} \<Longrightarrow> enforces row (assert_ux c e) (\<lambda>_. canon (value_of row e) < 2 ^ c)"
  unfolding assert_ux_def
  by (auto simp: looked_up_def range_rows intro!: builds_conseq [OF lk_record_builds])

lemma assert_byte_builds [builder]:
  "enforces row (assert_byte e) (\<lambda>_. canon (value_of row e) < 2 ^ 8)"
  unfolding assert_byte_def
  by (auto simp: looked_up_def range_rows intro!: builds_conseq [OF lk_record_builds])

lemma create_u8_builds [builder]: "enforces row create_u8 (\<lambda>w. canon (wit row w) < 2 ^ 8)"
  unfolding create_u8_def
  by (rule enforces_bind [OF create_witin_builds], rule enforces_bind [OF assert_ux_builds])
    (simp_all add: builds_ok)

lemma create_u16_builds [builder]: "enforces row create_u16 (\<lambda>w. canon (wit row w) < 2 ^ 16)"
  unfolding create_u16_def
  by (rule enforces_bind [OF create_witin_builds], rule enforces_bind [OF assert_ux_builds])
    (simp_all add: builds_ok)

lemma flatten_expr_builds [builder]:
  "challenge_free e \<Longrightarrow> enforces row (flatten_expr e) (\<lambda>w. wit row w = value_of row e)"
  unfolding flatten_expr_def
  by (rule enforces_bind [OF create_witin_builds], rule enforces_bind [OF require_equal_builds])
    (simp_all add: builds_ok)

lemma create_witin_from_exprs_builds [builder]:
  "challenge_free e \<Longrightarrow> enforces row (create_witin_from_exprs e False) (\<lambda>w. wit row w = value_of row e)"
  unfolding create_witin_from_exprs_def
  by (rule enforces_bind [OF create_witin_builds], simp, rule enforces_bind [OF require_zero_builds])
    (simp_all add: builds_ok)

lemma lookup_and_byte_builds [builder]:
  "enforces row (lookup_and_byte a b c) (\<lambda>_. canon (value_of row a) < 2 ^ 8 \<and> canon (value_of row b) < 2 ^ 8 \<and>
     value_of row c = of_nat (canon (value_of row a) AND canon (value_of row b)))"
  unfolding lookup_and_byte_def logic_u8_def
  by (rule builds_conseq [OF lk_record_builds]) (auto simp: looked_up_def ops_rows unsigned_and_eq)

lemma lookup_or_byte_builds [builder]:
  "enforces row (lookup_or_byte a b c) (\<lambda>_. canon (value_of row a) < 2 ^ 8 \<and> canon (value_of row b) < 2 ^ 8 \<and>
     value_of row c = of_nat (canon (value_of row a) OR canon (value_of row b)))"
  unfolding lookup_or_byte_def logic_u8_def
  by (rule builds_conseq [OF lk_record_builds]) (auto simp: looked_up_def ops_rows unsigned_or_eq)

lemma lookup_xor_byte_builds [builder]:
  "enforces row (lookup_xor_byte a b c) (\<lambda>_. canon (value_of row a) < 2 ^ 8 \<and> canon (value_of row b) < 2 ^ 8 \<and>
     value_of row c = of_nat (canon (value_of row a) XOR canon (value_of row b)))"
  unfolding lookup_xor_byte_def logic_u8_def
  by (rule builds_conseq [OF lk_record_builds]) (auto simp: looked_up_def ops_rows unsigned_xor_eq)

lemma lookup_ltu_byte_builds [builder]:
  "enforces row (lookup_ltu_byte a b c) (\<lambda>_. canon (value_of row a) < 2 ^ 8 \<and> canon (value_of row b) < 2 ^ 8 \<and>
     value_of row c = of_bool (canon (value_of row a) < canon (value_of row b)))"
  unfolding lookup_ltu_byte_def logic_u8_def
  by (rule builds_conseq [OF lk_record_builds]) (auto simp: looked_up_def ops_rows word_less_nat_alt)

lemma lookup_pow2_builds [builder]:
  "enforces row (lookup_pow2 b c) (\<lambda>_. canon (value_of row b) < 32 \<and>
     value_of row c = 2 ^ canon (value_of row b))"
  unfolding lookup_pow2_def logic_u8_def
  by (rule builds_conseq [OF lk_record_builds]) (auto simp: looked_up_def pow_rows)

lemma is_equal_builds [builder]:
  assumes "challenge_free lhs" "challenge_free rhs"
  shows "enforces row (is_equal lhs rhs)
    (\<lambda>(is_eq, _). wit row is_eq = of_bool (value_of row lhs = value_of row rhs))"
proof -
  have flag: "e = of_bool (x = y)" if "e * x - e * y = 0" "1 - e - d * x + d * y = 0" for e d x y :: gl
  proof (cases "x = y")
    case False
    from that(1) have "e * (x - y) = 0" by (simp add: algebra_simps)
    with False show ?thesis by simp
  qed (use that in simp)
  show ?thesis unfolding is_equal_def
    by (intro enforces_bind [OF create_witin_builds] enforces_bind [OF require_zero_builds] builds_ok impI)
      (use assms in \<open>auto intro!: flag simp: algebra_simps\<close>)
qed

end
