(* ===== verification/Witness.thy ===== *)
theory Witness
  imports Circuit
begin

text \<open>
  Witness assignment and lookup multiplicities (\<open>ceno_zkvm/src/witness.rs\<close>): rows of field elements
  and the number of lookups of every table row, counted by each thread on its own and merged.
\<close>

subsection \<open>Witness assignment\<close>

text \<open>The lookups of every row; a row that is absent from the hash map counts zero.\<close>

type_synonym Multiplicity = "ROMType \<Rightarrow> u64 \<Rightarrow> nat"

record assignment =
  instance_row :: "gl list"
  lk_multiplicity :: Multiplicity

type_synonym 'a assign = "(assignment, zkvm_error, 'a) prog"

definition set_val :: "nat \<Rightarrow> gl \<Rightarrow> unit assign" where
  "set_val w v = (\<lambda>s. if w < length (instance_row s) then (Inr (), s\<lparr>instance_row := (instance_row s)[w := v]\<rparr>)
     else (Inl (ZkvmPanic ''index out of bounds''), s))"

definition increment :: "ROMType \<Rightarrow> u64 \<Rightarrow> Multiplicity \<Rightarrow> Multiplicity" where
  "increment table key m = m(table := (m table)(key := m table key + 1))"

definition lkm_increment :: "ROMType \<Rightarrow> u64 \<Rightarrow> unit assign" where
  "lkm_increment table key = modify (\<lambda>s. s\<lparr>lk_multiplicity := increment table key (lk_multiplicity s)\<rparr>)"

definition lkm_assert_ux :: "nat \<Rightarrow> u64 \<Rightarrow> unit assign" where
  "lkm_assert_ux c v =
     (if c = 16 then lkm_increment U16 v else if c = 14 then lkm_increment U14 v
      else if c = 8 then lkm_increment U8 v else if c = 5 then lkm_increment U5 v
      else fail (ZkvmPanic ''Unsupported bit range''))"

definition lkm_logic_u8 :: "ROMType \<Rightarrow> u64 \<Rightarrow> u64 \<Rightarrow> unit assign" where
  "lkm_logic_u8 table a b =
     (if table = Pow then andThen (zkvm_assert (a = 2) ''base == 2'') (\<lambda>_. lkm_increment table b)
      else lkm_increment table (pack a b))"

definition lkm_fetch :: "u32 \<Rightarrow> unit assign" where
  "lkm_fetch pc = lkm_increment InsnRom (ucast pc)"

subsection \<open>Threads\<close>

text \<open>Each thread counts in a slot of its own, made on its first lookup; the slots are summed at the end.\<close>

type_synonym LkMultiplicityRaw = "(nat \<times> Multiplicity) list"

definition no_lookups :: Multiplicity where "no_lookups = (\<lambda>_ _. 0)"

fun get_or_default :: "nat \<Rightarrow> (Multiplicity \<Rightarrow> Multiplicity) \<Rightarrow> LkMultiplicityRaw \<Rightarrow> LkMultiplicityRaw" where
  "get_or_default tid f [] = [(tid, f no_lookups)]"
| "get_or_default tid f ((t, m) # slots) =
     (if t = tid then (t, f m) # slots else (t, m) # get_or_default tid f slots)"

definition multiplicity_add_assign :: "Multiplicity \<Rightarrow> Multiplicity \<Rightarrow> Multiplicity" where
  "multiplicity_add_assign lhs rhs = (\<lambda>table key. lhs table key + rhs table key)"

definition into_finalize_result :: "LkMultiplicityRaw \<Rightarrow> Multiplicity" where
  "into_finalize_result slots = foldl multiplicity_add_assign no_lookups (map snd slots)"

definition lkm_add_assign :: "nat \<Rightarrow> LkMultiplicityRaw \<Rightarrow> LkMultiplicityRaw \<Rightarrow> LkMultiplicityRaw" where
  "lkm_add_assign tid lhs rhs =
     get_or_default tid (\<lambda>m. multiplicity_add_assign m (into_finalize_result rhs)) lhs"

definition set_count :: "nat \<Rightarrow> ROMType \<Rightarrow> u64 \<Rightarrow> nat \<Rightarrow> LkMultiplicityRaw \<Rightarrow> LkMultiplicityRaw" where
  "set_count tid table key n slots =
     (if n = 0 then slots else get_or_default tid (\<lambda>m. m(table := (m table)(key := n))) slots)"

lemma finalize_sum: "into_finalize_result slots table key = (\<Sum>(t, m) \<leftarrow> slots. m table key)"
proof -
  have "foldl multiplicity_add_assign a (map snd slots) table key = a table key + (\<Sum>(t, m) \<leftarrow> slots. m table key)" for a
    by (induction slots arbitrary: a) (auto simp: multiplicity_add_assign_def)
  then show ?thesis by (simp add: into_finalize_result_def no_lookups_def)
qed

lemma finalize_increment:
  "into_finalize_result (get_or_default tid (increment table key) slots) table' key' =
   into_finalize_result slots table' key' + of_bool (table = table' \<and> key = key')"
  unfolding finalize_sum
  by (induction tid "increment table key" slots rule: get_or_default.induct)
    (auto simp: increment_def no_lookups_def)

lemma finalize_events:
  "into_finalize_result (fold (\<lambda>(tid, table, key). get_or_default tid (increment table key)) events slots) table key =
   into_finalize_result slots table key + count_list (map snd events) (table, key)"
  by (induction events arbitrary: slots) (auto simp: finalize_increment)

text \<open>
  C24. The merged multiplicity of a table row is the number of lookups of that row that all threads
  made, whichever threads made them and however their lookups were interleaved.
\<close>

theorem merged_multiplicity_counts:
  "into_finalize_result (fold (\<lambda>(tid, table, key). get_or_default tid (increment table key)) events [])
     table key = count_list (map snd events) (table, key)"
  unfolding finalize_events by (simp add: finalize_sum)

end
