(* ===== verification/Gadgets.thy ===== *)
theory Gadgets
  imports Satisfy Witness
begin

text \<open>
  Comparison, zero test and sign extraction (\<open>ceno_zkvm/src/gadgets/\<close>) and their witness assignment. For every gadget: what its
  constraints enforce, and that the values it assigns satisfy them.
\<close>

subsection \<open>Less than\<close>

record InnerLtConfig =
  lt_diff :: "nat list"
  max_num_u16_limbs :: nat

text \<open>\<open>1u64 << (16 * n)\<close>; the shift count is reduced modulo 64.\<close>

definition lt_range :: "nat \<Rightarrow> nat" where
  "lt_range n = 2 ^ (16 * n mod 64)"

definition inner_lt_construct :: "expr \<Rightarrow> expr \<Rightarrow> expr \<Rightarrow> nat \<Rightarrow> InnerLtConfig build" where
  "inner_lt_construct lhs rhs is_lt_expr n =
     andThen (zkvm_assert (n \<ge> 1) ''max_num_u16_limbs >= 1'') (\<lambda>_.
     andThen (mapM (\<lambda>_. andThen create_witin (\<lambda>w. andThen (assert_ux 16 (WitIn w)) (\<lambda>_. ok w))) [0..<n]) (\<lambda>diff.
     let diff_expr = sum_expr (map2 (\<lambda>record beta. beta * WitIn record) diff
           (power_sequence (from_unsigned (2 ^ 16)) (length diff)))
     in andThen (require_equal (lhs - rhs) (diff_expr - is_lt_expr * from_unsigned (lt_range n))) (\<lambda>_.
     ok \<lparr>lt_diff = diff, max_num_u16_limbs = n\<rparr>)))"

definition inner_lt_assign_field :: "InnerLtConfig \<Rightarrow> gl \<Rightarrow> gl \<Rightarrow> bool \<Rightarrow> unit assign" where
  "inner_lt_assign_field cfg lhs rhs is_lt =
     (let range_offset = (if is_lt then of_nat (lt_range (max_num_u16_limbs cfg)) else 0);
          diff = (of_nat (to_canonical_u64 (lhs - rhs + range_offset)) :: u64)
      in forM (\<lambda>(i, w). let val = drop_bit (i * 16) diff AND 0xffff in
           andThen (lkm_assert_ux 16 val) (\<lambda>_. set_val w (of_nat (unat val))))
         (enumerate 0 (lt_diff cfg)))"

definition inner_lt_assign_u64 :: "InnerLtConfig \<Rightarrow> u64 \<Rightarrow> u64 \<Rightarrow> unit assign" where
  "inner_lt_assign_u64 cfg lhs rhs =
     inner_lt_assign_field cfg (of_nat (unat lhs)) (of_nat (unat rhs)) (lhs < rhs)"

definition inner_lt_assign_i64 :: "InnerLtConfig \<Rightarrow> i64 \<Rightarrow> i64 \<Rightarrow> unit assign" where
  "inner_lt_assign_i64 cfg lhs rhs =
     inner_lt_assign_field cfg (i64_to_base lhs) (i64_to_base rhs) (lhs <s rhs)"

datatype AssertLtConfig = AssertLtConfig InnerLtConfig

definition assert_lt_construct :: "expr \<Rightarrow> expr \<Rightarrow> nat \<Rightarrow> AssertLtConfig build" where
  "assert_lt_construct lhs rhs n = andThen (inner_lt_construct lhs rhs 1 n) (\<lambda>cfg. ok (AssertLtConfig cfg))"

fun assert_lt_assign :: "AssertLtConfig \<Rightarrow> u64 \<Rightarrow> u64 \<Rightarrow> unit assign" where
  "assert_lt_assign (AssertLtConfig cfg) lhs rhs = inner_lt_assign_u64 cfg lhs rhs"

fun assert_lt_assign_signed :: "AssertLtConfig \<Rightarrow> i64 \<Rightarrow> i64 \<Rightarrow> unit assign" where
  "assert_lt_assign_signed (AssertLtConfig cfg) lhs rhs = inner_lt_assign_i64 cfg lhs rhs"

record IsLtConfig =
  is_lt_wit :: nat
  is_lt_config :: InnerLtConfig

definition is_lt_construct :: "expr \<Rightarrow> expr \<Rightarrow> nat \<Rightarrow> IsLtConfig build" where
  "is_lt_construct lhs rhs n =
     andThen create_witin (\<lambda>is_lt.
     andThen (assert_bit (WitIn is_lt)) (\<lambda>_.
     andThen (inner_lt_construct lhs rhs (WitIn is_lt) n) (\<lambda>config.
     ok \<lparr>is_lt_wit = is_lt, is_lt_config = config\<rparr>)))"

definition is_lt_assign :: "IsLtConfig \<Rightarrow> u64 \<Rightarrow> u64 \<Rightarrow> unit assign" where
  "is_lt_assign cfg lhs rhs =
     andThen (set_val (is_lt_wit cfg) (of_bool (lhs < rhs))) (\<lambda>_.
     inner_lt_assign_u64 (is_lt_config cfg) lhs rhs)"

definition is_lt_assign_signed :: "IsLtConfig \<Rightarrow> i64 \<Rightarrow> i64 \<Rightarrow> unit assign" where
  "is_lt_assign_signed cfg lhs rhs =
     andThen (set_val (is_lt_wit cfg) (of_bool (lhs <s rhs))) (\<lambda>_.
     inner_lt_assign_i64 (is_lt_config cfg) lhs rhs)"

definition is_lt_assign_field :: "IsLtConfig \<Rightarrow> gl \<Rightarrow> gl \<Rightarrow> bool \<Rightarrow> unit assign" where
  "is_lt_assign_field cfg lhs rhs is_lt =
     andThen (set_val (is_lt_wit cfg) (of_bool is_lt)) (\<lambda>_.
     inner_lt_assign_field (is_lt_config cfg) lhs rhs is_lt)"

text \<open>\<open>cal_lt_diff\<close>, on \<open>u64\<close>.\<close>

definition cal_lt_diff :: "bool \<Rightarrow> nat \<Rightarrow> u64 \<Rightarrow> u64 \<Rightarrow> u64" where
  "cal_lt_diff is_lt n lhs rhs = (if is_lt then of_nat (lt_range n) else 0) + lhs - rhs"

subsection \<open>Zero and equality tests\<close>

record IsZeroConfig =
  is_zero_wit :: "nat option"
  inverse_wit :: nat

definition is_zero_expr_of :: "IsZeroConfig \<Rightarrow> expr" where
  "is_zero_expr_of cfg = (case is_zero_wit cfg of None \<Rightarrow> from_unsigned 0 | Some w \<Rightarrow> WitIn w)"

definition is_zero_construct :: "expr \<Rightarrow> bool \<Rightarrow> IsZeroConfig build" where
  "is_zero_construct x assert_non_zero =
     andThen (if assert_non_zero then ok (None, from_unsigned 0)
       else andThen create_witin (\<lambda>is_zero.
            andThen (require_zero (WitIn is_zero * x)) (\<lambda>_.
            ok (Some is_zero, WitIn is_zero)))) (\<lambda>(is_zero, is_zero_expr).
     andThen create_witin (\<lambda>inverse.
     andThen (require_one (is_zero_expr + x * WitIn inverse)) (\<lambda>_.
     ok \<lparr>is_zero_wit = is_zero, inverse_wit = inverse\<rparr>)))"

definition is_zero_assign :: "IsZeroConfig \<Rightarrow> gl \<Rightarrow> unit assign" where
  "is_zero_assign cfg x =
     (let (is_zero, inv) = (if x = 0 then (1, 0) else (0, inverse x)) in
      andThen (case is_zero_wit cfg of None \<Rightarrow> ok () | Some w \<Rightarrow> set_val w is_zero) (\<lambda>_.
      set_val (inverse_wit cfg) inv))"

definition is_equal_construct :: "expr \<Rightarrow> expr \<Rightarrow> IsZeroConfig build" where
  "is_equal_construct a b = is_zero_construct (a - b) False"

definition non_equal_construct :: "expr \<Rightarrow> expr \<Rightarrow> IsZeroConfig build" where
  "non_equal_construct a b = is_zero_construct (a - b) True"

definition is_equal_assign :: "IsZeroConfig \<Rightarrow> gl \<Rightarrow> gl \<Rightarrow> unit assign" where
  "is_equal_assign cfg a b = is_zero_assign cfg (a - b)"

subsection \<open>Most significant bit\<close>

record SignedExtendConfig =
  msb_wit :: nat
  n_bits :: nat

definition signed_ext_construct :: "nat \<Rightarrow> expr \<Rightarrow> SignedExtendConfig build" where
  "signed_ext_construct n val =
     andThen (zkvm_assert (n = 8 \<or> n = 16) ''n_bits == 8 || n_bits == 16'') (\<lambda>_.
     andThen create_witin (\<lambda>w.
     andThen (assert_bit (WitIn w)) (\<lambda>_.
     andThen (assert_ux n (from_unsigned 2 * val - shl_expr (WitIn w) n)) (\<lambda>_.
     ok \<lparr>msb_wit = w, n_bits = n\<rparr>))))"

definition signed_ext_assign :: "SignedExtendConfig \<Rightarrow> u64 \<Rightarrow> unit assign" where
  "signed_ext_assign cfg val =
     (let top = drop_bit (n_bits cfg - 1) val in
      andThen (if n_bits cfg = 8 \<or> n_bits cfg = 16
               then lkm_assert_ux (n_bits cfg) (2 * val - push_bit (n_bits cfg) top)
               else fail (ZkvmPanic ''unsupported n_bits'')) (\<lambda>_.
      set_val (msb_wit cfg) (of_nat (unat top))))"

subsection \<open>Limbs\<close>

text \<open>The number whose little-endian 16-bit limbs are given.\<close>

fun limbs_value :: "nat list \<Rightarrow> nat" where
  "limbs_value [] = 0"
| "limbs_value (x # xs) = x + 2 ^ 16 * limbs_value xs"

lemma limbs_value_less: "\<forall>x \<in> set xs. x < 2 ^ 16 \<Longrightarrow> limbs_value xs < 2 ^ (16 * length xs)"
proof (induction xs)
  case (Cons x xs)
  then have "x < 2 ^ 16" and "limbs_value xs + 1 \<le> 2 ^ (16 * length xs)" by simp_all
  then have "x + 2 ^ 16 * limbs_value xs < 2 ^ 16 * (limbs_value xs + 1)" by simp
  also have "\<dots> \<le> 2 ^ 16 * 2 ^ (16 * length xs)"
    using \<open>limbs_value xs + 1 \<le> _\<close> by (rule mult_le_mono2)
  finally show ?case by (simp add: power_add)
qed simp

lemma value_power_sum:
  "value_of row (sum_expr (map2 (\<lambda>record beta. beta * WitIn record) ws (power_sequence (from_unsigned (2 ^ 16)) (length ws)))) =
   of_nat (limbs_value (map (\<lambda>w. canon (wit row w)) ws))"
proof -
  have scale: "(\<Sum>(w, beta) \<leftarrow> zip ws (map (\<lambda>p. p * from_unsigned 65536) ps). value_of row beta * wit row w) =
    65536 * (\<Sum>(w, beta) \<leftarrow> zip ws ps. value_of row beta * wit row w)" for ws :: "nat list" and ps
    by (induction ws ps rule: list_induct2') (simp_all add: algebra_simps)
  have "(\<Sum>(w, beta) \<leftarrow> zip ws (power_sequence (from_unsigned 65536) (length ws)). value_of row beta * wit row w) =
    of_nat (limbs_value (map (\<lambda>w. canon (wit row w)) ws))"
    by (induction ws) (simp_all add: scale)
  then show ?thesis by (simp add: comp_def case_prod_beta')
qed

lemma challenge_free_power_sequence:
  "challenge_free b \<Longrightarrow> \<forall>e \<in> set (power_sequence b n). challenge_free e"
  by (induction n) auto

lemma challenge_free_power_sum [simp]:
  "challenge_free (sum_expr (map2 (\<lambda>record beta. beta * WitIn record) ws (power_sequence (from_unsigned k) n)))"
  using challenge_free_power_sequence [of "from_unsigned k" n]
  by (auto intro!: challenge_free_sum challenge_free_times dest!: set_zip_rightD)

subsection \<open>What comparisons enforce\<close>

text \<open>\<open>lt_decision row n lhs rhs c\<close>: the constraint on \<open>lhs\<close>, \<open>rhs\<close> and the outcome \<open>c\<close>.\<close>

definition lt_decision :: "nat \<Rightarrow> gl \<Rightarrow> gl \<Rightarrow> gl \<Rightarrow> bool" where
  "lt_decision n x y c \<longleftrightarrow> (\<exists>d < 2 ^ (16 * n). x - y = of_nat d - c * of_nat (lt_range n))"

lemma inner_lt_builds [builder]:
  assumes "challenge_free rhs" "challenge_free c"
  shows "enforces row (inner_lt_construct lhs rhs c n)
    (\<lambda>_. lt_decision n (value_of row lhs) (value_of row rhs) (value_of row c))"
proof -
  have u16: "enforces row (andThen create_witin (\<lambda>w. andThen (assert_ux 16 (WitIn w)) (\<lambda>_. ok w)))
    (\<lambda>w. canon (wit row w) < 2 ^ 16)"
    using create_u16_builds by (simp add: create_u16_def)
  show ?thesis unfolding inner_lt_construct_def Let_def
  proof (intro enforces_bind [OF enforces_assert] enforces_bind [OF enforces_mapM [OF u16]]
      enforces_bind [OF require_equal_builds] builds_ok impI conjI refl)
    fix a diff u
    assume "list_all2 (\<lambda>_ w. canon (wit row w) < 2 ^ 16) [0..<n] diff"
    then have len: "length diff = n" and small: "\<forall>x \<in> set (map (\<lambda>w. canon (wit row w)) diff). x < 2 ^ 16"
      by (auto simp: list_all2_conv_all_nth in_set_conv_nth)
    assume "value_of row (lhs - rhs) = value_of row
      (sum_expr (map2 (\<lambda>record beta. beta * WitIn record) diff
         (power_sequence (from_unsigned (2 ^ 16)) (length diff))) - c * from_unsigned (lt_range n))"
    then have "value_of row lhs - value_of row rhs =
      of_nat (limbs_value (map (\<lambda>w. canon (wit row w)) diff)) - value_of row c * of_nat (lt_range n)"
      using assms by (simp only: eval_minus challenge_free_times challenge_free_from value_power_sum eval_times eval_from_unsigned)
    with limbs_value_less [OF small] len
    show "lt_decision n (value_of row lhs) (value_of row rhs) (value_of row c)"
      unfolding lt_decision_def by auto
  qed (use assms in simp_all)
qed

lemma lt_decision_iff:
  assumes "lt_decision n (of_int a) (of_int b) (of_bool c)" and "n \<le> 3" and "\<bar>a - b\<bar> < 2 ^ 62"
  shows "c \<longleftrightarrow> a < b"
proof -
  from assms(1) obtain d where d: "d < 2 ^ (16 * n)"
    and eq: "of_int (a - b) = (of_int (int d - of_bool c * 2 ^ (16 * n)) :: gl)"
    using assms(2) unfolding lt_decision_def lt_range_def by auto
  have "(2 :: nat) ^ (16 * n) \<le> 2 ^ 48" using assms(2) by (intro power_increasing) auto
  with d have "d < 2 ^ 48" by linarith
  then have bound: "int d < 2 ^ 48" by simp
  have "(2 :: int) ^ (16 * n) \<le> 2 ^ 48" using assms(2) by (intro power_increasing) auto
  moreover have "\<bar>int d - of_bool c * m\<bar> < 2 ^ 62" if "0 < m" "m \<le> 2 ^ 48" for m
    using bound that by (cases c) auto
  ultimately have "\<bar>int d - of_bool c * 2 ^ (16 * n)\<bar> < 2 ^ 62" by simp
  with assms(3) eq have diff: "a - b = int d - of_bool c * 2 ^ (16 * n)"
    by (intro of_int_gl_inject [THEN iffD1]) (auto simp: gl_modulus_def)
  have less: "int d < 2 ^ (16 * n)" using d by (simp flip: of_nat_less_iff)
  show ?thesis
  proof (cases c)
    case True
    with diff have "a - b = int d - 2 ^ (16 * n)" by simp
    with less True show ?thesis by linarith
  qed (use diff in simp)
qed

lemma assert_lt_builds [builder]:
  assumes "challenge_free rhs"
  shows "enforces row (assert_lt_construct lhs rhs n) (\<lambda>_. lt_decision n (value_of row lhs) (value_of row rhs) 1)"
  unfolding assert_lt_construct_def
  by (rule enforces_bind [OF inner_lt_builds]) (use assms in \<open>simp_all add: builds_ok\<close>)

lemma is_lt_builds [builder]:
  assumes "challenge_free rhs"
  shows "enforces row (is_lt_construct lhs rhs n)
    (\<lambda>cfg. \<exists>c. wit row (is_lt_wit cfg) = of_bool c \<and>
       lt_decision n (value_of row lhs) (value_of row rhs) (of_bool c))"
  unfolding is_lt_construct_def
proof (intro enforces_bind [OF create_witin_builds] enforces_bind [OF assert_bit_builds]
    enforces_bind [OF inner_lt_builds] builds_ok impI conjI refl)
  fix w config
  assume "value_of row (WitIn w) \<in> {0, 1}"
    and "lt_decision n (value_of row lhs) (value_of row rhs) (value_of row (WitIn w))"
  then show "\<exists>c. wit row (is_lt_wit \<lparr>is_lt_wit = w, is_lt_config = config\<rparr>) = of_bool c \<and>
      lt_decision n (value_of row lhs) (value_of row rhs) (of_bool c)"
    by (intro exI [of _ "wit row w = 1"]) auto
qed (use assms in simp_all)

subsection \<open>What zero tests and sign extraction enforce\<close>

lemma is_zero_returns [returning]:
  "returns (is_zero_construct x b) (\<lambda>cfg. challenge_free (is_zero_expr_of cfg))"
  unfolding is_zero_construct_def
  by (auto intro!: returns_then returns_ok simp: is_zero_expr_of_def split: option.split)

lemma is_zero_builds [builder]:
  assumes "challenge_free x"
  shows "enforces row (is_zero_construct x False)
    (\<lambda>cfg. value_of row (is_zero_expr_of cfg) = of_bool (value_of row x = 0))"
  unfolding is_zero_construct_def if_False
proof (rule enforces_bind_returns)
  let ?wit = "andThen create_witin (\<lambda>v. andThen (require_zero (WitIn v * x)) (\<lambda>_. ok (Some v, WitIn v)))"
  show "returns ?wit (\<lambda>(w, e). \<exists>v. w = Some v \<and> e = WitIn v)"
    by (intro returns_then returns_ok) simp
  show "enforces row ?wit (\<lambda>(w, e). value_of row e * value_of row x = 0)"
    by (intro enforces_bind [OF create_witin_builds] enforces_bind [OF require_zero_builds] builds_ok) simp
  fix p :: "nat option \<times> expr"
  assume "case p of (w, e) \<Rightarrow> \<exists>v. w = Some v \<and> e = WitIn v"
  then obtain v where p: "p = (Some v, WitIn v)" by auto
  show "builds row ((\<lambda>(is_zero, is_zero_expr). andThen create_witin (\<lambda>inverse.
       andThen (require_one (is_zero_expr + x * WitIn inverse)) (\<lambda>_.
       ok \<lparr>is_zero_wit = is_zero, inverse_wit = inverse\<rparr>))) p)
    (\<lambda>cfg rs ws. (case p of (w, e) \<Rightarrow> value_of row e * value_of row x = 0) \<longrightarrow>
       rs = [] \<and> ws = [] \<and> value_of row (is_zero_expr_of cfg) = of_bool (value_of row x = 0))"
    unfolding p prod.case
    by (intro enforces_bind [OF create_witin_builds] enforces_bind [OF require_one_builds] builds_ok impI)
      (use assms in \<open>auto simp: is_zero_expr_of_def\<close>)
qed

lemma non_zero_builds [builder]:
  assumes "challenge_free x"
  shows "enforces row (is_zero_construct x True) (\<lambda>_. value_of row x \<noteq> 0)"
  unfolding is_zero_construct_def if_True andThen_ok prod.case
  by (intro enforces_bind [OF create_witin_builds] enforces_bind [OF require_one_builds] builds_ok impI)
    (use assms in auto)

lemma is_equal_construct_builds [builder]:
  "challenge_free a \<Longrightarrow> challenge_free b \<Longrightarrow> enforces row (is_equal_construct a b)
    (\<lambda>cfg. value_of row (is_zero_expr_of cfg) = of_bool (value_of row a = value_of row b))"
  unfolding is_equal_construct_def by (rule builds_conseq [OF is_zero_builds]) simp_all

lemma non_equal_construct_builds [builder]:
  "challenge_free a \<Longrightarrow> challenge_free b \<Longrightarrow> enforces row (non_equal_construct a b)
    (\<lambda>_. value_of row a \<noteq> value_of row b)"
  unfolding non_equal_construct_def by (rule builds_conseq [OF non_zero_builds]) simp_all

lemma is_equal_construct_returns [returning]:
  "returns (is_equal_construct a b) (\<lambda>cfg. challenge_free (is_zero_expr_of cfg))"
  unfolding is_equal_construct_def by (rule is_zero_returns)

text \<open>A limb \<open>v\<close> of \<open>n\<close> bits has its most significant bit in the column, whatever the prover puts there.\<close>

lemma msb_decided:
  assumes "n \<in> {8, 16}" and "canon v < 2 ^ n"
    and "canon (2 * v - of_bool b * 2 ^ n) < 2 ^ n"
  shows "b \<longleftrightarrow> 2 ^ (n - 1) \<le> canon v"
proof -
  obtain k where k: "v = of_int (int k)" "k < 2 ^ n" using assms(2) of_nat_to_canonical [of v]
    by (metis of_int_of_nat_eq)
  obtain d where d: "2 * v - of_bool b * 2 ^ n = of_int (int d)" "d < 2 ^ n"
    using assms(3) of_nat_to_canonical by (metis of_int_of_nat_eq)
  have "(of_int (2 * int k - of_bool b * 2 ^ n) :: gl) = of_int (int d)" using k(1) d(1) by simp
  then have "2 * int k - of_bool b * 2 ^ n = int d"
    using k(2) d(2) assms(1) by (intro of_int_gl_inject [THEN iffD1]) (auto simp: gl_modulus_def of_bool_def)
  moreover have "canon v = k" using k assms(1) by auto
  ultimately show ?thesis using assms(1) d(2) k(2) by (auto simp: of_bool_def split: if_splits)
qed

lemma signed_ext_builds [builder]:
  "enforces row (signed_ext_construct n val)
    (\<lambda>cfg. canon (value_of row val) < 2 ^ n \<longrightarrow>
       wit row (msb_wit cfg) = of_bool (2 ^ (n - 1) \<le> canon (value_of row val)))"
proof (cases "n \<in> {8, 16}")
  case True
  then show ?thesis unfolding signed_ext_construct_def
  proof (intro enforces_bind [OF enforces_assert] enforces_bind [OF create_witin_builds]
      enforces_bind [OF assert_bit_builds] enforces_bind [OF assert_ux_builds] builds_ok impI conjI refl)
    fix w
    assume "value_of row (WitIn w) \<in> {0, 1}"
      and range: "canon (value_of row (from_unsigned 2 * val - shl_expr (WitIn w) n)) < 2 ^ n"
      and val: "canon (value_of row val) < 2 ^ n"
    then obtain b where b: "wit row w = of_bool b" by (cases "wit row w = 1") auto
    with range have "canon (2 * value_of row val - of_bool b * 2 ^ n) < 2 ^ n" by simp
    with msb_decided [OF True val] b
    show "wit row (msb_wit \<lparr>msb_wit = w, n_bits = n\<rparr>) = of_bool (2 ^ (n - 1) \<le> canon (value_of row val))"
      by simp
  qed (use True in auto)
next
  case False
  then show ?thesis unfolding signed_ext_construct_def
    by (simp add: zkvm_assert_def andThen_fail builds_fail)
qed

end
