(* ===== verification/Complete.thy ===== *)
theory Complete
  imports Gadgets
begin

text \<open>
  The converse direction for the gadgets: the values they assign satisfy the constraints they build.
  \<open>exact row m Q\<close> says that \<open>Q\<close> of the result is all that the constraints of \<open>m\<close> ask for.
\<close>

named_theorems exactly \<open>what the constraints of a builder method amount to\<close>

definition exact :: "circuit_row \<Rightarrow> 'a build \<Rightarrow> ('a \<Rightarrow> bool) \<Rightarrow> bool" where
  "exact row m Q \<longleftrightarrow> (\<forall>cs a cs'. m cs = (Inr a, cs') \<longrightarrow> (satisfied row cs' \<longleftrightarrow> satisfied row cs \<and> Q a))"

lemma exactD: "exact row m Q \<Longrightarrow> m cs = (Inr a, cs') \<Longrightarrow> satisfied row cs' \<longleftrightarrow> satisfied row cs \<and> Q a"
  unfolding exact_def by blast

lemma exact_bind:
  assumes "exact row m Q" and "\<And>a. exact row (f a) (R a)"
    and "\<And>a. returns (f a) (\<lambda>b. g b = a)"
  shows "exact row (andThen m f) (\<lambda>b. Q (g b) \<and> R (g b) b)"
  unfolding exact_def
proof (intro allI impI)
  fix cs b cs''
  assume "andThen m f cs = (Inr b, cs'')"
  then obtain a cs' where m: "m cs = (Inr a, cs')" and f: "f a cs' = (Inr b, cs'')"
    by (auto simp: andThen_success)
  from assms(3) f have "g b = a" unfolding returns_def by blast
  moreover from assms(2) f have "satisfied row cs'' \<longleftrightarrow> satisfied row cs' \<and> R a b" unfolding exact_def by blast
  moreover from assms(1) m have "satisfied row cs' \<longleftrightarrow> satisfied row cs \<and> Q a" unfolding exact_def by blast
  ultimately show "satisfied row cs'' \<longleftrightarrow> satisfied row cs \<and> Q (g b) \<and> R (g b) b" by blast
qed

lemma exact_then:
  assumes "exact row m (\<lambda>_. P)" and "\<And>a. exact row (f a) R"
  shows "exact row (andThen m f) (\<lambda>b. P \<and> R b)"
  using assms unfolding exact_def andThen_success by blast

lemma exact_conseq: "exact row m Q \<Longrightarrow> (\<And>a. Q a = R a) \<Longrightarrow> exact row m R"
  unfolding exact_def by simp

lemma exact_ok: "exact row (ok x) (\<lambda>_. True)"
  unfolding exact_def by simp

lemma exact_assert: "exact row (zkvm_assert b msg) (\<lambda>_. True)"
  unfolding exact_def zkvm_assert_def by simp

lemma exact_create_witin: "exact row create_witin (\<lambda>_. True)"
  unfolding exact_def create_witin_def by simp

lemma exact_lk_record: "exact row (lk_record table items) (\<lambda>_. looked_up row table items)"
  unfolding exact_def lk_record_def rlc_chip_record_def zkvm_assert_def
  by (auto simp: andThen_success satisfied_def split: if_splits)

lemma exact_require_zero: "exact row (require_zero e) (\<lambda>_. value_of row e = 0)"
  unfolding exact_def require_zero_def zkvm_assert_def Let_def
  by (auto simp: andThen_success satisfied_def eval_get_monomial_form split: if_splits)

lemma exact_require_equal:
  "challenge_free b \<Longrightarrow> exact row (require_equal a b) (\<lambda>_. value_of row a = value_of row b)"
  unfolding require_equal_def
  by (rule exact_conseq [OF exact_require_zero]) (simp add: eval_get_monomial_form)

lemma exact_require_one: "challenge_free e \<Longrightarrow> exact row (require_one e) (\<lambda>_. value_of row e = 1)"
  unfolding require_one_def by (rule exact_conseq [OF exact_require_zero]) auto

lemma exact_assert_bit: "challenge_free e \<Longrightarrow> exact row (assert_bit e) (\<lambda>_. value_of row e \<in> {0, 1})"
  unfolding assert_bit_def
  by (rule exact_conseq [OF exact_require_zero])
    (simp only: eval_times eval_minus eval_from_unsigned of_nat_1 zero_or_one)

lemma below_canon: "canon x < k \<Longrightarrow> \<exists>n < k. x = of_nat n"
  by (metis of_nat_to_canonical)

lemma exact_assert_ux:
  assumes "c \<in> {5, 8, 14, 16}"
  shows "exact row (assert_ux c e) (\<lambda>_. canon (value_of row e) < 2 ^ c)"
  unfolding assert_ux_def using assms
  by (auto simp: looked_up_def range_rows intro!: exact_conseq [OF exact_lk_record] below_canon)

lemma exact_mapM:
  assumes "\<And>x. exact row (f x) Q"
  shows "exact row (mapM f xs) (\<lambda>ys. \<forall>y \<in> set ys. Q y)"
proof (induction xs)
  case Nil
  show ?case by (simp add: exact_def)
next
  case (Cons x xs)
  have step: "exact row (andThen (mapM f xs) (\<lambda>ys. ok (y # ys))) (\<lambda>b. (\<forall>z \<in> set (tl b). Q z) \<and> True)" for y
    by (rule exact_bind [OF Cons.IH exact_ok, where g = tl]) (simp add: returns_ok)
  have "returns (andThen (mapM f xs) (\<lambda>ys. ok (y # ys))) (\<lambda>b. hd b = y)" for y
    by (intro returns_then returns_ok) simp
  then have "exact row (mapM f (x # xs)) (\<lambda>b. Q (hd b) \<and> (\<forall>z \<in> set (tl b). Q z) \<and> True)"
    unfolding mapM.simps by (rule exact_bind [OF assms step])
  moreover have "returns (mapM f (x # xs)) (\<lambda>b. b \<noteq> [])"
    unfolding mapM.simps by (intro returns_then returns_ok) simp
  ultimately show ?case unfolding exact_def returns_def
    by (metis list.collapse list.set_intros(1) list.set_sel(2) set_ConsD)
qed

subsection \<open>Columns\<close>

lemma create_witin_success:
  "create_witin cs = (Inr w, cs') \<longleftrightarrow> num_witin cs + 1 < 2 ^ 16 \<and> w = num_witin cs \<and> cs' = cs\<lparr>num_witin := num_witin cs + 1\<rparr>"
  by (auto simp: create_witin_def)

lemma lk_record_num_witin [simp]: "lk_record table items cs = (Inr u, cs') \<Longrightarrow> num_witin cs' = num_witin cs"
  unfolding lk_record_def rlc_chip_record_def zkvm_assert_def
  by (auto simp: andThen_success split: if_splits)

lemma require_zero_num_witin [simp]: "require_zero e cs = (Inr u, cs') \<Longrightarrow> num_witin cs' = num_witin cs"
  unfolding require_zero_def zkvm_assert_def Let_def
  by (auto simp: andThen_success split: if_splits)

lemma assert_ux_num_witin [simp]: "assert_ux c e cs = (Inr u, cs') \<Longrightarrow> num_witin cs' = num_witin cs"
  by (auto simp: assert_ux_def split: if_splits)

lemma require_equal_num_witin [simp]: "require_equal a b cs = (Inr u, cs') \<Longrightarrow> num_witin cs' = num_witin cs"
  by (auto simp: require_equal_def)

lemma assert_bit_num_witin [simp]: "assert_bit e cs = (Inr u, cs') \<Longrightarrow> num_witin cs' = num_witin cs"
  by (auto simp: assert_bit_def)

lemma mapM_columns:
  assumes "mapM (\<lambda>_. andThen create_witin (\<lambda>w. andThen (assert_ux 16 (WitIn w)) (\<lambda>_. ok w))) xs cs = (Inr ws, cs')"
  shows "ws = [num_witin cs..<num_witin cs + length xs] \<and> num_witin cs' = num_witin cs + length xs"
  using assms
proof (induction xs arbitrary: cs ws cs')
  case (Cons x xs)
  from Cons.prems obtain u cs1 vs where
    1: "assert_ux 16 (WitIn (num_witin cs)) (cs\<lparr>num_witin := num_witin cs + 1\<rparr>) = (Inr u, cs1)"
    and 2: "mapM (\<lambda>_. andThen create_witin (\<lambda>w. andThen (assert_ux 16 (WitIn w)) (\<lambda>_. ok w))) xs cs1 = (Inr vs, cs')"
    and ws: "ws = num_witin cs # vs"
    by (auto simp: andThen_success create_witin_success)
  from assert_ux_num_witin [OF 1] have "num_witin cs1 = Suc (num_witin cs)" by simp
  with Cons.IH [OF 2] ws show ?case by (simp add: upt_conv_Cons del: upt_Suc)
qed simp

lemma inner_lt_columns:
  assumes "inner_lt_construct lhs rhs c n cs = (Inr cfg, cs')"
  shows "lt_diff cfg = [num_witin cs..<num_witin cs + n] \<and> max_num_u16_limbs cfg = n \<and>
    num_witin cs' = num_witin cs + n"
  using assms unfolding inner_lt_construct_def Let_def zkvm_assert_def
  by (auto simp: andThen_success dest!: mapM_columns split: if_splits)

lemma is_lt_columns:
  assumes "is_lt_construct lhs rhs n cs = (Inr cfg, cs')"
  shows "is_lt_wit cfg = num_witin cs \<and> lt_diff (is_lt_config cfg) = [num_witin cs + 1..<num_witin cs + 1 + n] \<and>
    max_num_u16_limbs (is_lt_config cfg) = n \<and> num_witin cs' = num_witin cs + 1 + n"
  using assms unfolding is_lt_construct_def
  by (auto simp: andThen_success create_witin_success dest!: inner_lt_columns)

subsection \<open>What comparisons amount to\<close>

definition inner_lt_holds :: "circuit_row \<Rightarrow> InnerLtConfig \<Rightarrow> gl \<Rightarrow> gl \<Rightarrow> gl \<Rightarrow> bool" where
  "inner_lt_holds row cfg x y c \<longleftrightarrow>
     (\<forall>w \<in> set (lt_diff cfg). canon (wit row w) < 2 ^ 16) \<and>
     x - y = of_nat (limbs_value (map (\<lambda>w. canon (wit row w)) (lt_diff cfg))) - c * of_nat (lt_range (max_num_u16_limbs cfg))"

lemma exact_inner_lt:
  assumes "challenge_free rhs" "challenge_free c"
  shows "exact row (inner_lt_construct lhs rhs c n)
    (\<lambda>cfg. inner_lt_holds row cfg (value_of row lhs) (value_of row rhs) (value_of row c))"
proof -
  have check: "exact row (andThen (assert_ux 16 (WitIn w)) (\<lambda>_. ok w)) (\<lambda>_. canon (wit row w) < 2 ^ 16 \<and> True)" for w
    using exact_then [OF exact_assert_ux [of 16 row "WitIn w"] exact_ok] by simp
  have u16: "exact row (andThen create_witin (\<lambda>w. andThen (assert_ux 16 (WitIn w)) (\<lambda>_. ok w)))
    (\<lambda>w. True \<and> canon (wit row (id w)) < 2 ^ 16 \<and> True)"
    by (rule exact_bind [OF exact_create_witin check]) (auto intro!: returns_then returns_ok)
  let ?rhs = "\<lambda>diff. sum_expr (map2 (\<lambda>record beta. beta * WitIn record) diff
      (power_sequence (from_unsigned (2 ^ 16)) (length diff))) - c * from_unsigned (lt_range n)"
  have "exact row (inner_lt_construct lhs rhs c n)
    (\<lambda>cfg. True \<and> (\<forall>w \<in> set (lt_diff cfg). True \<and> canon (wit row (id w)) < 2 ^ 16 \<and> True) \<and>
       value_of row (lhs - rhs) = value_of row (?rhs (lt_diff cfg)) \<and> max_num_u16_limbs cfg = n)"
    unfolding inner_lt_construct_def Let_def
    by (rule exact_then [OF exact_assert],
        rule exact_bind [where g = lt_diff, OF exact_mapM [OF u16]],
        rule exact_then [OF exact_require_equal])
      (use assms in \<open>auto simp: exact_def intro!: returns_then returns_ok\<close>)
  moreover have "value_of row (?rhs diff) = of_nat (limbs_value (map (\<lambda>w. canon (wit row w)) diff)) -
      value_of row c * of_nat (lt_range n)" for diff
    using assms by (simp only: eval_minus challenge_free_times challenge_free_from value_power_sum eval_times eval_from_unsigned)
  moreover have "returns (inner_lt_construct lhs rhs c n) (\<lambda>cfg. max_num_u16_limbs cfg = n)"
    unfolding inner_lt_construct_def Let_def by (intro returns_then returns_ok) simp
  ultimately show ?thesis
    unfolding exact_def returns_def inner_lt_holds_def using assms(1) by fastforce
qed

subsection \<open>What comparisons assign\<close>

lemma set_val_success: "set_val w v s = (Inr u, s') \<longleftrightarrow>
   w < length (instance_row s) \<and> s' = s\<lparr>instance_row := (instance_row s)[w := v]\<rparr>"
  by (auto simp: set_val_def)

lemma lkm_increment_instance: "lkm_increment table key s = (Inr u, s') \<Longrightarrow> instance_row s' = instance_row s"
  by (auto simp: lkm_increment_def)

lemma lkm_assert_ux_instance: "lkm_assert_ux c v s = (Inr u, s') \<Longrightarrow> instance_row s' = instance_row s"
  by (auto simp: lkm_assert_ux_def lkm_increment_instance split: if_splits)

lemma forM_assign:
  assumes "forM (\<lambda>(i, w). andThen (m i) (\<lambda>_. set_val w (g i))) (enumerate k ws) s = (Inr u, s')"
    and "\<And>i s s' u. m i s = (Inr u, s') \<Longrightarrow> instance_row s' = instance_row s" and "distinct ws"
  shows "length (instance_row s') = length (instance_row s) \<and>
    (\<forall>w. w \<notin> set ws \<longrightarrow> instance_row s' ! w = instance_row s ! w) \<and>
    (\<forall>j < length ws. instance_row s' ! (ws ! j) = g (k + j))"
  using assms(1,3)
proof (induction ws arbitrary: k s)
  case (Cons w ws)
  from Cons.prems(1) obtain v s1 s2 where 1: "m k s = (Inr v, s1)"
    and 2: "w < length (instance_row s1)" "s2 = s1\<lparr>instance_row := (instance_row s1)[w := g k]\<rparr>"
    and 3: "forM (\<lambda>(i, w). andThen (m i) (\<lambda>_. set_val w (g i))) (enumerate (Suc k) ws) s2 = (Inr u, s')"
    by (auto simp: andThen_success set_val_success)
  from assms(2) [OF 1] 2 have s2: "length (instance_row s2) = length (instance_row s)"
    "instance_row s2 ! w = g k" "v \<noteq> w \<Longrightarrow> instance_row s2 ! v = instance_row s ! v" for v
    by simp_all
  from Cons.IH [OF 3] Cons.prems(2) have IH: "length (instance_row s') = length (instance_row s2)"
    "\<And>v. v \<notin> set ws \<Longrightarrow> instance_row s' ! v = instance_row s2 ! v"
    "\<And>j. j < length ws \<Longrightarrow> instance_row s' ! (ws ! j) = g (Suc k + j)" by auto
  show ?case
  proof (intro conjI allI impI)
    fix j
    assume "j < length (w # ws)"
    then show "instance_row s' ! ((w # ws) ! j) = g (k + j)"
      using IH(2) [of w] IH(3) [of "j - 1"] Cons.prems(2) s2(2) by (cases j) auto
  qed (use IH s2 in auto)
qed simp

lemma limb_of_word: "unat (drop_bit k d AND 0xffff) = unat (d :: u64) div 2 ^ k mod 2 ^ 16"
proof -
  have "drop_bit k d AND 0xffff = take_bit 16 (drop_bit k d)"
    by (simp add: take_bit_eq_mask mask_eq_exp_minus_1)
  then have "unat (drop_bit k d AND 0xffff) = take_bit 16 (drop_bit k (unat d))"
    by (simp only: unsigned_take_bit_eq unat_drop_bit_eq)
  then show ?thesis by (simp only: take_bit_eq_mod drop_bit_eq_div)
qed

lemma limbs_of_word:
  assumes "unat d < 2 ^ (16 * n)"
  shows "limbs_value (map (\<lambda>i. unat (drop_bit (16 * i) d AND 0xffff)) [0..<n]) = unat (d :: u64)"
proof -
  have "limbs_value (map (\<lambda>i. x div 2 ^ (16 * i) mod 2 ^ 16) [0..<n]) = x mod 2 ^ (16 * n)" for x
  proof (induction n arbitrary: x)
    case (Suc n)
    have "[0..<Suc n] = 0 # map Suc [0..<n]" by (simp add: upt_conv_Cons map_Suc_upt del: upt_Suc)
    then have "limbs_value (map (\<lambda>i. x div 2 ^ (16 * i) mod 2 ^ 16) [0..<Suc n]) =
      x mod 2 ^ 16 + 2 ^ 16 * limbs_value (map (\<lambda>i. x div 2 ^ 16 div 2 ^ (16 * i) mod 2 ^ 16) [0..<n])"
      by (simp add: comp_def power_add div_mult2_eq)
    also have "\<dots> = x mod 2 ^ 16 + 2 ^ 16 * (x div 2 ^ 16 mod 2 ^ (16 * n))" by (simp only: Suc)
    also have "\<dots> = x mod 2 ^ (16 * Suc n)"
      using mod_mult2_eq [of x "2 ^ 16" "2 ^ (16 * n)"] by (simp add: power_add)
    finally show ?case .
  qed simp
  from this [of "unat d"] assms show ?thesis by (simp only: limb_of_word) simp
qed

abbreviation row_of :: "circuit_row \<Rightarrow> assignment \<Rightarrow> circuit_row" where
  "row_of row s \<equiv> row\<lparr>row_env := (row_env row)\<lparr>witness_value := (!) (instance_row s)\<rparr>\<rparr>"

lemma inner_lt_assign_holds:
  assumes run: "inner_lt_assign_field cfg x y is_lt s = (Inr u, s')"
    and "distinct (lt_diff cfg)" and n: "length (lt_diff cfg) = max_num_u16_limbs cfg" "max_num_u16_limbs cfg \<le> 3"
    and small: "canon (x - y + of_bool is_lt * of_nat (lt_range (max_num_u16_limbs cfg))) < 2 ^ (16 * max_num_u16_limbs cfg)"
  shows "inner_lt_holds (row_of row s') cfg x y (of_bool is_lt) \<and>
    (\<forall>w. w \<notin> set (lt_diff cfg) \<longrightarrow> instance_row s' ! w = instance_row s ! w)"
proof -
  let ?n = "max_num_u16_limbs cfg"
  let ?k = "canon (x - y + of_bool is_lt * of_nat (lt_range ?n))"
  let ?d = "of_nat ?k :: u64"
  have "(2 :: nat) ^ (16 * ?n) \<le> 2 ^ 48" using n(2) by (intro power_increasing) auto
  with small have "?k < 2 ^ 48" by linarith
  then have d: "unat ?d = ?k" by (simp add: unat_of_nat take_bit_nat_eq_self)
  have offset: "(if is_lt then of_nat (lt_range ?n) else 0) = (of_bool is_lt * of_nat (lt_range ?n) :: gl)"
    by simp
  have "forM (\<lambda>(i, w). andThen (lkm_assert_ux 16 (drop_bit (i * 16) ?d AND 0xffff))
      (\<lambda>_. set_val w (of_nat (unat (drop_bit (i * 16) ?d AND 0xffff))))) (enumerate 0 (lt_diff cfg)) s = (Inr u, s')"
    using run unfolding inner_lt_assign_field_def Let_def offset .
  from forM_assign [OF this lkm_assert_ux_instance assms(2)]
  have others: "\<forall>w. w \<notin> set (lt_diff cfg) \<longrightarrow> instance_row s' ! w = instance_row s ! w"
    and limb: "\<And>j. j < length (lt_diff cfg) \<Longrightarrow>
      instance_row s' ! (lt_diff cfg ! j) = of_nat (unat (drop_bit (16 * j) ?d AND 0xffff))"
    by (auto simp: mult.commute)
  have lt16: "unat (drop_bit k ?d AND 0xffff) < 2 ^ 16" for k
    by (simp only: limb_of_word) simp
  have "map (\<lambda>w. canon (wit (row_of row s') w)) (lt_diff cfg) =
      map (\<lambda>i. unat (drop_bit (16 * i) ?d AND 0xffff)) [0..<?n]"
  proof (rule nth_equalityI)
    fix i
    assume "i < length (map (\<lambda>w. canon (wit (row_of row s') w)) (lt_diff cfg))"
    then show "map (\<lambda>w. canon (wit (row_of row s') w)) (lt_diff cfg) ! i =
        map (\<lambda>i. unat (drop_bit (16 * i) ?d AND 0xffff)) [0..<?n] ! i"
      using limb [of i] n(1) lt16 [of "16 * i"] canon_of_nat_small [of "unat (drop_bit (16 * i) ?d AND 0xffff)"] by simp
  qed (simp add: n)
  then have total: "limbs_value (map (\<lambda>w. canon (wit (row_of row s') w)) (lt_diff cfg)) = ?k"
    and small: "\<forall>z \<in> set (map (\<lambda>w. canon (wit (row_of row s') w)) (lt_diff cfg)). z < 2 ^ 16"
    using limbs_of_word [of ?d ?n] small d lt16 by auto
  then show ?thesis using others unfolding inner_lt_holds_def total by simp
qed

lemma exact_is_lt:
  assumes "challenge_free rhs"
  shows "exact row (is_lt_construct lhs rhs n)
    (\<lambda>cfg. wit row (is_lt_wit cfg) \<in> {0, 1} \<and>
       inner_lt_holds row (is_lt_config cfg) (value_of row lhs) (value_of row rhs) (wit row (is_lt_wit cfg)))"
proof -
  have inner: "exact row (andThen (inner_lt_construct lhs rhs (WitIn w) n) (\<lambda>config. ok \<lparr>is_lt_wit = w, is_lt_config = config\<rparr>))
    (\<lambda>cfg. inner_lt_holds row (is_lt_config cfg) (value_of row lhs) (value_of row rhs) (value_of row (WitIn w)) \<and> True)" for w
    by (rule exact_bind [where g = is_lt_config, OF exact_inner_lt exact_ok])
      (use assms in \<open>auto intro: returns_ok\<close>)
  have "exact row (is_lt_construct lhs rhs n)
    (\<lambda>cfg. True \<and> value_of row (WitIn (is_lt_wit cfg)) \<in> {0, 1} \<and>
       inner_lt_holds row (is_lt_config cfg) (value_of row lhs) (value_of row rhs)
         (value_of row (WitIn (is_lt_wit cfg))) \<and> True)"
    unfolding is_lt_construct_def
    by (rule exact_bind [where g = is_lt_wit, OF exact_create_witin exact_then [OF exact_assert_bit inner]])
      (auto intro!: returns_then returns_ok)
  then show ?thesis by (rule exact_conseq) simp
qed

lemma exact_is_zero:
  assumes "challenge_free x"
  shows "exact row (is_zero_construct x False)
    (\<lambda>cfg. \<exists>w. is_zero_wit cfg = Some w \<and> wit row w * value_of row x = 0 \<and>
       wit row w + value_of row x * wit row (inverse_wit cfg) = 1)"
  unfolding exact_def
proof (intro allI impI)
  fix cs cfg cs'
  assume "is_zero_construct x False cs = (Inr cfg, cs')"
  then obtain u1 s1 u2 where
    1: "require_zero (WitIn (num_witin cs) * x) (cs\<lparr>num_witin := num_witin cs + 1\<rparr>) = (Inr u1, s1)"
    and 2: "require_one (WitIn (num_witin cs) + x * WitIn (num_witin s1)) (s1\<lparr>num_witin := num_witin s1 + 1\<rparr>) = (Inr u2, cs')"
    and cfg: "cfg = \<lparr>is_zero_wit = Some (num_witin cs), inverse_wit = num_witin s1\<rparr>"
    unfolding is_zero_construct_def by (auto simp: andThen_success create_witin_success)
  from exactD [OF exact_require_zero 1, of row]
  have "satisfied row s1 \<longleftrightarrow> satisfied row cs \<and> wit row (num_witin cs) * value_of row x = 0" by simp
  moreover from exactD [OF exact_require_one 2, of row] assms
  have "satisfied row cs' \<longleftrightarrow> satisfied row s1 \<and>
      wit row (num_witin cs) + value_of row x * wit row (num_witin s1) = 1" by simp
  ultimately show "satisfied row cs' \<longleftrightarrow> satisfied row cs \<and> (\<exists>w. is_zero_wit cfg = Some w \<and>
      wit row w * value_of row x = 0 \<and> wit row w + value_of row x * wit row (inverse_wit cfg) = 1)"
    by (simp add: cfg)
qed

end
