(* ===== verification/Honest.thy ===== *)
theory Honest
  imports Complete
begin

text \<open>
  Runs of the builder on rows that satisfy the constraints it adds. \<open>completes row n m x k\<close>: started
  with \<open>n\<close> columns and a satisfied system, \<open>m\<close> neither fails nor panics, returns \<open>x\<close>, and leaves a
  system of \<open>k\<close> columns that the row satisfies.
\<close>

named_theorems honest \<open>rows that satisfy what a builder method adds\<close>

definition completes :: "circuit_row \<Rightarrow> nat \<Rightarrow> 'a build \<Rightarrow> 'a \<Rightarrow> nat \<Rightarrow> bool" where
  "completes row n m x k \<longleftrightarrow>
     (\<forall>cs. num_witin cs = n \<longrightarrow> satisfied row cs \<longrightarrow>
        (\<exists>cs'. m cs = (Inr x, cs') \<and> satisfied row cs' \<and> num_witin cs' = k))"

lemma completes_then:
  "completes row n m x k \<Longrightarrow> completes row k (f x) y l \<Longrightarrow> completes row n (andThen m f) y l"
  unfolding completes_def by (fastforce simp: andThen_success)

lemma completesE:
  assumes "completes row n m x k" and "num_witin cs = n" and "satisfied row cs"
  obtains cs' where "m cs = (Inr x, cs')" and "satisfied row cs'" and "num_witin cs' = k"
  using assms unfolding completes_def by blast

lemma completes_ok [honest]: "completes row n (ok x) x n"
  by (simp add: completes_def)

lemma completes_assert [honest]: "b \<Longrightarrow> completes row n (zkvm_assert b msg) () n"
  by (simp add: zkvm_assert_def completes_ok)

lemma completes_create_witin [honest]: "n + 1 < 2 ^ 16 \<Longrightarrow> completes row n create_witin n (n + 1)"
  by (simp add: completes_def create_witin_def)

lemma degree_power_sequence: "degree b = 0 \<Longrightarrow> \<forall>e \<in> set (power_sequence b n). degree e = 0"
  by (induction n) auto

lemma degree_record_sum:
  assumes "degree b = 0"
  shows "map degree (map2 (*) items (power_sequence b (length items))) = map degree items"
proof (rule nth_equalityI)
  have len: "length (power_sequence b n) = n" for n by (induction n) auto
  show "length (map degree (map2 (*) items (power_sequence b (length items)))) = length (map degree items)"
    by (simp add: len)
  fix i
  assume "i < length (map degree (map2 (*) items (power_sequence b (length items))))"
  then show "map degree (map2 (*) items (power_sequence b (length items))) ! i = map degree items ! i"
    using degree_power_sequence [OF assms, of "length items"] by (auto simp: len)
qed

definition rlc_expr :: "expr list \<Rightarrow> expr" where
  "rlc_expr items = sum_expr (map2 (*) items (power_sequence chip_record_beta (length items))) + chip_record_alpha"

lemma degree_rlc: "degree (rlc_expr items) = fold max (map degree items) 0"
  by (simp add: rlc_expr_def degree_record_sum chip_record_alpha_def chip_record_beta_def del: map_map)

lemma completes_rlc_chip_record: "items \<noteq> [] \<Longrightarrow> completes row n (rlc_chip_record items) (rlc_expr items) n"
  unfolding rlc_chip_record_def rlc_expr_def by (rule completes_then [OF completes_assert completes_ok])

lemma completes_lk_record [honest]:
  assumes "fold max (map degree items) 0 = 1" and "looked_up row table items"
  shows "completes row n (lk_record table items) () n"
  unfolding lk_record_def
  by (rule completes_then [OF completes_rlc_chip_record completes_then [OF completes_assert]])
    (use assms in \<open>auto simp: completes_def satisfied_def degree_rlc\<close>)

lemma completes_read_record [honest]:
  assumes "items \<noteq> []" and "fold max (map degree items) 0 = 1"
  shows "completes row n (read_record mem items) () n"
  unfolding read_record_def
  by (rule completes_then [OF completes_rlc_chip_record completes_then [OF completes_assert]])
    (use assms in \<open>auto simp: completes_def satisfied_def degree_rlc\<close>)

lemma completes_write_record [honest]:
  assumes "items \<noteq> []" and "fold max (map degree items) 0 = 1"
  shows "completes row n (write_record mem items) () n"
  unfolding write_record_def
  by (rule completes_then [OF completes_rlc_chip_record completes_then [OF completes_assert]])
    (use assms in \<open>auto simp: completes_def satisfied_def degree_rlc\<close>)

lemma completes_require_zero [honest]:
  assumes "0 < degree e" and "committed_only e" and "value_of row e = 0"
  shows "completes row n (require_zero e) () n"
  unfolding require_zero_def Let_def
  by (rule completes_then [OF completes_assert [OF assms(1)]])
    (use assms monomial_form_reached [OF assms(2)] in
      \<open>auto simp: completes_def satisfied_def zkvm_assert_def prog_simps eval_get_monomial_form\<close>)

lemma committed_only_monomial [simp]:
  assumes "committed_only e"
  shows "committed_only (get_monomial_form e)"
proof -
  have column: "is_column p \<Longrightarrow> committed_only p" for p :: "'a expression" by (cases p) simp_all
  have "\<forall>p \<in> set ps. is_column p \<Longrightarrow> committed_only (product_expr ps :: 'a expression)" for ps
  proof -
    have "\<forall>p \<in> set ps. is_column p \<Longrightarrow> committed_only a \<Longrightarrow> committed_only (foldl (*) a ps :: 'a expression)" for a
      by (induction ps arbitrary: a) (simp_all add: column)
    then show "\<forall>p \<in> set ps. is_column p \<Longrightarrow> committed_only (product_expr ps :: 'a expression)"
      by (simp add: product_expr_def)
  qed
  moreover have "\<forall>t \<in> set (get_monomial_terms e). constant_term t"
    using constant_term_combine [OF constant_term_distribute [OF assms]] by (auto simp: get_monomial_terms_def)
  ultimately show ?thesis
    by (fastforce simp: get_monomial_form_def sum_terms_def constant_term_def intro!: committed_only_sum committed_only_times)
qed

lemma completes_require_equal [honest]:
  assumes "0 < degree (get_monomial_form a) \<or> 0 < degree (get_monomial_form b)"
    and "committed_only a" "committed_only b" and "value_of row a = value_of row b"
  shows "completes row n (require_equal a b) () n"
  unfolding require_equal_def
  by (rule completes_require_zero)
    (use assms in \<open>auto simp: eval_get_monomial_form committed_only_challenge_free\<close>)

lemma completes_require_one [honest]:
  assumes "0 < degree e" and "committed_only e" and "value_of row e = 1"
  shows "completes row n (require_one e) () n"
  unfolding require_one_def
  by (rule completes_require_zero) (use assms in \<open>auto simp: committed_only_challenge_free\<close>)

lemma completes_assert_bit [honest]:
  assumes "0 < degree e" and "committed_only e" and "value_of row e \<in> {0, 1}"
  shows "completes row n (assert_bit e) () n"
  unfolding assert_bit_def
  by (rule completes_require_zero) (use assms in \<open>auto simp: committed_only_challenge_free\<close>)

lemma completes_assert_ux [honest]:
  assumes "c \<in> {5, 8, 14, 16}" and "degree e = 1" and "canon (value_of row e) < 2 ^ c"
  shows "completes row n (assert_ux c e) () n"
  unfolding assert_ux_def using assms
  by (auto intro!: completes_lk_record below_canon simp: looked_up_def range_rows)

lemma completes_mapM [honest]:
  assumes "\<And>i. i < length xs \<Longrightarrow> completes row (n + k * i) (f (xs ! i)) (ys ! i) (n + k * (i + 1))"
    and "length ys = length xs" and "l = n + k * length xs"
  shows "completes row n (mapM f xs) ys l"
  using assms
proof (induction xs arbitrary: n ys)
  case Nil
  then show ?case by (simp add: completes_ok)
next
  case (Cons x xs)
  then obtain z zs where ys: "ys = z # zs" by (cases ys) auto
  have "completes row n (f x) z (n + k)" using Cons.prems(1) [of 0] by (simp add: ys)
  moreover have "completes row (n + k) (mapM f xs) zs l"
  proof (rule Cons.IH)
    fix i
    assume "i < length xs"
    then show "completes row (n + k + k * i) (f (xs ! i)) (zs ! i) (n + k + k * (i + 1))"
      using Cons.prems(1) [of "Suc i"] by (simp add: ys algebra_simps)
  qed (use Cons.prems ys in auto)
  ultimately show ?case unfolding mapM.simps ys
    by (rule completes_then [OF _ completes_then [OF _ completes_ok]])
qed

text \<open>The comparison and zero-test gadgets.\<close>

lemma completes_limb [honest]:
  assumes "n + 1 < 2 ^ 16" and "canon (wit row n) < 2 ^ 16"
  shows "completes row n (andThen create_witin (\<lambda>w. andThen (assert_ux 16 (WitIn w)) (\<lambda>_. ok w))) n (n + 1)"
  by (rule completes_then [OF completes_create_witin [OF assms(1)]],
      rule completes_then [OF completes_assert_ux]) (use assms(2) in \<open>simp_all add: completes_ok\<close>)

lemma completes_inner_lt [honest]:
  assumes "1 \<le> k" and "n + k < 2 ^ 16" and "\<forall>i < k. canon (wit row (n + i)) < 2 ^ 16"
    and "committed_only lhs" "committed_only rhs" "committed_only c"
    and "0 < degree (get_monomial_form (lhs - rhs))"
    and "value_of row lhs - value_of row rhs =
      of_nat (limbs_value (map (\<lambda>w. canon (wit row w)) [n..<n + k])) - value_of row c * of_nat (lt_range k)"
  shows "completes row n (inner_lt_construct lhs rhs c k) \<lparr>lt_diff = [n..<n + k], max_num_u16_limbs = k\<rparr> (n + k)"
proof -
  let ?diff = "[n..<n + k]"
  let ?sum = "sum_expr (map2 (\<lambda>record beta. beta * WitIn record) ?diff (power_sequence (from_unsigned (2 ^ 16)) (length ?diff)))"
  have limbs: "completes row n (mapM (\<lambda>_. andThen create_witin (\<lambda>w. andThen (assert_ux 16 (WitIn w)) (\<lambda>_. ok w))) [0..<k])
      ?diff (n + k)"
  proof (rule completes_mapM [where k = 1])
    fix i
    assume "i < length [0..<k]"
    then show "completes row (n + 1 * i) (andThen create_witin (\<lambda>w. andThen (assert_ux 16 (WitIn w)) (\<lambda>_. ok w)))
        (?diff ! i) (n + 1 * (i + 1))"
      using completes_limb [of "n + i"] assms(2,3) by simp
  qed simp_all
  have "\<forall>e \<in> set (power_sequence (from_unsigned 65536) j). committed_only e" for j
    by (induction j) auto
  then have "committed_only ?sum" by (auto intro!: committed_only_sum committed_only_times dest!: set_zip_rightD)
  then have "completes row (n + k) (require_equal (lhs - rhs) (?sum - c * from_unsigned (lt_range k))) () (n + k)"
    using assms by (intro completes_require_equal)
      (simp_all only: eval_minus committed_only_challenge_free committed_only_minus committed_only_times
        committed_only_from challenge_free_times value_power_sum eval_times eval_from_unsigned simp_thms)
  then have "completes row (n + k) (andThen (require_equal (lhs - rhs) (?sum - c * from_unsigned (lt_range k)))
      (\<lambda>_. ok \<lparr>lt_diff = ?diff, max_num_u16_limbs = k\<rparr>)) \<lparr>lt_diff = ?diff, max_num_u16_limbs = k\<rparr> (n + k)"
    by (rule completes_then [OF _ completes_ok])
  from completes_then [OF limbs, of "\<lambda>diff. andThen (require_equal (lhs - rhs)
      (sum_expr (map2 (\<lambda>record beta. beta * WitIn record) diff (power_sequence (from_unsigned (2 ^ 16)) (length diff))) -
        c * from_unsigned (lt_range k))) (\<lambda>_. ok \<lparr>lt_diff = diff, max_num_u16_limbs = k\<rparr>)", OF this]
  show ?thesis unfolding inner_lt_construct_def Let_def
    by (rule completes_then [OF completes_assert [OF assms(1)]])
qed

end
