(* ===== verification/GadgetTheorems.thy ===== *)
theory GadgetTheorems
  imports Honest
begin

text \<open>The properties of the comparison, zero-test and sign gadgets.\<close>

text \<open>The row and the system the witnesses use: operands 3 and 5 in the first two columns.\<close>

definition sample_row :: "gl list \<Rightarrow> circuit_row" where
  "sample_row wits = \<lparr>row_env = env_of_lists [] wits [] [] [], row_program = []\<rparr>"

abbreviation columns :: "nat \<Rightarrow> ConstraintSystem" where
  "columns n \<equiv> new_ConstraintSystem\<lparr>num_witin := n\<rparr>"

lemma wit_sample [simp]: "wit (sample_row wits) i = wits ! i"
  by (simp add: sample_row_def env_of_lists_def)

lemma satisfied_columns [simp]: "satisfied row new_ConstraintSystem"
  by (simp add: satisfied_def new_ConstraintSystem_def)

lemmas monomial_eval = plus_expression_simps minus_expression_simps times_expression_simps atom_defs
  get_monomial_form_def get_monomial_terms_def sum_terms_def combine_def into_group_map_def multiply_terms_def
  nonzero_term_def product_expr_def sum_expr_def zero_expression_def one_expression_def

lemma degree_difference: "degree (get_monomial_form (WitIn 0 - WitIn 1 :: expr)) = 1"
  by (simp add: monomial_eval)

lemma is_lt_sample:
  "completes (sample_row [3, 5, 1, 65534]) 2 (is_lt_construct (WitIn 0) (WitIn 1) 1)
     \<lparr>is_lt_wit = 2, is_lt_config = \<lparr>lt_diff = [3], max_num_u16_limbs = 1\<rparr>\<rparr> 4"
proof -
  let ?row = "sample_row [3, 5, 1, 65534]"
  have canon: "canon 65534 = 65534" using canon_of_nat_small [of 65534] by simp
  have eq: "(3 :: gl) - 5 = 65534 - 65536" by simp
  have "completes ?row 3 (inner_lt_construct (WitIn 0) (WitIn 1) (WitIn 2) 1)
      \<lparr>lt_diff = [3], max_num_u16_limbs = 1\<rparr> 4"
    using completes_inner_lt [of 1 3 ?row "WitIn 0" "WitIn 1" "WitIn 2"] degree_difference eq
    by (simp add: canon lt_range_def upt_rec)
  then have "completes ?row 3 (andThen (inner_lt_construct (WitIn 0) (WitIn 1) (WitIn 2) 1)
      (\<lambda>config. ok \<lparr>is_lt_wit = 2, is_lt_config = config\<rparr>))
      \<lparr>is_lt_wit = 2, is_lt_config = \<lparr>lt_diff = [3], max_num_u16_limbs = 1\<rparr>\<rparr> 4"
    by (rule completes_then [OF _ completes_ok])
  then show ?thesis unfolding is_lt_construct_def
    by (intro completes_then [OF completes_create_witin, of 2, simplified]
        completes_then [OF completes_assert_bit]) simp_all
qed

text \<open>
  C25. The column \<open>is_lt\<close> of the comparison gadget decides \<open>lhs < rhs\<close>: in every satisfying row it is 1
  when the left value, read as an integer, is smaller, and 0 otherwise. The values may be anywhere in
  the field, only their distance has to be below \<open>2^62\<close>, and at most three limbs may be used.
\<close>

theorem is_lt_decides:
  assumes "is_lt_construct lhs rhs n cs = (Inr cfg, cs')" and "satisfied row cs'"
    and "challenge_free rhs" and "n \<le> 3"
    and "value_of row lhs = of_int a" and "value_of row rhs = of_int b" and "\<bar>a - b\<bar> < 2 ^ 62"
  shows "wit row (is_lt_wit cfg) = of_bool (a < b)"
proof -
  from enforces_imp [OF is_lt_builds [OF assms(3)] assms(1,2)] obtain c where
    "wit row (is_lt_wit cfg) = of_bool c" and "lt_decision n (of_int a) (of_int b) (of_bool c)"
    unfolding assms(5,6) by blast
  with lt_decision_iff [of n a b c] assms(4,7) show ?thesis by simp
qed

theorem is_lt_decides_witness:
  "\<exists>cfg cs'. is_lt_construct (WitIn 0) (WitIn 1) 1 (columns 2) = (Inr cfg, cs') \<and>
     wit (sample_row [3, 5, 1, 65534]) (is_lt_wit cfg) = 1"
proof -
  obtain cs' where run: "is_lt_construct (WitIn 0) (WitIn 1) 1 (columns 2) =
      (Inr \<lparr>is_lt_wit = 2, is_lt_config = \<lparr>lt_diff = [3], max_num_u16_limbs = 1\<rparr>\<rparr>, cs')"
    and "satisfied (sample_row [3, 5, 1, 65534]) cs'"
    by (rule completesE [OF is_lt_sample, of "columns 2"]) simp_all
  from is_lt_decides [OF this, of 3 5] run show ?thesis by auto
qed

text \<open>
  C26. The values the comparison gadget assigns satisfy its constraints, for all operands of at most
  \<open>16 * n\<close> bits, with \<open>n\<close> limbs.
\<close>

theorem is_lt_assign_satisfies:
  assumes construct: "is_lt_construct lhs rhs n cs = (Inr cfg, cs')" and assign: "is_lt_assign cfg a b s = (Inr u, s')"
    and "challenge_free rhs" and n: "n \<le> 3"
    and lhs: "value_of (row_of row s') lhs = of_nat (unat a)" and rhs: "value_of (row_of row s') rhs = of_nat (unat b)"
    and a: "unat a < 2 ^ (16 * n)" and b: "unat b < 2 ^ (16 * n)" and "satisfied (row_of row s') cs"
  shows "satisfied (row_of row s') cs'"
proof -
  from is_lt_columns [OF construct] have cols: "is_lt_wit cfg \<notin> set (lt_diff (is_lt_config cfg))"
    "distinct (lt_diff (is_lt_config cfg))" "length (lt_diff (is_lt_config cfg)) = n" "max_num_u16_limbs (is_lt_config cfg) = n"
    by auto
  from assign obtain s1 where bit: "is_lt_wit cfg < length (instance_row s)"
    "s1 = s\<lparr>instance_row := (instance_row s)[is_lt_wit cfg := of_bool (a < b)]\<rparr>"
    and inner: "inner_lt_assign_field (is_lt_config cfg) (of_nat (unat a)) (of_nat (unat b)) (a < b) s1 = (Inr u, s')"
    unfolding is_lt_assign_def inner_lt_assign_u64_def by (auto simp: andThen_success set_val_success)
  have "(2 :: nat) ^ (16 * n) \<le> 2 ^ 48" using n by (intro power_increasing) auto
  then have "canon (of_nat (unat a + of_bool (a < b) * 2 ^ (16 * n) - unat b)) < 2 ^ (16 * n)"
    using a b canon_of_nat_small [of "unat a + of_bool (a < b) * 2 ^ (16 * n) - unat b"]
    by (cases "a < b") (auto simp: word_less_nat_alt simp del: of_nat_add of_nat_diff)
  moreover have "(of_nat (unat a) - of_nat (unat b) + of_bool (a < b) * of_nat (lt_range n) :: gl) =
      of_nat (unat a + of_bool (a < b) * 2 ^ (16 * n) - unat b)"
    using n b by (auto simp: lt_range_def word_less_nat_alt of_nat_diff not_less)
  ultimately have "canon (of_nat (unat a) - of_nat (unat b) + of_bool (a < b) * of_nat (lt_range n)) < 2 ^ (16 * n)"
    by (simp only:)
  from inner_lt_assign_holds [OF inner, of row] this cols n
  have "inner_lt_holds (row_of row s') (is_lt_config cfg) (of_nat (unat a)) (of_nat (unat b)) (of_bool (a < b))"
    and "instance_row s' ! is_lt_wit cfg = of_bool (a < b)"
    using bit by auto
  then show ?thesis
    using exact_is_lt [of rhs "row_of row s'" lhs n] construct assms(3,9) lhs rhs unfolding exact_def by auto
qed

theorem is_lt_assign_satisfies_witness:
  "\<exists>cfg cs' s'. is_lt_construct (WitIn 0) (WitIn 1) 1 (columns 2) = (Inr cfg, cs') \<and>
     is_lt_assign cfg 3 5 \<lparr>instance_row = [3, 5, 0, 0], lk_multiplicity = no_lookups\<rparr> = (Inr (), s') \<and>
     satisfied (row_of (sample_row []) s') cs'"
proof -
  let ?cfg = "\<lparr>is_lt_wit = 2, is_lt_config = \<lparr>lt_diff = [3], max_num_u16_limbs = 1\<rparr>\<rparr>"
  obtain cs' where run: "is_lt_construct (WitIn 0) (WitIn 1) 1 (columns 2) = (Inr ?cfg, cs')"
    by (rule completesE [OF is_lt_sample, of "columns 2"]) simp_all
  obtain s' where assign: "is_lt_assign ?cfg 3 5 \<lparr>instance_row = [3, 5, 0, 0], lk_multiplicity = no_lookups\<rparr> = (Inr (), s')"
    and wits: "instance_row s' ! 0 = 3" "instance_row s' ! 1 = 5"
    by (simp add: is_lt_assign_def inner_lt_assign_u64_def inner_lt_assign_field_def Let_def set_val_def
        lkm_assert_ux_def lkm_increment_def andThen_def modify_def ok_def)
  have "satisfied (row_of (sample_row []) s') cs'"
    by (rule is_lt_assign_satisfies [OF run assign]) (use wits in simp_all)
  with run assign show ?thesis by blast
qed

text \<open>
  C27. The zero test is sound and complete: its expression is 1 exactly on the value zero in every
  satisfying row, and the values it assigns satisfy its constraints.
\<close>

theorem is_zero_decides:
  assumes construct: "is_zero_construct x False cs = (Inr cfg, cs')" and "challenge_free x"
  shows "(satisfied row cs' \<longrightarrow> value_of row (is_zero_expr_of cfg) = of_bool (value_of row x = 0)) \<and>
    (is_zero_assign cfg v s = (Inr u, s') \<longrightarrow> value_of (row_of row s') x = v \<longrightarrow>
      satisfied (row_of row s') cs \<longrightarrow> satisfied (row_of row s') cs')"
proof (intro conjI impI)
  assume "satisfied row cs'"
  with enforces_imp [OF is_zero_builds [OF assms(2)] construct]
  show "value_of row (is_zero_expr_of cfg) = of_bool (value_of row x = 0)" by blast
next
  assume assign: "is_zero_assign cfg v s = (Inr u, s')" and x: "value_of (row_of row s') x = v"
    and sat: "satisfied (row_of row s') cs"
  from construct have cols: "is_zero_wit cfg = Some (num_witin cs)" "inverse_wit cfg = num_witin cs + 1"
    unfolding is_zero_construct_def require_one_def
    by (auto simp: andThen_success create_witin_success)
  from assign cols have "instance_row s' ! num_witin cs = of_bool (v = 0)"
    "instance_row s' ! (num_witin cs + 1) = (if v = 0 then 0 else inverse v)"
    unfolding is_zero_assign_def by (auto simp: andThen_success set_val_success split: if_splits)
  then show "satisfied (row_of row s') cs'"
    using exact_is_zero [OF assms(2), of "row_of row s'"] construct sat x cols unfolding exact_def by auto
qed


lemma is_zero_sample:
  "completes (sample_row [7, 0, inverse 7]) 1 (is_zero_construct (WitIn 0) False)
     \<lparr>is_zero_wit = Some 1, inverse_wit = 2\<rparr> 3"
  unfolding is_zero_construct_def if_False
  by (rule completes_then [where k = 2 and x = "(Some 1, WitIn 1)"],
      rule completes_then [OF completes_create_witin], simp,
      rule completes_then [OF completes_require_zero], (simp_all add: completes_ok numeral_2_eq_2)[4],
      unfold prod.case, rule completes_then [OF completes_create_witin], simp,
      rule completes_then [OF completes_require_one])
    (simp_all add: completes_ok numeral_gl_eq_0_iff gl_modulus_def)

theorem is_zero_decides_witness:
  "\<exists>cfg cs'. is_zero_construct (WitIn 0) False (columns 1) = (Inr cfg, cs') \<and>
     value_of (sample_row [7, 0, inverse 7]) (is_zero_expr_of cfg) = 0"
proof -
  let ?cfg = "\<lparr>is_zero_wit = Some 1, inverse_wit = 2\<rparr>"
  obtain cs' where run: "is_zero_construct (WitIn 0) False (columns 1) = (Inr ?cfg, cs')"
    and "satisfied (sample_row [7, 0, inverse 7]) cs'"
    by (rule completesE [OF is_zero_sample, of "columns 1"]) simp_all
  with is_zero_decides [OF run, of "sample_row [7, 0, inverse 7]"] show ?thesis
    by (auto simp: numeral_gl_eq_0_iff gl_modulus_def)
qed

end
