(* ===== verification/UInt.thy ===== *)
theory UInt
  imports Honest
begin

text \<open>
  Integers in limbs (\<open>ceno_zkvm/src/uint.rs\<close>, \<open>uint/\<close>): a value of \<open>m\<close> bits in limbs of \<open>c\<close> bits, least
  significant first, as columns or as expressions over columns. \<open>m\<close> and \<open>c\<close> are the const generics
  \<open>M\<close> and \<open>C\<close>. The second half is what the arithmetic on them enforces.
\<close>

subsection \<open>Limbs\<close>

datatype UintLimb = LimbWits "nat list" | LimbExprs "expr list"

record UIntLimbs =
  u_limbs :: UintLimb
  u_carries :: "nat list option"
  u_carries_lt :: "AssertLtConfig list option"

definition num_limbs :: "nat \<Rightarrow> nat \<Rightarrow> nat" where
  "num_limbs m c = (m + c - 1) div c"

definition plain_uint :: "UintLimb \<Rightarrow> UIntLimbs" where
  "plain_uint l = \<lparr>u_limbs = l, u_carries = None, u_carries_lt = None\<rparr>"

text \<open>\<open>expr()\<close>, and \<open>limbs.iter()\<close>, which is only implemented for columns.\<close>

definition uexprs :: "UIntLimbs \<Rightarrow> expr list" where
  "uexprs u = (case u_limbs u of LimbWits ws \<Rightarrow> map WitIn ws | LimbExprs es \<Rightarrow> es)"

definition limb_wits :: "UIntLimbs \<Rightarrow> ('s, zkvm_error, nat list) prog" where
  "limb_wits u = (case u_limbs u of LimbWits ws \<Rightarrow> ok ws | LimbExprs _ \<Rightarrow> fail (ZkvmPanic ''unimplemented''))"

definition is_expr :: "UIntLimbs \<Rightarrow> bool" where
  "is_expr u = (case u_limbs u of LimbExprs _ \<Rightarrow> True | LimbWits _ \<Rightarrow> False)"

definition wits_in :: "UIntLimbs \<Rightarrow> nat list option" where
  "wits_in u = (case u_limbs u of LimbWits ws \<Rightarrow> Some ws | LimbExprs _ \<Rightarrow> None)"

definition uint_new_maybe_unchecked :: "nat \<Rightarrow> nat \<Rightarrow> bool \<Rightarrow> UIntLimbs build" where
  "uint_new_maybe_unchecked m c is_check =
     andThen (mapM (\<lambda>_. andThen create_witin (\<lambda>w.
         andThen (if is_check then assert_ux c (WitIn w) else ok ()) (\<lambda>_. ok w))) [0..<num_limbs m c]) (\<lambda>ws.
     ok (plain_uint (LimbWits ws)))"

definition uint_new :: "nat \<Rightarrow> nat \<Rightarrow> UIntLimbs build" where
  "uint_new m c = uint_new_maybe_unchecked m c True"

definition uint_new_unchecked :: "nat \<Rightarrow> nat \<Rightarrow> UIntLimbs build" where
  "uint_new_unchecked m c = uint_new_maybe_unchecked m c False"

definition from_witins_unchecked ::
  "nat \<Rightarrow> nat \<Rightarrow> nat list \<Rightarrow> nat list option \<Rightarrow> AssertLtConfig list option \<Rightarrow> ('s, zkvm_error, UIntLimbs) prog" where
  "from_witins_unchecked m c ws cs lts =
     andThen (zkvm_assert (length ws = num_limbs m c) ''limbs.len() == NUM_LIMBS'') (\<lambda>_.
     andThen (case cs of None \<Rightarrow> ok ()
       | Some cs \<Rightarrow> zkvm_assert (length ws = length cs \<or> length ws = length cs + 1) ''invalid witness'') (\<lambda>_.
     ok \<lparr>u_limbs = LimbWits ws, u_carries = cs, u_carries_lt = lts\<rparr>))"

definition from_const_unchecked :: "nat \<Rightarrow> nat \<Rightarrow> u64 list \<Rightarrow> ('s, zkvm_error, UIntLimbs) prog" where
  "from_const_unchecked m c ls =
     andThen (zkvm_assert (length ls = num_limbs m c) ''limbs.len() == NUM_LIMBS'') (\<lambda>_.
     ok (plain_uint (LimbExprs (map (\<lambda>l. from_unsigned (unat l)) (take (num_limbs m c) ls)))))"

definition new_as_empty :: UIntLimbs where
  "new_as_empty = plain_uint (LimbExprs [])"

definition from_exprs_unchecked :: "nat \<Rightarrow> nat \<Rightarrow> expr list \<Rightarrow> UIntLimbs" where
  "from_exprs_unchecked m c es = plain_uint (LimbExprs (take (num_limbs m c) (es @ replicate (num_limbs m c) 0)))"

definition uint_create_witin_from_exprs :: "nat \<Rightarrow> nat \<Rightarrow> expr list \<Rightarrow> UIntLimbs build" where
  "uint_create_witin_from_exprs m c es =
     andThen (zkvm_assert (length es = num_limbs m c) ''expr_limbs.len() == NUM_LIMBS'') (\<lambda>_.
     andThen (mapM (\<lambda>i. andThen create_witin (\<lambda>w.
         andThen (assert_ux c (WitIn w)) (\<lambda>_.
         andThen (require_zero (WitIn w - es ! i)) (\<lambda>_. ok w)))) [0..<num_limbs m c]) (\<lambda>ws.
     ok (plain_uint (LimbWits ws))))"

text \<open>Conversions between 8-bit limbs and limbs of \<open>c\<close> bits, \<open>c\<close> a multiple of 8.\<close>

fun shift_pows :: "nat \<Rightarrow> expr list" where
  "shift_pows 0 = []"
| "shift_pows (Suc 0) = [1]"
| "shift_pows (Suc (Suc k)) = shift_pows (Suc k) @ [shl_expr (last (shift_pows (Suc k))) 8]"

text \<open>\<open>reduce(|a, b| a + b)\<close> of a chunk, which is not empty.\<close>

definition reduce_sum :: "expr list \<Rightarrow> expr" where
  "reduce_sum es = foldl (+) (hd es) (tl es)"

fun chunks :: "nat \<Rightarrow> 'a list \<Rightarrow> 'a list list" where
  "chunks k [] = []"
| "chunks 0 (x # xs) = []"
| "chunks (Suc k) (x # xs) = (x # take k xs) # chunks (Suc k) (drop k xs)"

definition from_u8_limbs :: "nat \<Rightarrow> nat \<Rightarrow> UIntLimbs \<Rightarrow> ('s, zkvm_error, UIntLimbs) prog" where
  "from_u8_limbs m c x =
     andThen (zkvm_assert (c mod 8 = 0) ''we only support multiple of 8 limb sizes'') (\<lambda>_.
     andThen (zkvm_assert (u_carries x = None) ''x.carries.is_none()'') (\<lambda>_.
     andThen (limb_wits x) (\<lambda>ws.
     ok (from_exprs_unchecked m c
       (map (\<lambda>chunk. reduce_sum (map2 (\<lambda>limb shift. shift * WitIn limb) chunk (shift_pows (c div 8))))
         (chunks (c div 8) ws))))))"

definition to_u8_limbs :: "nat \<Rightarrow> nat \<Rightarrow> UIntLimbs \<Rightarrow> UIntLimbs build" where
  "to_u8_limbs m c x =
     andThen (zkvm_assert (c mod 8 = 0) ''we only support multiple of 8 limb sizes'') (\<lambda>_.
     andThen (zkvm_assert (u_carries x = None) ''x.carries.is_none()'') (\<lambda>_.
     andThen (limb_wits x) (\<lambda>ws.
     andThen (mapM (\<lambda>large_limb.
         andThen (mapM (\<lambda>_. andThen create_witin (\<lambda>w. andThen (assert_byte (WitIn w)) (\<lambda>_. ok (WitIn w))))
           [0..<c div 8]) (\<lambda>ls.
         andThen (require_zero (WitIn large_limb - reduce_sum (map2 (\<lambda>limb shift. shift * limb) ls (shift_pows (c div 8))))) (\<lambda>_.
         ok ls))) ws) (\<lambda>split_limbs.
     uint_create_witin_from_exprs m 8 (concat split_limbs)))))"

definition replace_limbs_with_witin :: "nat \<Rightarrow> nat \<Rightarrow> UIntLimbs \<Rightarrow> UIntLimbs build" where
  "replace_limbs_with_witin m c u =
     (if is_expr u then
        andThen (mapM (\<lambda>_. andThen create_witin (\<lambda>w. andThen (assert_ux c (WitIn w)) (\<lambda>_. ok w))) [0..<num_limbs m c]) (\<lambda>ws.
        ok (u\<lparr>u_limbs := LimbWits ws\<rparr>))
      else ok u)"

definition alloc_carry_unchecked :: "UIntLimbs \<Rightarrow> bool \<Rightarrow> nat \<Rightarrow> UIntLimbs build" where
  "alloc_carry_unchecked u with_overflow num_carries =
     (if u_carries u = None then
        andThen (mapM (\<lambda>_. create_witin) [0..<if with_overflow then num_carries else num_carries - 1]) (\<lambda>cs.
        ok (u\<lparr>u_carries := Some cs\<rparr>))
      else ok u)"

text \<open>\<open>value()\<close>: Horner's rule from the most significant limb; there is always a limb.\<close>

definition uint_value :: "nat \<Rightarrow> UIntLimbs \<Rightarrow> expr" where
  "uint_value c u = (let es = rev (uexprs u) in foldl (\<lambda>sum limb. shl_expr sum c + limb) (hd es) (tl es))"

definition as_lo_hi :: "nat \<Rightarrow> nat \<Rightarrow> nat \<Rightarrow> UIntLimbs \<Rightarrow> ('s, zkvm_error, UIntLimbs \<times> UIntLimbs) prog" where
  "as_lo_hi m c m2 u =
     andThen (zkvm_assert (m = 2 * m2) ''M == 2 * M2'') (\<lambda>_.
     let es = uexprs u; k = length es div 2
     in ok (from_exprs_unchecked m2 c (take k es), from_exprs_unchecked m2 c (drop k es)))"

definition to_field_expr :: "nat \<Rightarrow> UIntLimbs \<Rightarrow> expr \<Rightarrow> expr" where
  "to_field_expr c u is_neg = uint_value c u - is_neg * from_unsigned (2 ^ 32)"

definition is_negative :: "UIntLimbs \<Rightarrow> SignedExtendConfig build" where
  "is_negative u =
     andThen (limb_wits u) (\<lambda>ws.
     if ws = [] then fail (ZkvmPanic ''unwrap'') else signed_ext_construct 16 (WitIn (last ws)))"

definition uint_try_from :: "nat \<Rightarrow> nat \<Rightarrow> nat list \<Rightarrow> zkvm_error + UIntLimbs" where
  "uint_try_from m c ws =
     (if length ws \<noteq> num_limbs m c then Inl (UtilError ''cannot construct UIntLimbs'')
      else Inr (plain_uint (LimbWits ws)))"

text \<open>Register values are two 16-bit limbs; memory values and addresses are one expression.\<close>

definition register_expr :: "UIntLimbs \<Rightarrow> ('s, zkvm_error, expr list) prog" where
  "register_expr u = andThen (zkvm_assert (length (uexprs u) = 2) ''two limbs with M=32 and C=16'') (\<lambda>_. ok (uexprs u))"

definition register_expr8 :: "UIntLimbs \<Rightarrow> ('s, zkvm_error, expr list) prog" where
  "register_expr8 u =
     (let u16_limbs = map (\<lambda>chunk. chunk ! 0 + chunk ! 1 * from_unsigned 256) (chunks 2 (uexprs u)) in
      andThen (zkvm_assert (length u16_limbs = 2) ''four limbs with M=32 and C=8'') (\<lambda>_. ok u16_limbs))"

definition address_expr :: "UIntLimbs \<Rightarrow> expr" where "address_expr u = uint_value 16 u"
definition memory_expr :: "UIntLimbs \<Rightarrow> expr" where "memory_expr u = uint_value 16 u"

subsection \<open>Addition\<close>

definition get :: "'a list \<Rightarrow> nat \<Rightarrow> 'a option" where
  "get xs i = (if i < length xs then Some (xs ! i) else None)"

definition add_limb_expr :: "nat \<Rightarrow> nat list \<Rightarrow> nat \<Rightarrow> expr \<Rightarrow> expr \<Rightarrow> expr" where
  "add_limb_expr c cs i a b =
     (let carry = (if i > 0 then get cs (i - 1) else None);
          limb = a + b;
          limb = (case carry of None \<Rightarrow> limb | Some w \<Rightarrow> limb + WitIn w)
      in case get cs i of None \<Rightarrow> limb | Some w \<Rightarrow> limb - WitIn w * from_unsigned (2 ^ c))"

definition internal_add :: "nat \<Rightarrow> nat \<Rightarrow> expr list \<Rightarrow> expr list \<Rightarrow> bool \<Rightarrow> UIntLimbs build" where
  "internal_add m c self addend with_overflow =
     andThen (alloc_carry_unchecked new_as_empty with_overflow (num_limbs m c)) (\<lambda>u.
     case u_carries u of None \<Rightarrow> fail CircuitError
     | Some cs \<Rightarrow>
         andThen (forM (\<lambda>carry. assert_bit (WitIn carry)) cs) (\<lambda>_.
         andThen (mapM (\<lambda>(i, a, b). let limb = add_limb_expr c cs i a b in
             andThen (assert_ux c limb) (\<lambda>_. ok limb)) (enumerate 0 (zip self addend))) (\<lambda>ls.
         ok (u\<lparr>u_limbs := LimbExprs ls\<rparr>))))"

definition uint_add :: "nat \<Rightarrow> nat \<Rightarrow> UIntLimbs \<Rightarrow> UIntLimbs \<Rightarrow> bool \<Rightarrow> UIntLimbs build" where
  "uint_add m c self addend with_overflow = internal_add m c (uexprs self) (uexprs addend) with_overflow"

definition add_const :: "nat \<Rightarrow> nat \<Rightarrow> UIntLimbs \<Rightarrow> expr \<Rightarrow> bool \<Rightarrow> UIntLimbs build" where
  "add_const m c self constant with_overflow =
     (case constant of
        Constant (Inl k) \<Rightarrow>
          let b = to_canonical_u64 k;
              b_limbs = map (\<lambda>i. from_unsigned (b div 2 ^ (c * i) mod 2 ^ c)) [0..<num_limbs m c]
          in internal_add m c (uexprs self) b_limbs with_overflow
      | Constant (Inr _) \<Rightarrow> fail (ZkvmPanic ''do not support extension field here'')
      | _ \<Rightarrow> fail (ZkvmPanic ''addend is not a constant type''))"

subsection \<open>Multiplication\<close>

definition choose_nat :: "nat \<Rightarrow> nat \<Rightarrow> nat" where
  "choose_nat n k = (if k > n then 0 else fact n div (fact k * fact (n - k)))"

definition max_combinations :: "nat \<Rightarrow> nat \<Rightarrow> nat" where
  "max_combinations deg num_cells = choose_nat (num_cells - 1 + deg - 1) (deg - 1)"

definition max_carry_word_for_multiplication :: "nat \<Rightarrow> nat \<Rightarrow> nat \<Rightarrow> nat" where
  "max_carry_word_for_multiplication n m c =
     (let num_cells = num_limbs m c;
          max_mul_sum_value = (2 ^ c - 1) ^ n * max_combinations n num_cells;
          estimated_max_prev_carry_bound = max_mul_sum_value div 2 ^ c
      in (max_mul_sum_value + estimated_max_prev_carry_bound) div 2 ^ c + 1)"

definition MAX_DEGREE_2_MUL_CARRY_VALUE :: "nat \<Rightarrow> nat \<Rightarrow> nat" where
  "MAX_DEGREE_2_MUL_CARRY_VALUE m c = max_carry_word_for_multiplication 2 m c"

definition MAX_DEGREE_2_MUL_CARRY_U16_LIMB :: "nat \<Rightarrow> nat \<Rightarrow> nat" where
  "MAX_DEGREE_2_MUL_CARRY_U16_LIMB m c = (bit_length (MAX_DEGREE_2_MUL_CARRY_VALUE m c) + 15) div 16"

definition swap_witin :: "nat \<Rightarrow> nat \<Rightarrow> UIntLimbs \<Rightarrow> UIntLimbs build" where
  "swap_witin m c u =
     (if is_expr u then
        andThen (replace_limbs_with_witin m c u) (\<lambda>u'.
        andThen (forM (\<lambda>(lhs, rhs). require_equal lhs rhs) (zip (uexprs u') (uexprs u))) (\<lambda>_. ok u'))
      else ok u)"

text \<open>The column sums of the schoolbook product, then padded or cut to \<open>k\<close> columns.\<close>

definition accumulate_product :: "nat \<Rightarrow> expr list \<Rightarrow> nat \<times> expr \<Rightarrow> nat \<times> expr \<Rightarrow> expr list" where
  "accumulate_product k result = (\<lambda>(i, a) (j, b).
     if i + j < k then
       (if i + j < length result then result[i + j := result ! (i + j) + a * b] else result @ [a * b])
     else result)"

definition product_columns :: "nat \<Rightarrow> expr list \<Rightarrow> expr list \<Rightarrow> expr list" where
  "product_columns k as bs =
     (let result = foldl (\<lambda>result ia. foldl (\<lambda>result jb. accumulate_product k result ia jb) result (enumerate 0 bs))
        [] (enumerate 0 as)
      in take k (result @ replicate k 0))"

definition mul_limb_expr :: "nat \<Rightarrow> nat list \<Rightarrow> nat \<Rightarrow> nat \<Rightarrow> expr \<Rightarrow> expr" where
  "mul_limb_expr c cs i c_limb column =
     (let carry = (if i > 0 then get cs (i - 1) else None);
          r = column - WitIn c_limb;
          r = (case carry of None \<Rightarrow> r | Some w \<Rightarrow> r + WitIn w)
      in case get cs i of None \<Rightarrow> r | Some w \<Rightarrow> r - WitIn w * from_unsigned (2 ^ c))"

definition internal_mul ::
  "nat \<Rightarrow> nat \<Rightarrow> nat \<Rightarrow> UIntLimbs \<Rightarrow> UIntLimbs \<Rightarrow> bool \<Rightarrow> (UIntLimbs \<times> UIntLimbs \<times> UIntLimbs) build" where
  "internal_mul m c m2 self multiplier with_overflow =
     (let k = (if m2 = 2 * m then 2 * num_limbs m c else num_limbs m c) in
      andThen (mapM (\<lambda>_. andThen create_witin (\<lambda>w. andThen (assert_ux c (WitIn w)) (\<lambda>_. ok w))) [0..<k]) (\<lambda>c_limbs.
      andThen (mapM (\<lambda>_. create_witin) [0..<if with_overflow then k else k - 1]) (\<lambda>c_carries.
      andThen (mapM (\<lambda>carry. assert_lt_construct (WitIn carry) (from_unsigned (MAX_DEGREE_2_MUL_CARRY_VALUE m c))
          (MAX_DEGREE_2_MUL_CARRY_U16_LIMB m c)) c_carries) (\<lambda>lts.
      andThen (swap_witin m c self) (\<lambda>self'.
      andThen (swap_witin m c multiplier) (\<lambda>multiplier'.
      let columns = product_columns k (uexprs self') (uexprs multiplier') in
      andThen (forM (\<lambda>(i, c_limb). require_zero (mul_limb_expr c c_carries i c_limb (columns ! i))) (enumerate 0 c_limbs)) (\<lambda>_.
      andThen (from_witins_unchecked m2 c c_limbs (Some c_carries) (Some lts)) (\<lambda>u.
      ok (self', multiplier', u)))))))))"

definition uint_mul_add ::
  "nat \<Rightarrow> nat \<Rightarrow> nat \<Rightarrow> UIntLimbs \<Rightarrow> UIntLimbs \<Rightarrow> UIntLimbs \<Rightarrow> bool \<Rightarrow>
   (UIntLimbs \<times> UIntLimbs \<times> UIntLimbs \<times> UIntLimbs) build" where
  "uint_mul_add m c m2 self multiplier addend with_overflow =
     andThen (internal_mul m c m2 self multiplier with_overflow) (\<lambda>(self', multiplier', mul).
     andThen (if m2 = 2 * m then andThen (as_lo_hi m2 c m mul) (\<lambda>(_, hi). ok hi)
              else ok (from_exprs_unchecked m c (uexprs mul))) (\<lambda>mul_lo_or_hi.
     andThen (internal_add m c (uexprs mul_lo_or_hi) (uexprs addend) with_overflow) (\<lambda>add.
     ok (self', multiplier', add, mul))))"

subsection \<open>Equality and byte logic\<close>

definition uint_require_equal :: "nat \<Rightarrow> UIntLimbs \<Rightarrow> UIntLimbs \<Rightarrow> unit build" where
  "uint_require_equal c a b = require_equal (uint_value c a) (uint_value c b)"

record IsEqualConfig =
  is_equal_per_limb :: "nat list"
  diff_inv_per_limb :: "nat list"
  is_equal_wit :: nat
  diff_inv_wit :: nat

definition uint_is_equal :: "nat \<Rightarrow> nat \<Rightarrow> UIntLimbs \<Rightarrow> UIntLimbs \<Rightarrow> IsEqualConfig build" where
  "uint_is_equal m c a b =
     andThen (limb_wits a) (\<lambda>as.
     andThen (limb_wits b) (\<lambda>bs.
     andThen (mapM (\<lambda>(a, b). is_equal (WitIn a) (WitIn b)) (zip as bs)) (\<lambda>per_limb.
     andThen (create_witin_from_exprs (sum_expr (map (\<lambda>(e, _). WitIn e) per_limb)) False) (\<lambda>sum_flag.
     andThen (is_equal (WitIn sum_flag) (from_unsigned (num_limbs m c))) (\<lambda>(is_eq, diff_inv).
     ok \<lparr>is_equal_per_limb = map fst per_limb, diff_inv_per_limb = map snd per_limb,
         is_equal_wit = is_eq, diff_inv_wit = diff_inv\<rparr>)))))"

definition uint_logic :: "ROMType \<Rightarrow> UIntLimbs \<Rightarrow> UIntLimbs \<Rightarrow> UIntLimbs \<Rightarrow> unit build" where
  "uint_logic table a b c =
     andThen (limb_wits a) (\<lambda>as.
     andThen (limb_wits b) (\<lambda>bs.
     andThen (limb_wits c) (\<lambda>cs.
     forM (\<lambda>(a, b, c). logic_u8 table (WitIn a) (WitIn b) (WitIn c)) (zip as (zip bs cs)))))"

definition uint_logic_assign :: "nat \<Rightarrow> ROMType \<Rightarrow> u64 \<Rightarrow> u64 \<Rightarrow> unit assign" where
  "uint_logic_assign m table a b =
     forM (\<lambda>i. lkm_logic_u8 table (drop_bit (i * 8) a AND 0xff) (drop_bit (i * 8) b AND 0xff)) [0..<(m + 7) div 8]"

end
