(* ===== verification/UIntEnforce.thy ===== *)
theory UIntEnforce
  imports UInt
begin

text \<open>What arithmetic on limbs enforces: the operations on machine words that the limbs represent.\<close>

lemma andThen_assoc: "andThen (andThen m f) g = andThen m (\<lambda>x. andThen (f x) g)"
  by (auto simp: andThen_def fun_eq_iff split: prod.split sum.split)

lemma andThen_unit: "andThen m ok = m"
  by (auto simp: andThen_def ok_def fun_eq_iff split: prod.split sum.split)

lemmas flatten = andThen_assoc andThen_ok andThen_fail prod.case Let_def mapM.simps forM.simps

lemma upt_2: "[0..<2] = [0, 1]" and upt_4: "[0..<4] = [0, 1, 2, 3]"
  by (simp_all add: upt_rec)

lemma num_limbs_eval [simp]: "num_limbs 32 16 = 2" "num_limbs 64 16 = 4" "num_limbs 32 8 = 4"
  by (simp_all add: num_limbs_def)

lemma gl_int_eq: "(of_int a :: gl) = of_int b \<Longrightarrow> \<bar>a - b\<bar> < 2 ^ 62 \<Longrightarrow> a = b"
  using of_int_gl_inject [of a b] by (simp add: gl_modulus_def)

subsection \<open>Words in limbs\<close>

definition limbs_of :: "u32 \<Rightarrow> gl list" where
  "limbs_of w = [of_nat (unat w mod 2 ^ 16), of_nat (unat w div 2 ^ 16)]"

definition holds :: "circuit_row \<Rightarrow> UIntLimbs \<Rightarrow> u32 \<Rightarrow> bool" where
  "holds row u w \<longleftrightarrow> map (value_of row) (uexprs u) = limbs_of w"

definition free_uint :: "UIntLimbs \<Rightarrow> bool" where
  "free_uint u \<longleftrightarrow> (\<exists>lo hi. uexprs u = [lo, hi] \<and> challenge_free lo \<and> challenge_free hi)"

lemma limbs_of_less: "unat (w :: u32) div 65536 < 65536"
  using unsigned_less [of w] by (simp add: less_mult_imp_div_less)

lemma limbs_of_nat: "x0 < 2 ^ 16 \<Longrightarrow> x1 < 2 ^ 16 \<Longrightarrow> limbs_of (of_nat (x0 + 2 ^ 16 * x1)) = [of_nat x0, of_nat x1]"
proof -
  assume less: "x0 < 2 ^ 16" "x1 < 2 ^ 16"
  have "unat (of_nat n :: u32) = n" if "n < 2 ^ 32" for n
    using that by (simp add: unat_of_nat take_bit_nat_eq_self)
  moreover have "x0 + 2 ^ 16 * x1 < 2 ^ 32" using less by simp
  ultimately have "unat (of_nat (x0 + 2 ^ 16 * x1) :: u32) = x0 + 2 ^ 16 * x1" .
  with less show ?thesis unfolding limbs_of_def by (simp del: of_nat_add of_nat_mult)
qed

lemma int_split_16: "int n = int (n mod 2 ^ 16) + 65536 * int (n div 2 ^ 16)"
proof -
  have "n = n mod 2 ^ 16 + 65536 * (n div 2 ^ 16)" by simp
  then have "int n = int (n mod 2 ^ 16 + 65536 * (n div 2 ^ 16))" by (rule arg_cong)
  then show ?thesis by (simp only: of_nat_add of_nat_mult of_nat_numeral)
qed

lemma limbs_of_inject: "limbs_of v = limbs_of w \<longleftrightarrow> v = w"
proof
  assume "limbs_of v = limbs_of w"
  then have "unat v mod 2 ^ 16 = unat w mod 2 ^ 16" "unat v div 2 ^ 16 = unat w div 2 ^ 16"
    using limbs_of_less [of v] limbs_of_less [of w] by (auto simp: limbs_of_def of_nat_gl_inject)
  then show "v = w" by (metis div_mult_mod_eq word_unat_eq_iff)
qed simp

lemma value_limbs_of: "map f es = limbs_of w \<Longrightarrow> length es = 2"
  by (auto simp: limbs_of_def dest: arg_cong [where f = length])

lemma limbs_from_ranges:
  assumes "canon a < 2 ^ 16" "canon b < 2 ^ 16"
  shows "\<exists>w. [a, b] = limbs_of w"
  using limbs_of_nat [OF assms] by (metis of_nat_to_canonical)

lemma free_plain [simp]: "free_uint (plain_uint (LimbWits [a, b]))"
  by (simp add: free_uint_def plain_uint_def uexprs_def)

lemma uexprs_plain [simp]: "uexprs (plain_uint (LimbWits ws)) = map WitIn ws" "uexprs (plain_uint (LimbExprs es)) = es"
  by (simp_all add: plain_uint_def uexprs_def)

lemma uint_new_unchecked_flat:
  "uint_new_unchecked 32 16 = andThen create_witin (\<lambda>a. andThen create_witin (\<lambda>b. ok (plain_uint (LimbWits [a, b]))))"
  by (simp add: uint_new_unchecked_def uint_new_maybe_unchecked_def upt_2 flatten)

lemma uint_new_flat:
  "uint_new 32 16 = andThen create_witin (\<lambda>a. andThen (assert_ux 16 (WitIn a)) (\<lambda>_.
     andThen create_witin (\<lambda>b. andThen (assert_ux 16 (WitIn b)) (\<lambda>_. ok (plain_uint (LimbWits [a, b]))))))"
  by (simp add: uint_new_def uint_new_maybe_unchecked_def upt_2 flatten)

lemma uint_new_unchecked_returns [returning]:
  "returns (uint_new_unchecked 32 16) (\<lambda>u. \<exists>a b. u = plain_uint (LimbWits [a, b]))"
  unfolding uint_new_unchecked_flat by (intro returns_then returns_ok) blast

lemma uint_new_unchecked_builds [builder]: "enforces row (uint_new_unchecked 32 16) (\<lambda>_. True)"
  unfolding uint_new_unchecked_flat
  by (intro enforces_bind [OF create_witin_builds] builds_ok) simp

lemma uint_new_returns [returning]:
  "returns (uint_new 32 16) (\<lambda>u. \<exists>a b. u = plain_uint (LimbWits [a, b]))"
  unfolding uint_new_flat by (intro returns_then returns_ok) blast

lemma uint_new_builds [builder]: "enforces row (uint_new 32 16) (\<lambda>u. \<exists>w. holds row u w)"
  unfolding uint_new_flat
  by (intro enforces_bind [OF create_witin_builds] enforces_bind [OF assert_ux_builds] builds_ok impI)
    (auto simp: holds_def intro: limbs_from_ranges)

subsection \<open>Addition\<close>

lemma internal_add_flat:
  "internal_add 32 16 [a0, a1] [b0, b1] True =
     andThen create_witin (\<lambda>c0. andThen create_witin (\<lambda>c1.
     andThen (assert_bit (WitIn c0)) (\<lambda>_. andThen (assert_bit (WitIn c1)) (\<lambda>_.
     andThen (assert_ux 16 (a0 + b0 - WitIn c0 * from_unsigned 65536)) (\<lambda>_.
     andThen (assert_ux 16 (a1 + b1 + WitIn c0 - WitIn c1 * from_unsigned 65536)) (\<lambda>_.
     ok \<lparr>u_limbs = LimbExprs [a0 + b0 - WitIn c0 * from_unsigned 65536,
           a1 + b1 + WitIn c0 - WitIn c1 * from_unsigned 65536],
         u_carries = Some [c0, c1], u_carries_lt = None\<rparr>))))))"
  by (simp add: internal_add_def alloc_carry_unchecked_def new_as_empty_def plain_uint_def add_limb_expr_def
      get_def upt_2 flatten)

lemma add_words:
  assumes "[a0, a1] = limbs_of x" "[b0, b1] = limbs_of y" "c0 \<in> {0, 1}" "c1 \<in> {0, 1}"
    and "canon (a0 + b0 - c0 * 65536) < 2 ^ 16" "canon (a1 + b1 + c0 - c1 * 65536) < 2 ^ 16"
  shows "[a0 + b0 - c0 * 65536, a1 + b1 + c0 - c1 * 65536] = limbs_of (x + y)"
proof -
  obtain k0 where c0: "c0 = of_bool k0" using assms(3) by (cases "c0 = 1") auto
  obtain k1 where c1: "c1 = of_bool k1" using assms(4) by (cases "c1 = 1") auto
  define x0 x1 y0 y1 where "x0 = int (unat x mod 2 ^ 16)" "x1 = int (unat x div 2 ^ 16)"
    "y0 = int (unat y mod 2 ^ 16)" "y1 = int (unat y div 2 ^ 16)"
  note defs = this
  define z0 z1 where "z0 = canon (a0 + b0 - c0 * 65536)" "z1 = canon (a1 + b1 + c0 - c1 * 65536)"
  note zs = this
  have bounds: "0 \<le> x0" "x0 < 65536" "0 \<le> y0" "y0 < 65536" "0 \<le> x1" "x1 < 65536" "0 \<le> y1" "y1 < 65536"
    using limbs_of_less [of x] limbs_of_less [of y] by (auto simp: defs simp del: of_nat_mod of_nat_div)
  have a: "a0 = of_int x0" "a1 = of_int x1" "b0 = of_int y0" "b1 = of_int y1"
    using assms(1,2) by (simp_all add: defs limbs_of_def)
  have z: "a0 + b0 - c0 * 65536 = of_int (int z0)" "a1 + b1 + c0 - c1 * 65536 = of_int (int z1)"
    by (simp_all add: zs)
  have "of_int (x0 + y0 - of_bool k0 * 65536) = (of_int (int z0) :: gl)"
    using z(1) by (simp add: a c0)
  moreover have "\<bar>x0 + y0 - of_bool k0 * 65536 - int z0\<bar> < 2 ^ 62" using bounds assms(5) zs by (cases k0) auto
  ultimately have e0: "x0 + y0 - of_bool k0 * 65536 = int z0" by (rule gl_int_eq)
  have "of_int (x1 + y1 + of_bool k0 - of_bool k1 * 65536) = (of_int (int z1) :: gl)"
    using z(2) by (simp add: a c0 c1)
  moreover have "\<bar>x1 + y1 + of_bool k0 - of_bool k1 * 65536 - int z1\<bar> < 2 ^ 62"
    using bounds assms(6) zs by (cases k0; cases k1) auto
  ultimately have e1: "x1 + y1 + of_bool k0 - of_bool k1 * 65536 = int z1" by (rule gl_int_eq)
  have "int (unat x) = x0 + 65536 * x1" "int (unat y) = y0 + 65536 * y1"
    unfolding defs by (rule int_split_16)+
  with e0 e1 have "int (z0 + 2 ^ 16 * z1) = int (unat x) + int (unat y) - of_bool k1 * 2 ^ 32" by simp
  then have "(word_of_int (int (z0 + 2 ^ 16 * z1)) :: u32) = word_of_int (int (unat x) + int (unat y) - of_bool k1 * 2 ^ 32)"
    by (rule arg_cong)
  moreover have "(word_of_int (2 ^ 32) :: u32) = 0" by simp
  ultimately have "of_nat (z0 + 2 ^ 16 * z1) = x + y"
    by (cases k1) (simp_all add: of_int_diff)
  moreover have "z0 < 2 ^ 16" "z1 < 2 ^ 16" using assms(5,6) by (simp_all add: zs)
  ultimately have "limbs_of (x + y) = [of_nat z0, of_nat z1]" using limbs_of_nat [of z0 z1] by simp
  with z show ?thesis by simp
qed


lemma internal_add_returns [returning]:
  assumes "challenge_free a0" "challenge_free a1" "challenge_free b0" "challenge_free b1"
  shows "returns (internal_add 32 16 [a0, a1] [b0, b1] True) free_uint"
  unfolding internal_add_flat
  by (intro returns_then returns_ok) (use assms in \<open>simp add: free_uint_def uexprs_def\<close>)

lemma internal_add_builds [builder]:
  "enforces row (internal_add 32 16 [a0, a1] [b0, b1] True)
    (\<lambda>u. \<forall>x y. map (value_of row) [a0, a1] = limbs_of x \<longrightarrow> map (value_of row) [b0, b1] = limbs_of y \<longrightarrow>
       holds row u (x + y))"
  unfolding internal_add_flat
proof (intro enforces_bind [OF create_witin_builds] enforces_bind [OF assert_bit_builds]
    enforces_bind [OF assert_ux_builds] builds_ok impI conjI refl allI)
  fix c0 c1 x y
  assume "map (value_of row) [a0, a1] = limbs_of x" "map (value_of row) [b0, b1] = limbs_of y"
    "value_of row (WitIn c0) \<in> {0, 1}" "value_of row (WitIn c1) \<in> {0, 1}"
    "canon (value_of row (a0 + b0 - WitIn c0 * from_unsigned 65536)) < 2 ^ 16"
    "canon (value_of row (a1 + b1 + WitIn c0 - WitIn c1 * from_unsigned 65536)) < 2 ^ 16"
  then show "holds row \<lparr>u_limbs = LimbExprs [a0 + b0 - WitIn c0 * from_unsigned 65536,
      a1 + b1 + WitIn c0 - WitIn c1 * from_unsigned 65536], u_carries = Some [c0, c1], u_carries_lt = None\<rparr> (x + y)"
    using add_words [of "value_of row a0" "value_of row a1" x "value_of row b0" "value_of row b1" y "wit row c0" "wit row c1"]
    by (simp add: holds_def uexprs_def)
qed simp_all

lemma free_uintE:
  assumes "free_uint u"
  obtains lo hi where "uexprs u = [lo, hi]" and "challenge_free lo" and "challenge_free hi"
  using assms unfolding free_uint_def by blast

lemma uint_add_returns [returning]:
  assumes "free_uint a" "free_uint b"
  shows "returns (uint_add 32 16 a b True) free_uint"
  unfolding uint_add_def by (rule free_uintE [OF assms(1)], rule free_uintE [OF assms(2)])
    (simp add: internal_add_returns)

lemma uint_add_builds [builder]:
  assumes "free_uint a" "free_uint b"
  shows "enforces row (uint_add 32 16 a b True)
    (\<lambda>u. \<forall>x y. holds row a x \<longrightarrow> holds row b y \<longrightarrow> holds row u (x + y))"
  unfolding uint_add_def by (rule free_uintE [OF assms(1)], rule free_uintE [OF assms(2)])
    (use internal_add_builds in \<open>simp add: holds_def\<close>)

subsection \<open>Values\<close>

lemma uint_value_two: "uexprs u = [lo, hi] \<Longrightarrow> uint_value 16 u = shl_expr hi 16 + lo"
  by (simp add: uint_value_def)

lemma free_uint_value [simp]: "free_uint u \<Longrightarrow> challenge_free (uint_value 16 u)"
  by (auto simp: uint_value_two elim!: free_uintE)

lemma holds_value: "holds row u w \<Longrightarrow> value_of row (uint_value 16 u) = of_nat (unat w)"
proof -
  assume h: "holds row u w"
  then obtain lo hi where u: "uexprs u = [lo, hi]"
    using value_limbs_of [of "value_of row" "uexprs u" w] by (auto simp: holds_def length_Suc_conv numeral_2_eq_2)
  from h have "value_of row (uint_value 16 u) = of_nat (2 ^ 16 * (unat w div 2 ^ 16) + unat w mod 2 ^ 16)"
    by (simp only: of_nat_add of_nat_mult) (simp add: holds_def limbs_of_def u uint_value_two)
  then show ?thesis by (simp only: mult_div_mod_eq)
qed

lemma holds_limbs: "holds row u w \<Longrightarrow> uexprs u = [lo, hi] \<Longrightarrow>
   value_of row lo = of_nat (unat w mod 2 ^ 16) \<and> value_of row hi = of_nat (unat w div 2 ^ 16)"
  by (simp add: holds_def limbs_of_def)

text \<open>The sign: the most significant bit of the high limb.\<close>

lemma sint_sign: "sint w = uint w - 2 ^ 32 * of_bool (w <s 0) \<and> (w <s 0 \<longleftrightarrow> 2 ^ 31 \<le> uint w)" for w :: u32
proof -
  obtain k where k: "k = (31 :: nat)" by simp
  have u: "uint w < 2 ^ 32" "0 \<le> uint w" using uint_lt2p [of w] by simp_all
  then have "take_bit 32 (uint w) = uint w" by (simp add: take_bit_int_eq_self_iff)
  then have s: "sint w = uint w - 2 ^ 32 * of_bool (bit (uint w) k)"
    by (simp add: sint_uint signed_take_bit_eq_take_bit_minus k)
  have "bit (uint w) k \<longleftrightarrow> odd (uint w div 2 ^ k)" by (rule bit_int_def)
  also have "\<dots> \<longleftrightarrow> 2 ^ 31 \<le> uint w"
  proof -
    have "uint w div 2 ^ 31 < 2" "0 \<le> uint w div 2 ^ 31" using u by (simp_all add: pos_imp_zdiv_nonneg_iff)
    then have "uint w div 2 ^ 31 \<in> {0, 1}" by auto
    moreover have "uint w div 2 ^ 31 = 1 \<longleftrightarrow> 2 ^ 31 \<le> uint w" using u by auto
    ultimately show ?thesis by (auto simp: k)
  qed
  finally have bit: "bit (uint w) k \<longleftrightarrow> 2 ^ 31 \<le> uint w" .
  have "w <s 0 \<longleftrightarrow> sint w < 0" by (simp add: word_sless_alt)
  also have "\<dots> \<longleftrightarrow> 2 ^ 31 \<le> uint w"
  proof (cases "2 ^ 31 \<le> uint w")
    case True
    with s bit have "sint w = uint w - 2 ^ 32" by simp
    with True u show ?thesis by simp
  next
    case False
    with s bit have "sint w = uint w" by simp
    with False u show ?thesis by simp
  qed
  finally show ?thesis using s bit by simp
qed

lemma sign_bit: "2 ^ 15 \<le> unat (w :: u32) div 2 ^ 16 \<longleftrightarrow> w <s 0"
proof -
  have "2 ^ 31 \<le> uint w \<longleftrightarrow> 2 ^ 31 \<le> unat w"
    unfolding uint_nat by (metis of_nat_le_iff of_nat_numeral of_nat_power)
  moreover have "2 ^ 15 \<le> unat w div 2 ^ 16 \<longleftrightarrow> 2 ^ 31 \<le> unat w" by (simp add: less_eq_div_iff_mult_less_eq)
  ultimately show ?thesis using sint_sign [of w] by simp
qed

lemma is_negative_plain: "is_negative (plain_uint (LimbWits [a, b])) = signed_ext_construct 16 (WitIn b)"
  by (simp add: is_negative_def limb_wits_def plain_uint_def andThen_ok)

lemma is_negative_builds [builder]:
  "enforces row (is_negative (plain_uint (LimbWits [a, b])))
    (\<lambda>cfg. \<forall>w. holds row (plain_uint (LimbWits [a, b])) w \<longrightarrow> wit row (msb_wit cfg) = of_bool (w <s 0))"
  unfolding is_negative_plain
proof (rule builds_conseq [OF signed_ext_builds], intro conjI allI impI)
  fix cfg w and rs ws :: ram_values
  assume "rs = [] \<and> ws = [] \<and> (canon (value_of row (WitIn b)) < 2 ^ 16 \<longrightarrow>
      wit row (msb_wit cfg) = of_bool (2 ^ (16 - 1) \<le> canon (value_of row (WitIn b))))"
    and "holds row (plain_uint (LimbWits [a, b])) w"
  moreover from this have "canon (wit row b) = unat w div 2 ^ 16"
    using limbs_of_less [of w] canon_of_nat_small [of "unat w div 65536"] by (simp add: holds_def limbs_of_def)
  ultimately show "wit row (msb_wit cfg) = of_bool (w <s 0)"
    using limbs_of_less [of w] sign_bit [of w] by simp
qed auto

lemma to_field_value:
  assumes "holds row u w" and "challenge_free n" and "value_of row n = of_bool (w <s 0)"
  shows "value_of row (to_field_expr 16 u n) = of_int (sint w)"
proof -
  have "value_of row (to_field_expr 16 u n) = of_nat (unat w) - of_bool (w <s 0) * 2 ^ 32"
    using assms by (simp add: to_field_expr_def holds_value)
  also have "\<dots> = of_int (uint w - 2 ^ 32 * of_bool (w <s 0))" by (cases "w <s 0") simp_all
  finally show ?thesis using sint_sign [of w] by simp
qed

lemma free_to_field [simp]: "free_uint u \<Longrightarrow> challenge_free n \<Longrightarrow> challenge_free (to_field_expr 16 u n)"
  by (simp add: to_field_expr_def)

lemma sint_bounds: "- (2 ^ 31) \<le> sint (w :: u32)" "sint w < 2 ^ 31" "0 \<le> uint w" "uint w < 2 ^ 32"
proof -
  have s: "sint w = uint w - 2 ^ 32 * of_bool (w <s 0)" and n: "w <s 0 \<longleftrightarrow> 2 ^ 31 \<le> uint w"
    using sint_sign [of w] by blast+
  have u: "0 \<le> uint w" "uint w < 2 ^ 32" using uint_lt2p [of w] by simp_all
  have "- (2 ^ 31) \<le> sint w \<and> sint w < 2 ^ 31"
  proof (cases "w <s 0")
    case True
    with s have "sint w = uint w - 2 ^ 32" by simp
    with u n True show ?thesis by simp
  next
    case False
    with s have "sint w = uint w" by simp
    moreover have "- (2 ^ 31) \<le> uint w" using u(1) by (rule order_trans [rotated]) simp
    ultimately show ?thesis using n False by simp
  qed
  with u show "- (2 ^ 31) \<le> sint w" "sint w < 2 ^ 31" "0 \<le> uint w" "uint w < 2 ^ 32" by blast+
qed

end
