(* ===== verification/Values.thy ===== *)
theory Values
  imports UInt
begin

text \<open>
  Concrete values in 16-bit limbs and the arithmetic that computes the columns of \<open>UInt\<close>
  (\<open>ceno_zkvm/src/uint.rs\<close>, \<open>Value\<close>). \<open>m\<close> is the bit width of the type parameter \<open>T\<close>.
\<close>

type_synonym u16 = "16 word"

record Val =
  v_val :: u64
  v_limbs :: "u16 list"

record ValueAdd =
  add_limbs :: "u16 list"
  add_carries :: "u16 list"

record ValueMul =
  mul_limbs :: "u16 list"
  mul_carries :: "u64 list"
  max_carry_value :: u64

fun scan_limbs :: "nat \<Rightarrow> u64 \<Rightarrow> u16 list" where
  "scan_limbs 0 acc = []"
| "scan_limbs (Suc n) acc = ucast (acc AND 0xFFFF) # scan_limbs n (drop_bit 16 acc)"

definition split_to_u16 :: "nat \<Rightarrow> u64 \<Rightarrow> u16 list" where
  "split_to_u16 m v = scan_limbs ((m + 15) div 16) v"

definition value_new_unchecked :: "nat \<Rightarrow> u64 \<Rightarrow> Val" where
  "value_new_unchecked m v = \<lparr>v_val = v, v_limbs = split_to_u16 m v\<rparr>"

definition value_assert_u16 :: "u16 list \<Rightarrow> unit assign" where
  "value_assert_u16 v = forM (\<lambda>x. lkm_assert_ux 16 (ucast x)) v"

definition value_new :: "nat \<Rightarrow> u64 \<Rightarrow> Val assign" where
  "value_new m v =
     (let x = value_new_unchecked m v in andThen (value_assert_u16 (v_limbs x)) (\<lambda>_. ok x))"

definition value_from_limbs :: "u16 list \<Rightarrow> Val" where
  "value_from_limbs ls =
     \<lparr>v_val = ucast (foldl (\<lambda>acc v. push_bit 16 acc + ucast v) (0 :: u32) (rev ls)), v_limbs = ls\<rparr>"

definition as_u32 :: "Val \<Rightarrow> u32" where "as_u32 x = ucast (v_val x)"

definition u16_fields :: "Val \<Rightarrow> gl list" where
  "u16_fields x = map (\<lambda>v. of_nat (unat v)) (v_limbs x)"

definition as_hi_limb_slice :: "ValueMul \<Rightarrow> u16 list" where
  "as_hi_limb_slice r = drop (length (mul_limbs r) div 2) (mul_limbs r)"

definition as_hi_value :: "ValueMul \<Rightarrow> Val" where
  "as_hi_value r = value_from_limbs (as_hi_limb_slice r)"

definition overflowing_add :: "u16 \<Rightarrow> u16 \<Rightarrow> u16 \<times> bool" where
  "overflowing_add a b = (a + b, 2 ^ 16 \<le> unat a + unat b)"

fun add_with_carries :: "u16 option \<Rightarrow> (u16 \<times> u16) list \<Rightarrow> (u16 \<times> u16) list" where
  "add_with_carries prev [] = []"
| "add_with_carries prev ((a_limb, b_limb) # ls) =
     (let (a, b) = overflowing_add a_limb b_limb;
          (e, carry) = (case prev of
              Some prev_carry \<Rightarrow> let (e, d) = overflowing_add a prev_carry in (e, of_bool (b \<or> d))
            | None \<Rightarrow> (a, of_bool b))
      in (e, carry) # add_with_carries (Some carry) ls)"

definition value_add :: "Val \<Rightarrow> Val \<Rightarrow> bool \<Rightarrow> ValueAdd assign" where
  "value_add self rhs with_overflow =
     (let res = add_with_carries None (zip (v_limbs self) (v_limbs rhs)) in
      andThen (forM (\<lambda>(limb, _). lkm_assert_ux 16 (ucast limb)) res) (\<lambda>_.
      let carries = map snd res in
      if with_overflow then ok \<lparr>add_limbs = map fst res, add_carries = carries\<rparr>
      else andThen (zkvm_assert (carries \<noteq> []) ''carries.len() - 1'') (\<lambda>_.
           ok \<lparr>add_limbs = map fst res, add_carries = butlast carries\<rparr>)))"

fun propagate :: "u64 \<Rightarrow> u64 list \<Rightarrow> (u16 \<times> u64) list" where
  "propagate prev_carry [] = []"
| "propagate prev_carry (tmp # tmps) =
     (let tmp = tmp + prev_carry in (ucast tmp, drop_bit 16 tmp) # propagate (drop_bit 16 tmp) tmps)"

definition column_products :: "nat \<Rightarrow> u16 list \<Rightarrow> u16 list \<Rightarrow> u64 list" where
  "column_products k as bs =
     foldl (\<lambda>tmp (i, a). foldl (\<lambda>tmp (j, b).
         if i + j < k then tmp[i + j := tmp ! (i + j) + ucast a * ucast b] else tmp) tmp (enumerate 0 bs))
       (replicate k 0) (enumerate 0 as)"

definition value_internal_mul :: "nat \<Rightarrow> Val \<Rightarrow> Val \<Rightarrow> bool \<Rightarrow> bool \<Rightarrow> ValueMul assign" where
  "value_internal_mul m self mul with_overflow with_hi_limbs =
     (let a_limbs = v_limbs self; b_limbs = v_limbs mul;
          k = (if with_hi_limbs then 2 * length a_limbs else length a_limbs);
          res = propagate 0 (column_products k a_limbs b_limbs);
          carries = map snd res
      in andThen (if with_overflow then ok carries
           else andThen (zkvm_assert (carries \<noteq> [] \<and> last carries = 0) ''incorrect overflow flag'') (\<lambda>_. ok (butlast carries))) (\<lambda>carries.
         andThen (value_assert_u16 (map fst res)) (\<lambda>_.
         ok \<lparr>mul_limbs = map fst res, mul_carries = carries,
             max_carry_value = of_nat (max_carry_word_for_multiplication 2 m 16)\<rparr>)))"

definition value_mul :: "nat \<Rightarrow> Val \<Rightarrow> Val \<Rightarrow> bool \<Rightarrow> ValueMul assign" where
  "value_mul m self rhs with_overflow = value_internal_mul m self rhs with_overflow False"

definition value_mul_hi :: "nat \<Rightarrow> Val \<Rightarrow> Val \<Rightarrow> bool \<Rightarrow> ValueMul assign" where
  "value_mul_hi m self rhs with_overflow = value_internal_mul m self rhs with_overflow True"

definition value_mul_add :: "nat \<Rightarrow> Val \<Rightarrow> Val \<Rightarrow> Val \<Rightarrow> bool \<Rightarrow> (ValueAdd \<times> ValueMul) assign" where
  "value_mul_add m self mul addend with_overflow =
     andThen (value_internal_mul m self mul with_overflow False) (\<lambda>mul_result.
     andThen (value_add addend (value_from_limbs (mul_limbs mul_result)) with_overflow) (\<lambda>add_result.
     ok (add_result, mul_result)))"

subsection \<open>Assigning limbs\<close>

definition assign_wires :: "nat list \<Rightarrow> gl list \<Rightarrow> unit assign" where
  "assign_wires wires vals = forM (\<lambda>(w, v). set_val w v) (zip wires (vals @ replicate (length wires) 0))"

definition assign_limbs :: "nat \<Rightarrow> nat \<Rightarrow> UIntLimbs \<Rightarrow> u16 list \<Rightarrow> unit assign" where
  "assign_limbs m c u limbs_values =
     andThen (zkvm_assert (length limbs_values \<le> num_limbs m c) ''assign input length mismatch'') (\<lambda>_.
     case u_limbs u of LimbWits wires \<Rightarrow> assign_wires wires (map (\<lambda>v. of_nat (unat v)) limbs_values)
     | LimbExprs _ \<Rightarrow> ok ())"

definition assign_carries :: "UIntLimbs \<Rightarrow> u64 list \<Rightarrow> unit assign" where
  "assign_carries u carry_values =
     andThen (zkvm_assert (length carry_values \<le> (case u_carries u of None \<Rightarrow> 0 | Some cs \<Rightarrow> length cs))
       ''assign input length mismatch'') (\<lambda>_.
     case u_carries u of Some wires \<Rightarrow> assign_wires wires (map (\<lambda>v. of_nat (unat v)) carry_values) | None \<Rightarrow> ok ())"

definition assign_carries_auxiliary :: "UIntLimbs \<Rightarrow> u64 list \<Rightarrow> u64 \<Rightarrow> unit assign" where
  "assign_carries_auxiliary u carry_values max_carry =
     andThen (zkvm_assert (length carry_values \<le> (case u_carries u of None \<Rightarrow> 0 | Some cs \<Rightarrow> length cs))
       ''assign input length mismatch'') (\<lambda>_.
     case u_carries_lt u of
       Some lts \<Rightarrow> andThen (zkvm_assert (length lts = length carry_values) ''zip_eq'') (\<lambda>_.
         forM (\<lambda>(lt_config, carry). assert_lt_assign lt_config carry max_carry) (zip lts carry_values))
     | None \<Rightarrow> ok ())"

definition assign_value :: "nat \<Rightarrow> nat \<Rightarrow> UIntLimbs \<Rightarrow> Val \<Rightarrow> unit assign" where
  "assign_value m c u v = assign_limbs m c u (v_limbs v)"

definition assign_add_outcome :: "nat \<Rightarrow> nat \<Rightarrow> UIntLimbs \<Rightarrow> ValueAdd \<Rightarrow> unit assign" where
  "assign_add_outcome m c u v =
     andThen (assign_limbs m c u (add_limbs v)) (\<lambda>_. assign_carries u (map ucast (add_carries v)))"

definition assign_mul_outcome :: "nat \<Rightarrow> nat \<Rightarrow> UIntLimbs \<Rightarrow> ValueMul \<Rightarrow> unit assign" where
  "assign_mul_outcome m c u v =
     andThen (assign_limbs m c u (mul_limbs v)) (\<lambda>_.
     andThen (assign_carries u (mul_carries v)) (\<lambda>_.
     assign_carries_auxiliary u (mul_carries v) (max_carry_value v)))"

subsection \<open>The arithmetic\<close>

definition word_limbs :: "u16 list \<Rightarrow> nat" where
  "word_limbs ls = limbs_value (map unat ls)"

lemma overflowing_add_value:
  assumes "overflowing_add a b = (e, d)"
  shows "unat e + 65536 * of_bool d = unat a + unat b"
proof -
  have "unat (a + b) = (unat a + unat b) mod 65536" by (simp add: unat_word_ariths)
  moreover have "unat a < 65536" "unat b < 65536" using unsigned_less [of a] unsigned_less [of b] by simp_all
  moreover have "e = a + b" "d \<longleftrightarrow> 65536 \<le> unat a + unat b" using assms by (auto simp: overflowing_add_def)
  ultimately show ?thesis by (cases d) (simp_all add: le_mod_geq)
qed

lemma add_with_carries_value:
  assumes "length as = length bs"
  shows "(case prev of None \<Rightarrow> True | Some c \<Rightarrow> unat c \<le> 1) \<Longrightarrow>
    word_limbs (map fst (add_with_carries prev (zip as bs))) +
      2 ^ (16 * length as) * (if as = [] then (case prev of None \<Rightarrow> 0 | Some c \<Rightarrow> unat c)
        else unat (last (map snd (add_with_carries prev (zip as bs))))) =
    word_limbs as + word_limbs bs + (case prev of None \<Rightarrow> 0 | Some c \<Rightarrow> unat c)"
  using assms
proof (induction as bs arbitrary: prev rule: list_induct2)
  case Nil
  then show ?case by (simp add: word_limbs_def)
next
  case (Cons a as b bs)
  let ?c = "case prev of None \<Rightarrow> 0 | Some c \<Rightarrow> unat c"
  obtain e carry where step: "add_with_carries prev ((a, b) # zip as bs) =
      (e, carry) # add_with_carries (Some carry) (zip as bs)"
    and carry: "unat carry \<le> 1" and e: "unat e + 65536 * unat carry = unat a + unat b + ?c"
  proof (cases prev)
    case None
    obtain e d where "overflowing_add a b = (e, d)" by fastforce
    with overflowing_add_value [OF this] that None show ?thesis by (auto simp: of_bool_def split: if_splits)
  next
    case (Some c)
    obtain e1 d1 where 1: "overflowing_add a b = (e1, d1)" by fastforce
    obtain e2 d2 where 2: "overflowing_add e1 c = (e2, d2)" by fastforce
    note sums = overflowing_add_value [OF 1] overflowing_add_value [OF 2]
    have "unat a < 65536" "unat b < 65536" "unat c \<le> 1"
      using unsigned_less [of a] unsigned_less [of b] Cons.prems Some by simp_all
    with sums have "\<not> (d1 \<and> d2)" by (cases d1; cases d2) auto
    with sums have "unat e2 + 65536 * of_bool (d1 \<or> d2) = unat a + unat b + unat c" by (cases d1; cases d2) auto
    then show ?thesis using that 1 2 Some by (auto simp: of_bool_def split: if_splits)
  qed
  from Cons.IH [of "Some carry"] carry
  have IH: "word_limbs (map fst (add_with_carries (Some carry) (zip as bs))) +
      2 ^ (16 * length as) * (if as = [] then unat carry else unat (last (map snd (add_with_carries (Some carry) (zip as bs))))) =
    word_limbs as + word_limbs bs + unat carry" by (simp only: option.case)
  show ?case
  proof (cases "as = []")
    case True
    with Cons.hyps have "bs = []" by simp
    with step True have "add_with_carries prev [(a, b)] = [(e, carry)]" by (simp del: add_with_carries.simps(2))
    with \<open>bs = []\<close> True e show ?thesis by (simp add: word_limbs_def del: add_with_carries.simps(2))
  next
    case False
    then have "add_with_carries (Some carry) (zip as bs) \<noteq> []"
      using Cons.hyps by (cases as; cases bs) (auto split: prod.splits simp: Let_def)
    with IH False have "word_limbs (map fst (add_with_carries (Some carry) (zip as bs))) +
        2 ^ (16 * length as) * unat (last (map snd (add_with_carries prev ((a, b) # zip as bs)))) =
      word_limbs as + word_limbs bs + unat carry" by (simp add: step del: add_with_carries.simps(2))
    from arg_cong [OF this, of "(*) 65536"] e show ?thesis
      by (simp add: step word_limbs_def power_add algebra_simps del: add_with_carries.simps(2))
  qed
qed

end
