(* ===== verification/Chips.thy ===== *)
theory Chips
  imports UIntEnforce Values
begin

text \<open>
  The registers, the memory and the program counter of an instruction circuit
  (\<open>ceno_zkvm/src/chip_handler/\<close>, \<open>instructions/riscv/insn_base.rs\<close>): each access reads the record of the previous
  access and writes its own, with a later timestamp.
\<close>

definition UINT_LIMBS :: nat where "UINT_LIMBS = 2"

definition expect :: "'a option \<Rightarrow> string \<Rightarrow> ('s, zkvm_error, 'a) prog" where
  "expect x msg = (case x of Some v \<Rightarrow> ok v | None \<Rightarrow> fail (ZkvmPanic msg))"

definition set_u64 :: "nat \<Rightarrow> u64 \<Rightarrow> unit assign" where
  "set_u64 w v = set_val w (of_nat (unat v))"

subsection \<open>Records of accesses\<close>

definition ram_expr :: "RAMType \<Rightarrow> expr" where "ram_expr mem = from_unsigned (ram_code mem)"

definition state_in :: "expr \<Rightarrow> expr \<Rightarrow> unit build" where
  "state_in pc ts = read_record GlobalState [ram_expr GlobalState, pc, ts]"

definition state_out :: "expr \<Rightarrow> expr \<Rightarrow> unit build" where
  "state_out pc ts = write_record GlobalState [ram_expr GlobalState, pc, ts]"

definition register_read :: "expr \<Rightarrow> expr \<Rightarrow> expr \<Rightarrow> expr list \<Rightarrow> (expr \<times> AssertLtConfig) build" where
  "register_read register_id prev_ts ts val =
     andThen (read_record Register ([ram_expr Register, register_id] @ val @ [prev_ts])) (\<lambda>_.
     andThen (write_record Register ([ram_expr Register, register_id] @ val @ [ts])) (\<lambda>_.
     andThen (assert_lt_construct prev_ts ts UINT_LIMBS) (\<lambda>lt_cfg.
     ok (ts + from_unsigned 1, lt_cfg))))"

definition register_write :: "expr \<Rightarrow> expr \<Rightarrow> expr \<Rightarrow> expr list \<Rightarrow> expr list \<Rightarrow> (expr \<times> AssertLtConfig) build" where
  "register_write register_id prev_ts ts prev_values val =
     andThen (zkvm_assert (degree register_id \<le> 1) ''register_id.expr().degree() <= 1'') (\<lambda>_.
     andThen (read_record Register ([ram_expr Register, register_id] @ prev_values @ [prev_ts])) (\<lambda>_.
     andThen (write_record Register ([ram_expr Register, register_id] @ val @ [ts])) (\<lambda>_.
     andThen (assert_lt_construct prev_ts ts UINT_LIMBS) (\<lambda>lt_cfg.
     ok (ts + from_unsigned 1, lt_cfg)))))"

definition memory_read :: "expr \<Rightarrow> expr \<Rightarrow> expr \<Rightarrow> expr \<Rightarrow> (expr \<times> AssertLtConfig) build" where
  "memory_read memory_addr prev_ts ts val =
     andThen (read_record Memory ([ram_expr Memory, memory_addr] @ [val] @ [prev_ts])) (\<lambda>_.
     andThen (write_record Memory ([ram_expr Memory, memory_addr] @ [val] @ [ts])) (\<lambda>_.
     andThen (assert_lt_construct prev_ts ts UINT_LIMBS) (\<lambda>lt_cfg.
     ok (ts + from_unsigned 1, lt_cfg))))"

definition memory_write :: "expr \<Rightarrow> expr \<Rightarrow> expr \<Rightarrow> expr \<Rightarrow> expr \<Rightarrow> (expr \<times> AssertLtConfig) build" where
  "memory_write memory_addr prev_ts ts prev_values val =
     andThen (read_record Memory ([ram_expr Memory, memory_addr] @ [prev_values] @ [prev_ts])) (\<lambda>_.
     andThen (write_record Memory ([ram_expr Memory, memory_addr] @ [val] @ [ts])) (\<lambda>_.
     andThen (assert_lt_construct prev_ts ts UINT_LIMBS) (\<lambda>lt_cfg.
     ok (ts + from_unsigned 1, lt_cfg))))"

subsection \<open>The parts of an instruction\<close>

record StateInOut =
  st_pc :: nat
  st_next_pc :: "nat option"
  st_ts :: nat

definition state_in_out_construct :: "bool \<Rightarrow> StateInOut build" where
  "state_in_out_construct branching =
     andThen create_witin (\<lambda>pc.
     andThen (if branching then andThen create_witin (\<lambda>next_pc. ok (Some next_pc, WitIn next_pc))
              else ok (None, WitIn pc + from_unsigned PC_STEP_SIZE)) (\<lambda>(next_pc_opt, next_pc_expr).
     andThen create_witin (\<lambda>ts.
     let next_ts = WitIn ts + from_unsigned (unat SUBCYCLES_PER_INSN) in
     andThen (state_in (WitIn pc) (WitIn ts)) (\<lambda>_.
     andThen (state_out next_pc_expr next_ts) (\<lambda>_.
     ok \<lparr>st_pc = pc, st_next_pc = next_pc_opt, st_ts = ts\<rparr>)))))"

definition state_in_out_assign :: "StateInOut \<Rightarrow> StepRecord \<Rightarrow> unit assign" where
  "state_in_out_assign cfg r =
     andThen (set_u64 (st_pc cfg) (ucast (byte_addr_0 (before (rec_pc r))))) (\<lambda>_.
     andThen (case st_next_pc cfg of None \<Rightarrow> ok () | Some n_pc \<Rightarrow> set_u64 n_pc (ucast (byte_addr_0 (after (rec_pc r))))) (\<lambda>_.
     set_u64 (st_ts cfg) (rec_cycle r)))"

text \<open>\<open>ReadRS1\<close> and \<open>ReadRS2\<close> differ in the subcycle.\<close>

record ReadRS =
  rs_id :: nat
  rs_prev_ts :: nat
  rs_lt :: AssertLtConfig

definition read_rs1_construct :: "expr list \<Rightarrow> nat \<Rightarrow> ReadRS build" where
  "read_rs1_construct rs1_read cur_ts =
     andThen create_witin (\<lambda>id. andThen create_witin (\<lambda>prev_ts.
     andThen (register_read (WitIn id) (WitIn prev_ts) (WitIn cur_ts + from_unsigned (unat SUBCYCLE_RS1)) rs1_read) (\<lambda>(_, lt_cfg).
     ok \<lparr>rs_id = id, rs_prev_ts = prev_ts, rs_lt = lt_cfg\<rparr>)))"

definition read_rs1_assign :: "ReadRS \<Rightarrow> StepRecord \<Rightarrow> unit assign" where
  "read_rs1_assign cfg r =
     andThen (expect (rec_rs1 r) ''rs1 op'') (\<lambda>opn.
     andThen (set_val (rs_id cfg) (of_nat (op_register_index opn))) (\<lambda>_.
     andThen (set_u64 (rs_prev_ts cfg) (previous_cycle opn)) (\<lambda>_.
     assert_lt_assign (rs_lt cfg) (previous_cycle opn) (rec_cycle r + SUBCYCLE_RS1))))"

definition read_rs2_construct :: "expr list \<Rightarrow> nat \<Rightarrow> ReadRS build" where
  "read_rs2_construct rs2_read cur_ts =
     andThen create_witin (\<lambda>id. andThen create_witin (\<lambda>prev_ts.
     andThen (register_read (WitIn id) (WitIn prev_ts) (WitIn cur_ts + from_unsigned (unat SUBCYCLE_RS2)) rs2_read) (\<lambda>(_, lt_cfg).
     ok \<lparr>rs_id = id, rs_prev_ts = prev_ts, rs_lt = lt_cfg\<rparr>)))"

definition read_rs2_assign :: "ReadRS \<Rightarrow> StepRecord \<Rightarrow> unit assign" where
  "read_rs2_assign cfg r =
     andThen (expect (rec_rs2 r) ''rs2 op'') (\<lambda>opn.
     andThen (set_val (rs_id cfg) (of_nat (op_register_index opn))) (\<lambda>_.
     andThen (set_u64 (rs_prev_ts cfg) (previous_cycle opn)) (\<lambda>_.
     assert_lt_assign (rs_lt cfg) (previous_cycle opn) (rec_cycle r + SUBCYCLE_RS2))))"

record WriteRD =
  rd_id :: nat
  rd_prev_ts :: nat
  rd_prev_value :: UIntLimbs
  rd_lt :: AssertLtConfig

definition write_rd_construct :: "expr list \<Rightarrow> nat \<Rightarrow> WriteRD build" where
  "write_rd_construct rd_written cur_ts =
     andThen create_witin (\<lambda>id. andThen create_witin (\<lambda>prev_ts.
     andThen (uint_new_unchecked 32 16) (\<lambda>prev_value.
     andThen (register_expr prev_value) (\<lambda>prev_values.
     andThen (register_write (WitIn id) (WitIn prev_ts) (WitIn cur_ts + from_unsigned (unat SUBCYCLE_RD)) prev_values rd_written)
       (\<lambda>(_, lt_cfg).
     ok \<lparr>rd_id = id, rd_prev_ts = prev_ts, rd_prev_value = prev_value, rd_lt = lt_cfg\<rparr>)))))"

definition write_rd_assign_op :: "WriteRD \<Rightarrow> Cycle \<Rightarrow> WriteOp \<Rightarrow> unit assign" where
  "write_rd_assign_op cfg cycle opn =
     andThen (set_val (rd_id cfg) (of_nat (op_register_index opn))) (\<lambda>_.
     andThen (set_u64 (rd_prev_ts cfg) (previous_cycle opn)) (\<lambda>_.
     andThen (assign_limbs 32 16 (rd_prev_value cfg) (v_limbs (value_new_unchecked 32 (ucast (before (op_value opn)))))) (\<lambda>_.
     assert_lt_assign (rd_lt cfg) (previous_cycle opn) (cycle + SUBCYCLE_RD))))"

definition write_rd_assign :: "WriteRD \<Rightarrow> StepRecord \<Rightarrow> unit assign" where
  "write_rd_assign cfg r = andThen (expect (rec_rd r) ''rd op'') (write_rd_assign_op cfg (rec_cycle r))"

text \<open>\<open>ReadMEM\<close> and \<open>WriteMEM\<close>.\<close>

record AccessMEM =
  mem_prev_ts :: nat
  mem_lt :: AssertLtConfig

definition read_mem_construct :: "expr \<Rightarrow> expr \<Rightarrow> nat \<Rightarrow> AccessMEM build" where
  "read_mem_construct mem_addr mem_read cur_ts =
     andThen create_witin (\<lambda>prev_ts.
     andThen (memory_read mem_addr (WitIn prev_ts) (WitIn cur_ts + from_unsigned (unat SUBCYCLE_MEM)) mem_read) (\<lambda>(_, lt_cfg).
     ok \<lparr>mem_prev_ts = prev_ts, mem_lt = lt_cfg\<rparr>))"

definition read_mem_assign :: "AccessMEM \<Rightarrow> StepRecord \<Rightarrow> unit assign" where
  "read_mem_assign cfg r =
     andThen (expect (rec_memory_op r) ''unwrap'') (\<lambda>opn.
     andThen (set_u64 (mem_prev_ts cfg) (previous_cycle opn)) (\<lambda>_.
     assert_lt_assign (mem_lt cfg) (previous_cycle opn) (rec_cycle r + SUBCYCLE_MEM)))"

definition write_mem_construct :: "expr \<Rightarrow> expr \<Rightarrow> expr \<Rightarrow> nat \<Rightarrow> AccessMEM build" where
  "write_mem_construct mem_addr prev_value new_value cur_ts =
     andThen create_witin (\<lambda>prev_ts.
     andThen (memory_write mem_addr (WitIn prev_ts) (WitIn cur_ts + from_unsigned (unat SUBCYCLE_MEM)) prev_value new_value) (\<lambda>(_, lt_cfg).
     ok \<lparr>mem_prev_ts = prev_ts, mem_lt = lt_cfg\<rparr>))"

definition write_mem_assign_op :: "AccessMEM \<Rightarrow> Cycle \<Rightarrow> WriteOp \<Rightarrow> unit assign" where
  "write_mem_assign_op cfg cycle opn =
     andThen (set_u64 (mem_prev_ts cfg) (previous_cycle opn)) (\<lambda>_.
     assert_lt_assign (mem_lt cfg) (previous_cycle opn) (cycle + SUBCYCLE_MEM))"

definition write_mem_assign :: "AccessMEM \<Rightarrow> StepRecord \<Rightarrow> unit assign" where
  "write_mem_assign cfg r = andThen (expect (rec_memory_op r) ''unwrap'') (write_mem_assign_op cfg (rec_cycle r))"

subsection \<open>Addresses\<close>

record MemAddr =
  ma_addr :: UIntLimbs
  ma_low_bits :: "nat list"

definition N_LOW_BITS :: nat where "N_LOW_BITS = 2"

definition mem_addr_construct :: "nat \<Rightarrow> MemAddr build" where
  "mem_addr_construct n_zeros =
     andThen (zkvm_assert (n_zeros \<le> N_LOW_BITS) ''n_zeros <= Self::N_LOW_BITS'') (\<lambda>_.
     andThen (uint_new_unchecked 32 16) (\<lambda>addr.
     let ls = uexprs addr in
     andThen (mapM (\<lambda>_. andThen create_witin (\<lambda>b. andThen (assert_bit (WitIn b)) (\<lambda>_. ok b))) [n_zeros..<N_LOW_BITS]) (\<lambda>low_bits.
     let low_sum = sum_expr (map2 (\<lambda>pos b. shl_expr (WitIn b) pos) [n_zeros..<N_LOW_BITS] low_bits);
         shift_right = Constant (Inl (inverse (of_nat (2 ^ N_LOW_BITS))));
         mid_u14 = (ls ! 0 - low_sum) * shift_right
     in andThen (assert_ux 14 mid_u14) (\<lambda>_.
        andThen (forM (assert_ux 16) (drop 1 ls)) (\<lambda>_.
        ok \<lparr>ma_addr = addr, ma_low_bits = low_bits\<rparr>)))))"

definition construct_unaligned :: "MemAddr build" where "construct_unaligned = mem_addr_construct 0"
definition construct_align2 :: "MemAddr build" where "construct_align2 = mem_addr_construct 1"
definition construct_align4 :: "MemAddr build" where "construct_align4 = mem_addr_construct 2"

definition n_zeros :: "MemAddr \<Rightarrow> nat" where "n_zeros a = N_LOW_BITS - length (ma_low_bits a)"

definition low_bit_exprs :: "MemAddr \<Rightarrow> expr list" where
  "low_bit_exprs a = replicate (n_zeros a) 0 @ map WitIn (ma_low_bits a)"

definition expr_unaligned :: "MemAddr \<Rightarrow> expr" where "expr_unaligned a = address_expr (ma_addr a)"

definition expr_align2 :: "MemAddr \<Rightarrow> expr" where
  "expr_align2 a = address_expr (ma_addr a) - low_bit_exprs a ! 0"

definition expr_align4 :: "MemAddr \<Rightarrow> expr" where
  "expr_align4 a = (let low_bits = low_bit_exprs a in
     address_expr (ma_addr a) - low_bits ! 1 * from_unsigned 2 - low_bits ! 0)"

definition mem_addr_assign :: "MemAddr \<Rightarrow> u32 \<Rightarrow> unit assign" where
  "mem_addr_assign a addr =
     andThen (assign_value 32 16 (ma_addr a) (value_new_unchecked 32 (ucast addr))) (\<lambda>_.
     andThen (forM (\<lambda>(pos, b). set_u64 b (ucast (drop_bit pos addr AND 1))) (zip [n_zeros a..<N_LOW_BITS] (ma_low_bits a))) (\<lambda>_.
     andThen (lkm_assert_ux 14 (ucast (drop_bit N_LOW_BITS (addr AND 0xffff)))) (\<lambda>_.
     forM (\<lambda>i. lkm_assert_ux 16 (ucast (drop_bit (i * 16) addr AND 0xffff))) [1..<UINT_LIMBS])))"

subsection \<open>What accesses read and write\<close>

definition state_rec :: "gl \<Rightarrow> gl \<Rightarrow> RAMType \<times> gl list" where
  "state_rec pc ts = (GlobalState, [of_nat (ram_code GlobalState), pc, ts])"

definition reg_rec :: "gl \<Rightarrow> gl list \<Rightarrow> gl \<Rightarrow> RAMType \<times> gl list" where
  "reg_rec i v t = (Register, [of_nat (ram_code Register), i] @ v @ [t])"

definition mem_rec :: "gl \<Rightarrow> gl \<Rightarrow> gl \<Rightarrow> RAMType \<times> gl list" where
  "mem_rec a v t = (Memory, [of_nat (ram_code Memory), a, v, t])"

text \<open>The timestamp of the previous access is smaller.\<close>

definition earlier :: "gl \<Rightarrow> gl \<Rightarrow> bool" where "earlier p t \<longleftrightarrow> lt_decision UINT_LIMBS p t 1"

lemma state_in_builds [builder]:
  "builds row (state_in pc ts) (\<lambda>_ rs ws. rs = [state_rec (value_of row pc) (value_of row ts)] \<and> ws = [])"
  unfolding state_in_def
  by (rule builds_conseq [OF read_record_builds]) (simp add: state_rec_def ram_expr_def)

lemma state_out_builds [builder]:
  "builds row (state_out pc ts) (\<lambda>_ rs ws. rs = [] \<and> ws = [state_rec (value_of row pc) (value_of row ts)])"
  unfolding state_out_def
  by (rule builds_conseq [OF write_record_builds]) (simp add: state_rec_def ram_expr_def)

text \<open>The common shape of the accesses: read a record, write one, compare the timestamps.\<close>

lemma access_builds:
  assumes "challenge_free ts"
  shows "builds row (andThen (read_record mem (items @ [prev_ts])) (\<lambda>_.
      andThen (write_record mem (items' @ [ts])) (\<lambda>_.
      andThen (assert_lt_construct prev_ts ts UINT_LIMBS) (\<lambda>cfg. ok (f cfg)))))
    (\<lambda>_ rs ws. rs = [(mem, map (value_of row) items @ [value_of row prev_ts])] \<and>
       ws = [(mem, map (value_of row) items' @ [value_of row ts])] \<and> earlier (value_of row prev_ts) (value_of row ts))"
  by (rule builds_bind [OF read_record_builds], rule builds_bind [OF write_record_builds],
      rule builds_bind [OF assert_lt_builds [OF assms]], rule builds_ok) (simp add: earlier_def)

lemma register_read_builds [builder]:
  assumes "challenge_free ts"
  shows "builds row (register_read i prev_ts ts val)
    (\<lambda>_ rs ws. rs = [reg_rec (value_of row i) (map (value_of row) val) (value_of row prev_ts)] \<and>
       ws = [reg_rec (value_of row i) (map (value_of row) val) (value_of row ts)] \<and>
       earlier (value_of row prev_ts) (value_of row ts))"
  using access_builds [OF assms, where items = "[ram_expr Register, i] @ val" and items' = "[ram_expr Register, i] @ val"]
  unfolding register_read_def append_assoc
  by (rule builds_conseq) (simp add: reg_rec_def ram_expr_def)

lemma register_write_builds [builder]:
  assumes "challenge_free ts"
  shows "builds row (register_write i prev_ts ts prev_val val)
    (\<lambda>_ rs ws. rs = [reg_rec (value_of row i) (map (value_of row) prev_val) (value_of row prev_ts)] \<and>
       ws = [reg_rec (value_of row i) (map (value_of row) val) (value_of row ts)] \<and>
       earlier (value_of row prev_ts) (value_of row ts))"
proof -
  note access = access_builds [OF assms, where items = "[ram_expr Register, i] @ prev_val" and
      items' = "[ram_expr Register, i] @ val", unfolded append_assoc]
  show ?thesis unfolding register_write_def
    by (rule enforces_bind [OF enforces_assert], rule builds_conseq [OF access])
      (simp add: reg_rec_def ram_expr_def)
qed

lemma memory_read_builds [builder]:
  assumes "challenge_free ts"
  shows "builds row (memory_read addr prev_ts ts val)
    (\<lambda>_ rs ws. rs = [mem_rec (value_of row addr) (value_of row val) (value_of row prev_ts)] \<and>
       ws = [mem_rec (value_of row addr) (value_of row val) (value_of row ts)] \<and>
       earlier (value_of row prev_ts) (value_of row ts))"
  using access_builds [OF assms, where items = "[ram_expr Memory, addr] @ [val]" and items' = "[ram_expr Memory, addr] @ [val]"]
  unfolding memory_read_def append_assoc
  by (rule builds_conseq) (simp add: mem_rec_def ram_expr_def)

lemma memory_write_builds [builder]:
  assumes "challenge_free ts"
  shows "builds row (memory_write addr prev_ts ts prev_val val)
    (\<lambda>_ rs ws. rs = [mem_rec (value_of row addr) (value_of row prev_val) (value_of row prev_ts)] \<and>
       ws = [mem_rec (value_of row addr) (value_of row val) (value_of row ts)] \<and>
       earlier (value_of row prev_ts) (value_of row ts))"
  using access_builds [OF assms, where items = "[ram_expr Memory, addr] @ [prev_val]" and items' = "[ram_expr Memory, addr] @ [val]"]
  unfolding memory_write_def append_assoc
  by (rule builds_conseq) (simp add: mem_rec_def ram_expr_def)

subsection \<open>What the parts of an instruction read and write\<close>

text \<open>The timestamps of the accesses of a step.\<close>

lemmas subcycles = SUBCYCLE_RS1_def SUBCYCLE_RS2_def SUBCYCLE_RD_def SUBCYCLE_MEM_def SUBCYCLES_PER_INSN_def

lemma state_straight_builds [builder]:
  "builds row (state_in_out_construct False)
    (\<lambda>st rs ws. rs = [state_rec (wit row (st_pc st)) (wit row (st_ts st))] \<and>
       ws = [state_rec (wit row (st_pc st) + 4) (wit row (st_ts st) + 4)])"
  unfolding state_in_out_construct_def Let_def if_False andThen_ok prod.case
  by (rule enforces_bind [OF create_witin_builds], rule enforces_bind [OF create_witin_builds],
      rule builds_bind [OF state_in_builds], rule builds_bind [OF state_out_builds], rule builds_ok)
    (simp add: subcycles PC_STEP_SIZE_def)

lemma state_branching_builds [builder]:
  "builds row (state_in_out_construct True)
    (\<lambda>st rs ws. \<exists>n. st_next_pc st = Some n \<and>
       rs = [state_rec (wit row (st_pc st)) (wit row (st_ts st))] \<and>
       ws = [state_rec (wit row n) (wit row (st_ts st) + 4)])"
  unfolding state_in_out_construct_def Let_def if_True andThen_assoc andThen_ok prod.case
  by (rule enforces_bind [OF create_witin_builds], rule enforces_bind [OF create_witin_builds],
      rule enforces_bind [OF create_witin_builds],
      rule builds_bind [OF state_in_builds], rule builds_bind [OF state_out_builds], rule builds_ok)
    (simp add: subcycles)

lemma read_rs1_builds [builder]:
  "builds row (read_rs1_construct val ts)
    (\<lambda>cfg rs ws. \<exists>t. rs = [reg_rec (wit row (rs_id cfg)) (map (value_of row) val) t] \<and>
       ws = [reg_rec (wit row (rs_id cfg)) (map (value_of row) val) (wit row ts)] \<and> earlier t (wit row ts))"
  unfolding read_rs1_construct_def
  by (rule enforces_bind [OF create_witin_builds], rule enforces_bind [OF create_witin_builds],
      rule builds_bind [OF register_read_builds])
    (auto simp: subcycles intro!: builds_ok split: prod.split)

lemma read_rs2_builds [builder]:
  "builds row (read_rs2_construct val ts)
    (\<lambda>cfg rs ws. \<exists>t. rs = [reg_rec (wit row (rs_id cfg)) (map (value_of row) val) t] \<and>
       ws = [reg_rec (wit row (rs_id cfg)) (map (value_of row) val) (wit row ts + 1)] \<and> earlier t (wit row ts + 1))"
  unfolding read_rs2_construct_def
  by (rule enforces_bind [OF create_witin_builds], rule enforces_bind [OF create_witin_builds],
      rule builds_bind [OF register_read_builds])
    (auto simp: subcycles intro!: builds_ok split: prod.split)

lemma register_expr_plain [simp]: "register_expr (plain_uint (LimbWits [a, b])) = ok [WitIn a, WitIn b]"
  by (simp add: register_expr_def zkvm_assert_def andThen_ok)

lemma write_rd_builds [builder]:
  "builds row (write_rd_construct val ts)
    (\<lambda>cfg rs ws. \<exists>old0 old1 t. rs = [reg_rec (wit row (rd_id cfg)) [old0, old1] t] \<and>
       ws = [reg_rec (wit row (rd_id cfg)) (map (value_of row) val) (wit row ts + 2)] \<and> earlier t (wit row ts + 2))"
  unfolding write_rd_construct_def uint_new_unchecked_flat andThen_assoc andThen_ok register_expr_plain
  by (rule enforces_bind [OF create_witin_builds], rule enforces_bind [OF create_witin_builds],
      rule enforces_bind [OF create_witin_builds], rule enforces_bind [OF create_witin_builds],
      rule builds_bind [OF register_write_builds])
    (auto simp: subcycles intro!: builds_ok exI split: prod.split)

lemma read_mem_builds [builder]:
  "builds row (read_mem_construct addr val ts)
    (\<lambda>cfg rs ws. \<exists>t. rs = [mem_rec (value_of row addr) (value_of row val) t] \<and>
       ws = [mem_rec (value_of row addr) (value_of row val) (wit row ts + 3)] \<and> earlier t (wit row ts + 3))"
  unfolding read_mem_construct_def
  by (rule enforces_bind [OF create_witin_builds], rule builds_bind [OF memory_read_builds])
    (auto simp: subcycles intro!: builds_ok split: prod.split)

lemma write_mem_builds [builder]:
  "builds row (write_mem_construct addr old val ts)
    (\<lambda>cfg rs ws. \<exists>t. rs = [mem_rec (value_of row addr) (value_of row old) t] \<and>
       ws = [mem_rec (value_of row addr) (value_of row val) (wit row ts + 3)] \<and> earlier t (wit row ts + 3))"
  unfolding write_mem_construct_def
  by (rule enforces_bind [OF create_witin_builds], rule builds_bind [OF memory_write_builds])
    (auto simp: subcycles intro!: builds_ok split: prod.split)

subsection \<open>Addresses are words\<close>

lemma mem_addr_flat:
  "mem_addr_construct 0 = andThen create_witin (\<lambda>a. andThen create_witin (\<lambda>b.
     andThen create_witin (\<lambda>b0. andThen (assert_bit (WitIn b0)) (\<lambda>_.
     andThen create_witin (\<lambda>b1. andThen (assert_bit (WitIn b1)) (\<lambda>_.
     andThen (assert_ux 14 ((WitIn a - sum_expr [shl_expr (WitIn b0) 0, shl_expr (WitIn b1) 1]) * Constant (Inl (inverse 4)))) (\<lambda>_.
     andThen (assert_ux 16 (WitIn b)) (\<lambda>_.
     ok \<lparr>ma_addr = plain_uint (LimbWits [a, b]), ma_low_bits = [b0, b1]\<rparr>))))))))"
  "mem_addr_construct 1 = andThen create_witin (\<lambda>a. andThen create_witin (\<lambda>b.
     andThen create_witin (\<lambda>b1. andThen (assert_bit (WitIn b1)) (\<lambda>_.
     andThen (assert_ux 14 ((WitIn a - sum_expr [shl_expr (WitIn b1) 1]) * Constant (Inl (inverse 4)))) (\<lambda>_.
     andThen (assert_ux 16 (WitIn b)) (\<lambda>_.
     ok \<lparr>ma_addr = plain_uint (LimbWits [a, b]), ma_low_bits = [b1]\<rparr>))))))"
  "mem_addr_construct 2 = andThen create_witin (\<lambda>a. andThen create_witin (\<lambda>b.
     andThen (assert_ux 14 ((WitIn a - sum_expr []) * Constant (Inl (inverse 4)))) (\<lambda>_.
     andThen (assert_ux 16 (WitIn b)) (\<lambda>_.
     ok \<lparr>ma_addr = plain_uint (LimbWits [a, b]), ma_low_bits = []\<rparr>))))"
  by (simp_all add: mem_addr_construct_def N_LOW_BITS_def zkvm_assert_def uint_new_unchecked_flat upt_rec flatten andThen_unit)

definition wf_addr :: "MemAddr \<Rightarrow> bool" where
  "wf_addr a \<longleftrightarrow> (\<exists>x y. ma_addr a = plain_uint (LimbWits [x, y])) \<and>
     (\<exists>b0 b1. low_bit_exprs a = [b0, b1] \<and> challenge_free b0 \<and> challenge_free b1)"

lemma mem_addr_returns [returning]: "returns (mem_addr_construct n) wf_addr"
proof (cases "n \<le> 2")
  case True
  then have "n \<in> {0, 1, 2}" by auto
  moreover have "returns (mem_addr_construct 0) wf_addr" "returns (mem_addr_construct 1) wf_addr"
    "returns (mem_addr_construct 2) wf_addr"
    unfolding mem_addr_flat
    by (intro returns_then returns_ok; auto simp: wf_addr_def low_bit_exprs_def n_zeros_def N_LOW_BITS_def numeral_2_eq_2)+
  ultimately show ?thesis by blast
next
  case False
  then show ?thesis
    by (simp add: mem_addr_construct_def N_LOW_BITS_def zkvm_assert_def andThen_fail returns_fail)
qed

text \<open>The address is a word, with its two low bits in the expressions.\<close>

definition addr_holds :: "circuit_row \<Rightarrow> MemAddr \<Rightarrow> u32 \<Rightarrow> bool" where
  "addr_holds row a w \<longleftrightarrow> holds row (ma_addr a) w \<and>
     map (value_of row) (low_bit_exprs a) = [of_nat (unat w mod 2), of_nat (unat w div 2 mod 2)]"

lemma address_word:
  assumes "canon ((l - of_nat k) * inverse 4) < 2 ^ 14" and "k < 4" and "canon h < 2 ^ 16"
  shows "\<exists>w :: u32. [l, h] = limbs_of w \<and> unat w mod 4 = k"
proof -
  obtain m where m: "m < 2 ^ 14" "(l - of_nat k) * inverse 4 = of_nat m"
    using assms(1) by (metis of_nat_to_canonical)
  have four: "(4 :: gl) \<noteq> 0" using of_int_gl_inject [of 4 0] by (simp add: gl_modulus_def)
  have "l - of_nat k = (l - of_nat k) * inverse 4 * 4" using four by simp
  also have "\<dots> = of_nat m * 4" by (simp only: m(2))
  finally have "l = of_nat m * 4 + of_nat k" by (simp only: diff_eq_eq)
  then have l: "l = of_nat (4 * m + k)" by simp
  obtain h' where h: "h' < 2 ^ 16" "h = of_nat h'" using assms(3) by (metis of_nat_to_canonical)
  define w :: u32 where "w = of_nat (4 * m + k + 2 ^ 16 * h')"
  have less: "4 * m + k < 2 ^ 16" using m(1) assms(2) by simp
  have "4 * m + k + 2 ^ 16 * h' < 2 ^ 32" using less h(1) by simp
  then have "unat w = 4 * m + k + 2 ^ 16 * h'" unfolding w_def
    by (simp add: unat_of_nat take_bit_nat_eq_self del: of_nat_add of_nat_mult)
  then have "unat w mod 4 = (k + 4 * (m + 2 ^ 14 * h')) mod 4" by (simp add: algebra_simps)
  also have "\<dots> = k" using assms(2) by (simp only: mod_mult_self2) simp
  finally have "unat w mod 4 = k" .
  moreover have "limbs_of w = [l, h]" unfolding w_def l h(2) by (rule limbs_of_nat [OF less h(1)])
  ultimately show ?thesis by metis
qed

lemma low_bits_sum:
  "x \<in> {0, 1} \<Longrightarrow> y \<in> {0, 1} \<Longrightarrow> \<exists>k < 4. x + y * 2 = (of_nat k :: gl) \<and> x = of_nat (k mod 2) \<and> y = of_nat (k div 2)"
  by (auto intro: exI [of _ 0] exI [of _ 1] exI [of _ 2] exI [of _ 3])

lemma bit_nat: "x \<in> {0, 1} \<Longrightarrow> \<exists>k. (k = 0 \<or> k = 1) \<and> x = (of_nat k :: gl)"
  by (auto intro: exI [of _ 0] exI [of _ 1])

lemma low_two_bits: "n mod 4 = k \<Longrightarrow> n mod 2 = k mod 2 \<and> n div 2 mod 2 = k div 2" for n k :: nat
  using mod_mult2_eq [of n 2 2] by auto

lemma addr_holdsI:
  assumes "canon ((wit row a - of_nat k) * inverse 4) < 2 ^ 14" "k < 4" "canon (wit row b) < 2 ^ 16"
    and "map (value_of row) (low_bit_exprs \<lparr>ma_addr = plain_uint (LimbWits [a, b]), ma_low_bits = bs\<rparr>) =
      [of_nat (k mod 2), of_nat (k div 2)]" and "k mod 2 ^ n = 0" and "n \<le> 2"
  shows "\<exists>w. addr_holds row \<lparr>ma_addr = plain_uint (LimbWits [a, b]), ma_low_bits = bs\<rparr> w \<and> unat w mod 2 ^ n = 0"
proof -
  obtain w :: u32 where w: "[wit row a, wit row b] = limbs_of w" "unat w mod 4 = k"
    using address_word [OF assms(1-3)] by blast
  have "unat w mod 2 = k mod 2 \<and> unat w div 2 mod 2 = k div 2" using w(2) by (rule low_two_bits)
  moreover have "unat w mod 2 ^ n = 0"
  proof -
    have "(2 :: nat) ^ n dvd 2 ^ 2" using assms(6) by (rule le_imp_power_dvd)
    then have "unat w mod 4 mod 2 ^ n = unat w mod 2 ^ n" by (simp add: mod_mod_cancel)
    with w(2) assms(5) show ?thesis by simp
  qed
  ultimately show ?thesis using w(1) assms(4) by (auto simp: addr_holds_def holds_def)
qed

lemma mem_addr_builds [builder]:
  "enforces row (mem_addr_construct n) (\<lambda>a. \<exists>w. addr_holds row a w \<and> unat w mod 2 ^ n = 0)"
proof (cases "n \<le> 2")
  case True
  have 0: "enforces row (mem_addr_construct 0) (\<lambda>a. \<exists>w. addr_holds row a w \<and> unat w mod 2 ^ 0 = 0)"
    unfolding mem_addr_flat
  proof (intro enforces_bind [OF create_witin_builds] enforces_bind [OF assert_bit_builds]
      enforces_bind [OF assert_ux_builds] builds_ok impI conjI refl)
    fix a b b0 b1
    assume "value_of row (WitIn b0) \<in> {0, 1}" "value_of row (WitIn b1) \<in> {0, 1}"
      and mid: "canon (value_of row ((WitIn a - sum_expr [shl_expr (WitIn b0) 0, shl_expr (WitIn b1) 1]) *
          Constant (Inl (inverse 4)))) < 2 ^ 14"
      and high: "canon (value_of row (WitIn b)) < 2 ^ 16"
    then obtain k where "k < 4" "wit row b0 + wit row b1 * 2 = of_nat k" "wit row b0 = of_nat (k mod 2)"
      "wit row b1 = of_nat (k div 2)" using low_bits_sum [of "wit row b0" "wit row b1"] by auto
    with mid high show "\<exists>w. addr_holds row \<lparr>ma_addr = plain_uint (LimbWits [a, b]), ma_low_bits = [b0, b1]\<rparr> w \<and>
        unat w mod 2 ^ 0 = 0"
      by (intro addr_holdsI [where k = k]) (simp_all add: low_bit_exprs_def n_zeros_def N_LOW_BITS_def)
  qed simp_all
  have 1: "enforces row (mem_addr_construct 1) (\<lambda>a. \<exists>w. addr_holds row a w \<and> unat w mod 2 ^ 1 = 0)"
    unfolding mem_addr_flat
  proof (intro enforces_bind [OF create_witin_builds] enforces_bind [OF assert_bit_builds]
      enforces_bind [OF assert_ux_builds] builds_ok impI conjI refl)
    fix a b b1
    assume "value_of row (WitIn b1) \<in> {0, 1}"
      and mid: "canon (value_of row ((WitIn a - sum_expr [shl_expr (WitIn b1) 1]) * Constant (Inl (inverse 4)))) < 2 ^ 14"
      and high: "canon (value_of row (WitIn b)) < 2 ^ 16"
    then obtain k where "k = 0 \<or> k = 1" "wit row b1 = of_nat k" using bit_nat [of "wit row b1"] by auto
    with mid high show "\<exists>w. addr_holds row \<lparr>ma_addr = plain_uint (LimbWits [a, b]), ma_low_bits = [b1]\<rparr> w \<and>
        unat w mod 2 ^ 1 = 0"
      by (intro addr_holdsI [where k = "2 * k"]) (auto simp: low_bit_exprs_def n_zeros_def N_LOW_BITS_def algebra_simps)
  qed simp_all
  have 2: "enforces row (mem_addr_construct 2) (\<lambda>a. \<exists>w. addr_holds row a w \<and> unat w mod 2 ^ 2 = 0)"
    unfolding mem_addr_flat
  proof (intro enforces_bind [OF create_witin_builds] enforces_bind [OF assert_ux_builds] builds_ok impI conjI refl)
    fix a b
    assume "canon (value_of row ((WitIn a - sum_expr []) * Constant (Inl (inverse 4)))) < 2 ^ 14"
      and "canon (value_of row (WitIn b)) < 2 ^ 16"
    then show "\<exists>w. addr_holds row \<lparr>ma_addr = plain_uint (LimbWits [a, b]), ma_low_bits = []\<rparr> w \<and> unat w mod 2 ^ 2 = 0"
      by (intro addr_holdsI [where k = 0]) (simp_all add: low_bit_exprs_def n_zeros_def N_LOW_BITS_def numeral_2_eq_2)
  qed simp_all
  from True have "n = 0 \<or> n = 1 \<or> n = 2" by auto
  with 0 1 2 show ?thesis by blast
next
  case False
  then show ?thesis
    by (simp add: mem_addr_construct_def N_LOW_BITS_def zkvm_assert_def andThen_fail builds_fail)
qed

lemma addr_values:
  assumes "addr_holds row a w" and "wf_addr a"
  shows "value_of row (expr_unaligned a) = of_nat (unat w)"
    "value_of row (expr_align2 a) = of_nat (unat w div 2 * 2)"
    "value_of row (expr_align4 a) = of_nat (unat w div 4 * 4)"
proof -
  obtain n where n: "unat w = n" by blast
  have u: "value_of row (address_expr (ma_addr a)) = of_nat n"
    using assms(1) unfolding addr_holds_def address_expr_def n [symmetric] by (blast intro: holds_value)
  then show "value_of row (expr_unaligned a) = of_nat (unat w)" by (simp only: expr_unaligned_def n)
  obtain b0 b1 where b: "low_bit_exprs a = [b0, b1]" "challenge_free b0" "challenge_free b1"
    "value_of row b0 = of_nat (n mod 2)" "value_of row b1 = of_nat (n div 2 mod 2)"
    using assms n by (auto simp: addr_holds_def wf_addr_def)
  have "(of_nat n :: gl) = of_nat (n div 2 * 2 + n mod 2)" by (simp only: div_mult_mod_eq)
  then have "of_nat n - (of_nat (n mod 2) :: gl) = of_nat (n div 2) * 2"
    by (simp only: of_nat_add of_nat_mult of_nat_numeral diff_eq_eq)
  then show "value_of row (expr_align2 a) = of_nat (unat w div 2 * 2)"
    using u b unfolding n by (simp add: expr_align2_def)
  have "n = n div 4 * 4 + (n div 2 mod 2) * 2 + n mod 2"
    using mod_mult2_eq [of n 2 2, simplified] div_mult_mod_eq [of n 4] by linarith
  then have "(of_nat n :: gl) = of_nat (n div 4 * 4 + (n div 2 mod 2) * 2 + n mod 2)" by (rule arg_cong)
  then show "value_of row (expr_align4 a) = of_nat (unat w div 4 * 4)"
    using u b unfolding n by (simp add: expr_align4_def Let_def)
qed

end
