(* ===== verification/Formats.thy ===== *)
theory Formats
  imports Chips Isa
begin

text \<open>
  The common parts of the instruction circuits (\<open>ceno_zkvm/src/instructions/riscv/*_insn.rs\<close>): the state, the registers,
  the memory word and the fetched row of the program table, for every instruction format.
\<close>

definition kind_expr :: "InsnKind \<Rightarrow> expr" where "kind_expr k = from_unsigned (insn_kind_code k)"

record RInstructionConfig =
  r_state :: StateInOut
  r_rs1 :: ReadRS
  r_rs2 :: ReadRS
  r_rd :: WriteRD

definition r_insn_construct :: "InsnKind \<Rightarrow> expr list \<Rightarrow> expr list \<Rightarrow> expr list \<Rightarrow> RInstructionConfig build" where
  "r_insn_construct knd rs1_read rs2_read rd_written =
     andThen (state_in_out_construct False) (\<lambda>vm_state.
     andThen (read_rs1_construct rs1_read (st_ts vm_state)) (\<lambda>rs1.
     andThen (read_rs2_construct rs2_read (st_ts vm_state)) (\<lambda>rs2.
     andThen (write_rd_construct rd_written (st_ts vm_state)) (\<lambda>rd.
     andThen (lk_fetch (new_InsnRecord (WitIn (st_pc vm_state)) (kind_expr knd) (Some (WitIn (rd_id rd)))
       (WitIn (rs_id rs1)) (WitIn (rs_id rs2)) (from_unsigned 0))) (\<lambda>_.
     ok \<lparr>r_state = vm_state, r_rs1 = rs1, r_rs2 = rs2, r_rd = rd\<rparr>)))))"

definition r_insn_assign :: "RInstructionConfig \<Rightarrow> StepRecord \<Rightarrow> unit assign" where
  "r_insn_assign cfg r =
     andThen (state_in_out_assign (r_state cfg) r) (\<lambda>_.
     andThen (read_rs1_assign (r_rs1 cfg) r) (\<lambda>_.
     andThen (read_rs2_assign (r_rs2 cfg) r) (\<lambda>_.
     andThen (write_rd_assign (r_rd cfg) r) (\<lambda>_.
     lkm_fetch (byte_addr_0 (before (rec_pc r)))))))"

record IInstructionConfig =
  i_state :: StateInOut
  i_rs1 :: ReadRS
  i_rd :: WriteRD

definition i_insn_construct :: "InsnKind \<Rightarrow> expr \<Rightarrow> expr list \<Rightarrow> expr list \<Rightarrow> bool \<Rightarrow> IInstructionConfig build" where
  "i_insn_construct knd imm rs1_read rd_written branching =
     andThen (state_in_out_construct branching) (\<lambda>vm_state.
     andThen (read_rs1_construct rs1_read (st_ts vm_state)) (\<lambda>rs1.
     andThen (write_rd_construct rd_written (st_ts vm_state)) (\<lambda>rd.
     andThen (lk_fetch (new_InsnRecord (WitIn (st_pc vm_state)) (kind_expr knd) (Some (WitIn (rd_id rd)))
       (WitIn (rs_id rs1)) (from_unsigned 0) imm)) (\<lambda>_.
     ok \<lparr>i_state = vm_state, i_rs1 = rs1, i_rd = rd\<rparr>))))"

definition i_insn_assign :: "IInstructionConfig \<Rightarrow> StepRecord \<Rightarrow> unit assign" where
  "i_insn_assign cfg r =
     andThen (state_in_out_assign (i_state cfg) r) (\<lambda>_.
     andThen (read_rs1_assign (i_rs1 cfg) r) (\<lambda>_.
     andThen (write_rd_assign (i_rd cfg) r) (\<lambda>_.
     lkm_fetch (byte_addr_0 (before (rec_pc r))))))"

record BInstructionConfig =
  b_state :: StateInOut
  b_rs1 :: ReadRS
  b_rs2 :: ReadRS
  b_imm :: nat

definition b_insn_construct :: "InsnKind \<Rightarrow> expr list \<Rightarrow> expr list \<Rightarrow> expr \<Rightarrow> BInstructionConfig build" where
  "b_insn_construct knd rs1_read rs2_read branch_taken_bit =
     andThen (state_in_out_construct True) (\<lambda>vm_state.
     andThen (read_rs1_construct rs1_read (st_ts vm_state)) (\<lambda>rs1.
     andThen (read_rs2_construct rs2_read (st_ts vm_state)) (\<lambda>rs2.
     andThen create_witin (\<lambda>imm.
     andThen (lk_fetch (new_InsnRecord (WitIn (st_pc vm_state)) (kind_expr knd) None
       (WitIn (rs_id rs1)) (WitIn (rs_id rs2)) (WitIn imm))) (\<lambda>_.
     let pc_offset = branch_taken_bit * WitIn imm - branch_taken_bit * from_unsigned PC_STEP_SIZE + from_unsigned PC_STEP_SIZE in
     andThen (expect (st_next_pc vm_state) ''unwrap'') (\<lambda>next_pc.
     andThen (require_equal (WitIn next_pc) (WitIn (st_pc vm_state) + pc_offset)) (\<lambda>_.
     ok \<lparr>b_state = vm_state, b_rs1 = rs1, b_rs2 = rs2, b_imm = imm\<rparr>)))))))"

definition b_insn_assign :: "BInstructionConfig \<Rightarrow> StepRecord \<Rightarrow> unit assign" where
  "b_insn_assign cfg r =
     andThen (state_in_out_assign (b_state cfg) r) (\<lambda>_.
     andThen (read_rs1_assign (b_rs1 cfg) r) (\<lambda>_.
     andThen (read_rs2_assign (b_rs2 cfg) r) (\<lambda>_.
     andThen (set_val (b_imm cfg) (i64_to_base (imm_internal (rec_insn r)))) (\<lambda>_.
     lkm_fetch (byte_addr_0 (before (rec_pc r)))))))"

record JInstructionConfig =
  j_state :: StateInOut
  j_rd :: WriteRD

definition j_insn_construct :: "InsnKind \<Rightarrow> expr list \<Rightarrow> JInstructionConfig build" where
  "j_insn_construct knd rd_written =
     andThen (state_in_out_construct True) (\<lambda>vm_state.
     andThen (write_rd_construct rd_written (st_ts vm_state)) (\<lambda>rd.
     andThen (expect (st_next_pc vm_state) ''unwrap'') (\<lambda>next_pc.
     andThen (lk_fetch (new_InsnRecord (WitIn (st_pc vm_state)) (kind_expr knd) (Some (WitIn (rd_id rd)))
       (from_unsigned 0) (from_unsigned 0) (WitIn next_pc - WitIn (st_pc vm_state)))) (\<lambda>_.
     ok \<lparr>j_state = vm_state, j_rd = rd\<rparr>))))"

definition j_insn_assign :: "JInstructionConfig \<Rightarrow> StepRecord \<Rightarrow> unit assign" where
  "j_insn_assign cfg r =
     andThen (state_in_out_assign (j_state cfg) r) (\<lambda>_.
     andThen (write_rd_assign (j_rd cfg) r) (\<lambda>_.
     lkm_fetch (byte_addr_0 (before (rec_pc r)))))"

record SInstructionConfig =
  s_state :: StateInOut
  s_rs1 :: ReadRS
  s_rs2 :: ReadRS
  s_mem_write :: AccessMEM

definition s_insn_construct ::
  "InsnKind \<Rightarrow> expr \<Rightarrow> expr list \<Rightarrow> expr list \<Rightarrow> expr \<Rightarrow> expr \<Rightarrow> expr \<Rightarrow> SInstructionConfig build" where
  "s_insn_construct knd imm rs1_read rs2_read memory_addr prev_memory_value new_memory_value =
     andThen (state_in_out_construct False) (\<lambda>vm_state.
     andThen (read_rs1_construct rs1_read (st_ts vm_state)) (\<lambda>rs1.
     andThen (read_rs2_construct rs2_read (st_ts vm_state)) (\<lambda>rs2.
     andThen (lk_fetch (new_InsnRecord (WitIn (st_pc vm_state)) (kind_expr knd) None
       (WitIn (rs_id rs1)) (WitIn (rs_id rs2)) imm)) (\<lambda>_.
     andThen (write_mem_construct memory_addr prev_memory_value new_memory_value (st_ts vm_state)) (\<lambda>mem_write.
     ok \<lparr>s_state = vm_state, s_rs1 = rs1, s_rs2 = rs2, s_mem_write = mem_write\<rparr>)))))"

definition s_insn_assign :: "SInstructionConfig \<Rightarrow> StepRecord \<Rightarrow> unit assign" where
  "s_insn_assign cfg r =
     andThen (state_in_out_assign (s_state cfg) r) (\<lambda>_.
     andThen (read_rs1_assign (s_rs1 cfg) r) (\<lambda>_.
     andThen (read_rs2_assign (s_rs2 cfg) r) (\<lambda>_.
     andThen (write_mem_assign (s_mem_write cfg) r) (\<lambda>_.
     lkm_fetch (byte_addr_0 (before (rec_pc r)))))))"

record IMInstructionConfig =
  im_state :: StateInOut
  im_rs1 :: ReadRS
  im_rd :: WriteRD
  im_mem_read :: AccessMEM

definition im_insn_construct ::
  "InsnKind \<Rightarrow> expr \<Rightarrow> expr list \<Rightarrow> expr \<Rightarrow> expr \<Rightarrow> expr list \<Rightarrow> IMInstructionConfig build" where
  "im_insn_construct knd imm rs1_read mem_read_value memory_addr rd_written =
     andThen (state_in_out_construct False) (\<lambda>vm_state.
     andThen (read_rs1_construct rs1_read (st_ts vm_state)) (\<lambda>rs1.
     andThen (write_rd_construct rd_written (st_ts vm_state)) (\<lambda>rd.
     andThen (read_mem_construct memory_addr mem_read_value (st_ts vm_state)) (\<lambda>mem_read.
     andThen (lk_fetch (new_InsnRecord (WitIn (st_pc vm_state)) (kind_expr knd) (Some (WitIn (rd_id rd)))
       (WitIn (rs_id rs1)) (from_unsigned 0) imm)) (\<lambda>_.
     ok \<lparr>im_state = vm_state, im_rs1 = rs1, im_rd = rd, im_mem_read = mem_read\<rparr>)))))"

definition im_insn_assign :: "IMInstructionConfig \<Rightarrow> StepRecord \<Rightarrow> unit assign" where
  "im_insn_assign cfg r =
     andThen (state_in_out_assign (im_state cfg) r) (\<lambda>_.
     andThen (read_rs1_assign (im_rs1 cfg) r) (\<lambda>_.
     andThen (write_rd_assign (im_rd cfg) r) (\<lambda>_.
     andThen (read_mem_assign (im_mem_read cfg) r) (\<lambda>_.
     lkm_fetch (byte_addr_0 (before (rec_pc r)))))))"

subsection \<open>What the formats access\<close>

text \<open>
  The accesses of a step at timestamp \<open>ts\<close>, each a record read and a record written. An access to
  a register or a memory word reads what was written there at an earlier timestamp.
\<close>

type_synonym access = "RAMType \<times> gl list \<Rightarrow> RAMType \<times> gl list \<Rightarrow> bool"

definition keeps :: "gl \<Rightarrow> gl list \<Rightarrow> gl \<Rightarrow> access" where
  "keeps i v t rd wr \<longleftrightarrow> (\<exists>p. rd = reg_rec i v p \<and> wr = reg_rec i v t \<and> earlier p t)"

definition overwrites :: "gl \<Rightarrow> gl list \<Rightarrow> gl \<Rightarrow> access" where
  "overwrites i v t rd wr \<longleftrightarrow> (\<exists>p old0 old1. rd = reg_rec i [old0, old1] p \<and> wr = reg_rec i v t \<and> earlier p t)"

definition touches :: "gl \<Rightarrow> gl \<Rightarrow> gl \<Rightarrow> gl \<Rightarrow> access" where
  "touches a old v t rd wr \<longleftrightarrow> (\<exists>p. rd = mem_rec a old p \<and> wr = mem_rec a v t \<and> earlier p t)"

definition moves :: "gl \<Rightarrow> gl \<Rightarrow> gl \<Rightarrow> access" where
  "moves pc next ts rd wr \<longleftrightarrow> rd = state_rec pc ts \<and> wr = state_rec next (ts + 4)"

fun accesses :: "access list \<Rightarrow> ram_values \<Rightarrow> ram_values \<Rightarrow> bool" where
  "accesses [] [] [] = True"
| "accesses (P # Ps) (r # rs) (w # ws) = (P r w \<and> accesses Ps rs ws)"
| "accesses _ _ _ = False"

definition fetched :: "circuit_row \<Rightarrow> InsnKind \<Rightarrow> gl \<Rightarrow> gl \<Rightarrow> gl \<Rightarrow> gl \<Rightarrow> gl \<Rightarrow> bool" where
  "fetched row k pc rd rs1 rs2 imm \<longleftrightarrow> [pc, of_nat (insn_kind_code k), rd, rs1, rs2, imm] \<in> set (row_program row)"

lemma accesses_append: "accesses Ps rs ws \<Longrightarrow> accesses Qs rs' ws' \<Longrightarrow> accesses (Ps @ Qs) (rs @ rs') (ws @ ws')"
  by (induction Ps rs ws rule: accesses.induct) simp_all

text \<open>Every part of a format makes one access.\<close>

definition makes :: "circuit_row \<Rightarrow> 'a build \<Rightarrow> ('a \<Rightarrow> access list \<Rightarrow> bool) \<Rightarrow> bool" where
  "makes row m Q \<longleftrightarrow> builds row m (\<lambda>a rs ws. \<exists>Ps. Q a Ps \<and> accesses Ps rs ws)"

lemma makes_bind:
  assumes "makes row m Q" and "\<And>a. makes row (f a) (\<lambda>b Ps. \<forall>Qs. Q a Qs \<longrightarrow> S b (Qs @ Ps))"
  shows "makes row (andThen m f) S"
  unfolding makes_def
proof (rule builds_bind)
  show "builds row m (\<lambda>a rs ws. \<exists>Ps. Q a Ps \<and> accesses Ps rs ws)" using assms(1) by (simp add: makes_def)
  fix a
  show "builds row (f a) (\<lambda>b rs ws. \<forall>rs1 ws1. (\<exists>Ps. Q a Ps \<and> accesses Ps rs1 ws1) \<longrightarrow>
      (\<exists>Ps. S b Ps \<and> accesses Ps (rs1 @ rs) (ws1 @ ws)))"
    using assms(2) [of a] unfolding makes_def
    by (rule builds_conseq) (blast intro: accesses_append)
qed

lemma makes_enforces_bind:
  assumes "enforces row m Q" and "\<And>a. makes row (f a) (\<lambda>b Ps. Q a \<longrightarrow> S b Ps)"
  shows "makes row (andThen m f) S"
  unfolding makes_def
  by (rule enforces_bind [OF assms(1)], rule builds_conseq [OF assms(2) [unfolded makes_def]]) blast

lemma makes_ok: "Q x [] \<Longrightarrow> makes row (ok x) Q"
  unfolding makes_def by (rule builds_ok) (auto intro: exI [of _ "[]"])

lemma makes_one:
  assumes "builds row m (\<lambda>a rs ws. \<exists>r w. rs = [r] \<and> ws = [w] \<and> (\<exists>P. P r w \<and> Q a [P]))"
  shows "makes row m Q"
  unfolding makes_def
  by (rule builds_conseq [OF assms]) (force intro: exI [of _ "[_]"])

lemma makes_straight:
  "makes row (state_in_out_construct False) (\<lambda>st Ps. Ps = [moves (wit row (st_pc st)) (wit row (st_pc st) + 4) (wit row (st_ts st))])"
  by (rule makes_one, rule builds_conseq [OF state_straight_builds]) (auto simp: moves_def simp del: split_paired_Ex)

lemma makes_branching:
  "makes row (state_in_out_construct True)
    (\<lambda>st Ps. \<exists>n. st_next_pc st = Some n \<and> Ps = [moves (wit row (st_pc st)) (wit row n) (wit row (st_ts st))])"
  by (rule makes_one, rule builds_conseq [OF state_branching_builds]) (auto simp: moves_def simp del: split_paired_Ex)

lemma makes_rs1:
  "makes row (read_rs1_construct v ts) (\<lambda>cfg Ps. Ps = [keeps (wit row (rs_id cfg)) (map (value_of row) v) (wit row ts)])"
  by (rule makes_one, rule builds_conseq [OF read_rs1_builds]) (auto simp: keeps_def simp del: split_paired_Ex)

lemma makes_rs2:
  "makes row (read_rs2_construct v ts) (\<lambda>cfg Ps. Ps = [keeps (wit row (rs_id cfg)) (map (value_of row) v) (wit row ts + 1)])"
  by (rule makes_one, rule builds_conseq [OF read_rs2_builds]) (auto simp: keeps_def simp del: split_paired_Ex)

lemma makes_rd:
  "makes row (write_rd_construct v ts) (\<lambda>cfg Ps. Ps = [overwrites (wit row (rd_id cfg)) (map (value_of row) v) (wit row ts + 2)])"
  by (rule makes_one, rule builds_conseq [OF write_rd_builds]) (auto simp: overwrites_def reg_rec_def simp del: split_paired_Ex)

lemma makes_read_mem:
  "makes row (read_mem_construct a v ts) (\<lambda>cfg Ps. Ps = [touches (value_of row a) (value_of row v) (value_of row v) (wit row ts + 3)])"
  by (rule makes_one, rule builds_conseq [OF read_mem_builds]) (auto simp: touches_def simp del: split_paired_Ex)

lemma makes_write_mem:
  "makes row (write_mem_construct a old v ts) (\<lambda>cfg Ps. Ps = [touches (value_of row a) (value_of row old) (value_of row v) (wit row ts + 3)])"
  by (rule makes_one, rule builds_conseq [OF write_mem_builds]) (auto simp: touches_def simp del: split_paired_Ex)

lemma fetch_builds:
  "enforces row (lk_fetch (new_InsnRecord pc (kind_expr k) rd rs1 rs2 imm))
    (\<lambda>_. fetched row k (value_of row pc) (case rd of None \<Rightarrow> 32 | Some e \<Rightarrow> value_of row e)
       (value_of row rs1) (value_of row rs2) (value_of row imm))"
  unfolding lk_fetch_def
  by (rule builds_conseq [OF lk_record_builds])
    (simp add: looked_up_def fetched_def new_InsnRecord_def kind_expr_def rom_rows_def RD_NULL_def split: option.splits)

text \<open>The accesses of every format, and the row of the program table it fetches.\<close>

definition r_format :: "circuit_row \<Rightarrow> InsnKind \<Rightarrow> gl list \<Rightarrow> gl list \<Rightarrow> gl list \<Rightarrow> access list \<Rightarrow> bool" where
  "r_format row k a b d Ps \<longleftrightarrow> (\<exists>pc ts i1 i2 i3.
     Ps = [moves pc (pc + 4) ts, keeps i1 a ts, keeps i2 b (ts + 1), overwrites i3 d (ts + 2)] \<and>
     fetched row k pc i3 i1 i2 0)"

definition i_format :: "circuit_row \<Rightarrow> InsnKind \<Rightarrow> gl \<Rightarrow> gl \<Rightarrow> gl \<Rightarrow> gl list \<Rightarrow> gl list \<Rightarrow> access list \<Rightarrow> bool" where
  "i_format row k pc next imm a d Ps \<longleftrightarrow> (\<exists>ts i1 i3.
     Ps = [moves pc next ts, keeps i1 a ts, overwrites i3 d (ts + 2)] \<and> fetched row k pc i3 i1 0 imm)"

definition b_format :: "circuit_row \<Rightarrow> InsnKind \<Rightarrow> gl \<Rightarrow> gl list \<Rightarrow> gl list \<Rightarrow> access list \<Rightarrow> bool" where
  "b_format row k taken a b Ps \<longleftrightarrow> (\<exists>pc ts imm i1 i2.
     Ps = [moves pc (pc + (taken * imm - taken * 4 + 4)) ts, keeps i1 a ts, keeps i2 b (ts + 1)] \<and>
     fetched row k pc 32 i1 i2 imm)"

definition j_format :: "circuit_row \<Rightarrow> InsnKind \<Rightarrow> gl \<Rightarrow> gl list \<Rightarrow> access list \<Rightarrow> bool" where
  "j_format row k pc d Ps \<longleftrightarrow> (\<exists>next ts i3.
     Ps = [moves pc next ts, overwrites i3 d (ts + 2)] \<and> fetched row k pc i3 0 0 (next - pc))"

definition s_format ::
  "circuit_row \<Rightarrow> InsnKind \<Rightarrow> gl \<Rightarrow> gl list \<Rightarrow> gl list \<Rightarrow> gl \<Rightarrow> gl \<Rightarrow> gl \<Rightarrow> access list \<Rightarrow> bool" where
  "s_format row k imm a b addr old new Ps \<longleftrightarrow> (\<exists>pc ts i1 i2.
     Ps = [moves pc (pc + 4) ts, keeps i1 a ts, keeps i2 b (ts + 1), touches addr old new (ts + 3)] \<and>
     fetched row k pc 32 i1 i2 imm)"

definition im_format ::
  "circuit_row \<Rightarrow> InsnKind \<Rightarrow> gl \<Rightarrow> gl list \<Rightarrow> gl \<Rightarrow> gl \<Rightarrow> gl list \<Rightarrow> access list \<Rightarrow> bool" where
  "im_format row k imm a m addr d Ps \<longleftrightarrow> (\<exists>pc ts i1 i3.
     Ps = [moves pc (pc + 4) ts, keeps i1 a ts, overwrites i3 d (ts + 2), touches addr m m (ts + 3)] \<and>
     fetched row k pc i3 i1 0 imm)"

lemma r_insn_makes:
  "makes row (r_insn_construct k a b d)
    (\<lambda>_. r_format row k (map (value_of row) a) (map (value_of row) b) (map (value_of row) d))"
  unfolding r_insn_construct_def
  by (rule makes_bind [OF makes_straight], rule makes_bind [OF makes_rs1], rule makes_bind [OF makes_rs2],
      rule makes_bind [OF makes_rd], rule makes_enforces_bind [OF fetch_builds], rule makes_ok)
    (auto simp: r_format_def intro!: exI)

lemma i_insn_makes:
  "makes row (i_insn_construct k imm a d False)
    (\<lambda>cfg. i_format row k (wit row (st_pc (i_state cfg))) (wit row (st_pc (i_state cfg)) + 4) (value_of row imm)
       (map (value_of row) a) (map (value_of row) d))"
  unfolding i_insn_construct_def
  by (rule makes_bind [OF makes_straight], rule makes_bind [OF makes_rs1],
      rule makes_bind [OF makes_rd], rule makes_enforces_bind [OF fetch_builds], rule makes_ok)
    (auto simp: i_format_def)

lemma i_insn_branching_makes:
  "makes row (i_insn_construct k imm a d True)
    (\<lambda>cfg Ps. \<exists>n. st_next_pc (i_state cfg) = Some n \<and>
       i_format row k (wit row (st_pc (i_state cfg))) (wit row n) (value_of row imm)
       (map (value_of row) a) (map (value_of row) d) Ps)"
  unfolding i_insn_construct_def
  by (rule makes_bind [OF makes_branching], rule makes_bind [OF makes_rs1],
      rule makes_bind [OF makes_rd], rule makes_enforces_bind [OF fetch_builds], rule makes_ok)
    (auto simp: i_format_def)

lemma expect_builds [builder]: "enforces row (expect x msg) (\<lambda>v. x = Some v)"
  by (cases x) (simp_all add: expect_def builds_ok builds_fail)

lemma b_insn_makes:
  assumes "challenge_free taken"
  shows "makes row (b_insn_construct k a b taken)
    (\<lambda>_. b_format row k (value_of row taken) (map (value_of row) a) (map (value_of row) b))"
  unfolding b_insn_construct_def Let_def
  by (rule makes_bind [OF makes_branching], rule makes_bind [OF makes_rs1], rule makes_bind [OF makes_rs2],
      rule makes_enforces_bind [OF create_witin_builds], rule makes_enforces_bind [OF fetch_builds],
      rule makes_enforces_bind [OF expect_builds], rule makes_enforces_bind [OF require_equal_builds])
    (use assms in \<open>auto simp: b_format_def PC_STEP_SIZE_def intro!: makes_ok exI\<close>)

lemma j_insn_makes:
  "makes row (j_insn_construct k d)
    (\<lambda>cfg. j_format row k (wit row (st_pc (j_state cfg))) (map (value_of row) d))"
  unfolding j_insn_construct_def
  by (rule makes_bind [OF makes_branching], rule makes_bind [OF makes_rd],
      rule makes_enforces_bind [OF expect_builds], rule makes_enforces_bind [OF fetch_builds], rule makes_ok)
    (auto simp: j_format_def)

lemma s_insn_makes:
  "makes row (s_insn_construct k imm a b addr old new)
    (\<lambda>_. s_format row k (value_of row imm) (map (value_of row) a) (map (value_of row) b)
       (value_of row addr) (value_of row old) (value_of row new))"
  unfolding s_insn_construct_def
  by (rule makes_bind [OF makes_straight], rule makes_bind [OF makes_rs1], rule makes_bind [OF makes_rs2],
      rule makes_enforces_bind [OF fetch_builds], rule makes_bind [OF makes_write_mem], rule makes_ok)
    (auto simp: s_format_def)

lemma im_insn_makes:
  "makes row (im_insn_construct k imm a m addr d)
    (\<lambda>_. im_format row k (value_of row imm) (map (value_of row) a) (value_of row m)
       (value_of row addr) (map (value_of row) d))"
  unfolding im_insn_construct_def
  by (rule makes_bind [OF makes_straight], rule makes_bind [OF makes_rs1], rule makes_bind [OF makes_rd],
      rule makes_bind [OF makes_read_mem], rule makes_enforces_bind [OF fetch_builds], rule makes_ok)
    (auto simp: im_format_def)

subsection \<open>The fetched instruction\<close>

definition decoded_at :: "Program \<Rightarrow> u32 \<Rightarrow> Instruction \<Rightarrow> bool" where
  "decoded_at prog w insn \<longleftrightarrow> (\<exists>i < length (instructions prog).
     w = base_address prog + of_nat (i * PC_STEP_SIZE) \<and> insn = instructions prog ! i)"

lemma fetched_decoded:
  assumes "row_program row = program_rows n prog" and "fetched row k pc rd rs1 rs2 imm" and "k \<noteq> INVALID"
  shows "\<exists>w insn. decoded_at prog w insn \<and> insn_kind insn = k \<and> pc = of_nat (unat w) \<and>
    rd = of_nat (unat (rd_internal insn)) \<and> rs1 = of_nat (unat (rs1_or_zero insn)) \<and>
    rs2 = of_nat (unat (rs2_or_zero insn)) \<and> imm = of_int (sint (imm_internal insn))"
proof -
  have "insn_kind_code k \<noteq> 0" using insn_kind_code_inject [of k INVALID] assms(3)
    by (simp add: insn_kind_code_def insn_kinds_def)
  have small: "insn_kind_code j < 2 ^ 63" for j using insn_kind_code_less [of j] by simp
  have nonzero: "(of_nat (insn_kind_code k) :: gl) \<noteq> 0"
  proof
    assume "of_nat (insn_kind_code k) = (0 :: gl)"
    then have "canon (of_nat (insn_kind_code k)) = canon (of_nat 0)" by simp
    then show False using \<open>insn_kind_code k \<noteq> 0\<close> canon_of_nat_small [of 0]
      unfolding canon_of_nat_small [OF small] by simp
  qed
  from assms(1,2) nonzero obtain i where i: "i < length (instructions prog)"
    and row: "[pc, of_nat (insn_kind_code k), rd, rs1, rs2, imm] =
      from_decoded (base_address prog + of_nat (i * PC_STEP_SIZE)) (instructions prog ! i)"
    by (auto simp: fetched_def program_rows_def numeral_eq_Suc)
  then have "insn_kind_code k = insn_kind_code (insn_kind (instructions prog ! i))"
    using canon_of_nat_small [OF small] unfolding from_decoded_def by (metis list.inject)
  with i row show ?thesis unfolding decoded_at_def from_decoded_def
    by (intro exI [of _ "base_address prog + of_nat (i * PC_STEP_SIZE)"] exI [of _ "instructions prog ! i"])
      (auto simp: insn_kind_code_inject i64_to_base_eq)
qed

end
