(* ===== verification/Signed.thy ===== *)
theory Signed
  imports Formats
begin

text \<open>Signed values and signed comparison (\<open>ceno_zkvm/src/gadgets/signed.rs\<close>, \<open>is_lt.rs\<close>, \<open>signed_ext.rs\<close>, \<open>div.rs\<close>).\<close>

record Signed =
  sg_is_negative :: SignedExtendConfig
  sg_val :: expr

definition msb_expr :: "SignedExtendConfig \<Rightarrow> expr" where "msb_expr cfg = WitIn (msb_wit cfg)"

text \<open>The high limb of a value, \<open>*val.as_u16_limbs().last().unwrap() as u64\<close>.\<close>

definition last_limb :: "Val \<Rightarrow> (assignment, zkvm_error, u64) prog" where
  "last_limb v = (if v_limbs v = [] then fail (ZkvmPanic ''unwrap'') else ok (ucast (last (v_limbs v))))"

definition signed_construct :: "UIntLimbs \<Rightarrow> Signed build" where
  "signed_construct unsigned_val =
     andThen (is_negative unsigned_val) (\<lambda>neg.
     ok \<lparr>sg_is_negative = neg, sg_val = to_field_expr 16 unsigned_val (msb_expr neg)\<rparr>)"

definition signed_assign :: "Signed \<Rightarrow> Val \<Rightarrow> (assignment, zkvm_error, i32) prog" where
  "signed_assign s val =
     andThen (last_limb val) (\<lambda>l.
     andThen (signed_ext_assign (sg_is_negative s) l) (\<lambda>_. ok (as_u32 val)))"

text \<open>A byte or half word extended by its sign; \<open>UInt::LIMB_BITS\<close> is 16.\<close>

definition signed_extended_value :: "SignedExtendConfig \<Rightarrow> expr \<Rightarrow> ('s, zkvm_error, UIntLimbs) prog" where
  "signed_extended_value cfg val =
     (if n_bits cfg = 8 then
        ok (from_exprs_unchecked 32 16 [msb_expr cfg * from_unsigned 0xff00 + val, msb_expr cfg * from_unsigned 0xffff])
      else if n_bits cfg = 16 then ok (from_exprs_unchecked 32 16 [val, msb_expr cfg * from_unsigned 0xffff])
      else fail (ZkvmPanic ''unsupported N_BITS''))"

subsection \<open>Signed comparison\<close>

record InnerSignedLtConfig =
  is_lhs_neg :: SignedExtendConfig
  is_rhs_neg :: SignedExtendConfig
  signed_config :: InnerLtConfig

definition inner_signed_lt_construct :: "UIntLimbs \<Rightarrow> UIntLimbs \<Rightarrow> expr \<Rightarrow> InnerSignedLtConfig build" where
  "inner_signed_lt_construct lhs rhs is_lt_expr =
     andThen (is_negative lhs) (\<lambda>lhs_neg.
     andThen (is_negative rhs) (\<lambda>rhs_neg.
     andThen (inner_lt_construct (to_field_expr 16 lhs (msb_expr lhs_neg)) (to_field_expr 16 rhs (msb_expr rhs_neg))
       is_lt_expr UINT_LIMBS) (\<lambda>config.
     ok \<lparr>is_lhs_neg = lhs_neg, is_rhs_neg = rhs_neg, signed_config = config\<rparr>)))"

definition inner_signed_lt_assign :: "InnerSignedLtConfig \<Rightarrow> i32 \<Rightarrow> i32 \<Rightarrow> unit assign" where
  "inner_signed_lt_assign cfg lhs rhs =
     andThen (last_limb (value_new_unchecked 32 (ucast lhs))) (\<lambda>l.
     andThen (signed_ext_assign (is_lhs_neg cfg) l) (\<lambda>_.
     andThen (last_limb (value_new_unchecked 32 (ucast rhs))) (\<lambda>r.
     andThen (signed_ext_assign (is_rhs_neg cfg) r) (\<lambda>_.
     inner_lt_assign_i64 (signed_config cfg) (scast lhs) (scast rhs)))))"

record SignedLtConfig =
  slt_wit :: nat
  slt_config :: InnerSignedLtConfig

definition signed_lt_construct :: "UIntLimbs \<Rightarrow> UIntLimbs \<Rightarrow> SignedLtConfig build" where
  "signed_lt_construct lhs rhs =
     andThen create_witin (\<lambda>is_lt.
     andThen (assert_bit (WitIn is_lt)) (\<lambda>_.
     andThen (inner_signed_lt_construct lhs rhs (WitIn is_lt)) (\<lambda>config.
     ok \<lparr>slt_wit = is_lt, slt_config = config\<rparr>)))"

definition signed_lt_assign :: "SignedLtConfig \<Rightarrow> i32 \<Rightarrow> i32 \<Rightarrow> unit assign" where
  "signed_lt_assign cfg lhs rhs =
     andThen (set_val (slt_wit cfg) (of_bool (lhs <s rhs))) (\<lambda>_. inner_signed_lt_assign (slt_config cfg) lhs rhs)"

definition assert_signed_lt_construct :: "UIntLimbs \<Rightarrow> UIntLimbs \<Rightarrow> InnerSignedLtConfig build" where
  "assert_signed_lt_construct lhs rhs = inner_signed_lt_construct lhs rhs 1"

definition assert_signed_lt_assign :: "InnerSignedLtConfig \<Rightarrow> i32 \<Rightarrow> i32 \<Rightarrow> unit assign" where
  "assert_signed_lt_assign cfg lhs rhs = inner_signed_lt_assign cfg lhs rhs"

subsection \<open>Division gadget\<close>

record DivConfig =
  div_dividend :: UIntLimbs
  div_r_lt :: AssertLtConfig
  div_intermediate_mul :: UIntLimbs

text \<open>The divisor and the quotient are updated in place: they are returned with the configuration.\<close>

definition div_construct :: "UIntLimbs \<Rightarrow> UIntLimbs \<Rightarrow> UIntLimbs \<Rightarrow> (UIntLimbs \<times> UIntLimbs \<times> DivConfig) build" where
  "div_construct divisor quot remain =
     andThen (uint_mul_add 32 16 32 divisor quot remain True) (\<lambda>(divisor', quot', dividend, intermediate_mul).
     andThen (assert_lt_construct (uint_value 16 remain) (uint_value 16 divisor') UINT_LIMBS) (\<lambda>r_lt.
     ok (divisor', quot', \<lparr>div_dividend = dividend, div_r_lt = r_lt, div_intermediate_mul = intermediate_mul\<rparr>)))"

definition div_assign :: "DivConfig \<Rightarrow> Val \<Rightarrow> Val \<Rightarrow> Val \<Rightarrow> unit assign" where
  "div_assign cfg divisor quot remain =
     andThen (value_mul_add 32 divisor quot remain True) (\<lambda>(dividend, intermediate).
     andThen (assert_lt_assign (div_r_lt cfg) (v_val remain) (v_val divisor)) (\<lambda>_.
     andThen (assign_mul_outcome 32 16 (div_intermediate_mul cfg) intermediate) (\<lambda>_.
     assign_add_outcome 32 16 (div_dividend cfg) dividend)))"

subsection \<open>What they enforce\<close>

abbreviation pair_uint :: "nat \<Rightarrow> nat \<Rightarrow> UIntLimbs" where
  "pair_uint a b \<equiv> plain_uint (LimbWits [a, b])"

lemma msb_expr_free [simp]: "challenge_free (msb_expr cfg)"
  and msb_expr_value [simp]: "value_of row (msb_expr cfg) = wit row (msb_wit cfg)"
  by (simp_all add: msb_expr_def)

lemma signed_value:
  assumes "holds row u w" and "wit row (msb_wit neg) = of_bool (w <s 0)"
  shows "value_of row (to_field_expr 16 u (msb_expr neg)) = of_int (sint w)"
  using to_field_value [OF assms(1), of "msb_expr neg"] assms(2) by simp

lemma signed_returns [returning]: "returns (signed_construct (pair_uint a b)) (\<lambda>s. challenge_free (sg_val s))"
  unfolding signed_construct_def by (intro returns_then returns_ok) simp

lemma signed_builds [builder]:
  "enforces row (signed_construct (pair_uint a b))
    (\<lambda>s. \<forall>w. holds row (pair_uint a b) w \<longrightarrow>
       value_of row (sg_val s) = of_int (sint w) \<and> wit row (msb_wit (sg_is_negative s)) = of_bool (w <s 0))"
  unfolding signed_construct_def
  by (rule enforces_bind [OF is_negative_builds], rule builds_ok) (auto simp: signed_value)

lemma inner_signed_lt_builds:
  assumes "challenge_free c"
  shows "enforces row (inner_signed_lt_construct (pair_uint a0 a1) (pair_uint b0 b1) c)
    (\<lambda>_. \<forall>x y. holds row (pair_uint a0 a1) x \<longrightarrow> holds row (pair_uint b0 b1) y \<longrightarrow>
       lt_decision 2 (of_int (sint x)) (of_int (sint y)) (value_of row c))"
  unfolding inner_signed_lt_construct_def UINT_LIMBS_def
  by (rule enforces_bind [OF is_negative_builds], rule enforces_bind [OF is_negative_builds],
      rule enforces_bind [OF inner_lt_builds])
    (use assms in \<open>auto intro!: builds_ok simp: signed_value\<close>)

lemma lt_of_decision:
  assumes "lt_decision 2 (of_int i) (of_int j) c" and "c \<in> {0, 1}" and "\<bar>i - j\<bar> < 2 ^ 62"
  shows "c = of_bool (i < j)"
proof -
  obtain b where "c = of_bool b" using assms(2) by (metis insertE of_bool_eq(1) of_bool_eq(2) singletonD)
  with lt_decision_iff [of 2 i j b] assms show ?thesis by simp
qed

lemma signed_lt_builds [builder]:
  "enforces row (signed_lt_construct (pair_uint a0 a1) (pair_uint b0 b1))
    (\<lambda>cfg. \<forall>x y. holds row (pair_uint a0 a1) x \<longrightarrow> holds row (pair_uint b0 b1) y \<longrightarrow>
       wit row (slt_wit cfg) = of_bool (sint x < sint y))"
  unfolding signed_lt_construct_def
proof (rule enforces_bind [OF create_witin_builds], rule enforces_bind [OF assert_bit_builds],
    simp, rule enforces_bind [OF inner_signed_lt_builds], simp, rule builds_ok, intro impI conjI refl allI)
  fix w cfg x y
  assume "value_of row (WitIn w) \<in> {0, 1}" "holds row (pair_uint a0 a1) x" "holds row (pair_uint b0 b1) y"
    and "\<forall>x y. holds row (pair_uint a0 a1) x \<longrightarrow> holds row (pair_uint b0 b1) y \<longrightarrow>
       lt_decision 2 (of_int (sint x)) (of_int (sint y)) (value_of row (WitIn w))"
  moreover have "\<bar>sint x - sint y\<bar> < 2 ^ 62" using sint_bounds [of x] sint_bounds [of y] by simp
  ultimately show "wit row (slt_wit \<lparr>slt_wit = w, slt_config = cfg\<rparr>) = of_bool (sint x < sint y)"
    using lt_of_decision [of "sint x" "sint y" "wit row w"] by simp
qed

lemma uint_gap: "\<bar>uint (x :: u32) - uint (y :: u32)\<bar> < 2 ^ 62"
proof -
  have "0 \<le> uint x" "0 \<le> uint y" "uint x < 4294967296" "uint y < 4294967296"
    using sint_bounds [of x] sint_bounds [of y] by simp_all
  then have "\<bar>uint x - uint y\<bar> < 4294967296" by linarith
  then show ?thesis by simp
qed

text \<open>The unsigned comparison of two words.\<close>

lemma is_lt_words_builds:
  assumes "free_uint u" "free_uint v"
  shows "enforces row (is_lt_construct (uint_value 16 u) (uint_value 16 v) UINT_LIMBS)
    (\<lambda>cfg. \<forall>x y. holds row u x \<longrightarrow> holds row v y \<longrightarrow> wit row (is_lt_wit cfg) = of_bool (uint x < uint y))"
proof (rule builds_conseq [OF is_lt_builds], simp add: assms, intro conjI allI impI)
  fix cfg x y and rs ws :: ram_values
  assume lt: "rs = [] \<and> ws = [] \<and> (\<exists>c. wit row (is_lt_wit cfg) = of_bool c \<and>
      lt_decision UINT_LIMBS (value_of row (uint_value 16 u)) (value_of row (uint_value 16 v)) (of_bool c))"
    and h: "holds row u x" "holds row v y"
  have "(of_nat (unat w) :: gl) = of_int (uint w)" for w :: u32 by (metis of_int_of_nat_eq uint_nat)
  with lt h holds_value [OF h(1)] holds_value [OF h(2)] obtain c where "wit row (is_lt_wit cfg) = of_bool c"
    "lt_decision 2 (of_int (uint x)) (of_int (uint y)) (of_bool c)" by (metis UINT_LIMBS_def)
  moreover have "\<bar>uint x - uint y\<bar> < 2 ^ 62" by (rule uint_gap)
  ultimately show "wit row (is_lt_wit cfg) = of_bool (uint x < uint y)"
    using lt_decision_iff [of 2 "uint x" "uint y" c] by simp
qed simp_all

end
