(* ===== verification/Alu.thy ===== *)
theory Alu
  imports Signed
begin

text \<open>
  The circuits of ADD, SUB, SLT, SLTU, AND, OR and XOR (\<open>instructions/riscv/arith.rs\<close>, \<open>slt.rs\<close>,
  \<open>logic/logic_circuit.rs\<close>), what an R-type circuit promises, and the proof that these keep it.
\<close>

subsection \<open>Circuits\<close>

record ArithConfig =
  arith_r_insn :: RInstructionConfig
  arith_rs1 :: UIntLimbs
  arith_rs2 :: UIntLimbs
  arith_rd :: UIntLimbs

definition arith_construct :: "InsnKind \<Rightarrow> ArithConfig build" where
  "arith_construct knd =
     andThen (if knd = ADD then
         andThen (uint_new_unchecked 32 16) (\<lambda>rs1_read.
         andThen (uint_new_unchecked 32 16) (\<lambda>rs2_read.
         andThen (uint_add 32 16 rs1_read rs2_read True) (\<lambda>rd_written.
         ok (rs1_read, rs2_read, rd_written))))
       else if knd = SUB then
         andThen (uint_new 32 16) (\<lambda>rd_written.
         andThen (uint_new_unchecked 32 16) (\<lambda>rs2_read.
         andThen (uint_add 32 16 rs2_read rd_written True) (\<lambda>rs1_read.
         ok (rs1_read, rs2_read, rd_written))))
       else fail (ZkvmPanic ''Unsupported instruction kind'')) (\<lambda>(rs1_read, rs2_read, rd_written).
     andThen (register_expr rs1_read) (\<lambda>a.
     andThen (register_expr rs2_read) (\<lambda>b.
     andThen (register_expr rd_written) (\<lambda>d.
     andThen (r_insn_construct knd a b d) (\<lambda>r_insn.
     ok \<lparr>arith_r_insn = r_insn, arith_rs1 = rs1_read, arith_rs2 = rs2_read, arith_rd = rd_written\<rparr>)))))"

definition word_value :: "u32 \<Rightarrow> Val" where "word_value w = value_new_unchecked 32 (ucast w)"

definition arith_assign :: "InsnKind \<Rightarrow> ArithConfig \<Rightarrow> StepRecord \<Rightarrow> unit assign" where
  "arith_assign knd cfg r =
     andThen (r_insn_assign (arith_r_insn cfg) r) (\<lambda>_.
     andThen (expect (rec_rs2 r) ''unwrap'') (\<lambda>rs2.
     let rs2_read = word_value (op_value rs2) in
     andThen (assign_limbs 32 16 (arith_rs2 cfg) (v_limbs rs2_read)) (\<lambda>_.
     if knd = ADD then
       andThen (expect (rec_rs1 r) ''unwrap'') (\<lambda>rs1.
       let rs1_read = word_value (op_value rs1) in
       andThen (assign_limbs 32 16 (arith_rs1 cfg) (v_limbs rs1_read)) (\<lambda>_.
       andThen (value_add rs1_read rs2_read True) (\<lambda>result.
       assign_carries (arith_rd cfg) (map ucast (add_carries result)))))
     else if knd = SUB then
       andThen (expect (rec_rd r) ''unwrap'') (\<lambda>rd.
       andThen (value_new 32 (ucast (after (op_value rd)))) (\<lambda>rd_written.
       andThen (assign_limbs 32 16 (arith_rd cfg) (v_limbs rd_written)) (\<lambda>_.
       andThen (value_add rs2_read rd_written True) (\<lambda>result.
       assign_carries (arith_rs1 cfg) (map ucast (add_carries result))))))
     else fail (ZkvmPanic ''Unsupported instruction kind''))))"

datatype SetLessThanDependencies = DepSlt SignedLtConfig | DepSltu IsLtConfig

record SetLessThanConfig =
  slt_r_insn :: RInstructionConfig
  slt_rs1 :: UIntLimbs
  slt_rs2 :: UIntLimbs
  slt_rd :: UIntLimbs
  slt_deps :: SetLessThanDependencies

definition slt_construct :: "InsnKind \<Rightarrow> SetLessThanConfig build" where
  "slt_construct knd =
     andThen (uint_new_unchecked 32 16) (\<lambda>rs1_read.
     andThen (uint_new_unchecked 32 16) (\<lambda>rs2_read.
     andThen (if knd = SLT then
         andThen (signed_lt_construct rs1_read rs2_read) (\<lambda>signed_lt.
         ok (DepSlt signed_lt, from_exprs_unchecked 32 16 [WitIn (slt_wit signed_lt)]))
       else if knd = SLTU then
         andThen (is_lt_construct (uint_value 16 rs1_read) (uint_value 16 rs2_read) UINT_LIMBS) (\<lambda>is_lt.
         ok (DepSltu is_lt, from_exprs_unchecked 32 16 [WitIn (is_lt_wit is_lt)]))
       else fail (ZkvmPanic ''unreachable'')) (\<lambda>(deps, rd_written).
     andThen (register_expr rs1_read) (\<lambda>a.
     andThen (register_expr rs2_read) (\<lambda>b.
     andThen (register_expr rd_written) (\<lambda>d.
     andThen (r_insn_construct knd a b d) (\<lambda>r_insn.
     ok \<lparr>slt_r_insn = r_insn, slt_rs1 = rs1_read, slt_rs2 = rs2_read, slt_rd = rd_written, slt_deps = deps\<rparr>)))))))"

definition slt_assign :: "SetLessThanConfig \<Rightarrow> StepRecord \<Rightarrow> unit assign" where
  "slt_assign cfg r =
     andThen (r_insn_assign (slt_r_insn cfg) r) (\<lambda>_.
     andThen (expect (rec_rs1 r) ''unwrap'') (\<lambda>rs1_op.
     andThen (expect (rec_rs2 r) ''unwrap'') (\<lambda>rs2_op.
     let rs1 = op_value rs1_op; rs2 = op_value rs2_op in
     andThen (assign_limbs 32 16 (slt_rs1 cfg) (v_limbs (word_value rs1))) (\<lambda>_.
     andThen (assign_limbs 32 16 (slt_rs2 cfg) (v_limbs (word_value rs2))) (\<lambda>_.
     case slt_deps cfg of
       DepSlt signed_lt \<Rightarrow> signed_lt_assign signed_lt rs1 rs2
     | DepSltu is_lt \<Rightarrow> is_lt_assign is_lt (ucast rs1) (ucast rs2))))))"

fun split_u8 :: "nat \<Rightarrow> u32 \<Rightarrow> u16 list" where
  "split_u8 0 acc = []"
| "split_u8 (Suc n) acc = ucast (acc AND 0xFF) # split_u8 n (drop_bit 8 acc)"

definition split_to_u8 :: "u32 \<Rightarrow> u16 list" where "split_to_u8 v = split_u8 4 v"

record LogicConfig =
  logic_r_insn :: RInstructionConfig
  logic_rs1 :: UIntLimbs
  logic_rs2 :: UIntLimbs
  logic_rd :: UIntLimbs

definition logic_config_construct :: "InsnKind \<Rightarrow> LogicConfig build" where
  "logic_config_construct knd =
     andThen (uint_new_unchecked 32 8) (\<lambda>rs1_read.
     andThen (uint_new_unchecked 32 8) (\<lambda>rs2_read.
     andThen (uint_new_unchecked 32 8) (\<lambda>rd_written.
     andThen (register_expr8 rs1_read) (\<lambda>a.
     andThen (register_expr8 rs2_read) (\<lambda>b.
     andThen (register_expr8 rd_written) (\<lambda>d.
     andThen (r_insn_construct knd a b d) (\<lambda>r_insn.
     ok \<lparr>logic_r_insn = r_insn, logic_rs1 = rs1_read, logic_rs2 = rs2_read, logic_rd = rd_written\<rparr>)))))))"

definition logic_config_assign :: "LogicConfig \<Rightarrow> StepRecord \<Rightarrow> unit assign" where
  "logic_config_assign cfg r =
     andThen (r_insn_assign (logic_r_insn cfg) r) (\<lambda>_.
     andThen (expect (rec_rs1 r) ''unwrap'') (\<lambda>rs1.
     andThen (assign_limbs 32 8 (logic_rs1 cfg) (split_to_u8 (op_value rs1))) (\<lambda>_.
     andThen (expect (rec_rs2 r) ''unwrap'') (\<lambda>rs2.
     andThen (assign_limbs 32 8 (logic_rs2 cfg) (split_to_u8 (op_value rs2))) (\<lambda>_.
     andThen (expect (rec_rd r) ''unwrap'') (\<lambda>rd.
     assign_limbs 32 8 (logic_rd cfg) (split_to_u8 (after (op_value rd)))))))))"

text \<open>\<open>LogicOp::OpsTable\<close> of \<open>AndOp\<close>, \<open>OrOp\<close> and \<open>XorOp\<close>.\<close>

fun logic_table :: "InsnKind \<Rightarrow> ROMType" where
  "logic_table AND_K = And"
| "logic_table OR_K = Or"
| "logic_table _ = Xor"

definition logic_construct :: "InsnKind \<Rightarrow> LogicConfig build" where
  "logic_construct knd =
     andThen (logic_config_construct knd) (\<lambda>config.
     andThen (uint_logic (logic_table knd) (logic_rs1 config) (logic_rs2 config) (logic_rd config)) (\<lambda>_.
     ok config))"

definition logic_assign :: "InsnKind \<Rightarrow> LogicConfig \<Rightarrow> StepRecord \<Rightarrow> unit assign" where
  "logic_assign knd cfg r =
     andThen (expect (rec_rs1 r) ''unwrap'') (\<lambda>rs1.
     andThen (expect (rec_rs2 r) ''unwrap'') (\<lambda>rs2.
     andThen (uint_logic_assign 32 (logic_table knd) (ucast (op_value rs1)) (ucast (op_value rs2))) (\<lambda>_.
     logic_config_assign cfg r)))"

subsection \<open>The contract of an R-type circuit\<close>

text \<open>Written limbs \<open>d\<close> are those of the value the instruction set gives for the words read.\<close>

definition alu_limbs :: "InsnKind \<Rightarrow> gl list \<Rightarrow> gl list \<Rightarrow> gl list \<Rightarrow> bool" where
  "alu_limbs k a b d \<longleftrightarrow>
     (\<forall>x y. a = limbs_of x \<longrightarrow> b = limbs_of y \<longrightarrow> (\<exists>z. isa_alu k x y = Some z \<and> d = limbs_of (word_of_int z)))"

text \<open>
  One step of an R-type instruction of the program: the pc moves on by four, the operands are
  kept, and the destination is overwritten.
\<close>

abbreviation reg_of :: "u32 \<Rightarrow> gl" where "reg_of i \<equiv> of_nat (unat i)"

definition r_step :: "Program \<Rightarrow> InsnKind \<Rightarrow> ram_values \<Rightarrow> ram_values \<Rightarrow> bool" where
  "r_step prog k rs ws \<longleftrightarrow> (\<exists>pc insn ts a b d.
     decoded_at prog pc insn \<and> insn_kind insn = k \<and> alu_limbs k a b d \<and>
     accesses [moves (reg_of pc) (reg_of pc + 4) ts, keeps (reg_of (rs1_or_zero insn)) a ts,
       keeps (reg_of (rs2_or_zero insn)) b (ts + 1), overwrites (reg_of (rd_internal insn)) d (ts + 2)] rs ws)"

lemma r_format_step:
  assumes "row_program row = program_rows n prog" and "knd \<noteq> INVALID"
    and "r_format row knd a b d Ps" "alu_limbs knd a b d" "accesses Ps rs ws"
  shows "r_step prog knd rs ws"
proof -
  from assms(3,5) obtain pc ts i1 i2 i3 where
    acc: "accesses [moves pc (pc + 4) ts, keeps i1 a ts, keeps i2 b (ts + 1), overwrites i3 d (ts + 2)] rs ws"
    and fetched: "fetched row knd pc i3 i1 i2 0"
    unfolding r_format_def by blast
  from fetched_decoded [OF assms(1) fetched assms(2)] obtain w insn where "decoded_at prog w insn"
    "insn_kind insn = knd" "pc = reg_of w" "i3 = reg_of (rd_internal insn)" "i1 = reg_of (rs1_or_zero insn)"
    "i2 = reg_of (rs2_or_zero insn)" by blast
  with acc assms(4) show ?thesis unfolding r_step_def by blast
qed

locale r_circuit =
  fixes construct :: "'c build" and knd :: InsnKind
  assumes makes: "makes row construct (\<lambda>_ Ps. \<exists>a b d. r_format row knd a b d Ps \<and> alu_limbs knd a b d)"
    and valid: "knd \<noteq> INVALID"
begin

lemma executes:
  assumes "row_program row = program_rows n prog"
  shows "builds row construct (\<lambda>_ rs ws. r_step prog knd rs ws)"
  by (rule builds_conseq [OF makes [unfolded makes_def]]) (blast intro: r_format_step [OF assms valid])

end

lemma makes_conseq: "makes row m Q \<Longrightarrow> (\<And>a Ps. Q a Ps \<Longrightarrow> S a Ps) \<Longrightarrow> makes row m S"
  unfolding makes_def by (erule builds_conseq) blast

lemma makes_fail: "makes row (fail e) Q"
  unfolding makes_def by (rule builds_fail)

lemma makes_enforces_bind_returns:
  assumes "returns m P" and "enforces row m Q" and "\<And>a. P a \<Longrightarrow> makes row (f a) (\<lambda>b Ps. Q a \<longrightarrow> S b Ps)"
  shows "makes row (andThen m f) S"
  unfolding makes_def
  by (rule enforces_bind_returns [OF assms(1,2)], rule builds_conseq [OF assms(3) [unfolded makes_def]]) blast+

lemma register_expr_free: "free_uint u \<Longrightarrow> register_expr u = ok (uexprs u)"
  by (auto simp: register_expr_def zkvm_assert_def andThen_ok elim!: free_uintE)

lemma map_value_holds: "holds row u w \<longleftrightarrow> map (value_of row) (uexprs u) = limbs_of w"
  by (simp add: holds_def)

abbreviation limb_values :: "circuit_row \<Rightarrow> UIntLimbs \<Rightarrow> gl list" where
  "limb_values row u \<equiv> map (value_of row) (uexprs u)"

text \<open>The accesses of a circuit that has computed its operands and result.\<close>

lemma r_tail_makes:
  assumes "free_uint u" "free_uint v" "free_uint w"
  shows "makes row (andThen (register_expr u) (\<lambda>a. andThen (register_expr v) (\<lambda>b. andThen (register_expr w) (\<lambda>d.
      andThen (r_insn_construct k a b d) (\<lambda>r. ok (f r))))))
    (\<lambda>_. r_format row k (limb_values row u) (limb_values row v) (limb_values row w))"
  unfolding assms [THEN register_expr_free] andThen_ok
  by (rule makes_bind [OF r_insn_makes], rule makes_ok) auto

subsection \<open>Addition and subtraction\<close>

abbreviation adder :: "InsnKind \<Rightarrow> (UIntLimbs \<times> UIntLimbs \<times> UIntLimbs) build" where
  "adder knd \<equiv> (if knd = ADD then
         andThen (uint_new_unchecked 32 16) (\<lambda>rs1_read.
         andThen (uint_new_unchecked 32 16) (\<lambda>rs2_read.
         andThen (uint_add 32 16 rs1_read rs2_read True) (\<lambda>rd_written.
         ok (rs1_read, rs2_read, rd_written))))
       else if knd = SUB then
         andThen (uint_new 32 16) (\<lambda>rd_written.
         andThen (uint_new_unchecked 32 16) (\<lambda>rs2_read.
         andThen (uint_add 32 16 rs2_read rd_written True) (\<lambda>rs1_read.
         ok (rs1_read, rs2_read, rd_written))))
       else fail (ZkvmPanic ''Unsupported instruction kind''))"

lemma adder_returns: "returns (adder knd) (\<lambda>(u, v, w). free_uint u \<and> free_uint v \<and> free_uint w)"
  by (auto intro!: returns_bind [OF uint_new_unchecked_returns] returns_bind [OF uint_new_returns]
      returns_bind [OF uint_add_returns] returns_ok returns_fail)

lemma adder_builds:
  "enforces row (adder knd) (\<lambda>(u, v, w). alu_limbs knd (limb_values row u) (limb_values row v) (limb_values row w))"
proof -
  have add: "alu_limbs ADD (limb_values row u) (limb_values row v) (limb_values row w)"
    if "\<forall>x y. holds row u x \<longrightarrow> holds row v y \<longrightarrow> holds row w (x + y)" for u v w
    using that by (auto simp: alu_limbs_def holds_def)
  have sub: "alu_limbs SUB (limb_values row u) (limb_values row v) (limb_values row w)"
    if sum: "\<forall>x y. holds row v x \<longrightarrow> holds row w y \<longrightarrow> holds row u (x + y)" and "\<exists>z. holds row w z" for u v w
    unfolding alu_limbs_def
  proof (intro allI impI)
    fix x y assume "limb_values row u = limbs_of x" "limb_values row v = limbs_of y"
    moreover from that(2) obtain z where z: "holds row w z" by blast
    ultimately have "x = y + z" using sum limbs_of_inject by (metis holds_def)
    with z show "\<exists>z. isa_alu SUB x y = Some z \<and> limb_values row w = limbs_of (word_of_int z)"
      by (simp add: holds_def)
  qed
  show ?thesis
  proof (cases "knd = ADD \<or> knd = SUB")
    case True
    then show ?thesis
      by (auto intro!: enforces_bind_returns [OF uint_new_unchecked_returns uint_new_unchecked_builds]
          enforces_bind_returns [OF uint_new_returns uint_new_builds]
          enforces_bind [OF uint_add_builds] builds_ok add sub)
  next
    case False
    then show ?thesis by (simp add: builds_fail)
  qed
qed

lemma arith_makes:
  "makes row (arith_construct knd) (\<lambda>_ Ps. \<exists>a b d. r_format row knd a b d Ps \<and> alu_limbs knd a b d)"
  unfolding arith_construct_def
  by (rule makes_enforces_bind_returns [OF adder_returns adder_builds])
    (auto intro!: makes_conseq [OF r_tail_makes])

interpretation add_insn: r_circuit "arith_construct ADD" ADD by unfold_locales (rule arith_makes, simp)
interpretation sub_insn: r_circuit "arith_construct SUB" SUB by unfold_locales (rule arith_makes, simp)

subsection \<open>Set less than\<close>

text \<open>\<open>from_exprs_unchecked\<close> of a bit pads it to two limbs.\<close>

lemma bit_uint: "from_exprs_unchecked 32 16 [e] = plain_uint (LimbExprs [e, 0])"
  by (simp add: from_exprs_unchecked_def numeral_2_eq_2)

lemma limbs_of_bool: "[of_bool b, 0] = limbs_of (of_bool b)"
  by (cases b) (simp_all add: limbs_of_def)

lemma slt_makes:
  "makes row (slt_construct knd) (\<lambda>_ Ps. \<exists>a b d. r_format row knd a b d Ps \<and> alu_limbs knd a b d)"
proof -
  have bit: "free_uint (plain_uint (LimbExprs [WitIn w, 0]))" for w by (simp add: free_uint_def)
  have slt: "alu_limbs SLT [wit row a, wit row b] [wit row c, wit row d] [wit row w, 0]"
    if "\<And>x y. holds row (pair_uint a b) x \<Longrightarrow> holds row (pair_uint c d) y \<Longrightarrow> wit row w = of_bool (sint x < sint y)"
    for a b c d w
    using that by (auto simp: alu_limbs_def holds_def limbs_of_bool)
  have sltu: "alu_limbs SLTU [wit row a, wit row b] [wit row c, wit row d] [wit row w, 0]"
    if "\<And>x y. holds row (pair_uint a b) x \<Longrightarrow> holds row (pair_uint c d) y \<Longrightarrow> wit row w = of_bool (uint x < uint y)"
    for a b c d w
    using that by (auto simp: alu_limbs_def holds_def limbs_of_bool)
  show ?thesis
    unfolding slt_construct_def bit_uint
    by (rule makes_enforces_bind_returns [OF uint_new_unchecked_returns uint_new_unchecked_builds],
        rule makes_enforces_bind_returns [OF uint_new_unchecked_returns uint_new_unchecked_builds])
      (auto simp: andThen_assoc andThen_ok andThen_fail intro!: makes_fail
        makes_enforces_bind [OF signed_lt_builds] makes_enforces_bind [OF is_lt_words_builds]
        makes_conseq [OF r_tail_makes] bit slt sltu exI)
qed

interpretation slt_insn: r_circuit "slt_construct SLT" SLT by unfold_locales (rule slt_makes, simp)
interpretation sltu_insn: r_circuit "slt_construct SLTU" SLTU by unfold_locales (rule slt_makes, simp)

subsection \<open>Bytewise logic\<close>

text \<open>Operations that work on each bit by itself distribute over limbs.\<close>

locale bitwise =
  fixes f :: "nat \<Rightarrow> nat \<Rightarrow> nat"
  assumes take: "f a b mod 2 ^ n = f (a mod 2 ^ n) (b mod 2 ^ n)"
    and drop: "f a b div 2 ^ n = f (a div 2 ^ n) (b div 2 ^ n)"
begin

lemma digits:
  assumes "a < 2 ^ n" "c < 2 ^ n"
  shows "f (a + 2 ^ n * b) (c + 2 ^ n * d) = f a c + 2 ^ n * f b d"
proof -
  let ?r = "f (a + 2 ^ n * b) (c + 2 ^ n * d)"
  have "?r mod 2 ^ n = f a c" unfolding take using assms by simp
  moreover have "?r div 2 ^ n = f b d" unfolding drop using assms by simp
  ultimately show ?thesis by (metis mult_div_mod_eq add.commute)
qed

text \<open>Two words whose limbs are pairs of bytes.\<close>

lemma words:
  assumes "a0 < 2 ^ 8" "a1 < 2 ^ 8" "a2 < 2 ^ 8" "a3 < 2 ^ 8" "b0 < 2 ^ 8" "b1 < 2 ^ 8" "b2 < 2 ^ 8" "b3 < 2 ^ 8"
    and "limbs_of x = [of_nat (a0 + 2 ^ 8 * a1), of_nat (a2 + 2 ^ 8 * a3)]"
    and "limbs_of y = [of_nat (b0 + 2 ^ 8 * b1), of_nat (b2 + 2 ^ 8 * b3)]"
    and z: "unat z = f (unat x) (unat y)"
  shows "limbs_of z = [of_nat (f a0 b0 + 2 ^ 8 * f a1 b1), of_nat (f a2 b2 + 2 ^ 8 * f a3 b3)]"
proof -
  have less: "c + 2 ^ 8 * d < 2 ^ 16" if "c < 2 ^ 8" "d < 2 ^ 8" for c d :: nat using that by simp
  have eq: "unat w = c + 2 ^ 16 * d" if "limbs_of w = [of_nat c, of_nat d]" "c < 2 ^ 16" "d < 2 ^ 16" for w c d
  proof -
    from that limbs_of_nat [of c d] limbs_of_inject have w: "w = of_nat (c + 2 ^ 16 * d)" by metis
    have "c + 2 ^ 16 * d < 2 ^ 32" using that(2,3) by simp
    with w show ?thesis by (simp add: unat_of_nat take_bit_nat_eq_self del: of_nat_add of_nat_mult)
  qed
  have "unat z = f (a0 + 2 ^ 8 * a1 + 2 ^ 16 * (a2 + 2 ^ 8 * a3)) (b0 + 2 ^ 8 * b1 + 2 ^ 16 * (b2 + 2 ^ 8 * b3))"
    using eq [OF assms(9)] eq [OF assms(10)] less assms(1-8) z by simp
  also have "\<dots> = f (a0 + 2 ^ 8 * a1) (b0 + 2 ^ 8 * b1) + 2 ^ 16 * f (a2 + 2 ^ 8 * a3) (b2 + 2 ^ 8 * b3)"
    by (rule digits) (use less assms(1-8) in blast)+
  finally have z': "unat z = f a0 b0 + 2 ^ 8 * f a1 b1 + 2 ^ 16 * (f a2 b2 + 2 ^ 8 * f a3 b3)"
    using assms(1-8) by (simp only: digits)
  have byte: "f c d < 2 ^ 8" if "c < 2 ^ 8" "d < 2 ^ 8" for c d
    using that take [of c d 8] by (metis mod_less mod_less_divisor zero_less_numeral zero_less_power)
  have "of_nat (unat z) = z" by simp
  with z' have "z = of_nat (f a0 b0 + 2 ^ 8 * f a1 b1 + 2 ^ 16 * (f a2 b2 + 2 ^ 8 * f a3 b3))" by metis
  then show ?thesis using less [OF byte byte] assms(1-8) by (simp only: limbs_of_nat)
qed

end

interpretation band: bitwise "(AND)"
  by unfold_locales (simp_all flip: take_bit_eq_mod drop_bit_eq_div)

interpretation bor: bitwise "(OR)"
  by unfold_locales (simp_all flip: take_bit_eq_mod drop_bit_eq_div)

interpretation bxor: bitwise "(XOR)"
  by unfold_locales (simp_all flip: take_bit_eq_mod drop_bit_eq_div)

fun bit_op :: "InsnKind \<Rightarrow> nat \<Rightarrow> nat \<Rightarrow> nat" where
  "bit_op AND_K = (AND)"
| "bit_op OR_K = (OR)"
| "bit_op _ = (XOR)"

lemma logic_u8_builds:
  assumes "knd \<in> {AND_K, OR_K, XOR_K}"
  shows "enforces row (logic_u8 (logic_table knd) a b c) (\<lambda>_. canon (value_of row a) < 2 ^ 8 \<and>
    canon (value_of row b) < 2 ^ 8 \<and> value_of row c = of_nat (bit_op knd (canon (value_of row a)) (canon (value_of row b))))"
  using assms lookup_and_byte_builds [of row a b c] lookup_or_byte_builds [of row a b c] lookup_xor_byte_builds [of row a b c]
  unfolding lookup_and_byte_def lookup_or_byte_def lookup_xor_byte_def by auto

lemma bit_op_limbs:
  assumes "knd \<in> {AND_K, OR_K, XOR_K}"
    and bytes: "a0 < 2 ^ 8" "a1 < 2 ^ 8" "a2 < 2 ^ 8" "a3 < 2 ^ 8" "b0 < 2 ^ 8" "b1 < 2 ^ 8" "b2 < 2 ^ 8" "b3 < 2 ^ 8"
  shows "alu_limbs knd [of_nat (a0 + 2 ^ 8 * a1), of_nat (a2 + 2 ^ 8 * a3)] [of_nat (b0 + 2 ^ 8 * b1), of_nat (b2 + 2 ^ 8 * b3)]
    [of_nat (bit_op knd a0 b0 + 2 ^ 8 * bit_op knd a1 b1), of_nat (bit_op knd a2 b2 + 2 ^ 8 * bit_op knd a3 b3)]"
  unfolding alu_limbs_def
proof (intro allI impI)
  fix x y
  assume x: "[of_nat (a0 + 2 ^ 8 * a1), of_nat (a2 + 2 ^ 8 * a3)] = limbs_of x"
    and y: "[of_nat (b0 + 2 ^ 8 * b1), of_nat (b2 + 2 ^ 8 * b3)] = limbs_of y"
  consider "knd = AND_K" | "knd = OR_K" | "knd = XOR_K" using assms(1) by blast
  then show "\<exists>z. isa_alu knd x y = Some z \<and>
      [of_nat (bit_op knd a0 b0 + 2 ^ 8 * bit_op knd a1 b1), of_nat (bit_op knd a2 b2 + 2 ^ 8 * bit_op knd a3 b3)] = limbs_of (word_of_int z)"
  proof cases
    case 1
    from band.words [OF bytes x [symmetric] y [symmetric] unsigned_and_eq] show ?thesis
      by (simp add: 1 word_of_int_bits)
  next
    case 2
    from bor.words [OF bytes x [symmetric] y [symmetric] unsigned_or_eq] show ?thesis
      by (simp add: 2 word_of_int_bits)
  next
    case 3
    from bxor.words [OF bytes x [symmetric] y [symmetric] unsigned_xor_eq] show ?thesis
      by (simp add: 3 word_of_int_bits)
  qed
qed

lemma uint8_new_unchecked_flat:
  "uint_new_unchecked 32 8 = andThen create_witin (\<lambda>a. andThen create_witin (\<lambda>b. andThen create_witin (\<lambda>c.
     andThen create_witin (\<lambda>d. ok (plain_uint (LimbWits [a, b, c, d]))))))"
  by (simp add: uint_new_unchecked_def uint_new_maybe_unchecked_def upt_4 flatten)

lemma uint8_new_unchecked_returns: "returns (uint_new_unchecked 32 8) (\<lambda>u. \<exists>a b c d. u = plain_uint (LimbWits [a, b, c, d]))"
  unfolding uint8_new_unchecked_flat by (intro returns_then returns_ok) blast

lemma uint8_new_unchecked_builds: "enforces row (uint_new_unchecked 32 8) (\<lambda>_. True)"
  unfolding uint8_new_unchecked_flat
  by (intro enforces_bind [OF create_witin_builds] builds_ok) simp

lemma register_expr8_plain:
  "register_expr8 (plain_uint (LimbWits [a, b, c, d])) =
    ok [WitIn a + WitIn b * from_unsigned 256, WitIn c + WitIn d * from_unsigned 256]"
  by (simp add: register_expr8_def zkvm_assert_def andThen_ok numeral_2_eq_2)

lemma uint_logic_flat:
  "uint_logic t (plain_uint (LimbWits [a0, a1, a2, a3])) (plain_uint (LimbWits [b0, b1, b2, b3])) (plain_uint (LimbWits [c0, c1, c2, c3])) =
    andThen (logic_u8 t (WitIn a0) (WitIn b0) (WitIn c0)) (\<lambda>_. andThen (logic_u8 t (WitIn a1) (WitIn b1) (WitIn c1)) (\<lambda>_.
    andThen (logic_u8 t (WitIn a2) (WitIn b2) (WitIn c2)) (\<lambda>_. logic_u8 t (WitIn a3) (WitIn b3) (WitIn c3))))"
  by (simp add: uint_logic_def limb_wits_def plain_uint_def flatten andThen_unit)

lemma byte_pair: "wit row a + wit row b * 256 = of_nat (canon (wit row a) + 2 ^ 8 * canon (wit row b))"
  by simp

lemma logic_makes:
  assumes "knd \<in> {AND_K, OR_K, XOR_K}"
  shows "makes row (logic_construct knd) (\<lambda>_ Ps. \<exists>a b d. r_format row knd a b d Ps \<and> alu_limbs knd a b d)"
proof -
  have tail: "makes row (andThen (register_expr8 (plain_uint (LimbWits [a0, a1, a2, a3]))) (\<lambda>a.
      andThen (register_expr8 (plain_uint (LimbWits [b0, b1, b2, b3]))) (\<lambda>b.
      andThen (register_expr8 (plain_uint (LimbWits [c0, c1, c2, c3]))) (\<lambda>d.
      andThen (r_insn_construct knd a b d) (\<lambda>r.
      andThen (uint_logic (logic_table knd) (plain_uint (LimbWits [a0, a1, a2, a3])) (plain_uint (LimbWits [b0, b1, b2, b3]))
        (plain_uint (LimbWits [c0, c1, c2, c3]))) (\<lambda>_. ok (f r)))))))
    (\<lambda>_ Ps. \<exists>a b d. r_format row knd a b d Ps \<and> alu_limbs knd a b d)" for a0 a1 a2 a3 b0 b1 b2 b3 c0 c1 c2 c3 f
    unfolding register_expr8_plain andThen_ok uint_logic_flat andThen_assoc
  proof (rule makes_bind [OF r_insn_makes], (rule makes_enforces_bind [OF logic_u8_builds [OF assms]])+, rule makes_ok, safe)
    fix Qs
    assume fmt: "r_format row knd (map (value_of row) [WitIn a0 + WitIn a1 * from_unsigned 256, WitIn a2 + WitIn a3 * from_unsigned 256])
        (map (value_of row) [WitIn b0 + WitIn b1 * from_unsigned 256, WitIn b2 + WitIn b3 * from_unsigned 256])
        (map (value_of row) [WitIn c0 + WitIn c1 * from_unsigned 256, WitIn c2 + WitIn c3 * from_unsigned 256]) Qs"
      and bytes: "canon (value_of row (WitIn a0)) < 2 ^ 8" "canon (value_of row (WitIn a1)) < 2 ^ 8"
        "canon (value_of row (WitIn a2)) < 2 ^ 8" "canon (value_of row (WitIn a3)) < 2 ^ 8"
        "canon (value_of row (WitIn b0)) < 2 ^ 8" "canon (value_of row (WitIn b1)) < 2 ^ 8"
        "canon (value_of row (WitIn b2)) < 2 ^ 8" "canon (value_of row (WitIn b3)) < 2 ^ 8"
      and c: "value_of row (WitIn c0) = of_nat (bit_op knd (canon (value_of row (WitIn a0))) (canon (value_of row (WitIn b0))))"
        "value_of row (WitIn c1) = of_nat (bit_op knd (canon (value_of row (WitIn a1))) (canon (value_of row (WitIn b1))))"
        "value_of row (WitIn c2) = of_nat (bit_op knd (canon (value_of row (WitIn a2))) (canon (value_of row (WitIn b2))))"
        "value_of row (WitIn c3) = of_nat (bit_op knd (canon (value_of row (WitIn a3))) (canon (value_of row (WitIn b3))))"
    from bit_op_limbs [OF assms bytes] c
    have "alu_limbs knd [wit row a0 + wit row a1 * 256, wit row a2 + wit row a3 * 256]
        [wit row b0 + wit row b1 * 256, wit row b2 + wit row b3 * 256] [wit row c0 + wit row c1 * 256, wit row c2 + wit row c3 * 256]"
      by (simp add: mult.commute)
    with fmt show "\<exists>a b d. r_format row knd a b d (Qs @ []) \<and> alu_limbs knd a b d" by auto
  qed
  show ?thesis
    unfolding logic_construct_def logic_config_construct_def andThen_assoc
    by (rule makes_enforces_bind_returns [OF uint8_new_unchecked_returns uint8_new_unchecked_builds],
        rule makes_enforces_bind_returns [OF uint8_new_unchecked_returns uint8_new_unchecked_builds],
        rule makes_enforces_bind_returns [OF uint8_new_unchecked_returns uint8_new_unchecked_builds])
      (use tail in \<open>auto simp: andThen_ok\<close>)
qed

interpretation and_insn: r_circuit "logic_construct AND_K" AND_K by unfold_locales (rule logic_makes, simp_all)
interpretation or_insn: r_circuit "logic_construct OR_K" OR_K by unfold_locales (rule logic_makes, simp_all)
interpretation xor_insn: r_circuit "logic_construct XOR_K" XOR_K by unfold_locales (rule logic_makes, simp_all)

end
