(* ===== verification/Mul.thy ===== *)
theory Mul
  imports Alu
begin

text \<open>
  The circuits of MUL, MULH, MULHU and MULHSU (\<open>instructions/riscv/mul.rs\<close>). The assertions on the limb
  width and on the modulus hold by the choice of parameters and are left out.
\<close>

datatype MulhSignDependencies =
    DepLL IsZeroConfig
  | DepUU IsZeroConfig
  | DepSU Signed Signed IsZeroConfig
  | DepSS Signed Signed Signed

record MulhConfig =
  mulh_rs1 :: UIntLimbs
  mulh_rs2 :: UIntLimbs
  mulh_rd :: UIntLimbs
  mulh_sign_deps :: MulhSignDependencies
  mulh_r_insn :: RInstructionConfig
  mulh_prod_lo_hi :: UIntLimbs

text \<open>Step 1: the values of the operands and of the result, and the other half of the product.\<close>

definition mul_operands ::
  "InsnKind \<Rightarrow> UIntLimbs \<Rightarrow> UIntLimbs \<Rightarrow> UIntLimbs \<Rightarrow> (expr \<times> expr \<times> expr \<times> MulhSignDependencies \<times> UIntLimbs) build" where
  "mul_operands knd rs1_read rs2_read rd_written =
     (if knd = MULH then
        andThen (signed_construct rs1_read) (\<lambda>rs1_signed.
        andThen (signed_construct rs2_read) (\<lambda>rs2_signed.
        andThen (signed_construct rd_written) (\<lambda>rd_signed.
        andThen (uint_new 32 16) (\<lambda>prod_low.
        ok (sg_val rs1_signed, sg_val rs2_signed, sg_val rd_signed, DepSS rs1_signed rs2_signed rd_signed, prod_low)))))
      else if knd = MULHU then
        andThen (uint_new 32 16) (\<lambda>prod_low.
        andThen (non_equal_construct (uint_value 16 rd_written) (from_unsigned (2 ^ 32 - 1))) (\<lambda>constrain_rd.
        ok (uint_value 16 rs1_read, uint_value 16 rs2_read, uint_value 16 rd_written, DepUU constrain_rd, prod_low)))
      else if knd = MUL then
        andThen (uint_new 32 16) (\<lambda>prod_hi.
        andThen (non_equal_construct (uint_value 16 prod_hi) (from_unsigned (2 ^ 32 - 1))) (\<lambda>constrain_rd.
        ok (uint_value 16 rs1_read, uint_value 16 rs2_read, uint_value 16 rd_written, DepLL constrain_rd, prod_hi)))
      else if knd = MULHSU then
        andThen (signed_construct rs1_read) (\<lambda>rs1_signed.
        andThen (signed_construct rd_written) (\<lambda>rd_signed.
        andThen (uint_new 32 16) (\<lambda>prod_low.
        andThen (non_equal_construct (sg_val rd_signed) (from_unsigned (2 ^ 31 - 1))) (\<lambda>constrain_rd.
        ok (sg_val rs1_signed, uint_value 16 rs2_read, sg_val rd_signed, DepSU rs1_signed rd_signed constrain_rd, prod_low)))))
      else fail (ZkvmPanic ''Unsupported instruction kind''))"

definition mul_construct :: "InsnKind \<Rightarrow> MulhConfig build" where
  "mul_construct knd =
     andThen (uint_new_unchecked 32 16) (\<lambda>rs1_read.
     andThen (uint_new_unchecked 32 16) (\<lambda>rs2_read.
     andThen (uint_new 32 16) (\<lambda>rd_written.
     andThen (register_expr rs1_read) (\<lambda>a.
     andThen (register_expr rs2_read) (\<lambda>b.
     andThen (register_expr rd_written) (\<lambda>d.
     andThen (r_insn_construct knd a b d) (\<lambda>r_insn.
     andThen (mul_operands knd rs1_read rs2_read rd_written) (\<lambda>(rs1_val, rs2_val, rd_val, sign_deps, prod_lo_hi).
     andThen (if knd = MUL then require_equal (rs1_val * rs2_val) (shl_expr (uint_value 16 prod_lo_hi) 32 + rd_val)
              else if knd \<in> {MULHU, MULHSU, MULH} then require_equal (rs1_val * rs2_val) (shl_expr rd_val 32 + uint_value 16 prod_lo_hi)
              else fail (ZkvmPanic ''Unsupported instruction kind'')) (\<lambda>_.
     ok \<lparr>mulh_rs1 = rs1_read, mulh_rs2 = rs2_read, mulh_rd = rd_written, mulh_sign_deps = sign_deps,
         mulh_r_insn = r_insn, mulh_prod_lo_hi = prod_lo_hi\<rparr>)))))))))"

definition mul_assign :: "MulhConfig \<Rightarrow> StepRecord \<Rightarrow> unit assign" where
  "mul_assign cfg r =
     andThen (expect (rec_rs1 r) ''unwrap'') (\<lambda>rs1_op.
     let rs1 = op_value rs1_op; rs1_val = word_value rs1 in
     andThen (assign_limbs 32 16 (mulh_rs1 cfg) (v_limbs rs1_val)) (\<lambda>_.
     andThen (expect (rec_rs2 r) ''unwrap'') (\<lambda>rs2_op.
     let rs2 = op_value rs2_op; rs2_val = word_value rs2 in
     andThen (assign_limbs 32 16 (mulh_rs2 cfg) (v_limbs rs2_val)) (\<lambda>_.
     andThen (expect (rec_rd r) ''unwrap'') (\<lambda>rd_op.
     let rd = after (op_value rd_op) in
     andThen (value_new 32 (ucast rd)) (\<lambda>rd_val.
     andThen (assign_limbs 32 16 (mulh_rd cfg) (v_limbs rd_val)) (\<lambda>_.
     andThen (r_insn_assign (mulh_r_insn cfg) r) (\<lambda>_.
     andThen (case mulh_sign_deps cfg of
         DepSS rs1_signed rs2_signed rd_signed \<Rightarrow>
           andThen (signed_assign rs1_signed rs1_val) (\<lambda>rs1_s.
           andThen (signed_assign rs2_signed rs2_val) (\<lambda>rs2_s.
           andThen (signed_assign rd_signed rd_val) (\<lambda>_. ok (rs1_s * rs2_s))))
       | DepUU constrain_rd \<Rightarrow>
           andThen (is_equal_assign constrain_rd (of_nat (unat rd)) (of_nat (2 ^ 32 - 1))) (\<lambda>_. ok (rs1 * rs2))
       | DepLL constrain_rd \<Rightarrow>
           let prod = v_val rs1_val * v_val rs2_val; prod_hi = drop_bit 32 prod in
           andThen (zkvm_assert ((ucast prod :: u32) = rd) ''prod_lo == rd'') (\<lambda>_.
           andThen (is_equal_assign constrain_rd (of_nat (unat prod_hi)) (of_nat (2 ^ 32 - 1))) (\<lambda>_. ok (ucast prod_hi)))
       | DepSU rs1_signed rd_signed constrain_rd \<Rightarrow>
           andThen (signed_assign rs1_signed rs1_val) (\<lambda>rs1_s.
           andThen (signed_assign rd_signed rd_val) (\<lambda>rd_s.
           andThen (is_equal_assign constrain_rd (i64_to_base (scast rd_s)) (i64_to_base (2 ^ 31 - 1))) (\<lambda>_. ok (rs2 * rs1_s))))) (\<lambda>prod_lo_hi.
     andThen (value_new 32 (ucast prod_lo_hi)) (\<lambda>prod_lo_hi_val.
     assign_limbs 32 16 (mulh_prod_lo_hi cfg) (v_limbs prod_lo_hi_val)))))))))))"

subsection \<open>Products\<close>

text \<open>Integers congruent modulo the field's prime are equal when they are closer than that.\<close>

lemma gl_eq_int: "(of_int a :: gl) = of_int b \<Longrightarrow> \<bar>a - b\<bar> < 18446744069414584321 \<Longrightarrow> a = b"
  using of_int_gl_inject [of a b] by (simp add: gl_modulus_def)

lemma uint_bound: "0 \<le> uint (w :: u32)" "uint w \<le> 4294967295"
  using uint_lt2p [of w] by simp_all

lemma sint_bound: "- 2147483648 \<le> sint (w :: u32)" "sint w \<le> 2147483647"
  using sint_bounds [of w] by simp_all

lemma unsigned_product:
  fixes x y hi lo :: u32
  assumes "(of_int (uint x * uint y) :: gl) = of_int (uint hi * 4294967296 + uint lo)" and "uint hi \<noteq> 4294967295"
  shows "uint x * uint y = uint hi * 4294967296 + uint lo"
proof -
  have "0 \<le> uint x * uint y" by (simp add: mult_nonneg_nonneg)
  moreover have "uint x * uint y \<le> 4294967295 * 4294967295"
    by (rule mult_mono) (use uint_bound in simp_all)
  moreover have "0 \<le> uint hi" "uint hi \<le> 4294967294" "0 \<le> uint lo" "uint lo \<le> 4294967295"
    using uint_bound [of hi] uint_bound [of lo] assms(2) by linarith+
  ultimately show ?thesis using assms(1) by (intro gl_eq_int) linarith+
qed

lemma signed_product_bound:
  fixes a b :: int
  assumes "\<bar>a\<bar> \<le> 2147483648" "\<bar>b\<bar> \<le> 2147483648"
  shows "\<bar>a * b\<bar> \<le> 4611686018427387904"
  using mult_mono [OF assms] by (simp add: abs_mult)

lemma signed_product:
  fixes x y hi lo :: u32
  assumes "(of_int (sint x * sint y) :: gl) = of_int (sint hi * 4294967296 + uint lo)"
  shows "sint x * sint y = sint hi * 4294967296 + uint lo"
proof -
  have "\<bar>sint x * sint y\<bar> \<le> 4611686018427387904"
    by (rule signed_product_bound) (use sint_bound [of x] sint_bound [of y] in linarith)+
  then show ?thesis using assms sint_bound [of hi] uint_bound [of lo] by (intro gl_eq_int) linarith+
qed

lemma mixed_product:
  fixes x y hi lo :: u32
  assumes "(of_int (sint x * uint y) :: gl) = of_int (sint hi * 4294967296 + uint lo)" and "sint hi \<noteq> 2147483647"
  shows "sint x * uint y = sint hi * 4294967296 + uint lo"
proof -
  have "- 2147483648 * uint y \<le> sint x * uint y" "sint x * uint y \<le> 2147483647 * uint y"
    by (rule mult_right_mono; use sint_bound [of x] uint_bound [of y] in linarith)+
  then show ?thesis
    using assms sint_bound [of hi] uint_bound [of lo] uint_bound [of y] by (intro gl_eq_int) linarith+
qed

lemma high_half: "p = h * 4294967296 + uint (lo :: u32) \<Longrightarrow> p div 2 ^ 32 = h" for p h :: int
  using uint_bound [of lo] by simp

lemma low_half: "p = h * 4294967296 + uint (lo :: u32) \<Longrightarrow> word_of_int p = lo" for p h :: int
proof -
  assume "p = h * 4294967296 + uint lo"
  then have "word_of_int p = word_of_int h * (word_of_int 4294967296 :: u32) + lo" by simp
  moreover have "(4294967296 :: int) = 2 ^ 32" by simp
  then have "(word_of_int 4294967296 :: u32) = 0" by (simp only:) simp
  ultimately show ?thesis by (metis mult_zero_right add_0)
qed

lemma uint_value_holds: "holds row u w \<Longrightarrow> value_of row (uint_value 16 u) = of_int (uint w)"
  using holds_value [of row u w] by (metis of_int_of_nat_eq uint_nat)

lemma of_uint_inject: "(of_int (uint (w :: u32)) :: gl) = of_int k \<longleftrightarrow> uint w = k" if "0 \<le> k" "k < 4294967296"
proof -
  have "\<bar>uint w - k\<bar> < 18446744069414584321" using that uint_bound [of w] by linarith
  then show ?thesis using gl_eq_int [of "uint w" k] by blast
qed

lemma of_sint_inject: "(of_int (sint (w :: u32)) :: gl) = of_int k \<longleftrightarrow> sint w = k" if "- 4294967296 \<le> k" "k < 4294967296"
proof -
  have "\<bar>sint w - k\<bar> < 18446744069414584321" using that sint_bound [of w] by linarith
  then show ?thesis using gl_eq_int [of "sint w" k] by blast
qed

fun mul_values :: "InsnKind \<Rightarrow> u32 \<Rightarrow> u32 \<Rightarrow> u32 \<Rightarrow> u32 \<Rightarrow> gl \<Rightarrow> gl \<Rightarrow> gl \<Rightarrow> bool" where
  "mul_values MUL x y z l a b d \<longleftrightarrow> a = of_int (uint x) \<and> b = of_int (uint y) \<and> d = of_int (uint z) \<and> uint l \<noteq> 4294967295"
| "mul_values MULHU x y z l a b d \<longleftrightarrow> a = of_int (uint x) \<and> b = of_int (uint y) \<and> d = of_int (uint z) \<and> uint z \<noteq> 4294967295"
| "mul_values MULH x y z l a b d \<longleftrightarrow> a = of_int (sint x) \<and> b = of_int (sint y) \<and> d = of_int (sint z)"
| "mul_values MULHSU x y z l a b d \<longleftrightarrow> a = of_int (sint x) \<and> b = of_int (uint y) \<and> d = of_int (sint z) \<and> sint z \<noteq> 2147483647"
| "mul_values _ x y z l a b d \<longleftrightarrow> False"

lemma mul_result:
  assumes "mul_values knd x y z l a b d"
    and "a * b = (if knd = MUL then of_int (uint l) * 4294967296 + d else d * 4294967296 + of_int (uint l))"
  shows "\<exists>r. isa_alu knd x y = Some r \<and> z = word_of_int r"
proof -
  consider "knd = MUL" | "knd = MULHU" | "knd = MULH" | "knd = MULHSU" using assms(1) by (cases knd) auto
  then show ?thesis
  proof cases
    case 1
    with assms have "uint x * uint y = uint l * 4294967296 + uint z" by (intro unsigned_product) (simp_all del: of_int_uint)
    from low_half [OF this] show ?thesis using 1 by simp
  next
    case 2
    with assms have "uint x * uint y = uint z * 4294967296 + uint l" by (intro unsigned_product) (simp_all del: of_int_uint)
    from high_half [OF this] show ?thesis using 2 by simp
  next
    case 3
    with assms have "sint x * sint y = sint z * 4294967296 + uint l" by (intro signed_product) (simp_all del: of_int_uint of_int_sint)
    from high_half [OF this] show ?thesis using 3 by simp
  next
    case 4
    with assms have "sint x * uint y = sint z * 4294967296 + uint l" by (intro mixed_product) (simp_all del: of_int_uint of_int_sint)
    from high_half [OF this] show ?thesis using 4 by simp
  qed
qed

lemma non_equal_returns: "returns (non_equal_construct a b) (\<lambda>_. True)"
  by (rule returns_any)

lemma mul_operands_returns:
  "returns (mul_operands knd (pair_uint a0 a1) (pair_uint b0 b1) (pair_uint d0 d1))
    (\<lambda>(a, b, d, _, p). challenge_free a \<and> challenge_free b \<and> challenge_free d \<and> free_uint p)"
  unfolding mul_operands_def
  by (auto intro!: returns_bind [OF signed_returns] returns_bind [OF uint_new_returns] returns_bind [OF non_equal_returns] returns_ok returns_fail)

lemma mul_operands_builds:
  "enforces row (mul_operands knd (pair_uint a0 a1) (pair_uint b0 b1) (pair_uint d0 d1))
    (\<lambda>(a, b, d, _, p). \<exists>l. holds row p l \<and> (\<forall>x y z. holds row (pair_uint a0 a1) x \<longrightarrow> holds row (pair_uint b0 b1) y \<longrightarrow>
       holds row (pair_uint d0 d1) z \<longrightarrow> mul_values knd x y z l (value_of row a) (value_of row b) (value_of row d)))"
proof -
  have max: "(4294967295 :: gl) = of_int 4294967295" "(2147483647 :: gl) = of_int 2147483647" by simp_all
  note vals = uint_value_holds of_uint_inject of_sint_inject
  consider "knd = MULH" | "knd = MULHU" | "knd = MUL" | "knd = MULHSU" | "knd \<notin> {MUL, MULH, MULHU, MULHSU}" by blast
  then show ?thesis
  proof cases
    case 1
    show ?thesis unfolding 1 mul_operands_def
      by (simp, intro enforces_bind [OF signed_builds] enforces_bind [OF uint_new_builds] builds_ok) auto
  next
    case 2
    show ?thesis unfolding 2 mul_operands_def
      by (simp, intro enforces_bind_returns [OF uint_new_returns uint_new_builds] enforces_bind [OF non_equal_construct_builds] builds_ok)
        (auto simp: vals max simp del: of_int_uint of_int_sint of_int_numeral, simp_all)
  next
    case 3
    show ?thesis unfolding 3 mul_operands_def
      by (simp, intro enforces_bind_returns [OF uint_new_returns uint_new_builds] enforces_bind [OF non_equal_construct_builds] builds_ok)
        (auto simp: vals max simp del: of_int_uint of_int_sint of_int_numeral, simp_all, blast)
  next
    case 4
    show ?thesis unfolding 4 mul_operands_def
      by (simp, intro enforces_bind_returns [OF signed_returns signed_builds] enforces_bind_returns [OF uint_new_returns uint_new_builds]
          enforces_bind [OF non_equal_construct_builds] builds_ok)
        (auto simp: vals max simp del: of_int_uint of_int_sint of_int_numeral, simp_all)
  next
    case 5
    then show ?thesis by (simp add: mul_operands_def builds_fail)
  qed
qed

lemma mul_makes:
  assumes "knd \<in> {MUL, MULH, MULHU, MULHSU}"
  shows "makes row (mul_construct knd) (\<lambda>_ Ps. \<exists>a b d. r_format row knd a b d Ps \<and> alu_limbs knd a b d)"
proof -
  define equation where "equation a b d p = (if knd = MUL then require_equal (a * b) (shl_expr (uint_value 16 p) 32 + d)
    else require_equal (a * b) (shl_expr d 32 + uint_value 16 p))" for a b d p
  have eq: "(if knd = MUL then require_equal (a * b) (shl_expr (uint_value 16 p) 32 + d)
      else if knd \<in> {MULHU, MULHSU, MULH} then require_equal (a * b) (shl_expr d 32 + uint_value 16 p)
      else fail (ZkvmPanic ''Unsupported instruction kind'')) = equation a b d p" for a b d p
    using assms by (auto simp: equation_def)
  have equation: "enforces row (equation a b d p) (\<lambda>_. \<forall>l. holds row p l \<longrightarrow> value_of row a * value_of row b =
      (if knd = MUL then of_int (uint l) * 4294967296 + value_of row d else value_of row d * 4294967296 + of_int (uint l)))"
    if "challenge_free d" "free_uint p" for a b d p
    using that unfolding equation_def
    by (auto intro!: builds_conseq [OF require_equal_builds] simp: uint_value_holds shl_expr_def)
  have tail: "makes row (andThen (r_insn_construct knd [WitIn a0, WitIn a1] [WitIn b0, WitIn b1] [WitIn d0, WitIn d1]) (\<lambda>r_insn.
      andThen (mul_operands knd (pair_uint a0 a1) (pair_uint b0 b1) (pair_uint d0 d1)) (\<lambda>(a, b, d, deps, p).
      andThen (equation a b d p) (\<lambda>_. ok (f r_insn deps p)))))
    (\<lambda>_ Ps. (\<exists>z. holds row (pair_uint d0 d1) z) \<longrightarrow> (\<exists>a b d. r_format row knd a b d Ps \<and> alu_limbs knd a b d))"
    for a0 a1 b0 b1 d0 d1 f
  proof (rule makes_bind [OF r_insn_makes], rule makes_enforces_bind_returns [OF mul_operands_returns mul_operands_builds],
      clarsimp, rule makes_enforces_bind [OF equation], assumption+, rule makes_ok, clarsimp)
    fix a b d and p :: UIntLimbs and Qs l z
    assume fmt: "r_format row knd [wit row a0, wit row a1] [wit row b0, wit row b1] [wit row d0, wit row d1] Qs"
      and l: "holds row p l" and z: "holds row (pair_uint d0 d1) z"
      and vals: "\<forall>x. holds row (pair_uint a0 a1) x \<longrightarrow> (\<forall>y. holds row (pair_uint b0 b1) y \<longrightarrow>
        (\<forall>z. holds row (pair_uint d0 d1) z \<longrightarrow> mul_values knd x y z l (value_of row a) (value_of row b) (value_of row d)))"
      and eqn: "\<forall>l. (knd = MUL \<longrightarrow> holds row p l \<longrightarrow> value_of row a * value_of row b = unsigned l * 4294967296 + value_of row d) \<and>
        (knd \<noteq> MUL \<longrightarrow> holds row p l \<longrightarrow> value_of row a * value_of row b = value_of row d * 4294967296 + unsigned l)"
    have "\<exists>r. isa_alu knd x y = Some r \<and> [wit row d0, wit row d1] = limbs_of (word_of_int r)"
      if "[wit row a0, wit row a1] = limbs_of x" "[wit row b0, wit row b1] = limbs_of y" for x y
    proof -
      have "holds row (pair_uint a0 a1) x" "holds row (pair_uint b0 b1) y" using that by (simp_all add: holds_def)
      with vals z have "mul_values knd x y z l (value_of row a) (value_of row b) (value_of row d)" by blast
      moreover have "value_of row a * value_of row b =
          (if knd = MUL then of_int (uint l) * 4294967296 + value_of row d else value_of row d * 4294967296 + of_int (uint l))"
        using eqn l by (cases "knd = MUL") simp_all
      ultimately obtain r where "isa_alu knd x y = Some r" "z = word_of_int r" using mul_result by blast
      with z show ?thesis by (auto simp: holds_def)
    qed
    with fmt show "\<exists>a b d. r_format row knd a b d Qs \<and> alu_limbs knd a b d" unfolding alu_limbs_def by blast
  qed
  show ?thesis
    unfolding mul_construct_def eq
    by (rule makes_enforces_bind_returns [OF uint_new_unchecked_returns uint_new_unchecked_builds],
        rule makes_enforces_bind_returns [OF uint_new_unchecked_returns uint_new_unchecked_builds],
        rule makes_enforces_bind_returns [OF uint_new_returns uint_new_builds])
      (auto simp: andThen_ok intro!: makes_conseq [OF tail])
qed

interpretation mul_insn: r_circuit "mul_construct MUL" MUL by unfold_locales (rule mul_makes, simp_all)
interpretation mulh_insn: r_circuit "mul_construct MULH" MULH by unfold_locales (rule mul_makes, simp_all)
interpretation mulhu_insn: r_circuit "mul_construct MULHU" MULHU by unfold_locales (rule mul_makes, simp_all)
interpretation mulhsu_insn: r_circuit "mul_construct MULHSU" MULHSU by unfold_locales (rule mul_makes, simp_all)

end
