(* ===== verification/DivRem.thy ===== *)
theory DivRem
  imports Mul
begin

text \<open>
  The circuits of DIV, DIVU, REM and REMU (\<open>instructions/riscv/div.rs\<close>). The assertions on the limb
  width and on the modulus hold by the choice of parameters and are left out.
\<close>

record SignedDivRem =
  dr_dividend_signed :: Signed
  dr_divisor_signed :: Signed
  dr_quotient_signed :: Signed
  dr_remainder_signed :: Signed
  dr_dividend_min :: IsZeroConfig
  dr_divisor_neg_one :: IsZeroConfig
  dr_signed_overflow :: nat
  dr_remainder_nonnegative :: AssertLtConfig

datatype InternalDivRem = DivUnsigned | DivSigned SignedDivRem

record DivRemConfig =
  dr_dividend :: UIntLimbs
  dr_divisor :: UIntLimbs
  dr_quotient :: UIntLimbs
  dr_remainder :: UIntLimbs
  dr_internal :: InternalDivRem
  dr_divisor_zero :: IsZeroConfig
  dr_remainder_lt :: IsLtConfig
  dr_r_insn :: RInstructionConfig

text \<open>\<open>From<i32> for Expression\<close>.\<close>

definition from_signed :: "int \<Rightarrow> expr" where "from_signed i = Constant (Inl (of_int i))"

text \<open>The division relation, and the remainder and divisor with their signs normalized.\<close>

definition division_relation ::
  "InsnKind \<Rightarrow> UIntLimbs \<Rightarrow> UIntLimbs \<Rightarrow> UIntLimbs \<Rightarrow> UIntLimbs \<Rightarrow> (InternalDivRem \<times> expr \<times> expr) build" where
  "division_relation knd dividend divisor quot remain =
     (if knd \<in> {DIVU, REMU} then
        andThen (require_equal (uint_value 16 dividend) (uint_value 16 divisor * uint_value 16 quot + uint_value 16 remain)) (\<lambda>_.
        ok (DivUnsigned, uint_value 16 remain, uint_value 16 divisor))
      else if knd \<in> {DIV, REM} then
        andThen (signed_construct dividend) (\<lambda>dividend_signed.
        andThen (signed_construct divisor) (\<lambda>divisor_signed.
        andThen (signed_construct quot) (\<lambda>quot_signed.
        andThen (signed_construct remain) (\<lambda>remain_signed.
        andThen (is_equal_construct (uint_value 16 dividend) (from_unsigned (2 ^ 31))) (\<lambda>is_dividend_min.
        andThen (is_equal_construct (uint_value 16 divisor) (from_unsigned (2 ^ 32 - 1))) (\<lambda>is_divisor_neg_one.
        andThen (flatten_expr (is_zero_expr_of is_dividend_min * is_zero_expr_of is_divisor_neg_one)) (\<lambda>is_signed_overflow.
        andThen (condition_require_equal (WitIn is_signed_overflow)
          (sg_val quot_signed * sg_val divisor_signed + sg_val remain_signed)
          (from_unsigned (2 ^ 31)) (sg_val dividend_signed)) (\<lambda>_.
        let remainder_pos = (from_signed 1 - from_signed 2 * msb_expr (sg_is_negative dividend_signed)) * sg_val remain_signed;
            divisor_pos = (from_signed 1 - from_signed 2 * msb_expr (sg_is_negative divisor_signed)) * sg_val divisor_signed
        in andThen (assert_lt_construct (from_signed (- 1)) remainder_pos UINT_LIMBS) (\<lambda>remainder_nonnegative.
        ok (DivSigned \<lparr>dr_dividend_signed = dividend_signed, dr_divisor_signed = divisor_signed, dr_quotient_signed = quot_signed,
              dr_remainder_signed = remain_signed, dr_dividend_min = is_dividend_min, dr_divisor_neg_one = is_divisor_neg_one,
              dr_signed_overflow = is_signed_overflow, dr_remainder_nonnegative = remainder_nonnegative\<rparr>,
            remainder_pos, divisor_pos))))))))))
      else fail (ZkvmPanic ''Unsupported instruction kind''))"

definition div_rem_construct :: "InsnKind \<Rightarrow> DivRemConfig build" where
  "div_rem_construct knd =
     andThen (uint_new_unchecked 32 16) (\<lambda>dividend.
     andThen (uint_new_unchecked 32 16) (\<lambda>divisor.
     andThen (uint_new 32 16) (\<lambda>quot.
     andThen (uint_new 32 16) (\<lambda>remain.
     andThen (division_relation knd dividend divisor quot remain) (\<lambda>(internal_config, rem_e, div_e).
     andThen (is_zero_construct (uint_value 16 divisor) False) (\<lambda>is_divisor_zero.
     andThen (condition_require_equal (is_zero_expr_of is_divisor_zero) (uint_value 16 quot)
       (from_unsigned (2 ^ 32 - 1)) (uint_value 16 quot)) (\<lambda>_.
     andThen (is_lt_construct rem_e div_e UINT_LIMBS) (\<lambda>is_remainder_lt.
     andThen (require_equal (is_zero_expr_of is_divisor_zero + WitIn (is_lt_wit is_remainder_lt)) (from_signed 1)) (\<lambda>_.
     andThen (if knd \<in> {DIVU, DIV} then register_expr quot
              else if knd \<in> {REMU, REM} then register_expr remain
              else fail (ZkvmPanic ''Unsupported instruction kind'')) (\<lambda>rd_written_e.
     andThen (register_expr dividend) (\<lambda>a.
     andThen (register_expr divisor) (\<lambda>b.
     andThen (r_insn_construct knd a b rd_written_e) (\<lambda>r_insn.
     ok \<lparr>dr_dividend = dividend, dr_divisor = divisor, dr_quotient = quot, dr_remainder = remain,
         dr_internal = internal_config, dr_divisor_zero = is_divisor_zero, dr_remainder_lt = is_remainder_lt,
         dr_r_insn = r_insn\<rparr>)))))))))))))"

definition negate_if :: "bool \<Rightarrow> i32 \<Rightarrow> i64" where
  "negate_if b x = (if b then - scast x else scast x)"

definition div_rem_assign :: "DivRemConfig \<Rightarrow> StepRecord \<Rightarrow> unit assign" where
  "div_rem_assign cfg r =
     andThen (expect (rec_rs1 r) ''unwrap'') (\<lambda>rs1. andThen (expect (rec_rs2 r) ''unwrap'') (\<lambda>rs2.
     let dividend = op_value rs1; divisor = op_value rs2;
         dividend_v = word_value dividend; divisor_v = word_value divisor;
         (quot, remain) = (case dr_internal cfg of
             DivUnsigned \<Rightarrow> (if divisor = 0 then (- 1, dividend) else (dividend div divisor, dividend mod divisor))
           | DivSigned _ \<Rightarrow> (if divisor = 0 then (- 1, dividend)
               else (wrapping_div dividend divisor, wrapping_rem dividend divisor)))
     in andThen (value_new 32 (ucast quot)) (\<lambda>quot_v.
     andThen (value_new 32 (ucast remain)) (\<lambda>remain_v.
     andThen (case dr_internal cfg of
         DivUnsigned \<Rightarrow> ok (remain, divisor)
       | DivSigned c \<Rightarrow>
           andThen (signed_assign (dr_dividend_signed c) dividend_v) (\<lambda>_.
           andThen (signed_assign (dr_divisor_signed c) divisor_v) (\<lambda>_.
           andThen (is_equal_assign (dr_dividend_min c) (of_nat (unat dividend)) (of_nat (2 ^ 31))) (\<lambda>_.
           andThen (is_equal_assign (dr_divisor_neg_one c) (of_nat (unat divisor)) (of_nat (2 ^ 32 - 1))) (\<lambda>_.
           andThen (set_val (dr_signed_overflow c) (of_bool (dividend = 2 ^ 31 \<and> divisor = - 1))) (\<lambda>_.
           andThen (signed_assign (dr_quotient_signed c) quot_v) (\<lambda>_.
           andThen (signed_assign (dr_remainder_signed c) remain_v) (\<lambda>_.
           let remainder_pos = negate_if (dividend <s 0) remain; divisor_pos = negate_if (divisor <s 0) divisor
           in andThen (assert_lt_assign_signed (dr_remainder_nonnegative c) (- 1) remainder_pos) (\<lambda>_.
           ok (ucast remainder_pos, ucast divisor_pos))))))))))  (\<lambda>(rem_pos, div_pos).
     andThen (assign_value 32 16 (dr_dividend cfg) dividend_v) (\<lambda>_.
     andThen (assign_value 32 16 (dr_divisor cfg) divisor_v) (\<lambda>_.
     andThen (assign_value 32 16 (dr_quotient cfg) quot_v) (\<lambda>_.
     andThen (assign_value 32 16 (dr_remainder cfg) remain_v) (\<lambda>_.
     andThen (is_zero_assign (dr_divisor_zero cfg) (of_nat (unat divisor))) (\<lambda>_.
     andThen (is_lt_assign (dr_remainder_lt cfg) (ucast (rem_pos :: u32)) (ucast (div_pos :: u32))) (\<lambda>_.
     r_insn_assign (dr_r_insn cfg) r)))))))))))"

subsection \<open>Quotients\<close>

lemma signed_division:
  fixes X Y Q R :: int
  assumes "Y \<noteq> 0" and "X = Q * Y + R" and "\<bar>R\<bar> < \<bar>Y\<bar>" and "0 \<le> (if X < 0 then - R else R)"
  shows "X sdiv Y = Q \<and> X smod Y = R"
proof -
  have div: "X sdiv Y = Q"
  proof (cases "X < 0"; cases "Y < 0")
    assume "X < 0" "Y < 0"
    then have "- X = (- Y) * Q + - R" "0 \<le> - R" "- R < - Y" using assms by simp_all
    then have "(- X) div (- Y) = Q" by (rule int_div_pos_eq)
    with \<open>X < 0\<close> \<open>Y < 0\<close> show ?thesis by (simp add: signed_divide_int_def)
  next
    assume "X < 0" "\<not> Y < 0"
    then have "- X = Y * (- Q) + - R" "0 \<le> - R" "- R < Y" using assms by simp_all
    then have "(- X) div Y = - Q" by (rule int_div_pos_eq)
    with \<open>X < 0\<close> \<open>\<not> Y < 0\<close> assms(1) show ?thesis by (simp add: signed_divide_int_def)
  next
    assume "\<not> X < 0" "Y < 0"
    then have "X = (- Y) * (- Q) + R" "0 \<le> R" "R < - Y" using assms by simp_all
    then have "X div (- Y) = - Q" by (rule int_div_pos_eq)
    with \<open>\<not> X < 0\<close> \<open>Y < 0\<close> show ?thesis by (cases "X = 0") (simp_all add: signed_divide_int_def)
  next
    assume "\<not> X < 0" "\<not> Y < 0"
    then have "X = Y * Q + R" "0 \<le> R" "R < Y" using assms by simp_all
    then have "X div Y = Q" by (rule int_div_pos_eq)
    with \<open>\<not> X < 0\<close> \<open>\<not> Y < 0\<close> assms(1) show ?thesis by (cases "X = 0") (simp_all add: signed_divide_int_def)
  qed
  moreover have "X sdiv Y * Y + X smod Y = X" by (rule sdiv_mult_smod_eq)
  ultimately show ?thesis using assms(2) by simp
qed

text \<open>What the constraints of the unsigned and of the signed case say of four words.\<close>

lemma unsigned_division:
  fixes x y q r :: u32
  assumes "(of_int (uint x) :: gl) = of_int (uint y * uint q + uint r)"
    and "uint y = 0 \<Longrightarrow> uint q = 4294967295" and "uint y \<noteq> 0 \<Longrightarrow> uint r < uint y"
  shows "isa_alu DIVU x y = Some (uint q) \<and> isa_alu REMU x y = Some (uint r)"
proof -
  have "uint y * uint q \<le> 4294967295 * 4294967295" "0 \<le> uint y * uint q"
    by (rule mult_mono) (use uint_bound in simp_all)
  then have "\<bar>uint x - (uint y * uint q + uint r)\<bar> < 18446744069414584321"
    using uint_bound [of x] uint_bound [of r] by linarith
  with assms(1) have x: "uint x = uint y * uint q + uint r" by (rule gl_eq_int)
  show ?thesis
  proof (cases "uint y = 0")
    case True
    with assms(2) x show ?thesis by simp
  next
    case False
    with assms(3) have "uint r < uint y" "0 \<le> uint r" using uint_bound [of r] by simp_all
    with x have "uint x div uint y = uint q" "uint x mod uint y = uint r"
      using int_div_pos_eq int_mod_pos_eq by blast+
    with False show ?thesis by simp
  qed
qed

definition division_overflow :: "u32 \<Rightarrow> u32 \<Rightarrow> bool" where
  "division_overflow x y \<longleftrightarrow> uint x = 2147483648 \<and> uint y = 4294967295"

lemma signed_division_words:
  fixes x y q r :: u32
  assumes eq: "(of_int (sint q * sint y + sint r) :: gl) = of_int (if division_overflow x y then 2147483648 else sint x)"
    and zero: "uint y = 0 \<Longrightarrow> uint q = 4294967295"
    and pos: "0 \<le> (if sint x < 0 then - sint r else sint r)"
    and less: "uint y \<noteq> 0 \<Longrightarrow> (if sint x < 0 then - sint r else sint r) < \<bar>sint y\<bar>"
  shows "\<exists>a b. isa_alu DIV x y = Some a \<and> q = word_of_int a \<and> isa_alu REM x y = Some b \<and> r = word_of_int b"
proof -
  have "\<bar>sint q * sint y\<bar> \<le> 4611686018427387904"
    by (rule signed_product_bound) (use sint_bound [of q] sint_bound [of y] in linarith)+
  moreover have "\<bar>if division_overflow x y then 2147483648 else sint x\<bar> \<le> 2147483648"
    using sint_bound [of x] by auto
  ultimately have "\<bar>sint q * sint y + sint r - (if division_overflow x y then 2147483648 else sint x)\<bar> < 18446744069414584321"
    using sint_bound [of r] by linarith
  with eq have e: "sint q * sint y + sint r = (if division_overflow x y then 2147483648 else sint x)" by (rule gl_eq_int)
  have words: "word_of_int (sint q) = q" "word_of_int (sint r) = r" by simp_all
  consider "uint y = 0" | "uint y \<noteq> 0" "division_overflow x y" | "uint y \<noteq> 0" "\<not> division_overflow x y" by blast
  then show ?thesis
  proof cases
    case 1
    then have "y = 0" by (simp add: uint_0_iff)
    moreover have "q = - 1"
    proof -
      have "q = word_of_int (uint q)" by simp
      also have "\<dots> = word_of_int 4294967295" using 1 zero by (simp only:)
      finally show ?thesis by simp
    qed
    moreover have "sint x = sint r" using e \<open>y = 0\<close> 1 by (simp add: division_overflow_def)
    ultimately show ?thesis using words by simp
  next
    case 2
    then have xy: "sint x = - 2147483648" "sint y = - 1"
      using sint_sign [of x] sint_sign [of y] by (simp_all add: division_overflow_def)
    with e 2 pos less have "sint r = 0" "sint q = - 2147483648" by simp_all
    then have "r = 0" "q = word_of_int (- 2147483648)" using words by (metis of_int_0, metis)
    moreover have "word_of_int (- 2147483648) = (word_of_int 2147483648 :: u32)" by simp
    ultimately show ?thesis using xy 2(1) by (simp add: signed_divide_int_def signed_modulo_int_def)
  next
    case 3
    then have "sint y \<noteq> 0" using sint_sign [of y] uint_bound [of y] by (cases "y <s 0") simp_all
    moreover have "sint x = sint q * sint y + sint r" using e 3 by simp
    moreover have "\<bar>sint r\<bar> < \<bar>sint y\<bar>" using pos less 3 by (auto split: if_splits)
    ultimately have "sint x sdiv sint y = sint q \<and> sint x smod sint y = sint r" using pos by (rule signed_division)
    with 3 words show ?thesis by simp
  qed
qed

subsection \<open>What the constraints enforce\<close>

definition oriented :: "u32 \<Rightarrow> u32 \<Rightarrow> int" where
  "oriented x r = (if sint x < 0 then - sint r else sint r)"

definition div_values :: "InsnKind \<Rightarrow> u32 \<Rightarrow> u32 \<Rightarrow> u32 \<Rightarrow> u32 \<Rightarrow> gl \<Rightarrow> gl \<Rightarrow> bool" where
  "div_values knd x y q r re de \<longleftrightarrow>
     (if knd \<in> {DIVU, REMU} then
        (of_int (uint x) :: gl) = of_int (uint y * uint q + uint r) \<and> re = of_int (uint r) \<and> de = of_int (uint y)
      else knd \<in> {DIV, REM} \<and>
        (of_int (sint q * sint y + sint r) :: gl) = of_int (if division_overflow x y then 2147483648 else sint x) \<and>
        0 \<le> oriented x r \<and> re = of_int (oriented x r) \<and> de = of_int \<bar>sint y\<bar>)"

lemma from_signed_free [simp]: "challenge_free (from_signed i)"
  and from_signed_value [simp]: "value_of row (from_signed i) = of_int i"
  by (simp_all add: from_signed_def)

lemma flatten_expr_returns: "returns (flatten_expr e) (\<lambda>_. True)"
  and cond_returns: "returns (condition_require_equal c x t f) (\<lambda>_. True)"
  and assert_lt_returns: "returns (assert_lt_construct a b n) (\<lambda>_. True)"
  and require_equal_returns: "returns (require_equal a b) (\<lambda>_. True)"
  by (rule returns_any)+

lemma division_relation_returns:
  "returns (division_relation knd (pair_uint a0 a1) (pair_uint b0 b1) (pair_uint q0 q1) (pair_uint r0 r1))
    (\<lambda>(_, re, de). challenge_free re \<and> challenge_free de)"
  unfolding division_relation_def Let_def
  by (auto intro!: returns_bind [OF signed_returns] returns_bind [OF is_equal_construct_returns]
      returns_bind [OF flatten_expr_returns] returns_bind [OF cond_returns] returns_bind [OF assert_lt_returns]
      returns_bind [OF require_equal_returns] returns_ok returns_fail)

lemma oriented_value: "(1 - 2 * of_bool (x <s 0)) * (of_int (sint r) :: gl) = of_int (oriented x r)"
  by (cases "x <s 0") (simp_all add: oriented_def word_sless_alt)

lemma magnitude_value: "(1 - 2 * of_bool (y <s 0)) * (of_int (sint y) :: gl) = of_int \<bar>sint y\<bar>"
  by (cases "y <s 0") (simp_all add: word_sless_alt)

lemma oriented_nonneg:
  assumes "lt_decision UINT_LIMBS (of_int (- 1)) (of_int (oriented x r)) 1"
  shows "0 \<le> oriented x r"
proof -
  have "\<bar>- 1 - oriented x r\<bar> < 2 ^ 62" using sint_bound [of r] by (auto simp: oriented_def)
  with lt_decision_iff [of 2 "- 1" "oriented x r" True] assms show ?thesis by (simp add: UINT_LIMBS_def)
qed

lemma unsigned_relation_builds:
  assumes "knd \<in> {DIVU, REMU}"
  shows "enforces row (division_relation knd (pair_uint a0 a1) (pair_uint b0 b1) (pair_uint q0 q1) (pair_uint r0 r1))
    (\<lambda>(_, re, de). \<forall>x y q r. holds row (pair_uint a0 a1) x \<longrightarrow> holds row (pair_uint b0 b1) y \<longrightarrow>
       holds row (pair_uint q0 q1) q \<longrightarrow> holds row (pair_uint r0 r1) r \<longrightarrow>
       div_values knd x y q r (value_of row re) (value_of row de))"
  unfolding division_relation_def if_P [OF assms]
  by (rule enforces_bind [OF require_equal_builds])
    (use assms in \<open>auto intro!: builds_ok simp: uint_value_holds div_values_def\<close>)

lemma signed_relation_values:
  assumes "knd \<in> {DIV, REM}"
    and eq: "(of_int (sint q) * of_int (sint y) + of_int (sint r) :: gl) = of_int (sint x) +
      of_bool (of_int (uint x) = (of_int 2147483648 :: gl)) * of_bool (of_int (uint y) = (of_int 4294967295 :: gl)) *
      (of_int 2147483648 - of_int (sint x))"
    and lt: "lt_decision UINT_LIMBS (of_int (- 1)) ((1 - 2 * of_bool (x <s 0)) * of_int (sint r)) 1"
  shows "div_values knd x y q r ((1 - 2 * of_bool (x <s 0)) * of_int (sint r)) ((1 - 2 * of_bool (y <s 0)) * of_int (sint y))"
proof -
  have knd: "knd \<notin> {DIVU, REMU}" using assms(1) by auto
  have "(of_int (uint x) = (of_int 2147483648 :: gl)) = (uint x = 2147483648)"
    "(of_int (uint y) = (of_int 4294967295 :: gl)) = (uint y = 4294967295)" by (rule of_uint_inject; simp)+
  with eq have "(of_int (sint q * sint y + sint r) :: gl) = of_int (if division_overflow x y then 2147483648 else sint x)"
    unfolding division_overflow_def by (cases "uint x = 2147483648"; cases "uint y = 4294967295")
      (simp_all only: of_int_add of_int_mult of_bool_eq simp_thms if_True if_False, simp_all)
  moreover have "0 \<le> oriented x r" using lt unfolding oriented_value by (rule oriented_nonneg)
  ultimately show ?thesis unfolding div_values_def magnitude_value oriented_value if_not_P [OF knd] using assms(1) by blast
qed

lemma signed_relation_builds:
  assumes "knd \<in> {DIV, REM}"
  shows "enforces row (division_relation knd (pair_uint a0 a1) (pair_uint b0 b1) (pair_uint q0 q1) (pair_uint r0 r1))
    (\<lambda>(_, re, de). \<forall>x y q r. holds row (pair_uint a0 a1) x \<longrightarrow> holds row (pair_uint b0 b1) y \<longrightarrow>
       holds row (pair_uint q0 q1) q \<longrightarrow> holds row (pair_uint r0 r1) r \<longrightarrow>
       div_values knd x y q r (value_of row re) (value_of row de))"
proof -
  have not_u: "knd \<notin> {DIVU, REMU}" using assms by auto
  show ?thesis
    unfolding division_relation_def if_not_P [OF not_u] if_P [OF assms] Let_def
  proof ((rule enforces_bind_returns [OF signed_returns signed_builds])+,
      (rule enforces_bind_returns [OF is_equal_construct_returns is_equal_construct_builds], simp, simp)+,
      rule enforces_bind [OF flatten_expr_builds], simp, rule enforces_bind [OF condition_require_equal_builds],
      simp, simp, simp, simp, rule enforces_bind [OF assert_lt_builds], simp, rule builds_ok, unfold prod.case, intro impI conjI refl allI)
    fix a b c d :: Signed and mn ng ov x y q r
    assume lt: "lt_decision UINT_LIMBS (value_of row (from_signed (- 1)))
        (value_of row ((from_signed 1 - from_signed 2 * msb_expr (sg_is_negative a)) * sg_val d)) 1"
      and eq: "value_of row (sg_val c * sg_val b + sg_val d) = value_of row (sg_val a) +
        value_of row (WitIn ov) * (value_of row (from_unsigned (2 ^ 31)) - value_of row (sg_val a))"
        "wit row ov = value_of row (is_zero_expr_of mn * is_zero_expr_of ng)"
        "value_of row (is_zero_expr_of ng) = of_bool (value_of row (uint_value 16 (pair_uint b0 b1)) = value_of row (from_unsigned (2 ^ 32 - 1)))"
        "value_of row (is_zero_expr_of mn) = of_bool (value_of row (uint_value 16 (pair_uint a0 a1)) = value_of row (from_unsigned (2 ^ 31)))"
      and free: "challenge_free (sg_val a)" "challenge_free (sg_val b)" "challenge_free (sg_val c)" "challenge_free (sg_val d)"
        "challenge_free (is_zero_expr_of mn)" "challenge_free (is_zero_expr_of ng)"
      and words: "holds row (pair_uint a0 a1) x" "holds row (pair_uint b0 b1) y" "holds row (pair_uint q0 q1) q" "holds row (pair_uint r0 r1) r"
      and "\<forall>w. holds row (pair_uint r0 r1) w \<longrightarrow> value_of row (sg_val d) = of_int (sint w) \<and> wit row (msb_wit (sg_is_negative d)) = of_bool (w <s 0)"
        "\<forall>w. holds row (pair_uint q0 q1) w \<longrightarrow> value_of row (sg_val c) = of_int (sint w) \<and> wit row (msb_wit (sg_is_negative c)) = of_bool (w <s 0)"
        "\<forall>w. holds row (pair_uint b0 b1) w \<longrightarrow> value_of row (sg_val b) = of_int (sint w) \<and> wit row (msb_wit (sg_is_negative b)) = of_bool (w <s 0)"
        "\<forall>w. holds row (pair_uint a0 a1) w \<longrightarrow> value_of row (sg_val a) = of_int (sint w) \<and> wit row (msb_wit (sg_is_negative a)) = of_bool (w <s 0)"
    then have vals: "value_of row (sg_val a) = of_int (sint x)" "wit row (msb_wit (sg_is_negative a)) = of_bool (x <s 0)"
      "value_of row (sg_val b) = of_int (sint y)" "wit row (msb_wit (sg_is_negative b)) = of_bool (y <s 0)"
      "value_of row (sg_val c) = of_int (sint q)" "value_of row (sg_val d) = of_int (sint r)"
      "value_of row (uint_value 16 (pair_uint a0 a1)) = of_int (uint x)" "value_of row (uint_value 16 (pair_uint b0 b1)) = of_int (uint y)"
      using uint_value_holds by blast+
    have cs: "value_of row (from_unsigned (2 ^ 31)) = of_int 2147483648" "value_of row (from_unsigned (2 ^ 32 - 1)) = of_int 4294967295"
      "value_of row (from_signed k) = of_int k" for k by simp_all
    have sgn: "value_of row (from_signed 1 - from_signed 2 * msb_expr s) = 1 - 2 * wit row (msb_wit s)" for s by simp
    note ev = eval_plus eval_times vals cs sgn
    show "div_values knd x y q r (value_of row ((from_signed 1 - from_signed 2 * msb_expr (sg_is_negative a)) * sg_val d))
        (value_of row ((from_signed 1 - from_signed 2 * msb_expr (sg_is_negative b)) * sg_val b))"
      unfolding ev
    proof (rule signed_relation_values [OF assms])
      show "(of_int (sint q) * of_int (sint y) + of_int (sint r) :: gl) = of_int (sint x) +
          of_bool (of_int (uint x) = (of_int 2147483648 :: gl)) * of_bool (of_int (uint y) = (of_int 4294967295 :: gl)) *
          (of_int 2147483648 - of_int (sint x))"
        using eq(1) unfolding ev eval_simps eq(2-4) .
      show "lt_decision UINT_LIMBS (of_int (- 1)) ((1 - 2 * of_bool (x <s 0)) * of_int (sint r)) 1"
        using lt unfolding ev .
    qed
  qed
qed

lemma division_relation_builds:
  assumes "knd \<in> {DIVU, REMU, DIV, REM}"
  shows "enforces row (division_relation knd (pair_uint a0 a1) (pair_uint b0 b1) (pair_uint q0 q1) (pair_uint r0 r1))
    (\<lambda>(_, re, de). \<forall>x y q r. holds row (pair_uint a0 a1) x \<longrightarrow> holds row (pair_uint b0 b1) y \<longrightarrow>
       holds row (pair_uint q0 q1) q \<longrightarrow> holds row (pair_uint r0 r1) r \<longrightarrow>
       div_values knd x y q r (value_of row re) (value_of row de))"
proof (cases "knd \<in> {DIVU, REMU}")
  case True
  then show ?thesis by (rule unsigned_relation_builds)
next
  case False
  with assms have "knd \<in> {DIV, REM}" by blast
  then show ?thesis by (rule signed_relation_builds)
qed

text \<open>The register the instruction writes.\<close>

abbreviation div_result :: "InsnKind \<Rightarrow> 'a \<Rightarrow> 'a \<Rightarrow> 'a" where
  "div_result knd q r \<equiv> (if knd \<in> {DIVU, DIV} then q else r)"

lemma div_values_alu:
  assumes "knd \<in> {DIVU, REMU, DIV, REM}" and vals: "div_values knd x y q r re de"
    and zero: "uint y = 0 \<Longrightarrow> uint q = 4294967295" and lt: "uint y \<noteq> 0 \<Longrightarrow> lt_decision UINT_LIMBS re de 1"
  shows "\<exists>z. isa_alu knd x y = Some z \<and> div_result knd q r = word_of_int z"
proof (cases "knd \<in> {DIVU, REMU}")
  case True
  have "uint r < uint y" if "uint y \<noteq> 0"
    using lt_decision_iff [of 2 "uint r" "uint y" True] uint_gap [of r y] lt [OF that] vals True
    by (simp add: div_values_def UINT_LIMBS_def)
  with vals True zero have "isa_alu DIVU x y = Some (uint q) \<and> isa_alu REMU x y = Some (uint r)"
    by (intro unsigned_division) (simp_all add: div_values_def)
  with True show ?thesis by auto
next
  case False
  with assms(1) have knd: "knd \<in> {DIV, REM}" by blast
  have "oriented x r < \<bar>sint y\<bar>" if "uint y \<noteq> 0"
  proof -
    have "\<bar>oriented x r - \<bar>sint y\<bar>\<bar> < 2 ^ 62" using sint_bound [of r] sint_bound [of y] by (auto simp: oriented_def)
    with lt_decision_iff [of 2 "oriented x r" "\<bar>sint y\<bar>" True] lt [OF that] vals False show ?thesis
      by (simp add: div_values_def UINT_LIMBS_def)
  qed
  with vals False zero have "\<exists>a b. isa_alu DIV x y = Some a \<and> q = word_of_int a \<and> isa_alu REM x y = Some b \<and> r = word_of_int b"
    by (intro signed_division_words) (simp_all add: div_values_def oriented_def)
  with knd show ?thesis by auto
qed

lemma flag_sum: "of_bool c + z = (1 :: gl) \<Longrightarrow> z = of_bool d \<Longrightarrow> \<not> c \<Longrightarrow> z = 1"
  by (cases d) simp_all

lemma division_step:
  assumes knd: "knd \<in> {DIVU, REMU, DIV, REM}" and h: "holds row u x" "holds row v y" "holds row w q" "holds row t r"
    and vals: "div_values knd x y q r re de"
    and eq: "value_of row (uint_value 16 w) = value_of row (uint_value 16 w) +
      of_bool (value_of row (uint_value 16 v) = 0) * (4294967295 - value_of row (uint_value 16 w))"
    and flag: "of_bool (value_of row (uint_value 16 v) = 0) + of_bool c = (1 :: gl)" "lt_decision UINT_LIMBS re de (of_bool c)"
  shows "\<exists>z. isa_alu knd x y = Some z \<and> limb_values row (div_result knd w t) = limbs_of (word_of_int z)"
proof -
  have y: "value_of row (uint_value 16 v) = 0 \<longleftrightarrow> uint y = 0"
    using of_uint_inject [of 0 y] uint_value_holds [OF h(2)] by simp
  have "\<exists>z. isa_alu knd x y = Some z \<and> div_result knd q r = word_of_int z"
  proof (rule div_values_alu [OF knd vals])
    assume "uint y = 0"
    then have "value_of row (uint_value 16 w) = (of_int 4294967295 :: gl)" using eq y by simp
    then show "uint q = 4294967295" using uint_value_holds [OF h(3)] by (simp only: of_uint_inject [of 4294967295 q])
  next
    assume "uint y \<noteq> 0"
    with flag y show "lt_decision UINT_LIMBS re de 1" by (cases c) simp_all
  qed
  with h show ?thesis by (cases "knd \<in> {DIVU, DIV}") (auto simp: map_value_holds)
qed

lemma div_rem_makes:
  assumes knd: "knd \<in> {DIVU, REMU, DIV, REM}"
  shows "makes row (div_rem_construct knd) (\<lambda>_ Ps. \<exists>a b d. r_format row knd a b d Ps \<and> alu_limbs knd a b d)"
proof -
  have rd: "(if knd \<in> {DIVU, DIV} then register_expr q else if knd \<in> {REMU, REM} then register_expr r
      else fail (ZkvmPanic ''Unsupported instruction kind'')) = register_expr (div_result knd q r)" for q r
    using knd by auto
  have tail: "makes row (andThen (division_relation knd (pair_uint a0 a1) (pair_uint b0 b1) (pair_uint q0 q1) (pair_uint r0 r1)) (\<lambda>(internal_config, rem_e, div_e).
     andThen (is_zero_construct (uint_value 16 (pair_uint b0 b1)) False) (\<lambda>is_divisor_zero.
     andThen (condition_require_equal (is_zero_expr_of is_divisor_zero) (uint_value 16 (pair_uint q0 q1))
       (from_unsigned (2 ^ 32 - 1)) (uint_value 16 (pair_uint q0 q1))) (\<lambda>_.
     andThen (is_lt_construct rem_e div_e UINT_LIMBS) (\<lambda>is_remainder_lt.
     andThen (require_equal (is_zero_expr_of is_divisor_zero + WitIn (is_lt_wit is_remainder_lt)) (from_signed 1)) (\<lambda>_.
     andThen (r_insn_construct knd (uexprs (pair_uint a0 a1)) (uexprs (pair_uint b0 b1)) (uexprs (div_result knd (pair_uint q0 q1) (pair_uint r0 r1))))
       (\<lambda>r_insn. ok (f internal_config is_divisor_zero is_remainder_lt r_insn))))))))
    (\<lambda>_ Ps. (\<exists>q r. holds row (pair_uint q0 q1) q \<and> holds row (pair_uint r0 r1) r) \<longrightarrow>
      (\<exists>a b d. r_format row knd a b d Ps \<and> alu_limbs knd a b d))" for a0 a1 b0 b1 q0 q1 r0 r1 f
  proof (rule makes_enforces_bind_returns [OF division_relation_returns division_relation_builds [OF knd]], clarify,
      rule makes_enforces_bind_returns [OF is_zero_returns is_zero_builds], simp,
      rule makes_enforces_bind [OF condition_require_equal_builds], simp, simp, simp, simp,
      rule makes_enforces_bind [OF is_lt_builds], assumption, rule makes_enforces_bind [OF require_equal_builds], simp,
      rule makes_bind [OF r_insn_makes], rule makes_ok, intro allI impI, elim exE conjE)
    fix re de :: expr and dz lt Qs c q r
    assume fmt: "r_format row knd (limb_values row (pair_uint a0 a1)) (limb_values row (pair_uint b0 b1))
        (limb_values row (div_result knd (pair_uint q0 q1) (pair_uint r0 r1))) Qs"
      and sum: "value_of row (is_zero_expr_of dz + WitIn (is_lt_wit lt)) = value_of row (from_signed 1)"
      and eq: "value_of row (uint_value 16 (pair_uint q0 q1)) = value_of row (uint_value 16 (pair_uint q0 q1)) +
        value_of row (is_zero_expr_of dz) * (value_of row (from_unsigned (2 ^ 32 - 1)) - value_of row (uint_value 16 (pair_uint q0 q1)))"
      and flags: "value_of row (is_zero_expr_of dz) = of_bool (value_of row (uint_value 16 (pair_uint b0 b1)) = 0)"
        "wit row (is_lt_wit lt) = of_bool c" "lt_decision UINT_LIMBS (value_of row re) (value_of row de) (of_bool c)"
      and vals: "\<forall>x y q r. holds row (pair_uint a0 a1) x \<longrightarrow> holds row (pair_uint b0 b1) y \<longrightarrow>
        holds row (pair_uint q0 q1) q \<longrightarrow> holds row (pair_uint r0 r1) r \<longrightarrow> div_values knd x y q r (value_of row re) (value_of row de)"
      and qr: "holds row (pair_uint q0 q1) q" "holds row (pair_uint r0 r1) r"
    have max: "value_of row (from_unsigned (2 ^ 32 - 1)) = 4294967295" by simp
    have "alu_limbs knd (limb_values row (pair_uint a0 a1)) (limb_values row (pair_uint b0 b1))
        (limb_values row (div_result knd (pair_uint q0 q1) (pair_uint r0 r1)))"
      unfolding alu_limbs_def map_value_holds [symmetric]
    proof (intro allI impI)
      fix x y
      assume h: "holds row (pair_uint a0 a1) x" "holds row (pair_uint b0 b1) y"
      then show "\<exists>z. isa_alu knd x y = Some z \<and>
          holds row (div_result knd (pair_uint q0 q1) (pair_uint r0 r1)) (word_of_int z)"
        using division_step [OF knd h qr vals [rule_format, OF h qr] eq [unfolded flags max] _ flags(3)] sum flags
        by (simp add: map_value_holds)
    qed
    with fmt show "\<exists>a b d. r_format row knd a b d (Qs @ []) \<and> alu_limbs knd a b d" by auto
  qed
  have regs: "register_expr (pair_uint a b) = ok (uexprs (pair_uint a b))"
    "register_expr (div_result knd (pair_uint a b) (pair_uint c d)) = ok (uexprs (div_result knd (pair_uint a b) (pair_uint c d)))"
    for a b c d by (simp_all add: register_expr_free)
  show ?thesis
    unfolding div_rem_construct_def rd
    by (rule makes_enforces_bind_returns [OF uint_new_unchecked_returns uint_new_unchecked_builds],
        rule makes_enforces_bind_returns [OF uint_new_unchecked_returns uint_new_unchecked_builds],
        (rule makes_enforces_bind_returns [OF uint_new_returns uint_new_builds])+, clarify,
        unfold regs andThen_ok, rule makes_conseq [OF tail], blast)
qed

interpretation divu_insn: r_circuit "div_rem_construct DIVU" DIVU by unfold_locales (rule div_rem_makes, simp_all)
interpretation remu_insn: r_circuit "div_rem_construct REMU" REMU by unfold_locales (rule div_rem_makes, simp_all)
interpretation div_insn: r_circuit "div_rem_construct DIV" DIV by unfold_locales (rule div_rem_makes, simp_all)
interpretation rem_insn: r_circuit "div_rem_construct REM" REM by unfold_locales (rule div_rem_makes, simp_all)

end
