(* ===== verification/Immediate.thy ===== *)
theory Immediate
  imports DivRem
begin

text \<open>
  The circuits of ADDI, SLTI, SLTIU, ANDI, ORI and XORI (\<open>instructions/riscv/arith_imm.rs\<close>, \<open>slti.rs\<close>,
  \<open>logic_imm/logic_imm_circuit.rs\<close>), what an I-type circuit promises, and the proof that these keep it.
\<close>

subsection \<open>Circuits\<close>

record InstructionConfig =
  addi_i_insn :: IInstructionConfig
  addi_rs1 :: UIntLimbs
  addi_imm :: UIntLimbs
  addi_rd :: UIntLimbs

definition addi_construct :: "InstructionConfig build" where
  "addi_construct =
     andThen (uint_new_unchecked 32 16) (\<lambda>rs1_read.
     andThen (uint_new 32 16) (\<lambda>imm.
     andThen (uint_add 32 16 rs1_read imm True) (\<lambda>rd_written.
     andThen (register_expr rs1_read) (\<lambda>a.
     andThen (register_expr rd_written) (\<lambda>d.
     andThen (i_insn_construct ADDI (uint_value 16 imm) a d False) (\<lambda>i_insn.
     ok \<lparr>addi_i_insn = i_insn, addi_rs1 = rs1_read, addi_imm = imm, addi_rd = rd_written\<rparr>))))))"

definition addi_assign :: "InstructionConfig \<Rightarrow> StepRecord \<Rightarrow> unit assign" where
  "addi_assign cfg r =
     andThen (expect (rec_rs1 r) ''unwrap'') (\<lambda>rs1.
     let rs1_read = word_value (op_value rs1) in
     andThen (value_new 32 (ucast (ucast (imm_internal (rec_insn r)) :: u32))) (\<lambda>imm.
     andThen (value_add rs1_read imm True) (\<lambda>result.
     andThen (assign_value 32 16 (addi_rs1 cfg) rs1_read) (\<lambda>_.
     andThen (assign_value 32 16 (addi_imm cfg) imm) (\<lambda>_.
     andThen (assign_add_outcome 32 16 (addi_rd cfg) result) (\<lambda>_.
     i_insn_assign (addi_i_insn cfg) r))))))"

record SetLessThanImmConfig =
  slti_i_insn :: IInstructionConfig
  slti_rs1 :: UIntLimbs
  slti_imm :: nat
  slti_rd :: UIntLimbs
  slti_lt :: IsLtConfig
  slti_is_rs1_neg :: "SignedExtendConfig option"

definition slti_construct :: "InsnKind \<Rightarrow> SetLessThanImmConfig build" where
  "slti_construct knd =
     andThen (uint_new_unchecked 32 16) (\<lambda>rs1_read.
     andThen create_witin (\<lambda>imm.
     andThen (if knd = SLTIU then ok (uint_value 16 rs1_read, None)
       else if knd = SLTI then
         andThen (is_negative rs1_read) (\<lambda>is_rs1_neg.
         ok (to_field_expr 16 rs1_read (msb_expr is_rs1_neg), Some is_rs1_neg))
       else fail (ZkvmPanic ''Unsupported instruction kind'')) (\<lambda>(value_expr, is_rs1_neg).
     andThen (is_lt_construct value_expr (WitIn imm) UINT_LIMBS) (\<lambda>lt.
     let rd_written = from_exprs_unchecked 32 16 [WitIn (is_lt_wit lt)] in
     andThen (register_expr rs1_read) (\<lambda>a.
     andThen (register_expr rd_written) (\<lambda>d.
     andThen (i_insn_construct knd (WitIn imm) a d False) (\<lambda>i_insn.
     ok \<lparr>slti_i_insn = i_insn, slti_rs1 = rs1_read, slti_imm = imm, slti_rd = rd_written, slti_lt = lt,
         slti_is_rs1_neg = is_rs1_neg\<rparr>)))))))"

definition slti_assign :: "InsnKind \<Rightarrow> SetLessThanImmConfig \<Rightarrow> StepRecord \<Rightarrow> unit assign" where
  "slti_assign knd cfg r =
     andThen (i_insn_assign (slti_i_insn cfg) r) (\<lambda>_.
     andThen (expect (rec_rs1 r) ''unwrap'') (\<lambda>rs1_op.
     let rs1 = op_value rs1_op; rs1_value = word_value rs1; imm = imm_internal (rec_insn r) in
     andThen (assign_value 32 16 (slti_rs1 cfg) rs1_value) (\<lambda>_.
     andThen (set_val (slti_imm cfg) (i64_to_base imm)) (\<lambda>_.
     if knd = SLTIU then is_lt_assign (slti_lt cfg) (ucast rs1) imm
     else if knd = SLTI then
       andThen (expect (slti_is_rs1_neg cfg) ''unwrap'') (\<lambda>neg.
       andThen (last_limb rs1_value) (\<lambda>l.
       andThen (signed_ext_assign neg l) (\<lambda>_.
       is_lt_assign_signed (slti_lt cfg) (scast rs1) (scast (ucast imm :: u32)))))
     else fail (ZkvmPanic ''Unsupported instruction kind'')))))"

record LogicImmConfig =
  logici_i_insn :: IInstructionConfig
  logici_rs1 :: UIntLimbs
  logici_rd :: UIntLimbs
  logici_imm :: UIntLimbs

definition logic_imm_config_construct :: "InsnKind \<Rightarrow> LogicImmConfig build" where
  "logic_imm_config_construct knd =
     andThen (uint_new_unchecked 32 8) (\<lambda>rs1_read.
     andThen (uint_new_unchecked 32 8) (\<lambda>rd_written.
     andThen (uint_new_unchecked 32 8) (\<lambda>imm.
     andThen (register_expr8 rs1_read) (\<lambda>a.
     andThen (register_expr8 rd_written) (\<lambda>d.
     andThen (i_insn_construct knd (uint_value 8 imm) a d False) (\<lambda>i_insn.
     ok \<lparr>logici_i_insn = i_insn, logici_rs1 = rs1_read, logici_rd = rd_written, logici_imm = imm\<rparr>))))))"

definition logic_imm_config_assign :: "LogicImmConfig \<Rightarrow> StepRecord \<Rightarrow> unit assign" where
  "logic_imm_config_assign cfg r =
     andThen (i_insn_assign (logici_i_insn cfg) r) (\<lambda>_.
     andThen (expect (rec_rs1 r) ''unwrap'') (\<lambda>rs1.
     andThen (assign_limbs 32 8 (logici_rs1 cfg) (split_to_u8 (op_value rs1))) (\<lambda>_.
     andThen (assign_limbs 32 8 (logici_imm cfg) (split_to_u8 (ucast (imm_internal (rec_insn r))))) (\<lambda>_.
     andThen (expect (rec_rd r) ''unwrap'') (\<lambda>rd.
     assign_limbs 32 8 (logici_rd cfg) (split_to_u8 (after (op_value rd))))))))"

text \<open>\<open>LogicOp::OpsTable\<close> of \<open>AndiOp\<close>, \<open>OriOp\<close> and \<open>XoriOp\<close>.\<close>

fun logic_imm_table :: "InsnKind \<Rightarrow> ROMType" where
  "logic_imm_table ANDI = And"
| "logic_imm_table ORI = Or"
| "logic_imm_table _ = Xor"

definition logic_imm_construct :: "InsnKind \<Rightarrow> LogicImmConfig build" where
  "logic_imm_construct knd =
     andThen (logic_imm_config_construct knd) (\<lambda>config.
     andThen (uint_logic (logic_imm_table knd) (logici_rs1 config) (logici_imm config) (logici_rd config)) (\<lambda>_.
     ok config))"

definition logic_imm_assign :: "InsnKind \<Rightarrow> LogicImmConfig \<Rightarrow> StepRecord \<Rightarrow> unit assign" where
  "logic_imm_assign knd cfg r =
     andThen (expect (rec_rs1 r) ''unwrap'') (\<lambda>rs1.
     andThen (uint_logic_assign 32 (logic_imm_table knd) (ucast (op_value rs1)) (imm_internal (rec_insn r))) (\<lambda>_.
     logic_imm_config_assign cfg r))"

subsection \<open>The contract of an I-type circuit\<close>

text \<open>The written limbs are those of the value for the word read and the immediate of the instruction.\<close>

definition imm_limbs :: "InsnKind \<Rightarrow> gl \<Rightarrow> gl list \<Rightarrow> gl list \<Rightarrow> bool" where
  "imm_limbs k imm a d \<longleftrightarrow> (\<forall>insn. insn_kind insn = k \<longrightarrow> imm = of_int (sint (imm_internal insn)) \<longrightarrow>
     (\<exists>r. reg_form k = Some r \<and> alu_limbs r a (limbs_of (insn_imm insn)) d))"

definition i_step :: "Program \<Rightarrow> InsnKind \<Rightarrow> ram_values \<Rightarrow> ram_values \<Rightarrow> bool" where
  "i_step prog k rs ws \<longleftrightarrow> (\<exists>pc insn ts a d r.
     decoded_at prog pc insn \<and> insn_kind insn = k \<and> reg_form k = Some r \<and> alu_limbs r a (limbs_of (insn_imm insn)) d \<and>
     accesses [moves (reg_of pc) (reg_of pc + 4) ts, keeps (reg_of (rs1_or_zero insn)) a ts,
       overwrites (reg_of (rd_internal insn)) d (ts + 2)] rs ws)"

lemma i_format_fetched:
  assumes "row_program row = program_rows n prog" and "knd \<noteq> INVALID" and "i_format row knd pc next imm a d Ps"
  obtains w insn ts where "decoded_at prog w insn" "insn_kind insn = knd" "pc = reg_of w"
    "imm = of_int (sint (imm_internal insn))"
    "Ps = [moves pc next ts, keeps (reg_of (rs1_or_zero insn)) a ts, overwrites (reg_of (rd_internal insn)) d (ts + 2)]"
proof -
  from assms(3) obtain ts i1 i3 where ps: "Ps = [moves pc next ts, keeps i1 a ts, overwrites i3 d (ts + 2)]"
    and fetched: "fetched row knd pc i3 i1 0 imm"
    unfolding i_format_def by blast
  from fetched_decoded [OF assms(1) fetched assms(2)] ps show thesis by (auto intro: that)
qed

locale i_circuit =
  fixes construct :: "'c build" and knd :: InsnKind
  assumes makes: "makes row construct (\<lambda>_ Ps. \<exists>pc imm a d. i_format row knd pc (pc + 4) imm a d Ps \<and> imm_limbs knd imm a d)"
    and valid: "knd \<noteq> INVALID"
begin

lemma executes:
  assumes "row_program row = program_rows n prog"
  shows "builds row construct (\<lambda>_ rs ws. i_step prog knd rs ws)"
proof (rule builds_conseq [OF makes [unfolded makes_def]])
  fix rs ws :: ram_values
  assume "\<exists>Ps. (\<exists>pc imm a d. i_format row knd pc (pc + 4) imm a d Ps \<and> imm_limbs knd imm a d) \<and> accesses Ps rs ws"
  then obtain pc imm a d Ps where fmt: "i_format row knd pc (pc + 4) imm a d Ps"
    and alu: "imm_limbs knd imm a d" and acc: "accesses Ps rs ws" by blast
  from i_format_fetched [OF assms valid fmt] obtain w insn ts where insn: "decoded_at prog w insn"
    "insn_kind insn = knd" "pc = reg_of w" "imm = of_int (sint (imm_internal insn))"
    "Ps = [moves pc (pc + 4) ts, keeps (reg_of (rs1_or_zero insn)) a ts, overwrites (reg_of (rd_internal insn)) d (ts + 2)]" .
  moreover from alu insn obtain r where "reg_form knd = Some r" "alu_limbs r a (limbs_of (insn_imm insn)) d"
    unfolding imm_limbs_def by blast
  ultimately show "i_step prog knd rs ws" using acc unfolding i_step_def by blast
qed

end

text \<open>The immediate in the program table, zero extended or sign extended.\<close>

lemma imm_unsigned:
  assumes "insn_kind insn \<in> {ADDI, SLTIU, ANDI, XORI, ORI}"
  shows "(of_int (sint (imm_internal insn)) :: gl) = of_int (uint (insn_imm insn))"
proof -
  have "imm_internal insn = ucast (insn_imm insn)" using assms by (auto simp: imm_internal_def)
  moreover have "sint (ucast w :: i64) = uint w" for w :: u32
  proof -
    have "- (2 ^ 63) \<le> (0 :: int)" by simp
    also have "0 \<le> uint w" by simp
    finally have "- (2 ^ 63) \<le> uint w" .
    moreover have "uint w < 2 ^ 63" using uint_bound [of w] by simp
    ultimately have "signed_take_bit 63 (uint w) = uint w" by (rule signed_take_bit_int_eq_self)
    then show ?thesis by (simp add: signed_ucast_eq)
  qed
  ultimately show ?thesis by (simp only:)
qed

lemma imm_signed:
  assumes "insn_kind insn \<notin> {ADDI, SLTIU, ANDI, XORI, ORI, SLLI, SRLI, SRAI}" and "insn_format (insn_kind insn) \<notin> {Fmt_R, Fmt_U}"
  shows "sint (imm_internal insn) = sint (insn_imm insn)"
proof -
  have "imm_internal insn = scast (insn_imm insn)" using assms by (auto simp: imm_internal_def)
  then show ?thesis by (simp add: sint_up_scast is_up)
qed

text \<open>The accesses of a circuit that has computed its operand and result.\<close>

lemma i_tail_makes:
  "makes row (andThen (i_insn_construct k imm a d False) (\<lambda>i. ok (f i)))
    (\<lambda>_ Ps. \<exists>pc. i_format row k pc (pc + 4) (value_of row imm) (map (value_of row) a) (map (value_of row) d) Ps)"
  by (rule makes_bind [OF i_insn_makes], rule makes_ok) auto

subsection \<open>Addition\<close>

lemma addi_makes:
  "makes row addi_construct (\<lambda>_ Ps. \<exists>pc imm a d. i_format row ADDI pc (pc + 4) imm a d Ps \<and> imm_limbs ADDI imm a d)"
proof -
  have sum: "imm_limbs ADDI (value_of row (uint_value 16 v)) [wit row a, wit row b] (limb_values row w)"
    if "\<forall>x. holds row (pair_uint a b) x \<longrightarrow> (\<forall>y. holds row v y \<longrightarrow> holds row w (x + y))" and "holds row v z" for a b v w z
    unfolding imm_limbs_def
  proof (intro allI impI)
    fix insn assume "insn_kind insn = ADDI" "value_of row (uint_value 16 v) = of_int (sint (imm_internal insn))"
    then have "(of_int (uint z) :: gl) = of_int (uint (insn_imm insn))"
      using uint_value_holds [OF that(2)] imm_unsigned [of insn] by simp
    then have "z = insn_imm insn"
      using of_uint_inject [of "uint (insn_imm insn)" z] uint_bound [of "insn_imm insn"] word_eq_iff_unsigned [of z "insn_imm insn", where ?'a = int] by simp
    with that show "\<exists>r. reg_form ADDI = Some r \<and> alu_limbs r [wit row a, wit row b] (limbs_of (insn_imm insn)) (limb_values row w)"
      by (auto simp: alu_limbs_def holds_def limbs_of_inject)
  qed
  show ?thesis
    unfolding addi_construct_def
    by (rule makes_enforces_bind_returns [OF uint_new_unchecked_returns uint_new_unchecked_builds],
        rule makes_enforces_bind_returns [OF uint_new_returns uint_new_builds], clarify,
        rule makes_enforces_bind_returns [OF uint_add_returns uint_add_builds])
      (auto simp: register_expr_free andThen_ok intro!: makes_conseq [OF i_tail_makes], blast intro: sum)
qed

interpretation addi_insn: i_circuit addi_construct ADDI by unfold_locales (rule addi_makes, simp)

subsection \<open>Set less than\<close>

lemma imm_gap:
  assumes "lt_decision UINT_LIMBS (of_int i) (of_int j) (of_bool c)" and "- (2 ^ 32) \<le> i" "i \<le> 2 ^ 32" "- (2 ^ 32) \<le> j" "j \<le> 2 ^ 32"
  shows "c \<longleftrightarrow> i < j"
proof -
  have "\<bar>i - j\<bar> < 2 ^ 62" using assms(2-) by simp
  with lt_decision_iff [of 2 i j c] assms(1) show ?thesis by (simp add: UINT_LIMBS_def)
qed

lemma slti_makes:
  "makes row (slti_construct knd) (\<lambda>_ Ps. \<exists>pc imm a d. i_format row knd pc (pc + 4) imm a d Ps \<and> imm_limbs knd imm a d)"
proof -
  have bit: "free_uint (plain_uint (LimbExprs [WitIn w, 0]))" for w by (simp add: free_uint_def)
  have sltu: "imm_limbs SLTIU imm [wit row a, wit row b] [of_bool c, 0]"
    if "lt_decision UINT_LIMBS (value_of row (uint_value 16 (pair_uint a b))) imm (of_bool c)" for imm a b c
    unfolding imm_limbs_def
  proof (intro allI impI)
    fix insn assume imm: "insn_kind insn = SLTIU" "imm = of_int (sint (imm_internal insn))"
    have "c \<longleftrightarrow> uint x < uint (insn_imm insn)" if "holds row (pair_uint a b) x" for x
      using imm_gap [of "uint x" "uint (insn_imm insn)" c] \<open>lt_decision _ _ _ _\<close> imm imm_unsigned [of insn]
        uint_value_holds [OF that] uint_bound [of x] uint_bound [of "insn_imm insn"] by simp
    then show "\<exists>r. reg_form SLTIU = Some r \<and> alu_limbs r [wit row a, wit row b] (limbs_of (insn_imm insn)) [of_bool c, 0]"
      by (auto simp: alu_limbs_def holds_def limbs_of_bool limbs_of_inject)
  qed
  have slt: "imm_limbs SLTI imm [wit row a, wit row b] [of_bool c, 0]"
    if "lt_decision UINT_LIMBS (value_of row (to_field_expr 16 (pair_uint a b) (msb_expr neg))) imm (of_bool c)"
      and neg: "\<forall>x. holds row (pair_uint a b) x \<longrightarrow> wit row (msb_wit neg) = of_bool (x <s 0)" for imm a b c neg
    unfolding imm_limbs_def
  proof (intro allI impI)
    fix insn assume imm: "insn_kind insn = SLTI" "imm = of_int (sint (imm_internal insn))"
    have "c \<longleftrightarrow> sint x < sint (insn_imm insn)" if x: "holds row (pair_uint a b) x" for x
      using imm_gap [of "sint x" "sint (insn_imm insn)" c] \<open>lt_decision _ _ _ _\<close> imm imm_signed [of insn]
        signed_value [OF x neg [rule_format, OF x]] sint_bound [of x] sint_bound [of "insn_imm insn"] by simp
    then show "\<exists>r. reg_form SLTI = Some r \<and> alu_limbs r [wit row a, wit row b] (limbs_of (insn_imm insn)) [of_bool c, 0]"
      by (auto simp: alu_limbs_def holds_def limbs_of_bool limbs_of_inject)
  qed
  show ?thesis
    unfolding slti_construct_def bit_uint Let_def
    by (rule makes_enforces_bind_returns [OF uint_new_unchecked_returns uint_new_unchecked_builds], clarify,
        rule makes_enforces_bind [OF create_witin_builds])
      (auto simp: andThen_assoc andThen_ok andThen_fail register_expr_free bit intro!: makes_fail
        makes_enforces_bind [OF is_negative_builds] makes_enforces_bind [OF is_lt_builds]
        makes_conseq [OF i_tail_makes], (blast intro: slt sltu)+)
qed

interpretation slti_insn: i_circuit "slti_construct SLTI" SLTI by unfold_locales (rule slti_makes, simp)
interpretation sltiu_insn: i_circuit "slti_construct SLTIU" SLTIU by unfold_locales (rule slti_makes, simp)

subsection \<open>Bytewise logic\<close>

fun logic_kind :: "InsnKind \<Rightarrow> InsnKind" where
  "logic_kind ANDI = AND_K"
| "logic_kind ORI = OR_K"
| "logic_kind _ = XOR_K"

lemma uint8_value_plain:
  "value_of row (uint_value 8 (plain_uint (LimbWits [a, b, c, d]))) =
    of_nat (canon (wit row a) + 2 ^ 8 * canon (wit row b) + 2 ^ 16 * (canon (wit row c) + 2 ^ 8 * canon (wit row d)))"
proof -
  have "value_of row (uint_value 8 (plain_uint (LimbWits [a, b, c, d]))) =
      ((wit row d * 2 ^ 8 + wit row c) * 2 ^ 8 + wit row b) * 2 ^ 8 + wit row a"
    by (simp add: uint_value_def)
  also have "\<dots> = wit row a + 2 ^ 8 * wit row b + 2 ^ 16 * (wit row c + 2 ^ 8 * wit row d)" by (simp add: algebra_simps)
  finally show ?thesis by simp
qed

lemma imm_bytes:
  assumes "a < 2 ^ 8" "b < 2 ^ 8" "c < 2 ^ 8" "d < 2 ^ 8"
    and "(of_nat (a + 2 ^ 8 * b + 2 ^ 16 * (c + 2 ^ 8 * d)) :: gl) = of_int (uint w)"
  shows "limbs_of w = [of_nat (a + 2 ^ 8 * b), of_nat (c + 2 ^ 8 * d)]"
proof -
  let ?n = "a + 2 ^ 8 * b + 2 ^ 16 * (c + 2 ^ 8 * d)"
  have n: "?n < 2 ^ 32" using assms(1-4) by simp
  then have "uint w = int ?n"
    using of_uint_inject [of "int ?n" w] assms(5) by (simp del: of_nat_add of_nat_mult)
  then have "w = word_of_int (int ?n)" by (metis word_of_int_uint)
  then have "w = of_nat ?n" by (simp only: of_int_of_nat_eq)
  moreover have "a + 2 ^ 8 * b < 2 ^ 16" "c + 2 ^ 8 * d < 2 ^ 16" using assms(1-4) by simp_all
  ultimately show ?thesis using limbs_of_nat by blast
qed

lemma logic_imm_makes:
  assumes knd: "knd \<in> {ANDI, ORI, XORI}"
  shows "makes row (logic_imm_construct knd) (\<lambda>_ Ps. \<exists>pc imm a d. i_format row knd pc (pc + 4) imm a d Ps \<and> imm_limbs knd imm a d)"
proof -
  have tbl: "logic_imm_table knd = logic_table (logic_kind knd)" "logic_kind knd \<in> {AND_K, OR_K, XOR_K}"
    and form: "reg_form knd = Some (logic_kind knd)" and kinds: "knd \<in> {ADDI, SLTIU, ANDI, XORI, ORI}"
    using knd by auto
  note u8 = logic_u8_builds [OF tbl(2)]
  have tail: "makes row (andThen (i_insn_construct knd (uint_value 8 (plain_uint (LimbWits [b0, b1, b2, b3])))
        [WitIn a0 + WitIn a1 * from_unsigned 256, WitIn a2 + WitIn a3 * from_unsigned 256]
        [WitIn c0 + WitIn c1 * from_unsigned 256, WitIn c2 + WitIn c3 * from_unsigned 256] False) (\<lambda>i.
      andThen (uint_logic (logic_table (logic_kind knd)) (plain_uint (LimbWits [a0, a1, a2, a3])) (plain_uint (LimbWits [b0, b1, b2, b3]))
        (plain_uint (LimbWits [c0, c1, c2, c3]))) (\<lambda>_. ok (f i))))
    (\<lambda>_ Ps. \<exists>pc imm a d. i_format row knd pc (pc + 4) imm a d Ps \<and> imm_limbs knd imm a d)" for a0 a1 a2 a3 b0 b1 b2 b3 c0 c1 c2 c3 f
    unfolding uint_logic_flat andThen_assoc
  proof (rule makes_bind [OF i_insn_makes], (rule makes_enforces_bind [OF u8])+, rule makes_ok, safe)
    fix i Qs
    let ?imm = "uint_value 8 (plain_uint (LimbWits [b0, b1, b2, b3]))"
    assume fmt: "i_format row knd (wit row (st_pc (i_state i))) (wit row (st_pc (i_state i)) + 4) (value_of row ?imm)
        (map (value_of row) [WitIn a0 + WitIn a1 * from_unsigned 256, WitIn a2 + WitIn a3 * from_unsigned 256])
        (map (value_of row) [WitIn c0 + WitIn c1 * from_unsigned 256, WitIn c2 + WitIn c3 * from_unsigned 256]) Qs"
      and bytes: "canon (value_of row (WitIn a0)) < 2 ^ 8" "canon (value_of row (WitIn a1)) < 2 ^ 8"
        "canon (value_of row (WitIn a2)) < 2 ^ 8" "canon (value_of row (WitIn a3)) < 2 ^ 8"
        "canon (value_of row (WitIn b0)) < 2 ^ 8" "canon (value_of row (WitIn b1)) < 2 ^ 8"
        "canon (value_of row (WitIn b2)) < 2 ^ 8" "canon (value_of row (WitIn b3)) < 2 ^ 8"
      and c: "value_of row (WitIn c0) = of_nat (bit_op (logic_kind knd) (canon (value_of row (WitIn a0))) (canon (value_of row (WitIn b0))))"
        "value_of row (WitIn c1) = of_nat (bit_op (logic_kind knd) (canon (value_of row (WitIn a1))) (canon (value_of row (WitIn b1))))"
        "value_of row (WitIn c2) = of_nat (bit_op (logic_kind knd) (canon (value_of row (WitIn a2))) (canon (value_of row (WitIn b2))))"
        "value_of row (WitIn c3) = of_nat (bit_op (logic_kind knd) (canon (value_of row (WitIn a3))) (canon (value_of row (WitIn b3))))"
    have "imm_limbs knd (value_of row ?imm) [wit row a0 + wit row a1 * 256, wit row a2 + wit row a3 * 256]
        [wit row c0 + wit row c1 * 256, wit row c2 + wit row c3 * 256]"
      unfolding imm_limbs_def
    proof (intro allI impI exI conjI, rule form)
      fix insn
      assume "insn_kind insn = knd" "value_of row ?imm = of_int (sint (imm_internal insn))"
      then have "(of_nat (canon (wit row b0) + 2 ^ 8 * canon (wit row b1) + 2 ^ 16 * (canon (wit row b2) + 2 ^ 8 * canon (wit row b3))) :: gl) =
          of_int (uint (insn_imm insn))"
        using imm_unsigned [of insn] kinds unfolding uint8_value_plain by metis
      then have "limbs_of (insn_imm insn) =
          [of_nat (canon (wit row b0) + 2 ^ 8 * canon (wit row b1)), of_nat (canon (wit row b2) + 2 ^ 8 * canon (wit row b3))]"
        using imm_bytes bytes(5-8) by simp
      then show "alu_limbs (logic_kind knd) [wit row a0 + wit row a1 * 256, wit row a2 + wit row a3 * 256] (limbs_of (insn_imm insn))
          [wit row c0 + wit row c1 * 256, wit row c2 + wit row c3 * 256]"
        using bit_op_limbs [OF tbl(2) bytes] c by (simp add: mult.commute)
    qed
    with fmt show "\<exists>pc imm a d. i_format row knd pc (pc + 4) imm a d (Qs @ []) \<and> imm_limbs knd imm a d" by auto
  qed
  show ?thesis
    unfolding logic_imm_construct_def logic_imm_config_construct_def andThen_assoc tbl(1)
    by (rule makes_enforces_bind_returns [OF uint8_new_unchecked_returns uint8_new_unchecked_builds],
        rule makes_enforces_bind_returns [OF uint8_new_unchecked_returns uint8_new_unchecked_builds],
        rule makes_enforces_bind_returns [OF uint8_new_unchecked_returns uint8_new_unchecked_builds])
      (use tail in \<open>auto simp: andThen_ok register_expr8_plain\<close>)
qed

interpretation andi_insn: i_circuit "logic_imm_construct ANDI" ANDI by unfold_locales (rule logic_imm_makes, simp_all)
interpretation ori_insn: i_circuit "logic_imm_construct ORI" ORI by unfold_locales (rule logic_imm_makes, simp_all)
interpretation xori_insn: i_circuit "logic_imm_construct XORI" XORI by unfold_locales (rule logic_imm_makes, simp_all)

end
