(* ===== verification/Control.thy ===== *)
theory Control
  imports Immediate
begin

text \<open>
  The circuits of the branches, JAL and JALR (\<open>instructions/riscv/branch/branch_circuit.rs\<close>, \<open>jump/jal.rs\<close>,
  \<open>jump/jalr.rs\<close>), and the pc and registers they enforce. The feature \<open>forbid_overflow\<close> of JALR is the
  parameter \<open>forbid\<close>.
\<close>

subsection \<open>Branches\<close>

record BranchConfig =
  br_b_insn :: BInstructionConfig
  br_rs1 :: UIntLimbs
  br_rs2 :: UIntLimbs
  br_is_equal :: "IsZeroConfig option"
  br_is_signed_lt :: "SignedLtConfig option"
  br_is_unsigned_lt :: "IsLtConfig option"

text \<open>The branch-taken bit and the gadget that decides it.\<close>

definition branch_taken_bit ::
  "InsnKind \<Rightarrow> UIntLimbs \<Rightarrow> UIntLimbs \<Rightarrow> (expr \<times> IsZeroConfig option \<times> SignedLtConfig option \<times> IsLtConfig option) build" where
  "branch_taken_bit knd rs1 rs2 =
     (if knd = BEQ then
        andThen (is_equal_construct (uint_value 16 rs2) (uint_value 16 rs1)) (\<lambda>equal.
        ok (is_zero_expr_of equal, Some equal, None, None))
      else if knd = BNE then
        andThen (is_equal_construct (uint_value 16 rs2) (uint_value 16 rs1)) (\<lambda>equal.
        ok (1 - is_zero_expr_of equal, Some equal, None, None))
      else if knd = BLT then
        andThen (signed_lt_construct rs1 rs2) (\<lambda>signed_lt.
        ok (WitIn (slt_wit signed_lt), None, Some signed_lt, None))
      else if knd = BGE then
        andThen (signed_lt_construct rs1 rs2) (\<lambda>signed_lt.
        ok (1 - WitIn (slt_wit signed_lt), None, Some signed_lt, None))
      else if knd = BLTU then
        andThen (is_lt_construct (uint_value 16 rs1) (uint_value 16 rs2) UINT_LIMBS) (\<lambda>unsigned_lt.
        ok (WitIn (is_lt_wit unsigned_lt), None, None, Some unsigned_lt))
      else if knd = BGEU then
        andThen (is_lt_construct (uint_value 16 rs1) (uint_value 16 rs2) UINT_LIMBS) (\<lambda>unsigned_lt.
        ok (1 - WitIn (is_lt_wit unsigned_lt), None, None, Some unsigned_lt))
      else fail (ZkvmPanic ''Unsupported instruction kind''))"

definition branch_construct :: "InsnKind \<Rightarrow> BranchConfig build" where
  "branch_construct knd =
     andThen (uint_new_unchecked 32 16) (\<lambda>read_rs1.
     andThen (uint_new_unchecked 32 16) (\<lambda>read_rs2.
     andThen (branch_taken_bit knd read_rs1 read_rs2) (\<lambda>(taken, is_equal, is_signed_lt, is_unsigned_lt).
     andThen (register_expr read_rs1) (\<lambda>a.
     andThen (register_expr read_rs2) (\<lambda>b.
     andThen (b_insn_construct knd a b taken) (\<lambda>b_insn.
     ok \<lparr>br_b_insn = b_insn, br_rs1 = read_rs1, br_rs2 = read_rs2, br_is_equal = is_equal,
         br_is_signed_lt = is_signed_lt, br_is_unsigned_lt = is_unsigned_lt\<rparr>))))))"

definition branch_assign :: "BranchConfig \<Rightarrow> StepRecord \<Rightarrow> unit assign" where
  "branch_assign cfg r =
     andThen (b_insn_assign (br_b_insn cfg) r) (\<lambda>_.
     andThen (expect (rec_rs1 r) ''unwrap'') (\<lambda>rs1_op.
     andThen (expect (rec_rs2 r) ''unwrap'') (\<lambda>rs2_op.
     let rs1 = op_value rs1_op; rs2 = op_value rs2_op in
     andThen (assign_limbs 32 16 (br_rs1 cfg) (v_limbs (word_value rs1))) (\<lambda>_.
     andThen (assign_limbs 32 16 (br_rs2 cfg) (v_limbs (word_value rs2))) (\<lambda>_.
     andThen (case br_is_equal cfg of None \<Rightarrow> ok ()
       | Some equal \<Rightarrow> is_equal_assign equal (of_nat (unat rs2)) (of_nat (unat rs1))) (\<lambda>_.
     andThen (case br_is_signed_lt cfg of None \<Rightarrow> ok ()
       | Some signed_lt \<Rightarrow> signed_lt_assign signed_lt rs1 rs2) (\<lambda>_.
     case br_is_unsigned_lt cfg of None \<Rightarrow> ok ()
       | Some unsigned_lt \<Rightarrow> is_lt_assign unsigned_lt (ucast rs1) (ucast rs2))))))))"

subsection \<open>Jumps\<close>

record JalConfig =
  jal_j_insn :: JInstructionConfig
  jal_rd :: UIntLimbs

definition jal_construct :: "JalConfig build" where
  "jal_construct =
     andThen (uint_new 32 16) (\<lambda>rd_written.
     andThen (register_expr rd_written) (\<lambda>d.
     andThen (j_insn_construct JAL d) (\<lambda>j_insn.
     andThen (require_equal (uint_value 16 rd_written) (WitIn (st_pc (j_state j_insn)) + from_unsigned PC_STEP_SIZE)) (\<lambda>_.
     ok \<lparr>jal_j_insn = j_insn, jal_rd = rd_written\<rparr>))))"

definition jal_assign :: "JalConfig \<Rightarrow> StepRecord \<Rightarrow> unit assign" where
  "jal_assign cfg r =
     andThen (j_insn_assign (jal_j_insn cfg) r) (\<lambda>_.
     andThen (expect (rec_rd r) ''unwrap'') (\<lambda>rd.
     andThen (value_new 32 (ucast (after (op_value rd)))) (\<lambda>rd_written.
     assign_value 32 16 (jal_rd cfg) rd_written)))"

record JalrConfig =
  jalr_i_insn :: IInstructionConfig
  jalr_rs1 :: UIntLimbs
  jalr_imm :: nat
  jalr_next_pc_addr :: MemAddr
  jalr_overflow :: "(nat \<times> nat) option"
  jalr_rd :: UIntLimbs

text \<open>The overflow of \<open>rs1 + imm\<close>, one of -1, 0 and 1.\<close>

definition jalr_overflow_construct :: "bool \<Rightarrow> (expr \<times> (nat \<times> nat) option) build" where
  "jalr_overflow_construct forbid =
     (if forbid then ok (0, None)
      else andThen create_witin (\<lambda>overflow. andThen create_witin (\<lambda>tmp.
           andThen (require_zero (WitIn overflow * WitIn tmp)) (\<lambda>_.
           andThen (require_equal (WitIn tmp) ((from_unsigned 1 - WitIn overflow) * (from_unsigned 1 + WitIn overflow))) (\<lambda>_.
           ok (WitIn overflow, Some (overflow, tmp)))))))"

definition jalr_construct :: "bool \<Rightarrow> JalrConfig build" where
  "jalr_construct forbid =
     andThen (uint_new_unchecked 32 16) (\<lambda>rs1_read.
     andThen create_witin (\<lambda>imm.
     andThen (uint_new 32 16) (\<lambda>rd_written.
     andThen (register_expr rs1_read) (\<lambda>a.
     andThen (register_expr rd_written) (\<lambda>d.
     andThen (i_insn_construct JALR (WitIn imm) a d True) (\<lambda>i_insn.
     andThen construct_unaligned (\<lambda>next_pc_addr.
     andThen (jalr_overflow_construct forbid) (\<lambda>(overflow_expr, overflow).
     andThen (require_equal (uint_value 16 rs1_read + WitIn imm)
       (expr_unaligned next_pc_addr + overflow_expr * from_unsigned (2 ^ 32))) (\<lambda>_.
     andThen (expect (st_next_pc (i_state i_insn)) ''unwrap'') (\<lambda>next_pc.
     andThen (require_equal (expr_align2 next_pc_addr) (WitIn next_pc)) (\<lambda>_.
     andThen (require_equal (uint_value 16 rd_written) (WitIn (st_pc (i_state i_insn)) + from_unsigned PC_STEP_SIZE)) (\<lambda>_.
     ok \<lparr>jalr_i_insn = i_insn, jalr_rs1 = rs1_read, jalr_imm = imm, jalr_next_pc_addr = next_pc_addr,
         jalr_overflow = overflow, jalr_rd = rd_written\<rparr>))))))))))))"

text \<open>\<open>u32::overflowing_add_signed\<close>.\<close>

definition overflowing_add_signed :: "u32 \<Rightarrow> i32 \<Rightarrow> u32 \<times> bool" where
  "overflowing_add_signed a b = (a + b, (unat a + unat b \<ge> 2 ^ 32) \<noteq> (b <s 0))"

definition jalr_assign :: "JalrConfig \<Rightarrow> StepRecord \<Rightarrow> unit assign" where
  "jalr_assign cfg r =
     andThen (expect (rec_rs1 r) ''unwrap'') (\<lambda>rs1_op.
     andThen (expect (rec_rd r) ''unwrap'') (\<lambda>rd_op.
     let rs1 = op_value rs1_op; imm = imm_internal (rec_insn r); rd = after (op_value rd_op);
         (sum, overflowing) = overflowing_add_signed rs1 (ucast imm)
     in andThen (assign_value 32 16 (jalr_rs1 cfg) (word_value rs1)) (\<lambda>_.
     andThen (value_new 32 (ucast rd)) (\<lambda>rd_v.
     andThen (assign_value 32 16 (jalr_rd cfg) rd_v) (\<lambda>_.
     andThen (set_val (jalr_imm cfg) (i64_to_base imm)) (\<lambda>_.
     andThen (mem_addr_assign (jalr_next_pc_addr cfg) sum) (\<lambda>_.
     andThen (case jalr_overflow cfg of
         Some (overflow_cfg, tmp_cfg) \<Rightarrow>
           let (overflow, tmp) = (if \<not> overflowing then (0, 1) else if imm <s 0 then (- 1, 0) else (1, 0))
           in andThen (set_val overflow_cfg overflow) (\<lambda>_. set_val tmp_cfg tmp)
       | None \<Rightarrow> zkvm_assert (\<not> overflowing) ''overflow not allowed in JALR'') (\<lambda>_.
     i_insn_assign (jalr_i_insn cfg) r))))))))"

subsection \<open>The contract of a branch\<close>

definition branch_decides :: "InsnKind \<Rightarrow> gl list \<Rightarrow> gl list \<Rightarrow> gl \<Rightarrow> bool" where
  "branch_decides k a b t \<longleftrightarrow>
     (\<forall>x y. a = limbs_of x \<longrightarrow> b = limbs_of y \<longrightarrow> (\<exists>c. isa_branch k x y = Some c \<and> t = of_bool c))"

text \<open>A branch goes to its target when it is taken, and to the next instruction otherwise.\<close>

definition b_step :: "Program \<Rightarrow> InsnKind \<Rightarrow> ram_values \<Rightarrow> ram_values \<Rightarrow> bool" where
  "b_step prog k rs ws \<longleftrightarrow> (\<exists>pc insn ts a b t.
     decoded_at prog pc insn \<and> insn_kind insn = k \<and> branch_decides k a b t \<and>
     accesses [moves (reg_of pc) (reg_of pc + (t * of_int (sint (insn_imm insn)) - t * 4 + 4)) ts,
       keeps (reg_of (rs1_or_zero insn)) a ts, keeps (reg_of (rs2_or_zero insn)) b (ts + 1)] rs ws)"

locale b_circuit =
  fixes construct :: "'c build" and knd :: InsnKind
  assumes makes: "makes row construct (\<lambda>_ Ps. \<exists>t a b. b_format row knd t a b Ps \<and> branch_decides knd a b t)"
    and format: "insn_format knd = Fmt_B"
begin

lemma executes:
  assumes "row_program row = program_rows n prog"
  shows "builds row construct (\<lambda>_ rs ws. b_step prog knd rs ws)"
proof (rule builds_conseq [OF makes [unfolded makes_def]])
  fix rs ws :: ram_values
  assume "\<exists>Ps. (\<exists>t a b. b_format row knd t a b Ps \<and> branch_decides knd a b t) \<and> accesses Ps rs ws"
  then obtain t a b pc ts i1 i2 imm where
    acc: "accesses [moves pc (pc + (t * imm - t * 4 + 4)) ts, keeps i1 a ts, keeps i2 b (ts + 1)] rs ws"
    and dec: "branch_decides knd a b t" and fetched: "fetched row knd pc 32 i1 i2 imm"
    unfolding b_format_def by blast
  have valid: "knd \<noteq> INVALID" using format by auto
  from fetched_decoded [OF assms fetched valid] obtain w insn where "decoded_at prog w insn"
    and insn: "insn_kind insn = knd" "pc = reg_of w" "i1 = reg_of (rs1_or_zero insn)" "i2 = reg_of (rs2_or_zero insn)"
      "imm = of_int (sint (imm_internal insn))" by blast
  moreover have "sint (imm_internal insn) = sint (insn_imm insn)"
    using format insn(1) by (intro imm_signed) auto
  ultimately show "b_step prog knd rs ws" using acc dec unfolding b_step_def by metis
qed

end

lemma uint_inject: "uint (x :: u32) = uint y \<Longrightarrow> x = y"
  by (simp add: word_eq_iff_unsigned [where ?'a = int])

lemma comparison_returns:
  "returns (signed_lt_construct u v) (\<lambda>_. True)" "returns (is_lt_construct a b n) (\<lambda>_. True)"
  by (rule returns_any)+

lemma branch_taken_bit_returns:
  "returns (branch_taken_bit knd (pair_uint a0 a1) (pair_uint b0 b1)) (\<lambda>(taken, _). challenge_free taken)"
  unfolding branch_taken_bit_def
  by (auto intro!: returns_bind [OF is_equal_construct_returns] returns_bind [OF comparison_returns(1)]
      returns_bind [OF comparison_returns(2)] returns_ok returns_fail)

lemma branch_taken_bit_builds:
  "enforces row (branch_taken_bit knd (pair_uint a0 a1) (pair_uint b0 b1))
    (\<lambda>(taken, _). branch_decides knd [wit row a0, wit row a1] [wit row b0, wit row b1] (value_of row taken))"
proof -
  have eq: "value_of row (uint_value 16 (pair_uint b0 b1)) = value_of row (uint_value 16 (pair_uint a0 a1)) \<longleftrightarrow> x = y"
    if "holds row (pair_uint a0 a1) x" "holds row (pair_uint b0 b1) y" for x y
    using uint_value_holds [OF that(1)] uint_value_holds [OF that(2)] of_uint_inject [of "uint x" y] uint_bound [of x]
    by (auto dest: uint_inject)
  show ?thesis
    unfolding branch_taken_bit_def
    by (auto intro!: enforces_bind_returns [OF is_equal_construct_returns is_equal_construct_builds]
        enforces_bind [OF signed_lt_builds] enforces_bind [OF is_lt_words_builds] builds_ok builds_fail
        simp: branch_decides_def eq holds_def dest: uint_inject)
qed

lemma branch_makes:
  "makes row (branch_construct knd) (\<lambda>_ Ps. \<exists>t a b. b_format row knd t a b Ps \<and> branch_decides knd a b t)"
  unfolding branch_construct_def
  by (rule makes_enforces_bind_returns [OF uint_new_unchecked_returns uint_new_unchecked_builds],
      rule makes_enforces_bind_returns [OF uint_new_unchecked_returns uint_new_unchecked_builds], clarify,
      rule makes_enforces_bind_returns [OF branch_taken_bit_returns branch_taken_bit_builds])
    (auto simp: register_expr_free andThen_ok intro!: makes_bind [OF b_insn_makes] makes_ok, blast)

interpretation beq_insn: b_circuit "branch_construct BEQ" BEQ by unfold_locales (rule branch_makes, simp)
interpretation bne_insn: b_circuit "branch_construct BNE" BNE by unfold_locales (rule branch_makes, simp)
interpretation blt_insn: b_circuit "branch_construct BLT" BLT by unfold_locales (rule branch_makes, simp)
interpretation bge_insn: b_circuit "branch_construct BGE" BGE by unfold_locales (rule branch_makes, simp)
interpretation bltu_insn: b_circuit "branch_construct BLTU" BLTU by unfold_locales (rule branch_makes, simp)
interpretation bgeu_insn: b_circuit "branch_construct BGEU" BGEU by unfold_locales (rule branch_makes, simp)

subsection \<open>The contract of a jump\<close>

text \<open>JAL links the next instruction; the circuit has no row for a jump at the last address.\<close>

definition j_step :: "Program \<Rightarrow> ram_values \<Rightarrow> ram_values \<Rightarrow> bool" where
  "j_step prog rs ws \<longleftrightarrow> (\<exists>pc insn ts. decoded_at prog pc insn \<and> insn_kind insn = JAL \<and> unat pc + 4 < 2 ^ 32 \<and>
     accesses [moves (reg_of pc) (reg_of pc + of_int (sint (insn_imm insn))) ts,
       overwrites (reg_of (rd_internal insn)) (limbs_of (pc + 4)) (ts + 2)] rs ws)"

text \<open>JALR goes to the sum of the register and the immediate, modulo \<open>2 ^ 32\<close> and made even.\<close>

definition jalr_target :: "gl list \<Rightarrow> u32 \<Rightarrow> gl \<Rightarrow> bool" where
  "jalr_target a imm nxt \<longleftrightarrow> (\<forall>x. a = limbs_of x \<longrightarrow> nxt = reg_of ((x + imm) AND NOT 1))"

definition jalr_step :: "Program \<Rightarrow> ram_values \<Rightarrow> ram_values \<Rightarrow> bool" where
  "jalr_step prog rs ws \<longleftrightarrow> (\<exists>pc insn ts a nxt. decoded_at prog pc insn \<and> insn_kind insn = JALR \<and> unat pc + 4 < 2 ^ 32 \<and>
     jalr_target a (insn_imm insn) nxt \<and>
     accesses [moves (reg_of pc) nxt ts, keeps (reg_of (rs1_or_zero insn)) a ts,
       overwrites (reg_of (rd_internal insn)) (limbs_of (pc + 4)) (ts + 2)] rs ws)"

lemma link_word:
  fixes w pc :: u32
  assumes "(of_int (uint w) :: gl) = of_nat (unat pc) + 4"
  shows "w = pc + 4 \<and> unat pc + 4 < 2 ^ 32"
proof -
  have "(of_int (uint w) :: gl) = of_int (uint pc + 4)" using assms by simp
  then have "uint w = uint pc + 4"
    by (rule gl_eq_int) (use uint_bound [of w] uint_bound [of pc] in linarith)
  then have "w = word_of_int (uint pc + 4)" "uint pc + 4 < 2 ^ 32" using uint_bound [of w] by (metis word_of_int_uint, simp)
  moreover from this(2) have "int (unat pc + 4) < int (2 ^ 32)" by simp
  then have "unat pc + 4 < 2 ^ 32" by (simp only: of_nat_less_iff)
  ultimately show ?thesis by simp
qed

lemma even_part: "unat ((t :: u32) AND NOT 1) = unat t div 2 * 2"
proof -
  have "a AND NOT (mask n) = push_bit n (drop_bit n a)" for a :: u32 and n
    by (rule bit_word_eqI) (auto simp: bit_simps)
  from this [of t 1] have e: "t AND NOT 1 = push_bit 1 (drop_bit 1 t)" by simp
  have "unat t < 4294967296" using unsigned_less [of t, where ?'a = nat] by simp
  then have "unat t div 2 < 2147483648" by (intro less_mult_imp_div_less) simp
  moreover have "unat (push_bit 1 u) = take_bit 32 (unat u * 2)" for u :: u32
    by (simp only: unsigned_push_bit_eq) (simp add: push_bit_eq_mult)
  moreover have "unat (drop_bit 1 t) = unat t div 2"
    by (simp only: unsigned_drop_bit_eq) (simp add: drop_bit_eq_div take_bit_nat_eq_self \<open>unat t < 4294967296\<close>)
  ultimately show ?thesis unfolding e by (simp only:) (simp add: take_bit_nat_eq_self_iff)
qed

lemma two_32: "(4294967296 :: int) = 2 ^ 32"
  by simp

lemma jump_word:
  fixes x t imm :: u32
  assumes "(of_int (uint x) + of_int (sint imm) :: gl) = of_nat (unat t) + ov * 4294967296" and "ov \<in> {- 1, 0, 1}"
  shows "t = x + imm"
proof -
  obtain k :: int where k: "ov = of_int k" "\<bar>k\<bar> \<le> 1"
  proof
    show "ov = of_int (if ov = - 1 then - 1 else if ov = 0 then 0 else 1)" using assms(2) by auto
  qed simp
  have "(of_int (uint x + sint imm) :: gl) = of_int (uint t + k * 4294967296)" using assms(1) k(1) by simp
  then have eq: "uint x + sint imm = uint t + k * 4294967296"
    by (rule gl_eq_int) (use k(2) uint_bound [of x] uint_bound [of t] sint_bound [of imm] in linarith)
  have "x + imm = word_of_int (uint x + sint imm)" by simp
  also have "\<dots> = word_of_int (uint t + k * 4294967296)" by (simp only: eq)
  also have "\<dots> = t + word_of_int k * word_of_int 4294967296" by simp
  also have "(word_of_int 4294967296 :: u32) = 0" by (subst two_32) simp
  finally show ?thesis by simp
qed

lemma jal_makes:
  assumes "row_program row = program_rows n prog"
  shows "builds row jal_construct (\<lambda>_ rs ws. j_step prog rs ws)"
proof -
  have "makes row jal_construct (\<lambda>_ Ps. \<exists>pc w. j_format row JAL pc (limbs_of w) Ps \<and> of_int (uint w) = pc + 4)"
    unfolding jal_construct_def
  proof (rule makes_enforces_bind_returns [OF uint_new_returns uint_new_builds], clarify, simp only: register_expr_free free_plain andThen_ok,
      rule makes_bind [OF j_insn_makes], rule makes_enforces_bind [OF require_equal_builds], simp, rule makes_ok, safe)
    fix a b j Qs w
    assume "holds row (pair_uint a b) w" "j_format row JAL (wit row (st_pc (j_state j))) (limb_values row (pair_uint a b)) Qs"
      "value_of row (uint_value 16 (pair_uint a b)) = value_of row (WitIn (st_pc (j_state j)) + from_unsigned PC_STEP_SIZE)"
    then show "\<exists>pc w. j_format row JAL pc (limbs_of w) (Qs @ []) \<and> of_int (uint w) = pc + 4"
      using uint_value_holds [of row "pair_uint a b" w] by (auto simp: map_value_holds PC_STEP_SIZE_def)
  qed
  then show ?thesis unfolding makes_def
  proof (rule builds_conseq)
    fix rs ws :: ram_values
    assume "\<exists>Ps. (\<exists>pc w. j_format row JAL pc (limbs_of w) Ps \<and> of_int (uint w) = pc + 4) \<and> accesses Ps rs ws"
    then obtain pc w nxt ts i3 where acc: "accesses [moves pc nxt ts, overwrites i3 (limbs_of w) (ts + 2)] rs ws"
      and fetched: "fetched row JAL pc i3 0 0 (nxt - pc)" and w: "(of_int (uint w) :: gl) = pc + 4" unfolding j_format_def by blast
    from fetched_decoded [OF assms fetched] obtain v insn where "decoded_at prog v insn"
      and insn: "insn_kind insn = JAL" "pc = reg_of v" "i3 = reg_of (rd_internal insn)" "nxt - pc = of_int (sint (imm_internal insn))" by auto
    moreover have "sint (imm_internal insn) = sint (insn_imm insn)" using insn(1) by (intro imm_signed) auto
    then have "nxt = reg_of v + of_int (sint (insn_imm insn))" using insn(2,4) by (simp only: diff_eq_eq add.commute)
    moreover have "w = v + 4 \<and> unat v + 4 < 2 ^ 32" using w insn(2) by (intro link_word) (simp only:)
    ultimately show "j_step prog rs ws" using acc unfolding j_step_def by metis
  qed
qed

lemma overflow_returns: "returns (jalr_overflow_construct forbid) (\<lambda>(ov, _). challenge_free ov)"
  unfolding jalr_overflow_construct_def by (cases forbid; simp; intro returns_then returns_ok; simp)

lemma overflow_builds: "enforces row (jalr_overflow_construct forbid) (\<lambda>(ov, _). value_of row ov \<in> {- 1, 0, 1})"
proof (cases forbid)
  case True
  then show ?thesis by (simp add: jalr_overflow_construct_def builds_ok)
next
  case False
  have zero: "x \<in> {- 1, 0, 1}" if "x * t = 0" "t = (1 - x) * (1 + x)" for x t :: gl
  proof -
    from that have "x = 0 \<or> 1 - x = 0 \<or> 1 + x = 0" by simp
    moreover have "x = - 1" if "1 + x = 0" using that by (simp add: eq_neg_iff_add_eq_0 add.commute)
    ultimately show ?thesis by auto
  qed
  show ?thesis unfolding jalr_overflow_construct_def if_not_P [OF False]
  proof (intro enforces_bind [OF create_witin_builds] enforces_bind [OF require_zero_builds]
        enforces_bind [OF require_equal_builds] builds_ok impI conjI refl, simp, unfold prod.case)
    fix x t
    assume "value_of row (WitIn t) = value_of row ((from_unsigned 1 - WitIn x) * (from_unsigned 1 + WitIn x))"
      and "value_of row (WitIn x * WitIn t) = 0"
    then show "value_of row (WitIn x) \<in> {- 1, 0, 1}" using zero [of "wit row x" "wit row t"] by simp
  qed
qed

lemma addr_free [simp]:
  assumes "wf_addr a"
  shows "challenge_free (expr_unaligned a)" "challenge_free (expr_align2 a)" "challenge_free (expr_align4 a)"
  using assms by (auto simp: wf_addr_def expr_unaligned_def expr_align2_def expr_align4_def address_expr_def)

lemma jalr_makes:
  assumes prog: "row_program row = program_rows n prog"
  shows "builds row (jalr_construct forbid) (\<lambda>_ rs ws. jalr_step prog rs ws)"
proof -
  have "makes row (jalr_construct forbid) (\<lambda>_ Ps. \<exists>pc nxt imm a w t ov. i_format row JALR pc nxt imm a (limbs_of w) Ps \<and>
      of_int (uint w) = pc + 4 \<and> nxt = reg_of (t AND NOT 1) \<and> ov \<in> {- 1, 0, 1} \<and>
      (\<forall>x. a = limbs_of x \<longrightarrow> of_int (uint x) + imm = reg_of t + ov * 4294967296))"
    unfolding jalr_construct_def construct_unaligned_def
  proof (rule makes_enforces_bind_returns [OF uint_new_unchecked_returns uint_new_unchecked_builds], clarify,
      rule makes_enforces_bind [OF create_witin_builds], rule makes_enforces_bind_returns [OF uint_new_returns uint_new_builds], clarify,
      simp only: register_expr_free free_plain andThen_ok, rule makes_bind [OF i_insn_branching_makes],
      rule makes_enforces_bind_returns [OF mem_addr_returns mem_addr_builds],
      rule makes_enforces_bind_returns [OF overflow_returns overflow_builds], clarify,
      rule makes_enforces_bind [OF require_equal_builds], simp, rule makes_enforces_bind [OF expect_builds],
      rule makes_enforces_bind [OF require_equal_builds], simp, rule makes_enforces_bind [OF require_equal_builds], simp,
      rule makes_ok, intro impI allI, elim exE conjE)
    fix a b c d :: nat and imm i m ov nx Qs w t n
    assume wf: "wf_addr m" and w: "holds row (pair_uint c d) w" and t: "addr_holds row m t"
      and nx: "st_next_pc (i_state i) = Some nx" "st_next_pc (i_state i) = Some n"
      and eqs: "value_of row (uint_value 16 (pair_uint c d)) = value_of row (WitIn (st_pc (i_state i)) + from_unsigned PC_STEP_SIZE)"
        "value_of row (expr_align2 m) = value_of row (WitIn nx)"
        "value_of row (uint_value 16 (pair_uint a b) + WitIn imm) = value_of row (expr_unaligned m + ov * from_unsigned (2 ^ 32))"
      and ov: "value_of row ov \<in> {- 1, 0, 1}"
      and fmt: "i_format row JALR (wit row (st_pc (i_state i))) (wit row n) (value_of row (WitIn imm))
        (limb_values row (pair_uint a b)) (limb_values row (pair_uint c d)) Qs"
    have "of_int (uint w) = wit row (st_pc (i_state i)) + 4"
      using eqs(1) uint_value_holds [OF w] by (simp add: PC_STEP_SIZE_def)
    moreover have "wit row n = reg_of (t AND NOT 1)"
      using eqs(2) nx addr_values(2) [OF t wf] unfolding even_part by simp
    moreover have "of_int (uint x) + value_of row (WitIn imm) = reg_of t + value_of row ov * 4294967296"
      if "limb_values row (pair_uint a b) = limbs_of x" for x
      using eqs(3) addr_values(1) [OF t wf] uint_value_holds [OF that [folded map_value_holds]] by simp
    moreover have "limb_values row (pair_uint c d) = limbs_of w" using w by (simp only: map_value_holds)
    ultimately show "\<exists>pc nxt imm a w t ov. i_format row JALR pc nxt imm a (limbs_of w) (Qs @ []) \<and> of_int (uint w) = pc + 4 \<and>
        nxt = reg_of (t AND NOT 1) \<and> ov \<in> {- 1, 0, 1} \<and> (\<forall>x. a = limbs_of x \<longrightarrow> of_int (uint x) + imm = reg_of t + ov * 4294967296)"
      using fmt ov unfolding append_Nil2 by metis
  qed
  then show ?thesis unfolding makes_def
  proof (rule builds_conseq)
    fix rs ws :: ram_values
    assume "\<exists>Ps. (\<exists>pc nxt imm a w t ov. i_format row JALR pc nxt imm a (limbs_of w) Ps \<and> of_int (uint w) = pc + 4 \<and>
        nxt = reg_of (t AND NOT 1) \<and> ov \<in> {- 1, 0, 1} \<and>
        (\<forall>x. a = limbs_of x \<longrightarrow> of_int (uint x) + imm = reg_of t + ov * 4294967296)) \<and> accesses Ps rs ws"
    then obtain pc nxt imm a w t ov ts i1 i3
      where acc: "accesses [moves pc nxt ts, keeps i1 a ts, overwrites i3 (limbs_of w) (ts + 2)] rs ws"
      and fetched: "fetched row JALR pc i3 i1 0 imm" and w: "(of_int (uint w) :: gl) = pc + 4" and nxt: "nxt = reg_of (t AND NOT 1)"
      and t: "\<forall>x. a = limbs_of x \<longrightarrow> of_int (uint x) + imm = reg_of t + ov * 4294967296" "ov \<in> {- 1, 0, 1}"
      unfolding i_format_def by blast
    from fetched_decoded [OF prog fetched] obtain v insn where dec: "decoded_at prog v insn"
      and insn: "insn_kind insn = JALR" "pc = reg_of v" "i3 = reg_of (rd_internal insn)" "i1 = reg_of (rs1_or_zero insn)"
        "imm = of_int (sint (imm_internal insn))" by auto
    have imm: "sint (imm_internal insn) = sint (insn_imm insn)" using insn(1) by (intro imm_signed) auto
    have target: "jalr_target a (insn_imm insn) nxt"
      unfolding jalr_target_def nxt
    proof (intro allI impI)
      fix x assume "a = limbs_of x"
      with t(1) have "of_int (uint x) + of_int (sint (insn_imm insn)) = reg_of t + ov * 4294967296"
        unfolding insn(5) imm by (simp only:)
      then have "t = x + insn_imm insn" using t(2) by (rule jump_word)
      then show "reg_of (t AND NOT 1) = reg_of ((x + insn_imm insn) AND NOT 1)" by (simp only:)
    qed
    have link: "w = v + 4" "unat v + 4 < 2 ^ 32" using link_word [OF w [unfolded insn(2)]] by blast+
    show "jalr_step prog rs ws" unfolding jalr_step_def
      using dec insn(1) link(2) target acc [unfolded insn(2-4) link(1)] by blast
  qed
qed

end
