(* ===== verification/Loads.thy ===== *)
theory Loads
  imports Control
begin

text \<open>
  The circuits of the loads (\<open>instructions/riscv/memory/load.rs\<close>).
\<close>

subsection \<open>Loads\<close>

record LoadConfig =
  ld_im_insn :: IMInstructionConfig
  ld_rs1 :: UIntLimbs
  ld_imm :: nat
  ld_memory_addr :: MemAddr
  ld_memory_read :: UIntLimbs
  ld_target_limb :: "nat option"
  ld_target_limb_bytes :: "nat list option"
  ld_signed_extend :: "SignedExtendConfig option"

definition load_addr_construct :: "InsnKind \<Rightarrow> MemAddr build" where
  "load_addr_construct knd =
     (if knd = LW then construct_align4
      else if knd \<in> {LH, LHU} then construct_align2
      else if knd \<in> {LB, LBU} then construct_unaligned
      else fail (ZkvmPanic ''Unsupported instruction kind''))"

text \<open>The half word of the address, for every load but LW.\<close>

definition load_target_limb :: "InsnKind \<Rightarrow> expr list \<Rightarrow> expr list \<Rightarrow> nat option build" where
  "load_target_limb knd addr_low_bits memory_value =
     (if knd \<in> {LB, LBU, LH, LHU} then
        andThen create_witin (\<lambda>target_limb.
        andThen (condition_require_equal (addr_low_bits ! 1) (WitIn target_limb) (memory_value ! 1) (memory_value ! 0)) (\<lambda>_.
        ok (Some target_limb)))
      else ok None)"

text \<open>The byte of the address and the other one of its half word, for LB and LBU.\<close>

definition load_target_bytes :: "InsnKind \<Rightarrow> expr list \<Rightarrow> nat option \<Rightarrow> (expr option \<times> nat list option) build" where
  "load_target_bytes knd addr_low_bits target_limb =
     (if knd \<in> {LB, LBU} then
        andThen create_u8 (\<lambda>target_byte.
        andThen create_u8 (\<lambda>dummy_byte.
        andThen (expect target_limb ''unwrap'') (\<lambda>limb.
        andThen (condition_require_equal (addr_low_bits ! 0) (WitIn limb)
          (WitIn target_byte * from_unsigned (2 ^ 8) + WitIn dummy_byte)
          (WitIn dummy_byte * from_unsigned (2 ^ 8) + WitIn target_byte)) (\<lambda>_.
        ok (Some (WitIn target_byte), Some [target_byte, dummy_byte])))))
      else ok (None, None))"

definition load_rd_written ::
  "InsnKind \<Rightarrow> UIntLimbs \<Rightarrow> nat option \<Rightarrow> expr option \<Rightarrow> (SignedExtendConfig option \<times> UIntLimbs) build" where
  "load_rd_written knd memory_read_v target_limb target_byte_expr =
     (if knd = LW then ok (None, memory_read_v)
      else if knd = LH then
        andThen (expect target_limb ''unwrap'') (\<lambda>val.
        andThen (signed_ext_construct 16 (WitIn val)) (\<lambda>signed_extend_config.
        andThen (signed_extended_value signed_extend_config (WitIn val)) (\<lambda>rd_written.
        ok (Some signed_extend_config, rd_written))))
      else if knd = LHU then
        andThen (expect target_limb ''unwrap'') (\<lambda>limb.
        ok (None, from_exprs_unchecked 32 16 [WitIn limb, 0]))
      else if knd = LB then
        andThen (expect target_byte_expr ''unwrap'') (\<lambda>val.
        andThen (signed_ext_construct 8 val) (\<lambda>signed_extend_config.
        andThen (signed_extended_value signed_extend_config val) (\<lambda>rd_written.
        ok (Some signed_extend_config, rd_written))))
      else if knd = LBU then
        andThen (expect target_byte_expr ''unwrap'') (\<lambda>val.
        ok (None, from_exprs_unchecked 32 16 [val, 0]))
      else fail (ZkvmPanic ''Unsupported instruction kind''))"

definition load_construct :: "InsnKind \<Rightarrow> LoadConfig build" where
  "load_construct knd =
     andThen (uint_new_unchecked 32 16) (\<lambda>rs1_read.
     andThen create_witin (\<lambda>imm.
     andThen (uint_new 32 16) (\<lambda>memory_read_v.
     andThen (load_addr_construct knd) (\<lambda>memory_addr.
     andThen (require_equal (expr_unaligned memory_addr) (uint_value 16 rs1_read + WitIn imm)) (\<lambda>_.
     andThen (load_target_limb knd (low_bit_exprs memory_addr) (uexprs memory_read_v)) (\<lambda>target_limb.
     andThen (load_target_bytes knd (low_bit_exprs memory_addr) target_limb) (\<lambda>(target_byte_expr, target_limb_bytes).
     andThen (load_rd_written knd memory_read_v target_limb target_byte_expr) (\<lambda>(signed_extend_config, rd_written).
     andThen (register_expr rs1_read) (\<lambda>a.
     andThen (register_expr rd_written) (\<lambda>d.
     andThen (im_insn_construct knd (WitIn imm) a (memory_expr memory_read_v) (expr_align4 memory_addr) d) (\<lambda>im_insn.
     ok \<lparr>ld_im_insn = im_insn, ld_rs1 = rs1_read, ld_imm = imm, ld_memory_addr = memory_addr,
         ld_memory_read = memory_read_v, ld_target_limb = target_limb, ld_target_limb_bytes = target_limb_bytes,
         ld_signed_extend = signed_extend_config\<rparr>)))))))))))"

text \<open>\<open>u16::to_le_bytes\<close>.\<close>

definition le_bytes :: "u16 \<Rightarrow> u8 list" where
  "le_bytes x = [ucast x, ucast (drop_bit 8 x)]"

definition load_assign :: "InsnKind \<Rightarrow> LoadConfig \<Rightarrow> StepRecord \<Rightarrow> unit assign" where
  "load_assign knd cfg r =
     andThen (expect (rec_rs1 r) ''unwrap'') (\<lambda>rs1_op.
     let rs1 = word_value (op_value rs1_op) in
     andThen (expect (rec_memory_op r) ''unwrap'') (\<lambda>memory_op.
     andThen (value_new 32 (ucast (before (op_value memory_op)))) (\<lambda>memory_read_v.
     let imm = imm_internal (rec_insn r);
         unaligned_addr = op_value rs1_op + ucast imm;
         shift = shift (ByteAddr unaligned_addr);
         low0 = shift AND 1; low1 = drop_bit 1 shift AND 1
     in if unat low1 \<ge> length (v_limbs memory_read_v) then fail (ZkvmPanic ''index out of bounds'')
     else
     let target_limb = v_limbs memory_read_v ! unat low1;
         target_limb_bytes = le_bytes target_limb
     in andThen (set_val (ld_imm cfg) (i64_to_base imm)) (\<lambda>_.
     andThen (im_insn_assign (ld_im_insn cfg) r) (\<lambda>_.
     andThen (assign_value 32 16 (ld_rs1 cfg) rs1) (\<lambda>_.
     andThen (assign_value 32 16 (ld_memory_read cfg) memory_read_v) (\<lambda>_.
     andThen (mem_addr_assign (ld_memory_addr cfg) unaligned_addr) (\<lambda>_.
     andThen (case ld_target_limb cfg of None \<Rightarrow> ok () | Some limb \<Rightarrow> set_val limb (of_nat (unat target_limb))) (\<lambda>_.
     let reversed = (case ld_target_limb_bytes cfg of None \<Rightarrow> target_limb_bytes
         | Some _ \<Rightarrow> if low0 = 1 then rev target_limb_bytes else target_limb_bytes)
     in andThen (case ld_target_limb_bytes cfg of None \<Rightarrow> ok ()
         | Some limb_bytes \<Rightarrow> forM (\<lambda>(col, byte).
             andThen (lkm_assert_ux 8 (ucast byte)) (\<lambda>_. set_val col (of_nat (unat byte)))) (zip limb_bytes reversed)) (\<lambda>_.
     let val = (if knd \<in> {LB, LBU} then ucast (hd reversed)
       else if knd \<in> {LH, LHU} then ucast target_limb else 0)
     in case ld_signed_extend cfg of None \<Rightarrow> ok ()
       | Some signed_ext_config \<Rightarrow> signed_ext_assign signed_ext_config val))))))))))"

subsection \<open>The contract of a load\<close>

text \<open>
  The word read is the one the address lies in, and the register gets what the interpreter takes
  from it. The address is computed without wrapping around.
\<close>

definition loads :: "InsnKind \<Rightarrow> gl list \<Rightarrow> u32 \<Rightarrow> gl \<Rightarrow> gl \<Rightarrow> gl list \<Rightarrow> bool" where
  "loads k a imm addr m d \<longleftrightarrow> (\<exists>w. m = reg_of w \<and> (\<forall>x. a = limbs_of x \<longrightarrow>
     uint (x + imm) = uint x + sint imm \<and> addr = of_nat (unat (x + imm) div 4 * 4) \<and>
     (\<exists>v. load_value k (ByteAddr (x + imm)) w = Inr v \<and> d = limbs_of v)))"

definition im_step :: "Program \<Rightarrow> InsnKind \<Rightarrow> ram_values \<Rightarrow> ram_values \<Rightarrow> bool" where
  "im_step prog k rs ws \<longleftrightarrow> (\<exists>pc insn ts a addr m d.
     decoded_at prog pc insn \<and> insn_kind insn = k \<and> loads k a (insn_imm insn) addr m d \<and>
     accesses [moves (reg_of pc) (reg_of pc + 4) ts, keeps (reg_of (rs1_or_zero insn)) a ts,
       overwrites (reg_of (rd_internal insn)) d (ts + 2), touches addr m m (ts + 3)] rs ws)"

lemma unat_drop: "unat (drop_bit n (w :: u32)) = unat w div 2 ^ n"
proof -
  have "unat (drop_bit n w) = drop_bit n (unat w)" by (rule unat_drop_bit_eq)
  then show ?thesis by (simp only: drop_bit_eq_div)
qed

lemma byte_nat: "unat (byte_of k w) = unat w div 2 ^ (8 * k) mod 256"
  unfolding byte_of_def by (simp add: unsigned_ucast_eq take_bit_eq_mod unat_drop del: drop_bit_eq_div)

definition half_of :: "nat \<Rightarrow> u32 \<Rightarrow> 16 word" where
  "half_of k w = word_cat (byte_of (k + 1) w) (byte_of k w)"

lemma half_nat: "unat (half_of k w) = unat w div 2 ^ (8 * k) mod 65536"
proof -
  have "half_of k w = ucast (drop_bit (8 * k) w)"
    unfolding half_of_def by (rule bit_word_eqI) (auto simp: byte_of_def bit_simps bit_word_cat_iff)
  then show ?thesis by (simp add: unsigned_ucast_eq take_bit_eq_mod unat_drop)
qed

lemma load_byte: "load_value LB (ByteAddr ad) w = Inr (scast (byte_of (unat ad mod 4) w))"
  "load_value LBU (ByteAddr ad) w = Inr (ucast (byte_of (unat ad mod 4) w))"
  by (simp_all add: bit_offset_eq byte_load_bits sign_extend_8 Let_def)

lemma load_half:
  assumes "unat ad mod 2 = 0"
  shows "load_value LH (ByteAddr ad) w = Inr (scast (half_of (unat ad mod 4) w))"
    and "load_value LHU (ByteAddr ad) w = Inr (ucast (half_of (unat ad mod 4) w))"
  using assms by (simp_all add: bit_offset_eq half_load_bits half_of_def sign_extend_16 Let_def and_1_eq_0)

lemma load_word: "unat ad mod 4 = 0 \<Longrightarrow> load_value LW (ByteAddr ad) w = Inr w"
  by (simp add: and_3_eq_0)

text \<open>The limbs of an extended byte or half word.\<close>

lemma limbs_zero_extend:
  fixes b :: u8 and h :: "16 word"
  shows "limbs_of (ucast b) = [of_nat (unat b), 0]" and "limbs_of (ucast h) = [of_nat (unat h), 0]"
proof -
  have "unat b < 256" "unat h < 65536" using unsigned_less [of b, where ?'a = nat] unsigned_less [of h, where ?'a = nat] by simp_all
  then show "limbs_of (ucast b) = [of_nat (unat b), 0]" "limbs_of (ucast h) = [of_nat (unat h), 0]"
    by (simp_all add: limbs_of_def unsigned_ucast_eq take_bit_nat_eq_self del: of_nat_unat)
qed

lemma signed_high:
  fixes b :: "'a::len word"
  assumes "LENGTH('a) < 32"
  shows "unat (scast b :: u32) = unat b + (2 ^ 32 - 2 ^ LENGTH('a)) * of_bool (2 ^ (LENGTH('a) - 1) \<le> unat b)"
proof -
  obtain m where m: "LENGTH('a) = Suc m" using len_gt_0 [where ?'a = 'a] by (cases "LENGTH('a)") auto
  have u: "0 \<le> uint b" "uint b < 2 ^ Suc m" using unsigned_less [of b, where ?'a = int] m by simp_all
  obtain n where n: "uint b = int n" using u(1) by (metis nonneg_int_cases)
  have "int n < int (2 * 2 ^ m)" using u(2) unfolding n by simp
  then have "n < 2 * 2 ^ m" by (simp only: of_nat_less_iff)
  then have "n div 2 ^ m < 2" by (rule less_mult_imp_div_less)
  then have "n div 2 ^ m = 0 \<or> n div 2 ^ m = 1" by linarith
  moreover have "2 ^ m \<le> n \<longleftrightarrow> 0 < n div 2 ^ m" by (simp add: div_greater_zero_iff)
  ultimately have "bit n m \<longleftrightarrow> 2 ^ m \<le> n" unfolding bit_iff_odd by auto
  then have bit: "bit (uint b) m \<longleftrightarrow> 2 ^ m \<le> uint b" unfolding n bit_of_nat_iff_bit
    by (metis of_nat_le_iff of_nat_numeral of_nat_power)
  have "sint b = take_bit (Suc m) (uint b) - 2 ^ Suc m * of_bool (bit (uint b) m)"
    using m by (simp only: sint_uint diff_Suc_Suc diff_zero signed_take_bit_eq_take_bit_minus)
  also have "take_bit (Suc m) (uint b) = uint b" using u by (simp add: take_bit_int_eq_self)
  finally have s: "sint b = uint b - 2 ^ Suc m * of_bool (2 ^ m \<le> uint b)" unfolding bit .
  have "uint (scast b :: u32) = uint (word_of_int (sint b) :: u32)" by simp
  also have "\<dots> = sint b mod 2 ^ 32" by (simp only: uint_word_of_int take_bit_eq_mod) simp
  also have "\<dots> = uint b + (2 ^ 32 - 2 ^ Suc m) * of_bool (2 ^ m \<le> uint b)"
  proof -
    have "(2 :: int) ^ Suc m < 2 ^ 32" using assms m by (intro power_strict_increasing) simp_all
    moreover from this u have "(uint b - 2 ^ Suc m + 2 ^ 32) mod 2 ^ 32 = uint b - 2 ^ Suc m + 2 ^ 32" by (intro mod_pos_pos_trivial) linarith+
    then have "(uint b - 2 ^ Suc m) mod 2 ^ 32 = uint b - 2 ^ Suc m + 2 ^ 32" by (simp only: mod_add_self2)
    moreover have "uint b mod 2 ^ 32 = uint b" using calculation(1) u by (intro mod_pos_pos_trivial) linarith+
    ultimately show ?thesis unfolding s by (cases "2 ^ m \<le> uint b") simp_all
  qed
  finally have "uint (scast b :: u32) = int n + (2 ^ 32 - 2 ^ Suc m) * of_bool (2 ^ m \<le> int n)" unfolding n .
  moreover have "(2 :: nat) ^ Suc m \<le> 2 ^ 32" using assms m by (intro power_increasing) simp_all
  then have "int (n + (2 ^ 32 - 2 ^ Suc m) * of_bool (2 ^ m \<le> n)) = int n + (2 ^ 32 - 2 ^ Suc m) * of_bool (2 ^ m \<le> int n)"
    by (simp add: of_nat_diff)
  ultimately have "int (unat (scast b :: u32)) = int (n + (2 ^ 32 - 2 ^ Suc m) * of_bool (2 ^ m \<le> n))" by (simp only: uint_nat)
  moreover have "unat b = n" using n uint_nat [of b] by (metis of_nat_eq_iff)
  ultimately show ?thesis unfolding m by (simp only: of_nat_eq_iff diff_Suc_1)
qed
lemma limbs_sign_extend:
  fixes b :: u8 and h :: "16 word"
  shows "limbs_of (scast b) = [of_bool (2 ^ 7 \<le> unat b) * 0xff00 + of_nat (unat b), of_bool (2 ^ 7 \<le> unat b) * 0xffff]"
    and "limbs_of (scast h) = [of_nat (unat h), of_bool (2 ^ 15 \<le> unat h) * 0xffff]"
proof -
  obtain n k where n: "unat b = n" "n < 256" and k: "unat h = k" "k < 65536"
    using unsigned_less [of b, where ?'a = nat] unsigned_less [of h, where ?'a = nat] by simp
  have v: "unat (scast b :: u32) = n + 4294967040 * of_bool (2 ^ 7 \<le> n)" "unat (scast h :: u32) = k + 4294901760 * of_bool (2 ^ 15 \<le> k)"
    using signed_high [of b] signed_high [of h] by (simp_all add: n k)
  have m: "(n + 4294967040) mod 65536 = n + 65280" "(n + 4294967040) div 65536 = 65535"
    "(k + 4294901760) mod 65536 = k" "(k + 4294901760) div 65536 = 65535"
  proof -
    have high: "(a + 65535 * 65536) mod 65536 = a" "(a + 65535 * 65536) div 65536 = 65535" if "a < 65536" for a :: nat
      using that by (simp_all only: mod_mult_self1 mod_less div_mult_self1 div_less zero_neq_numeral not_False_eq_True add_0_right)
    have "n + 4294967040 = (n + 65280) + 65535 * 65536" "k + 4294901760 = k + 65535 * 65536" by simp_all
    then show "(n + 4294967040) mod 65536 = n + 65280" "(n + 4294967040) div 65536 = 65535"
      "(k + 4294901760) mod 65536 = k" "(k + 4294901760) div 65536 = 65535"
      using high [of "n + 65280"] high [of k] n(2) k(2) by (simp_all only:)
  qed
  show "limbs_of (scast b) = [of_bool (2 ^ 7 \<le> unat b) * 0xff00 + of_nat (unat b), of_bool (2 ^ 7 \<le> unat b) * 0xffff]"
    unfolding limbs_of_def v n using m n(2) by (cases "2 ^ 7 \<le> n") simp_all
  show "limbs_of (scast h) = [of_nat (unat h), of_bool (2 ^ 15 \<le> unat h) * 0xffff]"
    unfolding limbs_of_def v k using m k(2) by (cases "2 ^ 15 \<le> k") simp_all
qed

subsection \<open>What the constraints of a load enforce\<close>

lemma pair_exprs: "from_exprs_unchecked 32 16 [a, b] = plain_uint (LimbExprs [a, b])"
  by (simp add: from_exprs_unchecked_def numeral_2_eq_2)

lemma load_addr_returns: "returns (load_addr_construct knd) wf_addr"
  unfolding load_addr_construct_def construct_align4_def construct_align2_def construct_unaligned_def
  by (simp add: mem_addr_returns returns_fail)

lemma aligned_addr_builds:
  "enforces row construct_align4 (\<lambda>a. \<exists>w. addr_holds row a w \<and> unat w mod 4 = 0)"
  "enforces row construct_align2 (\<lambda>a. \<exists>w. addr_holds row a w \<and> unat w mod 2 = 0)"
  "enforces row construct_unaligned (\<lambda>a. \<exists>w. addr_holds row a w \<and> unat w mod 1 = 0)"
  using mem_addr_builds [of row 2] mem_addr_builds [of row 1] mem_addr_builds [of row 0]
  by (simp_all add: construct_align4_def construct_align2_def construct_unaligned_def)

lemma load_addr_builds:
  "enforces row (load_addr_construct knd) (\<lambda>a. \<exists>w. addr_holds row a w \<and> unat w mod access_size knd = 0)"
  using aligned_addr_builds [of row] unfolding load_addr_construct_def by (auto simp: builds_fail)

text \<open>The low bits of an address are those of the number \<open>q\<close>.\<close>

abbreviation bits_hold :: "circuit_row \<Rightarrow> expr list \<Rightarrow> nat \<Rightarrow> bool" where
  "bits_hold row low q \<equiv> map (value_of row) low = [of_nat (q mod 2), of_nat (q div 2 mod 2)]"

lemma bit_select:
  fixes x y :: gl
  shows "y + of_nat (q mod 2) * (x - y) = (if q mod 2 = 1 then x else y)"
  by (cases "even q") (simp_all add: odd_iff_mod_2_eq_one)

lemma load_target_limb_builds:
  assumes "low = [e0, e1]" "challenge_free e0" "challenge_free e1"
  shows "enforces row (load_target_limb knd low [WitIn m0, WitIn m1]) (\<lambda>t. knd \<in> {LB, LBU, LH, LHU} \<longrightarrow>
    (\<exists>l. t = Some l \<and> (\<forall>w q. holds row (pair_uint m0 m1) w \<longrightarrow> bits_hold row low q \<longrightarrow>
       wit row l = of_nat (unat (half_of (2 * (q div 2 mod 2)) w)))))"
proof (cases "knd \<in> {LB, LBU, LH, LHU}")
  case True
  have half: "wit row l = of_nat (unat (half_of (2 * (q div 2 mod 2)) w))"
    if "holds row (pair_uint m0 m1) w" "bits_hold row low q" "wit row l = wit row m0 + value_of row e1 * (wit row m1 - wit row m0)" for l w q
  proof -
    have "unat w div 65536 < 65536" by (rule limbs_of_less)
    moreover have "wit row l = (if q div 2 mod 2 = 1 then wit row m1 else wit row m0)"
      using that(2,3) assms(1) bit_select [of "wit row m0" "q div 2" "wit row m1"] by simp
    ultimately show ?thesis using that(1) by (cases "q div 2 mod 2 = 1") (simp_all add: half_nat holds_def limbs_of_def)
  qed
  show ?thesis unfolding load_target_limb_def if_P [OF True]
    by (intro enforces_bind [OF create_witin_builds] enforces_bind [OF condition_require_equal_builds] builds_ok)
      (use assms half in auto)
next
  case False
  then show ?thesis by (auto simp: load_target_limb_def intro!: builds_ok)
qed

lemma byte_select:
  assumes "canon x < 2 ^ 8" "canon y < 2 ^ 8" and "(of_nat (unat (h :: 16 word)) :: gl) = x * 256 + y"
  shows "x = of_nat (unat h div 256)" and "y = of_nat (unat h mod 256)"
proof -
  have "canon x * 256 + canon y < 65536" using assms(1,2) by simp
  moreover have "unat h < 65536" using unsigned_less [of h, where ?'a = nat] by simp
  moreover have "(of_nat (unat h) :: gl) = of_nat (canon x * 256 + canon y)" using assms(3) by simp
  ultimately have "unat h = canon x * 256 + canon y"
    using of_nat_gl_inject [of "unat h" "canon x * 256 + canon y"] by simp
  then have "unat h div 256 = canon x" "unat h mod 256 = canon y" using assms(2) by simp_all
  then show "x = of_nat (unat h div 256)" and "y = of_nat (unat h mod 256)" by simp_all
qed

lemma load_target_bytes_builds:
  assumes "low = [e0, e1]" "challenge_free e0" "challenge_free e1"
  shows "enforces row (load_target_bytes knd low t) (\<lambda>(e, _). knd \<in> {LB, LBU} \<longrightarrow>
    (\<exists>l b. t = Some l \<and> e = Some (WitIn b) \<and> (\<forall>(h :: 16 word) q. wit row l = of_nat (unat h) \<longrightarrow> bits_hold row low q \<longrightarrow>
       wit row b = of_nat (unat h div 2 ^ (8 * (q mod 2)) mod 256))))"
proof (cases "knd \<in> {LB, LBU}")
  case True
  have byte: "wit row b = of_nat (unat h div 2 ^ (8 * (q mod 2)) mod 256)"
    if "canon (wit row b) < 2 ^ 8" "canon (wit row c) < 2 ^ 8" "wit row l = of_nat (unat h)" "bits_hold row low q"
      and eq: "wit row l = (wit row c * 256 + wit row b) + value_of row e0 * ((wit row b * 256 + wit row c) - (wit row c * 256 + wit row b))"
    for b c l q and h :: "16 word"
  proof -
    have "unat h < 65536" using unsigned_less [of h, where ?'a = nat] by simp
    then have d: "unat h div 256 mod 256 = unat h div 256" by (simp add: less_mult_imp_div_less)
    have sel: "(of_nat (unat h) :: gl) = (if q mod 2 = 1 then wit row b * 256 + wit row c else wit row c * 256 + wit row b)"
      using that(3,4) eq assms(1) bit_select [of "wit row c * 256 + wit row b" q "wit row b * 256 + wit row c"] by simp
    then show ?thesis
    proof (cases "q mod 2 = 1")
      case True
      have "(of_nat (unat h) :: gl) = wit row b * 256 + wit row c" using sel unfolding if_P [OF True] .
      then have "wit row b = of_nat (unat h div 256)" by (rule byte_select(1) [OF that(1,2)])
      then show ?thesis using True d by (simp only: mult_1_right) simp
    next
      case False
      have "(of_nat (unat h) :: gl) = wit row c * 256 + wit row b" using sel unfolding if_not_P [OF False] .
      then have "wit row b = of_nat (unat h mod 256)" by (rule byte_select(2) [OF that(2,1)])
      moreover have "q mod 2 = 0" using False by simp
      ultimately show ?thesis by simp
    qed
  qed
  show ?thesis unfolding load_target_bytes_def if_P [OF True]
    by (intro enforces_bind [OF create_u8_builds] enforces_bind [OF expect_builds]
        enforces_bind [OF condition_require_equal_builds] builds_ok)
      (use assms byte in auto)
next
  case False
  then show ?thesis by (auto simp: load_target_bytes_def intro!: builds_ok)
qed

lemma signed_ext_returns: "returns (signed_ext_construct n val) (\<lambda>cfg. n_bits cfg = n)"
  unfolding signed_ext_construct_def by (intro returns_then returns_ok) simp

lemma expect_returns: "returns (expect x msg) (\<lambda>v. x = Some v)"
  by (cases x) (simp_all add: expect_def returns_ok returns_fail)

lemma load_rd_returns:
  assumes "free_uint mem" and "\<forall>e. byte = Some e \<longrightarrow> challenge_free e"
  shows "returns (load_rd_written knd mem limb byte) (\<lambda>(_, rd). free_uint rd)"
  unfolding load_rd_written_def signed_extended_value_def pair_exprs
  using assms by (auto intro!: returns_bind [OF expect_returns] returns_bind [OF signed_ext_returns] returns_ok returns_fail
      simp: andThen_ok free_uint_def)

lemma canon_word: "LENGTH('a::len) < 63 \<Longrightarrow> canon (of_nat (unat (b :: 'a word))) = unat b"
proof (rule canon_of_nat_small)
  assume "LENGTH('a) < 63"
  then have "(2 :: nat) ^ LENGTH('a) < 2 ^ 63" by (rule power_strict_increasing) simp
  then show "unat b < 2 ^ 63" using unsigned_less [of b, where ?'a = nat] by linarith
qed

lemma load_rd_builds:
  "enforces row (load_rd_written knd mem limb byte) (\<lambda>(_, rd).
    (knd = LW \<longrightarrow> rd = mem) \<and>
    (knd = LH \<longrightarrow> (\<exists>l. limb = Some l \<and> (\<forall>h :: 16 word. wit row l = of_nat (unat h) \<longrightarrow> limb_values row rd = limbs_of (scast h)))) \<and>
    (knd = LHU \<longrightarrow> (\<exists>l. limb = Some l \<and> (\<forall>h :: 16 word. wit row l = of_nat (unat h) \<longrightarrow> limb_values row rd = limbs_of (ucast h)))) \<and>
    (knd = LB \<longrightarrow> (\<exists>e. byte = Some e \<and> (\<forall>b :: u8. value_of row e = of_nat (unat b) \<longrightarrow> limb_values row rd = limbs_of (scast b)))) \<and>
    (knd = LBU \<longrightarrow> (\<exists>e. byte = Some e \<and> (\<forall>b :: u8. value_of row e = of_nat (unat b) \<longrightarrow> limb_values row rd = limbs_of (ucast b)))))"
proof -
  have half: "canon (unsigned h) = unat h" "unat h < 65536" for h :: "16 word"
    using canon_word [of h] unsigned_less [of h, where ?'a = nat] by simp_all
  have byte: "canon (unsigned b) = unat b" "unat b < 256" for b :: u8
    using canon_word [of b] unsigned_less [of b, where ?'a = nat] by simp_all
  consider "knd = LW" | "knd = LH" | "knd = LHU" | "knd = LB" | "knd = LBU" | "knd \<notin> {LW, LH, LHU, LB, LBU}" by blast
  then show ?thesis
  proof cases
    case 2
    show ?thesis unfolding 2 load_rd_written_def
      by (simp, rule enforces_bind [OF expect_builds], rule enforces_bind_returns [OF signed_ext_returns signed_ext_builds])
        (auto simp: signed_extended_value_def pair_exprs andThen_ok limbs_sign_extend half intro!: builds_ok)
  next
    case 4
    show ?thesis unfolding 4 load_rd_written_def
      by (simp, rule enforces_bind [OF expect_builds], rule enforces_bind_returns [OF signed_ext_returns signed_ext_builds])
        (auto simp: signed_extended_value_def pair_exprs andThen_ok limbs_sign_extend byte intro!: builds_ok)
  qed (auto simp: load_rd_written_def pair_exprs limbs_zero_extend
      intro!: builds_ok builds_fail enforces_bind [OF expect_builds])
qed

lemma address_sum:
  fixes t x imm :: u32
  assumes "(of_nat (unat t) :: gl) = of_int (uint x) + of_int (sint imm)"
  shows "t = x + imm" and "uint (x + imm) = uint x + sint imm"
proof -
  have "(of_int (uint t) :: gl) = of_int (uint x + sint imm)" using assms by simp
  then have e: "uint t = uint x + sint imm"
    by (rule gl_eq_int) (use uint_bound [of t] uint_bound [of x] sint_bound [of imm] in linarith)
  then have "word_of_int (uint t) = (word_of_int (uint x + sint imm) :: u32)" by (rule arg_cong)
  then show t: "t = x + imm" by simp
  show "uint (x + imm) = uint x + sint imm" using e unfolding t .
qed

locale im_circuit =
  fixes construct :: "'c build" and knd :: InsnKind
  assumes makes: "makes row construct (\<lambda>_ Ps. \<exists>imm a m addr d. im_format row knd imm a m addr d Ps \<and>
      (\<forall>v. imm = of_int (sint v) \<longrightarrow> loads knd a v addr m d))"
    and load: "knd \<in> {LB, LBU, LH, LHU, LW}"
begin

lemma executes:
  assumes "row_program row = program_rows n prog"
  shows "builds row construct (\<lambda>_ rs ws. im_step prog knd rs ws)"
proof (rule builds_conseq [OF makes [unfolded makes_def]])
  fix rs ws :: ram_values
  assume "\<exists>Ps. (\<exists>imm a m addr d. im_format row knd imm a m addr d Ps \<and>
      (\<forall>v. imm = of_int (sint v) \<longrightarrow> loads knd a v addr m d)) \<and> accesses Ps rs ws"
  then obtain imm a m addr d pc ts i1 i3 where
    acc: "accesses [moves pc (pc + 4) ts, keeps i1 a ts, overwrites i3 d (ts + 2), touches addr m m (ts + 3)] rs ws"
    and loads: "\<forall>v. imm = of_int (sint v) \<longrightarrow> loads knd a v addr m d" and fetched: "fetched row knd pc i3 i1 0 imm"
    unfolding im_format_def by blast
  have valid: "knd \<noteq> INVALID" using load by auto
  from fetched_decoded [OF assms fetched valid] obtain w insn where dec: "decoded_at prog w insn"
    and insn: "insn_kind insn = knd" "pc = reg_of w" "i3 = reg_of (rd_internal insn)" "i1 = reg_of (rs1_or_zero insn)"
      "imm = of_int (sint (imm_internal insn))" by blast
  have "sint (imm_internal insn) = sint (insn_imm insn)" using load insn(1) by (intro imm_signed) auto
  then have "loads knd a (insn_imm insn) addr m d" using loads insn(5) by (simp only: refl simp_thms)
  then show "im_step prog knd rs ws" unfolding im_step_def using dec insn(1) acc [unfolded insn(2-4)] by blast
qed

end

lemma byte_in_half:
  assumes "b < 2"
  shows "n div 2 ^ (8 * (2 * r)) mod 65536 div 2 ^ (8 * b) mod 256 = (n :: nat) div 2 ^ (8 * (2 * r + b)) mod 256"
proof -
  let ?m = "n div 2 ^ (8 * (2 * r))"
  have "n div 2 ^ (8 * (2 * r + b)) = ?m div 2 ^ (8 * b)" by (simp only: div_exp_eq distrib_left)
  moreover have "?m mod 65536 div 256 = ?m div 256 mod 256" using mod_mult2_eq [of ?m 256 256] by simp
  moreover have "b = 0 \<or> b = 1" using assms by auto
  ultimately show ?thesis by (auto simp: mod_mod_cancel)
qed

lemma load_data:
  assumes knd: "knd \<in> {LB, LBU, LH, LHU, LW}" and w: "limb_values row mem = limbs_of w" and al: "unat ad mod access_size knd = 0"
    and limb: "knd \<in> {LB, LBU, LH, LHU} \<Longrightarrow> \<exists>l. limb = Some l \<and> wit row l = of_nat (unat (half_of (2 * (unat ad div 2 mod 2)) w))"
    and byte: "knd \<in> {LB, LBU} \<Longrightarrow> \<exists>l b. limb = Some l \<and> e = Some (WitIn b) \<and> (\<forall>h :: 16 word. wit row l = of_nat (unat h) \<longrightarrow>
       wit row b = of_nat (unat h div 2 ^ (8 * (unat ad mod 2)) mod 256))"
    and rd: "knd = LW \<longrightarrow> rd = mem"
      "knd = LH \<longrightarrow> (\<exists>l. limb = Some l \<and> (\<forall>h :: 16 word. wit row l = of_nat (unat h) \<longrightarrow> limb_values row rd = limbs_of (scast h)))"
      "knd = LHU \<longrightarrow> (\<exists>l. limb = Some l \<and> (\<forall>h :: 16 word. wit row l = of_nat (unat h) \<longrightarrow> limb_values row rd = limbs_of (ucast h)))"
      "knd = LB \<longrightarrow> (\<exists>f. e = Some f \<and> (\<forall>b :: u8. value_of row f = of_nat (unat b) \<longrightarrow> limb_values row rd = limbs_of (scast b)))"
      "knd = LBU \<longrightarrow> (\<exists>f. e = Some f \<and> (\<forall>b :: u8. value_of row f = of_nat (unat b) \<longrightarrow> limb_values row rd = limbs_of (ucast b)))"
  shows "\<exists>v. load_value knd (ByteAddr ad) w = Inr v \<and> limb_values row rd = limbs_of v"
proof -
  obtain q where q: "unat ad = q" by blast
  have even: "2 * (q div 2 mod 2) = q mod 4" if "q mod 2 = 0" using that mod_mult2_eq [of q 2 2] by simp
  have shift: "unat (half_of (2 * (q div 2 mod 2)) w) div 2 ^ (8 * (q mod 2)) mod 256 = unat (byte_of (q mod 4) w)"
  proof -
    have "q mod 4 = 2 * (q div 2 mod 2) + q mod 2" using mod_mult2_eq [of q 2 2] by simp
    then show ?thesis unfolding half_nat byte_nat by (simp only: byte_in_half mod_less_divisor zero_less_numeral)
  qed
  consider "knd = LW" | "knd = LH" | "knd = LHU" | "knd = LB" | "knd = LBU" using knd by blast
  then show ?thesis
  proof cases
    case 1
    with rd(1) w al load_word show ?thesis by simp
  next
    case 2
    then have q0: "unat ad mod 2 = 0" using al by simp
    with limb 2 obtain l where l: "limb = Some l" "wit row l = of_nat (unat (half_of (q mod 4) w))"
      unfolding q using even by auto
    have "limb_values row rd = limbs_of (scast (half_of (q mod 4) w))" using rd(2) 2 l by (metis option.inject)
    then show ?thesis unfolding 2 load_half(1) [OF q0] q by blast
  next
    case 3
    then have q0: "unat ad mod 2 = 0" using al by simp
    with limb 3 obtain l where l: "limb = Some l" "wit row l = of_nat (unat (half_of (q mod 4) w))"
      unfolding q using even by auto
    have "limb_values row rd = limbs_of (ucast (half_of (q mod 4) w))" using rd(3) 3 l by (metis option.inject)
    then show ?thesis unfolding 3 load_half(2) [OF q0] q by blast
  next
    case 4
    with limb byte obtain l b where l: "limb = Some l" "wit row l = of_nat (unat (half_of (2 * (q div 2 mod 2)) w))"
      and b: "e = Some (WitIn b)" "\<forall>h :: 16 word. wit row l = of_nat (unat h) \<longrightarrow> wit row b = of_nat (unat h div 2 ^ (8 * (q mod 2)) mod 256)"
      unfolding q by auto
    have "value_of row (WitIn b) = of_nat (unat (byte_of (q mod 4) w))" using b(2) l(2) shift by (simp only: eval_simps)
    then have "limb_values row rd = limbs_of (scast (byte_of (q mod 4) w))" using rd(4) 4 b(1) by (metis option.inject)
    then show ?thesis unfolding 4 load_byte q by blast
  next
    case 5
    with limb byte obtain l b where l: "limb = Some l" "wit row l = of_nat (unat (half_of (2 * (q div 2 mod 2)) w))"
      and b: "e = Some (WitIn b)" "\<forall>h :: 16 word. wit row l = of_nat (unat h) \<longrightarrow> wit row b = of_nat (unat h div 2 ^ (8 * (q mod 2)) mod 256)"
      unfolding q by auto
    have "value_of row (WitIn b) = of_nat (unat (byte_of (q mod 4) w))" using b(2) l(2) shift by (simp only: eval_simps)
    then have "limb_values row rd = limbs_of (ucast (byte_of (q mod 4) w))" using rd(5) 5 b(1) by (metis option.inject)
    then show ?thesis unfolding 5 load_byte q by blast
  qed
qed

lemma load_target_returns:
  "returns (load_target_limb knd low mem) (\<lambda>_. True)"
  "returns (load_target_bytes knd low limb) (\<lambda>(e, _). \<forall>f. e = Some f \<longrightarrow> challenge_free f)"
proof -
  show "returns (load_target_limb knd low mem) (\<lambda>_. True)" by (rule returns_any)
  have any: "returns create_u8 (\<lambda>_. True)" "returns (condition_require_equal c x t f) (\<lambda>_. True)" for c x t f by (rule returns_any)+
  show "returns (load_target_bytes knd low limb) (\<lambda>(e, _). \<forall>f. e = Some f \<longrightarrow> challenge_free f)"
    unfolding load_target_bytes_def
    by (auto intro!: returns_ok returns_bind [OF any(1)] returns_bind [OF any(2)] returns_bind [OF expect_returns])
qed

lemma load_makes:
  assumes knd: "knd \<in> {LB, LBU, LH, LHU, LW}"
  shows "makes row (load_construct knd) (\<lambda>_ Ps. \<exists>imm a m addr d. im_format row knd imm a m addr d Ps \<and>
      (\<forall>v. imm = of_int (sint v) \<longrightarrow> loads knd a v addr m d))"
  unfolding load_construct_def
proof (rule makes_enforces_bind_returns [OF uint_new_unchecked_returns uint_new_unchecked_builds], clarify,
    rule makes_enforces_bind [OF create_witin_builds], rule makes_enforces_bind_returns [OF uint_new_returns uint_new_builds], clarify,
    rule makes_enforces_bind_returns [OF load_addr_returns load_addr_builds], rule makes_enforces_bind [OF require_equal_builds], simp)
  fix a0 a1 imm m0 m1 :: nat and addr :: MemAddr
  assume wf: "wf_addr addr"
  then obtain e0 e1 where low: "low_bit_exprs addr = [e0, e1]" "challenge_free e0" "challenge_free e1" unfolding wf_addr_def by blast
  have mem: "uexprs (pair_uint m0 m1) = [WitIn m0, WitIn m1]" "free_uint (pair_uint m0 m1)" by simp_all
  note limb = load_target_limb_builds [OF low, of row knd m0 m1] and byte = load_target_bytes_builds [OF low, of row knd]
  let ?L = "\<lambda>t. knd \<in> {LB, LBU, LH, LHU} \<longrightarrow> (\<exists>l. t = Some l \<and> (\<forall>w q. holds row (pair_uint m0 m1) w \<longrightarrow>
    bits_hold row (low_bit_exprs addr) q \<longrightarrow> wit row l = of_nat (unat (half_of (2 * (q div 2 mod 2)) w))))"
  show "makes row (andThen (load_target_limb knd (low_bit_exprs addr) (uexprs (pair_uint m0 m1))) (\<lambda>target_limb.
     andThen (load_target_bytes knd (low_bit_exprs addr) target_limb) (\<lambda>(target_byte_expr, target_limb_bytes).
     andThen (load_rd_written knd (pair_uint m0 m1) target_limb target_byte_expr) (\<lambda>(signed_extend_config, rd_written).
     andThen (register_expr (pair_uint a0 a1)) (\<lambda>a.
     andThen (register_expr rd_written) (\<lambda>d.
     andThen (im_insn_construct knd (WitIn imm) a (memory_expr (pair_uint m0 m1)) (expr_align4 addr) d) (\<lambda>im_insn.
     ok \<lparr>ld_im_insn = im_insn, ld_rs1 = pair_uint a0 a1, ld_imm = imm, ld_memory_addr = addr,
         ld_memory_read = pair_uint m0 m1, ld_target_limb = target_limb, ld_target_limb_bytes = target_limb_bytes,
         ld_signed_extend = signed_extend_config\<rparr>))))))) (\<lambda>b Ps.
      value_of row (expr_unaligned addr) = value_of row (uint_value 16 (pair_uint a0 a1) + WitIn imm) \<longrightarrow>
      (\<exists>w. addr_holds row addr w \<and> unat w mod access_size knd = 0) \<longrightarrow> (\<exists>w. holds row (pair_uint m0 m1) w) \<longrightarrow> True \<longrightarrow> True \<longrightarrow>
      (\<exists>imm a m addr d. im_format row knd imm a m addr d Ps \<and> (\<forall>v. imm = of_int (sint v) \<longrightarrow> loads knd a v addr m d)))"
    unfolding mem(1)
  proof (rule makes_enforces_bind [OF limb], rule makes_enforces_bind_returns [OF load_target_returns(2) byte], clarify,
      rule makes_enforces_bind_returns [OF load_rd_returns load_rd_builds], rule mem(2), assumption, clarify,
      simp only: register_expr_free free_plain andThen_ok, rule makes_bind [OF im_insn_makes], rule makes_ok, intro allI impI, elim exE conjE)
    fix limb :: "nat option" and e :: "expr option" and rd :: UIntLimbs and Qs w ad
    assume fmt: "im_format row knd (value_of row (WitIn imm)) (limb_values row (pair_uint a0 a1))
        (value_of row (memory_expr (pair_uint m0 m1))) (value_of row (expr_align4 addr)) (limb_values row rd) Qs"
      and byte: "knd \<in> {LB, LBU} \<longrightarrow> (\<exists>l b. limb = Some l \<and> e = Some (WitIn b) \<and> (\<forall>(h :: 16 word) q. wit row l = of_nat (unat h) \<longrightarrow>
         bits_hold row (low_bit_exprs addr) q \<longrightarrow> wit row b = of_nat (unat h div 2 ^ (8 * (q mod 2)) mod 256)))"
      and limb: "?L limb"
      and sum: "value_of row (expr_unaligned addr) = value_of row (uint_value 16 (pair_uint a0 a1) + WitIn imm)"
      and mem: "holds row (pair_uint m0 m1) w" and ad: "addr_holds row addr ad" and al: "unat ad mod access_size knd = 0"
      and rd: "knd = LW \<longrightarrow> rd = pair_uint m0 m1"
        "knd = LH \<longrightarrow> (\<exists>l. limb = Some l \<and> (\<forall>h :: 16 word. wit row l = of_nat (unat h) \<longrightarrow> limb_values row rd = limbs_of (scast h)))"
        "knd = LHU \<longrightarrow> (\<exists>l. limb = Some l \<and> (\<forall>h :: 16 word. wit row l = of_nat (unat h) \<longrightarrow> limb_values row rd = limbs_of (ucast h)))"
        "knd = LB \<longrightarrow> (\<exists>f. e = Some f \<and> (\<forall>b :: u8. value_of row f = of_nat (unat b) \<longrightarrow> limb_values row rd = limbs_of (scast b)))"
        "knd = LBU \<longrightarrow> (\<exists>f. e = Some f \<and> (\<forall>b :: u8. value_of row f = of_nat (unat b) \<longrightarrow> limb_values row rd = limbs_of (ucast b)))"
    have bits: "bits_hold row (low_bit_exprs addr) (unat ad)" using ad by (simp only: addr_holds_def)
    have "\<exists>v. load_value knd (ByteAddr ad) w = Inr v \<and> limb_values row rd = limbs_of v"
    proof (rule load_data [OF knd mem [unfolded map_value_holds] al _ _ rd])
      assume "knd \<in> {LB, LBU, LH, LHU}"
      with limb obtain l where "limb = Some l" and l: "\<forall>w q. holds row (pair_uint m0 m1) w \<longrightarrow>
          bits_hold row (low_bit_exprs addr) q \<longrightarrow> wit row l = of_nat (unat (half_of (2 * (q div 2 mod 2)) w))" by blast
      with l [rule_format, OF mem bits] show "\<exists>l. limb = Some l \<and> wit row l = of_nat (unat (half_of (2 * (unat ad div 2 mod 2)) w))" by blast
    next
      assume "knd \<in> {LB, LBU}"
      with byte obtain l b where "limb = Some l" "e = Some (WitIn b)" and b: "\<forall>(h :: 16 word) q. wit row l = of_nat (unat h) \<longrightarrow>
         bits_hold row (low_bit_exprs addr) q \<longrightarrow> wit row b = of_nat (unat h div 2 ^ (8 * (q mod 2)) mod 256)" by blast
      with b [rule_format, OF _ bits] show "\<exists>l b. limb = Some l \<and> e = Some (WitIn b) \<and> (\<forall>h :: 16 word. wit row l = of_nat (unat h) \<longrightarrow>
         wit row b = of_nat (unat h div 2 ^ (8 * (unat ad mod 2)) mod 256))" by blast
    qed
    moreover have "value_of row (memory_expr (pair_uint m0 m1)) = reg_of w" using holds_value [OF mem] by (simp only: memory_expr_def)
    moreover have "ad = x + v \<and> uint (x + v) = uint x + sint v"
      if "limb_values row (pair_uint a0 a1) = limbs_of x" "value_of row (WitIn imm) = of_int (sint v)" for x v
      using address_sum [of ad x v] sum that addr_values(1) [OF ad wf] uint_value_holds [OF that(1) [folded map_value_holds]]
      by (simp only: eval_plus)
    moreover note addr_values(3) [OF ad wf]
    ultimately have "loads knd (limb_values row (pair_uint a0 a1)) v (value_of row (expr_align4 addr))
        (value_of row (memory_expr (pair_uint m0 m1))) (limb_values row rd)" if "value_of row (WitIn imm) = of_int (sint v)" for v
      unfolding loads_def using that by blast
    with fmt show "\<exists>imm a m addr d. im_format row knd imm a m addr d (Qs @ []) \<and> (\<forall>v. imm = of_int (sint v) \<longrightarrow> loads knd a v addr m d)"
      unfolding append_Nil2 by blast
  qed
qed

interpretation lb_insn: im_circuit "load_construct LB" LB by unfold_locales (rule load_makes, simp_all)
interpretation lbu_insn: im_circuit "load_construct LBU" LBU by unfold_locales (rule load_makes, simp_all)
interpretation lh_insn: im_circuit "load_construct LH" LH by unfold_locales (rule load_makes, simp_all)
interpretation lhu_insn: im_circuit "load_construct LHU" LHU by unfold_locales (rule load_makes, simp_all)
interpretation lw_insn: im_circuit "load_construct LW" LW by unfold_locales (rule load_makes, simp_all)

end
