(* ===== verification/Stores.thy ===== *)
theory Stores
  imports Loads
begin

text \<open>
  The circuits of the stores (\<open>instructions/riscv/memory/store.rs\<close>, \<open>gadget.rs\<close>). The feature
  \<open>forbid_overflow\<close> is the parameter \<open>forbid\<close>; the constant parameter \<open>N_ZEROS\<close> is the argument \<open>n\<close>.
\<close>

subsection \<open>The change of a word\<close>

record MemWordChange =
  mwc_prev_limb_bytes :: "nat list"
  mwc_rs2_limb_bytes :: "nat list"
  mwc_expected_changes :: "nat list"

definition alloc_bytes :: "nat \<Rightarrow> nat list build" where
  "alloc_bytes num_bytes =
     mapM (\<lambda>_. andThen create_witin (\<lambda>byte. andThen (assert_ux 8 (WitIn byte)) (\<lambda>_. ok byte))) [0..<num_bytes]"

definition decompose_limb :: "expr \<Rightarrow> nat \<Rightarrow> nat list build" where
  "decompose_limb limb num_bytes =
     andThen (alloc_bytes num_bytes) (\<lambda>bytes.
     andThen (require_equal limb (sum_expr (map (\<lambda>(idx, byte). shl_expr (WitIn byte) (idx * 8)) (enumerate 0 bytes)))) (\<lambda>_.
     ok bytes))"

definition word_change_construct :: "nat \<Rightarrow> MemAddr \<Rightarrow> UIntLimbs \<Rightarrow> UIntLimbs \<Rightarrow> MemWordChange build" where
  "word_change_construct n addr prev_word rs2_word =
     (if n = 0 then
        andThen (zkvm_assert (wits_in prev_word \<noteq> None \<and> wits_in rs2_word \<noteq> None) ''wits_in().is_some()'') (\<lambda>_.
        let low_bits = low_bit_exprs addr; prev_limbs = uexprs prev_word; rs2_limbs = uexprs rs2_word;
            prev_target_limb = select (low_bits ! 1) (prev_limbs ! 1) (prev_limbs ! 0)
        in andThen (decompose_limb prev_target_limb 2) (\<lambda>prev_limb_bytes.
        andThen (alloc_bytes 1) (\<lambda>rs2_limb_bytes.
        let u8_base_inv = Constant (Inl (inverse (of_nat (2 ^ 8)))) in
        andThen (assert_ux 8 (u8_base_inv * (rs2_limbs ! 0 - WitIn (rs2_limb_bytes ! 0)))) (\<lambda>_.
        andThen create_witin (\<lambda>expected_limb_change.
        andThen (condition_require_equal (low_bits ! 0) (WitIn expected_limb_change)
          (shl_expr (WitIn (rs2_limb_bytes ! 0) - WitIn (prev_limb_bytes ! 1)) 8)
          (WitIn (rs2_limb_bytes ! 0) - WitIn (prev_limb_bytes ! 0))) (\<lambda>_.
        andThen create_witin (\<lambda>expected_change.
        andThen (condition_require_equal (low_bits ! 1) (WitIn expected_change)
          (shl_expr (WitIn expected_limb_change) 16) (WitIn expected_limb_change)) (\<lambda>_.
        ok \<lparr>mwc_prev_limb_bytes = prev_limb_bytes, mwc_rs2_limb_bytes = rs2_limb_bytes,
            mwc_expected_changes = [expected_limb_change, expected_change]\<rparr>))))))))
      else if n = 1 then
        andThen (zkvm_assert (wits_in prev_word \<noteq> None \<and> wits_in rs2_word \<noteq> None) ''wits_in().is_some()'') (\<lambda>_.
        let low_bits = low_bit_exprs addr; prev_limbs = uexprs prev_word; rs2_limbs = uexprs rs2_word
        in andThen create_witin (\<lambda>expected_change.
        andThen (condition_require_equal (low_bits ! 1) (WitIn expected_change)
          (shl_expr (rs2_limbs ! 0 - prev_limbs ! 1) 16) (rs2_limbs ! 0 - prev_limbs ! 0)) (\<lambda>_.
        ok \<lparr>mwc_prev_limb_bytes = [], mwc_rs2_limb_bytes = [], mwc_expected_changes = [expected_change]\<rparr>)))
      else fail (ZkvmPanic ''N_ZEROS cannot be larger than 1''))"

definition word_change_value :: "nat \<Rightarrow> MemWordChange \<Rightarrow> ('s, zkvm_error, expr) prog" where
  "word_change_value n chg =
     andThen (zkvm_assert (n \<le> 1) ''N_ZEROS <= 1'') (\<lambda>_. ok (WitIn (mwc_expected_changes chg ! (1 - n))))"

definition word_change_assign :: "nat \<Rightarrow> MemWordChange \<Rightarrow> StepRecord \<Rightarrow> u32 \<Rightarrow> unit assign" where
  "word_change_assign n chg r sh =
     andThen (expect (rec_memory_op r) ''unwrap'') (\<lambda>memory_op.
     andThen (expect (rec_rs2 r) ''unwrap'') (\<lambda>rs2.
     let low0 = sh AND 1; low1 = drop_bit 1 sh AND 1;
         prev_limb = v_limbs (word_value (before (op_value memory_op))) ! unat low1;
         rs2_limb = v_limbs (word_value (op_value rs2)) ! 0;
         rs2_byte = of_nat (unat (le_bytes rs2_limb ! 0)) :: gl
     in if n = 0 then
          andThen (forM (\<lambda>(col, byte). andThen (set_val col (of_nat (unat byte))) (\<lambda>_. lkm_assert_ux 8 (ucast byte)))
            (zip (mwc_prev_limb_bytes chg) (le_bytes prev_limb))) (\<lambda>_.
          andThen (set_val (mwc_rs2_limb_bytes chg ! 0) rs2_byte) (\<lambda>_.
          andThen (forM (\<lambda>byte. lkm_assert_ux 8 (ucast byte)) (le_bytes rs2_limb)) (\<lambda>_.
          let limb_change = (if low0 = 0 then rs2_byte - of_nat (unat (le_bytes prev_limb ! 0))
                else of_nat (unat (le_bytes rs2_limb ! 0) * 2 ^ 8) - of_nat (unat (le_bytes prev_limb ! 1) * 2 ^ 8));
              final_change = (if low1 = 0 then limb_change else of_nat (2 ^ 16) * limb_change)
          in andThen (set_val (mwc_expected_changes chg ! 0) limb_change) (\<lambda>_.
             set_val (mwc_expected_changes chg ! 1) final_change))))
        else if n = 1 then
          set_val (mwc_expected_changes chg ! 0)
            (if low1 = 0 then of_nat (unat rs2_limb) - of_nat (unat prev_limb)
             else of_nat (unat rs2_limb * 2 ^ 16) - of_nat (unat prev_limb * 2 ^ 16))
        else fail (ZkvmPanic ''N_ZEROS cannot be larger than 1'')))"

subsection \<open>Stores\<close>

record StoreConfig =
  so_s_insn :: SInstructionConfig
  so_rs1 :: UIntLimbs
  so_rs2 :: UIntLimbs
  so_imm :: nat
  so_prev_memory_value :: UIntLimbs
  so_memory_addr :: MemAddr
  so_word_change :: "MemWordChange option"

definition store_addr_construct :: "InsnKind \<Rightarrow> MemAddr build" where
  "store_addr_construct knd =
     (if knd = SW then construct_align4
      else if knd = SH then construct_align2
      else if knd = SB then construct_unaligned
      else fail (ZkvmPanic ''Unsupported instruction kind''))"

text \<open>\<open>N_ZEROS\<close> of \<open>SwInstruction\<close>, \<open>ShInstruction\<close> and \<open>SbInstruction\<close>.\<close>

definition store_n_zeros :: "InsnKind \<Rightarrow> nat" where
  "store_n_zeros knd = (if knd = SW then 2 else if knd = SH then 1 else 0)"

definition new_memory_value ::
  "InsnKind \<Rightarrow> MemAddr \<Rightarrow> UIntLimbs \<Rightarrow> UIntLimbs \<Rightarrow> (expr \<times> MemWordChange option) build" where
  "new_memory_value knd memory_addr prev_memory_value rs2_read =
     (if knd = SW then ok (memory_expr rs2_read, None)
      else if knd \<in> {SH, SB} then
        andThen (word_change_construct (store_n_zeros knd) memory_addr prev_memory_value rs2_read) (\<lambda>chg.
        andThen (word_change_value (store_n_zeros knd) chg) (\<lambda>v.
        ok (uint_value 16 prev_memory_value + v, Some chg)))
      else fail (ZkvmPanic ''Unsupported instruction kind''))"

definition store_construct :: "bool \<Rightarrow> Platform \<Rightarrow> InsnKind \<Rightarrow> StoreConfig build" where
  "store_construct forbid platform knd =
     andThen (uint_new_unchecked 32 16) (\<lambda>rs1_read.
     andThen (uint_new_unchecked 32 16) (\<lambda>rs2_read.
     andThen (uint_new 32 16) (\<lambda>prev_memory_value.
     andThen create_witin (\<lambda>imm.
     andThen (store_addr_construct knd) (\<lambda>memory_addr.
     andThen (if forbid then
         zkvm_assert (\<not> can_write platform (0xFFFFFFFF - 0x7FF + 1) \<and> \<not> can_write platform (0x800 - 1)) ''can_write''
       else ok ()) (\<lambda>_.
     andThen (require_equal (expr_unaligned memory_addr) (uint_value 16 rs1_read + WitIn imm)) (\<lambda>_.
     andThen (new_memory_value knd memory_addr prev_memory_value rs2_read) (\<lambda>(new_value, word_change).
     andThen (register_expr rs1_read) (\<lambda>a.
     andThen (register_expr rs2_read) (\<lambda>b.
     andThen (s_insn_construct knd (WitIn imm) a b (expr_align4 memory_addr) (memory_expr prev_memory_value) new_value) (\<lambda>s_insn.
     ok \<lparr>so_s_insn = s_insn, so_rs1 = rs1_read, so_rs2 = rs2_read, so_imm = imm, so_prev_memory_value = prev_memory_value,
         so_memory_addr = memory_addr, so_word_change = word_change\<rparr>)))))))))))"

definition store_assign :: "InsnKind \<Rightarrow> StoreConfig \<Rightarrow> StepRecord \<Rightarrow> unit assign" where
  "store_assign knd cfg r =
     andThen (expect (rec_rs1 r) ''unwrap'') (\<lambda>rs1.
     andThen (expect (rec_rs2 r) ''unwrap'') (\<lambda>rs2.
     andThen (expect (rec_memory_op r) ''unwrap'') (\<lambda>memory_op.
     let imm = imm_internal (rec_insn r) in
     andThen (value_new 32 (ucast (before (op_value memory_op)))) (\<lambda>prev_mem_value.
     let addr = op_value rs1 + ucast imm in
     andThen (s_insn_assign (so_s_insn cfg) r) (\<lambda>_.
     andThen (assign_value 32 16 (so_rs1 cfg) (word_value (op_value rs1))) (\<lambda>_.
     andThen (assign_value 32 16 (so_rs2 cfg) (word_value (op_value rs2))) (\<lambda>_.
     andThen (set_val (so_imm cfg) (i64_to_base imm)) (\<lambda>_.
     andThen (assign_value 32 16 (so_prev_memory_value cfg) prev_mem_value) (\<lambda>_.
     andThen (mem_addr_assign (so_memory_addr cfg) addr) (\<lambda>_.
     case so_word_change cfg of None \<Rightarrow> ok ()
     | Some chg \<Rightarrow> word_change_assign (store_n_zeros knd) chg r (shift (ByteAddr addr))))))))))))"

subsection \<open>The contract of a store\<close>

text \<open>The word of the address gets what the interpreter stores there; the address does not wrap around.\<close>

definition stores :: "InsnKind \<Rightarrow> gl list \<Rightarrow> gl list \<Rightarrow> u32 \<Rightarrow> gl \<Rightarrow> gl \<Rightarrow> gl \<Rightarrow> bool" where
  "stores k a b imm addr old new \<longleftrightarrow> (\<exists>w. old = reg_of w \<and> (\<forall>x y. a = limbs_of x \<longrightarrow> b = limbs_of y \<longrightarrow>
     uint (x + imm) = uint x + sint imm \<and> addr = of_nat (unat (x + imm) div 4 * 4) \<and>
     (\<exists>v. store_value k (ByteAddr (x + imm)) y w = Inr v \<and> new = reg_of v)))"

definition s_step :: "Program \<Rightarrow> InsnKind \<Rightarrow> ram_values \<Rightarrow> ram_values \<Rightarrow> bool" where
  "s_step prog k rs ws \<longleftrightarrow> (\<exists>pc insn ts a b addr old new.
     decoded_at prog pc insn \<and> insn_kind insn = k \<and> stores k a b (insn_imm insn) addr old new \<and>
     accesses [moves (reg_of pc) (reg_of pc + 4) ts, keeps (reg_of (rs1_or_zero insn)) a ts,
       keeps (reg_of (rs2_or_zero insn)) b (ts + 1), touches addr old new (ts + 3)] rs ws)"

locale s_circuit =
  fixes construct :: "'c build" and knd :: InsnKind
  assumes makes: "makes row construct (\<lambda>_ Ps. \<exists>imm a b addr old new. s_format row knd imm a b addr old new Ps \<and>
      (\<forall>v. imm = of_int (sint v) \<longrightarrow> stores knd a b v addr old new))"
    and format: "insn_format knd = Fmt_S"
begin

lemma executes:
  assumes "row_program row = program_rows n prog"
  shows "builds row construct (\<lambda>_ rs ws. s_step prog knd rs ws)"
proof (rule builds_conseq [OF makes [unfolded makes_def]])
  fix rs ws :: ram_values
  assume "\<exists>Ps. (\<exists>imm a b addr old new. s_format row knd imm a b addr old new Ps \<and>
      (\<forall>v. imm = of_int (sint v) \<longrightarrow> stores knd a b v addr old new)) \<and> accesses Ps rs ws"
  then obtain imm a b addr old new pc ts i1 i2 where
    acc: "accesses [moves pc (pc + 4) ts, keeps i1 a ts, keeps i2 b (ts + 1), touches addr old new (ts + 3)] rs ws"
    and st: "\<forall>v. imm = of_int (sint v) \<longrightarrow> stores knd a b v addr old new" and fetched: "fetched row knd pc 32 i1 i2 imm"
    unfolding s_format_def by blast
  have valid: "knd \<noteq> INVALID" using format by auto
  from fetched_decoded [OF assms fetched valid] obtain w insn where dec: "decoded_at prog w insn"
    and insn: "insn_kind insn = knd" "pc = reg_of w" "i1 = reg_of (rs1_or_zero insn)" "i2 = reg_of (rs2_or_zero insn)"
      "imm = of_int (sint (imm_internal insn))" by blast
  have "sint (imm_internal insn) = sint (insn_imm insn)" using format insn(1) by (intro imm_signed) auto
  then have "stores knd a b (insn_imm insn) addr old new" using st insn(5) by (simp only: refl simp_thms)
  then show "s_step prog knd rs ws" unfolding s_step_def using dec insn(1) acc [unfolded insn(2-4)] by blast
qed

end

subsection \<open>Words in bytes\<close>

abbreviation byte_val :: "nat \<Rightarrow> u32 \<Rightarrow> gl" where "byte_val k w \<equiv> of_nat (unat (byte_of k w))"

lemma split_bytes:
  assumes "n < 4294967296"
  shows "(n :: nat) = n mod 256 + 256 * (n div 256 mod 256) + 65536 * (n div 65536 mod 256) + 16777216 * (n div 16777216 mod 256)"
proof -
  have "n mod 65536 = n mod 256 + 256 * (n div 256 mod 256)" using mod_mult2_eq [of n 256 256] by simp
  moreover have "n mod 16777216 = n mod 65536 + 65536 * (n div 65536 mod 256)" using mod_mult2_eq [of n 65536 256] by simp
  moreover have "n = n mod 16777216 + 16777216 * (n div 16777216)" by simp
  moreover have "n div 16777216 < 256" using assms by (intro less_mult_imp_div_less) simp
  then have "n div 16777216 mod 256 = n div 16777216" by simp
  ultimately show ?thesis by linarith
qed

lemma byte_powers: "(2 :: nat) ^ (8 * 0) = 1" "(2 :: nat) ^ (8 * 1) = 256" "(2 :: nat) ^ (8 * 2) = 65536" "(2 :: nat) ^ (8 * 3) = 16777216"
  by simp_all

lemma word_val: "(of_nat (unat (w :: u32)) :: gl) = byte_val 0 w + 256 * byte_val 1 w + 65536 * byte_val 2 w + 16777216 * byte_val 3 w"
proof -
  have "unat w < 4294967296" using unsigned_less [of w, where ?'a = nat] by simp
  from split_bytes [OF this] have "unat w = unat (byte_of 0 w) + 256 * unat (byte_of 1 w) + 65536 * unat (byte_of 2 w) + 16777216 * unat (byte_of 3 w)"
    unfolding byte_nat byte_powers div_by_1 .
  then have "(of_nat (unat w) :: gl) = of_nat (unat (byte_of 0 w) + 256 * unat (byte_of 1 w) + 65536 * unat (byte_of 2 w) + 16777216 * unat (byte_of 3 w))"
    by (rule arg_cong)
  then show ?thesis by (simp only: of_nat_add of_nat_mult of_nat_numeral)
qed

lemma half_bytes: "unat (half_of k w) mod 256 = unat (byte_of k w)" "unat (half_of k w) div 256 = unat (byte_of (k + 1) w)"
proof -
  have "unat w div 2 ^ (8 * (k + 1)) = unat w div 2 ^ (8 * k) div 2 ^ 8" by (simp only: div_exp_eq distrib_left mult_1_right)
  then show "unat (half_of k w) mod 256 = unat (byte_of k w)" "unat (half_of k w) div 256 = unat (byte_of (k + 1) w)"
    using mod_mult2_eq [of "unat w div 2 ^ (8 * k)" 256 256] by (simp_all add: half_nat byte_nat mod_mod_cancel)
qed

lemma limbs_halves: "limbs_of w = [of_nat (unat (half_of 0 w)), of_nat (unat (half_of 2 w))]"
proof -
  have "unat w div 65536 < 65536" by (rule limbs_of_less)
  then show ?thesis by (simp add: limbs_of_def half_nat del: of_nat_unat)
qed

lemma store_byte:
  obtains v where "store_value SB (ByteAddr ad) y w = Inr v"
    and "\<And>k. k < 4 \<Longrightarrow> byte_of k v = (if k = unat ad mod 4 then byte_of 0 y else byte_of k w)"
proof (rule that)
  show "store_value SB (ByteAddr ad) y w =
      Inr ((w XOR (w AND push_bit (8 * (unat ad mod 4)) 0xff)) OR push_bit (8 * (unat ad mod 4)) (y AND 0xff))"
    by (simp add: bit_offset_eq Let_def)
qed (rule byte_of_set)

lemma store_half:
  assumes "unat ad mod 2 = 0"
  obtains v where "store_value SH (ByteAddr ad) y w = Inr v"
    and "\<And>k. k < 4 \<Longrightarrow> byte_of k v = (if k = unat ad mod 4 then byte_of 0 y else if k = unat ad mod 4 + 1 then byte_of 1 y else byte_of k w)"
proof -
  have e: "even (unat ad mod 4)" using assms mod_mod_cancel [of 2 4 "unat ad"] by (simp add: even_iff_mod_2_eq_zero)
  show thesis
  proof (rule that)
    show "store_value SH (ByteAddr ad) y w =
        Inr ((w XOR (w AND push_bit (8 * (unat ad mod 4)) 0xffff)) OR push_bit (8 * (unat ad mod 4)) (y AND 0xffff))"
      using assms by (simp add: bit_offset_eq Let_def and_1_eq_0)
  qed (rule byte_of_set_half [OF _ e], assumption, simp)
qed

subsection \<open>What the constraints of a store enforce\<close>

lemma alloc_bytes_flat:
  "alloc_bytes 1 = andThen create_witin (\<lambda>b. andThen (assert_ux 8 (WitIn b)) (\<lambda>_. ok [b]))"
  "alloc_bytes 2 = andThen create_witin (\<lambda>b. andThen (assert_ux 8 (WitIn b)) (\<lambda>_.
     andThen create_witin (\<lambda>c. andThen (assert_ux 8 (WitIn c)) (\<lambda>_. ok [b, c]))))"
  by (simp_all add: alloc_bytes_def upt_2 flatten)

lemma decompose_flat:
  "decompose_limb limb 2 = andThen create_witin (\<lambda>b. andThen (assert_ux 8 (WitIn b)) (\<lambda>_.
     andThen create_witin (\<lambda>c. andThen (assert_ux 8 (WitIn c)) (\<lambda>_.
     andThen (require_equal limb (sum_expr [shl_expr (WitIn b) 0, shl_expr (WitIn c) 8])) (\<lambda>_. ok [b, c])))))"
  by (simp add: decompose_limb_def alloc_bytes_flat flatten)

lemma decompose_builds:
  "enforces row (decompose_limb limb 2) (\<lambda>bs. \<exists>b c. bs = [b, c] \<and> (\<forall>h :: 16 word. value_of row limb = of_nat (unat h) \<longrightarrow>
     wit row b = of_nat (unat h mod 256) \<and> wit row c = of_nat (unat h div 256)))"
  unfolding decompose_flat
proof (intro enforces_bind [OF create_witin_builds] enforces_bind [OF assert_ux_builds] enforces_bind [OF require_equal_builds]
    builds_ok impI conjI refl, simp)
  fix b c
  assume "value_of row limb = value_of row (sum_expr [shl_expr (WitIn b) 0, shl_expr (WitIn c) 8])"
    and "canon (value_of row (WitIn b)) < 2 ^ 8" "canon (value_of row (WitIn c)) < 2 ^ 8"
  then show "\<exists>b' c'. [b, c] = [b', c'] \<and> (\<forall>h :: 16 word. value_of row limb = of_nat (unat h) \<longrightarrow>
      wit row b' = of_nat (unat h mod 256) \<and> wit row c' = of_nat (unat h div 256))"
    using byte_select [of "wit row c" "wit row b"] by (simp add: add.commute)
qed simp_all

lemma low_byte:
  assumes "canon r < 2 ^ 8" "canon ((h - r) * inverse 256) < 2 ^ 8" "h = of_nat (unat (w :: 16 word))"
  shows "r = of_nat (unat w mod 256)"
proof -
  have "(256 :: gl) \<noteq> 0" using of_int_gl_inject [of 256 0] by (simp add: gl_modulus_def)
  then have "inverse (256 :: gl) * 256 = 1" by (rule left_inverse)
  then have "(h - r) * inverse 256 * 256 + r = h" by (simp only: mult.assoc mult_1_right diff_add_cancel)
  then have "of_nat (unat w) = (h - r) * inverse 256 * 256 + r" using assms(3) by (simp only:)
  then show ?thesis using byte_select(2) [OF assms(2,1), of w] by (simp only:)
qed

text \<open>The byte or half word of the address is replaced; \<open>q\<close> is the address.\<close>

lemma word_change_builds_0:
  assumes "wf_addr addr"
  shows "enforces row (word_change_construct 0 addr (pair_uint m0 m1) (pair_uint b0 b1)) (\<lambda>chg. \<forall>w y q.
    holds row (pair_uint m0 m1) w \<longrightarrow> holds row (pair_uint b0 b1) y \<longrightarrow> bits_hold row (low_bit_exprs addr) q \<longrightarrow>
    wit row (mwc_expected_changes chg ! 1) = (byte_val 0 y - byte_val (q mod 4) w) * 2 ^ (8 * (q mod 4)))"
proof -
  obtain e0 e1 where low: "low_bit_exprs addr = [e0, e1]" "challenge_free e0" "challenge_free e1" using assms unfolding wf_addr_def by blast
  show ?thesis
    unfolding word_change_construct_def simp_thms if_True Let_def low(1) alloc_bytes_flat flatten
  proof (rule enforces_bind [OF enforces_assert], rule enforces_bind [OF decompose_builds],
      rule enforces_bind [OF create_witin_builds], rule enforces_bind [OF assert_ux_builds], simp,
      rule enforces_bind [OF assert_ux_builds], simp, rule enforces_bind [OF create_witin_builds],
      rule enforces_bind [OF condition_require_equal_builds], simp add: low, simp, simp, simp,
      rule enforces_bind [OF create_witin_builds], rule enforces_bind [OF condition_require_equal_builds],
      simp add: low, simp, simp, simp, rule builds_ok, intro impI conjI refl allI)
    fix bs :: "nat list" and r lc ec w y q
    assume ec: "value_of row (WitIn ec) = value_of row (WitIn lc) + value_of row ([e0, e1] ! 1) *
        (value_of row (shl_expr (WitIn lc) 16) - value_of row (WitIn lc))"
      and lc: "value_of row (WitIn lc) = value_of row (WitIn ([r] ! 0) - WitIn (bs ! 0)) + value_of row ([e0, e1] ! 0) *
        (value_of row (shl_expr (WitIn ([r] ! 0) - WitIn (bs ! 1)) 8) - value_of row (WitIn ([r] ! 0) - WitIn (bs ! 0)))"
      and low2: "canon (value_of row (Constant (Inl (inverse (of_nat (2 ^ 8)))) * (uexprs (pair_uint b0 b1) ! 0 - WitIn ([r] ! 0)))) < 2 ^ 8"
      and low1: "canon (value_of row (WitIn r)) < 2 ^ 8"
      and "\<exists>b c. bs = [b, c] \<and> (\<forall>h :: 16 word. value_of row (select ([e0, e1] ! 1) (uexprs (pair_uint m0 m1) ! 1) (uexprs (pair_uint m0 m1) ! 0)) =
        of_nat (unat h) \<longrightarrow> wit row b = of_nat (unat h mod 256) \<and> wit row c = of_nat (unat h div 256))"
      and w: "holds row (pair_uint m0 m1) w" and y: "holds row (pair_uint b0 b1) y" and q: "bits_hold row [e0, e1] q"
    then obtain b c where bs: "bs = [b, c]" and half: "\<forall>h :: 16 word. value_of row (select ([e0, e1] ! 1) (uexprs (pair_uint m0 m1) ! 1)
        (uexprs (pair_uint m0 m1) ! 0)) = of_nat (unat h) \<longrightarrow> wit row b = of_nat (unat h mod 256) \<and> wit row c = of_nat (unat h div 256)" by blast
    let ?k = "2 * (q div 2 mod 2)"
    have bits: "value_of row e0 = of_nat (q mod 2)" "value_of row e1 = of_nat (q div 2 mod 2)" using q by simp_all
    have m: "wit row m0 = of_nat (unat (half_of 0 w))" "wit row m1 = of_nat (unat (half_of 2 w))"
      and y0: "wit row b0 = of_nat (unat (half_of 0 y))" using w y by (simp_all add: holds_def limbs_halves del: of_nat_unat)
    have "value_of row (select ([e0, e1] ! 1) (uexprs (pair_uint m0 m1) ! 1) (uexprs (pair_uint m0 m1) ! 0)) = of_nat (unat (half_of ?k w))"
      using low bits m by (cases "q div 2 mod 2 = 0") (simp_all del: of_nat_unat)
    with half have b: "wit row b = byte_val ?k w" "wit row c = byte_val (?k + 1) w" using half_bytes [of ?k w] by (simp_all only: simp_thms)
    have r: "wit row r = byte_val 0 y"
      using low_byte [of "wit row r" "wit row b0" "half_of 0 y"] low1 low2 y0 half_bytes(1) [of 0 y] by (simp add: mult.commute del: of_nat_unat)
    have q4: "q mod 4 = ?k + q mod 2" using mod_mult2_eq [of q 2 2] by simp
    have "wit row lc = (byte_val 0 y - byte_val (?k + q mod 2) w) * 256 ^ (q mod 2)"
      using lc bits b r unfolding bs by (cases "q mod 2 = 0") (simp_all del: of_nat_unat)
    moreover have "wit row ec = wit row lc * 65536 ^ (q div 2 mod 2)"
      using ec bits by (cases "q div 2 mod 2 = 0") simp_all
    moreover have "(2 :: gl) ^ (8 * (?k + q mod 2)) = 256 ^ (q mod 2) * 65536 ^ (q div 2 mod 2)"
      by (cases "q mod 2 = 0"; cases "q div 2 mod 2 = 0") simp_all
    ultimately show "wit row (mwc_expected_changes \<lparr>mwc_prev_limb_bytes = bs, mwc_rs2_limb_bytes = [r], mwc_expected_changes = [lc, ec]\<rparr> ! 1) =
        (byte_val 0 y - byte_val (q mod 4) w) * 2 ^ (8 * (q mod 4))"
      unfolding q4 by (simp add: mult.assoc del: of_nat_unat)
  qed
qed

lemma word_change_builds_1:
  assumes "wf_addr addr"
  shows "enforces row (word_change_construct 1 addr (pair_uint m0 m1) (pair_uint b0 b1)) (\<lambda>chg. \<forall>w y q.
    holds row (pair_uint m0 m1) w \<longrightarrow> holds row (pair_uint b0 b1) y \<longrightarrow> bits_hold row (low_bit_exprs addr) q \<longrightarrow>
    wit row (mwc_expected_changes chg ! 0) =
      (of_nat (unat (half_of 0 y)) - of_nat (unat (half_of (2 * (q div 2 mod 2)) w))) * 65536 ^ (q div 2 mod 2))"
proof -
  obtain e0 e1 where low: "low_bit_exprs addr = [e0, e1]" "challenge_free e0" "challenge_free e1" using assms unfolding wf_addr_def by blast
  have half: "wit row ec = (of_nat (unat (half_of 0 y)) - of_nat (unat (half_of (2 * (q div 2 mod 2)) w))) * 65536 ^ (q div 2 mod 2)"
    if "wit row ec = (wit row b0 - wit row m0) + value_of row e1 * ((wit row b0 - wit row m1) * 65536 - (wit row b0 - wit row m0))"
      "holds row (pair_uint m0 m1) w" "holds row (pair_uint b0 b1) y" "value_of row e1 = of_nat (q div 2 mod 2)" for ec w y q
    using that by (cases "q div 2 mod 2 = 0") (simp_all add: holds_def limbs_halves del: of_nat_unat)
  have one: "(1 :: nat) = 0 \<longleftrightarrow> False" by simp
  show ?thesis
    unfolding word_change_construct_def Let_def low(1) one if_False simp_thms if_True
  proof (rule enforces_bind [OF enforces_assert], rule enforces_bind [OF create_witin_builds],
      rule enforces_bind [OF condition_require_equal_builds], simp add: low, simp, simp, simp, rule builds_ok, intro impI conjI refl allI)
    fix ec w y q
    assume "value_of row (WitIn ec) = value_of row (uexprs (pair_uint b0 b1) ! 0 - uexprs (pair_uint m0 m1) ! 0) + value_of row ([e0, e1] ! 1) *
        (value_of row (shl_expr (uexprs (pair_uint b0 b1) ! 0 - uexprs (pair_uint m0 m1) ! 1) 16) -
         value_of row (uexprs (pair_uint b0 b1) ! 0 - uexprs (pair_uint m0 m1) ! 0))"
      and "holds row (pair_uint m0 m1) w" "holds row (pair_uint b0 b1) y" "bits_hold row [e0, e1] q"
    then show "wit row (mwc_expected_changes \<lparr>mwc_prev_limb_bytes = [], mwc_rs2_limb_bytes = [], mwc_expected_changes = [ec]\<rparr> ! 0) =
        (of_nat (unat (half_of 0 y)) - of_nat (unat (half_of (2 * (q div 2 mod 2)) w))) * 65536 ^ (q div 2 mod 2)"
      using half [of ec w y q] low by (simp del: of_nat_unat)
  qed
qed

lemma below_4: "k < 4 \<Longrightarrow> k = 0 \<or> k = 1 \<or> k = 2 \<or> k = (3 :: nat)"
  by linarith

lemma stored_byte:
  assumes "k < 4" and "\<And>j. j < 4 \<Longrightarrow> byte_of j v = (if j = k then byte_of 0 y else byte_of j w)"
  shows "reg_of w + (byte_val 0 y - byte_val k w) * 2 ^ (8 * k) = reg_of v"
proof -
  have b: "byte_of 0 v = (if 0 = k then byte_of 0 y else byte_of 0 w)" "byte_of 1 v = (if 1 = k then byte_of 0 y else byte_of 1 w)"
    "byte_of 2 v = (if 2 = k then byte_of 0 y else byte_of 2 w)" "byte_of 3 v = (if 3 = k then byte_of 0 y else byte_of 3 w)"
    by (rule assms(2), simp)+
  show ?thesis using below_4 [OF assms(1)]
    unfolding word_val [of w] word_val [of v] b by (auto simp: algebra_simps simp del: of_nat_unat)
qed

lemma half_sum: "(of_nat (unat (half_of k w)) :: gl) = byte_val k w + 256 * byte_val (k + 1) w"
proof -
  have "unat (half_of k w) = unat (byte_of k w) + 256 * unat (byte_of (k + 1) w)"
    using half_bytes [of k w] div_mult_mod_eq [of "unat (half_of k w)" 256] by linarith
  then show ?thesis by (metis of_nat_add of_nat_mult of_nat_numeral)
qed

lemma stored_half:
  assumes "r < 2" and "\<And>j. j < 4 \<Longrightarrow> byte_of j v = (if j = 2 * r then byte_of 0 y else if j = 2 * r + 1 then byte_of 1 y else byte_of j w)"
  shows "reg_of w + (of_nat (unat (half_of 0 y)) - of_nat (unat (half_of (2 * r) w))) * 65536 ^ r = reg_of v"
proof -
  have b: "byte_of 0 v = (if 0 = 2 * r then byte_of 0 y else if 0 = 2 * r + 1 then byte_of 1 y else byte_of 0 w)"
    "byte_of 1 v = (if 1 = 2 * r then byte_of 0 y else if 1 = 2 * r + 1 then byte_of 1 y else byte_of 1 w)"
    "byte_of 2 v = (if 2 = 2 * r then byte_of 0 y else if 2 = 2 * r + 1 then byte_of 1 y else byte_of 2 w)"
    "byte_of 3 v = (if 3 = 2 * r then byte_of 0 y else if 3 = 2 * r + 1 then byte_of 1 y else byte_of 3 w)"
    by (rule assms(2), simp)+
  have "r = 0 \<or> r = 1" using assms(1) by auto
  then show ?thesis
    unfolding word_val [of w] word_val [of v] half_sum b
    by (auto simp: algebra_simps numeral_2_eq_2 numeral_3_eq_3 simp del: of_nat_unat)
qed

lemma new_memory_value_builds:
  assumes wf: "wf_addr addr" and knd: "knd \<in> {SB, SH, SW}"
  shows "enforces row (new_memory_value knd addr (pair_uint m0 m1) (pair_uint b0 b1)) (\<lambda>(e, _). \<forall>w y ad.
    holds row (pair_uint m0 m1) w \<longrightarrow> holds row (pair_uint b0 b1) y \<longrightarrow> addr_holds row addr ad \<longrightarrow> unat ad mod access_size knd = 0 \<longrightarrow>
    (\<exists>v. store_value knd (ByteAddr ad) y w = Inr v \<and> value_of row e = reg_of v))"
proof -
  consider "knd = SW" | "knd = SH" | "knd = SB" using knd by blast
  then show ?thesis
  proof cases
    case 1
    then show ?thesis
      by (auto simp: new_memory_value_def memory_expr_def holds_value and_3_eq_0 intro!: builds_ok)
  next
    case 2
    have sh: "\<exists>v. store_value SH (ByteAddr ad) y w = Inr v \<and> value_of row (uint_value 16 (pair_uint m0 m1) + WitIn c) = reg_of v"
      if chg: "\<forall>w y q. holds row (pair_uint m0 m1) w \<longrightarrow> holds row (pair_uint b0 b1) y \<longrightarrow> bits_hold row (low_bit_exprs addr) q \<longrightarrow>
          wit row c = (of_nat (unat (half_of 0 y)) - of_nat (unat (half_of (2 * (q div 2 mod 2)) w))) * 65536 ^ (q div 2 mod 2)"
        and w: "holds row (pair_uint m0 m1) w" and y: "holds row (pair_uint b0 b1) y" and ad: "addr_holds row addr ad" and al: "unat ad mod 2 = 0"
      for c w y ad
    proof -
      obtain v where v: "store_value SH (ByteAddr ad) y w = Inr v"
        "\<And>k. k < 4 \<Longrightarrow> byte_of k v = (if k = unat ad mod 4 then byte_of 0 y else if k = unat ad mod 4 + 1 then byte_of 1 y else byte_of k w)"
        using store_half [OF al] by blast
      have "unat ad mod 4 = 2 * (unat ad div 2 mod 2)" using mod_mult2_eq [of "unat ad" 2 2] al by simp
      with stored_half [of "unat ad div 2 mod 2" v y w] v(2)
      have "reg_of w + (of_nat (unat (half_of 0 y)) - of_nat (unat (half_of (2 * (unat ad div 2 mod 2)) w))) * 65536 ^ (unat ad div 2 mod 2) = reg_of v"
        by (simp del: of_nat_unat)
      moreover have "bits_hold row (low_bit_exprs addr) (unat ad)" using ad by (simp only: addr_holds_def)
      ultimately show ?thesis using chg w y holds_value [OF w] v(1) by (simp only: eval_plus eval_simps) blast
    qed
    have eq: "new_memory_value knd addr (pair_uint m0 m1) (pair_uint b0 b1) =
        andThen (word_change_construct 1 addr (pair_uint m0 m1) (pair_uint b0 b1)) (\<lambda>chg.
          ok (uint_value 16 (pair_uint m0 m1) + WitIn (mwc_expected_changes chg ! 0), Some chg))"
      unfolding 2 by (simp add: new_memory_value_def store_n_zeros_def word_change_value_def zkvm_assert_def andThen_ok)
    show ?thesis unfolding eq
      by (rule enforces_bind [OF word_change_builds_1 [OF wf]], rule builds_ok) (use 2 sh in simp)
  next
    case 3
    have sb: "\<exists>v. store_value SB (ByteAddr ad) y w = Inr v \<and> value_of row (uint_value 16 (pair_uint m0 m1) + WitIn c) = reg_of v"
      if chg: "\<forall>w y q. holds row (pair_uint m0 m1) w \<longrightarrow> holds row (pair_uint b0 b1) y \<longrightarrow> bits_hold row (low_bit_exprs addr) q \<longrightarrow>
          wit row c = (byte_val 0 y - byte_val (q mod 4) w) * 2 ^ (8 * (q mod 4))"
        and w: "holds row (pair_uint m0 m1) w" and y: "holds row (pair_uint b0 b1) y" and ad: "addr_holds row addr ad" for c w y ad
    proof -
      obtain v where v: "store_value SB (ByteAddr ad) y w = Inr v"
        "\<And>k. k < 4 \<Longrightarrow> byte_of k v = (if k = unat ad mod 4 then byte_of 0 y else byte_of k w)"
        using store_byte by blast
      have "reg_of w + (byte_val 0 y - byte_val (unat ad mod 4) w) * 2 ^ (8 * (unat ad mod 4)) = reg_of v"
        by (rule stored_byte [OF _ v(2)]) simp_all
      moreover have "bits_hold row (low_bit_exprs addr) (unat ad)" using ad by (simp only: addr_holds_def)
      ultimately show ?thesis using chg w y holds_value [OF w] v(1) by (simp only: eval_plus eval_simps) blast
    qed
    have eq: "new_memory_value knd addr (pair_uint m0 m1) (pair_uint b0 b1) =
        andThen (word_change_construct 0 addr (pair_uint m0 m1) (pair_uint b0 b1)) (\<lambda>chg.
          ok (uint_value 16 (pair_uint m0 m1) + WitIn (mwc_expected_changes chg ! 1), Some chg))"
      unfolding 3 by (simp add: new_memory_value_def store_n_zeros_def word_change_value_def zkvm_assert_def andThen_ok)
    show ?thesis unfolding eq
      by (rule enforces_bind [OF word_change_builds_0 [OF wf]], rule builds_ok) (use 3 sb in simp)
  qed
qed

lemma store_addr_returns: "returns (store_addr_construct knd) wf_addr"
  unfolding store_addr_construct_def construct_align4_def construct_align2_def construct_unaligned_def
  by (simp add: mem_addr_returns returns_fail)

lemma store_addr_builds:
  "enforces row (store_addr_construct knd) (\<lambda>a. \<exists>w. addr_holds row a w \<and> unat w mod access_size knd = 0)"
  using aligned_addr_builds [of row] unfolding store_addr_construct_def by (auto simp: builds_fail)

lemma forbid_builds: "enforces row (if forbid then zkvm_assert c msg else ok ()) (\<lambda>_. True)"
  by (cases forbid) (auto simp: zkvm_assert_def intro!: builds_ok builds_fail)

lemma store_makes:
  assumes knd: "knd \<in> {SB, SH, SW}"
  shows "makes row (store_construct forbid platform knd) (\<lambda>_ Ps. \<exists>imm a b addr old new. s_format row knd imm a b addr old new Ps \<and>
      (\<forall>v. imm = of_int (sint v) \<longrightarrow> stores knd a b v addr old new))"
  unfolding store_construct_def
proof (rule makes_enforces_bind_returns [OF uint_new_unchecked_returns uint_new_unchecked_builds], clarify,
    rule makes_enforces_bind_returns [OF uint_new_unchecked_returns uint_new_unchecked_builds], clarify,
    rule makes_enforces_bind_returns [OF uint_new_returns uint_new_builds], clarify, rule makes_enforces_bind [OF create_witin_builds],
    rule makes_enforces_bind_returns [OF store_addr_returns store_addr_builds], rule makes_enforces_bind [OF forbid_builds],
    rule makes_enforces_bind [OF require_equal_builds], simp,
    rule makes_enforces_bind [OF new_memory_value_builds [OF _ knd]], assumption, clarify,
    simp only: register_expr_free free_plain andThen_ok, rule makes_bind [OF s_insn_makes], rule makes_ok, intro allI impI, elim exE conjE)
  fix a0 a1 b0 b1 m0 m1 imm :: nat and addr :: MemAddr and e :: expr and Qs ad w
  assume wf: "wf_addr addr" and fmt: "s_format row knd (value_of row (WitIn imm)) (limb_values row (pair_uint a0 a1)) (limb_values row (pair_uint b0 b1))
      (value_of row (expr_align4 addr)) (value_of row (memory_expr (pair_uint m0 m1))) (value_of row e) Qs"
    and new: "\<forall>w y ad. holds row (pair_uint m0 m1) w \<longrightarrow> holds row (pair_uint b0 b1) y \<longrightarrow> addr_holds row addr ad \<longrightarrow>
      unat ad mod access_size knd = 0 \<longrightarrow> (\<exists>v. store_value knd (ByteAddr ad) y w = Inr v \<and> value_of row e = reg_of v)"
    and sum: "value_of row (expr_unaligned addr) = value_of row (uint_value 16 (pair_uint a0 a1) + WitIn imm)"
    and w: "holds row (pair_uint m0 m1) w" and ad: "addr_holds row addr ad" and al: "unat ad mod access_size knd = 0"
  have "ad = x + v \<and> uint (x + v) = uint x + sint v"
    if "limb_values row (pair_uint a0 a1) = limbs_of x" "value_of row (WitIn imm) = of_int (sint v)" for x v
    using address_sum [of ad x v] sum that addr_values(1) [OF ad wf] uint_value_holds [OF that(1) [folded map_value_holds]]
    by (simp only: eval_plus)
  moreover have "\<exists>v. store_value knd (ByteAddr ad) y w = Inr v \<and> value_of row e = reg_of v"
    if "limb_values row (pair_uint b0 b1) = limbs_of y" for y by (rule new [rule_format, OF w that [folded map_value_holds] ad al])
  moreover have "value_of row (memory_expr (pair_uint m0 m1)) = reg_of w" using holds_value [OF w] by (simp only: memory_expr_def)
  moreover note addr_values(3) [OF ad wf]
  ultimately have "stores knd (limb_values row (pair_uint a0 a1)) (limb_values row (pair_uint b0 b1)) v (value_of row (expr_align4 addr))
      (value_of row (memory_expr (pair_uint m0 m1))) (value_of row e)" if "value_of row (WitIn imm) = of_int (sint v)" for v
    unfolding stores_def using that by blast
  with fmt show "\<exists>imm a b addr old new. s_format row knd imm a b addr old new (Qs @ []) \<and>
      (\<forall>v. imm = of_int (sint v) \<longrightarrow> stores knd a b v addr old new)"
    unfolding append_Nil2 by blast
qed

interpretation sb_insn: s_circuit "store_construct forbid platform SB" SB for forbid platform by unfold_locales (rule store_makes, simp_all)
interpretation sh_insn: s_circuit "store_construct forbid platform SH" SH for forbid platform by unfold_locales (rule store_makes, simp_all)
interpretation sw_insn: s_circuit "store_construct forbid platform SW" SW for forbid platform by unfold_locales (rule store_makes, simp_all)

end
