(* ===== verification/Halt.thy ===== *)
theory Halt
  imports Stores
begin

text \<open>
  The circuit of the system calls and the one of ECALL/HALT (\<open>instructions/riscv/ecall_insn.rs\<close>,
  \<open>ecall/halt.rs\<close>).
\<close>

subsection \<open>System calls\<close>

record EcallInstructionConfig =
  ec_pc :: nat
  ec_ts :: nat
  ec_prev_x5_ts :: nat
  ec_lt_x5 :: AssertLtConfig

definition ecall_construct :: "expr list \<Rightarrow> expr list option \<Rightarrow> expr option \<Rightarrow> EcallInstructionConfig build" where
  "ecall_construct syscall_id syscall_ret_value next_pc =
     andThen create_witin (\<lambda>pc.
     andThen create_witin (\<lambda>ts.
     andThen (state_in (WitIn pc) (WitIn ts)) (\<lambda>_.
     andThen (state_out (case next_pc of None \<Rightarrow> WitIn pc + from_unsigned PC_STEP_SIZE | Some n \<Rightarrow> n)
       (WitIn ts + from_unsigned (unat SUBCYCLES_PER_INSN))) (\<lambda>_.
     andThen (lk_fetch (new_InsnRecord (WitIn pc) (kind_expr ECALL) None (from_unsigned 0) (from_unsigned 0) (from_unsigned 0))) (\<lambda>_.
     andThen create_witin (\<lambda>prev_x5_ts.
     andThen (register_write (from_unsigned reg_ecall) (WitIn prev_x5_ts) (WitIn ts + from_unsigned (unat SUBCYCLE_RS1))
       syscall_id (case syscall_ret_value of None \<Rightarrow> syscall_id | Some v \<Rightarrow> v)) (\<lambda>(_, lt_x5_cfg).
     ok \<lparr>ec_pc = pc, ec_ts = ts, ec_prev_x5_ts = prev_x5_ts, ec_lt_x5 = lt_x5_cfg\<rparr>)))))))"

definition ecall_assign :: "EcallInstructionConfig \<Rightarrow> StepRecord \<Rightarrow> unit assign" where
  "ecall_assign cfg r =
     andThen (set_u64 (ec_pc cfg) (ucast (byte_addr_0 (before (rec_pc r))))) (\<lambda>_.
     andThen (set_u64 (ec_ts cfg) (rec_cycle r)) (\<lambda>_.
     andThen (lkm_fetch (byte_addr_0 (before (rec_pc r)))) (\<lambda>_.
     andThen (expect (rec_rs1 r) ''unwrap'') (\<lambda>rs1.
     andThen (set_u64 (ec_prev_x5_ts cfg) (previous_cycle rs1)) (\<lambda>_.
     assert_lt_assign (ec_lt_x5 cfg) (previous_cycle rs1) (rec_cycle r + SUBCYCLE_RS1))))))"

subsection \<open>Halt\<close>

definition ECALL_HALT_OPCODE :: "nat list" where "ECALL_HALT_OPCODE = [0, 0]"
definition EXIT_PC :: nat where "EXIT_PC = 0"

record HaltConfig =
  hc_ecall_cfg :: EcallInstructionConfig
  hc_prev_x10_ts :: nat
  hc_lt_x10 :: AssertLtConfig

definition halt_construct :: "HaltConfig build" where
  "halt_construct =
     andThen create_witin (\<lambda>prev_x10_ts.
     andThen query_exit_code (\<lambda>exit_code.
     andThen (ecall_construct (map from_unsigned ECALL_HALT_OPCODE) None (Some (from_unsigned EXIT_PC))) (\<lambda>ecall_cfg.
     andThen (register_read (from_unsigned reg_arg0) (WitIn prev_x10_ts) (WitIn (ec_ts ecall_cfg) + from_unsigned (unat SUBCYCLE_RS2))
       [Instance (exit_code ! 0), Instance (exit_code ! 1)]) (\<lambda>(_, lt_x10_cfg).
     ok \<lparr>hc_ecall_cfg = ecall_cfg, hc_prev_x10_ts = prev_x10_ts, hc_lt_x10 = lt_x10_cfg\<rparr>))))"

definition halt_assign :: "HaltConfig \<Rightarrow> StepRecord \<Rightarrow> unit assign" where
  "halt_assign cfg r =
     andThen (expect (rec_rs1 r) ''unwrap'') (\<lambda>rs1.
     andThen (zkvm_assert (op_value rs1 = of_nat (ECALL_HALT_OPCODE ! 0 + ECALL_HALT_OPCODE ! 1 * 2 ^ 16)) ''assert_eq'') (\<lambda>_.
     andThen (zkvm_assert (byte_addr_0 (after (rec_pc r)) = 0) ''pc after ecall/halt'') (\<lambda>_.
     andThen (expect (rec_rs2 r) ''unwrap'') (\<lambda>rs2.
     andThen (set_u64 (hc_prev_x10_ts cfg) (previous_cycle rs2)) (\<lambda>_.
     andThen (assert_lt_assign (hc_lt_x10 cfg) (previous_cycle rs2) (rec_cycle r + SUBCYCLE_RS2)) (\<lambda>_.
     ecall_assign (hc_ecall_cfg cfg) r))))))"

subsection \<open>What the circuits enforce\<close>

definition replaces :: "gl \<Rightarrow> gl list \<Rightarrow> gl list \<Rightarrow> gl \<Rightarrow> access" where
  "replaces i old v t rd wr \<longleftrightarrow> (\<exists>p. rd = reg_rec i old p \<and> wr = reg_rec i v t \<and> earlier p t)"

text \<open>A system call reads its number in \<open>x5\<close>, writes its result there, and moves to the pc it is given.\<close>

definition ecall_format :: "circuit_row \<Rightarrow> gl list \<Rightarrow> gl list option \<Rightarrow> gl option \<Rightarrow> gl \<Rightarrow> access list \<Rightarrow> bool" where
  "ecall_format row num ret nxt ts Ps \<longleftrightarrow> (\<exists>pc.
     Ps = [moves pc (case nxt of None \<Rightarrow> pc + 4 | Some n \<Rightarrow> n) ts,
       replaces 5 num (case ret of None \<Rightarrow> num | Some v \<Rightarrow> v) ts] \<and>
     fetched row ECALL pc 32 0 0 0)"

lemma makes_state:
  "makes row (andThen (state_in pc ts) (\<lambda>_. state_out nxt (ts + from_unsigned (unat SUBCYCLES_PER_INSN))))
    (\<lambda>_ Ps. Ps = [moves (value_of row pc) (value_of row nxt) (value_of row ts)])"
  by (rule makes_one, rule builds_bind [OF state_in_builds], rule builds_conseq [OF state_out_builds])
    (auto simp: moves_def subcycles simp del: split_paired_Ex)

lemma makes_rewrite:
  "challenge_free ts \<Longrightarrow> makes row (register_write i prev ts old v)
    (\<lambda>_ Ps. Ps = [replaces (value_of row i) (map (value_of row) old) (map (value_of row) v) (value_of row ts)])"
  by (rule makes_one, rule builds_conseq [OF register_write_builds]) (auto simp: replaces_def simp del: split_paired_Ex)

lemma makes_keep:
  "challenge_free ts \<Longrightarrow> makes row (register_read i prev ts v)
    (\<lambda>_ Ps. Ps = [keeps (value_of row i) (map (value_of row) v) (value_of row ts)])"
  by (rule makes_one, rule builds_conseq [OF register_read_builds]) (auto simp: keeps_def simp del: split_paired_Ex)

lemma ecall_makes:
  "makes row (ecall_construct num ret nxt) (\<lambda>cfg. ecall_format row (map (value_of row) num)
    (map_option (map (value_of row)) ret) (map_option (value_of row) nxt) (wit row (ec_ts cfg)))"
proof -
  have flat: "ecall_construct num ret nxt =
     andThen create_witin (\<lambda>pc.
     andThen create_witin (\<lambda>ts.
     andThen (andThen (state_in (WitIn pc) (WitIn ts)) (\<lambda>_. state_out (case nxt of None \<Rightarrow> WitIn pc + from_unsigned PC_STEP_SIZE | Some n \<Rightarrow> n)
       (WitIn ts + from_unsigned (unat SUBCYCLES_PER_INSN)))) (\<lambda>_.
     andThen (lk_fetch (new_InsnRecord (WitIn pc) (kind_expr ECALL) None (from_unsigned 0) (from_unsigned 0) (from_unsigned 0))) (\<lambda>_.
     andThen create_witin (\<lambda>prev_x5_ts.
     andThen (register_write (from_unsigned reg_ecall) (WitIn prev_x5_ts) (WitIn ts + from_unsigned (unat SUBCYCLE_RS1))
       num (case ret of None \<Rightarrow> num | Some v \<Rightarrow> v)) (\<lambda>(_, lt_x5_cfg).
     ok \<lparr>ec_pc = pc, ec_ts = ts, ec_prev_x5_ts = prev_x5_ts, ec_lt_x5 = lt_x5_cfg\<rparr>))))))"
    unfolding ecall_construct_def andThen_assoc ..
  show ?thesis unfolding flat
    by (rule makes_enforces_bind [OF create_witin_builds], rule makes_enforces_bind [OF create_witin_builds],
        rule makes_bind [OF makes_state], rule makes_enforces_bind [OF fetch_builds],
        rule makes_enforces_bind [OF create_witin_builds], rule makes_bind [OF makes_rewrite], simp, clarify, rule makes_ok)
      (auto simp: ecall_format_def subcycles PC_STEP_SIZE_def reg_ecall_def split: option.splits)
qed

text \<open>The halt instruction reads the public exit code in \<open>x10\<close> and leaves the machine at pc 0.\<close>

definition halt_step :: "Program \<Rightarrow> (nat \<Rightarrow> gl) \<Rightarrow> ram_values \<Rightarrow> ram_values \<Rightarrow> bool" where
  "halt_step prog public rs ws \<longleftrightarrow> (\<exists>pc insn ts. decoded_at prog pc insn \<and> insn_kind insn = ECALL \<and>
     accesses [moves (reg_of pc) 0 ts, replaces 5 [0, 0] [0, 0] ts, keeps 10 [public 0, public 1] (ts + 1)] rs ws)"

lemma halt_makes:
  assumes "row_program row = program_rows n prog"
  shows "builds row halt_construct (\<lambda>_ rs ws. halt_step prog (instance_value (row_env row)) rs ws)"
proof -
  let ?io = "instance_value (row_env row)"
  have "makes row halt_construct (\<lambda>_ Ps. \<exists>pc ts. fetched row ECALL pc 32 0 0 0 \<and>
      Ps = [moves pc 0 ts, replaces 5 [0, 0] [0, 0] ts, keeps 10 [?io 0, ?io 1] (ts + 1)])"
    unfolding halt_construct_def query_exit_code_def query_instance_def andThen_ok andThen_assoc
    by (rule makes_enforces_bind [OF create_witin_builds], rule makes_bind [OF ecall_makes], rule makes_bind [OF makes_keep],
        simp, clarify, rule makes_ok)
      (auto simp: ecall_format_def subcycles reg_arg0_def ECALL_HALT_OPCODE_def EXIT_PC_def EXIT_CODE_IDX_def)
  then show ?thesis unfolding makes_def
  proof (rule builds_conseq)
    fix rs ws :: ram_values
    assume "\<exists>Ps. (\<exists>pc ts. fetched row ECALL pc 32 0 0 0 \<and>
      Ps = [moves pc 0 ts, replaces 5 [0, 0] [0, 0] ts, keeps 10 [?io 0, ?io 1] (ts + 1)]) \<and> accesses Ps rs ws"
    then obtain pc ts where f: "fetched row ECALL pc 32 0 0 0"
      and acc: "accesses [moves pc 0 ts, replaces 5 [0, 0] [0, 0] ts, keeps 10 [?io 0, ?io 1] (ts + 1)] rs ws" by blast
    from fetched_decoded [OF assms f] obtain w insn where "decoded_at prog w insn" "insn_kind insn = ECALL" "pc = reg_of w" by auto
    with acc show "halt_step prog ?io rs ws" unfolding halt_step_def by blast
  qed
qed

end
