(* ===== verification/Shift.thy ===== *)
theory Shift
  imports Halt
begin

text \<open>
  The circuits of SLL, SRL, SRA (\<open>instructions/riscv/shift.rs\<close>) and SLLI, SRLI, SRAI (\<open>shift_imm.rs\<close>).
  They describe a shift as bits flowing in and out of a word: multiplied by a power of two, the written
  word and the outflow are the word read and the inflow.
\<close>

subsection \<open>Circuits\<close>

text \<open>The step common to both files, which ends in the equation called ``shift check''.\<close>

definition shift_check :: "InsnKind \<Rightarrow> UIntLimbs \<Rightarrow> UIntLimbs \<Rightarrow> expr \<Rightarrow> expr \<Rightarrow> SignedExtendConfig option build" where
  "shift_check knd rs1_read rd_written pow2 outflow =
     (let two_pow_total_bits = from_unsigned (2 ^ 32) in
      if knd \<in> {SLL, SLLI} then
        andThen (require_equal (uint_value 16 rs1_read * pow2) (outflow * two_pow_total_bits + uint_value 16 rd_written)) (\<lambda>_.
        ok None)
      else if knd \<in> {SRL, SRA, SRLI, SRAI} then
        andThen (if knd \<in> {SRA, SRAI} then
            andThen (is_negative rs1_read) (\<lambda>cfg. ok (msb_expr cfg * (pow2 - 1), Some cfg))
          else ok (0, None)) (\<lambda>(inflow, cfg).
        andThen (require_equal (uint_value 16 rd_written * pow2 + outflow)
          (inflow * two_pow_total_bits + uint_value 16 rs1_read)) (\<lambda>_.
        ok cfg))
      else fail (ZkvmPanic ''unreachable''))"

record ShiftConfig =
  shift_r_insn :: RInstructionConfig
  shift_rs1 :: UIntLimbs
  shift_rs2 :: UIntLimbs
  shift_rd :: UIntLimbs
  rs2_high :: UIntLimbs
  rs2_low5 :: nat
  pow2_rs2_low5 :: nat
  shift_outflow :: nat
  shift_assert_lt :: AssertLtConfig
  shift_signed_extend :: "SignedExtendConfig option"

definition shift_construct :: "InsnKind \<Rightarrow> ShiftConfig build" where
  "shift_construct knd =
     andThen (uint_new_unchecked 32 16) (\<lambda>rs1_read.
     andThen (uint_new 32 16) (\<lambda>rd_written.
     andThen (uint_new_unchecked 32 16) (\<lambda>rs2_read.
     andThen create_witin (\<lambda>low5.
     andThen create_witin (\<lambda>pow2.
     andThen (uint_new 32 16) (\<lambda>high.
     andThen create_witin (\<lambda>outflow.
     andThen (assert_lt_construct (WitIn outflow) (WitIn pow2) 2) (\<lambda>lt.
     andThen (shift_check knd rs1_read rd_written (WitIn pow2) (WitIn outflow)) (\<lambda>signed_extend.
     andThen (register_expr rs1_read) (\<lambda>a.
     andThen (register_expr rs2_read) (\<lambda>b.
     andThen (register_expr rd_written) (\<lambda>d.
     andThen (r_insn_construct knd a b d) (\<lambda>r_insn.
     andThen (lookup_pow2 (WitIn low5) (WitIn pow2)) (\<lambda>_.
     andThen (assert_ux 5 (WitIn low5)) (\<lambda>_.
     andThen (require_equal (uint_value 16 rs2_read) (shl_expr (uint_value 16 high) 5 + WitIn low5)) (\<lambda>_.
     ok \<lparr>shift_r_insn = r_insn, shift_rs1 = rs1_read, shift_rs2 = rs2_read, shift_rd = rd_written, rs2_high = high,
         rs2_low5 = low5, pow2_rs2_low5 = pow2, shift_outflow = outflow, shift_assert_lt = lt,
         shift_signed_extend = signed_extend\<rparr>))))))))))))))))"

definition lkm_lookup_pow2 :: "u64 \<Rightarrow> unit assign" where
  "lkm_lookup_pow2 v = lkm_logic_u8 Pow 2 v"

definition shift_assign :: "InsnKind \<Rightarrow> ShiftConfig \<Rightarrow> StepRecord \<Rightarrow> unit assign" where
  "shift_assign knd cfg r =
     andThen (expect (rec_rs2 r) ''unwrap'') (\<lambda>rs2.
     let rs2_read = word_value (op_value rs2); low5 = v_val rs2_read AND 0x1f in
     andThen (lkm_assert_ux 5 low5) (\<lambda>_.
     andThen (lkm_lookup_pow2 low5) (\<lambda>_.
     let pow2 = push_bit (unat low5) 1 in
     andThen (value_new 32 (ucast (ucast (drop_bit 5 (v_val rs2_read - low5)) :: u32))) (\<lambda>high.
     andThen (assign_value 32 16 (rs2_high cfg) high) (\<lambda>_.
     andThen (assign_value 32 16 (shift_rs2 cfg) rs2_read) (\<lambda>_.
     andThen (set_u64 (pow2_rs2_low5 cfg) pow2) (\<lambda>_.
     andThen (set_u64 (rs2_low5 cfg) low5) (\<lambda>_.
     andThen (expect (rec_rs1 r) ''unwrap'') (\<lambda>rs1.
     let rs1_read = word_value (op_value rs1) in
     andThen (expect (rec_rd r) ''unwrap'') (\<lambda>rd.
     andThen (value_new 32 (ucast (after (op_value rd)))) (\<lambda>rd_written.
     andThen (if knd = SLL then ok (drop_bit 32 (v_val rs1_read * pow2))
       else if knd = SRL then ok (v_val rs1_read AND (pow2 - 1))
       else if knd = SRA then
         (case shift_signed_extend cfg of
            None \<Rightarrow> fail CircuitError
          | Some signed_ext \<Rightarrow>
              andThen (last_limb rs1_read) (\<lambda>l.
              andThen (signed_ext_assign signed_ext l) (\<lambda>_.
              ok (v_val rs1_read AND (pow2 - 1)))))
       else fail (ZkvmPanic ''Unsupported instruction kind'')) (\<lambda>outflow.
     andThen (set_u64 (shift_outflow cfg) outflow) (\<lambda>_.
     andThen (assign_value 32 16 (shift_rs1 cfg) rs1_read) (\<lambda>_.
     andThen (assign_value 32 16 (shift_rd cfg) rd_written) (\<lambda>_.
     andThen (assert_lt_assign (shift_assert_lt cfg) outflow pow2) (\<lambda>_.
     r_insn_assign (shift_r_insn cfg) r))))))))))))))))"

record ShiftImmConfig =
  shifti_i_insn :: IInstructionConfig
  shifti_imm :: nat
  shifti_rs1 :: UIntLimbs
  shifti_rd :: UIntLimbs
  shifti_outflow :: nat
  shifti_assert_lt :: AssertLtConfig
  shifti_is_lt :: "SignedExtendConfig option"

text \<open>The column \<open>imm\<close> holds a power of two: \<open>imm_internal\<close> of these instructions is \<open>2 ^ shamt\<close>.\<close>

definition shift_imm_construct :: "InsnKind \<Rightarrow> ShiftImmConfig build" where
  "shift_imm_construct knd =
     andThen create_witin (\<lambda>imm.
     andThen (uint_new_unchecked 32 16) (\<lambda>rs1_read.
     andThen (uint_new 32 16) (\<lambda>rd_written.
     andThen create_witin (\<lambda>outflow.
     andThen (assert_lt_construct (WitIn outflow) (WitIn imm) 2) (\<lambda>lt.
     andThen (shift_check knd rs1_read rd_written (WitIn imm) (WitIn outflow)) (\<lambda>is_lt.
     andThen (register_expr rs1_read) (\<lambda>a.
     andThen (register_expr rd_written) (\<lambda>d.
     andThen (i_insn_construct knd (WitIn imm) a d False) (\<lambda>i_insn.
     ok \<lparr>shifti_i_insn = i_insn, shifti_imm = imm, shifti_rs1 = rs1_read, shifti_rd = rd_written,
         shifti_outflow = outflow, shifti_assert_lt = lt, shifti_is_lt = is_lt\<rparr>)))))))))"

definition shift_imm_assign :: "InsnKind \<Rightarrow> ShiftImmConfig \<Rightarrow> StepRecord \<Rightarrow> unit assign" where
  "shift_imm_assign knd cfg r =
     (let imm = imm_internal (rec_insn r) in
     andThen (expect (rec_rs1 r) ''unwrap'') (\<lambda>rs1.
     let rs1_read = word_value (op_value rs1) in
     andThen (expect (rec_rd r) ''unwrap'') (\<lambda>rd.
     andThen (value_new 32 (ucast (after (op_value rd)))) (\<lambda>rd_written.
     andThen (set_u64 (shifti_imm cfg) imm) (\<lambda>_.
     andThen (assign_value 32 16 (shifti_rs1 cfg) rs1_read) (\<lambda>_.
     andThen (assign_value 32 16 (shifti_rd cfg) rd_written) (\<lambda>_.
     andThen (if knd = SLLI then ok (drop_bit 32 (v_val rs1_read * imm))
       else if knd \<in> {SRAI, SRLI} then
         andThen (if knd = SRAI then
             andThen (expect (shifti_is_lt cfg) ''unwrap'') (\<lambda>is_lt.
             andThen (last_limb rs1_read) (\<lambda>l. signed_ext_assign is_lt l))
           else ok ()) (\<lambda>_.
         ok (v_val rs1_read AND (imm - 1)))
       else fail (ZkvmPanic ''Unsupported instruction kind'')) (\<lambda>outflow.
     andThen (set_u64 (shifti_outflow cfg) outflow) (\<lambda>_.
     andThen (assert_lt_assign (shifti_assert_lt cfg) outflow imm) (\<lambda>_.
     i_insn_assign (shifti_i_insn cfg) r))))))))))"

subsection \<open>The shift a satisfied check describes\<close>

text \<open>
  The outflow is a column without a range check. When it is a number below \<open>2 ^ 32\<close>, the comparison with
  the power of two bounds it, and the check determines the word written.
\<close>

lemma outflow_bound:
  assumes "lt_decision 2 (of_int f) (of_int p) 1" and "0 \<le> f" "f < 2 ^ 32" "0 \<le> p" "p < 2 ^ 32"
  shows "f < p"
proof -
  have "\<bar>f - p\<bar> < 2 ^ 62" using assms(2-) by simp
  with lt_decision_iff [of 2 f p True] assms(1) show ?thesis by simp
qed

definition shift_values :: "InsnKind \<Rightarrow> u32 \<Rightarrow> u32 \<Rightarrow> gl \<Rightarrow> gl \<Rightarrow> bool" where
  "shift_values k x z p f \<longleftrightarrow>
     (if k \<in> {SLL, SLLI} then of_int (uint x) * p = f * 2 ^ 32 + of_int (uint z)
      else of_int (uint z) * p + f = of_bool (k \<in> {SRA, SRAI} \<and> x <s 0) * (p - 1) * 2 ^ 32 + of_int (uint x))"

lemma pow2_bound: "s < 32 \<Longrightarrow> (1 :: int) \<le> 2 ^ s \<and> (2 :: int) ^ s \<le> 2147483648"
  using power_increasing [of s 31 "2 :: int"] by simp

lemma mult_bounds: "0 \<le> a \<Longrightarrow> a \<le> 4294967295 \<Longrightarrow> 1 \<le> p \<Longrightarrow> p \<le> 2147483648 \<Longrightarrow> 0 \<le> a * p \<and> a * p \<le> 9223372034707292160"
  for a p :: int
  using mult_mono [of a 4294967295 p 2147483648] by simp

lemma shift_left_word:
  assumes "shift_values k x z (2 ^ s) (of_int f)" and "k \<in> {SLL, SLLI}" and "s < 32" "0 \<le> f" "f < 2 ^ s"
  shows "z = word_of_int (uint x * 2 ^ s)"
proof -
  have p: "1 \<le> (2 :: int) ^ s" "(2 :: int) ^ s \<le> 2147483648" using pow2_bound [OF assms(3)] by auto
  have "(of_int (uint x * 2 ^ s) :: gl) = of_int (f * 4294967296 + uint z)"
    using assms(1,2) by (auto simp: shift_values_def)
  moreover have "\<bar>uint x * 2 ^ s - (f * 4294967296 + uint z)\<bar> < 18446744069414584321"
    using mult_bounds [OF uint_bound [of x] p] uint_bound [of z] assms(4,5) p by linarith
  ultimately have "uint x * 2 ^ s = f * 4294967296 + uint z" by (rule gl_eq_int)
  from low_half [OF this] show ?thesis by simp
qed

lemma shift_right_word:
  assumes "shift_values k x z (2 ^ s) (of_int f)" and "k \<notin> {SLL, SLLI}" and "s < 32" "0 \<le> f" "f < 2 ^ s"
  shows "z = word_of_int ((if k \<in> {SRA, SRAI} then sint x else uint x) div 2 ^ s)"
proof -
  have p: "1 \<le> (2 :: int) ^ s" "(2 :: int) ^ s \<le> 2147483648" using pow2_bound [OF assms(3)] by auto
  let ?m = "of_bool (k \<in> {SRA, SRAI} \<and> x <s 0) :: int"
  have m: "0 \<le> ?m" "?m \<le> 1" by simp_all
  have "0 \<le> ?m * (2 ^ s - 1)" "?m * (2 ^ s - 1) \<le> 2147483647"
    using m p by (cases "k \<in> {SRA, SRAI} \<and> x <s 0"; simp)+
  moreover have "(of_int (uint z * 2 ^ s + f) :: gl) = of_int (?m * (2 ^ s - 1) * 4294967296 + uint x)"
    using assms(1,2) by (simp add: shift_values_def)
  ultimately have eq: "uint z * 2 ^ s + f = ?m * (2 ^ s - 1) * 4294967296 + uint x"
    using mult_bounds [OF uint_bound [of z] p] uint_bound [of x] assms(4,5) p
    by (intro gl_eq_int) linarith+
  define h where "h = uint z - ?m * 4294967296"
  have "h * 2 ^ s + f = uint x - ?m * 4294967296" using eq by (simp add: h_def algebra_simps)
  then have "(uint x - ?m * 4294967296) div 2 ^ s = (f + h * 2 ^ s) div 2 ^ s" by (simp only: add.commute)
  also have "\<dots> = h" using assms(4,5) p by (subst div_mult_self1) simp_all
  finally have "h = (uint x - ?m * 4294967296) div 2 ^ s" by simp
  moreover have "uint x - ?m * 4294967296 = (if k \<in> {SRA, SRAI} then sint x else uint x)"
    using sint_sign [of x] by auto
  moreover have "word_of_int h = z" by (auto simp: h_def)
  ultimately show ?thesis by simp
qed

lemma shift_check_builds:
  assumes "challenge_free p" "challenge_free f" "free_uint w"
  shows "enforces row (shift_check k (pair_uint a b) w p f) (\<lambda>_. \<forall>x z. holds row (pair_uint a b) x \<longrightarrow> holds row w z \<longrightarrow>
    shift_values k x z (value_of row p) (value_of row f))"
proof -
  have free: "challenge_free (uint_value 16 (pair_uint a b))" by simp
  have neg: "value_of row (msb_expr cfg * (p - 1)) = of_bool (x <s 0) * (value_of row p - 1)"
    if "wit row (msb_wit cfg) = of_bool (x <s 0)" for cfg and x :: u32
    using that assms by simp
  show ?thesis
    unfolding shift_check_def Let_def
    by (auto simp: andThen_assoc andThen_ok assms free builds_fail neg shift_values_def uint_value_holds
        intro!: enforces_bind [OF is_negative_builds] enforces_bind [OF require_equal_builds] builds_ok)
qed

subsection \<open>Shifts by a register\<close>

lemma low_five_bits:
  assumes "of_int (uint y) = of_int (uint (h :: u32)) * 2 ^ 5 + (l :: gl)" and "canon l < 2 ^ 5"
  shows "unat (y :: u32) mod 32 = canon l"
proof -
  define c where "c = int (canon l)"
  have c: "0 \<le> c" "c < 32" using assms(2) by (simp_all add: c_def)
  have "(of_int (uint y) :: gl) = of_int (uint h * 32 + c)" using assms(1) by (simp add: c_def)
  moreover have "\<bar>uint y - (uint h * 32 + c)\<bar> < 18446744069414584321"
    using uint_bound [of y] uint_bound [of h] c by linarith
  ultimately have "uint y = uint h * 32 + c" by (rule gl_eq_int)
  then have "uint y mod 32 = c" using c by simp
  then have "int (unat y mod 32) = int (canon l)" by (simp add: c_def zmod_int)
  then show ?thesis by (simp only: of_nat_eq_iff)
qed

definition outflow_small :: "circuit_row \<Rightarrow> nat \<Rightarrow> bool" where
  "outflow_small row f \<longleftrightarrow> canon (wit row f) < 2 ^ 32"

lemma shift_limbs:
  assumes vals: "shift_values k x z (2 ^ s) f" and lt: "lt_decision 2 f (2 ^ s) 1" and "canon f < 2 ^ 32" "s < 32"
    and k: "k \<in> {SLL, SRL, SRA} \<and> r = k \<or> (k, r) \<in> {(SLLI, SLL), (SRLI, SRL), (SRAI, SRA)}"
    and y: "unat y mod 32 = s"
  shows "alu_limbs r (limbs_of x) (limbs_of y) (limbs_of z)"
proof -
  have f: "f = of_int (int (canon f))" by simp
  have "2 ^ s < (2 ^ 32 :: int)" using assms(4) by (intro power_strict_increasing) simp_all
  with outflow_bound [of "int (canon f)" "2 ^ s"] lt assms(3) have b: "int (canon f) < 2 ^ s" by simp
  from k have "z = word_of_int (case isa_alu r x y of Some v \<Rightarrow> v)" "isa_alu r x y \<noteq> None"
    using shift_left_word [of k x z s "int (canon f)"] shift_right_word [of k x z s "int (canon f)"] vals b assms(4) y by auto
  then show ?thesis by (auto simp: alu_limbs_def limbs_of_inject)
qed

lemma alu_limbsI:
  assumes "\<And>x y. holds row u x \<Longrightarrow> holds row v y \<Longrightarrow> alu_limbs k (limbs_of x) (limbs_of y) (limb_values row w)"
  shows "alu_limbs k (limb_values row u) (limb_values row v) (limb_values row w)"
  using assms unfolding alu_limbs_def holds_def by metis

lemma shift_limbs_rs2:
  assumes k: "knd \<in> {SLL, SRL, SRA}" and small: "outflow_small row f" and z: "holds row (pair_uint c0 c1) z"
    and h: "holds row (pair_uint h0 h1) h"
    and lt: "lt_decision 2 (wit row f) (2 ^ canon (wit row l)) 1"
    and vals: "\<forall>x. holds row (pair_uint a0 a1) x \<longrightarrow> (\<forall>z. holds row (pair_uint c0 c1) z \<longrightarrow>
      shift_values knd x z (2 ^ canon (wit row l)) (wit row f))"
    and l: "canon (wit row l) < 32"
    and rs2: "value_of row (uint_value 16 (pair_uint b0 b1)) = value_of row (uint_value 16 (pair_uint h0 h1)) * 32 + wit row l"
  shows "alu_limbs knd [wit row a0, wit row a1] [wit row b0, wit row b1] [wit row c0, wit row c1]"
proof -
  have "alu_limbs knd (limb_values row (pair_uint a0 a1)) (limb_values row (pair_uint b0 b1)) (limb_values row (pair_uint c0 c1))"
  proof (rule alu_limbsI)
    fix x y
    assume x: "holds row (pair_uint a0 a1) x" and y: "holds row (pair_uint b0 b1) y"
    have "unat y mod 32 = canon (wit row l)"
      using rs2 l by (intro low_five_bits [where h = h]) (simp_all add: uint_value_holds [OF y] uint_value_holds [OF h])
    moreover have "shift_values knd x z (2 ^ canon (wit row l)) (wit row f)" using vals x z by blast
    ultimately have "alu_limbs knd (limbs_of x) (limbs_of y) (limbs_of z)"
      using small lt k l by (intro shift_limbs) (auto simp: outflow_small_def)
    then show "alu_limbs knd (limbs_of x) (limbs_of y) (limb_values row (pair_uint c0 c1))" using z by (simp add: holds_def)
  qed
  then show ?thesis by simp
qed

lemma shift_makes:
  assumes "knd \<in> {SLL, SRL, SRA}"
  shows "makes row (shift_construct knd) (\<lambda>cfg Ps. \<exists>a b d. r_format row knd a b d Ps \<and>
    (outflow_small row (shift_outflow cfg) \<longrightarrow> alu_limbs knd a b d))"
  unfolding shift_construct_def
  by (rule makes_enforces_bind_returns [OF uint_new_unchecked_returns uint_new_unchecked_builds], clarify,
      rule makes_enforces_bind_returns [OF uint_new_returns uint_new_builds], clarify,
      rule makes_enforces_bind_returns [OF uint_new_unchecked_returns uint_new_unchecked_builds], clarify,
      rule makes_enforces_bind [OF create_witin_builds], rule makes_enforces_bind [OF create_witin_builds],
      rule makes_enforces_bind_returns [OF uint_new_returns uint_new_builds], clarify,
      rule makes_enforces_bind [OF create_witin_builds],
      rule makes_enforces_bind [OF assert_lt_builds], simp,
      rule makes_enforces_bind [OF shift_check_builds], simp, simp, simp,
      unfold register_expr_plain andThen_ok,
      rule makes_bind [OF r_insn_makes],
      rule makes_enforces_bind [OF lookup_pow2_builds],
      rule makes_enforces_bind [OF assert_ux_builds], simp,
      rule makes_enforces_bind [OF require_equal_builds], simp, rule makes_ok)
    (use assms in \<open>auto intro!: exI, (blast intro: shift_limbs_rs2)+\<close>)

lemma shift_executes:
  assumes "row_program row = program_rows n prog" and "knd \<in> {SLL, SRL, SRA}"
  shows "builds row (shift_construct knd) (\<lambda>cfg rs ws. outflow_small row (shift_outflow cfg) \<longrightarrow> r_step prog knd rs ws)"
  by (rule builds_conseq [OF shift_makes [OF assms(2), unfolded makes_def]])
    (use assms(2) in \<open>blast intro: r_format_step [OF assms(1)]\<close>)

subsection \<open>Shifts by an immediate\<close>

text \<open>The decoder gives shift amounts of five bits.\<close>

definition shamts_ok :: "Program \<Rightarrow> bool" where
  "shamts_ok prog \<longleftrightarrow> (\<forall>insn \<in> set (instructions prog). insn_kind insn \<in> {SLLI, SRLI, SRAI} \<longrightarrow> unat (insn_imm insn) < 32)"

lemma imm_power:
  assumes "insn_kind insn \<in> {SLLI, SRLI, SRAI}" and "unat (insn_imm insn) < 32"
  shows "(of_int (sint (imm_internal insn)) :: gl) = 2 ^ unat (insn_imm insn)"
proof -
  let ?s = "unat (insn_imm insn)"
  have "unat (insn_imm insn AND 63) = ?s mod 64"
  proof -
    have "insn_imm insn AND mask 6 = take_bit 6 (insn_imm insn)" by (simp add: take_bit_eq_mask)
    then show ?thesis by (simp add: mask_eq_exp_minus_1 take_bit_eq_mod unat_mod)
  qed
  then have "imm_internal insn = push_bit ?s 1" using assms by (simp add: imm_internal_def)
  also have "\<dots> = word_of_int (2 ^ ?s)" unfolding word_of_int_push_bit by simp
  finally have w: "imm_internal insn = word_of_int (2 ^ ?s)" .
  have "(2 :: int) ^ ?s \<le> 2 ^ 31" using assms(2) by (intro power_increasing) simp_all
  then have "signed_take_bit 63 ((2 :: int) ^ ?s) = 2 ^ ?s"
    by (intro signed_take_bit_int_eq_self) (simp_all add: order.trans [of "- 9223372036854775808" 0])
  then have "sint (imm_internal insn) = 2 ^ ?s" unfolding w sint_sbintrunc' by simp
  then show ?thesis by simp
qed

lemma shift_imm_limbs:
  assumes k: "knd \<in> {SLLI, SRLI, SRAI}" and small: "outflow_small row f" and z: "holds row (pair_uint c0 c1) z"
    and lt: "lt_decision 2 (wit row f) (wit row p) 1"
    and vals: "\<forall>x. holds row (pair_uint a0 a1) x \<longrightarrow> (\<forall>z. holds row (pair_uint c0 c1) z \<longrightarrow>
      shift_values knd x z (wit row p) (wit row f))"
    and insn: "insn_kind insn = knd" "unat (insn_imm insn) < 32" and p: "wit row p = of_int (sint (imm_internal insn))"
  shows "\<exists>r. reg_form knd = Some r \<and> alu_limbs r [wit row a0, wit row a1] (limbs_of (insn_imm insn)) [wit row c0, wit row c1]"
proof -
  obtain r where r: "reg_form knd = Some r" "(knd, r) \<in> {(SLLI, SLL), (SRLI, SRL), (SRAI, SRA)}" using k by auto
  have p: "wit row p = 2 ^ unat (insn_imm insn)" using imm_power k insn p by simp
  have "alu_limbs r (limbs_of x) (limbs_of (insn_imm insn)) (limbs_of z)" if "holds row (pair_uint a0 a1) x" for x
    using small lt insn(2) vals [rule_format, OF that z] r(2) unfolding p
    by (intro shift_limbs) (auto simp: outflow_small_def)
  then have "alu_limbs r [wit row a0, wit row a1] (limbs_of (insn_imm insn)) [wit row c0, wit row c1]"
    using z by (auto simp: alu_limbs_def holds_def)
  with r(1) show ?thesis by blast
qed

lemma shift_imm_makes:
  "makes row (shift_imm_construct knd) (\<lambda>cfg Ps. \<exists>pc a0 a1 c0 c1 f p z.
    i_format row knd pc (pc + 4) (wit row p) [wit row a0, wit row a1] [wit row c0, wit row c1] Ps \<and>
    f = shifti_outflow cfg \<and> holds row (pair_uint c0 c1) z \<and> lt_decision 2 (wit row f) (wit row p) 1 \<and>
    (\<forall>x. holds row (pair_uint a0 a1) x \<longrightarrow> (\<forall>z. holds row (pair_uint c0 c1) z \<longrightarrow>
      shift_values knd x z (wit row p) (wit row f))))"
  unfolding shift_imm_construct_def
  by (rule makes_enforces_bind [OF create_witin_builds],
      rule makes_enforces_bind_returns [OF uint_new_unchecked_returns uint_new_unchecked_builds], clarify,
      rule makes_enforces_bind_returns [OF uint_new_returns uint_new_builds], clarify,
      rule makes_enforces_bind [OF create_witin_builds],
      rule makes_enforces_bind [OF assert_lt_builds], simp,
      rule makes_enforces_bind [OF shift_check_builds], simp, simp, simp,
      unfold register_expr_plain andThen_ok,
      rule makes_bind [OF i_insn_makes], rule makes_ok)
    (auto intro!: exI)

lemma shift_imm_executes:
  assumes "row_program row = program_rows n prog" and knd: "knd \<in> {SLLI, SRLI, SRAI}" and "shamts_ok prog"
  shows "builds row (shift_imm_construct knd) (\<lambda>cfg rs ws. outflow_small row (shifti_outflow cfg) \<longrightarrow> i_step prog knd rs ws)"
proof (rule builds_conseq [OF shift_imm_makes [unfolded makes_def]], elim exE conjE, intro impI)
  fix cfg rs ws Ps pc a0 a1 c0 c1 f p z
  assume fmt: "i_format row knd pc (pc + 4) (wit row p) [wit row a0, wit row a1] [wit row c0, wit row c1] Ps"
    and acc: "accesses Ps rs ws" and "outflow_small row (shifti_outflow cfg)" "f = shifti_outflow cfg"
    and rest: "holds row (pair_uint c0 c1) z" "lt_decision 2 (wit row f) (wit row p) 1"
      "\<forall>x. holds row (pair_uint a0 a1) x \<longrightarrow> (\<forall>z. holds row (pair_uint c0 c1) z \<longrightarrow> shift_values knd x z (wit row p) (wit row f))"
  then have small: "outflow_small row f" by simp
  have "knd \<noteq> INVALID" using knd by auto
  from i_format_fetched [OF assms(1) this fmt] obtain w insn ts where insn: "decoded_at prog w insn"
    "insn_kind insn = knd" "pc = reg_of w" "wit row p = of_int (sint (imm_internal insn))"
    "Ps = [moves pc (pc + 4) ts, keeps (reg_of (rs1_or_zero insn)) [wit row a0, wit row a1] ts,
      overwrites (reg_of (rd_internal insn)) [wit row c0, wit row c1] (ts + 2)]" .
  from insn(1) have "insn \<in> set (instructions prog)" unfolding decoded_at_def by auto
  with assms(3) knd insn(2) have "unat (insn_imm insn) < 32" unfolding shamts_ok_def by blast
  from shift_imm_limbs [OF knd small rest insn(2) this insn(4)] insn acc
  show "i_step prog knd rs ws" unfolding i_step_def by blast
qed

end
