(* ===== verification/InstrTheorems.thy ===== *)
theory InstrTheorems
  imports Shift
begin

text \<open>
  The properties of the instruction circuits: in every row that satisfies the constraints a circuit
  builds, the records it reads and writes are those of a step of the instruction. \<open>builds row m Q\<close> says
  that \<open>Q\<close> holds of the result of \<open>m\<close> and of the records it has added; the program table of the row is
  that of the program, and the instruction is the one the table has at the row's pc. \<open>Samples\<close> applies
  each of them to rows that satisfy the circuits.
\<close>

text \<open>
  C28. The circuits of ADD, SUB and ADDI are sound: the pc moves on by four, the source registers keep
  their words, and the destination register gets the sum or difference modulo \<open>2 ^ 32\<close> of the words read
  (of the word read and the immediate).
\<close>

theorem addition_circuits_sound:
  assumes "row_program row = program_rows n prog"
  shows "builds row (arith_construct ADD) (\<lambda>_ rs ws. r_step prog ADD rs ws) \<and>
    builds row (arith_construct SUB) (\<lambda>_ rs ws. r_step prog SUB rs ws) \<and>
    builds row addi_construct (\<lambda>_ rs ws. i_step prog ADDI rs ws)"
  using assms by (intro conjI add_insn.executes sub_insn.executes addi_insn.executes)

text \<open>
  C29. The circuits of SLT, SLTU, SLTI and SLTIU are sound: the destination gets 1 when the first
  operand is smaller, as a signed or an unsigned word, and 0 otherwise.
\<close>

theorem set_less_than_circuits_sound:
  assumes "row_program row = program_rows n prog"
  shows "builds row (slt_construct SLT) (\<lambda>_ rs ws. r_step prog SLT rs ws) \<and>
    builds row (slt_construct SLTU) (\<lambda>_ rs ws. r_step prog SLTU rs ws) \<and>
    builds row (slti_construct SLTI) (\<lambda>_ rs ws. i_step prog SLTI rs ws) \<and>
    builds row (slti_construct SLTIU) (\<lambda>_ rs ws. i_step prog SLTIU rs ws)"
  using assms by (intro conjI slt_insn.executes sltu_insn.executes slti_insn.executes sltiu_insn.executes)

text \<open>
  C30. The circuits of AND, OR, XOR and of their immediate forms are sound: looking the bytes of the
  operands up in the tables of bytes gives the bitwise operation on words.
\<close>

theorem logic_circuits_sound:
  assumes "row_program row = program_rows n prog"
  shows "builds row (logic_construct AND_K) (\<lambda>_ rs ws. r_step prog AND_K rs ws) \<and>
    builds row (logic_construct OR_K) (\<lambda>_ rs ws. r_step prog OR_K rs ws) \<and>
    builds row (logic_construct XOR_K) (\<lambda>_ rs ws. r_step prog XOR_K rs ws) \<and>
    builds row (logic_imm_construct ANDI) (\<lambda>_ rs ws. i_step prog ANDI rs ws) \<and>
    builds row (logic_imm_construct ORI) (\<lambda>_ rs ws. i_step prog ORI rs ws) \<and>
    builds row (logic_imm_construct XORI) (\<lambda>_ rs ws. i_step prog XORI rs ws)"
  using assms by (intro conjI and_insn.executes or_insn.executes xor_insn.executes
      andi_insn.executes ori_insn.executes xori_insn.executes)

text \<open>
  C31. The circuits of MUL, MULH, MULHU and MULHSU are sound: the destination gets the low or the high
  half of the product, and the product has no second representation modulo the field's prime.
\<close>

theorem multiplication_circuits_sound:
  assumes "row_program row = program_rows n prog"
  shows "builds row (mul_construct MUL) (\<lambda>_ rs ws. r_step prog MUL rs ws) \<and>
    builds row (mul_construct MULH) (\<lambda>_ rs ws. r_step prog MULH rs ws) \<and>
    builds row (mul_construct MULHU) (\<lambda>_ rs ws. r_step prog MULHU rs ws) \<and>
    builds row (mul_construct MULHSU) (\<lambda>_ rs ws. r_step prog MULHSU rs ws)"
  using assms by (intro conjI mul_insn.executes mulh_insn.executes mulhu_insn.executes mulhsu_insn.executes)

text \<open>
  C32. The circuits of DIV, DIVU, REM and REMU are sound, division by zero and the overflow of
  \<open>- 2 ^ 31\<close> divided by \<open>- 1\<close> included.
\<close>

theorem division_circuits_sound:
  assumes "row_program row = program_rows n prog"
  shows "builds row (div_rem_construct DIV) (\<lambda>_ rs ws. r_step prog DIV rs ws) \<and>
    builds row (div_rem_construct DIVU) (\<lambda>_ rs ws. r_step prog DIVU rs ws) \<and>
    builds row (div_rem_construct REM) (\<lambda>_ rs ws. r_step prog REM rs ws) \<and>
    builds row (div_rem_construct REMU) (\<lambda>_ rs ws. r_step prog REMU rs ws)"
  using assms by (intro conjI div_insn.executes divu_insn.executes rem_insn.executes remu_insn.executes)

text \<open>
  C33. The branch circuits are sound: the pc moves by the immediate when the condition of the
  instruction set holds of the words read, and by four otherwise.
\<close>

theorem branch_circuits_sound:
  assumes "row_program row = program_rows n prog" and "knd \<in> {BEQ, BNE, BLT, BGE, BLTU, BGEU}"
  shows "builds row (branch_construct knd) (\<lambda>_ rs ws. b_step prog knd rs ws)"
  using assms(2) beq_insn.executes [OF assms(1)] bne_insn.executes [OF assms(1)] blt_insn.executes [OF assms(1)]
    bge_insn.executes [OF assms(1)] bltu_insn.executes [OF assms(1)] bgeu_insn.executes [OF assms(1)] by blast

text \<open>
  C34. The jump circuits are sound: JAL moves the pc by its immediate, JALR to the even address below
  the sum of the word read and its immediate, whether or not the sum may overflow, and both write the
  address of the next instruction.
\<close>

theorem jump_circuits_sound:
  assumes "row_program row = program_rows n prog"
  shows "builds row jal_construct (\<lambda>_ rs ws. j_step prog rs ws) \<and>
    builds row (jalr_construct forbid) (\<lambda>_ rs ws. jalr_step prog rs ws)"
  using assms by (intro conjI jal_makes jalr_makes)

text \<open>
  C35. The load circuits are sound: the address is the sum of the word read and the immediate without
  wrapping around, the word of memory at it is kept, and the destination gets what the emulator's load
  extracts from that word.
\<close>

theorem load_circuits_sound:
  assumes "row_program row = program_rows n prog" and "knd \<in> {LB, LBU, LH, LHU, LW}"
  shows "builds row (load_construct knd) (\<lambda>_ rs ws. im_step prog knd rs ws)"
  using assms(2) lb_insn.executes [OF assms(1)] lbu_insn.executes [OF assms(1)] lh_insn.executes [OF assms(1)]
    lhu_insn.executes [OF assms(1)] lw_insn.executes [OF assms(1)] by blast

text \<open>
  C36. The store circuits are sound: the word of memory at the address is replaced by what the
  emulator's store makes of it and of the word to be stored.
\<close>

theorem store_circuits_sound:
  assumes "row_program row = program_rows n prog" and "knd \<in> {SB, SH, SW}"
  shows "builds row (store_construct forbid platform knd) (\<lambda>_ rs ws. s_step prog knd rs ws)"
  using assms(2) sb_insn.executes [OF assms(1)] sh_insn.executes [OF assms(1)] sw_insn.executes [OF assms(1)] by blast

text \<open>
  C37. The circuit of the halting system call is sound: it runs at an ECALL, asks for the number of the
  call in its register, takes the exit code of its argument register as the public one, and ends with
  the pc zero.
\<close>

theorem halt_circuit_sound:
  assumes "row_program row = program_rows n prog"
  shows "builds row halt_construct (\<lambda>_ rs ws. halt_step prog (instance_value (row_env row)) rs ws)"
  using assms by (rule halt_makes)

text \<open>
  C38. The shift circuits write the shifted word wherever the column \<open>outflow\<close>, which they do not check
  to be in range, is a number below \<open>2 ^ 32\<close>; for shifts by an immediate the amount is below 32, as in
  every decoded instruction.
\<close>

theorem shift_circuits_sound_below:
  assumes "row_program row = program_rows n prog" and "shamts_ok prog"
  shows "(\<forall>knd \<in> {SLL, SRL, SRA}. builds row (shift_construct knd)
      (\<lambda>cfg rs ws. canon (wit row (shift_outflow cfg)) < 2 ^ 32 \<longrightarrow> r_step prog knd rs ws)) \<and>
    (\<forall>knd \<in> {SLLI, SRLI, SRAI}. builds row (shift_imm_construct knd)
      (\<lambda>cfg rs ws. canon (wit row (shifti_outflow cfg)) < 2 ^ 32 \<longrightarrow> i_step prog knd rs ws))"
  using shift_executes [OF assms(1)] shift_imm_executes [OF assms(1) _ assms(2)] unfolding outflow_small_def by blast

end
