(* ===== verification/Prover.thy ===== *)
theory Prover
  imports InstrTheorems GadgetTheorems
begin

text \<open>
  Rows that satisfy the circuits of whole instructions: what their columns have to hold for the
  construction to succeed and its constraints to be met.
\<close>

subsection \<open>Columns\<close>

lemma small_numerals:
  "2 = Suc (Suc 0)" "3 = Suc (Suc (Suc 0))" "4 = Suc (Suc (Suc (Suc 0)))" "5 = Suc (Suc (Suc (Suc (Suc 0))))"
  "6 = Suc (Suc (Suc (Suc (Suc (Suc 0)))))"
  by simp_all

lemma completes_uint_new_unchecked [honest]:
  "n + 2 < 65536 \<Longrightarrow> completes row n (uint_new_unchecked 32 16) (pair_uint n (n + 1)) (n + 2)"
  unfolding uint_new_unchecked_flat
  by (rule completes_then [OF completes_create_witin], simp, rule completes_then [OF completes_create_witin], simp)
    (simp add: completes_ok numeral_2_eq_2)

lemma completes_uint_new [honest]:
  assumes "n + 2 < 65536" and "canon (wit row n) < 2 ^ 16" "canon (wit row (n + 1)) < 2 ^ 16"
  shows "completes row n (uint_new 32 16) (pair_uint n (n + 1)) (n + 2)"
  unfolding uint_new_flat
  by (rule completes_then [OF completes_create_witin], use assms(1) in simp, rule completes_then [OF completes_assert_ux],
      (use assms(2) in simp_all)[3], rule completes_then [OF completes_create_witin], use assms(1) in simp,
      rule completes_then [OF completes_assert_ux])
    (use assms(3) in \<open>simp_all add: completes_ok numeral_2_eq_2\<close>)

text \<open>Two columns that hold the distance of two cycles below \<open>2 ^ 32\<close>.\<close>

definition gap :: "circuit_row \<Rightarrow> nat \<Rightarrow> gl \<Rightarrow> gl \<Rightarrow> bool" where
  "gap row n x y \<longleftrightarrow> canon (wit row n) < 2 ^ 16 \<and> canon (wit row (n + 1)) < 2 ^ 16 \<and>
     x - y = wit row n + 2 ^ 16 * wit row (n + 1) - 2 ^ 32"

abbreviation gap_config :: "nat \<Rightarrow> AssertLtConfig" where
  "gap_config n \<equiv> AssertLtConfig \<lparr>lt_diff = [n, n + 1], max_num_u16_limbs = 2\<rparr>"

lemma completes_assert_lt:
  assumes "n + 2 < 65536" and "committed_only lhs" "committed_only rhs"
    and "0 < degree (get_monomial_form (lhs - rhs))" and "gap row n (value_of row lhs) (value_of row rhs)"
  shows "completes row n (assert_lt_construct lhs rhs 2) (gap_config n) (n + 2)"
proof -
  have cols: "[n..<n + 2] = [n, n + 1]" by (simp add: upt_rec)
  have "completes row n (inner_lt_construct lhs rhs 1 2) \<lparr>lt_diff = [n..<n + 2], max_num_u16_limbs = 2\<rparr> (n + 2)"
  proof (rule completes_inner_lt)
    show "\<forall>i < 2. canon (wit row (n + i)) < 2 ^ 16"
      using assms(5) by (auto simp: gap_def numeral_2_eq_2 less_Suc_eq)
    show "value_of row lhs - value_of row rhs =
        of_nat (limbs_value (map (\<lambda>w. canon (wit row w)) [n..<n + 2])) - value_of row 1 * of_nat (lt_range 2)"
      using assms(5) by (simp add: gap_def cols lt_range_def)
  qed (use assms in simp_all)
  then show ?thesis unfolding assert_lt_construct_def cols by (rule completes_then [OF _ completes_ok])
qed

lemma degree_time:
  "p \<noteq> t \<Longrightarrow> degree (get_monomial_form (WitIn p - (WitIn t + from_unsigned k) :: expr)) = 1"
  by (auto simp: monomial_eval from_unsigned_def)

subsection \<open>The accesses of a step\<close>

definition flat :: "expr list \<Rightarrow> bool" where
  "flat es \<longleftrightarrow> (\<forall>e \<in> set es. degree e \<le> 1)"

lemma fold_max_one: "\<forall>k \<in> set ks. k \<le> 1 \<Longrightarrow> m \<le> 1 \<Longrightarrow> 1 \<in> insert m (set ks) \<Longrightarrow> fold max ks m = (1 :: nat)"
  by (induction ks arbitrary: m) (auto simp: max_def le_Suc_eq)

lemma flat_record: "flat es \<Longrightarrow> e \<in> set es \<Longrightarrow> degree e = 1 \<Longrightarrow> fold max (map degree es) 0 = 1"
  unfolding flat_def by (intro fold_max_one) force+

lemma completes_flat_read: "flat es \<Longrightarrow> e \<in> set es \<Longrightarrow> degree e = 1 \<Longrightarrow> completes row n (read_record mem es) () n"
  by (rule completes_read_record) (auto simp: flat_record)

lemma completes_flat_write: "flat es \<Longrightarrow> e \<in> set es \<Longrightarrow> degree e = 1 \<Longrightarrow> completes row n (write_record mem es) () n"
  by (rule completes_write_record) (auto simp: flat_record)

lemma degree_plus_from [simp]: "degree (WitIn i + from_unsigned k :: expr) = 1"
  by (simp add: from_unsigned_def)

lemma degree_ram [simp]: "degree (ram_expr mem) = 0"
  by (simp add: ram_expr_def)

lemma completes_state [honest]:
  assumes "n + 2 < 65536"
  shows "completes row n (state_in_out_construct False) \<lparr>st_pc = n, st_next_pc = None, st_ts = n + 1\<rparr> (n + 2)"
  unfolding state_in_out_construct_def state_in_def state_out_def Let_def if_False andThen_assoc andThen_ok prod.case
  by (rule completes_then [OF completes_create_witin], use assms in simp,
      rule completes_then [OF completes_create_witin], use assms in simp,
      rule completes_then [OF completes_flat_read [where e = "WitIn n"]], simp add: flat_def, simp, simp,
      rule completes_then [OF completes_flat_write [where e = "WitIn n + from_unsigned PC_STEP_SIZE"]], simp add: flat_def, simp, simp)
    (simp add: completes_ok numeral_2_eq_2)

lemma completes_register_read:
  assumes "n + 2 < 65536" and "flat val" and "p \<noteq> t" and "gap row n (wit row p) (wit row t + of_nat k)"
  shows "completes row n (register_read (WitIn i) (WitIn p) (WitIn t + from_unsigned k) val)
    (WitIn t + from_unsigned k + from_unsigned 1, gap_config n) (n + 2)"
  unfolding register_read_def UINT_LIMBS_def
  by (rule completes_then [OF completes_flat_read [where e = "WitIn p"]], use assms(2) in \<open>simp_all add: flat_def\<close>,
      rule completes_then [OF completes_flat_write [where e = "WitIn t + from_unsigned k"]], use assms(2) in \<open>simp_all add: flat_def\<close>,
      rule completes_then [OF completes_assert_lt])
    (use assms in \<open>simp_all add: degree_time completes_ok\<close>)

lemma completes_register_write:
  assumes "n + 2 < 65536" and "flat prev" "flat val" and "p \<noteq> t" and "gap row n (wit row p) (wit row t + of_nat k)"
  shows "completes row n (register_write (WitIn i) (WitIn p) (WitIn t + from_unsigned k) prev val)
    (WitIn t + from_unsigned k + from_unsigned 1, gap_config n) (n + 2)"
  unfolding register_write_def UINT_LIMBS_def
  by (rule completes_then [OF completes_assert], simp,
      rule completes_then [OF completes_flat_read [where e = "WitIn p"]], use assms(2) in \<open>simp_all add: flat_def\<close>,
      rule completes_then [OF completes_flat_write [where e = "WitIn t + from_unsigned k"]], use assms(3) in \<open>simp_all add: flat_def\<close>,
      rule completes_then [OF completes_assert_lt])
    (use assms in \<open>simp_all add: degree_time completes_ok\<close>)

abbreviation read_config :: "nat \<Rightarrow> ReadRS" where
  "read_config n \<equiv> \<lparr>rs_id = n, rs_prev_ts = n + 1, rs_lt = gap_config (n + 2)\<rparr>"

abbreviation write_config :: "nat \<Rightarrow> WriteRD" where
  "write_config n \<equiv> \<lparr>rd_id = n, rd_prev_ts = n + 1, rd_prev_value = pair_uint (n + 2) (n + 3), rd_lt = gap_config (n + 4)\<rparr>"

lemma completes_read_rs1 [honest]:
  assumes "n + 4 < 65536" and "flat val" and "t < n" and "gap row (n + 2) (wit row (n + 1)) (wit row t)"
  shows "completes row n (read_rs1_construct val t) (read_config n) (n + 4)"
  unfolding read_rs1_construct_def
  by (rule completes_then [OF completes_create_witin], use assms in simp,
      rule completes_then [OF completes_create_witin], use assms in simp,
      rule completes_then [OF completes_register_read])
    (use assms in \<open>simp_all add: completes_ok subcycles small_numerals\<close>)

lemma completes_read_rs2 [honest]:
  assumes "n + 4 < 65536" and "flat val" and "t < n" and "gap row (n + 2) (wit row (n + 1)) (wit row t + 1)"
  shows "completes row n (read_rs2_construct val t) (read_config n) (n + 4)"
  unfolding read_rs2_construct_def
  by (rule completes_then [OF completes_create_witin], use assms in simp,
      rule completes_then [OF completes_create_witin], use assms in simp,
      rule completes_then [OF completes_register_read])
    (use assms in \<open>simp_all add: completes_ok subcycles small_numerals\<close>)

lemma rd_subcycle: "of_nat (unat SUBCYCLE_RD) = (2 :: gl)"
  by (simp add: subcycles)

lemma completes_write_rd [honest]:
  assumes "n + 6 < 65536" and "flat val" and "t < n" and "gap row (n + 4) (wit row (n + 1)) (wit row t + 2)"
  shows "completes row n (write_rd_construct val t) (write_config n) (n + 6)"
  unfolding write_rd_construct_def
  by (rule completes_then [OF completes_create_witin], use assms in simp,
      rule completes_then [OF completes_create_witin], use assms in simp,
      rule completes_then [OF completes_uint_new_unchecked], use assms in simp,
      unfold register_expr_plain andThen_ok,
      rule completes_then [OF completes_register_write])
    (use assms rd_subcycle in \<open>simp_all add: completes_ok flat_def small_numerals\<close>)

lemmas nat_columns = add.assoc numeral_plus_one numeral_plus_numeral add_num_simps

text \<open>The sixteen columns of an R-type instruction, from the pc on.\<close>

definition r_columns :: "circuit_row \<Rightarrow> nat \<Rightarrow> InsnKind \<Rightarrow> bool" where
  "r_columns row n k \<longleftrightarrow>
     gap row (n + 4) (wit row (n + 3)) (wit row (n + 1)) \<and>
     gap row (n + 8) (wit row (n + 7)) (wit row (n + 1) + 1) \<and>
     gap row (n + 14) (wit row (n + 11)) (wit row (n + 1) + 2) \<and>
     fetched row k (wit row n) (wit row (n + 10)) (wit row (n + 2)) (wit row (n + 6)) 0"

abbreviation r_config :: "nat \<Rightarrow> RInstructionConfig" where
  "r_config n \<equiv> \<lparr>r_state = \<lparr>st_pc = n, st_next_pc = None, st_ts = n + 1\<rparr>, r_rs1 = read_config (n + 2),
     r_rs2 = read_config (n + 6), r_rd = write_config (n + 10)\<rparr>"

lemma completes_r_insn [honest]:
  assumes "n + 16 < 65536" and "flat a" "flat b" "flat d" and "r_columns row n k"
  shows "completes row n (r_insn_construct k a b d) (r_config n) (n + 16)"
proof -
  have fetch: "completes row (n + 16) (lk_fetch (new_InsnRecord (WitIn n) (kind_expr k) (Some (WitIn (n + 10)))
      (WitIn (n + 2)) (WitIn (n + 6)) (from_unsigned 0))) () (n + 16)"
    unfolding lk_fetch_def using assms(5)
    by (intro completes_lk_record)
      (simp_all add: new_InsnRecord_def kind_expr_def from_unsigned_def looked_up_def rom_rows_def r_columns_def fetched_def)
  have st: "completes row n (state_in_out_construct False) \<lparr>st_pc = n, st_next_pc = None, st_ts = n + 1\<rparr> (n + 2)"
    using assms(1) by (intro completes_state) simp
  have a1: "completes row (n + 2) (read_rs1_construct a (n + 1)) (read_config (n + 2)) (n + 6)"
    using assms unfolding r_columns_def nat_columns by (intro completes_read_rs1 [of "n + 2" a "n + 1" row, unfolded nat_columns]) simp_all
  have a2: "completes row (n + 6) (read_rs2_construct b (n + 1)) (read_config (n + 6)) (n + 10)"
    using assms unfolding r_columns_def nat_columns by (intro completes_read_rs2 [of "n + 6" b "n + 1" row, unfolded nat_columns]) simp_all
  have a3: "completes row (n + 10) (write_rd_construct d (n + 1)) (write_config (n + 10)) (n + 16)"
    using assms unfolding r_columns_def nat_columns by (intro completes_write_rd [of "n + 10" d "n + 1" row, unfolded nat_columns]) simp_all
  show ?thesis
    unfolding r_insn_construct_def
    by (rule completes_then [OF st], unfold StateInOut.simps, rule completes_then [OF a1], rule completes_then [OF a2],
        rule completes_then [OF a3], unfold ReadRS.simps WriteRD.simps, rule completes_then [OF fetch], rule completes_ok)
qed

subsection \<open>A wrong shift\<close>

definition sample_program :: "InsnKind \<Rightarrow> Program" where
  "sample_program k =
     \<lparr>entry = 0x1000, base_address = 0x1000, sheap = 0x2000, instructions = [encode_rv32 k 1 2 3 0], image = []\<rparr>"

definition wrong_shift_row :: circuit_row where
  "wrong_shift_row = \<lparr>row_env = env_of_lists [] [0, 0, 1, 0, 0, 0, 0, 1, 0, 0, - 1, 65534, 65535,
     4096, 4, 1, 0, 65532, 65535, 2, 0, 65531, 65535, 3, 0, 0, 0, 65530, 65535] [] [] [],
     row_program = program_rows 2 (sample_program SRL)\<rparr>"

lemma completes_lookup_pow2 [honest]:
  assumes "canon (wit row l) < 32" and "wit row p = 2 ^ canon (wit row l)"
  shows "completes row n (lookup_pow2 (WitIn l) (WitIn p)) () n"
  unfolding lookup_pow2_def logic_u8_def
  by (rule completes_lk_record) (use assms in \<open>auto simp: looked_up_def pow_rows from_unsigned_def\<close>)

lemma canon_numeral: "numeral k < (2 :: nat) ^ 63 \<Longrightarrow> canon (numeral k) = numeral k"
  using canon_of_nat_small [of "numeral k"] by simp

lemma canon_bits: "canon 0 = 0" "canon 1 = 1"
  using canon_of_nat_small [of 0] canon_of_nat_small [of 1] by simp_all

lemma value_pair [simp]: "value_of row (uint_value 16 (pair_uint a b)) = wit row b * 65536 + wit row a"
  by (simp add: uint_value_two)

lemma completes_shift_srl:
  assumes "a0 \<noteq> a1"
    and "(wit row r1 * 65536 + wit row r0) * wit row p + wit row f = wit row a1 * 65536 + wit row a0"
  shows "completes row n (shift_check SRL (pair_uint a0 a1) (pair_uint r0 r1) (WitIn p) (WitIn f)) None n"
proof -
  let ?x = "0 * from_unsigned (2 ^ 32) + uint_value 16 (pair_uint a0 a1)"
  have x: "0 < degree (get_monomial_form ?x)" using assms(1)
    by (simp add: monomial_eval uint_value_two shl_expr_def from_unsigned_def numeral_gl_eq_0_iff gl_modulus_def)
  have "completes row n (require_equal (uint_value 16 (pair_uint r0 r1) * WitIn p + WitIn f) ?x) () n"
    by (rule completes_require_equal) (use x assms(2) in \<open>simp_all add: uint_value_two shl_expr_def\<close>)
  then show ?thesis unfolding shift_check_def Let_def
    by (simp add: andThen_ok) (rule completes_then [OF _ completes_ok])
qed

lemma wit_wrong_shift:
  "wit wrong_shift_row i = [0, 0, 1, 0, 0, 0, 0, 1, 0, 0, - 1, 65534, 65535,
     4096, 4, 1, 0, 65532, 65535, 2, 0, 65531, 65535, 3, 0, 0, 0, 65530, 65535] ! i"
  by (simp add: wrong_shift_row_def env_of_lists_def)

lemma wrong_shift_fetches: "fetched wrong_shift_row SRL 4096 3 1 2 0"
  by (simp add: fetched_def wrong_shift_row_def program_rows_def sample_program_def
      from_decoded_def encode_rv32_def rd_internal_def rs1_or_zero_def rs2_or_zero_def imm_internal_def i64_to_base_def)

lemma flat_pair [simp]: "flat [WitIn a, WitIn b]"
  by (simp add: flat_def)

lemma wrong_shift_completes:
  "\<exists>cfg. completes wrong_shift_row 0 (shift_construct SRL) cfg 29 \<and> shift_rs1 cfg = pair_uint 0 1 \<and>
     shift_rd cfg = pair_uint 2 3 \<and> shift_rs2 cfg = pair_uint 4 5"
proof -
  let ?row = wrong_shift_row
  note canon_numeral [simp] canon_bits [simp] wit_wrong_shift [simp]
  have rs1: "completes ?row 0 (uint_new_unchecked 32 16) (pair_uint 0 1) 2"
    using completes_uint_new_unchecked [of 0 ?row] by (simp add: numeral_2_eq_2)
  have rd: "completes ?row 2 (uint_new 32 16) (pair_uint 2 3) 4"
    using completes_uint_new [of 2 ?row] by simp
  have rs2: "completes ?row 4 (uint_new_unchecked 32 16) (pair_uint 4 5) 6"
    using completes_uint_new_unchecked [of 4 ?row] by simp
  have low5: "completes ?row 6 create_witin 6 7" and pow2: "completes ?row 7 create_witin 7 8"
    and outflow: "completes ?row 10 create_witin 10 11"
    using completes_create_witin [of 6 ?row] completes_create_witin [of 7 ?row] completes_create_witin [of 10 ?row] by simp_all
  have high: "completes ?row 8 (uint_new 32 16) (pair_uint 8 9) 10"
    using completes_uint_new [of 8 ?row] by simp
  have lt: "completes ?row 11 (assert_lt_construct (WitIn 10) (WitIn 7) 2) (gap_config 11) 13"
    using completes_assert_lt [of 11 "WitIn 10" "WitIn 7" ?row] by (simp add: gap_def monomial_eval)
  have check: "completes ?row 13 (shift_check SRL (pair_uint 0 1) (pair_uint 2 3) (WitIn 7) (WitIn 10)) None 13"
    by (rule completes_shift_srl) simp_all
  have "r_columns ?row 13 SRL" using wrong_shift_fetches by (simp add: r_columns_def gap_def)
  then have insn: "completes ?row 13 (r_insn_construct SRL [WitIn 0, WitIn 1] [WitIn 4, WitIn 5] [WitIn 2, WitIn 3]) (r_config 13) 29"
    using completes_r_insn [of 13 "[WitIn 0, WitIn 1]" "[WitIn 4, WitIn 5]" "[WitIn 2, WitIn 3]" ?row SRL] by simp
  have power: "completes ?row 29 (lookup_pow2 (WitIn 6) (WitIn 7)) () 29"
    by (rule completes_lookup_pow2) simp_all
  have u5: "completes ?row 29 (assert_ux 5 (WitIn 6)) () 29"
    by (rule completes_assert_ux) simp_all
  have sum: "completes ?row 29 (require_equal (uint_value 16 (pair_uint 4 5)) (shl_expr (uint_value 16 (pair_uint 8 9)) 5 + WitIn 6)) () 29"
    by (rule completes_require_equal)
      (simp_all add: uint_value_two monomial_eval shl_expr_def from_unsigned_def numeral_gl_eq_0_iff gl_modulus_def)
  show ?thesis
    unfolding shift_construct_def
    by (intro exI conjI, rule completes_then [OF rs1], rule completes_then [OF rd], rule completes_then [OF rs2],
        rule completes_then [OF low5], rule completes_then [OF pow2], rule completes_then [OF high],
        rule completes_then [OF outflow], rule completes_then [OF lt], rule completes_then [OF check],
        unfold register_expr_plain andThen_ok, rule completes_then [OF insn], rule completes_then [OF power],
        rule completes_then [OF u5], rule completes_then [OF sum], rule completes_ok) simp_all
qed

text \<open>
  C39. The comment in \<open>shift.rs\<close> says that the check \<open>outflow < pow2\<close> makes the solution of the shift
  equation unique. It does not: the comparison admits an outflow of \<open>- 1\<close>, and a row that shifts the
  word 0 right by 0 bits and writes 1 satisfies every constraint of the SRL circuit, with the program
  table of a program that has this instruction.
\<close>

theorem srl_circuit_accepts_wrong_word:
  "\<exists>cfg cs. shift_construct SRL new_ConstraintSystem = (Inr cfg, cs) \<and> satisfied wrong_shift_row cs \<and>
     row_program wrong_shift_row = program_rows 2 (sample_program SRL) \<and>
     holds wrong_shift_row (shift_rs1 cfg) 0 \<and> holds wrong_shift_row (shift_rs2 cfg) 0 \<and>
     holds wrong_shift_row (shift_rd cfg) 1 \<and> alu_reg SRL 0 0 = Some 0"
proof -
  from wrong_shift_completes obtain cfg where run: "completes wrong_shift_row 0 (shift_construct SRL) cfg 29"
    and cfg: "shift_rs1 cfg = pair_uint 0 1" "shift_rd cfg = pair_uint 2 3" "shift_rs2 cfg = pair_uint 4 5" by blast
  obtain cs where "shift_construct SRL new_ConstraintSystem = (Inr cfg, cs)" and "satisfied wrong_shift_row cs"
    by (rule completesE [OF run, of new_ConstraintSystem]) (simp_all add: new_ConstraintSystem_def satisfied_def)
  moreover have "row_program wrong_shift_row = program_rows 2 (sample_program SRL)" by (simp add: wrong_shift_row_def)
  ultimately show ?thesis using cfg by (auto simp: holds_def limbs_of_def wit_wrong_shift)
qed

end
