(* ===== verification/RowRuns.thy ===== *)
theory RowRuns
  imports Prover
begin

text \<open>
  Running a construction on a given row, rule by rule: what is left to check are facts about numbers.
  \<open>runs row n m Q\<close> says that \<open>m\<close>, started with \<open>n\<close> columns and a satisfied system, neither fails nor
  panics, leaves a system the row satisfies, and that \<open>Q\<close> holds of its result, of the number of columns
  and of the records it has added. \<open>exhibits row m Q\<close> is its consequence for a new constraint system.
\<close>

subsection \<open>Runs\<close>

definition runs :: "circuit_row \<Rightarrow> nat \<Rightarrow> 'a build \<Rightarrow> ('a \<Rightarrow> nat \<Rightarrow> ram_values \<Rightarrow> ram_values \<Rightarrow> bool) \<Rightarrow> bool" where
  "runs row n m Q \<longleftrightarrow>
     (\<forall>cs. num_witin cs = n \<longrightarrow> satisfied row cs \<longrightarrow>
        (\<exists>x cs' rs ws. m cs = (Inr x, cs') \<and> satisfied row cs' \<and>
           r_ram_types cs' = r_ram_types cs @ rs \<and> w_ram_types cs' = w_ram_types cs @ ws \<and>
           Q x (num_witin cs') (record_values row rs) (record_values row ws)))"

definition exhibits :: "circuit_row \<Rightarrow> 'a build \<Rightarrow> ('a \<Rightarrow> ram_values \<Rightarrow> ram_values \<Rightarrow> bool) \<Rightarrow> bool" where
  "exhibits row m Q \<longleftrightarrow>
     (\<exists>x cs. m new_ConstraintSystem = (Inr x, cs) \<and> satisfied row cs \<and>
        Q x (record_values row (r_ram_types cs)) (record_values row (w_ram_types cs)))"

lemma exhibitsI:
  assumes "runs row 0 m (\<lambda>x _ rs ws. P x rs ws)" and "builds row m Q"
    and "\<And>x rs ws. P x rs ws \<Longrightarrow> Q x rs ws \<Longrightarrow> R x rs ws"
  shows "exhibits row m R"
proof -
  have "num_witin new_ConstraintSystem = 0" and "satisfied row new_ConstraintSystem"
    by (simp_all add: new_ConstraintSystem_def satisfied_def)
  with assms(1) obtain x cs rs ws where run: "m new_ConstraintSystem = (Inr x, cs)" "satisfied row cs"
    and records: "r_ram_types cs = r_ram_types new_ConstraintSystem @ rs" "w_ram_types cs = w_ram_types new_ConstraintSystem @ ws"
    and P: "P x (record_values row rs) (record_values row ws)"
    unfolding runs_def by blast
  moreover have "r_ram_types cs = rs" "w_ram_types cs = ws"
    using records by (simp_all add: new_ConstraintSystem_def)
  ultimately show ?thesis
    unfolding exhibits_def using builds_imp [OF assms(2) run] assms(3) by blast
qed

lemma runs_cong: "m = m' \<Longrightarrow> runs row n m Q = runs row n m' Q"
  by simp

lemma runs_then:
  assumes "runs row n m (\<lambda>x k rs ws. runs row k (f x) (\<lambda>y l rs' ws'. Q y l (rs @ rs') (ws @ ws')))"
  shows "runs row n (andThen m f) Q"
  unfolding runs_def
proof (intro allI impI)
  fix cs
  assume "num_witin cs = n" "satisfied row cs"
  with assms obtain x cs1 rs ws where m: "m cs = (Inr x, cs1)" "satisfied row cs1"
      "r_ram_types cs1 = r_ram_types cs @ rs" "w_ram_types cs1 = w_ram_types cs @ ws"
    and f: "runs row (num_witin cs1) (f x) (\<lambda>y l rs' ws'. Q y l (record_values row rs @ rs') (record_values row ws @ ws'))"
    unfolding runs_def [of row n] by blast
  from f m(2) obtain y cs2 rs' ws' where "f x cs1 = (Inr y, cs2)" "satisfied row cs2"
      "r_ram_types cs2 = r_ram_types cs1 @ rs'" "w_ram_types cs2 = w_ram_types cs1 @ ws'"
      "Q y (num_witin cs2) (record_values row rs @ record_values row rs') (record_values row ws @ record_values row ws')"
    unfolding runs_def by blast
  with m show "\<exists>x cs' rs ws. andThen m f cs = (Inr x, cs') \<and> satisfied row cs' \<and>
      r_ram_types cs' = r_ram_types cs @ rs \<and> w_ram_types cs' = w_ram_types cs @ ws \<and>
      Q x (num_witin cs') (record_values row rs) (record_values row ws)"
    by (intro exI [of _ y] exI [of _ cs2] exI [of _ "rs @ rs'"] exI [of _ "ws @ ws'"]) (simp add: andThen_success)
qed

lemma runs_completes:
  assumes "completes row n m x k" and "builds row m R" and "\<And>rs ws. R x rs ws \<Longrightarrow> Q x k rs ws"
  shows "runs row n m Q"
  using assms unfolding runs_def completes_def builds_def by metis

subsection \<open>The methods of the builder\<close>

lemma runs_ok: "Q x n [] [] \<Longrightarrow> runs row n (ok x) Q"
  by (rule runs_completes [OF completes_ok enforces_ok]) simp

lemma runs_assert: "b \<Longrightarrow> Q () n [] [] \<Longrightarrow> runs row n (zkvm_assert b msg) Q"
  by (rule runs_completes [OF completes_assert enforces_assert]) simp_all

lemma runs_create_witin: "n + 1 < 2 ^ 16 \<Longrightarrow> Q n (n + 1) [] [] \<Longrightarrow> runs row n create_witin Q"
  by (rule runs_completes [OF completes_create_witin create_witin_builds]) simp_all

lemma runs_lk_record:
  "fold max (map degree items) 0 = 1 \<Longrightarrow> looked_up row table items \<Longrightarrow> Q () n [] [] \<Longrightarrow> runs row n (lk_record table items) Q"
  by (rule runs_completes [OF completes_lk_record lk_record_builds]) simp_all

lemma runs_read_record:
  assumes "items \<noteq> []" and "fold max (map degree items) 0 = 1" and "Q () n [(mem, map (value_of row) items)] []"
  shows "runs row n (read_record mem items) Q"
  by (rule runs_completes [OF completes_read_record read_record_builds]) (use assms in simp_all)

lemma runs_write_record:
  assumes "items \<noteq> []" and "fold max (map degree items) 0 = 1" and "Q () n [] [(mem, map (value_of row) items)]"
  shows "runs row n (write_record mem items) Q"
  by (rule runs_completes [OF completes_write_record write_record_builds]) (use assms in simp_all)

lemma runs_require_zero:
  "0 < degree e \<Longrightarrow> committed_only e \<Longrightarrow> value_of row e = 0 \<Longrightarrow> Q () n [] [] \<Longrightarrow> runs row n (require_zero e) Q"
  by (rule runs_completes [OF completes_require_zero require_zero_builds]) simp_all

lemma runs_assert_ux:
  "c \<in> {5, 8, 14, 16} \<Longrightarrow> degree e = 1 \<Longrightarrow> canon (value_of row e) < 2 ^ c \<Longrightarrow> Q () n [] [] \<Longrightarrow> runs row n (assert_ux c e) Q"
  by (rule runs_completes [OF completes_assert_ux assert_ux_builds]) simp_all

text \<open>
  An equation asks for an expression that is not constant. An expression whose value differs in two
  rows has a monomial form of positive degree, which saves computing that form.
\<close>

definition probe :: "gl \<Rightarrow> circuit_row" where
  "probe v = \<lparr>row_env = \<lparr>fixed_value = (\<lambda>_. v), witness_value = (\<lambda>_. v), structural_value = (\<lambda>_. v),
     instance_value = (\<lambda>_. v), challenge_value = (\<lambda>_. v)\<rparr>, row_program = []\<rparr>"

lemma fold_max_zero: "fold max xs a = 0 \<Longrightarrow> a = (0 :: nat) \<and> (\<forall>x \<in> set xs. x = 0)"
proof -
  assume "fold max xs a = 0"
  then have "Max (set (a # xs)) = 0" by (simp only: Max.set_eq_fold)
  then have "x \<le> 0" if "x \<in> set (a # xs)" for x using Max_ge [of "set (a # xs)" x] that by (simp only: List.finite_set)
  then show "a = 0 \<and> (\<forall>x \<in> set xs. x = 0)" by simp
qed

lemma degree_product_expr: "degree (product_expr es) = sum_list (map degree es)"
proof -
  have "degree (foldl (*) a es) = degree a + sum_list (map degree es)" for a
    by (induction es arbitrary: a) simp_all
  then show ?thesis by (simp add: product_expr_def)
qed

lemma degree_column: "is_column p \<Longrightarrow> degree p = 1"
  by (cases p) simp_all

lemma probe_monomial:
  assumes "committed_only e" and "value_of (probe 2) e \<noteq> value_of (probe 0) e"
  shows "0 < degree (get_monomial_form e)"
proof (rule ccontr)
  let ?ts = "get_monomial_terms e"
  assume "\<not> 0 < degree (get_monomial_form e)"
  then have "fold max (map degree (map (\<lambda>t. scalar t * product_expr (product t)) ?ts)) 0 = 0"
    unfolding get_monomial_form_def sum_terms_def degree_sum_expr by simp
  then have zero: "degree (scalar t * product_expr (product t)) = 0" if "t \<in> set ?ts" for t
    using that by (fastforce dest: fold_max_zero)
  have const: "constant_term t" if "t \<in> set ?ts" for t
    using that constant_term_combine [OF constant_term_distribute [OF assms(1)]] by (auto simp: get_monomial_terms_def)
  have weigh: "value_of (probe 2) (scalar t) * prod_list (map (value_of (probe 2)) (product t)) =
      value_of (probe 0) (scalar t) * prod_list (map (value_of (probe 0)) (product t))" if "t \<in> set ?ts" for t
    using const [OF that] zero [OF that] by (cases "product t") (auto simp: constant_term_def degree_product_expr degree_column)
  have "value_of (probe 2) (get_monomial_form e) = value_of (probe 0) (get_monomial_form e)"
    unfolding get_monomial_form_def eval_sum_terms eval_term_def
    by (rule arg_cong [where f = sum_list], rule map_cong [OF refl]) (rule weigh)
  with assms(2) show False by (simp add: eval_get_monomial_form)
qed

lemma runs_require_equal:
  assumes "committed_only a" "committed_only b"
    and "value_of (probe 2) a \<noteq> value_of (probe 0) a \<or> value_of (probe 2) b \<noteq> value_of (probe 0) b"
    and "value_of row a = value_of row b" and "Q () n [] []"
  shows "runs row n (require_equal a b) Q"
  by (rule runs_completes [OF completes_require_equal require_equal_builds])
    (use assms probe_monomial [of a] probe_monomial [of b] in \<open>auto simp: committed_only_challenge_free\<close>)

subsection \<open>Lookups\<close>

lemma runs_fetch:
  assumes "fold max (map degree items) 0 = 1" and "map (value_of row) items \<in> set (row_program row)" and "Q () n [] []"
  shows "runs row n (lk_record InsnRom items) Q"
  by (rule runs_lk_record) (use assms in \<open>simp_all add: looked_up_def rom_rows_def\<close>)

lemma byte_looked_up:
  assumes "rt \<in> {And, Or, Xor, Ltu}" and "canon a < 256" "canon b < 256"
  shows "[a, b, of_nat (unat (op_result rt (of_nat (canon a)) (of_nat (canon b))))] \<in> set (rom_rows pr rt)"
proof -
  have word: "of_nat (unat (of_nat (canon x) :: u64)) = x" if "canon x < 256" for x
    using that by (simp only: unat_of_nat take_bit_nat_eq_self_iff of_nat_to_canonical) simp
  show ?thesis unfolding ops_rows [OF assms(1)]
    by (rule exI [of _ "of_nat (canon a)"], rule exI [of _ "of_nat (canon b)"], intro conjI)
      (use assms(2,3) in \<open>simp_all only: list.map word unat_of_nat\<close>, simp_all add: take_bit_eq_mod)
qed

lemma runs_byte:
  assumes "rt \<in> {And, Or, Xor, Ltu}" and "degree x = 1" "degree y = 1" "degree z \<le> 1"
    and "canon (value_of row x) < 256" "canon (value_of row y) < 256"
    and "value_of row z = of_nat (unat (op_result rt (of_nat (canon (value_of row x))) (of_nat (canon (value_of row y)))))"
    and "Q () n [] []"
  shows "runs row n (lk_record rt [x, y, z]) Q"
  by (rule runs_lk_record) (use assms byte_looked_up [OF assms(1,5,6)] in \<open>simp_all add: looked_up_def\<close>)

lemma runs_pow2:
  assumes "degree y = 1" "degree z = 1" "canon (value_of row y) < 32" "value_of row z = 2 ^ canon (value_of row y)" "Q () n [] []"
  shows "runs row n (lookup_pow2 y z) Q"
  unfolding lookup_pow2_def logic_u8_def
  by (rule runs_lk_record) (use assms in \<open>auto simp: looked_up_def pow_rows from_unsigned_def\<close>)

lemmas runs_rules = runs_then runs_ok runs_assert runs_create_witin runs_fetch runs_byte runs_pow2
  runs_read_record runs_write_record runs_require_zero runs_require_equal runs_assert_ux

end
