(* ===== verification/Samples.thy ===== *)
theory Samples
  imports RowRuns
begin

text \<open>
  Rows that satisfy the circuits, one for every instruction, and the properties of \<open>InstrTheorems\<close> applied
  to them. The columns were computed with the model's \<open>*_assign\<close> functions for a step at cycle 8 and
  pc \<open>0x1000\<close>; the registers and the word of memory were last accessed at the cycles 1 to 4.
\<close>

subsection \<open>Programs of one instruction and their rows\<close>

definition sample_imm :: "InsnKind \<Rightarrow> i32" where
  "sample_imm k =
     (if k \<in> {ADDI, SLTI, SLTIU, JALR} then - 1 else if k \<in> {ANDI, ORI, XORI} then - 16
      else if k \<in> {SLLI, SRLI, SRAI} then 4 else if k = JAL \<or> category k = Branch then 16
      else if category k \<in> {Load, Store} then - 4 else 0)"

definition sample_insn :: "InsnKind \<Rightarrow> Instruction" where
  "sample_insn k = (if k = ECALL then encode_rv32 ECALL 0 0 0 0 else encode_rv32 k 1 2 3 (sample_imm k))"

definition one_insn :: "InsnKind \<Rightarrow> Program" where
  "one_insn k =
     \<lparr>entry = 0x1000, base_address = 0x1000, sheap = 0x2000, instructions = [sample_insn k], image = []\<rparr>"

definition columns_row :: "gl list \<Rightarrow> InsnKind \<Rightarrow> circuit_row" where
  "columns_row ws k = \<lparr>row_env = env_of_lists [] ws [] [3, 2] [], row_program = program_rows 2 (one_insn k)\<rparr>"

primrec sample_columns :: "InsnKind \<Rightarrow> gl list" where
  "sample_columns ADD =
     [65535, 65535, 5, 0, 1, 1, 4096, 8, 1, 1, 65529, 65535, 2, 2, 65529, 65535, 3, 3, 7, 0, 65529, 65535]"
| "sample_columns SUB =
     [65534, 65535, 7, 0, 1, 1, 4096, 8, 1, 1, 65529, 65535, 2, 2, 65529, 65535, 3, 3, 7, 0, 65529, 65535]"
| "sample_columns ADDI =
     [0, 1, 65535, 65535, 0, 1, 4096, 8, 1, 1, 65529, 65535, 3, 3, 7, 0, 65529, 65535]"
| "sample_columns SLT =
     [65535, 65535, 1, 0, 1, 1, 0, 65534, 65535, 4096, 8, 1, 1, 65529, 65535, 2, 2, 65529, 65535, 3, 3, 7,
      0, 65529, 65535]"
| "sample_columns SLTU =
     [65535, 65535, 1, 0, 0, 65534, 65535, 4096, 8, 1, 1, 65529, 65535, 2, 2, 65529, 65535, 3, 3, 7, 0,
      65529, 65535]"
| "sample_columns SLTI =
     [0, 32768, - 1, 1, 1, 1, 32768, 4096, 8, 1, 1, 65529, 65535, 3, 3, 7, 0, 65529, 65535]"
| "sample_columns SLTIU =
     [0, 32768, 4294967295, 1, 1, 32768, 4096, 8, 1, 1, 65529, 65535, 3, 3, 7, 0, 65529, 65535]"
| "sample_columns AND_K =
     [255, 0, 15, 15, 1, 15, 255, 0, 1, 0, 15, 0, 4096, 8, 1, 1, 65529, 65535, 2, 2, 65529, 65535, 3, 3,
      7, 0, 65529, 65535]"
| "sample_columns OR_K =
     [255, 0, 15, 15, 1, 15, 255, 0, 255, 15, 255, 15, 4096, 8, 1, 1, 65529, 65535, 2, 2, 65529, 65535, 3,
      3, 7, 0, 65529, 65535]"
| "sample_columns XOR_K =
     [255, 0, 15, 15, 1, 15, 255, 0, 254, 15, 240, 15, 4096, 8, 1, 1, 65529, 65535, 2, 2, 65529, 65535, 3,
      3, 7, 0, 65529, 65535]"
| "sample_columns ANDI =
     [255, 0, 15, 15, 240, 0, 15, 15, 240, 255, 255, 255, 4096, 8, 1, 1, 65529, 65535, 3, 3, 7, 0, 65529,
      65535]"
| "sample_columns ORI =
     [255, 0, 15, 15, 255, 255, 255, 255, 240, 255, 255, 255, 4096, 8, 1, 1, 65529, 65535, 3, 3, 7, 0,
      65529, 65535]"
| "sample_columns XORI =
     [255, 0, 15, 15, 15, 255, 240, 240, 240, 255, 255, 255, 4096, 8, 1, 1, 65529, 65535, 3, 3, 7, 0,
      65529, 65535]"
| "sample_columns MUL =
     [65533, 65535, 1, 32768, 65533, 32767, 4096, 8, 1, 1, 65529, 65535, 2, 2, 65529, 65535, 3, 3, 7, 0,
      65529, 65535, 65535, 32767, 8589934590]"
| "sample_columns MULH =
     [65533, 65535, 1, 32768, 1, 0, 4096, 8, 1, 1, 65529, 65535, 2, 2, 65529, 65535, 3, 3, 7, 0, 65529,
      65535, 1, 1, 0, 65533, 32767]"
| "sample_columns MULHU =
     [65533, 65535, 1, 32768, 65535, 32767, 4096, 8, 1, 1, 65529, 65535, 2, 2, 65529, 65535, 3, 3, 7, 0,
      65529, 65535, 65533, 32767, 8589934590]"
| "sample_columns MULHSU =
     [65533, 65535, 1, 32768, 65534, 65535, 4096, 8, 1, 1, 65529, 65535, 2, 2, 65529, 65535, 3, 3, 7, 0,
      65529, 65535, 1, 1, 65533, 32767, - 13176245762640426717]"
| "sample_columns DIV =
     [65529, 65535, 2, 0, 65533, 65535, 65535, 65535, 1, 0, 1, 1, 0, - 9576178615316805711, 0, -
      2635249152159945289, 0, 65534, 65535, 0, - 9223372034707292160, 1, 65535, 65535, 4096, 8, 1, 1,
      65529, 65535, 2, 2, 65529, 65535, 3, 3, 7, 0, 65529, 65535]"
| "sample_columns DIVU =
     [65529, 65535, 2, 0, 65532, 32767, 1, 0, 0, - 9223372034707292160, 1, 65535, 65535, 4096, 8, 1, 1,
      65529, 65535, 2, 2, 65529, 65535, 3, 3, 7, 0, 65529, 65535]"
| "sample_columns REM =
     [65529, 65535, 2, 0, 65533, 65535, 65535, 65535, 1, 0, 1, 1, 0, - 9576178615316805711, 0, -
      2635249152159945289, 0, 65534, 65535, 0, - 9223372034707292160, 1, 65535, 65535, 4096, 8, 1, 1,
      65529, 65535, 2, 2, 65529, 65535, 3, 3, 7, 0, 65529, 65535]"
| "sample_columns REMU =
     [65529, 65535, 2, 0, 65532, 32767, 1, 0, 0, - 9223372034707292160, 1, 65535, 65535, 4096, 8, 1, 1,
      65529, 65535, 2, 2, 65529, 65535, 3, 3, 7, 0, 65529, 65535]"
| "sample_columns BEQ =
     [7, 0, 7, 0, 1, 0, 4096, 4112, 8, 1, 1, 65529, 65535, 2, 2, 65529, 65535, 16]"
| "sample_columns BNE =
     [7, 0, 7, 0, 1, 0, 4096, 4100, 8, 1, 1, 65529, 65535, 2, 2, 65529, 65535, 16]"
| "sample_columns BLT =
     [65535, 65535, 1, 0, 1, 1, 0, 65534, 65535, 4096, 4112, 8, 1, 1, 65529, 65535, 2, 2, 65529, 65535, 16]"
| "sample_columns BGE =
     [65535, 65535, 1, 0, 1, 1, 0, 65534, 65535, 4096, 4100, 8, 1, 1, 65529, 65535, 2, 2, 65529, 65535, 16]"
| "sample_columns BLTU =
     [65535, 65535, 1, 0, 0, 65534, 65535, 4096, 4100, 8, 1, 1, 65529, 65535, 2, 2, 65529, 65535, 16]"
| "sample_columns BGEU =
     [65535, 65535, 1, 0, 0, 65534, 65535, 4096, 4112, 8, 1, 1, 65529, 65535, 2, 2, 65529, 65535, 16]"
| "sample_columns JAL =
     [4100, 0, 4096, 4112, 8, 3, 3, 7, 0, 65529, 65535]"
| "sample_columns JALR =
     [8194, 0, - 1, 4100, 0, 4096, 8192, 8, 1, 1, 65529, 65535, 3, 3, 7, 0, 65529, 65535, 8193, 0, 1, 0,
      0, 1]"
| "sample_columns LB =
     [8199, 0, - 4, 50132, 33266, 8195, 0, 1, 1, 33266, 129, 242, 1, 4096, 8, 1, 1, 65529, 65535, 3, 3, 7,
      0, 65529, 65535, 4, 65529, 65535]"
| "sample_columns LBU =
     [8197, 0, - 4, 50132, 33266, 8193, 0, 1, 0, 50132, 195, 212, 4096, 8, 1, 1, 65529, 65535, 3, 3, 7, 0,
      65529, 65535, 4, 65529, 65535]"
| "sample_columns LH =
     [8196, 0, - 4, 50132, 33266, 8192, 0, 0, 50132, 1, 4096, 8, 1, 1, 65529, 65535, 3, 3, 7, 0, 65529,
      65535, 4, 65529, 65535]"
| "sample_columns LHU =
     [8198, 0, - 4, 50132, 33266, 8194, 0, 1, 33266, 4096, 8, 1, 1, 65529, 65535, 3, 3, 7, 0, 65529,
      65535, 4, 65529, 65535]"
| "sample_columns LW =
     [8196, 0, - 4, 50132, 33266, 8192, 0, 4096, 8, 1, 1, 65529, 65535, 3, 3, 7, 0, 65529, 65535, 4,
      65529, 65535]"
| "sample_columns SB =
     [8199, 0, 37035, 22136, 50132, 33266, - 4, 8195, 0, 1, 1, 242, 129, 171, 10752, 704643072, 4096, 8,
      1, 1, 65529, 65535, 2, 2, 65529, 65535, 4, 65529, 65535]"
| "sample_columns SH =
     [8198, 0, 37035, 22136, 50132, 33266, - 4, 8194, 0, 1, 247005184, 4096, 8, 1, 1, 65529, 65535, 2, 2,
      65529, 65535, 4, 65529, 65535]"
| "sample_columns SW =
     [8196, 0, 37035, 22136, 50132, 33266, - 4, 8192, 0, 4096, 8, 1, 1, 65529, 65535, 2, 2, 65529, 65535,
      4, 65529, 65535]"
| "sample_columns ECALL =
     [2, 4096, 8, 1, 65529, 65535, 65529, 65535]"
| "sample_columns SLL =
     [5, 32768, 80, 0, 36, 0, 4, 16, 1, 0, 8, 65528, 65535, 4096, 8, 1, 1, 65529, 65535, 2, 2, 65529,
      65535, 3, 3, 7, 0, 65529, 65535]"
| "sample_columns SRL =
     [5, 32768, 0, 2048, 36, 0, 4, 16, 1, 0, 5, 65525, 65535, 4096, 8, 1, 1, 65529, 65535, 2, 2, 65529,
      65535, 3, 3, 7, 0, 65529, 65535]"
| "sample_columns SRA =
     [5, 32768, 0, 63488, 36, 0, 4, 16, 1, 0, 5, 65525, 65535, 1, 4096, 8, 1, 1, 65529, 65535, 2, 2,
      65529, 65535, 3, 3, 7, 0, 65529, 65535]"
| "sample_columns SLLI =
     [16, 5, 32768, 80, 0, 8, 65528, 65535, 4096, 8, 1, 1, 65529, 65535, 3, 3, 7, 0, 65529, 65535]"
| "sample_columns SRLI =
     [16, 5, 32768, 0, 2048, 5, 65525, 65535, 4096, 8, 1, 1, 65529, 65535, 3, 3, 7, 0, 65529, 65535]"
| "sample_columns SRAI =
     [16, 5, 32768, 0, 63488, 5, 65525, 65535, 1, 4096, 8, 1, 1, 65529, 65535, 3, 3, 7, 0, 65529, 65535]"
| "sample_columns INVALID = []"

text \<open>The division of 100 by zero, and of \<open>- 2 ^ 31\<close> by \<open>- 1\<close>.\<close>

definition zero_columns :: "InsnKind \<Rightarrow> gl list" where
  "zero_columns k =
     (if k \<in> {DIV, REM} then
        [100, 0, 0, 0, 65535, 65535, 100, 0, 0, 0, 1, 0, 0, - 14291232717278212045, 0, 4294967296, 0, 65435,
         65535, 1, 0, 0, 100, 0, 4096, 8, 1, 1, 65529, 65535, 2, 2, 65529, 65535, 3, 3, 7, 0, 65529, 65535]
      else
        [100, 0, 0, 0, 65535, 65535, 100, 0, 1, 0, 0, 100, 0, 4096, 8, 1, 1, 65529, 65535, 2, 2, 65529,
         65535, 3, 3, 7, 0, 65529, 65535])"

definition overflow_columns :: "gl list" where
  "overflow_columns =
     [0, 32768, 65535, 65535, 0, 32768, 0, 0, 1, 1, 1, 0, 1, 0, 1, 0, 1, 65535, 65535, 0, - 4294967296, 1,
      65535, 65535, 4096, 8, 1, 1, 65529, 65535, 2, 2, 65529, 65535, 3, 3, 7, 0, 65529, 65535]"

definition sample_row :: "InsnKind \<Rightarrow> circuit_row" where "sample_row k = columns_row (sample_columns k) k"
definition zero_row :: "InsnKind \<Rightarrow> circuit_row" where "zero_row k = columns_row (zero_columns k) k"
definition overflow_row :: "InsnKind \<Rightarrow> circuit_row" where "overflow_row k = columns_row overflow_columns k"

lemma wit_rows:
  "witness_value (row_env (sample_row k)) = (!) (sample_columns k)"
  "witness_value (row_env (zero_row k)) = (!) (zero_columns k)"
  "witness_value (row_env (overflow_row k)) = (!) overflow_columns"
  "witness_value (row_env (probe v)) = (\<lambda>_. v)" "instance_value (row_env (probe v)) = (\<lambda>_. v)"
  by (simp_all add: sample_row_def zero_row_def overflow_row_def columns_row_def env_of_lists_def probe_def)

lemma instance_sample: "instance_value (row_env (sample_row k)) = (!) [3, 2]"
  by (simp add: sample_row_def columns_row_def env_of_lists_def)

lemma sample_program_rows:
  "row_program (sample_row k) = program_rows 2 (one_insn k)"
  "row_program (zero_row k) = program_rows 2 (one_insn k)"
  "row_program (overflow_row k) = program_rows 2 (one_insn k)"
  by (simp_all add: sample_row_def zero_row_def overflow_row_def columns_row_def)

lemma one_insn_rows: "program_rows 2 (one_insn k) = [from_decoded 0x1000 (sample_insn k), replicate 6 0]"
  by (simp add: program_rows_def one_insn_def)

subsection \<open>Evaluation\<close>

lemma sample_upts:
  "[0..<1] = [0]" "[0..<2] = [0, 1]" "[0..<3] = [0, 1, 2]" "[0..<4] = [0, 1, 2, 3]" "[0..<Suc 0] = [0]" "[Suc 0..<2] = [1]"
  by (simp_all add: upt_rec)

lemma chunks_pairs: "chunks 2 [a, b, c, d] = [[a, b], [c, d]]"
  by (simp add: numeral_2_eq_2)

lemma sample_quotients: "(8192 :: gl) / 4 = 2048" "(36864 :: gl) / 256 = 144"
  by (simp_all add: divide_eq_eq numeral_gl_eq_0_iff gl_modulus_def)

lemma gl_neg_eq:
  "(numeral a = - (numeral b :: gl)) = (numeral (a + b) = (0 :: gl))"
  "(- numeral a = (numeral b :: gl)) = (numeral (a + b) = (0 :: gl))"
  by (simp_all add: eq_neg_iff_add_eq_0 neg_eq_iff_add_eq_0)

lemma sample_base_imm:
  "i64_to_base 0 = 0" "i64_to_base 16 = 16" "i64_to_base (scast (16 :: i32)) = 16" "i64_to_base 4294967280 = 4294967280"
  "i64_to_base (ucast (- 1 :: i32)) = 4294967295" "i64_to_base (- 1) = - 1" "i64_to_base (- 4) = - 4"
proof -
  have "sint (0 :: i64) = 0" "sint (16 :: i64) = 16" "sint (scast (16 :: i32) :: i64) = 16"
    "sint (4294967280 :: i64) = 4294967280" "sint (ucast (- 1 :: i32) :: i64) = 4294967295"
    "sint (- 1 :: i64) = - 1" "sint (- 4 :: i64) = - 4"
    by code_simp+
  then show "i64_to_base 0 = 0" "i64_to_base 16 = 16" "i64_to_base (scast (16 :: i32)) = 16"
    "i64_to_base 4294967280 = 4294967280" "i64_to_base (ucast (- 1 :: i32)) = 4294967295"
    "i64_to_base (- 1) = - 1" "i64_to_base (- 4) = - 4"
    by (simp_all only: i64_to_base_eq) simp_all
qed

text \<open>The definitions of the constructions, down to the methods \<open>runs_rules\<close> covers.\<close>

lemmas run_defs =
  arith_construct_def uint_new_unchecked_def uint_new_maybe_unchecked_def uint_new_def num_limbs_def mapM.simps
  uint_add_def internal_add_def alloc_carry_unchecked_def forM.simps assert_bit_def add_limb_expr_def
  new_as_empty_def plain_uint_def uexprs_def wits_in_def enumerate_eq_zip get_def register_expr_def
  r_insn_construct_def state_in_out_construct_def state_in_def state_out_def read_rs1_construct_def
  read_rs2_construct_def register_read_def write_rd_construct_def register_write_def lk_fetch_def
  new_InsnRecord_def assert_lt_construct_def inner_lt_construct_def UINT_LIMBS_def ram_expr_def kind_expr_def
  subcycles PC_STEP_SIZE_def lt_range_def slt_construct_def is_lt_construct_def signed_lt_construct_def
  inner_signed_lt_construct_def from_exprs_unchecked_def uint_value_def is_negative_def signed_ext_construct_def
  to_field_expr_def flatten_expr_def limb_wits_def logic_construct_def logic_config_construct_def
  register_expr8_def from_u8_limbs_def chunks.simps shift_pows.simps reduce_sum_def uint_logic_def logic_u8_def
  addi_construct_def i_insn_construct_def slti_construct_def logic_imm_construct_def
  logic_imm_config_construct_def mul_construct_def mul_operands_def internal_mul_def uint_mul_add_def
  swap_witin_def replace_limbs_with_witin_def product_columns_def accumulate_product_def mul_limb_expr_def
  from_witins_unchecked_def as_lo_hi_def uint_require_equal_def div_rem_construct_def division_relation_def
  from_signed_def is_equal_construct_def non_equal_construct_def is_zero_construct_def is_zero_expr_of_def
  assert_signed_lt_construct_def signed_construct_def signed_extended_value_def msb_expr_def is_equal_def
  condition_require_equal_def select_def require_one_def create_u8_def create_u16_def
  create_witin_from_exprs_def uint_is_equal_def branch_construct_def branch_taken_bit_def b_insn_construct_def
  jal_construct_def j_insn_construct_def jalr_construct_def jalr_overflow_construct_def construct_unaligned_def
  construct_align2_def construct_align4_def mem_addr_construct_def N_LOW_BITS_def n_zeros_def low_bit_exprs_def
  expr_unaligned_def expr_align2_def expr_align4_def address_expr_def memory_expr_def load_construct_def
  load_addr_construct_def load_target_limb_def load_target_bytes_def load_rd_written_def im_insn_construct_def
  read_mem_construct_def memory_read_def memory_write_def write_mem_construct_def store_construct_def
  store_addr_construct_def store_n_zeros_def new_memory_value_def word_change_construct_def
  word_change_value_def alloc_bytes_def decompose_limb_def s_insn_construct_def assert_byte_def
  halt_construct_def ecall_construct_def query_exit_code_def query_instance_def EXIT_CODE_IDX_def
  ECALL_HALT_OPCODE_def EXIT_PC_def reg_ecall_def reg_arg0_def shift_construct_def shift_check_def
  shift_imm_construct_def expect_def

lemmas run_simps = run_defs sample_upts chunks_pairs sample_quotients Let_def andThen_ok canon_numeral canon_bits
  wit_rows instance_sample sample_program_rows one_insn_rows sample_insn_def sample_imm_def
  zero_columns_def overflow_columns_def from_decoded_def encode_rv32_def rd_internal_def rs1_or_zero_def rs2_or_zero_def
  imm_internal_def sample_base_imm insn_kind_code_def insn_kinds_def
  numeral_gl_eq_0_iff numeral_gl_eq_1_iff numeral_gl_eq_iff gl_modulus_def gl_neg_eq

subsection \<open>The records of a step\<close>

text \<open>
  What the steps read and write, by format: the state, the source registers 1 and 2 that hold \<open>x\<close> and
  \<open>y\<close>, the destination register 3, which held 7 and gets \<open>z\<close>, and the word of memory.
\<close>

definition r_records :: "u32 \<Rightarrow> u32 \<Rightarrow> u32 \<Rightarrow> ram_values \<Rightarrow> ram_values \<Rightarrow> bool" where
  "r_records x y z rs ws \<longleftrightarrow>
     rs = [state_rec 0x1000 8, reg_rec 1 (limbs_of x) 1, reg_rec 2 (limbs_of y) 2, reg_rec 3 (limbs_of 7) 3] \<and>
     ws = [state_rec 0x1004 12, reg_rec 1 (limbs_of x) 8, reg_rec 2 (limbs_of y) 9, reg_rec 3 (limbs_of z) 10]"

definition i_records :: "gl \<Rightarrow> u32 \<Rightarrow> u32 \<Rightarrow> ram_values \<Rightarrow> ram_values \<Rightarrow> bool" where
  "i_records nxt x z rs ws \<longleftrightarrow>
     rs = [state_rec 0x1000 8, reg_rec 1 (limbs_of x) 1, reg_rec 3 (limbs_of 7) 3] \<and>
     ws = [state_rec nxt 12, reg_rec 1 (limbs_of x) 8, reg_rec 3 (limbs_of z) 10]"

definition b_records :: "gl \<Rightarrow> u32 \<Rightarrow> u32 \<Rightarrow> ram_values \<Rightarrow> ram_values \<Rightarrow> bool" where
  "b_records nxt x y rs ws \<longleftrightarrow>
     rs = [state_rec 0x1000 8, reg_rec 1 (limbs_of x) 1, reg_rec 2 (limbs_of y) 2] \<and>
     ws = [state_rec nxt 12, reg_rec 1 (limbs_of x) 8, reg_rec 2 (limbs_of y) 9]"

definition j_records :: "gl \<Rightarrow> u32 \<Rightarrow> ram_values \<Rightarrow> ram_values \<Rightarrow> bool" where
  "j_records nxt z rs ws \<longleftrightarrow>
     rs = [state_rec 0x1000 8, reg_rec 3 (limbs_of 7) 3] \<and> ws = [state_rec nxt 12, reg_rec 3 (limbs_of z) 10]"

definition im_records :: "u32 \<Rightarrow> gl \<Rightarrow> gl \<Rightarrow> u32 \<Rightarrow> ram_values \<Rightarrow> ram_values \<Rightarrow> bool" where
  "im_records x addr m z rs ws \<longleftrightarrow>
     rs = [state_rec 0x1000 8, reg_rec 1 (limbs_of x) 1, reg_rec 3 (limbs_of 7) 3, mem_rec addr m 4] \<and>
     ws = [state_rec 0x1004 12, reg_rec 1 (limbs_of x) 8, reg_rec 3 (limbs_of z) 10, mem_rec addr m 11]"

definition s_records :: "u32 \<Rightarrow> u32 \<Rightarrow> gl \<Rightarrow> gl \<Rightarrow> gl \<Rightarrow> ram_values \<Rightarrow> ram_values \<Rightarrow> bool" where
  "s_records x y addr old new rs ws \<longleftrightarrow>
     rs = [state_rec 0x1000 8, reg_rec 1 (limbs_of x) 1, reg_rec 2 (limbs_of y) 2, mem_rec addr old 4] \<and>
     ws = [state_rec 0x1004 12, reg_rec 1 (limbs_of x) 8, reg_rec 2 (limbs_of y) 9, mem_rec addr new 11]"

text \<open>The halting call is in \<open>x5\<close>, the exit code \<open>0x20003\<close> in \<open>x10\<close>.\<close>

definition halt_records :: "ram_values \<Rightarrow> ram_values \<Rightarrow> bool" where
  "halt_records rs ws \<longleftrightarrow>
     rs = [state_rec 0x1000 8, reg_rec 5 (limbs_of 0) 1, reg_rec 10 (limbs_of 0x20003) 2] \<and>
     ws = [state_rec 0 12, reg_rec 5 (limbs_of 0) 8, reg_rec 10 (limbs_of 0x20003) 9]"

lemmas record_simps = halt_records_def r_records_def i_records_def b_records_def j_records_def im_records_def s_records_def
  state_rec_def reg_rec_def mem_rec_def limbs_of_def

subsection \<open>Runs on the rows\<close>

lemma addition_runs:
  "runs (sample_row ADD) 0 (arith_construct ADD) (\<lambda>_ _ rs ws. r_records 0xffffffff 5 4 rs ws)"
  "runs (sample_row SUB) 0 (arith_construct SUB) (\<lambda>_ _ rs ws. r_records 5 7 0xfffffffe rs ws)"
  "runs (sample_row ADDI) 0 addi_construct (\<lambda>_ _ rs ws. i_records 0x1004 0x10000 0xffff rs ws)"
  by ((rule runs_rules | simp cong: runs_cong add: run_simps record_simps)+)

lemma set_less_than_runs:
  "runs (sample_row SLT) 0 (slt_construct SLT) (\<lambda>_ _ rs ws. r_records 0xffffffff 1 1 rs ws)"
  "runs (sample_row SLTU) 0 (slt_construct SLTU) (\<lambda>_ _ rs ws. r_records 0xffffffff 1 0 rs ws)"
  "runs (sample_row SLTI) 0 (slti_construct SLTI) (\<lambda>_ _ rs ws. i_records 0x1004 0x80000000 1 rs ws)"
  "runs (sample_row SLTIU) 0 (slti_construct SLTIU) (\<lambda>_ _ rs ws. i_records 0x1004 0x80000000 1 rs ws)"
  by ((rule runs_rules | simp cong: runs_cong add: run_simps record_simps)+)

lemma logic_runs:
  "runs (sample_row AND_K) 0 (logic_construct AND_K) (\<lambda>_ _ rs ws. r_records 0xf0f00ff 0xff0f01 0xf0001 rs ws)"
  "runs (sample_row OR_K) 0 (logic_construct OR_K) (\<lambda>_ _ rs ws. r_records 0xf0f00ff 0xff0f01 0xfff0fff rs ws)"
  "runs (sample_row XOR_K) 0 (logic_construct XOR_K) (\<lambda>_ _ rs ws. r_records 0xf0f00ff 0xff0f01 0xff00ffe rs ws)"
  "runs (sample_row ANDI) 0 (logic_imm_construct ANDI) (\<lambda>_ _ rs ws. i_records 0x1004 0xf0f00ff 0xf0f00f0 rs ws)"
  "runs (sample_row ORI) 0 (logic_imm_construct ORI) (\<lambda>_ _ rs ws. i_records 0x1004 0xf0f00ff 0xffffffff rs ws)"
  "runs (sample_row XORI) 0 (logic_imm_construct XORI)
     (\<lambda>_ _ rs ws. i_records 0x1004 0xf0f00ff 0xf0f0ff0f rs ws)"
  by ((rule runs_rules | simp cong: runs_cong add: run_simps record_simps)+)

lemma multiplication_runs:
  "runs (sample_row MUL) 0 (mul_construct MUL) (\<lambda>_ _ rs ws. r_records 0xfffffffd 0x80000001 0x7ffffffd rs ws)"
  "runs (sample_row MULH) 0 (mul_construct MULH) (\<lambda>_ _ rs ws. r_records 0xfffffffd 0x80000001 1 rs ws)"
  "runs (sample_row MULHU) 0 (mul_construct MULHU)
     (\<lambda>_ _ rs ws. r_records 0xfffffffd 0x80000001 0x7fffffff rs ws)"
  "runs (sample_row MULHSU) 0 (mul_construct MULHSU)
     (\<lambda>_ _ rs ws. r_records 0xfffffffd 0x80000001 0xfffffffe rs ws)"
  by ((rule runs_rules | simp cong: runs_cong add: run_simps record_simps)+)

lemma division_runs:
  "runs (sample_row DIV) 0 (div_rem_construct DIV) (\<lambda>_ _ rs ws. r_records 0xfffffff9 2 0xfffffffd rs ws)"
  "runs (sample_row DIVU) 0 (div_rem_construct DIVU) (\<lambda>_ _ rs ws. r_records 0xfffffff9 2 0x7ffffffc rs ws)"
  "runs (sample_row REM) 0 (div_rem_construct REM) (\<lambda>_ _ rs ws. r_records 0xfffffff9 2 0xffffffff rs ws)"
  "runs (sample_row REMU) 0 (div_rem_construct REMU) (\<lambda>_ _ rs ws. r_records 0xfffffff9 2 1 rs ws)"
  "runs (zero_row DIV) 0 (div_rem_construct DIV) (\<lambda>_ _ rs ws. r_records 0x64 0 0xffffffff rs ws)"
  "runs (zero_row DIVU) 0 (div_rem_construct DIVU) (\<lambda>_ _ rs ws. r_records 0x64 0 0xffffffff rs ws)"
  "runs (zero_row REM) 0 (div_rem_construct REM) (\<lambda>_ _ rs ws. r_records 0x64 0 0x64 rs ws)"
  "runs (zero_row REMU) 0 (div_rem_construct REMU) (\<lambda>_ _ rs ws. r_records 0x64 0 0x64 rs ws)"
  "runs (overflow_row DIV) 0 (div_rem_construct DIV)
     (\<lambda>_ _ rs ws. r_records 0x80000000 0xffffffff 0x80000000 rs ws)"
  "runs (overflow_row REM) 0 (div_rem_construct REM) (\<lambda>_ _ rs ws. r_records 0x80000000 0xffffffff 0 rs ws)"
  by ((rule runs_rules | simp cong: runs_cong add: run_simps record_simps)+)

lemma branch_runs:
  "runs (sample_row BEQ) 0 (branch_construct BEQ) (\<lambda>_ _ rs ws. b_records 0x1010 7 7 rs ws)"
  "runs (sample_row BNE) 0 (branch_construct BNE) (\<lambda>_ _ rs ws. b_records 0x1004 7 7 rs ws)"
  "runs (sample_row BLT) 0 (branch_construct BLT) (\<lambda>_ _ rs ws. b_records 0x1010 0xffffffff 1 rs ws)"
  "runs (sample_row BGE) 0 (branch_construct BGE) (\<lambda>_ _ rs ws. b_records 0x1004 0xffffffff 1 rs ws)"
  "runs (sample_row BLTU) 0 (branch_construct BLTU) (\<lambda>_ _ rs ws. b_records 0x1004 0xffffffff 1 rs ws)"
  "runs (sample_row BGEU) 0 (branch_construct BGEU) (\<lambda>_ _ rs ws. b_records 0x1010 0xffffffff 1 rs ws)"
  by ((rule runs_rules | simp cong: runs_cong add: run_simps record_simps)+)

lemma jump_runs:
  "runs (sample_row JAL) 0 jal_construct (\<lambda>_ _ rs ws. j_records 0x1010 0x1004 rs ws)"
  "runs (sample_row JALR) 0 (jalr_construct False) (\<lambda>_ _ rs ws. i_records 0x2000 0x2002 0x1004 rs ws)"
  "runs (sample_row JALR) 0 (jalr_construct True) (\<lambda>_ _ rs ws. i_records 0x2000 0x2002 0x1004 rs ws)"
  by ((rule runs_rules | simp cong: runs_cong add: run_simps record_simps)+)

lemma load_runs:
  "runs (sample_row LB) 0 (load_construct LB)
     (\<lambda>_ _ rs ws. im_records 0x2007 0x2000 0x81f2c3d4 0xffffff81 rs ws)"
  "runs (sample_row LBU) 0 (load_construct LBU) (\<lambda>_ _ rs ws. im_records 0x2005 0x2000 0x81f2c3d4 0xc3 rs ws)"
  "runs (sample_row LH) 0 (load_construct LH)
     (\<lambda>_ _ rs ws. im_records 0x2004 0x2000 0x81f2c3d4 0xffffc3d4 rs ws)"
  "runs (sample_row LHU) 0 (load_construct LHU) (\<lambda>_ _ rs ws. im_records 0x2006 0x2000 0x81f2c3d4 0x81f2 rs ws)"
  "runs (sample_row LW) 0 (load_construct LW)
     (\<lambda>_ _ rs ws. im_records 0x2004 0x2000 0x81f2c3d4 0x81f2c3d4 rs ws)"
  by ((rule runs_rules | simp cong: runs_cong add: run_simps record_simps)+)

lemma store_runs:
  "runs (sample_row SB) 0 (store_construct False CENO_PLATFORM SB)
     (\<lambda>_ _ rs ws. s_records 0x2007 0x567890ab 0x2000 0x81f2c3d4 0xabf2c3d4 rs ws)"
  "runs (sample_row SH) 0 (store_construct False CENO_PLATFORM SH)
     (\<lambda>_ _ rs ws. s_records 0x2006 0x567890ab 0x2000 0x81f2c3d4 0x90abc3d4 rs ws)"
  "runs (sample_row SW) 0 (store_construct False CENO_PLATFORM SW)
     (\<lambda>_ _ rs ws. s_records 0x2004 0x567890ab 0x2000 0x81f2c3d4 0x567890ab rs ws)"
  by ((rule runs_rules | simp cong: runs_cong add: run_simps record_simps)+)

lemma halt_runs:
  "runs (sample_row ECALL) 0 halt_construct (\<lambda>_ _ rs ws. halt_records rs ws)"
  by ((rule runs_rules | simp cong: runs_cong add: run_simps record_simps)+)

lemma shift_runs:
  "runs (sample_row SLL) 0 (shift_construct SLL) (\<lambda>cfg _ rs ws. r_records 0x80000005 36 80 rs ws \<and>
     canon (wit (sample_row SLL) (shift_outflow cfg)) < 2 ^ 32)"
  "runs (sample_row SRL) 0 (shift_construct SRL) (\<lambda>cfg _ rs ws. r_records 0x80000005 36 0x8000000 rs ws \<and>
     canon (wit (sample_row SRL) (shift_outflow cfg)) < 2 ^ 32)"
  "runs (sample_row SRA) 0 (shift_construct SRA) (\<lambda>cfg _ rs ws. r_records 0x80000005 36 0xf8000000 rs ws \<and>
     canon (wit (sample_row SRA) (shift_outflow cfg)) < 2 ^ 32)"
  "runs (sample_row SLLI) 0 (shift_imm_construct SLLI)
     (\<lambda>cfg _ rs ws. i_records 0x1004 0x80000005 80 rs ws \<and>
     canon (wit (sample_row SLLI) (shifti_outflow cfg)) < 2 ^ 32)"
  "runs (sample_row SRLI) 0 (shift_imm_construct SRLI)
     (\<lambda>cfg _ rs ws. i_records 0x1004 0x80000005 0x8000000 rs ws \<and>
     canon (wit (sample_row SRLI) (shifti_outflow cfg)) < 2 ^ 32)"
  "runs (sample_row SRAI) 0 (shift_imm_construct SRAI)
     (\<lambda>cfg _ rs ws. i_records 0x1004 0x80000005 0xf8000000 rs ws \<and>
     canon (wit (sample_row SRAI) (shifti_outflow cfg)) < 2 ^ 32)"
  by ((rule runs_rules | simp cong: runs_cong add: run_simps record_simps)+)

subsection \<open>Steps of satisfying rows\<close>

lemma exhibits_step:
  assumes "runs row 0 m (\<lambda>_ _ rs ws. P rs ws)" and "builds row m (\<lambda>_ rs ws. S rs ws)"
  shows "exhibits row m (\<lambda>_ rs ws. S rs ws \<and> P rs ws)"
  by (rule exhibitsI [OF assms]) simp

lemma exhibits_step_if:
  assumes "runs row 0 m (\<lambda>x _ rs ws. P rs ws \<and> C x)" and "builds row m (\<lambda>x rs ws. C x \<longrightarrow> S rs ws)"
  shows "exhibits row m (\<lambda>x rs ws. S rs ws \<and> P rs ws \<and> C x)"
  by (rule exhibitsI [OF assms]) simp

text \<open>
  The construct of each circuit returns, its row satisfies the system, and the records are those of a
  step: \<open>0xFFFFFFFF + 5\<close>, \<open>5 - 7\<close> and \<open>0x10000 - 1\<close>.
\<close>

theorem addition_circuits_sound_witness:
  "exhibits (sample_row ADD) (arith_construct ADD)
     (\<lambda>_ rs ws. r_step (one_insn ADD) ADD rs ws \<and> r_records 0xffffffff 5 4 rs ws) \<and>
   exhibits (sample_row SUB) (arith_construct SUB)
     (\<lambda>_ rs ws. r_step (one_insn SUB) SUB rs ws \<and> r_records 5 7 0xfffffffe rs ws) \<and>
   exhibits (sample_row ADDI) addi_construct
     (\<lambda>_ rs ws. i_step (one_insn ADDI) ADDI rs ws \<and> i_records 0x1004 0x10000 0xffff rs ws)"
  by (intro conjI exhibits_step addition_runs) (use addition_circuits_sound [OF sample_program_rows(1)] in blast)+

text \<open>
  \<open>- 1 < 1\<close> as signed and not as unsigned words, and \<open>- 2 ^ 31\<close> and \<open>2 ^ 31\<close> against the immediate \<open>- 1\<close>.
\<close>

theorem set_less_than_circuits_sound_witness:
  "exhibits (sample_row SLT) (slt_construct SLT)
     (\<lambda>_ rs ws. r_step (one_insn SLT) SLT rs ws \<and> r_records 0xffffffff 1 1 rs ws) \<and>
   exhibits (sample_row SLTU) (slt_construct SLTU)
     (\<lambda>_ rs ws. r_step (one_insn SLTU) SLTU rs ws \<and> r_records 0xffffffff 1 0 rs ws) \<and>
   exhibits (sample_row SLTI) (slti_construct SLTI)
     (\<lambda>_ rs ws. i_step (one_insn SLTI) SLTI rs ws \<and> i_records 0x1004 0x80000000 1 rs ws) \<and>
   exhibits (sample_row SLTIU) (slti_construct SLTIU)
     (\<lambda>_ rs ws. i_step (one_insn SLTIU) SLTIU rs ws \<and> i_records 0x1004 0x80000000 1 rs ws)"
  by (intro conjI exhibits_step set_less_than_runs) (use set_less_than_circuits_sound [OF sample_program_rows(1)] in blast)+

text \<open>Words whose bytes differ, and the immediate \<open>- 16\<close>.\<close>

theorem logic_circuits_sound_witness:
  "exhibits (sample_row AND_K) (logic_construct AND_K)
     (\<lambda>_ rs ws. r_step (one_insn AND_K) AND_K rs ws \<and> r_records 0xf0f00ff 0xff0f01 0xf0001 rs ws) \<and>
   exhibits (sample_row OR_K) (logic_construct OR_K)
     (\<lambda>_ rs ws. r_step (one_insn OR_K) OR_K rs ws \<and> r_records 0xf0f00ff 0xff0f01 0xfff0fff rs ws) \<and>
   exhibits (sample_row XOR_K) (logic_construct XOR_K)
     (\<lambda>_ rs ws. r_step (one_insn XOR_K) XOR_K rs ws \<and> r_records 0xf0f00ff 0xff0f01 0xff00ffe rs ws) \<and>
   exhibits (sample_row ANDI) (logic_imm_construct ANDI)
     (\<lambda>_ rs ws. i_step (one_insn ANDI) ANDI rs ws \<and> i_records 0x1004 0xf0f00ff 0xf0f00f0 rs ws) \<and>
   exhibits (sample_row ORI) (logic_imm_construct ORI)
     (\<lambda>_ rs ws. i_step (one_insn ORI) ORI rs ws \<and> i_records 0x1004 0xf0f00ff 0xffffffff rs ws) \<and>
   exhibits (sample_row XORI) (logic_imm_construct XORI)
     (\<lambda>_ rs ws. i_step (one_insn XORI) XORI rs ws \<and> i_records 0x1004 0xf0f00ff 0xf0f0ff0f rs ws)"
  by (intro conjI exhibits_step logic_runs) (use logic_circuits_sound [OF sample_program_rows(1)] in blast)+

text \<open>
  The words \<open>0xFFFFFFFD\<close> and \<open>0x80000001\<close>, both negative as signed words.
\<close>

theorem multiplication_circuits_sound_witness:
  "exhibits (sample_row MUL) (mul_construct MUL)
     (\<lambda>_ rs ws. r_step (one_insn MUL) MUL rs ws \<and> r_records 0xfffffffd 0x80000001 0x7ffffffd rs ws) \<and>
   exhibits (sample_row MULH) (mul_construct MULH)
     (\<lambda>_ rs ws. r_step (one_insn MULH) MULH rs ws \<and> r_records 0xfffffffd 0x80000001 1 rs ws) \<and>
   exhibits (sample_row MULHU) (mul_construct MULHU)
     (\<lambda>_ rs ws. r_step (one_insn MULHU) MULHU rs ws \<and> r_records 0xfffffffd 0x80000001 0x7fffffff rs ws) \<and>
   exhibits (sample_row MULHSU) (mul_construct MULHSU)
     (\<lambda>_ rs ws. r_step (one_insn MULHSU) MULHSU rs ws \<and> r_records 0xfffffffd 0x80000001 0xfffffffe rs ws)"
  by (intro conjI exhibits_step multiplication_runs) (use multiplication_circuits_sound [OF sample_program_rows(1)] in blast)+

text \<open>
  \<open>- 7\<close> (\<open>0xFFFFFFF9\<close>) by 2, 100 by 0, and \<open>- 2 ^ 31\<close> by \<open>- 1\<close>.
\<close>

theorem division_circuits_sound_witness:
  "exhibits (sample_row DIV) (div_rem_construct DIV)
     (\<lambda>_ rs ws. r_step (one_insn DIV) DIV rs ws \<and> r_records 0xfffffff9 2 0xfffffffd rs ws) \<and>
   exhibits (sample_row DIVU) (div_rem_construct DIVU)
     (\<lambda>_ rs ws. r_step (one_insn DIVU) DIVU rs ws \<and> r_records 0xfffffff9 2 0x7ffffffc rs ws) \<and>
   exhibits (sample_row REM) (div_rem_construct REM)
     (\<lambda>_ rs ws. r_step (one_insn REM) REM rs ws \<and> r_records 0xfffffff9 2 0xffffffff rs ws) \<and>
   exhibits (sample_row REMU) (div_rem_construct REMU)
     (\<lambda>_ rs ws. r_step (one_insn REMU) REMU rs ws \<and> r_records 0xfffffff9 2 1 rs ws) \<and>
   exhibits (zero_row DIV) (div_rem_construct DIV)
     (\<lambda>_ rs ws. r_step (one_insn DIV) DIV rs ws \<and> r_records 0x64 0 0xffffffff rs ws) \<and>
   exhibits (zero_row DIVU) (div_rem_construct DIVU)
     (\<lambda>_ rs ws. r_step (one_insn DIVU) DIVU rs ws \<and> r_records 0x64 0 0xffffffff rs ws) \<and>
   exhibits (zero_row REM) (div_rem_construct REM)
     (\<lambda>_ rs ws. r_step (one_insn REM) REM rs ws \<and> r_records 0x64 0 0x64 rs ws) \<and>
   exhibits (zero_row REMU) (div_rem_construct REMU)
     (\<lambda>_ rs ws. r_step (one_insn REMU) REMU rs ws \<and> r_records 0x64 0 0x64 rs ws) \<and>
   exhibits (overflow_row DIV) (div_rem_construct DIV)
     (\<lambda>_ rs ws. r_step (one_insn DIV) DIV rs ws \<and> r_records 0x80000000 0xffffffff 0x80000000 rs ws) \<and>
   exhibits (overflow_row REM) (div_rem_construct REM)
     (\<lambda>_ rs ws. r_step (one_insn REM) REM rs ws \<and> r_records 0x80000000 0xffffffff 0 rs ws)"
  by (intro conjI exhibits_step division_runs)
    (use division_circuits_sound [OF sample_program_rows(1)] division_circuits_sound [OF sample_program_rows(2)]
      division_circuits_sound [OF sample_program_rows(3)] in blast)+

text \<open>Branches that are taken and branches that are not.\<close>

theorem branch_circuits_sound_witness:
  "exhibits (sample_row BEQ) (branch_construct BEQ)
     (\<lambda>_ rs ws. b_step (one_insn BEQ) BEQ rs ws \<and> b_records 0x1010 7 7 rs ws) \<and>
   exhibits (sample_row BNE) (branch_construct BNE)
     (\<lambda>_ rs ws. b_step (one_insn BNE) BNE rs ws \<and> b_records 0x1004 7 7 rs ws) \<and>
   exhibits (sample_row BLT) (branch_construct BLT)
     (\<lambda>_ rs ws. b_step (one_insn BLT) BLT rs ws \<and> b_records 0x1010 0xffffffff 1 rs ws) \<and>
   exhibits (sample_row BGE) (branch_construct BGE)
     (\<lambda>_ rs ws. b_step (one_insn BGE) BGE rs ws \<and> b_records 0x1004 0xffffffff 1 rs ws) \<and>
   exhibits (sample_row BLTU) (branch_construct BLTU)
     (\<lambda>_ rs ws. b_step (one_insn BLTU) BLTU rs ws \<and> b_records 0x1004 0xffffffff 1 rs ws) \<and>
   exhibits (sample_row BGEU) (branch_construct BGEU)
     (\<lambda>_ rs ws. b_step (one_insn BGEU) BGEU rs ws \<and> b_records 0x1010 0xffffffff 1 rs ws)"
  by (intro conjI exhibits_step branch_runs branch_circuits_sound [OF sample_program_rows(1)]) simp_all

text \<open>JAL forward by 16, JALR to the even address below \<open>0x2002 - 1\<close>.\<close>

theorem jump_circuits_sound_witness:
  "exhibits (sample_row JAL) jal_construct
     (\<lambda>_ rs ws. j_step (one_insn JAL) rs ws \<and> j_records 0x1010 0x1004 rs ws) \<and>
   exhibits (sample_row JALR) (jalr_construct False)
     (\<lambda>_ rs ws. jalr_step (one_insn JALR) rs ws \<and> i_records 0x2000 0x2002 0x1004 rs ws) \<and>
   exhibits (sample_row JALR) (jalr_construct True)
     (\<lambda>_ rs ws. jalr_step (one_insn JALR) rs ws \<and> i_records 0x2000 0x2002 0x1004 rs ws)"
  by (intro conjI exhibits_step jump_runs) (use jump_circuits_sound [OF sample_program_rows(1)] in blast)+

text \<open>Negative and positive bytes and half words at all kinds of offsets.\<close>

theorem load_circuits_sound_witness:
  "exhibits (sample_row LB) (load_construct LB)
     (\<lambda>_ rs ws. im_step (one_insn LB) LB rs ws \<and> im_records 0x2007 0x2000 0x81f2c3d4 0xffffff81 rs ws) \<and>
   exhibits (sample_row LBU) (load_construct LBU)
     (\<lambda>_ rs ws. im_step (one_insn LBU) LBU rs ws \<and> im_records 0x2005 0x2000 0x81f2c3d4 0xc3 rs ws) \<and>
   exhibits (sample_row LH) (load_construct LH)
     (\<lambda>_ rs ws. im_step (one_insn LH) LH rs ws \<and> im_records 0x2004 0x2000 0x81f2c3d4 0xffffc3d4 rs ws) \<and>
   exhibits (sample_row LHU) (load_construct LHU)
     (\<lambda>_ rs ws. im_step (one_insn LHU) LHU rs ws \<and> im_records 0x2006 0x2000 0x81f2c3d4 0x81f2 rs ws) \<and>
   exhibits (sample_row LW) (load_construct LW)
     (\<lambda>_ rs ws. im_step (one_insn LW) LW rs ws \<and> im_records 0x2004 0x2000 0x81f2c3d4 0x81f2c3d4 rs ws)"
  by (intro conjI exhibits_step load_runs load_circuits_sound [OF sample_program_rows(1)]) simp_all

text \<open>A byte, a half word and a word stored into \<open>0x81F2C3D4\<close>.\<close>

theorem store_circuits_sound_witness:
  "exhibits (sample_row SB) (store_construct False CENO_PLATFORM SB)
     (\<lambda>_ rs ws. s_step (one_insn SB) SB rs ws \<and> s_records 0x2007 0x567890ab 0x2000 0x81f2c3d4 0xabf2c3d4 rs ws) \<and>
   exhibits (sample_row SH) (store_construct False CENO_PLATFORM SH)
     (\<lambda>_ rs ws. s_step (one_insn SH) SH rs ws \<and> s_records 0x2006 0x567890ab 0x2000 0x81f2c3d4 0x90abc3d4 rs ws) \<and>
   exhibits (sample_row SW) (store_construct False CENO_PLATFORM SW)
     (\<lambda>_ rs ws. s_step (one_insn SW) SW rs ws \<and> s_records 0x2004 0x567890ab 0x2000 0x81f2c3d4 0x567890ab rs ws)"
  by (intro conjI exhibits_step store_runs store_circuits_sound [OF sample_program_rows(1)]) simp_all

text \<open>The row's pc is the one of the program table, the public exit code is \<open>0x20003\<close>.\<close>

theorem halt_circuit_sound_witness:
  "exhibits (sample_row ECALL) halt_construct
     (\<lambda>_ rs ws. halt_step (one_insn ECALL) ((!) [3, 2]) rs ws \<and> halt_records rs ws)"
  by (rule exhibits_step [OF halt_runs halt_circuit_sound [OF sample_program_rows(1), of ECALL, unfolded instance_sample]])

text \<open>
  Every shift by 4 (of 36 modulo 32) of \<open>0x80000005\<close>, with an outflow below \<open>2 ^ 32\<close>.
\<close>

theorem shift_circuits_sound_below_witness:
  "exhibits (sample_row SLL) (shift_construct SLL)
     (\<lambda>cfg rs ws. r_step (one_insn SLL) SLL rs ws \<and> r_records 0x80000005 36 80 rs ws \<and>
       canon (wit (sample_row SLL) (shift_outflow cfg)) < 2 ^ 32) \<and>
   exhibits (sample_row SRL) (shift_construct SRL)
     (\<lambda>cfg rs ws. r_step (one_insn SRL) SRL rs ws \<and> r_records 0x80000005 36 0x8000000 rs ws \<and>
       canon (wit (sample_row SRL) (shift_outflow cfg)) < 2 ^ 32) \<and>
   exhibits (sample_row SRA) (shift_construct SRA)
     (\<lambda>cfg rs ws. r_step (one_insn SRA) SRA rs ws \<and> r_records 0x80000005 36 0xf8000000 rs ws \<and>
       canon (wit (sample_row SRA) (shift_outflow cfg)) < 2 ^ 32) \<and>
   exhibits (sample_row SLLI) (shift_imm_construct SLLI)
     (\<lambda>cfg rs ws. i_step (one_insn SLLI) SLLI rs ws \<and> i_records 0x1004 0x80000005 80 rs ws \<and>
       canon (wit (sample_row SLLI) (shifti_outflow cfg)) < 2 ^ 32) \<and>
   exhibits (sample_row SRLI) (shift_imm_construct SRLI)
     (\<lambda>cfg rs ws. i_step (one_insn SRLI) SRLI rs ws \<and> i_records 0x1004 0x80000005 0x8000000 rs ws \<and>
       canon (wit (sample_row SRLI) (shifti_outflow cfg)) < 2 ^ 32) \<and>
   exhibits (sample_row SRAI) (shift_imm_construct SRAI)
     (\<lambda>cfg rs ws. i_step (one_insn SRAI) SRAI rs ws \<and> i_records 0x1004 0x80000005 0xf8000000 rs ws \<and>
       canon (wit (sample_row SRAI) (shifti_outflow cfg)) < 2 ^ 32)"
proof -
  have amounts: "shamts_ok (one_insn k)" for k
    by (simp add: shamts_ok_def one_insn_def sample_insn_def encode_rv32_def sample_imm_def)
  note sound = shift_circuits_sound_below [OF sample_program_rows(1) amounts]
  show ?thesis
    by (intro conjI exhibits_step_if shift_runs) (use sound in blast)+
qed

end
