(* ===== verification/Univariate.thy ===== *)
theory Univariate
  imports Prelude
begin

text \<open>
  Polynomial functions in one variable over a field: closure properties, the bound on the number of
  roots, and Lagrange interpolation at given nodes. The sumcheck protocol sends such a function as its
  values at \<open>0, ..., d\<close> and evaluates it elsewhere.
\<close>

primrec horner :: "'f::comm_ring_1 list \<Rightarrow> 'f \<Rightarrow> 'f" where
  "horner [] x = 0"
| "horner (c # cs) x = c + x * horner cs x"

definition poly_of_degree :: "nat \<Rightarrow> ('f::comm_ring_1 \<Rightarrow> 'f) \<Rightarrow> bool" where
  "poly_of_degree d f \<longleftrightarrow> (\<exists>cs. length cs \<le> Suc d \<and> f = horner cs)"

named_theorems poly_intros \<open>closure properties of polynomial functions\<close>

subsection \<open>Closure\<close>

lemma horner_replicate [simp]: "horner (replicate n 0) x = 0"
  by (induction n) auto

lemma horner_append: "horner (xs @ ys) x = horner xs x + x ^ length xs * horner ys x"
  by (induction xs) (auto simp: algebra_simps)

lemma horner_pad: "horner (cs @ replicate n 0) = horner cs"
  by (rule ext) (simp add: horner_append)

lemma poly_of_degreeE:
  assumes "poly_of_degree d f"
  obtains cs where "length cs = Suc d" and "f = horner cs"
proof -
  from assms obtain cs where "length cs \<le> Suc d" and "f = horner cs"
    by (auto simp: poly_of_degree_def)
  then show thesis
    using that [of "cs @ replicate (Suc d - length cs) 0"] by (simp add: horner_pad)
qed

lemma poly_of_degreeI: "length cs \<le> Suc d \<Longrightarrow> (\<And>x. f x = horner cs x) \<Longrightarrow> poly_of_degree d f"
  unfolding poly_of_degree_def by (rule exI [of _ cs]) auto

lemma poly_mono: "poly_of_degree d f \<Longrightarrow> d \<le> e \<Longrightarrow> poly_of_degree e f"
  by (force simp: poly_of_degree_def)

lemma poly_const [poly_intros]: "poly_of_degree d (\<lambda>x. c)"
  by (rule poly_of_degreeI [of "[c]"]) auto

lemma horner_map_times: "horner (map ((*) c) cs) x = c * horner cs x"
  by (induction cs) (auto simp: algebra_simps)

lemma horner_map2_plus:
  "length as = length bs \<Longrightarrow> horner (map2 (+) as bs) x = horner as x + horner bs x"
  by (induction as bs rule: list_induct2) (auto simp: algebra_simps)

lemma poly_scale [poly_intros]: "poly_of_degree d f \<Longrightarrow> poly_of_degree d (\<lambda>x. c * f x)"
  by (erule poly_of_degreeE, rule poly_of_degreeI [of "map ((*) c) _"])
    (auto simp: horner_map_times)

lemma poly_add [poly_intros]:
  assumes "poly_of_degree d f" and "poly_of_degree d g"
  shows "poly_of_degree d (\<lambda>x. f x + g x)"
proof -
  obtain as bs where "length as = Suc d" "f = horner as" "length bs = Suc d" "g = horner bs"
    using assms by (metis poly_of_degreeE)
  then show ?thesis
    by (intro poly_of_degreeI [of "map2 (+) as bs"]) (auto simp: horner_map2_plus)
qed

lemma poly_uminus [poly_intros]: "poly_of_degree d f \<Longrightarrow> poly_of_degree d (\<lambda>x. - f x)"
  using poly_scale [of d f "- 1"] by simp

lemma poly_diff [poly_intros]:
  "poly_of_degree d f \<Longrightarrow> poly_of_degree d g \<Longrightarrow> poly_of_degree d (\<lambda>x. f x - g x)"
  using poly_add [OF _ poly_uminus, of d f g] by simp

lemma poly_sum [poly_intros]:
  "(\<And>i. i \<in> A \<Longrightarrow> poly_of_degree d (f i)) \<Longrightarrow> poly_of_degree d (\<lambda>x. \<Sum>i\<in>A. f i x)"
  by (induction A rule: infinite_finite_induct) (simp_all add: poly_intros)

lemma poly_times_linear:
  assumes "poly_of_degree d f"
  shows "poly_of_degree (Suc d) (\<lambda>x. (a + b * x) * f x)"
proof -
  obtain cs where cs: "length cs = Suc d" "f = horner cs" using assms by (rule poly_of_degreeE)
  have "poly_of_degree (Suc d) (\<lambda>x. x * f x)"
    using cs by (intro poly_of_degreeI [of "0 # cs"]) auto
  moreover have "poly_of_degree (Suc d) f" using assms by (rule poly_mono) simp
  ultimately have "poly_of_degree (Suc d) (\<lambda>x. a * f x + b * (x * f x))"
    by (intro poly_intros)
  then show ?thesis by (simp add: algebra_simps)
qed

lemma poly_prod_linear:
  "finite A \<Longrightarrow> card A \<le> d \<Longrightarrow> poly_of_degree d (\<lambda>x. \<Prod>i\<in>A. (a i + b i * x))"
proof (induction A arbitrary: d rule: finite_induct)
  case empty
  show ?case by (simp add: poly_intros)
next
  case (insert i A)
  then obtain e where d: "d = Suc e" "card A \<le> e" by (cases d) auto
  then have "poly_of_degree e (\<lambda>x. \<Prod>i\<in>A. (a i + b i * x))" using insert.IH by blast
  from poly_times_linear [OF this, of "a i" "b i"] show ?case using insert d by simp
qed

lemma poly_prod_list_linear:
  "length ps \<le> d \<Longrightarrow> poly_of_degree d (\<lambda>x. \<Prod>p\<leftarrow>ps. (fst p + snd p * x))"
proof (induction ps arbitrary: d)
  case (Cons p ps)
  then obtain e where d: "d = Suc e" "length ps \<le> e" by (cases d) auto
  then have "poly_of_degree e (\<lambda>x. \<Prod>p\<leftarrow>ps. (fst p + snd p * x))" using Cons.IH by blast
  from poly_times_linear [OF this, of "fst p" "snd p"] show ?case using d by simp
qed (simp add: poly_intros)

subsection \<open>Roots\<close>

lemma horner_factor:
  "\<exists>qs. length qs = length cs - 1 \<and> (\<forall>x. horner cs x = horner cs a + (x - a) * horner qs x)"
proof (induction cs)
  case (Cons c cs)
  then obtain qs where qs: "length qs = length cs - 1"
    and eq: "\<And>x. horner cs x = horner cs a + (x - a) * horner qs x" by blast
  show ?case
  proof (cases "cs = []")
    case False
    have "horner (c # cs) x = horner (c # cs) a + (x - a) * horner (horner cs a # qs) x" for x
      unfolding horner.simps by (subst eq [of x]) (simp add: algebra_simps)
    moreover have "length (horner cs a # qs) = length (c # cs) - 1"
      using qs False by (cases cs) auto
    ultimately show ?thesis by blast
  qed simp
qed simp

lemma poly_root_factor:
  assumes "poly_of_degree (Suc d) f" and "f a = 0"
  obtains q where "poly_of_degree d q" and "\<And>x. f x = (x - a) * q x"
proof -
  obtain cs where cs: "length cs = Suc (Suc d)" "f = horner cs"
    using assms(1) by (rule poly_of_degreeE)
  then obtain qs where "length qs = Suc d" "\<And>x. f x = f a + (x - a) * horner qs x"
    using horner_factor [of cs a] by auto
  then show thesis
    using that [of "horner qs"] poly_of_degreeI [of qs d "horner qs"] assms(2) by simp
qed

text \<open>A polynomial function that is not zero everywhere has at most as many roots as its degree.\<close>

lemma poly_roots:
  fixes f :: "'f::idom \<Rightarrow> 'f"
  assumes "poly_of_degree d f" and "f y \<noteq> 0"
  shows "finite {x. f x = 0} \<and> card {x. f x = 0} \<le> d"
  using assms
proof (induction d arbitrary: f)
  case 0
  then obtain c where "f = (\<lambda>x. c)"
    by (elim poly_of_degreeE) (auto simp: length_Suc_conv fun_eq_iff)
  with 0 have "{x. f x = 0} = {}" by auto
  then show ?case by simp
next
  case (Suc d)
  show ?case
  proof (cases "\<exists>a. f a = 0")
    case True
    then obtain a where "f a = 0" ..
    then obtain q where q: "poly_of_degree d q" and f: "\<And>x. f x = (x - a) * q x"
      using Suc.prems(1) poly_root_factor by blast
    from f Suc.prems(2) have "q y \<noteq> 0" by auto
    with Suc.IH q have IH: "finite {x. q x = 0}" "card {x. q x = 0} \<le> d" by auto
    have "{x. f x = 0} = insert a {x. q x = 0}" by (auto simp: f)
    with IH show ?thesis using card_insert_le_m1 [of "Suc d" "{x. q x = 0}" a] by simp
  qed simp
qed

corollary poly_zero:
  fixes f :: "'f::idom \<Rightarrow> 'f"
  assumes "poly_of_degree d f" and "finite A" and "d < card A" and "\<And>x. x \<in> A \<Longrightarrow> f x = 0"
  shows "f y = 0"
proof (rule ccontr)
  assume "f y \<noteq> 0"
  with assms(1) have *: "finite {x. f x = 0}" "card {x. f x = 0} \<le> d" using poly_roots by auto
  moreover have "A \<subseteq> {x. f x = 0}" using assms(4) by auto
  ultimately have "card A \<le> d" using card_mono le_trans by blast
  with assms(3) show False by simp
qed

corollary poly_agree:
  fixes f :: "'f::idom \<Rightarrow> 'f"
  assumes "poly_of_degree d f" and "poly_of_degree d g" and "f y \<noteq> g y"
  shows "finite {x. f x = g x} \<and> card {x. f x = g x} \<le> d"
  using poly_roots [OF poly_diff [OF assms(1, 2)], of y] assms(3) by simp

subsection \<open>Interpolation\<close>

text \<open>The nodes are the images of \<open>0, ..., d\<close>; they are distinct where the characteristic is larger.\<close>

definition nodes_distinct :: "'f::field itself \<Rightarrow> nat \<Rightarrow> bool" where
  "nodes_distinct t d \<longleftrightarrow> inj_on (of_nat :: nat \<Rightarrow> 'f) {..d}"

definition lagrange_basis :: "nat \<Rightarrow> nat \<Rightarrow> 'f::field \<Rightarrow> 'f" where
  "lagrange_basis d j x = (\<Prod>i\<in>{..d} - {j}. (x - of_nat i) / (of_nat j - of_nat i))"

definition interpolate :: "'f::field list \<Rightarrow> 'f \<Rightarrow> 'f" where
  "interpolate ys x = (\<Sum>j<length ys. ys ! j * lagrange_basis (length ys - 1) j x)"

lemma poly_lagrange_basis: "j \<le> d \<Longrightarrow> poly_of_degree d (lagrange_basis d j)"
proof -
  assume "j \<le> d"
  then have "card ({..d} - {j}) \<le> d" by simp
  then have "poly_of_degree d (\<lambda>x. \<Prod>i\<in>{..d} - {j}.
      (- of_nat i / (of_nat j - of_nat i) + 1 / (of_nat j - of_nat i) * x))"
    by (intro poly_prod_linear) auto
  moreover have "(\<lambda>x. \<Prod>i\<in>{..d} - {j}.
      (- of_nat i / (of_nat j - of_nat i) + 1 / (of_nat j - of_nat i) * x)) = lagrange_basis d j"
    by (auto simp: lagrange_basis_def fun_eq_iff diff_divide_distrib intro!: prod.cong)
  ultimately show ?thesis by (rule back_subst)
qed

lemma lagrange_basis_node:
  assumes "nodes_distinct TYPE('f::field) d" and "j \<le> d" and "k \<le> d"
  shows "lagrange_basis d j (of_nat k :: 'f) = (if k = j then 1 else 0)"
proof (cases "k = j")
  case True
  have "of_nat j - of_nat i \<noteq> (0 :: 'f)" if "i \<in> {..d} - {j}" for i
    using assms that by (auto simp: nodes_distinct_def inj_on_def)
  with True show ?thesis by (auto simp: lagrange_basis_def intro!: prod.neutral)
next
  case False
  then have "(\<Prod>i\<in>{..d} - {j}. ((of_nat k :: 'f) - of_nat i) / (of_nat j - of_nat i)) = 0"
    using assms by (intro prod_zero) (auto intro!: bexI [of _ k])
  with False show ?thesis by (simp add: lagrange_basis_def)
qed

lemma poly_interpolate: "length ys = Suc d \<Longrightarrow> poly_of_degree d (interpolate ys)"
  unfolding interpolate_def by (auto intro!: poly_intros poly_lagrange_basis)

lemma interpolate_node:
  assumes "nodes_distinct TYPE('f::field) d" and "length ys = Suc d" and "k \<le> d"
  shows "interpolate ys (of_nat k :: 'f) = ys ! k"
proof -
  have "interpolate ys (of_nat k :: 'f) = (\<Sum>j<Suc d. ys ! j * (if k = j then 1 else 0))"
    unfolding interpolate_def using assms
    by (intro sum.cong) (auto simp: lagrange_basis_node)
  also have "\<dots> = ys ! k" using assms(3) by (simp add: if_distrib del: sum.lessThan_Suc cong: if_cong)
  finally show ?thesis .
qed

text \<open>A polynomial function is determined by its values at the nodes.\<close>

lemma interpolate_unique:
  fixes f :: "'f::field \<Rightarrow> 'f"
  assumes "nodes_distinct TYPE('f) d" and "poly_of_degree d f"
    and "length ys = Suc d" and "\<And>k. k \<le> d \<Longrightarrow> ys ! k = f (of_nat k)"
  shows "interpolate ys x = f x"
proof -
  have "interpolate ys x - f x = 0"
  proof (rule poly_zero [where f = "\<lambda>x. interpolate ys x - f x" and A = "of_nat ` {..d}" and d = d])
    show "poly_of_degree d (\<lambda>x. interpolate ys x - f x)"
      using assms by (intro poly_intros poly_interpolate)
    show "d < card (of_nat ` {..d} :: 'f set)"
      using assms(1) by (simp add: nodes_distinct_def card_image)
  qed (auto simp: interpolate_node [OF assms(1) assms(3)] assms(4))
  then show ?thesis by simp
qed

lemma nodes_distinct_le: "nodes_distinct t e \<Longrightarrow> d \<le> e \<Longrightarrow> nodes_distinct t d"
  by (auto simp: nodes_distinct_def intro: inj_on_subset)

lemma nodes_distinct_diff:
  "nodes_distinct TYPE('f::field) d \<Longrightarrow> i \<le> d \<Longrightarrow> j \<le> d \<Longrightarrow> i \<noteq> j \<Longrightarrow> of_nat i - of_nat j \<noteq> (0 :: 'f)"
  by (auto simp: nodes_distinct_def inj_on_def)

end
