(* ===== verification/Mle.thy ===== *)
theory Mle
  imports Prelude
begin

text \<open>
  \<open>multilinear_extensions/src/smart_slice.rs\<close>, \<open>mle.rs\<close> and \<open>util.rs\<close>: slices that are borrowed, mutably borrowed or
  owned, and multilinear polynomials given by their values on the Boolean hypercube. A polynomial of
  \<open>n\<close> variables is the vector of its \<open>2 ^ n\<close> values, the bits of an index being the variables,
  lowest first. \<open>fix_variables\<close> binds the first variables to field elements, by a fresh vector or in
  place. An element of the base field is represented by its image in the extension field, so
  \<open>Base\<close> and \<open>Ext\<close> carry the same type and differ in what the code does with them.
\<close>

datatype algebra_panic =
    AssertionFailed
  | IndexOutOfBounds
  | UnreachableCode
  | UnimplementedCase
  | ImmutableSlice
  | CloneOfMutableSlice
  | UninitialisedRead
  | DivisionByZero
  | UnwrapOfNone

type_synonym 'a checked = "algebra_panic + 'a"

definition assert_that :: "bool \<Rightarrow> 'a checked \<Rightarrow> 'a checked" where
  "assert_that b m = (if b then m else Inl AssertionFailed)"

definition checked_nth :: "'a list \<Rightarrow> nat \<Rightarrow> 'a checked" where
  "checked_nth xs i = (if i < length xs then Inr (xs ! i) else Inl IndexOutOfBounds)"

primrec mapE :: "('a \<Rightarrow> 'e + 'b) \<Rightarrow> 'a list \<Rightarrow> 'e + 'b list" where
  "mapE f [] = Inr []"
| "mapE f (x # xs) = bindE (f x) (\<lambda>y. bindE (mapE f xs) (\<lambda>ys. Inr (y # ys)))"

primrec foldE :: "('b \<Rightarrow> 'a \<Rightarrow> 'e + 'b) \<Rightarrow> 'b \<Rightarrow> 'a list \<Rightarrow> 'e + 'b" where
  "foldE f z [] = Inr z"
| "foldE f z (x # xs) = bindE (f z x) (\<lambda>y. foldE f y xs)"

lemma assert_that_simps [simp]:
  "b \<Longrightarrow> assert_that b m = m" "\<not> b \<Longrightarrow> assert_that b m = Inl AssertionFailed"
  by (simp_all add: assert_that_def)

lemma assert_that_Inr [simp]: "assert_that b m = Inr y \<longleftrightarrow> b \<and> m = Inr y"
  by (simp add: assert_that_def)

lemma checked_nth_in [simp]: "i < length xs \<Longrightarrow> checked_nth xs i = Inr (xs ! i)"
  by (simp add: checked_nth_def)

lemma mapE_pure: "(\<And>x. x \<in> set xs \<Longrightarrow> f x = Inr (g x)) \<Longrightarrow> mapE f xs = Inr (map g xs)"
  by (induction xs) auto

lemma mapE_length: "mapE f xs = Inr ys \<Longrightarrow> length ys = length xs"
  by (induction xs arbitrary: ys) (auto simp: bindE_success)

lemma mapE_nth: "mapE f xs = Inr ys \<Longrightarrow> i < length xs \<Longrightarrow> f (xs ! i) = Inr (ys ! i)"
  by (induction xs arbitrary: ys i) (auto simp: bindE_success nth_Cons split: nat.splits)

lemma foldE_append: "foldE f z (xs @ ys) = bindE (foldE f z xs) (\<lambda>w. foldE f w ys)"
  by (induction xs arbitrary: z) (auto simp: bindE_def split: sum.splits)

text \<open>Slices.\<close>

datatype 'a SmartSlice = Borrowed "'a list" | BorrowedMut "'a list" | Owned "'a list"

definition default_slice :: "'a SmartSlice" where
  "default_slice = Owned []"

primrec as_slice :: "'a SmartSlice \<Rightarrow> 'a list" where
  "as_slice (Borrowed xs) = xs"
| "as_slice (BorrowedMut xs) = xs"
| "as_slice (Owned xs) = xs"

text \<open>A change of the contents through the reference \<open>to_mut\<close> returns.\<close>

primrec to_mut :: "'a SmartSlice \<Rightarrow> ('a list \<Rightarrow> 'a list checked) \<Rightarrow> 'a SmartSlice checked" where
  "to_mut (Borrowed xs) f = Inl ImmutableSlice"
| "to_mut (BorrowedMut xs) f = bindE (f xs) (\<lambda>ys. Inr (BorrowedMut ys))"
| "to_mut (Owned xs) f = bindE (f xs) (\<lambda>ys. Inr (Owned ys))"

definition slice_len :: "'a SmartSlice \<Rightarrow> nat" where
  "slice_len s = length (as_slice s)"

definition slice_is_empty :: "'a SmartSlice \<Rightarrow> bool" where
  "slice_is_empty s \<longleftrightarrow> slice_len s = 0"

primrec to_vec :: "'a SmartSlice \<Rightarrow> 'a list" where
  "to_vec (Owned xs) = xs"
| "to_vec (Borrowed xs) = xs"
| "to_vec (BorrowedMut xs) = xs"

primrec truncate_mut :: "'a SmartSlice \<Rightarrow> nat \<Rightarrow> 'a SmartSlice checked" where
  "truncate_mut (Owned xs) n = Inr (Owned (take n xs))"
| "truncate_mut (BorrowedMut xs) n = Inr (BorrowedMut (take (min (length xs) n) xs))"
| "truncate_mut (Borrowed xs) n = Inl ImmutableSlice"

primrec slice_extend :: "'a SmartSlice \<Rightarrow> 'a list \<Rightarrow> 'a SmartSlice checked" where
  "slice_extend (Owned xs) ys = Inr (Owned (xs @ ys))"
| "slice_extend (Borrowed xs) ys = Inl ImmutableSlice"
| "slice_extend (BorrowedMut xs) ys = Inl ImmutableSlice"

primrec slice_clone :: "'a SmartSlice \<Rightarrow> 'a SmartSlice checked" where
  "slice_clone (Borrowed xs) = Inr (Borrowed xs)"
| "slice_clone (BorrowedMut xs) = Inl CloneOfMutableSlice"
| "slice_clone (Owned xs) = Inr (Owned xs)"

definition slice_eq :: "'a SmartSlice \<Rightarrow> 'a SmartSlice \<Rightarrow> bool" where
  "slice_eq s t \<longleftrightarrow> as_slice s = as_slice t"

text \<open>Evaluation vectors.\<close>

datatype 'f FieldType = Base "'f SmartSlice" | Ext "'f SmartSlice" | Unreachable

primrec ft_len :: "'f FieldType \<Rightarrow> nat" where
  "ft_len (Base s) = slice_len s"
| "ft_len (Ext s) = slice_len s"
| "ft_len Unreachable = 0"

primrec ft_is_empty :: "'f FieldType \<Rightarrow> bool" where
  "ft_is_empty (Base s) = slice_is_empty s"
| "ft_is_empty (Ext s) = slice_is_empty s"
| "ft_is_empty Unreachable = True"

fun as_borrowed_view :: "'f FieldType \<Rightarrow> 'f FieldType checked" where
  "as_borrowed_view (Base (Borrowed xs)) = Inr (Base (Borrowed xs))"
| "as_borrowed_view (Ext (Borrowed xs)) = Inr (Ext (Borrowed xs))"
| "as_borrowed_view _ = Inl UnreachableCode"

primrec ft_clone :: "'f FieldType \<Rightarrow> 'f FieldType checked" where
  "ft_clone (Base s) = bindE (slice_clone s) (\<lambda>t. Inr (Base t))"
| "ft_clone (Ext s) = bindE (slice_clone s) (\<lambda>t. Inr (Ext t))"
| "ft_clone Unreachable = Inr Unreachable"

record 'f MultilinearExtension =
  evaluations :: "'f FieldType"
  num_vars :: nat

definition mle_clone :: "'f MultilinearExtension \<Rightarrow> 'f MultilinearExtension checked" where
  "mle_clone m = bindE (ft_clone (evaluations m)) (\<lambda>e. Inr (m\<lparr>evaluations := e\<rparr>))"

primrec slice_is_mut :: "'a SmartSlice \<Rightarrow> bool" where
  "slice_is_mut (Borrowed xs) = False"
| "slice_is_mut (BorrowedMut xs) = True"
| "slice_is_mut (Owned xs) = True"

definition is_mut :: "'f MultilinearExtension \<Rightarrow> bool" where
  "is_mut m = (case evaluations m of
     Base s \<Rightarrow> slice_is_mut s | Ext s \<Rightarrow> slice_is_mut s | Unreachable \<Rightarrow> False)"

definition from_field_type :: "nat \<Rightarrow> 'f FieldType \<Rightarrow> 'f MultilinearExtension" where
  "from_field_type n ft = \<lparr>evaluations = ft, num_vars = n\<rparr>"

definition from_field_type_borrowed :: "nat \<Rightarrow> 'f FieldType \<Rightarrow> 'f MultilinearExtension checked" where
  "from_field_type_borrowed n ft =
     bindE (as_borrowed_view ft) (\<lambda>e. Inr \<lparr>evaluations = e, num_vars = n\<rparr>)"

definition from_evaluations_slice :: "nat \<Rightarrow> 'f list \<Rightarrow> 'f MultilinearExtension checked" where
  "from_evaluations_slice n xs = assert_that (length xs = 2 ^ n)
     (Inr \<lparr>evaluations = Base (Borrowed xs), num_vars = n\<rparr>)"

definition from_evaluations_vec :: "nat \<Rightarrow> 'f list \<Rightarrow> 'f MultilinearExtension checked" where
  "from_evaluations_vec n xs = assert_that (length xs = 2 ^ n)
     (Inr \<lparr>evaluations = Base (Owned xs), num_vars = n\<rparr>)"

definition from_evaluations_ext_slice :: "nat \<Rightarrow> 'f list \<Rightarrow> 'f MultilinearExtension checked" where
  "from_evaluations_ext_slice n xs = assert_that (length xs = 2 ^ n)
     (Inr \<lparr>evaluations = Ext (Borrowed xs), num_vars = n\<rparr>)"

definition from_evaluations_ext_vec :: "nat \<Rightarrow> 'f list \<Rightarrow> 'f MultilinearExtension checked" where
  "from_evaluations_ext_vec n xs = assert_that (length xs = 2 ^ n)
     (Inr \<lparr>evaluations = Ext (Owned xs), num_vars = n\<rparr>)"

text \<open>The macro \<open>op_mle!\<close>, for an operation that treats both fields alike.\<close>

definition op_mle :: "'f MultilinearExtension \<Rightarrow> ('f list \<Rightarrow> 'a checked) \<Rightarrow> 'a checked" where
  "op_mle m f = (case evaluations m of
     Base s \<Rightarrow> f (as_slice s) | Ext s \<Rightarrow> f (as_slice s) | Unreachable \<Rightarrow> Inl UnreachableCode)"

text \<open>\<open>chunks(2)\<close> with \<open>point * (buf[1] - buf[0]) + buf[0]\<close>.\<close>

fun fold_chunks :: "'f::comm_ring_1 \<Rightarrow> 'f list \<Rightarrow> 'f list checked" where
  "fold_chunks r [] = Inr []"
| "fold_chunks r [x] = Inl IndexOutOfBounds"
| "fold_chunks r (x # y # xs) =
     bindE (fold_chunks r xs) (\<lambda>zs. Inr ((r * (y - x) + x) # zs))"

text \<open>The loop over even indices that writes the folded vector over the first half.\<close>

definition fold_step :: "'f::comm_ring_1 \<Rightarrow> 'f list \<Rightarrow> nat \<Rightarrow> 'f list checked" where
  "fold_step r xs b =
     bindE (checked_nth xs b) (\<lambda>lo. bindE (checked_nth xs (b + 1)) (\<lambda>hi.
       Inr (xs[b div 2 := lo + (hi - lo) * r])))"

definition even_indices :: "nat \<Rightarrow> nat list" where
  "even_indices n = map (\<lambda>i. 2 * i) [0..<(n + 1) div 2]"

definition fold_in_place :: "'f::comm_ring_1 \<Rightarrow> 'f list \<Rightarrow> 'f list checked" where
  "fold_in_place r xs = foldE (fold_step r) xs (even_indices (length xs))"

primrec fix_in_place_step :: "'f::comm_ring_1 FieldType \<Rightarrow> 'f \<Rightarrow> 'f FieldType checked" where
  "fix_in_place_step (Base s) r = bindE (fold_chunks r (as_slice s)) (\<lambda>ys. Inr (Ext (Owned ys)))"
| "fix_in_place_step (Ext s) r = bindE (to_mut s (fold_in_place r)) (\<lambda>t. Inr (Ext t))"
| "fix_in_place_step Unreachable r = Inl UnreachableCode"

definition finish_in_place :: "nat \<Rightarrow> 'f FieldType \<Rightarrow> 'f MultilinearExtension checked" where
  "finish_in_place n ft = (case ft of
     Base s \<Rightarrow> Inl UnreachableCode
   | Ext s \<Rightarrow> bindE (truncate_mut s (2 ^ n)) (\<lambda>t. Inr \<lparr>evaluations = Ext t, num_vars = n\<rparr>)
   | Unreachable \<Rightarrow> Inl UnreachableCode)"

definition fix_variables_in_place ::
  "'f::comm_ring_1 MultilinearExtension \<Rightarrow> 'f list \<Rightarrow> 'f MultilinearExtension checked" where
  "fix_variables_in_place m partial_point =
     assert_that (is_mut m) (assert_that (length partial_point \<le> num_vars m)
       (bindE (foldE fix_in_place_step (evaluations m) partial_point)
         (finish_in_place (num_vars m - length partial_point))))"

datatype 'a Cow = CowBorrowed 'a | CowOwned 'a

definition fix_first_variable ::
  "'f::comm_ring_1 MultilinearExtension \<Rightarrow> 'f \<Rightarrow> 'f MultilinearExtension checked" where
  "fix_first_variable m r =
     op_mle m (\<lambda>e. bindE (fold_chunks r e) (from_evaluations_ext_vec (num_vars m - 1)))"

primrec into_owned :: "'f MultilinearExtension Cow \<Rightarrow> 'f MultilinearExtension checked" where
  "into_owned (CowBorrowed m) = mle_clone m"
| "into_owned (CowOwned m) = Inr m"

primrec cow_mle :: "'a Cow \<Rightarrow> 'a" where
  "cow_mle (CowBorrowed m) = m"
| "cow_mle (CowOwned m) = m"

primrec fix_cow ::
  "('f::comm_ring_1 MultilinearExtension \<Rightarrow> 'f list \<Rightarrow> 'f MultilinearExtension checked) \<Rightarrow>
   'f MultilinearExtension Cow \<Rightarrow> 'f \<Rightarrow> 'f MultilinearExtension Cow checked" where
  "fix_cow in_place (CowBorrowed m) r = bindE (fix_first_variable m r) (\<lambda>p. Inr (CowOwned p))"
| "fix_cow in_place (CowOwned p) r = bindE (in_place p [r]) (\<lambda>p. Inr (CowOwned p))"

definition fix_variables_with ::
  "('f::comm_ring_1 MultilinearExtension \<Rightarrow> 'f list \<Rightarrow> 'f MultilinearExtension checked) \<Rightarrow>
   'f MultilinearExtension \<Rightarrow> 'f list \<Rightarrow> 'f MultilinearExtension checked" where
  "fix_variables_with in_place m partial_point =
     assert_that (length partial_point \<le> num_vars m)
       (bindE (foldE (fix_cow in_place) (CowBorrowed m) partial_point) (\<lambda>p.
          assert_that (num_vars (cow_mle p) = num_vars m - length partial_point) (into_owned p)))"

definition fix_variables ::
  "'f::comm_ring_1 MultilinearExtension \<Rightarrow> 'f list \<Rightarrow> 'f MultilinearExtension checked" where
  "fix_variables = fix_variables_with fix_variables_in_place"

text \<open>
  The parallel versions. Each pair is folded into its first cell, by threads that own the pair, and a
  sequential loop then moves the even cells to the front.
\<close>

fun fold_pairs_in_cells :: "'f::comm_ring_1 \<Rightarrow> 'f list \<Rightarrow> 'f list checked" where
  "fold_pairs_in_cells r [] = Inr []"
| "fold_pairs_in_cells r [x] = Inl IndexOutOfBounds"
| "fold_pairs_in_cells r (x # y # xs) =
     bindE (fold_pairs_in_cells r xs) (\<lambda>zs. Inr ((x + (y - x) * r) # y # zs))"

definition compact_step :: "'f list \<Rightarrow> nat \<Rightarrow> 'f list checked" where
  "compact_step xs i =
     bindE (checked_nth xs (2 * i)) (\<lambda>v. if i < length xs then Inr (xs[i := v]) else Inl IndexOutOfBounds)"

primrec fix_in_place_step_parallel ::
  "nat \<Rightarrow> 'f::comm_ring_1 FieldType \<Rightarrow> 'f \<Rightarrow> 'f FieldType checked" where
  "fix_in_place_step_parallel max_log2_size (Base s) r =
     bindE (fold_chunks r (as_slice s)) (\<lambda>ys. Inr (Ext (Owned ys)))"
| "fix_in_place_step_parallel max_log2_size (Ext s) r =
     bindE (to_mut s (\<lambda>xs. bindE (fold_pairs_in_cells r xs) (\<lambda>ys.
       foldE compact_step ys [0..<2 ^ (max_log2_size - 1)]))) (\<lambda>t. Inr (Ext t))"
| "fix_in_place_step_parallel max_log2_size Unreachable r = Inl UnreachableCode"

definition fix_variables_in_place_parallel ::
  "'f::comm_ring_1 MultilinearExtension \<Rightarrow> 'f list \<Rightarrow> 'f MultilinearExtension checked" where
  "fix_variables_in_place_parallel m partial_point =
     assert_that (is_mut m) (assert_that (length partial_point \<le> num_vars m)
       (bindE (foldE (\<lambda>ft (i, r). fix_in_place_step_parallel (num_vars m - i) ft r)
           (evaluations m) (enumerate 0 partial_point))
         (finish_in_place (num_vars m - length partial_point))))"

definition fix_variables_parallel ::
  "'f::comm_ring_1 MultilinearExtension \<Rightarrow> 'f list \<Rightarrow> 'f MultilinearExtension checked" where
  "fix_variables_parallel = fix_variables_with fix_variables_in_place_parallel"

definition evaluate :: "'f::comm_ring_1 MultilinearExtension \<Rightarrow> 'f list \<Rightarrow> 'f checked" where
  "evaluate m point = assert_that (num_vars m = length point)
     (bindE (fix_variables_parallel m point) (\<lambda>p.
        op_mle p (\<lambda>f. assert_that (length f = 1) (checked_nth f 0))))"

text \<open>Views, owned copies, and the concatenation of two evaluation vectors.\<close>

definition ceil_log2 :: "nat \<Rightarrow> nat checked" where
  "ceil_log2 x = assert_that (0 < x) (Inr (bit_length (x - 1)))"

fun merge :: "'f MultilinearExtension \<Rightarrow> 'f MultilinearExtension \<Rightarrow> 'f MultilinearExtension checked" where
  "merge m rhs = (case (evaluations m, evaluations rhs) of
     (Base e1, Base e2) \<Rightarrow> bindE (slice_extend e1 (to_vec e2)) (\<lambda>e.
       bindE (ceil_log2 (slice_len e)) (\<lambda>n. Inr \<lparr>evaluations = Base e, num_vars = n\<rparr>))
   | (Ext e1, Ext e2) \<Rightarrow> bindE (slice_extend e1 (to_vec e2)) (\<lambda>e.
       bindE (ceil_log2 (slice_len e)) (\<lambda>n. Inr \<lparr>evaluations = Ext e, num_vars = n\<rparr>))
   | (Unreachable, Base b) \<Rightarrow> Inr \<lparr>evaluations = Base b, num_vars = num_vars rhs\<rparr>
   | (Unreachable, Ext b) \<Rightarrow> Inr \<lparr>evaluations = Ext b, num_vars = num_vars rhs\<rparr>
   | _ \<Rightarrow> Inl UnreachableCode)"

fun trailing_zeros :: "nat \<Rightarrow> nat" where
  "trailing_zeros n = (if n = 0 then 64 else if odd n then 0 else Suc (trailing_zeros (n div 2)))"

declare trailing_zeros.simps [simp del]

definition bit_decompose :: "64 word \<Rightarrow> nat \<Rightarrow> bool list" where
  "bit_decompose input num_var =
     fst (fold (\<lambda>_ (res, i). (res @ [i AND 1 = 1], drop_bit 1 i)) [0..<num_var] ([], input))"

definition transpose_vec :: "'a list list \<Rightarrow> 'a list list checked" where
  "transpose_vec v = assert_that (v \<noteq> [])
     (bindE (foldE (\<lambda>(rows, iters) _.
        bindE (mapE (\<lambda>xs. case xs of [] \<Rightarrow> Inl UnwrapOfNone | x # xs \<Rightarrow> Inr (x, xs)) iters) (\<lambda>ps.
        Inr (rows @ [map fst ps], map snd ps))) ([], v) [0..<length (hd v)]) (\<lambda>(rows, _). Inr rows))"

text \<open>The assertion on \<open>num_chunks\<close>, after the division by it.\<close>

definition with_chunks :: "nat \<Rightarrow> nat \<Rightarrow> bool \<Rightarrow> 'a checked \<Rightarrow> 'a checked" where
  "with_chunks total_len num_chunks index_ok m =
     (if num_chunks = 0 then Inl DivisionByZero
      else assert_that (total_len mod num_chunks = 0 \<and> 0 < total_len div num_chunks \<and> index_ok) m)"

definition sub_slice :: "'a SmartSlice \<Rightarrow> nat \<Rightarrow> nat \<Rightarrow> 'a list" where
  "sub_slice s start sz = take sz (drop start (as_slice s))"

definition as_view_slice ::
  "'f MultilinearExtension \<Rightarrow> nat \<Rightarrow> nat \<Rightarrow> 'f MultilinearExtension checked" where
  "as_view_slice m num_chunks chunk_index =
     (let total_len = ft_len (evaluations m);
          chunk_size = total_len div num_chunks;
          start = chunk_size * chunk_index
      in with_chunks total_len num_chunks (chunk_index < num_chunks)
           (Inr \<lparr>evaluations = (case evaluations m of
                   Base s \<Rightarrow> Base (Borrowed (sub_slice s start chunk_size))
                 | Ext s \<Rightarrow> Ext (Borrowed (sub_slice s start chunk_size))
                 | Unreachable \<Rightarrow> Unreachable),
                num_vars = num_vars m - trailing_zeros num_chunks\<rparr>))"

definition as_view :: "'f MultilinearExtension \<Rightarrow> 'f MultilinearExtension checked" where
  "as_view m = as_view_slice m 1 0"

text \<open>A mutable view is the mutably borrowed part; what is done to it is done to the original.\<close>

definition as_view_slice_mut ::
  "'f MultilinearExtension \<Rightarrow> nat \<Rightarrow> nat \<Rightarrow> 'f MultilinearExtension checked" where
  "as_view_slice_mut m num_chunks chunk_index =
     (let total_len = ft_len (evaluations m);
          chunk_size = total_len div num_chunks;
          start = chunk_size * chunk_index;
          part = (\<lambda>s. if slice_is_mut s then Inr (BorrowedMut (sub_slice s start chunk_size))
                     else Inl UnimplementedCase)
      in with_chunks total_len num_chunks (chunk_index < num_chunks)
           (bindE (case evaluations m of
                Base s \<Rightarrow> bindE (part s) (\<lambda>t. Inr (Base t))
              | Ext s \<Rightarrow> bindE (part s) (\<lambda>t. Inr (Ext t))
              | Unreachable \<Rightarrow> Inl UnimplementedCase)
            (\<lambda>e. Inr \<lparr>evaluations = e, num_vars = num_vars m - trailing_zeros num_chunks\<rparr>)))"

definition as_view_mut :: "'f MultilinearExtension \<Rightarrow> 'f MultilinearExtension checked" where
  "as_view_mut m = as_view_slice_mut m 1 0"

fun split_chunks :: "nat \<Rightarrow> nat \<Rightarrow> 'a list \<Rightarrow> 'a list list" where
  "split_chunks 0 sz xs = []"
| "split_chunks (Suc n) sz xs = take sz xs # split_chunks n sz (drop sz xs)"

definition as_view_chunks ::
  "'f MultilinearExtension \<Rightarrow> nat \<Rightarrow> 'f MultilinearExtension list checked" where
  "as_view_chunks m num_chunks =
     (let total_len = ft_len (evaluations m); chunk_size = total_len div num_chunks
      in with_chunks total_len num_chunks True
           (bindE (ceil_log2 num_chunks) (\<lambda>log2.
              case evaluations m of
                Base s \<Rightarrow> Inr (map (\<lambda>chunk. \<lparr>evaluations = Base (Borrowed chunk), num_vars = num_vars m - log2\<rparr>)
                            (split_chunks num_chunks chunk_size (as_slice s)))
              | Ext s \<Rightarrow> Inr (map (\<lambda>chunk. \<lparr>evaluations = Ext (Borrowed chunk), num_vars = num_vars m - log2\<rparr>)
                            (split_chunks num_chunks chunk_size (as_slice s)))
              | Unreachable \<Rightarrow> Inl UnreachableCode)))"

definition as_view_chunks_mut ::
  "'f MultilinearExtension \<Rightarrow> nat \<Rightarrow> 'f MultilinearExtension list checked" where
  "as_view_chunks_mut m num_chunks =
     (let total_len = ft_len (evaluations m); chunk_size = total_len div num_chunks;
          split = (\<lambda>s. if slice_is_mut s then Inr (split_chunks num_chunks chunk_size (as_slice s))
                      else Inl UnreachableCode)
      in with_chunks total_len num_chunks True
           (bindE (ceil_log2 num_chunks) (\<lambda>log2.
              case evaluations m of
                Base s \<Rightarrow> bindE (split s) (\<lambda>cs. Inr (map (\<lambda>chunk.
                  \<lparr>evaluations = Base (BorrowedMut chunk), num_vars = num_vars m - log2\<rparr>) cs))
              | Ext s \<Rightarrow> bindE (split s) (\<lambda>cs. Inr (map (\<lambda>chunk.
                  \<lparr>evaluations = Ext (BorrowedMut chunk), num_vars = num_vars m - log2\<rparr>) cs))
              | Unreachable \<Rightarrow> Inl UnreachableCode)))"

definition as_owned :: "'f MultilinearExtension \<Rightarrow> 'f MultilinearExtension" where
  "as_owned m = m\<lparr>evaluations := (case evaluations m of
     Base s \<Rightarrow> Base (Owned (to_vec s)) | Ext s \<Rightarrow> Ext (Owned (to_vec s)) | Unreachable \<Rightarrow> Unreachable)\<rparr>"

definition get_ext_field_vec :: "'f MultilinearExtension \<Rightarrow> 'f list checked" where
  "get_ext_field_vec m = (case evaluations m of Ext s \<Rightarrow> Inr (as_slice s) | _ \<Rightarrow> Inl UnreachableCode)"

definition get_base_field_vec :: "'f MultilinearExtension \<Rightarrow> 'f list checked" where
  "get_base_field_vec m = (case evaluations m of Base s \<Rightarrow> Inr (as_slice s) | _ \<Rightarrow> Inl UnreachableCode)"

end
