(* ===== verification/Extrapolate.thy ===== *)
theory Extrapolate
  imports Univariate Mle
begin

text \<open>
  \<open>sumcheck/src/util.rs\<close> and \<open>extrapolate.rs\<close>: the value at a point of the polynomial with given
  values at \<open>0, ..., d\<close>, by barycentric formulas unrolled for \<open>d\<close> from 1 to 4, and the extension of
  such a vector to larger nodes by tables of normalised weights. Division by zero is the panic of
  \<open>Field::inverse\<close>. Both are shown to compute \<open>interpolate\<close> of \<open>Univariate\<close>; the unrolled form panics
  where the point is a node.
\<close>

definition inverse_checked :: "'f::field \<Rightarrow> 'f checked" where
  "inverse_checked x = (if x = 0 then Inl DivisionByZero else Inr (inverse x))"

definition div_checked :: "'f::field \<Rightarrow> 'f \<Rightarrow> 'f checked" where
  "div_checked x y = bindE (inverse_checked y) (\<lambda>i. Inr (x * i))"

subsection \<open>The unrolled formulas\<close>

definition extrapolate_uni_poly_deg_1 :: "'f::field list \<Rightarrow> 'f \<Rightarrow> 'f checked" where
  "extrapolate_uni_poly_deg_1 p_i eval_at =
     (let x0 = 0; x1 = 1; w0 = - 1; w1 = 1;
          d0 = eval_at - x0; d1 = eval_at - x1;
          l = d0 * d1 in
      bindE (inverse_checked d0) (\<lambda>inv_d0.
      bindE (inverse_checked d1) (\<lambda>inv_d1.
      let t0 = w0 * p_i ! 0 * inv_d0; t1 = w1 * p_i ! 1 * inv_d1
      in Inr (l * (t0 + t1)))))"

definition extrapolate_uni_poly_deg_2 :: "'f::field list \<Rightarrow> 'f \<Rightarrow> 'f checked" where
  "extrapolate_uni_poly_deg_2 p_i eval_at =
     (let x0 = 0; x1 = 1; x2 = 2 in
      bindE (div_checked 1 2) (\<lambda>w0.
      let w1 = - 1 in
      bindE (div_checked 1 2) (\<lambda>w2.
      let d0 = eval_at - x0; d1 = eval_at - x1; d2 = eval_at - x2;
          l = d0 * d1 * d2 in
      bindE (inverse_checked d0) (\<lambda>inv_d0.
      bindE (inverse_checked d1) (\<lambda>inv_d1.
      bindE (inverse_checked d2) (\<lambda>inv_d2.
      let t0 = w0 * p_i ! 0 * inv_d0; t1 = w1 * p_i ! 1 * inv_d1; t2 = w2 * p_i ! 2 * inv_d2
      in Inr (l * (t0 + t1 + t2))))))))"

definition extrapolate_uni_poly_deg_3 :: "'f::field list \<Rightarrow> 'f \<Rightarrow> 'f checked" where
  "extrapolate_uni_poly_deg_3 p_i eval_at =
     (let x0 = 0; x1 = 1; x2 = 2; x3 = 3 in
      bindE (div_checked (- 1) 6) (\<lambda>w0.
      bindE (div_checked 1 2) (\<lambda>w1.
      bindE (div_checked (- 1) 2) (\<lambda>w2.
      bindE (div_checked 1 6) (\<lambda>w3.
      let d0 = eval_at - x0; d1 = eval_at - x1; d2 = eval_at - x2; d3 = eval_at - x3;
          l = d0 * d1 * d2 * d3 in
      bindE (inverse_checked d0) (\<lambda>inv_d0.
      bindE (inverse_checked d1) (\<lambda>inv_d1.
      bindE (inverse_checked d2) (\<lambda>inv_d2.
      bindE (inverse_checked d3) (\<lambda>inv_d3.
      let t0 = w0 * p_i ! 0 * inv_d0; t1 = w1 * p_i ! 1 * inv_d1; t2 = w2 * p_i ! 2 * inv_d2;
          t3 = w3 * p_i ! 3 * inv_d3
      in Inr (l * (t0 + t1 + t2 + t3)))))))))))"

definition extrapolate_uni_poly_deg_4 :: "'f::field list \<Rightarrow> 'f \<Rightarrow> 'f checked" where
  "extrapolate_uni_poly_deg_4 p_i eval_at =
     (let x0 = 0; x1 = 1; x2 = 2; x3 = 3; x4 = 4 in
      bindE (div_checked 1 24) (\<lambda>w0.
      bindE (div_checked (- 1) 6) (\<lambda>w1.
      bindE (div_checked 1 4) (\<lambda>w2.
      bindE (div_checked (- 1) 6) (\<lambda>w3.
      bindE (div_checked 1 24) (\<lambda>w4.
      let d0 = eval_at - x0; d1 = eval_at - x1; d2 = eval_at - x2; d3 = eval_at - x3;
          d4 = eval_at - x4;
          l = d0 * d1 * d2 * d3 * d4 in
      bindE (inverse_checked d0) (\<lambda>inv_d0.
      bindE (inverse_checked d1) (\<lambda>inv_d1.
      bindE (inverse_checked d2) (\<lambda>inv_d2.
      bindE (inverse_checked d3) (\<lambda>inv_d3.
      bindE (inverse_checked d4) (\<lambda>inv_d4.
      let t0 = w0 * p_i ! 0 * inv_d0; t1 = w1 * p_i ! 1 * inv_d1; t2 = w2 * p_i ! 2 * inv_d2;
          t3 = w3 * p_i ! 3 * inv_d3; t4 = w4 * p_i ! 4 * inv_d4
      in Inr (l * (t0 + t1 + t2 + t3 + t4)))))))))))))"

definition extrapolate_uni_poly :: "'f::field list \<Rightarrow> 'f \<Rightarrow> 'f checked" where
  "extrapolate_uni_poly p eval_at =
     (if length p = 2 then extrapolate_uni_poly_deg_1 p eval_at
      else if length p = 3 then extrapolate_uni_poly_deg_2 p eval_at
      else if length p = 4 then extrapolate_uni_poly_deg_3 p eval_at
      else if length p = 5 then extrapolate_uni_poly_deg_4 p eval_at
      else Inl UnimplementedCase)"

subsection \<open>The tables of weights\<close>

text \<open>\<open>weights[degree - min_degree][z - degree - 1][j]\<close>.\<close>

definition degree_weights :: "nat \<Rightarrow> nat \<Rightarrow> 'f::field list list checked" where
  "degree_weights d max_degree =
     (let xs = map of_nat [0..<d + 1] in
      bindE (mapE (\<lambda>j. inverse_checked
          (fold (\<lambda>i w. if i \<noteq> j then w * (xs ! j - xs ! i) else w) [0..<d + 1] 1)) [0..<d + 1])
        (\<lambda>bary_weights.
          mapE (\<lambda>z_idx. let z = of_nat z_idx in
            bindE (mapE (\<lambda>j. div_checked (bary_weights ! j) (z - xs ! j)) [0..<d + 1]) (\<lambda>tmp.
            let den = fold (\<lambda>t den. den + t) tmp 0 in
            mapE (\<lambda>t. div_checked t den) tmp)) [d + 1..<max_degree + 1]))"

definition ExtrapolationTable_new :: "nat \<Rightarrow> nat \<Rightarrow> 'f::field list list list checked" where
  "ExtrapolationTable_new min_degree max_degree =
     mapE (\<lambda>d. degree_weights d max_degree) [min_degree..<max_degree + 1]"

text \<open>The global cache of tables, by the pair of degrees.\<close>

type_synonym 'f table_cache = "nat \<times> nat \<rightharpoonup> 'f list list list"

definition cache_get ::
  "'f::field table_cache \<Rightarrow> nat \<Rightarrow> nat \<Rightarrow> ('f list list list \<times> 'f table_cache) checked" where
  "cache_get cache min_degree max_degree =
     (case cache (min_degree, max_degree) of
        Some table \<Rightarrow> Inr (table, cache)
      | None \<Rightarrow> bindE (ExtrapolationTable_new min_degree max_degree)
          (\<lambda>table. Inr (table, cache((min_degree, max_degree) \<mapsto> table))))"

definition warm_up :: "'f::field table_cache \<Rightarrow> nat \<Rightarrow> 'f table_cache checked" where
  "warm_up cache max_degree = assert_that (2 \<le> max_degree)
     (foldE (\<lambda>cache (mx, mn). bindE (cache_get cache mn mx) (\<lambda>(_, cache). Inr cache)) cache
        (concat (map (\<lambda>mx. map (\<lambda>mn. (mx, mn)) [1..<mx]) [2..<max_degree + 1])))"

definition cache_ok :: "'f::field table_cache \<Rightarrow> bool" where
  "cache_ok cache \<longleftrightarrow>
     (\<forall>mn mx table. cache (mn, mx) = Some table \<longrightarrow> ExtrapolationTable_new mn mx = Inr table)"

lemma cache_get_transparent:
  assumes "cache_ok cache"
  shows "bindE (cache_get cache mn mx) (\<lambda>(t, _). Inr t) = ExtrapolationTable_new mn mx"
    and "cache_get cache mn mx = Inr (t, cache') \<Longrightarrow> cache_ok cache'"
  using assms
  by (auto simp: cache_get_def cache_ok_def bindE_success split: option.splits)
    (auto simp: bindE_def split: sum.splits if_splits)

definition extrapolate_from_table :: "'f::field list \<Rightarrow> nat \<Rightarrow> 'f list checked" where
  "extrapolate_from_table uni_variate start =
     (let cur_degree = start - 1; target_len = length uni_variate in
      assert_that (0 < start)
       (bindE (ExtrapolationTable_new cur_degree (target_len - 1)) (\<lambda>table.
        assert_that (start < target_len)
         (let known = take start uni_variate in
          bindE (checked_nth table 0) (\<lambda>weight_sets.
          bindE (mapE (\<lambda>offset. bindE (checked_nth weight_sets offset) (\<lambda>weights.
              assert_that (length weights = length known)
                (Inr (fold (\<lambda>(w, x) acc. acc + w * x) (zip weights known) 0))))
            [0..<target_len - start]) (\<lambda>targets.
          Inr (known @ targets)))))))"

subsection \<open>The barycentric form of interpolation\<close>

definition bary_weight :: "nat \<Rightarrow> nat \<Rightarrow> 'f::field" where
  "bary_weight d j = inverse (\<Prod>i\<in>{..d} - {j}. (of_nat j - of_nat i))"

lemma lagrange_basis_bary:
  assumes "j \<le> d" and "z \<noteq> of_nat j"
  shows "lagrange_basis d j z = (\<Prod>i\<le>d. (z - of_nat i)) * (bary_weight d j * inverse (z - of_nat j))"
proof -
  have "(\<Prod>i\<le>d. (z - of_nat i)) = (z - of_nat j) * (\<Prod>i\<in>{..d} - {j}. (z - of_nat i))"
    using assms(1) by (intro prod.remove) auto
  then show ?thesis unfolding lagrange_basis_def prod_dividef using assms(2)
    by (simp add: bary_weight_def divide_inverse)
qed

lemma interpolate_bary:
  assumes "length ys = Suc d" and "z \<notin> of_nat ` {..d}"
  shows "interpolate ys z =
    (\<Prod>i\<le>d. (z - of_nat i)) * (\<Sum>j\<le>d. bary_weight d j * ys ! j * inverse (z - of_nat j))"
proof -
  have "z \<noteq> of_nat j" if "j \<le> d" for j using assms(2) that by blast
  then show ?thesis
    unfolding interpolate_def sum_distrib_left using assms(1)
    by (intro sum.cong) (auto simp: lagrange_basis_bary)
qed

lemma interpolate_sum_weights:
  assumes "nodes_distinct TYPE('f::field) d" and "(z :: 'f) \<notin> of_nat ` {..d}"
  shows "(\<Prod>i\<le>d. (z - of_nat i)) * (\<Sum>j\<le>d. bary_weight d j * inverse (z - of_nat j)) = 1"
  using interpolate_bary [of "replicate (Suc d) 1" d z] assms
    interpolate_unique [of d "\<lambda>x. 1" "replicate (Suc d) 1" z]
  by (simp add: poly_intros del: replicate_Suc)


lemma fold_weight:
  "fold (\<lambda>i w. if i \<noteq> j then w * f i else w) [0..<n] (c :: 'f::field) = c * (\<Prod>i\<in>{..<n} - {j}. f i)"
proof (induction n)
  case (Suc n)
  have "{..<Suc n} - {j} = (if n = j then {..<n} - {j} else insert n ({..<n} - {j}))" by auto
  then have "(\<Prod>i\<in>{..<Suc n} - {j}. f i) = (if n = j then 1 else f n) * (\<Prod>i\<in>{..<n} - {j}. f i)"
    by (simp del: insert_Diff_single)
  moreover have "{..<j} - {j} = {..<j}" by auto
  ultimately show ?case using Suc by (cases "n = j") (simp_all add: mult_ac)
qed simp

lemma fold_sum: "fold (\<lambda>t acc. acc + t) ts (c :: 'f::comm_ring_1) = c + sum_list ts"
  by (induction ts arbitrary: c) auto

lemma fold_dot:
  "length ws = length xs \<Longrightarrow>
   fold (\<lambda>(w, x) acc. acc + w * x) (zip ws xs) (c :: 'f::comm_ring_1) = c + (\<Sum>j<length xs. ws ! j * xs ! j)"
proof (induction ws xs arbitrary: c rule: list_induct2)
  case (Cons w ws x xs)
  then show ?case by (simp add: sum.lessThan_Suc_shift del: sum.lessThan_Suc)
qed simp

text \<open>The normalised weight of the value at \<open>j\<close> for the node \<open>z\<close> is the Lagrange basis.\<close>

lemma bary_product_nonzero:
  assumes "nodes_distinct TYPE('f::field) d" and "j \<le> d"
  shows "(\<Prod>i\<in>{..d} - {j}. (of_nat j - of_nat i :: 'f)) \<noteq> 0"
  using assms nodes_distinct_diff [OF assms(1)] by auto

lemma bary_weights:
  assumes "nodes_distinct TYPE('f::field) d"
  shows "mapE (\<lambda>j. inverse_checked (fold (\<lambda>i w. if i \<noteq> j
      then w * (map of_nat [0..<d + 1] ! j - map of_nat [0..<d + 1] ! i) else w) [0..<d + 1] 1)) [0..<d + 1] =
    Inr (map (bary_weight d :: nat \<Rightarrow> 'f) [0..<d + 1])"
proof (rule mapE_pure)
  fix j assume "j \<in> set [0..<d + 1]"
  then have j: "j \<le> d" by auto
  have "(\<Prod>i\<in>{..<d + 1} - {j}. (map of_nat [0..<d + 1] ! j - map of_nat [0..<d + 1] ! i :: 'f)) =
      (\<Prod>i\<in>{..d} - {j}. (of_nat j - of_nat i))"
    using j by (intro prod.cong) (auto simp del: upt_Suc)
  then show "inverse_checked (fold (\<lambda>i w. if i \<noteq> j
      then w * (map of_nat [0..<d + 1] ! j - map of_nat [0..<d + 1] ! i) else w) [0..<d + 1] 1) =
      Inr (bary_weight d j :: 'f)"
    using bary_product_nonzero [OF assms j]
    unfolding fold_weight by (simp add: inverse_checked_def bary_weight_def)
qed

lemma sum_list_upt: "sum_list (map f [0..<Suc d]) = (\<Sum>j\<le>d. f j)"
  by (simp add: interv_sum_list_conv_sum_set_nat atLeast0LessThan lessThan_Suc_atMost del: upt_Suc)

lemma normalised_weights:
  assumes "nodes_distinct TYPE('f::field) d" and "(z :: 'f) \<notin> of_nat ` {..d}"
  defines "tmp \<equiv> map (\<lambda>j. bary_weight d j * inverse (z - of_nat j)) [0..<d + 1]"
  shows "mapE (\<lambda>t. div_checked t (fold (\<lambda>t den. den + t) tmp 0)) tmp =
    Inr (map (\<lambda>j. lagrange_basis d j z) [0..<d + 1])"
proof -
  define den where "den = fold (\<lambda>t den. den + t) tmp 0"
  have "den = (\<Sum>j\<le>d. bary_weight d j * inverse (z - of_nat j))"
    by (simp add: den_def fold_sum tmp_def sum_list_upt del: upt_Suc)
  then have one: "(\<Prod>i\<le>d. (z - of_nat i)) * den = 1"
    using interpolate_sum_weights [OF assms(1, 2)] by simp
  then have den: "den \<noteq> 0" "inverse den = (\<Prod>i\<le>d. (z - of_nat i))"
    by (auto simp: inverse_unique mult.commute)
  have "mapE (\<lambda>t. div_checked t den) tmp = Inr (map (\<lambda>t. t * inverse den) tmp)"
    using den(1) by (intro mapE_pure) (simp add: div_checked_def inverse_checked_def)
  moreover have "map (\<lambda>t. t * inverse den) tmp = map (\<lambda>j. lagrange_basis d j z) [0..<d + 1]"
  proof -
    have "z \<noteq> of_nat j" if "j \<le> d" for j using assms(2) that by blast
    then show ?thesis by (auto simp: tmp_def den(2) lagrange_basis_bary mult.commute)
  qed
  ultimately show ?thesis by (simp add: den_def)
qed

lemma nodes_distinct_outside:
  "nodes_distinct TYPE('f::field) e \<Longrightarrow> d < z \<Longrightarrow> z \<le> e \<Longrightarrow> (of_nat z :: 'f) \<notin> of_nat ` {..d}"
  unfolding nodes_distinct_def by (auto dest!: inj_onD)

lemma degree_weights_basis:
  assumes "nodes_distinct TYPE('f::field) e" and "d \<le> e"
  shows "degree_weights d e =
    Inr (map (\<lambda>z. map (\<lambda>j. lagrange_basis d j (of_nat z :: 'f)) [0..<d + 1]) [d + 1..<e + 1])"
proof -
  have nodes: "nodes_distinct TYPE('f) d" using assms by (rule nodes_distinct_le)
  have "mapE (\<lambda>z_idx. let z = of_nat z_idx in
            bindE (mapE (\<lambda>j. div_checked (map (bary_weight d) [0..<d + 1] ! j)
              (z - map of_nat [0..<d + 1] ! j)) [0..<d + 1]) (\<lambda>tmp.
            let den = fold (\<lambda>t den. den + t) tmp 0 in
            mapE (\<lambda>t. div_checked t den) tmp)) [d + 1..<e + 1] =
      Inr (map (\<lambda>z. map (\<lambda>j. lagrange_basis d j (of_nat z :: 'f)) [0..<d + 1]) [d + 1..<e + 1])"
  proof (rule mapE_pure)
    fix k assume "k \<in> set [d + 1..<e + 1]"
    then have outside: "(of_nat k :: 'f) \<notin> of_nat ` {..d}"
      using assms by (intro nodes_distinct_outside) auto
    then have "of_nat k \<noteq> (of_nat j :: 'f)" if "j \<le> d" for j using that by blast
    then have "mapE (\<lambda>j. div_checked (map (bary_weight d) [0..<d + 1] ! j)
          (of_nat k - map of_nat [0..<d + 1] ! j)) [0..<d + 1] =
        Inr (map (\<lambda>j. bary_weight d j * inverse (of_nat k - of_nat j :: 'f)) [0..<d + 1])"
      by (intro mapE_pure) (auto simp: div_checked_def inverse_checked_def simp del: upt_Suc)
    then show "(let z = of_nat k in
            bindE (mapE (\<lambda>j. div_checked (map (bary_weight d) [0..<d + 1] ! j)
              (z - map of_nat [0..<d + 1] ! j)) [0..<d + 1]) (\<lambda>tmp.
            let den = fold (\<lambda>t den. den + t) tmp 0 in
            mapE (\<lambda>t. div_checked t den) tmp)) =
        Inr (map (\<lambda>j. lagrange_basis d j (of_nat k :: 'f)) [0..<d + 1])"
      using normalised_weights [OF nodes outside] by (simp add: Let_def del: upt_Suc)
  qed
  then show ?thesis
    unfolding degree_weights_def Let_def bary_weights [OF nodes] by simp
qed

lemma table_new:
  assumes "nodes_distinct TYPE('f::field) e"
  shows "ExtrapolationTable_new d e = Inr (map (\<lambda>d. map (\<lambda>z. map (\<lambda>j. lagrange_basis d j (of_nat z :: 'f))
    [0..<d + 1]) [d + 1..<e + 1]) [d..<e + 1])"
  unfolding ExtrapolationTable_new_def
  by (rule mapE_pure) (auto simp: degree_weights_basis [OF assms] simp del: upt_Suc)

text \<open>The vector is extended by the values of the polynomial through its first \<open>start\<close> entries.\<close>

lemma extrapolate_from_table_correct:
  fixes ys :: "'f::field list"
  assumes "nodes_distinct TYPE('f) (length ys - 1)" and "0 < start" and "start < length ys"
  shows "extrapolate_from_table ys start =
    Inr (take start ys @ map (\<lambda>k. interpolate (take start ys) (of_nat k)) [start..<length ys])"
proof -
  obtain d where d: "start = Suc d" using assms(2) by (cases start) auto
  define e where "e = length ys - 1"
  have e: "length ys = Suc e" "d < e" using assms d by (auto simp: e_def)
  define weight_sets where "weight_sets =
    map (\<lambda>z. map (\<lambda>j. lagrange_basis d j (of_nat z :: 'f)) [0..<d + 1]) [d + 1..<e + 1]"
  have table: "bindE (ExtrapolationTable_new d e) (\<lambda>t. bindE (checked_nth t 0) f) = f weight_sets" for f :: "'f list list \<Rightarrow> 'f list checked"
    using e assms(1) by (simp add: table_new [OF assms(1) [folded e_def]] weight_sets_def del: upt_Suc)
  let ?known = "take start ys"
  have "mapE (\<lambda>offset. bindE (checked_nth weight_sets offset) (\<lambda>weights.
        assert_that (length weights = length ?known)
          (Inr (fold (\<lambda>(w, x) acc. acc + w * x) (zip weights ?known) 0)))) [0..<Suc e - start] =
      Inr (map (\<lambda>offset. interpolate ?known (of_nat (start + offset))) [0..<Suc e - start])"
    using d e by (intro mapE_pure)
      (auto simp: weight_sets_def fold_dot interpolate_def mult.commute simp del: upt_Suc intro!: sum.cong)
  moreover have "map (\<lambda>offset. interpolate ?known (of_nat (start + offset))) [0..<Suc e - start] =
      map (\<lambda>k. interpolate ?known (of_nat k)) [start..<length ys]"
    using e d by (intro nth_equalityI) (auto simp del: upt_Suc of_nat_add)
  ultimately show ?thesis
    using table e d assms
    by (simp add: extrapolate_from_table_def Let_def del: upt_Suc)
qed


subsection \<open>The unrolled formulas interpolate\<close>

lemma bary_weight_values:
  "bary_weight 1 0 = - 1" "bary_weight 1 1 = 1"
  "bary_weight 2 0 = inverse 2" "bary_weight 2 1 = - 1" "bary_weight 2 2 = inverse 2"
  "bary_weight 3 0 = - inverse 6" "bary_weight 3 1 = inverse 2" "bary_weight 3 2 = - inverse 2"
  "bary_weight 3 3 = inverse 6"
  "bary_weight 4 0 = inverse 24" "bary_weight 4 1 = - inverse 6" "bary_weight 4 2 = inverse 4"
  "bary_weight 4 3 = - inverse 6" "bary_weight 4 4 = inverse 24"
  by (simp_all add: bary_weight_def atMost_nat_numeral atMost_Suc insert_Diff_if)

lemma small_nodes:
  "of_nat ` {..1} = {0, 1 :: 'f::field}" "of_nat ` {..2} = {0, 1, 2 :: 'f}"
  "of_nat ` {..3} = {0, 1, 2, 3 :: 'f}" "of_nat ` {..4} = {0, 1, 2, 3, 4 :: 'f}"
  by (auto simp: atMost_nat_numeral atMost_Suc)

lemma nodes_distinct_numerals:
  assumes "nodes_distinct TYPE('f::field) d"
  shows "2 \<le> d \<Longrightarrow> (2 :: 'f) \<noteq> 0" "3 \<le> d \<Longrightarrow> (6 :: 'f) \<noteq> 0"
    "4 \<le> d \<Longrightarrow> (4 :: 'f) \<noteq> 0" "4 \<le> d \<Longrightarrow> (24 :: 'f) \<noteq> 0"
proof -
  have two: "2 \<le> d \<Longrightarrow> (2 :: 'f) \<noteq> 0" and three: "3 \<le> d \<Longrightarrow> (3 :: 'f) \<noteq> 0"
    using nodes_distinct_diff [OF assms, of 2 0] nodes_distinct_diff [OF assms, of 3 0] by auto
  have "(4 :: 'f) = 0 \<longleftrightarrow> (2 :: 'f) * 2 = 0" "(6 :: 'f) = 0 \<longleftrightarrow> (2 :: 'f) * 3 = 0"
    "(24 :: 'f) = 0 \<longleftrightarrow> (2 :: 'f) * 2 * (2 * 3) = 0" by simp_all
  then have "(4 :: 'f) = 0 \<longleftrightarrow> (2 :: 'f) = 0" "(6 :: 'f) = 0 \<longleftrightarrow> (2 :: 'f) = 0 \<or> (3 :: 'f) = 0"
    "(24 :: 'f) = 0 \<longleftrightarrow> (2 :: 'f) = 0 \<or> (3 :: 'f) = 0" by (simp_all only: mult_eq_0_iff disj_assoc simp_thms)
  with two three show "2 \<le> d \<Longrightarrow> (2 :: 'f) \<noteq> 0" "3 \<le> d \<Longrightarrow> (6 :: 'f) \<noteq> 0"
    "4 \<le> d \<Longrightarrow> (4 :: 'f) \<noteq> 0" "4 \<le> d \<Longrightarrow> (24 :: 'f) \<noteq> 0"
    by auto
qed

lemmas unrolled_defs = extrapolate_uni_poly_def extrapolate_uni_poly_deg_1_def
  extrapolate_uni_poly_deg_2_def extrapolate_uni_poly_deg_3_def extrapolate_uni_poly_deg_4_def
  div_checked_def inverse_checked_def Let_def

lemma extrapolate_uni_poly_correct:
  fixes ys :: "'f::field list"
  assumes "nodes_distinct TYPE('f) d" and "length ys = Suc d" and "1 \<le> d" and "d \<le> 4"
  shows "extrapolate_uni_poly ys z =
    (if z \<in> of_nat ` {..d} then Inl DivisionByZero else Inr (interpolate ys z))"
proof -
  from assms(3, 4) consider "d = 1" | "d = 2" | "d = 3" | "d = 4" by linarith
  then show ?thesis
  proof cases
    case 1
    with assms(2) interpolate_bary [of ys d z] show ?thesis
      unfolding 1 small_nodes
      by (auto simp: unrolled_defs bary_weight_values [unfolded One_nat_def] atMost_Suc)
  next
    case 2
    with assms(2) interpolate_bary [of ys d z] nodes_distinct_numerals [OF assms(1)] show ?thesis
      unfolding 2 small_nodes
      by (auto simp: unrolled_defs bary_weight_values [unfolded One_nat_def] bary_weight_values
          atMost_nat_numeral atMost_Suc mult_ac add_ac)
  next
    case 3
    with assms(2) interpolate_bary [of ys d z] nodes_distinct_numerals [OF assms(1)] show ?thesis
      unfolding 3 small_nodes
      by (auto simp: unrolled_defs bary_weight_values [unfolded One_nat_def] bary_weight_values
          atMost_nat_numeral atMost_Suc mult_ac add_ac)
  next
    case 4
    with assms(2) interpolate_bary [of ys d z] nodes_distinct_numerals [OF assms(1)] show ?thesis
      unfolding 4 small_nodes
      by (auto simp: unrolled_defs bary_weight_values [unfolded One_nat_def] bary_weight_values
          atMost_nat_numeral atMost_Suc mult_ac add_ac)
  qed
qed

end
