(* ===== verification/MleFacts.thy ===== *)
theory MleFacts
  imports Mle
begin

text \<open>
  The multilinear extension of a vector and the correctness of the folds of \<open>mle.rs\<close>: fixing the first
  variables is the partial evaluation of the extension, and \<open>evaluate\<close> is its value. The sequential
  and the parallel in-place folds are two providers of the same contract, the locale \<open>folding\<close>.
\<close>

subsection \<open>The multilinear extension\<close>

definition eq_weight :: "'f::comm_ring_1 list \<Rightarrow> nat \<Rightarrow> 'f" where
  "eq_weight r i = (\<Prod>j<length r. if bit i j then r ! j else 1 - r ! j)"

definition ml_value :: "'f::comm_ring_1 list \<Rightarrow> 'f list \<Rightarrow> 'f" where
  "ml_value r vs = (\<Sum>i<2 ^ length r. eq_weight r i * vs ! i)"

fun fold_list :: "'f::comm_ring_1 \<Rightarrow> 'f list \<Rightarrow> 'f list" where
  "fold_list r (x # y # xs) = (x + r * (y - x)) # fold_list r xs"
| "fold_list r xs = []"

lemma eq_weight_Nil [simp]: "eq_weight [] i = 1"
  by (simp add: eq_weight_def)

lemma eq_weight_Cons [simp]:
  "eq_weight (x # xs) i = (if odd i then x else 1 - x) * eq_weight xs (i div 2)"
  unfolding eq_weight_def
  by (simp only: length_Cons prod.lessThan_Suc_shift) (simp add: bit_0 bit_Suc cong: if_cong)

lemma ml_value_Nil [simp]: "ml_value [] vs = vs ! 0"
  by (simp add: ml_value_def)

lemma sum_pairs: "(\<Sum>i<2 * m. f i) = (\<Sum>i<m. f (2 * i) + f (2 * i + 1 :: nat) :: 'a::comm_monoid_add)"
  by (induction m) (simp_all add: algebra_simps)

lemma length_fold_list [simp]: "length (fold_list r vs) = length vs div 2"
  by (induction r vs rule: fold_list.induct) auto

lemma fold_list_nth:
  "i < length vs div 2 \<Longrightarrow> fold_list r vs ! i = vs ! (2 * i) + r * (vs ! (2 * i + 1) - vs ! (2 * i))"
  by (induction r vs arbitrary: i rule: fold_list.induct) (auto simp: nth_Cons split: nat.splits)

lemma ml_value_Cons:
  assumes "length vs = 2 ^ Suc (length rs)"
  shows "ml_value (r # rs) vs = ml_value rs (fold_list r vs)"
proof -
  have "ml_value (r # rs) vs = (\<Sum>i<2 * 2 ^ length rs. eq_weight (r # rs) i * vs ! i)"
    by (simp add: ml_value_def)
  also have "\<dots> = (\<Sum>i<2 ^ length rs. eq_weight rs i * (vs ! (2 * i) + r * (vs ! (2 * i + 1) - vs ! (2 * i))))"
    by (subst sum_pairs, rule sum.cong) (auto simp: algebra_simps)
  also have "\<dots> = ml_value rs (fold_list r vs)"
    unfolding ml_value_def using assms by (intro sum.cong) (auto simp: fold_list_nth)
  finally show ?thesis .
qed

subsection \<open>Folding a vector\<close>

lemma fold_chunks_eq: "even (length vs) \<Longrightarrow> fold_chunks r vs = Inr (fold_list r vs)"
  by (induction r vs rule: fold_chunks.induct) (auto simp: algebra_simps)

lemma fold_chunks_odd: "odd (length vs) \<Longrightarrow> fold_chunks r vs = Inl IndexOutOfBounds"
  by (induction r vs rule: fold_chunks.induct) auto

lemma fold_in_place_prefix:
  assumes "2 * k \<le> length vs"
  shows "foldE (fold_step r) vs (map (\<lambda>i. 2 * i) [0..<k]) = Inr (take k (fold_list r vs) @ drop k vs)"
  using assms
proof (induction k)
  case (Suc k)
  let ?ws = "take k (fold_list r vs) @ drop k vs"
  from Suc.prems have half: "k < length vs div 2" by simp
  from Suc have IH: "foldE (fold_step r) vs (map (\<lambda>i. 2 * i) [0..<k]) = Inr ?ws" by simp
  have nth: "?ws ! j = vs ! j" if "k \<le> j" "j < length vs" for j
    using that Suc.prems by (auto simp: nth_append)
  have "fold_step r ?ws (2 * k) = Inr (?ws[k := vs ! (2 * k) + (vs ! (2 * k + 1) - vs ! (2 * k)) * r])"
    using Suc.prems nth [of "2 * k"] nth [of "2 * k + 1"] by (simp add: fold_step_def)
  also have "?ws[k := vs ! (2 * k) + (vs ! (2 * k + 1) - vs ! (2 * k)) * r]
      = take (Suc k) (fold_list r vs) @ drop (Suc k) vs"
    using Suc.prems half
    by (intro nth_equalityI)
      (auto simp: nth_list_update nth_append fold_list_nth less_Suc_eq mult.commute)
  finally show ?case using IH by (simp add: foldE_append)
qed simp

lemma fold_in_place_eq:
  "even (length vs) \<Longrightarrow>
   fold_in_place r vs = Inr (fold_list r vs @ drop (length vs div 2) vs)"
  using fold_in_place_prefix [of "length vs div 2" vs r]
  by (auto simp: fold_in_place_def even_indices_def elim!: evenE)

lemma fold_pairs_in_cells_eq:
  "even (length vs) \<Longrightarrow> \<exists>ws. fold_pairs_in_cells r vs = Inr ws \<and> length ws = length vs \<and>
     (\<forall>i<length vs div 2. ws ! (2 * i) = fold_list r vs ! i)"
proof (induction r vs rule: fold_pairs_in_cells.induct)
  case (3 r x y xs)
  then obtain ws where ws: "fold_pairs_in_cells r xs = Inr ws" "length ws = length xs"
    "\<forall>i<length xs div 2. ws ! (2 * i) = fold_list r xs ! i" by auto
  then have "\<forall>i<length (x # y # xs) div 2.
      ((x + (y - x) * r) # y # ws) ! (2 * i) = fold_list r (x # y # xs) ! i"
    by (auto simp: nth_Cons mult.commute split: nat.splits)
  with ws show ?case by auto
qed auto

lemma compact_prefix:
  assumes "2 * k \<le> length vs"
  shows "foldE compact_step vs [0..<k] = Inr (map (\<lambda>i. vs ! (2 * i)) [0..<k] @ drop k vs)"
  using assms
proof (induction k)
  case (Suc k)
  let ?ws = "map (\<lambda>i. vs ! (2 * i)) [0..<k] @ drop k vs"
  from Suc have "foldE compact_step vs [0..<k] = Inr ?ws" by simp
  moreover have "compact_step ?ws k = Inr (?ws[k := vs ! (2 * k)])"
    using Suc.prems by (simp add: compact_step_def nth_append mult_2)
  moreover have "?ws[k := vs ! (2 * k)] = map (\<lambda>i. vs ! (2 * i)) [0..<Suc k] @ drop (Suc k) vs"
    using Suc.prems by (intro nth_equalityI) (auto simp: nth_list_update nth_append less_Suc_eq)
  ultimately show ?case by (simp add: foldE_append)
qed simp

subsection \<open>Folding a polynomial\<close>

definition evals :: "'f MultilinearExtension \<Rightarrow> 'f list" where
  "evals m = (case evaluations m of Base s \<Rightarrow> as_slice s | Ext s \<Rightarrow> as_slice s | Unreachable \<Rightarrow> [])"

definition mle_ok :: "'f MultilinearExtension \<Rightarrow> bool" where
  "mle_ok m \<longleftrightarrow> evaluations m \<noteq> Unreachable \<and> length (evals m) = 2 ^ num_vars m"

text \<open>\<open>m'\<close> is \<open>m\<close> with its first variable fixed to \<open>r\<close>, in a vector of its own or a mutable one.\<close>

definition folded :: "'f::comm_ring_1 MultilinearExtension \<Rightarrow> 'f \<Rightarrow> 'f MultilinearExtension \<Rightarrow> bool" where
  "folded m r m' \<longleftrightarrow> mle_ok m' \<and> is_mut m' \<and> num_vars m' = num_vars m - 1 \<and>
     evals m' = fold_list r (evals m)"

lemma evals_simps [simp]:
  "evals \<lparr>evaluations = Base s, num_vars = n\<rparr> = as_slice s"
  "evals \<lparr>evaluations = Ext s, num_vars = n\<rparr> = as_slice s"
  by (simp_all add: evals_def)

lemma op_mle_eq: "mle_ok m \<Longrightarrow> op_mle m f = f (evals m)"
  by (auto simp: op_mle_def mle_ok_def evals_def split: FieldType.splits)

lemma fix_first_variable_folds:
  assumes "mle_ok m" and "0 < num_vars m"
  shows "\<exists>m'. fix_first_variable m r = Inr m' \<and> folded m r m'"
proof -
  obtain n where n: "num_vars m = Suc n" using assms(2) by (cases "num_vars m") auto
  then have "length (evals m) = 2 * 2 ^ n" using assms(1) by (simp add: mle_ok_def)
  then show ?thesis using n assms(1)
    by (auto simp: fix_first_variable_def op_mle_eq fold_chunks_eq from_evaluations_ext_vec_def
        folded_def mle_ok_def is_mut_def)
qed

lemma finish_in_place_folds:
  assumes "mle_ok m" and "num_vars m = Suc n" and "slice_is_mut s"
    and "take (2 ^ n) (as_slice s) = fold_list r (evals m)"
  shows "\<exists>m'. finish_in_place n (Ext s) = Inr m' \<and> folded m r m'"
  using assms
  by (cases s) (auto simp: finish_in_place_def folded_def mle_ok_def is_mut_def min_def)

lemma fix_variables_in_place_folds:
  assumes "mle_ok m" and "is_mut m" and "0 < num_vars m"
  shows "\<exists>m'. fix_variables_in_place m [r] = Inr m' \<and> folded m r m'"
proof -
  obtain n where n: "num_vars m = Suc n" using assms(3) by (cases "num_vars m") auto
  then have len: "length (evals m) = 2 * 2 ^ n" using assms(1) by (simp add: mle_ok_def)
  then have "fold_chunks r (evals m) = Inr (fold_list r (evals m))"
    and "fold_in_place r (evals m) = Inr (fold_list r (evals m) @ drop (2 ^ n) (evals m))"
    using fold_in_place_eq [of "evals m" r] by (simp_all add: fold_chunks_eq)
  then have "\<exists>s. fix_in_place_step (evaluations m) r = Inr (Ext s) \<and> slice_is_mut s \<and>
      take (2 ^ n) (as_slice s) = fold_list r (evals m)"
    using assms(1, 2) len
    by (cases "evaluations m"; cases rule: SmartSlice.exhaust [of "case evaluations m of Ext s \<Rightarrow> s"])
      (auto simp: evals_def is_mut_def mle_ok_def)
  then show ?thesis
    using finish_in_place_folds [OF assms(1) n] assms(2) n
    by (auto simp: fix_variables_in_place_def)
qed

lemma fix_variables_in_place_parallel_folds:
  assumes "mle_ok m" and "is_mut m" and "0 < num_vars m"
  shows "\<exists>m'. fix_variables_in_place_parallel m [r] = Inr m' \<and> folded m r m'"
proof -
  obtain n where n: "num_vars m = Suc n" using assms(3) by (cases "num_vars m") auto
  then have len: "length (evals m) = 2 * 2 ^ n" using assms(1) by (simp add: mle_ok_def)
  then obtain ws where ws: "fold_pairs_in_cells r (evals m) = Inr ws" "length ws = 2 * 2 ^ n"
    "\<forall>i<2 ^ n. ws ! (2 * i) = fold_list r (evals m) ! i"
    using fold_pairs_in_cells_eq [of "evals m" r] by auto
  define vs where "vs = map (\<lambda>i. ws ! (2 * i)) [0..<2 ^ n] @ drop (2 ^ n) ws"
  have "foldE compact_step ws [0..<2 ^ n] = Inr vs"
    using compact_prefix [of "2 ^ n" ws] ws(2) by (simp add: vs_def)
  moreover have "take (2 ^ n) vs = fold_list r (evals m)"
    using ws len by (intro nth_equalityI) (auto simp: vs_def)
  moreover have "fold_chunks r (evals m) = Inr (fold_list r (evals m))"
    using len by (simp add: fold_chunks_eq)
  ultimately have "\<exists>s. fix_in_place_step_parallel (Suc n) (evaluations m) r = Inr (Ext s) \<and> slice_is_mut s \<and>
      take (2 ^ n) (as_slice s) = fold_list r (evals m)"
    using assms(1, 2) len ws(1)
    by (cases "evaluations m"; cases rule: SmartSlice.exhaust [of "case evaluations m of Ext s \<Rightarrow> s"])
      (auto simp: evals_def is_mut_def mle_ok_def)
  then show ?thesis
    using finish_in_place_folds [OF assms(1) n] assms(2) n
    by (auto simp: fix_variables_in_place_parallel_def)
qed


subsection \<open>Fixing several variables\<close>

locale folding =
  fixes in_place :: "'f::comm_ring_1 MultilinearExtension \<Rightarrow> 'f list \<Rightarrow> 'f MultilinearExtension checked"
  assumes folds: "mle_ok m \<Longrightarrow> is_mut m \<Longrightarrow> 0 < num_vars m \<Longrightarrow>
    \<exists>m'. in_place m [r] = Inr m' \<and> folded m r m'"
begin

lemma fix_owned:
  assumes "mle_ok m" and "is_mut m" and "length rs \<le> num_vars m"
  shows "\<exists>m'. foldE (fix_cow in_place) (CowOwned m) rs = Inr (CowOwned m') \<and> mle_ok m' \<and> is_mut m' \<and>
    num_vars m' = num_vars m - length rs \<and> evals m' = fold fold_list rs (evals m)"
  using assms
proof (induction rs arbitrary: m)
  case (Cons r rs)
  then have "0 < num_vars m" by auto
  then obtain m1 where m1: "in_place m [r] = Inr m1" "folded m r m1"
    using folds Cons.prems by blast
  then have "mle_ok m1" "is_mut m1" "length rs \<le> num_vars m1" "num_vars m1 = num_vars m - 1"
    "evals m1 = fold_list r (evals m)"
    using Cons.prems by (auto simp: folded_def)
  with Cons.IH [of m1] m1 show ?case by auto
qed simp

lemma fix_with:
  assumes "mle_ok m" and "length rs \<le> num_vars m" and "rs = [] \<Longrightarrow> mle_clone m = Inr m"
  shows "\<exists>m'. fix_variables_with in_place m rs = Inr m' \<and> mle_ok m' \<and> (rs \<noteq> [] \<longrightarrow> is_mut m') \<and>
    num_vars m' = num_vars m - length rs \<and> evals m' = fold fold_list rs (evals m)"
proof (cases rs)
  case Nil
  with assms show ?thesis by (auto simp: fix_variables_with_def)
next
  case (Cons r rs')
  then have "0 < num_vars m" using assms by auto
  then obtain m1 where m1: "fix_first_variable m r = Inr m1" "folded m r m1"
    using fix_first_variable_folds assms(1) by blast
  have "length rs' \<le> num_vars m1" using m1(2) assms(2) Cons by (simp add: folded_def)
  with m1(2) obtain m' where "foldE (fix_cow in_place) (CowOwned m1) rs' = Inr (CowOwned m')" "mle_ok m'"
    "is_mut m'" "num_vars m' = num_vars m1 - length rs'" "evals m' = fold fold_list rs' (evals m1)"
    using fix_owned [of m1 rs'] by (auto simp: folded_def)
  with m1 Cons assms(2) show ?thesis by (auto simp: fix_variables_with_def folded_def)
qed

end

interpretation seq: folding fix_variables_in_place
  by unfold_locales (rule fix_variables_in_place_folds)

interpretation par: folding fix_variables_in_place_parallel
  by unfold_locales (rule fix_variables_in_place_parallel_folds)

lemma ml_value_append:
  "length vs = 2 ^ (length rs + length qs) \<Longrightarrow> ml_value (rs @ qs) vs = ml_value qs (fold fold_list rs vs)"
proof (induction rs arbitrary: vs)
  case (Cons r rs)
  then have "ml_value (r # rs @ qs) vs = ml_value (rs @ qs) (fold_list r vs)"
    by (intro ml_value_Cons) simp
  with Cons show ?case by simp
qed simp

lemma fix_one_variable:
  assumes "mle_ok m" and "0 < num_vars m"
  shows "\<exists>m'. fix_variables m [r] = Inr m' \<and> folded m r m'"
  using seq.fix_with [of m "[r]"] assms by (auto simp: fix_variables_def folded_def)

lemma evaluate_value:
  assumes "mle_ok m" and "length point = num_vars m" and "point = [] \<Longrightarrow> mle_clone m = Inr m"
  shows "evaluate m point = Inr (ml_value point (evals m))"
proof -
  obtain m' where m': "fix_variables_parallel m point = Inr m'" "mle_ok m'" "num_vars m' = 0"
    "evals m' = fold fold_list point (evals m)"
    using par.fix_with [of m point] assms by (auto simp: fix_variables_parallel_def)
  moreover have "ml_value (point @ []) (evals m) = ml_value [] (evals m')"
    unfolding m'(4) using assms by (intro ml_value_append) (simp add: mle_ok_def)
  ultimately show ?thesis using assms(2)
    by (auto simp: evaluate_def op_mle_eq mle_ok_def)
qed

end
