(* ===== verification/EqPoly.thy ===== *)
theory EqPoly
  imports MleFacts
begin

text \<open>
  The equality polynomial of \<open>multilinear_extensions/src/virtual_poly.rs\<close> and the thread count of
  \<open>util.rs\<close>: \<open>eq_eval\<close>, and the table of \<open>eq(x, r)\<close> over all Boolean \<open>x\<close>, built by doubling in a buffer
  that starts uninitialised, by one thread or by several that fill one chunk each. A cell of the
  buffer is \<open>None\<close> until it is written; reading it then is undefined behaviour of the code.
\<close>

definition eq_eval :: "'f::comm_ring_1 list \<Rightarrow> 'f list \<Rightarrow> 'f checked" where
  "eq_eval x y = assert_that (length x = length y)
     (Inr (fold (\<lambda>(xi, yi) res. res * (xi * yi + xi * yi - xi - yi + 1)) (zip x y) 1))"

definition create_uninit_vec :: "nat \<Rightarrow> 'f option list" where
  "create_uninit_vec n = replicate n None"

definition assume_init :: "'f option \<Rightarrow> 'f checked" where
  "assume_init c = (case c of None \<Rightarrow> Inl UninitialisedRead | Some v \<Rightarrow> Inr v)"

definition checked_update :: "'a list \<Rightarrow> nat \<Rightarrow> 'a \<Rightarrow> 'a list checked" where
  "checked_update xs i v = (if i < length xs then Inr (xs[i := v]) else Inl IndexOutOfBounds)"

definition double_step ::
  "'f::comm_ring_1 \<Rightarrow> 'f option list \<Rightarrow> nat \<Rightarrow> 'f option list checked" where
  "double_step r buf index =
     bindE (bindE (checked_nth buf (index div 2)) assume_init) (\<lambda>prev_val.
     let tmp = r * prev_val in
     bindE (checked_update buf (index + 1) (Some tmp)) (\<lambda>buf.
     checked_update buf index (Some (prev_val - tmp))))"

definition build_eq_x_r_helper_sequential ::
  "'f::comm_ring_1 list \<Rightarrow> 'f option list \<Rightarrow> 'f \<Rightarrow> 'f option list checked" where
  "build_eq_x_r_helper_sequential r buf init =
     bindE (checked_update buf 0 (Some init)) (\<lambda>buf.
       foldE (\<lambda>buf (i, ri). let next_size = 2 ^ (i + 1) in
           foldE (double_step ri) buf (rev (map (\<lambda>j. 2 * j) [0..<next_size div 2])))
         buf (enumerate 0 (rev r)))"

text \<open>\<open>transmute\<close> of the buffer: every cell has to be initialised.\<close>

definition transmute :: "'f option list \<Rightarrow> 'f list checked" where
  "transmute buf = mapE assume_init buf"

definition build_eq_x_r_vec_sequential_with_scalar ::
  "'f::comm_ring_1 list \<Rightarrow> 'f \<Rightarrow> 'f list checked" where
  "build_eq_x_r_vec_sequential_with_scalar r scalar =
     (if r = [] then Inr [scalar]
      else bindE (build_eq_x_r_helper_sequential r (create_uninit_vec (2 ^ length r)) scalar) transmute)"

definition build_eq_x_r_vec_sequential :: "'f::comm_ring_1 list \<Rightarrow> 'f list checked" where
  "build_eq_x_r_vec_sequential r = build_eq_x_r_vec_sequential_with_scalar r 1"

definition build_eq_x_r_sequential :: "'f::comm_ring_1 list \<Rightarrow> 'f MultilinearExtension checked" where
  "build_eq_x_r_sequential r =
     bindE (build_eq_x_r_vec_sequential r) (from_evaluations_ext_vec (length r))"

text \<open>The number of threads, from the size \<open>n\<close> of the thread pool.\<close>

definition usize_next_power_of_two :: "nat \<Rightarrow> nat" where
  "usize_next_power_of_two n = (if n \<le> 1 then 1 else 2 ^ bit_length (n - 1))"

definition prev_power_of_two :: "nat \<Rightarrow> nat" where
  "prev_power_of_two n = usize_next_power_of_two (n + 1) div 2"

definition max_usable_threads :: "nat \<Rightarrow> nat" where
  "max_usable_threads n = prev_power_of_two n"

text \<open>Each thread fills its chunk of \<open>ret\<close>; the chunks are disjoint, so the order does not matter.\<close>

definition fill_chunks ::
  "'f::comm_ring_1 list \<Rightarrow> nat \<Rightarrow> nat \<Rightarrow> 'f list \<Rightarrow> 'f option list \<Rightarrow> 'f option list checked" where
  "fill_chunks r nbits nthreads eq_ts buf =
     (let size_lo = length r - nbits in
      bindE (mapE (\<lambda>(chunk, tid). bindE (checked_nth eq_ts tid) (\<lambda>eq_t.
                build_eq_x_r_helper_sequential (take size_lo r) chunk eq_t))
              (zip (split_chunks (length buf div 2 ^ size_lo) (2 ^ size_lo) buf) [0..<nthreads]))
            (\<lambda>chunks. Inr (concat chunks)))"

definition build_eq_x_r_vec_with_scalar ::
  "nat \<Rightarrow> 'f::comm_ring_1 list \<Rightarrow> 'f \<Rightarrow> 'f list checked" where
  "build_eq_x_r_vec_with_scalar pool r scalar =
     (if r = [] then Inr [scalar]
      else let nthreads = max_usable_threads pool; nbits = trailing_zeros nthreads in
        assert_that (2 ^ nbits = nthreads)
          (bindE (if length r < nbits
                  then build_eq_x_r_helper_sequential r (create_uninit_vec (2 ^ length r)) scalar
                  else bindE (build_eq_x_r_vec_sequential_with_scalar (drop (length r - nbits) r) scalar)
                    (\<lambda>eq_ts. fill_chunks r nbits nthreads eq_ts (create_uninit_vec (2 ^ length r))))
                 transmute))"

definition build_eq_x_r_vec :: "nat \<Rightarrow> 'f::comm_ring_1 list \<Rightarrow> 'f list checked" where
  "build_eq_x_r_vec pool r =
     (if r = [] then Inr [1]
      else let nthreads = max_usable_threads pool; nbits = trailing_zeros nthreads in
        assert_that (2 ^ nbits = nthreads)
          (if length r < nbits then build_eq_x_r_vec_sequential r
           else bindE (build_eq_x_r_vec_sequential (drop (length r - nbits) r)) (\<lambda>eq_ts.
                bindE (fill_chunks r nbits nthreads eq_ts (create_uninit_vec (2 ^ length r))) transmute)))"

definition build_eq_x_r :: "nat \<Rightarrow> 'f::comm_ring_1 list \<Rightarrow> 'f MultilinearExtension checked" where
  "build_eq_x_r pool r = bindE (build_eq_x_r_vec pool r) (from_evaluations_ext_vec (length r))"

subsection \<open>The table is the table of weights\<close>

definition eq_table :: "'f::comm_ring_1 list \<Rightarrow> 'f \<Rightarrow> 'f list" where
  "eq_table r s = map (\<lambda>i. s * eq_weight r i) [0..<2 ^ length r]"

lemma length_eq_table [simp]: "length (eq_table r s) = 2 ^ length r"
  by (simp add: eq_table_def)

lemma eq_table_nth [simp]: "i < 2 ^ length r \<Longrightarrow> eq_table r s ! i = s * eq_weight r i"
  by (simp add: eq_table_def)

lemma double_step_eq:
  assumes "buf ! j = Some v" and "2 * j + 1 < length buf"
  shows "double_step r buf (2 * j) = Inr (buf[2 * j := Some (v - r * v), 2 * j + 1 := Some (r * v)])"
  using assms
  by (simp add: double_step_def checked_update_def assume_init_def Let_def list_update_swap)

lemma doubling:
  assumes "2 * m \<le> length buf" and "\<And>i. i < m \<Longrightarrow> buf ! i = Some (g i)"
  shows "foldE (double_step r) buf (rev (map (\<lambda>j. 2 * j) [0..<m])) =
    Inr (map (\<lambda>i. Some (if odd i then r * g (i div 2) else g (i div 2) - r * g (i div 2))) [0..<2 * m] @
         drop (2 * m) buf)"
  using assms
proof (induction m arbitrary: buf)
  case (Suc m)
  let ?buf = "buf[2 * m := Some (g m - r * g m), 2 * m + 1 := Some (r * g m)]"
  have "double_step r buf (2 * m) = Inr ?buf"
    using Suc.prems by (intro double_step_eq) auto
  moreover have "?buf ! i = Some (g i)" if "i < m" for i
    using that Suc.prems by (simp add: nth_list_update)
  then have "foldE (double_step r) ?buf (rev (map (\<lambda>j. 2 * j) [0..<m])) =
    Inr (map (\<lambda>i. Some (if odd i then r * g (i div 2) else g (i div 2) - r * g (i div 2))) [0..<2 * m] @
         drop (2 * m) ?buf)"
    using Suc.prems by (intro Suc.IH) auto
  moreover have "drop (2 * m) ?buf =
      Some (g m - r * g m) # Some (r * g m) # drop (2 * Suc m) buf"
    using Suc.prems(1) by (intro nth_equalityI) (auto simp: nth_list_update nth_Cons split: nat.splits)
  ultimately show ?case by simp
qed simp

lemma eq_table_Cons:
  "eq_table (x # xs) s =
     map (\<lambda>i. if odd i then x * (s * eq_weight xs (i div 2))
              else s * eq_weight xs (i div 2) - x * (s * eq_weight xs (i div 2))) [0..<2 * 2 ^ length xs]"
  by (auto simp: eq_table_def algebra_simps)

lemma helper_prefix:
  assumes "2 ^ length r \<le> length buf"
  shows "foldE (\<lambda>buf (i, ri). foldE (double_step ri) buf (rev (map (\<lambda>j. 2 * j) [0..<2 ^ (i + 1) div 2])))
      (buf[0 := Some s]) (enumerate 0 (rev r)) = Inr (map Some (eq_table r s) @ drop (2 ^ length r) buf)"
  using assms
proof (induction r)
  case Nil
  then show ?case by (cases buf) (auto simp: eq_table_def)
next
  case (Cons x xs)
  let ?buf = "map Some (eq_table xs s) @ drop (2 ^ length xs) buf"
  have "foldE (double_step x) ?buf (rev (map (\<lambda>j. 2 * j) [0..<2 ^ length xs])) =
      Inr (map Some (eq_table (x # xs) s) @ drop (2 * 2 ^ length xs) ?buf)"
    using Cons.prems
    by (subst doubling [where g = "\<lambda>i. s * eq_weight xs i"])
      (auto simp: nth_append eq_table_Cons)
  with Cons show ?case by (simp add: enumerate_append_eq foldE_append drop_append flip: mult_2)
qed

lemma helper_table:
  assumes "2 ^ length r \<le> length buf"
  shows "build_eq_x_r_helper_sequential r buf s = Inr (map Some (eq_table r s) @ drop (2 ^ length r) buf)"
proof -
  have "0 < length buf" using assms less_le_trans [of 0 "2 ^ length r" "length buf"] by simp
  then show ?thesis using helper_prefix [OF assms, of s]
    by (simp add: build_eq_x_r_helper_sequential_def checked_update_def Let_def)
qed

lemma helper_fresh:
  "build_eq_x_r_helper_sequential r (create_uninit_vec (2 ^ length r)) s = Inr (map Some (eq_table r s))"
  by (simp add: helper_table create_uninit_vec_def)

lemma transmute_Some [simp]: "transmute (map Some xs) = Inr xs"
  by (induction xs) (auto simp: transmute_def assume_init_def)

lemma eq_table_Nil [simp]: "eq_table [] s = [s]"
  by (simp add: eq_table_def)

lemma sequential_table: "build_eq_x_r_vec_sequential_with_scalar r s = Inr (eq_table r s)"
  by (cases "r = []")
    (simp_all add: build_eq_x_r_vec_sequential_with_scalar_def helper_fresh)

text \<open>The table of a longer point consists of pairs, and of one scaled table for each high index.\<close>

definition split_weight :: "'f::comm_ring_1 \<Rightarrow> 'f \<Rightarrow> 'f list" where
  "split_weight x v = [v - x * v, x * v]"

lemma map_pairs:
  "map (\<lambda>i. if odd i then f (i div 2) else g (i div 2)) [0..<2 * m] = concat (map (\<lambda>j. [g j, f j]) [0..<m])"
  by (induction m) auto

lemma eq_table_pairs: "eq_table (x # xs) s = concat (map (split_weight x) (eq_table xs s))"
proof -
  have "eq_table (x # xs) s = concat (map (\<lambda>j. [s * eq_weight xs j - x * (s * eq_weight xs j),
      x * (s * eq_weight xs j)]) [0..<2 ^ length xs])"
    unfolding eq_table_Cons by (rule map_pairs)
  then show ?thesis by (simp add: eq_table_def split_weight_def comp_def)
qed

lemma concat_map_concat: "concat (map f (concat xss)) = concat (map (\<lambda>xs. concat (map f xs)) xss)"
  by (induction xss) auto

lemma eq_table_append: "eq_table (lo @ hi) s = concat (map (eq_table lo) (eq_table hi s))"
proof (induction lo)
  case Nil
  have "concat (map (\<lambda>v. [v]) vs) = vs" for vs :: "'a list" by (induction vs) auto
  then show ?case by (simp add: comp_def)
next
  case (Cons x lo)
  then show ?case by (simp add: eq_table_pairs concat_map_concat comp_def)
qed

lemma chunks_exact_replicate:
  "split_chunks n sz (replicate (n * sz) v) = replicate n (replicate sz v)"
  by (induction n) auto

lemma mapE_zip_upt:
  assumes "\<And>i. i < length xs \<Longrightarrow> f (xs ! i, i) = Inr (g i)"
  shows "mapE f (zip xs [0..<length xs]) = Inr (map g [0..<length xs])"
proof -
  have "f p = Inr (g (snd p))" if "p \<in> set (zip xs [0..<length xs])" for p
    using that assms by (auto simp: set_zip)
  then have "mapE f (zip xs [0..<length xs]) = Inr (map (\<lambda>p. g (snd p)) (zip xs [0..<length xs]))"
    by (rule mapE_pure)
  also have "map (\<lambda>p. g (snd p)) (zip xs [0..<length xs]) = map g (map snd (zip xs [0..<length xs]))"
    by (simp only: map_map comp_def)
  finally show ?thesis by (simp only: map_snd_zip length_upt diff_zero)
qed

lemma fill_chunks_table:
  assumes "nbits \<le> length r" and "nthreads = 2 ^ nbits"
    and "eq_ts = eq_table (drop (length r - nbits) r) s"
  shows "fill_chunks r nbits nthreads eq_ts (create_uninit_vec (2 ^ length r)) = Inr (map Some (eq_table r s))"
proof -
  define lo where "lo = length r - nbits"
  have total: "(2::nat) ^ length r = nthreads * 2 ^ lo"
    using assms by (simp add: lo_def flip: power_add)
  let ?chunks = "replicate nthreads (replicate (2 ^ lo) None) :: 'a option list list"
  have "split_chunks (length (create_uninit_vec (2 ^ length r) :: 'a option list) div 2 ^ lo) (2 ^ lo)
      (create_uninit_vec (2 ^ length r)) = ?chunks"
    by (simp add: create_uninit_vec_def total chunks_exact_replicate)
  moreover have "mapE (\<lambda>(chunk, tid). bindE (checked_nth eq_ts tid) (\<lambda>eq_t.
        build_eq_x_r_helper_sequential (take lo r) chunk eq_t)) (zip ?chunks [0..<length ?chunks]) =
      Inr (map (\<lambda>i. map Some (eq_table (take lo r) (eq_ts ! i))) [0..<length ?chunks])"
    using assms by (intro mapE_zip_upt) (auto simp: helper_table lo_def min_def)
  moreover have "concat (map (\<lambda>i. map Some (eq_table (take lo r) (eq_ts ! i))) [0..<nthreads]) =
      map Some (eq_table r s)"
  proof -
    have "eq_table r s = concat (map (eq_table (take lo r)) eq_ts)"
      using eq_table_append [of "take lo r" "drop lo r" s] assms(3) by (simp add: lo_def)
    also have "eq_ts = map (\<lambda>i. eq_ts ! i) [0..<nthreads]"
      using assms map_nth [of eq_ts] by simp
    finally show ?thesis by (simp add: map_concat comp_def)
  qed
  ultimately show ?thesis by (simp add: fill_chunks_def Let_def lo_def)
qed

lemma trailing_zeros_power [simp]: "trailing_zeros (2 ^ k) = k"
  by (induction k) (simp_all add: trailing_zeros.simps)

lemma max_usable_threads_power: "0 < n \<Longrightarrow> max_usable_threads n = 2 ^ (bit_length n - 1)"
  by (subst bit_length.simps)
    (simp add: max_usable_threads_def prev_power_of_two_def usize_next_power_of_two_def, subst bit_length.simps, simp)

lemma threaded_table: "0 < pool \<Longrightarrow> build_eq_x_r_vec_with_scalar pool r s = Inr (eq_table r s)"
  by (cases "r = []")
    (simp_all add: build_eq_x_r_vec_with_scalar_def Let_def max_usable_threads_power helper_fresh
      sequential_table fill_chunks_table)

lemma vec_table: "0 < pool \<Longrightarrow> build_eq_x_r_vec pool r = Inr (eq_table r 1)"
  by (cases "r = []")
    (simp_all add: build_eq_x_r_vec_def Let_def max_usable_threads_power build_eq_x_r_vec_sequential_def
      sequential_table fill_chunks_table)

subsection \<open>Evaluation against the table\<close>

lemma fold_split_weight:
  "fold_list y (concat (map (split_weight x) vs)) = map ((*) (x * y + x * y - x - y + 1)) vs"
  by (induction vs) (auto simp: split_weight_def algebra_simps)

lemma eq_table_scale: "map ((*) c) (eq_table r s) = eq_table r (c * s)"
  by (auto simp: eq_table_def mult.assoc)

lemma ml_value_eq_table:
  "length x = length y \<Longrightarrow>
   ml_value y (eq_table x s) = s * (\<Prod>(xi, yi)\<leftarrow>zip x y. (xi * yi + xi * yi - xi - yi + 1))"
proof (induction x y arbitrary: s rule: list_induct2)
  case (Cons x xs y ys)
  then have "ml_value (y # ys) (eq_table (x # xs) s) = ml_value ys (fold_list y (eq_table (x # xs) s))"
    by (intro ml_value_Cons) simp
  then show ?case using Cons
    by (simp add: eq_table_pairs fold_split_weight eq_table_scale mult_ac)
qed simp

lemma fold_times: "fold (\<lambda>p res. res * f p) ps (z :: 'f::comm_ring_1) = z * (\<Prod>p\<leftarrow>ps. f p)"
  by (induction ps arbitrary: z) (auto simp: mult_ac)

lemma eq_eval_value: "length x = length y \<Longrightarrow> eq_eval x y = Inr (ml_value y (eq_table x 1))"
  using fold_times [of "\<lambda>(xi, yi). xi * yi + xi * yi - xi - yi + 1" "zip x y" 1]
  by (simp add: eq_eval_def ml_value_eq_table case_prod_unfold)

lemma ml_value_table: "ml_value r vs = (\<Sum>i<length (eq_table r 1). eq_table r 1 ! i * vs ! i)"
  by (simp add: ml_value_def)

end
