(* ===== verification/VirtualPoly.thy ===== *)
theory VirtualPoly
  imports EqPoly Monomial
begin

text \<open>
  \<open>multilinear_extensions/src/virtual_poly.rs\<close> and \<open>virtual_polys.rs\<close>: sums of products of multilinear
  polynomials, given by terms over the indices of a flat list of polynomials, and their split over
  the threads of the sumcheck prover. The address that identifies a polynomial is an argument of
  \<open>register_mle\<close>; a polynomial that was just allocated has an address no other has.
\<close>

record 'f IndexTerm =
  term_scalar :: "'f + 'f"
  term_product :: "nat list"

record 'f MonomialTerms =
  terms :: "'f IndexTerm list"

record VPAuxInfo =
  max_degree :: nat
  max_num_variables :: nat

record 'f VirtualPolynomial =
  aux_info :: VPAuxInfo
  products :: "'f MonomialTerms list"
  flattened_ml_extensions :: "'f MultilinearExtension list"
  raw_pointers_lookup_table :: "nat \<rightharpoonup> nat"

definition VirtualPolynomial_new :: "nat \<Rightarrow> 'f VirtualPolynomial" where
  "VirtualPolynomial_new n =
     \<lparr>aux_info = \<lparr>max_degree = 0, max_num_variables = n\<rparr>, products = [],
      flattened_ml_extensions = [], raw_pointers_lookup_table = Map.empty\<rparr>"

definition register_mle ::
  "nat \<Rightarrow> 'f MultilinearExtension \<Rightarrow> 'f VirtualPolynomial \<Rightarrow> (nat \<times> 'f VirtualPolynomial) checked" where
  "register_mle mle_ptr mle p =
     (let curr_index = length (flattened_ml_extensions p);
          prev = raw_pointers_lookup_table p mle_ptr;
          p = p\<lparr>flattened_ml_extensions := flattened_ml_extensions p @ [mle],
                raw_pointers_lookup_table := (raw_pointers_lookup_table p)(mle_ptr \<mapsto> curr_index)\<rparr>
      in assert_that (prev = None) (Inr (curr_index, p)))"

definition all_equal :: "'a list \<Rightarrow> bool" where
  "all_equal xs \<longleftrightarrow> (case xs of [] \<Rightarrow> True | x # xs \<Rightarrow> list_all (\<lambda>y. y = x) xs)"

text \<open>A monomial over expressions, as \<open>add_monomial_terms\<close> receives it; only \<open>WitIn\<close> is supported.\<close>

type_synonym 'f expr_term = "('f + 'f) \<times> 'f expression list"

fun witin_index :: "'f expression \<Rightarrow> nat checked" where
  "witin_index (WitIn i) = Inr i"
| "witin_index _ = Inl UnimplementedCase"

definition add_term :: "'f VirtualPolynomial \<Rightarrow> nat \<Rightarrow> 'f expr_term \<Rightarrow> (nat \<times> 'f IndexTerm) checked" where
  "add_term p deg = (\<lambda>(s, prod).
     assert_that (prod \<noteq> [])
      (bindE (mapE (\<lambda>e. bindE (witin_index e) (\<lambda>i.
          bindE (checked_nth (flattened_ml_extensions p) i) (\<lambda>m. Inr (num_vars m)))) prod) (\<lambda>nvs.
       assert_that (all_equal nvs)
        (bindE (mapE witin_index prod) (\<lambda>indices.
          Inr (max deg (length prod), \<lparr>term_scalar = s, term_product = indices\<rparr>))))))"

definition add_monomial_terms :: "'f expr_term list \<Rightarrow> 'f VirtualPolynomial \<Rightarrow> 'f VirtualPolynomial checked" where
  "add_monomial_terms monomial_terms p =
     bindE (foldE (\<lambda>(deg, ts) t. bindE (add_term p deg t) (\<lambda>(deg, it). Inr (deg, ts @ [it])))
       (max_degree (aux_info p), []) monomial_terms) (\<lambda>(deg, ts).
     Inr (p\<lparr>aux_info := (aux_info p)\<lparr>max_degree := deg\<rparr>, products := products p @ [\<lparr>terms = ts\<rparr>]\<rparr>))"

definition new_from_product ::
  "(nat \<times> 'f MultilinearExtension) list \<Rightarrow> 'f \<Rightarrow> 'f VirtualPolynomial checked" where
  "new_from_product mles s =
     assert_that (mles \<noteq> []) (assert_that (all_equal (map (\<lambda>(ptr, m). num_vars m) mles))
       (bindE (foldE (\<lambda>(es, p) (ptr, m). bindE (register_mle ptr m p) (\<lambda>(i, p). Inr (es @ [WitIn i], p)))
           ([], VirtualPolynomial_new (num_vars (snd (hd mles)))) mles) (\<lambda>(indexes, p).
         add_monomial_terms [(Inr s, indexes)] p)))"

definition new_from_mle :: "nat \<Rightarrow> 'f MultilinearExtension \<Rightarrow> 'f \<Rightarrow> 'f VirtualPolynomial checked" where
  "new_from_mle ptr m s = new_from_product [(ptr, m)] s"

definition sum_terms_with :: "'f::field MonomialTerms list \<Rightarrow> 'f list \<Rightarrow> 'f checked" where
  "sum_terms_with prods ev =
     bindE (mapE (\<lambda>mt. bindE (mapE (\<lambda>t.
         bindE (mapE (checked_nth ev) (term_product t)) (\<lambda>vs. Inr (prod_list vs * either_value (term_scalar t))))
       (terms mt)) (\<lambda>xs. Inr (sum_list xs))) prods) (\<lambda>ys. Inr (sum_list ys))"

text \<open>\<open>evaluate\<close> gives every polynomial a prefix of the point, \<open>evaluate_slow\<close> below a suffix.\<close>

definition vp_evaluate :: "'f::field VirtualPolynomial \<Rightarrow> 'f list \<Rightarrow> 'f checked" where
  "vp_evaluate p point =
     assert_that (max_num_variables (aux_info p) = length point)
      (bindE (mapE (\<lambda>x. if num_vars x \<le> length point then evaluate x (take (num_vars x) point)
                       else Inl IndexOutOfBounds) (flattened_ml_extensions p)) (\<lambda>ev.
       sum_terms_with (products p) ev))"

subsection \<open>Split over threads\<close>

datatype PolyMeta = Normal | Phase2Only

record 'f VirtualPolynomials =
  num_threads :: nat
  polys :: "'f VirtualPolynomial list"
  poly_meta :: "nat \<rightharpoonup> PolyMeta"

definition VirtualPolynomials_new :: "nat \<Rightarrow> nat \<Rightarrow> 'f VirtualPolynomials checked" where
  "VirtualPolynomials_new threads n =
     bindE (ceil_log2 threads) (\<lambda>log2.
     Inr \<lparr>num_threads = threads, polys = replicate threads (VirtualPolynomial_new (n - log2)),
          poly_meta = Map.empty\<rparr>)"

datatype 'f EitherRefMLE = SharedRef "'f MultilinearExtension" | MutRef "'f MultilinearExtension"

primrec ref_mle :: "'f EitherRefMLE \<Rightarrow> 'f MultilinearExtension" where
  "ref_mle (SharedRef m) = m"
| "ref_mle (MutRef m) = m"

definition log2_strict :: "nat \<Rightarrow> nat checked" where
  "log2_strict n = assert_that (0 < n \<and> n = 2 ^ trailing_zeros n) (Inr (trailing_zeros n))"

definition thread_mles :: "nat \<Rightarrow> nat \<Rightarrow> 'f EitherRefMLE \<Rightarrow> 'f MultilinearExtension list checked" where
  "thread_mles threads log2 mle = (case mle of
     SharedRef m \<Rightarrow> if log2 < num_vars m then as_view_chunks m threads
                    else bindE (as_view m) (\<lambda>v. Inr (replicate threads v))
   | MutRef m \<Rightarrow> if log2 < num_vars m then as_view_chunks_mut m threads
                 else Inr (replicate threads (as_owned m)))"

text \<open>The polynomials of the threads are fresh allocations: their index serves as their address.\<close>

definition register_fresh :: "'f MultilinearExtension \<Rightarrow> 'f VirtualPolynomial \<Rightarrow> (nat \<times> 'f VirtualPolynomial) checked" where
  "register_fresh m p = register_mle (length (flattened_ml_extensions p)) m p"

definition register_one ::
  "nat \<Rightarrow> 'f VirtualPolynomials \<Rightarrow> 'f EitherRefMLE \<Rightarrow> (nat \<times> 'f VirtualPolynomials) checked" where
  "register_one log2_num_threads vps mle =
     (let meta = (if log2_num_threads < num_vars (ref_mle mle) then Normal else Phase2Only) in
     bindE (thread_mles (num_threads vps) log2_num_threads mle) (\<lambda>mles.
     assert_that (length mles = length (polys vps))
      (bindE (mapE (\<lambda>(p, m). register_fresh m p) (zip (polys vps) mles)) (\<lambda>rs.
       bindE (checked_nth rs 0) (\<lambda>(index, _).
       Inr (index, vps\<lparr>polys := map snd rs, poly_meta := (poly_meta vps)(index \<mapsto> meta)\<rparr>))))))"

definition register_mles ::
  "'f VirtualPolynomials \<Rightarrow> 'f EitherRefMLE list \<Rightarrow> (nat list \<times> 'f VirtualPolynomials) checked" where
  "register_mles vps mles =
     bindE (log2_strict (num_threads vps)) (\<lambda>log2_num_threads.
     foldE (\<lambda>(indexes, vps) mle.
         bindE (register_one log2_num_threads vps mle) (\<lambda>(i, vps). Inr (indexes @ [i], vps)))
       ([], vps) mles)"

definition vps_add_monomial_terms :: "'f VirtualPolynomials \<Rightarrow> 'f expr_term list \<Rightarrow> 'f VirtualPolynomials checked" where
  "vps_add_monomial_terms vps ts =
     bindE (mapE (add_monomial_terms ts) (polys vps)) (\<lambda>ps. Inr (vps\<lparr>polys := ps\<rparr>))"

definition new_from_monomials ::
  "nat \<Rightarrow> nat \<Rightarrow> (('f + 'f) \<times> 'f EitherRefMLE list) list \<Rightarrow> 'f VirtualPolynomials checked" where
  "new_from_monomials threads n monomials =
     assert_that (monomials \<noteq> [])
      (bindE (VirtualPolynomials_new threads n) (\<lambda>vps.
        foldE (\<lambda>vps (s, prod). assert_that (all_equal (map (\<lambda>m. num_vars (ref_mle m)) prod))
          (bindE (foldE (\<lambda>(es, vps) mle. bindE (register_mles vps [mle]) (\<lambda>(is, vps).
               bindE (checked_nth is 0) (\<lambda>i. Inr (es @ [WitIn i], vps)))) ([], vps) prod) (\<lambda>(es, vps).
           vps_add_monomial_terms vps [(s, es)]))) vps monomials))"

definition get_batched_polys :: "'f VirtualPolynomials \<Rightarrow> ('f VirtualPolynomial list \<times> PolyMeta list) checked" where
  "get_batched_polys vps =
     bindE (checked_nth (polys vps) 0) (\<lambda>p0.
       Inr (polys vps, map (\<lambda>i. case poly_meta vps i of Some m \<Rightarrow> m | None \<Rightarrow> Normal)
         [0..<length (flattened_ml_extensions p0)]))"

definition vps_degree :: "'f VirtualPolynomials \<Rightarrow> nat checked" where
  "vps_degree vps =
     assert_that (all_equal (map (\<lambda>p. max_degree (aux_info p)) (polys vps)))
       (Inr (case polys vps of [] \<Rightarrow> 0 | p # _ \<Rightarrow> max_degree (aux_info p)))"

text \<open>The full polynomial of an index, from the chunks of the threads.\<close>

definition raw_mle :: "'f VirtualPolynomials \<Rightarrow> nat \<Rightarrow> 'f MultilinearExtension checked" where
  "raw_mle vps index =
     (case poly_meta vps index of
        None \<Rightarrow> Inl UnwrapOfNone
      | Some Normal \<Rightarrow>
          bindE (mapE (\<lambda>p. checked_nth (flattened_ml_extensions p) index) (polys vps)) (\<lambda>ms.
            case ms of [] \<Rightarrow> Inl UnwrapOfNone
            | m # ms \<Rightarrow> foldE (\<lambda>acc m. merge acc (as_owned m)) (as_owned m) ms)
      | Some Phase2Only \<Rightarrow>
          bindE (checked_nth (polys vps) 0) (\<lambda>p. bindE (checked_nth (flattened_ml_extensions p) index) mle_clone))"

definition evaluate_slow :: "'f::field VirtualPolynomials \<Rightarrow> 'f list \<Rightarrow> 'f checked" where
  "evaluate_slow vps point =
     bindE (checked_nth (polys vps) 0) (\<lambda>p0.
     bindE (mapE (\<lambda>index. bindE (raw_mle vps index) (\<lambda>m.
          if num_vars m \<le> length point then evaluate m (drop (length point - num_vars m) point)
          else Inl IndexOutOfBounds)) [0..<length (flattened_ml_extensions p0)]) (\<lambda>ev.
     sum_terms_with (products p0) ev))"

subsection \<open>The builder\<close>

text \<open>\<open>mle_ptr_registry\<close> maps addresses to witness ids and references.\<close>

record 'f VirtualPolynomialsBuilder =
  num_witin :: nat
  mle_ptr_registry :: "(nat, nat \<times> 'f EitherRefMLE) btree_map"
  b_num_threads :: nat
  b_max_num_variables :: nat

definition VirtualPolynomialsBuilder_new :: "nat \<Rightarrow> nat \<Rightarrow> 'f VirtualPolynomialsBuilder" where
  "VirtualPolynomialsBuilder_new threads n =
     \<lparr>num_witin = 0, mle_ptr_registry = [], b_num_threads = threads, b_max_num_variables = n\<rparr>"

definition lift_mle ::
  "'f VirtualPolynomialsBuilder \<Rightarrow> nat \<Rightarrow> 'f EitherRefMLE \<Rightarrow>
   ('f expression \<times> 'f VirtualPolynomialsBuilder) checked" where
  "lift_mle b mle_ptr mle =
     (case map_of (mle_ptr_registry b) mle_ptr of
        Some (witin_id, _) \<Rightarrow> Inr (WitIn witin_id, b)
      | None \<Rightarrow>
          assert_that (num_witin b + 1 < 2 ^ 16)
            (Inr (WitIn (num_witin b),
              b\<lparr>num_witin := num_witin b + 1,
                mle_ptr_registry := bt_insert mle_ptr (num_witin b, mle) (mle_ptr_registry b)\<rparr>)))"

definition new_with_mles ::
  "nat \<Rightarrow> nat \<Rightarrow> (nat \<times> 'f EitherRefMLE) list \<Rightarrow> 'f VirtualPolynomialsBuilder checked" where
  "new_with_mles threads n mles =
     foldE (\<lambda>b (ptr, m). bindE (lift_mle b ptr m) (\<lambda>(_, b). Inr b)) (VirtualPolynomialsBuilder_new threads n) mles"

definition builder_mles :: "'f VirtualPolynomialsBuilder \<Rightarrow> 'f EitherRefMLE list" where
  "builder_mles b = map snd (sort_key fst (map snd (mle_ptr_registry b)))"

definition to_virtual_polys_with_monomial_terms ::
  "'f VirtualPolynomialsBuilder \<Rightarrow> 'f expr_term list \<Rightarrow> 'f VirtualPolynomials checked" where
  "to_virtual_polys_with_monomial_terms b ts =
     bindE (VirtualPolynomials_new (b_num_threads b) (b_max_num_variables b)) (\<lambda>vps.
     bindE (register_mles vps (builder_mles b)) (\<lambda>(_, vps). vps_add_monomial_terms vps ts))"

definition to_virtual_polys ::
  "'f::field VirtualPolynomialsBuilder \<Rightarrow> 'f expression list \<Rightarrow> 'f list \<Rightarrow> 'f VirtualPolynomials checked" where
  "to_virtual_polys b expressions challenges =
     bindE (VirtualPolynomials_new (b_num_threads b) (b_max_num_variables b)) (\<lambda>vps.
     bindE (register_mles vps (builder_mles b)) (\<lambda>(_, vps).
     foldE (\<lambda>vps e.
         bindE (mapE (\<lambda>t. case eval_by_expr_with_instance [] [] [] [] challenges (scalar t) of
             Some s \<Rightarrow> Inr (s, product t) | None \<Rightarrow> Inl IndexOutOfBounds)
           (get_monomial_terms e)) (\<lambda>ts. vps_add_monomial_terms vps ts)) vps expressions))"

end
