(* ===== verification/SumcheckVerifier.thy ===== *)
theory SumcheckVerifier
  imports Extrapolate VirtualPoly
begin

text \<open>
  The sumcheck verifier, \<open>sumcheck/src/verifier.rs\<close> and \<open>structs.rs\<close>, over the transcript interface of
  \<open>transcript/src/lib.rs\<close>. The sponge behind a transcript is not in the repository: its operations are
  the fields of \<open>transcript_ops\<close>, on a state of any type. The soundness lemma is the algebraic core of
  the protocol: an accepted wrong sum names a round whose challenge is one of at most \<open>d\<close> bad points,
  and that challenge was drawn after the message that makes it bad had been absorbed.
\<close>

subsection \<open>Transcripts\<close>

record ('f, 't) transcript_ops =
  bytes_to_field_elements :: "nat list \<Rightarrow> 'f list"
  append_field_elements :: "'f list \<Rightarrow> 't \<Rightarrow> 't"
  append_field_element_ext :: "'f \<Rightarrow> 't \<Rightarrow> 't"
  read_challenge :: "'t \<Rightarrow> 'f \<times> 't"

definition append_message :: "('f, 't) transcript_ops \<Rightarrow> nat list \<Rightarrow> 't \<Rightarrow> 't" where
  "append_message ops msg = append_field_elements ops (bytes_to_field_elements ops msg)"

definition append_field_element_exts :: "('f, 't) transcript_ops \<Rightarrow> 'f list \<Rightarrow> 't \<Rightarrow> 't" where
  "append_field_element_exts ops es = fold (append_field_element_ext ops) es"

definition sample_and_append_challenge :: "('f, 't) transcript_ops \<Rightarrow> nat list \<Rightarrow> 't \<Rightarrow> 'f \<times> 't" where
  "sample_and_append_challenge ops label t = read_challenge ops (append_message ops label t)"

definition usize_to_le_bytes :: "nat \<Rightarrow> nat list" where
  "usize_to_le_bytes n = map (\<lambda>i. n div 256 ^ i mod 256) [0..<8]"

definition bytes_of_string :: "string \<Rightarrow> nat list" where
  "bytes_of_string s = map of_char s"

definition get_challenge_pows :: "('f::field, 't) transcript_ops \<Rightarrow> nat \<Rightarrow> 't \<Rightarrow> 'f list \<times> 't" where
  "get_challenge_pows ops n t =
     (let (alpha, t') = sample_and_append_challenge ops (bytes_of_string ''combine subset evals'') t
      in (map (\<lambda>i. ((\<lambda>prev. prev * alpha) ^^ i) 1) [0..<n], t'))"

subsection \<open>The verifier\<close>


record 'f IOPProverMessage =
  message_evaluations :: "'f list"

record 'f IOPProof =
  proofs :: "'f IOPProverMessage list"

definition extract_sum :: "'f::field IOPProof \<Rightarrow> 'f checked" where
  "extract_sum proof = bindE (checked_nth (proofs proof) 0) (\<lambda>m.
     bindE (checked_nth (message_evaluations m) 0) (\<lambda>e0.
     bindE (checked_nth (message_evaluations m) 1) (\<lambda>e1. Inr (e0 + e1))))"

record 'f IOPVerifierState =
  v_round :: nat
  v_num_vars :: nat
  v_max_degree :: nat
  finished :: bool
  polynomials_received :: "'f list list"
  v_challenges :: "'f list"

record 'f SumCheckSubClaim =
  point :: "'f list"
  expected_evaluation :: 'f

definition verifier_init :: "VPAuxInfo \<Rightarrow> 'f IOPVerifierState" where
  "verifier_init index_info =
     \<lparr>v_round = 1, v_num_vars = max_num_variables index_info, v_max_degree = max_degree index_info,
      finished = False, polynomials_received = [], v_challenges = []\<rparr>"

definition verify_round_and_update_state ::
  "('f, 't) transcript_ops \<Rightarrow> 'f IOPVerifierState \<times> 't \<Rightarrow> 'f IOPProverMessage \<Rightarrow>
   ('f IOPVerifierState \<times> 't) checked" where
  "verify_round_and_update_state ops = (\<lambda>(vs, t) prover_msg.
     assert_that (\<not> finished vs)
       (let (challenge, t) = sample_and_append_challenge ops (bytes_of_string ''Internal round'') t;
            vs = vs\<lparr>v_challenges := v_challenges vs @ [challenge],
                   polynomials_received := polynomials_received vs @ [message_evaluations prover_msg]\<rparr>
        in if v_round vs = v_num_vars vs then Inr (vs\<lparr>finished := True\<rparr>, t)
           else Inr (vs\<lparr>v_round := v_round vs + 1\<rparr>, t)))"

definition check_and_generate_subclaim ::
  "'f::field IOPVerifierState \<Rightarrow> 'f \<Rightarrow> 'f SumCheckSubClaim checked" where
  "check_and_generate_subclaim vs asserted_sum =
     assert_that (finished vs)
      (assert_that (length (polynomials_received vs) = v_num_vars vs)
       (bindE (mapE (\<lambda>(evaluations, challenge).
           assert_that (length evaluations = v_max_degree vs + 1) (extrapolate_uni_poly evaluations challenge))
          (zip (polynomials_received vs) (v_challenges vs))) (\<lambda>expected_vec.
        let expected_vec = asserted_sum # expected_vec in
        bindE (mapE (\<lambda>(evaluations, expected).
            bindE (checked_nth evaluations 0) (\<lambda>e0. bindE (checked_nth evaluations 1) (\<lambda>e1.
            assert_that (e0 + e1 = expected) (Inr ()))))
          (take (v_num_vars vs) (zip (polynomials_received vs) expected_vec))) (\<lambda>_.
        bindE (checked_nth expected_vec (v_num_vars vs)) (\<lambda>e.
        Inr \<lparr>point = v_challenges vs, expected_evaluation = e\<rparr>)))))"

definition verify ::
  "('f::field, 't) transcript_ops \<Rightarrow> 'f \<Rightarrow> 'f IOPProof \<Rightarrow> VPAuxInfo \<Rightarrow> 't \<Rightarrow>
   ('f SumCheckSubClaim \<times> 't) checked" where
  "verify ops claimed_sum proof aux t =
     (if max_num_variables aux = 0
      then Inr (\<lparr>point = [], expected_evaluation = claimed_sum\<rparr>, t)
      else
        let t = append_message ops (usize_to_le_bytes (max_num_variables aux)) t;
            t = append_message ops (usize_to_le_bytes (max_degree aux)) t
        in bindE (foldE (\<lambda>(vs, t) i.
               case (if i < length (proofs proof) then Some (proofs proof ! i) else None) of
                 None \<Rightarrow> Inl UnwrapOfNone
               | Some prover_msg \<Rightarrow>
                   verify_round_and_update_state ops
                     (vs, fold (append_field_element_ext ops) (message_evaluations prover_msg) t) prover_msg)
             (verifier_init aux, t) [0..<max_num_variables aux]) (\<lambda>(vs, t).
           bindE (check_and_generate_subclaim vs claimed_sum) (\<lambda>res. Inr (res, t))))"

subsection \<open>The challenges\<close>

text \<open>The challenge of a round, and of all rounds, as functions of the messages absorbed before.\<close>

definition round_challenge :: "('f, 't) transcript_ops \<Rightarrow> 'f list \<Rightarrow> 't \<Rightarrow> 'f \<times> 't" where
  "round_challenge ops msg t =
     sample_and_append_challenge ops (bytes_of_string ''Internal round'') (append_field_element_exts ops msg t)"

primrec round_challenges :: "('f, 't) transcript_ops \<Rightarrow> 'f list list \<Rightarrow> 't \<Rightarrow> 'f list \<times> 't" where
  "round_challenges ops [] t = ([], t)"
| "round_challenges ops (m # ms) t =
     (let (c, t) = round_challenge ops m t; (cs, t) = round_challenges ops ms t in (c # cs, t))"

definition start_transcript :: "('f, 't) transcript_ops \<Rightarrow> VPAuxInfo \<Rightarrow> 't \<Rightarrow> 't" where
  "start_transcript ops aux t =
     append_message ops (usize_to_le_bytes (max_degree aux)) (append_message ops (usize_to_le_bytes (max_num_variables aux)) t)"

lemma round_challenges_append:
  "round_challenges ops (ms @ [m]) t =
     (let (cs, t) = round_challenges ops ms t; (c, t) = round_challenge ops m t in (cs @ [c], t))"
  by (induction ms arbitrary: t) (simp_all add: Let_def case_prod_unfold)

lemma length_round_challenges [simp]: "length (fst (round_challenges ops ms t)) = length ms"
  by (induction ms arbitrary: t) (simp_all add: Let_def case_prod_unfold)

lemma round_challenges_take:
  "i \<le> length ms \<Longrightarrow> fst (round_challenges ops (take i ms) t) = take i (fst (round_challenges ops ms t))"
  by (induction ms arbitrary: i t) (auto simp: Let_def case_prod_unfold take_Cons split: nat.splits)

subsection \<open>What an accepting run has checked\<close>

definition received :: "'f IOPProof \<Rightarrow> nat \<Rightarrow> 'f list list" where
  "received proof n = take n (map message_evaluations (proofs proof))"

definition rounds_state :: "('f, 't) transcript_ops \<Rightarrow> VPAuxInfo \<Rightarrow> 'f list list \<Rightarrow> 't \<Rightarrow> 'f IOPVerifierState \<times> 't" where
  "rounds_state ops aux ms t =
     (\<lparr>v_round = min (length ms + 1) (max_num_variables aux), v_num_vars = max_num_variables aux,
       v_max_degree = max_degree aux, finished = (length ms = max_num_variables aux),
       polynomials_received = ms, v_challenges = fst (round_challenges ops ms t)\<rparr>,
      snd (round_challenges ops ms t))"

lemma verifier_rounds:
  assumes "0 < max_num_variables aux" and "k \<le> max_num_variables aux"
  shows "foldE (\<lambda>(vs, t) i.
               case (if i < length (proofs proof) then Some (proofs proof ! i) else None) of
                 None \<Rightarrow> Inl UnwrapOfNone
               | Some prover_msg \<Rightarrow>
                   verify_round_and_update_state ops
                     (vs, fold (append_field_element_ext ops) (message_evaluations prover_msg) t) prover_msg)
             (verifier_init aux, t) [0..<k] =
    (if k \<le> length (proofs proof) then Inr (rounds_state ops aux (received proof k) t) else Inl UnwrapOfNone)"
  using assms(2)
proof (induction k)
  case 0
  with assms(1) show ?case by (simp add: verifier_init_def rounds_state_def received_def)
next
  case (Suc k)
  have "received proof (Suc k) = received proof k @ [message_evaluations (proofs proof ! k)]"
    if "k < length (proofs proof)"
    using that by (simp add: received_def take_Suc_conv_app_nth)
  with Suc show ?case
    by (auto simp: foldE_append rounds_state_def verify_round_and_update_state_def round_challenge_def
        round_challenges_append append_field_element_exts_def Let_def case_prod_unfold received_def)
qed

definition round_values :: "'f::field \<Rightarrow> 'f list list \<Rightarrow> 'f list \<Rightarrow> nat \<Rightarrow> 'f" where
  "round_values claimed ms cs i = (if i = 0 then claimed else interpolate (ms ! (i - 1)) (cs ! (i - 1)))"

lemma extrapolate_length: "extrapolate_uni_poly p z = Inr v \<Longrightarrow> 2 \<le> length p \<and> length p \<le> 5"
  by (auto simp: extrapolate_uni_poly_def split: if_splits)

text \<open>The checks of the subclaim, read off their success.\<close>

lemma check_success:
  fixes vs :: "'f::field IOPVerifierState"
  assumes "check_and_generate_subclaim vs claimed = Inr sub"
    and "length (v_challenges vs) = v_num_vars vs"
  obtains ex where "length (polynomials_received vs) = v_num_vars vs" and "length ex = v_num_vars vs"
    and "point sub = v_challenges vs" and "expected_evaluation sub = (claimed # ex) ! v_num_vars vs"
    and "\<And>i. i < v_num_vars vs \<Longrightarrow> length (polynomials_received vs ! i) = Suc (v_max_degree vs) \<and>
      extrapolate_uni_poly (polynomials_received vs ! i) (v_challenges vs ! i) = Inr (ex ! i)"
    and "\<And>i. i < v_num_vars vs \<Longrightarrow>
      polynomials_received vs ! i ! 0 + polynomials_received vs ! i ! 1 = (claimed # ex) ! i"
proof -
  let ?n = "v_num_vars vs" and ?ms = "polynomials_received vs" and ?cs = "v_challenges vs"
  from assms(1) have len: "length ?ms = ?n" by (simp add: check_and_generate_subclaim_def)
  from assms(1) obtain ex us where
    ex: "mapE (\<lambda>(evaluations, challenge). assert_that (length evaluations = v_max_degree vs + 1)
      (extrapolate_uni_poly evaluations challenge)) (zip ?ms ?cs) = Inr ex"
    and us: "mapE (\<lambda>(evaluations, expected).
      bindE (checked_nth evaluations 0) (\<lambda>e0. bindE (checked_nth evaluations 1) (\<lambda>e1.
      assert_that (e0 + e1 = expected) (Inr ())))) (take ?n (zip ?ms (claimed # ex))) = Inr us"
    and sub: "checked_nth (claimed # ex) ?n = Inr (expected_evaluation sub)" "point sub = ?cs"
    by (auto simp: check_and_generate_subclaim_def Let_def bindE_success)
  have "length ex = ?n" using mapE_length [OF ex] len assms(2) by simp
  moreover have "length (?ms ! i) = Suc (v_max_degree vs) \<and> extrapolate_uni_poly (?ms ! i) (?cs ! i) = Inr (ex ! i)"
    if "i < ?n" for i
    using mapE_nth [OF ex, of i] that len assms(2) by simp
  moreover have "?ms ! i ! 0 + ?ms ! i ! 1 = (claimed # ex) ! i" if "i < ?n" for i
    using mapE_nth [OF us, of i] that len \<open>length ex = ?n\<close>
    by (auto simp: bindE_success checked_nth_def split: if_splits)
  moreover have "expected_evaluation sub = (claimed # ex) ! ?n"
    using sub(1) \<open>length ex = ?n\<close> by (simp add: checked_nth_def)
  ultimately show thesis using that len sub(2) by blast
qed

text \<open>An accepting run: lengths, the consistency of every round, and the subclaim.\<close>

lemma verify_accepts:
  fixes claimed :: "'f::field"
  assumes accepted: "verify ops claimed proof aux t = Inr (sub, t')"
    and vars: "0 < max_num_variables aux" and nodes: "nodes_distinct TYPE('f) (max_degree aux)"
  defines "n \<equiv> max_num_variables aux" and "d \<equiv> max_degree aux"
    and "ms \<equiv> received proof (max_num_variables aux)" and "cs \<equiv> point sub"
  shows "length ms = n" and "(cs, t') = round_challenges ops ms (start_transcript ops aux t)"
    and "1 \<le> d" and "d \<le> 4"
    and "\<And>i. i < n \<Longrightarrow> length (ms ! i) = Suc d \<and> cs ! i \<notin> of_nat ` {..d} \<and>
      ms ! i ! 0 + ms ! i ! 1 = round_values claimed ms cs i"
    and "expected_evaluation sub = round_values claimed ms cs n"
proof -
  let ?t0 = "start_transcript ops aux t"
  have enough: "n \<le> length (proofs proof)"
    and check: "check_and_generate_subclaim (fst (rounds_state ops aux ms ?t0)) claimed = Inr sub"
    and t': "t' = snd (round_challenges ops ms ?t0)"
    using accepted vars verifier_rounds [of aux n ops "proof" ?t0]
    by (auto simp: verify_def start_transcript_def n_def ms_def Let_def bindE_success rounds_state_def
        split: if_splits)
  show len: "length ms = n" using enough by (simp add: ms_def n_def received_def)
  from check len obtain ex where ex: "length ex = n" "cs = fst (round_challenges ops ms ?t0)"
    "expected_evaluation sub = (claimed # ex) ! n"
    "\<And>i. i < n \<Longrightarrow> length (ms ! i) = Suc d \<and> extrapolate_uni_poly (ms ! i) (cs ! i) = Inr (ex ! i)"
    "\<And>i. i < n \<Longrightarrow> ms ! i ! 0 + ms ! i ! 1 = (claimed # ex) ! i"
    by (elim check_success) (auto simp: rounds_state_def n_def d_def cs_def)
  show "(cs, t') = round_challenges ops ms ?t0" using ex(2) t' by simp
  show deg: "1 \<le> d" "d \<le> 4"
    using ex(4) [of 0] vars extrapolate_length [of "ms ! 0" "cs ! 0" "ex ! 0"] by (auto simp: n_def)
  have points: "cs ! i \<notin> of_nat ` {..d} \<and> ex ! i = interpolate (ms ! i) (cs ! i)" if "i < n" for i
    using ex(4) [OF that] extrapolate_uni_poly_correct [OF nodes [folded d_def], of "ms ! i" "cs ! i"] deg
    by (auto split: if_splits)
  then have round: "(claimed # ex) ! i = round_values claimed ms cs i" if "i \<le> n" for i
    using that by (cases i) (auto simp: round_values_def)
  show "length (ms ! i) = Suc d \<and> cs ! i \<notin> of_nat ` {..d} \<and>
      ms ! i ! 0 + ms ! i ! 1 = round_values claimed ms cs i" if "i < n" for i
    using that ex(4, 5) points round by auto
  show "expected_evaluation sub = round_values claimed ms cs n"
    using ex(3) round by simp
qed

subsection \<open>Soundness\<close>

text \<open>The sum of a function over the Boolean hypercube, and the honest message of a round.\<close>

primrec cube_sum :: "nat \<Rightarrow> ('f::field list \<Rightarrow> 'f) \<Rightarrow> 'f" where
  "cube_sum 0 g = g []"
| "cube_sum (Suc n) g = cube_sum n (\<lambda>b. g (0 # b)) + cube_sum n (\<lambda>b. g (1 # b))"

definition honest_round :: "nat \<Rightarrow> ('f::field list \<Rightarrow> 'f) \<Rightarrow> 'f list \<Rightarrow> 'f \<Rightarrow> 'f" where
  "honest_round n g cs x = cube_sum (n - Suc (length cs)) (\<lambda>b. g (cs @ x # b))"

definition degree_in_each :: "nat \<Rightarrow> nat \<Rightarrow> ('f::field list \<Rightarrow> 'f) \<Rightarrow> bool" where
  "degree_in_each n d g \<longleftrightarrow>
     (\<forall>xs ys. Suc (length xs + length ys) = n \<longrightarrow> poly_of_degree d (\<lambda>x. g (xs @ x # ys)))"

lemma cube_sum_poly:
  "(\<And>b. length b = n \<Longrightarrow> poly_of_degree d (\<lambda>x. f x b)) \<Longrightarrow> poly_of_degree d (\<lambda>x. cube_sum n (f x))"
  by (induction n arbitrary: f) (auto intro!: poly_intros)

lemma honest_round_poly:
  "degree_in_each n d g \<Longrightarrow> length cs < n \<Longrightarrow> poly_of_degree d (honest_round n g cs)"
  unfolding honest_round_def by (rule cube_sum_poly) (auto simp: degree_in_each_def)

text \<open>If every round is consistent and the last value is right, the sum is right or a round was lucky.\<close>

lemma consistent_rounds:
  assumes "length cs = n" and "e 0 \<noteq> cube_sum n g" and "e n = g cs"
    and "\<And>i. i < n \<Longrightarrow> p i 0 + p i 1 = e i" and "\<And>i. i < n \<Longrightarrow> e (Suc i) = p i (cs ! i)"
  shows "\<exists>i<n. (p i 0 \<noteq> honest_round n g (take i cs) 0 \<or> p i 1 \<noteq> honest_round n g (take i cs) 1) \<and>
    p i (cs ! i) = honest_round n g (take i cs) (cs ! i)"
  using assms
proof (induction cs arbitrary: n e g p)
  case (Cons c cs)
  then obtain m where n: "n = Suc m" "length cs = m" by auto
  have h: "honest_round (Suc m) g [] x = cube_sum m (\<lambda>b. g (x # b))" for x
    by (simp add: honest_round_def)
  show ?case
  proof (cases "p 0 c = honest_round n g [] c")
    case True
    moreover have "p 0 0 \<noteq> honest_round n g [] 0 \<or> p 0 1 \<noteq> honest_round n g [] 1"
      using Cons.prems(2) Cons.prems(4) [of 0] by (auto simp: h n)
    ultimately show ?thesis by (intro exI [of _ 0]) (auto simp: n)
  next
    case False
    have "\<exists>i<m. (p (Suc i) 0 \<noteq> honest_round m (\<lambda>b. g (c # b)) (take i cs) 0 \<or>
          p (Suc i) 1 \<noteq> honest_round m (\<lambda>b. g (c # b)) (take i cs) 1) \<and>
        p (Suc i) (cs ! i) = honest_round m (\<lambda>b. g (c # b)) (take i cs) (cs ! i)"
    proof (rule Cons.IH [where e = "\<lambda>i. e (Suc i)"])
      show "e (Suc 0) \<noteq> cube_sum m (\<lambda>b. g (c # b))"
        using Cons.prems(5) [of 0] False by (simp add: h n)
      show "e (Suc m) = g (c # cs)" using Cons.prems(3) by (simp add: n)
      show "p (Suc i) 0 + p (Suc i) 1 = e (Suc i)" if "i < m" for i
        using Cons.prems(4) [of "Suc i"] that by (simp add: n)
      show "e (Suc (Suc i)) = p (Suc i) (cs ! i)" if "i < m" for i
        using Cons.prems(5) [of "Suc i"] that by (simp add: n)
    qed (rule n)
    moreover have "honest_round m (\<lambda>b. g (c # b)) (take i cs) = honest_round n g (take (Suc i) (c # cs))" for i
      by (auto simp: honest_round_def n)
    ultimately obtain i where "i < m"
      "p (Suc i) 0 \<noteq> honest_round n g (take (Suc i) (c # cs)) 0 \<or>
       p (Suc i) 1 \<noteq> honest_round n g (take (Suc i) (c # cs)) 1"
      "p (Suc i) (cs ! i) = honest_round n g (take (Suc i) (c # cs)) (cs ! i)" by auto
    then show ?thesis by (intro exI [of _ "Suc i"]) (auto simp: n)
  qed
qed simp

lemma soundness_core:
  fixes claimed :: "'f::field"
  assumes accepted: "verify ops claimed proof aux t = Inr (sub, t')"
    and nodes: "nodes_distinct TYPE('f) (max_degree aux)"
    and degree: "degree_in_each (max_num_variables aux) (max_degree aux) g"
    and wrong: "claimed \<noteq> cube_sum (max_num_variables aux) g"
    and subclaim: "g (point sub) = expected_evaluation sub"
  shows "\<exists>i<max_num_variables aux. let p = interpolate (received proof (max_num_variables aux) ! i);
      h = honest_round (max_num_variables aux) g (take i (point sub)) in
    point sub ! i \<in> {z. p z = h z} \<and> finite {z. p z = h z} \<and> card {z. p z = h z} \<le> max_degree aux"
proof -
  let ?n = "max_num_variables aux" and ?d = "max_degree aux" and ?ms = "received proof (max_num_variables aux)"
    and ?cs = "point sub"
  have vars: "0 < ?n"
  proof (rule ccontr)
    assume "\<not> 0 < ?n"
    with accepted wrong subclaim show False by (auto simp: verify_def)
  qed
  note run = verify_accepts [OF accepted vars nodes]
  have len: "length ?cs = ?n" using run(1, 2) by (metis fst_conv length_round_challenges)
  have ends: "interpolate (?ms ! i) 0 = ?ms ! i ! 0" "interpolate (?ms ! i) 1 = ?ms ! i ! 1" if "i < ?n" for i
    using interpolate_node [OF nodes, of "?ms ! i" 0] interpolate_node [OF nodes, of "?ms ! i" 1]
      run(3) run(5) [OF that] by auto
  have "\<exists>i<?n. (interpolate (?ms ! i) 0 \<noteq> honest_round ?n g (take i ?cs) 0 \<or>
        interpolate (?ms ! i) 1 \<noteq> honest_round ?n g (take i ?cs) 1) \<and>
      interpolate (?ms ! i) (?cs ! i) = honest_round ?n g (take i ?cs) (?cs ! i)"
  proof (rule consistent_rounds [where e = "round_values claimed ?ms ?cs"])
    show "round_values claimed ?ms ?cs 0 \<noteq> cube_sum ?n g" using wrong by (simp add: round_values_def)
    show "round_values claimed ?ms ?cs ?n = g ?cs" using run(6) subclaim by simp
    show "interpolate (?ms ! i) 0 + interpolate (?ms ! i) 1 = round_values claimed ?ms ?cs i" if "i < ?n" for i
      using run(5) [OF that] ends [OF that] by simp
  qed (auto simp: len round_values_def)
  then obtain i where i: "i < ?n" "interpolate (?ms ! i) (?cs ! i) = honest_round ?n g (take i ?cs) (?cs ! i)"
    and "\<exists>y. interpolate (?ms ! i) y \<noteq> honest_round ?n g (take i ?cs) y" by blast
  then obtain y where "interpolate (?ms ! i) y \<noteq> honest_round ?n g (take i ?cs) y" by blast
  then have "finite {z. interpolate (?ms ! i) z = honest_round ?n g (take i ?cs) z} \<and>
      card {z. interpolate (?ms ! i) z = honest_round ?n g (take i ?cs) z} \<le> ?d"
    using run(5) [OF i(1)] len i(1)
    by (intro poly_agree [where y = y] poly_interpolate honest_round_poly [OF degree]) auto
  with i show ?thesis by (auto simp: Let_def)
qed

end
