(* ===== verification/SumcheckProver.thy ===== *)
theory SumcheckProver
  imports SumcheckVerifier
begin

text \<open>
  The sumcheck prover, \<open>sumcheck/src/prover.rs\<close>, the code its macro \<open>sumcheck_code_gen!\<close> expands to
  (\<open>sumcheck_macro/src/lib.rs\<close>) and the merge of the threads' polynomials (\<open>sumcheck/src/util.rs\<close>). In the
  first phase every thread proves rounds on its chunk; the threads meet in each round, where the main
  thread adds their messages and hands out the challenge, so a round of all threads is one step. The
  second phase continues on the merged polynomial. \<open>pool\<close> is the size of the thread pool.
\<close>

record 'f IOPProverState =
  is_main_worker :: bool
  challenges :: "'f list"
  p_round :: nat
  poly :: "'f VirtualPolynomial"
  p_max_num_variables :: nat
  p_poly_meta :: "PolyMeta list"
  phase2_numvar :: "nat option"

subsection \<open>Vectors that are added\<close>

definition additive_vec_new :: "nat \<Rightarrow> 'f::field list" where
  "additive_vec_new n = replicate n 0"

definition additive_vec_add :: "'f::field list \<Rightarrow> 'f list \<Rightarrow> 'f list" where
  "additive_vec_add acc rhs = map2 (+) acc rhs @ drop (length rhs) acc"

definition additive_array_sum :: "nat \<Rightarrow> 'f::field list list \<Rightarrow> 'f list" where
  "additive_array_sum n arrays = (case arrays of
     [] \<Rightarrow> replicate n 0 | a # as \<Rightarrow> fold (\<lambda>item acc. additive_vec_add acc item) as a)"

subsection \<open>The generated round code\<close>

definition largest_even_below :: "nat \<Rightarrow> nat" where
  "largest_even_below n = (if n mod 2 = 0 then n else n - 1)"

definition idx_of_one_bits :: "nat \<Rightarrow> nat list" where
  "idx_of_one_bits n = filter (\<lambda>j. n div 2 ^ j mod 2 = 1) [0..<bit_length n]"

text \<open>The factor of one polynomial in row \<open>i\<close>, \<open>i = 1, ..., degree + 1\<close>: its value at \<open>i - 1\<close> on the line of a pair.\<close>

definition row_factor :: "nat \<Rightarrow> nat \<Rightarrow> 'f::field list \<Rightarrow> 'f checked" where
  "row_factor i b v =
     (if i = 1 then checked_nth v b
      else if i = 2 then checked_nth v (b + 1)
      else bindE (checked_nth v b) (\<lambda>lo. bindE (checked_nth v (b + 1)) (\<lambda>hi.
        let c = (\<lambda>k. ((\<lambda>x. x + x) ^^ k) (hi - lo))
        in Inr (sum_list (map c (idx_of_one_bits (i - 2))) + hi))))"

definition additive_items :: "nat \<Rightarrow> 'f::field list list \<Rightarrow> nat \<Rightarrow> 'f list checked" where
  "additive_items deg vs b =
     mapE (\<lambda>i. bindE (mapE (row_factor i b) vs) (\<lambda>fs. Inr (prod_list fs))) [1..<deg + 2]"

definition plain_product :: "'f::field list list \<Rightarrow> nat \<Rightarrow> 'f checked" where
  "plain_product vs b = bindE (mapE (\<lambda>v. checked_nth v b) vs) (\<lambda>fs. Inr (prod_list fs))"

definition full_sum :: "'f::field list list \<Rightarrow> nat \<Rightarrow> nat \<Rightarrow> 'f checked" where
  "full_sum vs len multiplicity =
     bindE (mapE (plain_product vs) [0..<largest_even_below len]) (\<lambda>ps.
       Inr (if 0 < multiplicity then sum_list ps * of_nat (2 ^ multiplicity) else sum_list ps))"

text \<open>The arguments sorted: extension field before base field, otherwise in order.\<close>

definition is_ext :: "'f MultilinearExtension \<Rightarrow> bool" where
  "is_ext m = (case evaluations m of Ext _ \<Rightarrow> True | _ \<Rightarrow> False)"

definition sort_by_field :: "'f MultilinearExtension list \<Rightarrow> 'f list list checked" where
  "sort_by_field fs =
     mapE (\<lambda>m. op_mle m Inr) (filter is_ext fs @ filter (\<lambda>m. \<not> is_ext m) fs)"

definition expected_numvars_at_round :: "'f IOPProverState \<Rightarrow> nat" where
  "expected_numvars_at_round s = p_max_num_variables s + 1 - p_round s"

definition sumcheck_code_gen :: "'f::field IOPProverState \<Rightarrow> nat list \<Rightarrow> 'f list checked" where
  "sumcheck_code_gen s idx =
     (let deg = length idx in
      bindE (mapE (checked_nth (flattened_ml_extensions (poly s))) idx) (\<lambda>fs.
      bindE (sort_by_field fs) (\<lambda>vs.
      bindE (checked_nth vs 0) (\<lambda>v1.
      bindE (ceil_log2 (length v1)) (\<lambda>num_var.
      bindE (checked_nth idx 0) (\<lambda>i0. bindE (checked_nth (p_poly_meta s) i0) (\<lambda>poly_type.
      case poly_type of
        Phase2Only \<Rightarrow>
          if is_main_worker s
          then bindE (full_sum vs (length v1)
                 (expected_numvars_at_round s + (case phase2_numvar s of None \<Rightarrow> 0 | Some n \<Rightarrow> n) - 1 - num_var))
               (\<lambda>sum. Inr (replicate (deg + 1) sum))
          else Inr (replicate (deg + 1) 0)
      | Normal \<Rightarrow>
          if num_var < expected_numvars_at_round s
          then bindE (full_sum vs (length v1) (expected_numvars_at_round s - 1 - num_var))
               (\<lambda>sum. Inr (replicate (deg + 1) sum))
          else if length v1 = 1
          then bindE (plain_product vs 0) (\<lambda>x. Inr (replicate (deg + 1) x))
          else bindE (mapE (additive_items deg vs) (rev (even_indices (largest_even_below (length v1)))))
               (\<lambda>arrays. Inr (additive_array_sum (deg + 1) arrays)))))))))"

subsection \<open>A round\<close>

definition fix_var :: "'f::field IOPProverState \<Rightarrow> 'f \<Rightarrow> 'f IOPProverState checked" where
  "fix_var s r =
     (let expected = expected_numvars_at_round s; ms = flattened_ml_extensions (poly s) in
      assert_that (length ms = length (p_poly_meta s))
       (bindE (mapE (\<lambda>(m, poly_type).
           if expected = num_vars m \<and> poly_type = Normal
           then if is_mut m then fix_variables_in_place m [r] else fix_variables m [r]
           else Inr m) (zip ms (p_poly_meta s))) (\<lambda>ms.
         Inr (s\<lparr>poly := (poly s)\<lparr>flattened_ml_extensions := ms\<rparr>\<rparr>))))"

definition push_challenges :: "'f list \<Rightarrow> 'f IOPProverState \<Rightarrow> 'f IOPProverState" where
  "push_challenges cs s = s\<lparr>challenges := challenges s @ cs\<rparr>"

text \<open>What one term adds to the univariate polynomial of the round.\<close>

definition term_message :: "'f::field IOPProverState \<Rightarrow> 'f IndexTerm \<Rightarrow> 'f list checked" where
  "term_message s t =
     (let idx = term_product t; d = max_degree (aux_info (poly s)) in
      if 1 \<le> length idx \<and> length idx \<le> 6
      then bindE (sumcheck_code_gen s idx) (\<lambda>mono.
        let written = map (\<lambda>m. m * either_value (term_scalar t)) (take (min (length idx + 1) (d + 1)) mono);
            uni_variate = written @ replicate (d + 1 - length written) 0
        in if length idx < d then extrapolate_from_table uni_variate (length idx + 1) else Inr uni_variate)
      else Inl UnimplementedCase)"

definition prove_round_and_update_state ::
  "'f::field IOPProverState \<Rightarrow> 'f option \<Rightarrow> ('f IOPProverMessage \<times> 'f IOPProverState) checked" where
  "prove_round_and_update_state s challenge =
     assert_that (p_round s < max_num_variables (aux_info (poly s)))
      (bindE (if 0 < p_round s
         then (case challenge of
             None \<Rightarrow> Inl AssertionFailed
           | Some chal \<Rightarrow> fix_var (push_challenges [chal] s) chal)
         else Inr s) (\<lambda>s.
       let s = s\<lparr>p_round := p_round s + 1\<rparr> in
       bindE (foldE (\<lambda>uni_polys mt. foldE (\<lambda>uni_polys t.
            bindE (term_message s t) (\<lambda>uni_variate. Inr (additive_vec_add uni_polys uni_variate)))
          uni_polys (terms mt)) (additive_vec_new (max_degree (aux_info (poly s)) + 1)) (products (poly s)))
        (\<lambda>uni_polys. Inr (\<lparr>message_evaluations = uni_polys\<rparr>, s))))"

definition get_mle_final_evaluations :: "'f IOPProverState \<Rightarrow> 'f list list checked" where
  "get_mle_final_evaluations s = mapE (\<lambda>m. op_mle m Inr) (flattened_ml_extensions (poly s))"

definition get_mle_flatten_final_evaluations :: "'f IOPProverState \<Rightarrow> 'f list checked" where
  "get_mle_flatten_final_evaluations s = bindE (get_mle_final_evaluations s) (\<lambda>xs. Inr (concat xs))"

definition prover_init ::
  "bool \<Rightarrow> 'f VirtualPolynomial \<Rightarrow> nat option \<Rightarrow> PolyMeta list option \<Rightarrow> 'f IOPProverState checked" where
  "prover_init main p phase2 meta =
     assert_that (max_num_variables (aux_info p) \<noteq> 0)
      (assert_that (case meta of None \<Rightarrow> True | Some m \<Rightarrow> length m = length (flattened_ml_extensions p))
       (Inr \<lparr>is_main_worker = main, challenges = [], p_round = 0, poly = p,
             p_max_num_variables = max_num_variables (aux_info p),
             p_poly_meta = (case meta of None \<Rightarrow> replicate (length (flattened_ml_extensions p)) Normal | Some m \<Rightarrow> m),
             phase2_numvar = phase2\<rparr>))"

subsection \<open>Merging the threads\<close>

definition is_power_of_two :: "nat \<Rightarrow> bool" where
  "is_power_of_two n \<longleftrightarrow> 0 < n \<and> n = 2 ^ trailing_zeros n"

definition merged_num_vars :: "'f VirtualPolynomial \<Rightarrow> nat \<Rightarrow> PolyMeta list \<Rightarrow> nat checked" where
  "merged_num_vars p0 log2_poly_len meta =
     (case filter (\<lambda>(i, m). m = Normal) (enumerate 0 meta) of
        (index, _) # _ \<Rightarrow> bindE (checked_nth (flattened_ml_extensions p0) index) (\<lambda>m. Inr (num_vars m + log2_poly_len))
      | [] \<Rightarrow> (case map num_vars (flattened_ml_extensions p0) of
                 [] \<Rightarrow> Inl UnwrapOfNone | n # ns \<Rightarrow> Inr (fold max ns n)))"

definition merge_one ::
  "'f VirtualPolynomial list \<Rightarrow> 'f VirtualPolynomial \<Rightarrow> nat \<Rightarrow> nat \<Rightarrow> nat \<times> PolyMeta \<Rightarrow> 'f MultilinearExtension checked" where
  "merge_one virtual_polys p0 log2_poly_len merged = (\<lambda>(i, meta). case meta of
     Normal \<Rightarrow>
       bindE (mapE (\<lambda>vp. bindE (checked_nth (flattened_ml_extensions vp) i) (\<lambda>m.
           case evaluations m of Ext s \<Rightarrow> Inr (to_vec s) | _ \<Rightarrow> Inl UnreachableCode)) virtual_polys) (\<lambda>xss.
         from_evaluations_ext_vec merged (concat xss))
   | Phase2Only \<Rightarrow>
       bindE (checked_nth (flattened_ml_extensions p0) i) (\<lambda>m.
       assert_that (num_vars m \<le> log2_poly_len)
         (bindE (op_mle m (\<lambda>xs. Inr (concat (map (replicate (2 ^ (merged - num_vars m))) xs))))
           (from_evaluations_ext_vec merged))))"

definition merge_sumcheck_polys ::
  "'f VirtualPolynomial list \<Rightarrow> PolyMeta list option \<Rightarrow> 'f VirtualPolynomial checked" where
  "merge_sumcheck_polys virtual_polys meta =
     assert_that (virtual_polys \<noteq> []) (assert_that (is_power_of_two (length virtual_polys))
      (bindE (ceil_log2 (length virtual_polys)) (\<lambda>log2_poly_len.
       let meta = (case meta of Some m \<Rightarrow> m | None \<Rightarrow> replicate (length virtual_polys) Normal);
           p0 = hd virtual_polys in
       bindE (merged_num_vars p0 log2_poly_len meta) (\<lambda>merged.
       assert_that (length (flattened_ml_extensions p0) = length meta)
        (bindE (mapE (merge_one virtual_polys p0 log2_poly_len merged) (enumerate 0 meta)) (\<lambda>ms.
         Inr (p0\<lparr>aux_info := (aux_info p0)\<lparr>max_num_variables := if meta = [] then 0 else merged\<rparr>,
                  flattened_ml_extensions := ms\<rparr>)))))))"

definition merge_sumcheck_prover_state :: "'f IOPProverState list \<Rightarrow> 'f VirtualPolynomial checked" where
  "merge_sumcheck_prover_state prover_states =
     bindE (checked_nth prover_states 0) (\<lambda>s0.
       merge_sumcheck_polys (map poly prover_states) (Some (p_poly_meta s0)))"

subsection \<open>The prover\<close>

text \<open>One round of all threads; the main thread is the last one.\<close>

definition phase1_round ::
  "('f::field, 't) transcript_ops \<Rightarrow> nat \<Rightarrow>
   'f IOPProverState list \<times> 'f option \<times> 'f IOPProverMessage list \<times> 't \<Rightarrow>
   ('f IOPProverState list \<times> 'f option \<times> 'f IOPProverMessage list \<times> 't) checked" where
  "phase1_round ops max_deg = (\<lambda>(states, challenge, msgs, t).
     bindE (mapE (\<lambda>s. prove_round_and_update_state s challenge) states) (\<lambda>rs.
     let evs = map (\<lambda>(m, s). message_evaluations m) rs;
         evaluations = fold (\<lambda>e acc. additive_vec_add acc e) (last evs # butlast evs) (additive_vec_new (max_deg + 1));
         t = append_field_element_exts ops evaluations t;
         (c, t) = sample_and_append_challenge ops (bytes_of_string ''Internal round'') t
     in Inr (map snd rs, Some c, msgs @ [\<lparr>message_evaluations = evaluations\<rparr>], t)))"

text \<open>\<open>for _ in 0..n\<close>.\<close>

primrec repeatE :: "nat \<Rightarrow> ('s \<Rightarrow> 's checked) \<Rightarrow> 's \<Rightarrow> 's checked" where
  "repeatE 0 f s = Inr s"
| "repeatE (Suc n) f s = bindE (f s) (repeatE n f)"

definition finish_state :: "'f::field option \<Rightarrow> 'f IOPProverState \<Rightarrow> 'f IOPProverState checked" where
  "finish_state challenge s = (case challenge of
     None \<Rightarrow> Inr s | Some p \<Rightarrow> fix_var (push_challenges [p] s) p)"

definition phase1_sumcheck ::
  "('f::field, 't) transcript_ops \<Rightarrow> nat \<Rightarrow> nat \<Rightarrow> nat \<Rightarrow> PolyMeta list \<Rightarrow> 'f VirtualPolynomial list \<Rightarrow> nat \<Rightarrow> 't \<Rightarrow>
   ('f IOPProverState list \<times> 'f IOPProverMessage list \<times> 't) checked" where
  "phase1_sumcheck ops pool max_thread_id num_variables meta ps max_deg t =
     bindE (ceil_log2 max_thread_id) (\<lambda>log2_max_thread_id.
     assert_that (max_thread_id \<le> pool)
      (bindE (mapE (\<lambda>(i, p). prover_init (i + 1 = max_thread_id) p (Some log2_max_thread_id) (Some meta))
          (enumerate 0 ps)) (\<lambda>states.
       bindE (repeatE num_variables (phase1_round ops max_deg) (states, None, [], t))
         (\<lambda>(states, challenge, msgs, t).
       bindE (mapE (finish_state challenge) states) (\<lambda>states. Inr (states, msgs, t))))))"

definition phase2_round ::
  "('f::field, 't) transcript_ops \<Rightarrow>
   'f IOPProverState \<times> 'f option \<times> 'f IOPProverMessage list \<times> 't \<Rightarrow>
   ('f IOPProverState \<times> 'f option \<times> 'f IOPProverMessage list \<times> 't) checked" where
  "phase2_round ops = (\<lambda>(s, challenge, msgs, t).
     bindE (prove_round_and_update_state s challenge) (\<lambda>(m, s).
     let t = fold (append_field_element_ext ops) (message_evaluations m) t;
         (c, t) = sample_and_append_challenge ops (bytes_of_string ''Internal round'') t
     in Inr (s, Some c, msgs @ [m], t)))"

definition min_product_length :: "'f VirtualPolynomial \<Rightarrow> nat checked" where
  "min_product_length p =
     (case concat (map (\<lambda>mt. map (\<lambda>t. length (term_product t)) (terms mt)) (products p)) of
        [] \<Rightarrow> Inl UnwrapOfNone | n # ns \<Rightarrow> Inr (fold min ns n))"

definition prove ::
  "('f::field, 't) transcript_ops \<Rightarrow> nat \<Rightarrow> 'f VirtualPolynomials \<Rightarrow> 't \<Rightarrow>
   ('f IOPProof \<times> 'f IOPProverState \<times> 't) checked" where
  "prove ops pool virtual_poly t =
     (let max_thread_id = num_threads virtual_poly in
      bindE (get_batched_polys virtual_poly) (\<lambda>(ps, meta).
      assert_that (ps \<noteq> []) (assert_that (length ps = max_thread_id) (assert_that (is_power_of_two max_thread_id)
      (bindE (ceil_log2 max_thread_id) (\<lambda>log2_max_thread_id.
       assert_that (all_equal (map (\<lambda>p. (max_num_variables (aux_info p), max_degree (aux_info p))) ps))
       (let num_variables = max_num_variables (aux_info (hd ps)); max_deg = max_degree (aux_info (hd ps)) in
        bindE (min_product_length (hd ps)) (\<lambda>min_deg.
        bindE (if min_deg < max_deg
               then bindE (ExtrapolationTable_new min_deg max_deg :: 'f list list list checked) (\<lambda>_. Inr ())
               else Inr ()) (\<lambda>_.
        let t = append_message ops (usize_to_le_bytes (num_variables + log2_max_thread_id)) t;
            t = append_message ops (usize_to_le_bytes max_deg) t in
        bindE (if 0 < num_variables
          then bindE (phase1_sumcheck ops pool max_thread_id num_variables meta ps max_deg t) (\<lambda>(states, msgs, t).
            if log2_max_thread_id = 0
            then bindE (checked_nth states 0) (\<lambda>s. Inr (s, msgs, t))
            else bindE (merge_sumcheck_prover_state states) (\<lambda>p.
                 bindE (prover_init True p None None) (\<lambda>s.
                 bindE (checked_nth states 0) (\<lambda>s0. Inr (push_challenges (challenges s0) s, msgs, t)))))
          else bindE (merge_sumcheck_polys ps (Some meta)) (\<lambda>p.
               bindE (prover_init True p None None) (\<lambda>s. Inr (s, [], t)))) (\<lambda>(s, msgs, t).
        bindE (repeatE log2_max_thread_id (phase2_round ops) (s, None, msgs, t)) (\<lambda>(s, challenge, msgs, t).
        bindE (finish_state challenge s) (\<lambda>s.
          Inr (\<lparr>proofs = msgs\<rparr>, s, t)))))))))))))"

end
