(* ===== verification/SumcheckRound.thy ===== *)
theory SumcheckRound
  imports SumcheckProver
begin

text \<open>
  What a round of the prover sends: the value at \<open>0, ..., d\<close> of the sum of the polynomial over the
  remaining variables, as a function of the first one. A polynomial of fewer variables than are left
  is a polynomial in the last of them.
\<close>

subsection \<open>The value of a virtual polynomial\<close>

definition product_value :: "'f::field MultilinearExtension list \<Rightarrow> 'f list \<Rightarrow> nat list \<Rightarrow> 'f" where
  "product_value ms pt idx =
     (\<Prod>i\<leftarrow>idx. ml_value (drop (length pt - num_vars (ms ! i)) pt) (evals (ms ! i)))"

definition term_value :: "'f::field MultilinearExtension list \<Rightarrow> 'f list \<Rightarrow> 'f IndexTerm \<Rightarrow> 'f" where
  "term_value ms pt t = either_value (term_scalar t) * product_value ms pt (term_product t)"

definition poly_value :: "'f::field MonomialTerms list \<Rightarrow> 'f MultilinearExtension list \<Rightarrow> 'f list \<Rightarrow> 'f" where
  "poly_value ps ms pt = (\<Sum>mt\<leftarrow>ps. \<Sum>t\<leftarrow>terms mt. term_value ms pt t)"

subsection \<open>Sums over the cube\<close>

lemma cube_sum_cong: "(\<And>b. length b = n \<Longrightarrow> f b = g b) \<Longrightarrow> cube_sum n f = cube_sum n g"
proof (induction n arbitrary: f g)
  case (Suc n)
  have "cube_sum n (\<lambda>b. f (r # b)) = cube_sum n (\<lambda>b. g (r # b))" for r
    by (rule Suc.IH, rule Suc.prems) simp
  then show ?case by simp
qed simp

lemma cube_sum_zero [simp]: "cube_sum n (\<lambda>b. 0) = 0"
  by (induction n) auto

lemma cube_sum_add: "cube_sum n (\<lambda>b. f b + g b) = cube_sum n f + cube_sum n g"
  by (induction n arbitrary: f g) (auto simp: algebra_simps)

lemma cube_sum_scale: "cube_sum n (\<lambda>b. c * f b) = c * cube_sum n f"
  by (induction n arbitrary: f) (auto simp: algebra_simps)

lemma cube_sum_list: "cube_sum n (\<lambda>b. \<Sum>x\<leftarrow>xs. f x b) = (\<Sum>x\<leftarrow>xs. cube_sum n (f x))"
  by (induction xs) (auto simp: cube_sum_add)

lemma cube_sum_drop: "cube_sum (m + n) (\<lambda>b. f (drop m b)) = 2 ^ m * cube_sum n f"
  by (induction m) (auto simp: algebra_simps)

lemma ml_value_line:
  assumes "length vs = 2 ^ Suc (length b)"
  shows "ml_value (x # b) vs = ml_value (0 # b) vs + (ml_value (1 # b) vs - ml_value (0 # b) vs) * x"
  by (simp add: ml_value_def algebra_simps sum.distrib [symmetric] sum_subtractf [symmetric]
      sum_distrib_left)
    (intro sum.cong; simp add: algebra_simps)

lemma fold_list_bit:
  assumes "length vs = 2 * m" and "i < m"
  shows "fold_list 0 vs ! i = vs ! (2 * i)" and "fold_list 1 vs ! i = vs ! (2 * i + 1)"
  using assms by (auto simp: fold_list_nth)

text \<open>The sum over the cube of a product of multilinear polynomials is the sum over their tables.\<close>

lemma cube_sum_product:
  "(\<And>v. v \<in> set vs \<Longrightarrow> length v = 2 ^ n) \<Longrightarrow>
   cube_sum n (\<lambda>b. \<Prod>v\<leftarrow>vs. ml_value b v) = (\<Sum>i<2 ^ n. \<Prod>v\<leftarrow>vs. v ! i)"
proof (induction n arbitrary: vs)
  case 0
  then show ?case by (simp add: ml_value_def)
next
  case (Suc n)
  have len: "length (fold_list r v) = 2 ^ n" if "v \<in> set vs" for r :: 'a and v
    using Suc.prems [OF that] by simp
  have split: "cube_sum n (\<lambda>b. \<Prod>v\<leftarrow>vs. ml_value (r # b) v) = (\<Sum>i<2 ^ n. \<Prod>v\<leftarrow>vs. fold_list r v ! i)" for r
  proof -
    have "cube_sum n (\<lambda>b. \<Prod>v\<leftarrow>vs. ml_value (r # b) v) = cube_sum n (\<lambda>b. \<Prod>v\<leftarrow>map (fold_list r) vs. ml_value b v)"
      using Suc.prems by (intro cube_sum_cong) (auto simp: ml_value_Cons comp_def cong: map_cong)
    also have "\<dots> = (\<Sum>i<2 ^ n. \<Prod>v\<leftarrow>map (fold_list r) vs. v ! i)"
      using len by (intro Suc.IH) auto
    finally show ?thesis by (simp add: comp_def)
  qed
  have "(\<Prod>v\<leftarrow>vs. fold_list 0 v ! i) = (\<Prod>v\<leftarrow>vs. v ! (2 * i))"
    "(\<Prod>v\<leftarrow>vs. fold_list 1 v ! i) = (\<Prod>v\<leftarrow>vs. v ! (2 * i + 1))" if "i < 2 ^ n" for i
    using Suc.prems that by (auto simp: fold_list_bit [of _ "2 ^ n"] cong: map_cong)
  then have "cube_sum (Suc n) (\<lambda>b. \<Prod>v\<leftarrow>vs. ml_value b v) =
      (\<Sum>i<2 ^ n. (\<Prod>v\<leftarrow>vs. v ! (2 * i)) + (\<Prod>v\<leftarrow>vs. v ! (2 * i + 1)))"
    by (simp add: split sum.distrib)
  then show ?case by (simp only: sum_pairs power_Suc)
qed


subsection \<open>Rows of the generated code\<close>

lemma bit_length_pos: "0 < n \<Longrightarrow> bit_length n = bit_length (n div 2) + 1"
  by (subst bit_length.simps) simp

lemma bit_length_0 [simp]: "bit_length 0 = 0"
  by (subst bit_length.simps) simp

lemma idx_of_one_bits_rec:
  "0 < n \<Longrightarrow> idx_of_one_bits n = (if odd n then [0] else []) @ map Suc (idx_of_one_bits (n div 2))"
proof -
  assume n: "0 < n"
  have "[0..<bit_length n] = 0 # map Suc [0..<bit_length (n div 2)]"
    using bit_length_pos [OF n] by (simp add: upt_conv_Cons map_Suc_upt del: upt_Suc)
  then show ?thesis
    by (simp add: idx_of_one_bits_def filter_map comp_def div_mult2_eq odd_iff_mod_2_eq_one flip: mod2_eq_if)
qed

lemma sum_one_bits: "(\<Sum>j\<leftarrow>idx_of_one_bits n. (2::nat) ^ j) = n"
proof (induction n rule: bit_length.induct)
  case (1 n)
  show ?case
  proof (cases "n = 0")
    case False
    then have "(\<Sum>j\<leftarrow>idx_of_one_bits n. (2::nat) ^ j) =
        (if odd n then 1 else 0) + 2 * (\<Sum>j\<leftarrow>idx_of_one_bits (n div 2). (2::nat) ^ j)"
      by (simp add: idx_of_one_bits_rec comp_def sum_list_const_mult)
    with 1 False show ?thesis by simp
  qed (simp add: idx_of_one_bits_def)
qed

lemma doubled: "((*) 2 ^^ k) (d :: 'f::field) = 2 ^ k * d"
  by (induction k) (auto simp: algebra_simps)

lemma multiple_by_doubling:
  "(\<Sum>k\<leftarrow>idx_of_one_bits n. ((*) 2 ^^ k) d) = of_nat n * (d :: 'f::field)"
proof -
  have "(\<Sum>k\<leftarrow>ks. ((*) 2 ^^ k) d) = of_nat (\<Sum>k\<leftarrow>ks. 2 ^ k) * d" for ks
    by (induction ks) (simp_all add: doubled distrib_right)
  from this [of "idx_of_one_bits n"] show ?thesis by (simp add: sum_one_bits)
qed

lemma row_factor_value:
  assumes "b + 1 < length v" and "1 \<le> i"
  shows "row_factor i b v = Inr (v ! b + of_nat (i - 1) * (v ! (b + 1) - v ! b))"
proof -
  consider "i = 1" | "i = 2" | m where "i = m + 3"
    using assms(2) by (metis One_nat_def Suc_1 add.commute le_add_diff_inverse le_antisym not_less_eq_eq numeral_3_eq_3)
  then show ?thesis
  proof cases
    case 3
    with assms show ?thesis
      by (simp add: row_factor_def Let_def multiple_by_doubling) (simp add: algebra_simps)
  qed (use assms in \<open>simp_all add: row_factor_def\<close>)
qed

lemma additive_items_value:
  assumes "\<And>v. v \<in> set vs \<Longrightarrow> b + 1 < length v"
  shows "additive_items d vs b = Inr (map (\<lambda>x. \<Prod>v\<leftarrow>vs. v ! b + of_nat x * (v ! (b + 1) - v ! b)) [0..<d + 1])"
proof -
  have "additive_items d vs b =
      Inr (map (\<lambda>i. \<Prod>v\<leftarrow>vs. v ! b + of_nat (i - 1) * (v ! (b + 1) - v ! b)) [1..<d + 2])"
    unfolding additive_items_def
  proof (rule mapE_pure)
    fix i assume "i \<in> set [1..<d + 2]"
    then have "mapE (row_factor i b) vs = Inr (map (\<lambda>v. v ! b + of_nat (i - 1) * (v ! (b + 1) - v ! b)) vs)"
      using assms by (intro mapE_pure row_factor_value) auto
    then show "bindE (mapE (row_factor i b) vs) (\<lambda>fs. Inr (prod_list fs)) =
        Inr (\<Prod>v\<leftarrow>vs. v ! b + of_nat (i - 1) * (v ! (b + 1) - v ! b))" by simp
  qed
  also have "[1..<d + 2] = map Suc [0..<d + 1]" by (simp add: map_Suc_upt del: upt_Suc)
  finally show ?thesis by (simp add: comp_def del: upt_Suc)
qed

lemma additive_vec_add_map:
  "additive_vec_add (map f [0..<n]) (map g [0..<n]) = map (\<lambda>i. f i + g i) [0..<n]"
  by (auto simp: additive_vec_add_def zip_map1 zip_map2 comp_def intro!: nth_equalityI)

lemma additive_array_sum_map:
  "additive_array_sum n (map (\<lambda>x. map (f x) [0..<n]) xs) = map (\<lambda>i. \<Sum>x\<leftarrow>xs. f x i) [0..<n]"
proof (cases xs)
  case Nil
  then show ?thesis by (simp add: additive_array_sum_def map_replicate_const)
next
  case (Cons x xs')
  have "fold (\<lambda>item acc. additive_vec_add acc item) (map (\<lambda>x. map (f x) [0..<n]) ys) (map g [0..<n]) =
      map (\<lambda>i. g i + (\<Sum>y\<leftarrow>ys. f y i)) [0..<n]" for ys g
    by (induction ys arbitrary: g) (simp_all add: additive_vec_add_map add.assoc)
  with Cons show ?thesis by (simp add: additive_array_sum_def)
qed

lemma ceil_log2_power [simp]: "ceil_log2 (2 ^ n) = Inr n"
proof -
  have "bit_length (2 ^ n - 1) = n"
  proof (induction n)
    case (Suc n)
    have "(2 * 2 ^ n - 1) div 2 = (2 ^ n - 1 :: nat)" "0 < 2 * 2 ^ n - (1 :: nat)"
      using one_le_power [of "2 :: nat" n] by linarith+
    with Suc bit_length_pos [of "2 * 2 ^ n - 1"] show ?case by simp
  qed simp
  then show ?thesis by (simp add: ceil_log2_def)
qed

lemma largest_even_power: "0 < n \<Longrightarrow> largest_even_below (2 ^ n) = 2 ^ n"
  by (cases n) (simp_all add: largest_even_below_def)

lemma full_sum_value:
  assumes "\<And>v. v \<in> set vs \<Longrightarrow> length v = len" and "even len"
  shows "full_sum vs len m = Inr (2 ^ m * (\<Sum>b<len. \<Prod>v\<leftarrow>vs. v ! b))"
proof -
  have "plain_product vs b = Inr (\<Prod>v\<leftarrow>vs. v ! b)" if "b < len" for b
  proof -
    have "mapE (\<lambda>v. checked_nth v b) vs = Inr (map (\<lambda>v. v ! b) vs)"
      using assms(1) that by (intro mapE_pure) simp
    then show ?thesis by (simp add: plain_product_def)
  qed
  moreover have "largest_even_below len = len" using assms(2) by (simp add: largest_even_below_def)
  ultimately have "mapE (plain_product vs) [0..<largest_even_below len] = Inr (map (\<lambda>b. \<Prod>v\<leftarrow>vs. v ! b) [0..<len])"
    by (intro mapE_pure [where g = "\<lambda>b. \<Prod>v\<leftarrow>vs. v ! b", THEN trans]) auto
  then show ?thesis
    by (simp add: full_sum_def interv_sum_list_conv_sum_set_nat atLeast0LessThan mult.commute)
qed


subsection \<open>The message of a term\<close>

definition mles_ok :: "nat \<Rightarrow> 'f MultilinearExtension list \<Rightarrow> bool" where
  "mles_ok k ms \<longleftrightarrow> (\<forall>m\<in>set ms. mle_ok m \<and> num_vars m \<le> k \<and> (0 < k \<longrightarrow> 0 < num_vars m))"

definition idx_ok :: "'f MultilinearExtension list \<Rightarrow> nat list \<Rightarrow> bool" where
  "idx_ok ms idx \<longleftrightarrow> idx \<noteq> [] \<and> (\<forall>i\<in>set idx. i < length ms \<and> num_vars (ms ! i) = num_vars (ms ! hd idx))"

lemma sort_by_field_sorted:
  assumes "\<And>m. m \<in> set fs \<Longrightarrow> mle_ok m"
  obtains vs where "sort_by_field fs = Inr vs" and "mset vs = mset (map evals fs)"
proof -
  let ?gs = "filter is_ext fs @ filter (\<lambda>m. \<not> is_ext m) fs"
  have "sort_by_field fs = Inr (map evals ?gs)"
    unfolding sort_by_field_def using assms by (intro mapE_pure) (auto simp: op_mle_eq)
  moreover have "mset ?gs = mset fs" by (simp add: multiset_partition [symmetric])
  then have "mset (map evals ?gs) = mset (map evals fs)" by (metis mset_map)
  ultimately show thesis using that by blast
qed

lemma prod_list_mset: "mset xs = mset ys \<Longrightarrow> prod_list (map f xs) = (prod_list (map f ys) :: 'a::comm_monoid_mult)"
  by (metis mset_map prod_mset_prod_list)

lemma sum_even_indices: "(\<Sum>b\<leftarrow>even_indices (2 * m). f b) = (\<Sum>j<m. f (2 * j) :: 'a::comm_monoid_add)"
  by (simp add: even_indices_def comp_def interv_sum_list_conv_sum_set_nat atLeast0LessThan)

lemma generated_rows:
  assumes "\<And>v. v \<in> set vs \<Longrightarrow> length v = 2 ^ Suc n"
  shows "bindE (mapE (additive_items d vs) (rev (even_indices (2 ^ Suc n)))) (\<lambda>arrays. Inr (additive_array_sum (d + 1) arrays)) =
    Inr (map (\<lambda>x. cube_sum n (\<lambda>b. \<Prod>v\<leftarrow>vs. ml_value (of_nat x # b) v)) [0..<d + 1])"
proof -
  let ?item = "\<lambda>b x. \<Prod>v\<leftarrow>vs. v ! b + of_nat x * (v ! (b + 1) - v ! b)"
  have "mapE (additive_items d vs) (rev (even_indices (2 ^ Suc n))) =
      Inr (map (\<lambda>b. map (?item b) [0..<d + 1]) (rev (even_indices (2 ^ Suc n))))"
    using assms by (intro mapE_pure additive_items_value) (auto simp: even_indices_def simp del: upt_Suc)
  moreover have "(\<Sum>b\<leftarrow>rev (even_indices (2 ^ Suc n)). ?item b x) =
      cube_sum n (\<lambda>b. \<Prod>v\<leftarrow>vs. ml_value (of_nat x # b) v)" for x
  proof -
    have "(\<Sum>b\<leftarrow>rev (even_indices (2 ^ Suc n)). ?item b x) = (\<Sum>j<2 ^ n. ?item (2 * j) x)"
      using sum_even_indices [of "\<lambda>b. ?item b x" "2 ^ n"] by (simp add: rev_map [symmetric])
    also have "\<dots> = (\<Sum>j<2 ^ n. \<Prod>v\<leftarrow>map (fold_list (of_nat x)) vs. v ! j)"
      using assms by (intro sum.cong) (auto simp: fold_list_nth comp_def cong: map_cong)
    also have "\<dots> = cube_sum n (\<lambda>b. \<Prod>v\<leftarrow>map (fold_list (of_nat x)) vs. ml_value b v)"
      using assms by (intro cube_sum_product [symmetric]) auto
    also have "\<dots> = cube_sum n (\<lambda>b. \<Prod>v\<leftarrow>vs. ml_value (of_nat x # b) v)"
      using assms by (intro cube_sum_cong) (auto simp: ml_value_Cons comp_def cong: map_cong)
    finally show ?thesis .
  qed
  ultimately show ?thesis by (simp add: additive_array_sum_map del: upt_Suc)
qed

lemma short_sum:
  assumes "\<And>v. v \<in> set vs \<Longrightarrow> length v = 2 ^ nv" and "nv < k"
  shows "2 ^ (k - 1 - nv) * (\<Sum>b<2 ^ nv. \<Prod>v\<leftarrow>vs. v ! b) =
    cube_sum (k - 1) (\<lambda>b. \<Prod>v\<leftarrow>vs. ml_value (drop (k - nv) (x # b)) v)"
proof -
  have "cube_sum (k - 1) (\<lambda>b. \<Prod>v\<leftarrow>vs. ml_value (drop (k - nv) (x # b)) v) =
      cube_sum ((k - 1 - nv) + nv) (\<lambda>b. (\<lambda>c. \<Prod>v\<leftarrow>vs. ml_value c v) (drop (k - 1 - nv) b))"
    using assms(2) by (simp add: drop_Cons' Suc_diff_Suc)
  also have "\<dots> = 2 ^ (k - 1 - nv) * cube_sum nv (\<lambda>c. \<Prod>v\<leftarrow>vs. ml_value c v)"
    by (rule cube_sum_drop)
  also have "cube_sum nv (\<lambda>c. \<Prod>v\<leftarrow>vs. ml_value c v) = (\<Sum>b<2 ^ nv. \<Prod>v\<leftarrow>vs. v ! b)"
    using assms(1) by (rule cube_sum_product)
  finally show ?thesis by simp
qed

lemma code_gen_value:
  fixes s :: "'f::field IOPProverState"
  defines "ms \<equiv> flattened_ml_extensions (poly s)"
  assumes ok: "mles_ok k ms" "0 < k" "idx_ok ms idx"
    and state: "expected_numvars_at_round s = k" "p_poly_meta s = replicate (length ms) Normal"
  shows "sumcheck_code_gen s idx =
    Inr (map (\<lambda>x. cube_sum (k - 1) (\<lambda>b. product_value ms (of_nat x # b) idx)) [0..<length idx + 1])"
proof -
  define nv where "nv = num_vars (ms ! hd idx)"
  let ?fs = "map ((!) ms) idx"
  have in_ms: "i < length ms" "num_vars (ms ! i) = nv" "mle_ok (ms ! i)" if "i \<in> set idx" for i
  proof -
    show "i < length ms" "num_vars (ms ! i) = nv"
      using that ok(3) unfolding idx_ok_def nv_def by blast+
    then have "ms ! i \<in> set ms" by simp
    with ok(1) show "mle_ok (ms ! i)" unfolding mles_ok_def by blast
  qed
  obtain i0 where i0: "idx ! 0 = i0" "i0 \<in> set idx" "idx \<noteq> []"
    using ok(3) by (cases idx) (auto simp: idx_ok_def)
  have nv: "0 < nv" "nv \<le> k"
    using in_ms [OF i0(2)] ok(1, 2) nth_mem [of i0 ms] by (auto simp: mles_ok_def)
  have fs: "mapE (checked_nth ms) idx = Inr ?fs"
    using in_ms by (intro mapE_pure) simp
  have "mle_ok m" if "m \<in> set ?fs" for m using that in_ms by auto
  then obtain vs where vs: "sort_by_field ?fs = Inr vs" "mset vs = mset (map evals ?fs)"
    by (rule sort_by_field_sorted)
  have set_vs: "set vs = evals ` set ?fs" using vs(2) by (metis list.set_map set_mset_mset)
  then have len: "length v = 2 ^ nv" if "v \<in> set vs" for v
    using that in_ms by (auto simp: mle_ok_def)
  have perm: "(\<Prod>v\<leftarrow>vs. f v) = (\<Prod>i\<leftarrow>idx. f (evals (ms ! i)))" for f :: "'f list \<Rightarrow> 'f"
    using prod_list_mset [OF vs(2), of f] by (simp add: comp_def)
  have "vs \<noteq> []" using vs(2) i0(3) by auto
  then have v1: "checked_nth vs 0 = Inr (vs ! 0)" "length (vs ! 0) = 2 ^ nv" using len by auto
  have val: "cube_sum (k - 1) (\<lambda>b. product_value ms (x # b) idx) =
      cube_sum (k - 1) (\<lambda>b. \<Prod>v\<leftarrow>vs. ml_value (drop (k - nv) (x # b)) v)" for x
    unfolding perm product_value_def using ok(2) in_ms
    by (intro cube_sum_cong) (auto cong: map_cong)
  show ?thesis
  proof (cases "nv < k")
    case True
    have "full_sum vs (2 ^ nv) (k - 1 - nv) = Inr (2 ^ (k - 1 - nv) * (\<Sum>b<2 ^ nv. \<Prod>v\<leftarrow>vs. v ! b))"
      using len nv by (intro full_sum_value) auto
    moreover have "replicate (length idx + 1) (2 ^ (k - 1 - nv) * (\<Sum>b<2 ^ nv. \<Prod>v\<leftarrow>vs. v ! b)) =
        map (\<lambda>x. cube_sum (k - 1) (\<lambda>b. product_value ms (of_nat x # b) idx)) [0..<length idx + 1]"
    proof -
      have "cube_sum (k - 1) (\<lambda>b. product_value ms (x # b) idx) =
          2 ^ (k - 1 - nv) * (\<Sum>b<2 ^ nv. \<Prod>v\<leftarrow>vs. v ! b)" for x
        unfolding val by (rule short_sum [symmetric]) (use len True in auto)
      then show ?thesis by (simp only: map_replicate_const length_upt diff_zero)
    qed
    ultimately show ?thesis
      using fs vs(1) v1 i0 in_ms [OF i0(2)] state True
      by (simp add: sumcheck_code_gen_def ms_def [symmetric])
  next
    case False
    with nv obtain n where n: "nv = Suc n" "k = Suc n" by (cases nv) auto
    then have "length (vs ! 0) \<noteq> 1" using v1(2) by simp
    moreover have "largest_even_below (length (vs ! 0)) = 2 ^ Suc n"
      using v1(2) largest_even_power [OF nv(1)] n by simp
    moreover have "cube_sum n (\<lambda>b. product_value ms (x # b) idx) = cube_sum n (\<lambda>b. \<Prod>v\<leftarrow>vs. ml_value (x # b) v)" for x
      using val [of x] n by simp
    ultimately show ?thesis
      using fs vs(1) v1 i0 in_ms [OF i0(2)] state n generated_rows [of vs n "length idx"] len
      by (simp add: sumcheck_code_gen_def ms_def [symmetric] Let_def
          ceil_log2_power [of "Suc n", simplified] del: upt_Suc)
  qed
qed

end
