(* ===== verification/SumcheckComplete.thy ===== *)
theory SumcheckComplete
  imports SumcheckRound
begin

text \<open>
  The prover on one thread: it always returns, its messages are the honest ones, and the verifier that
  runs on the same transcript accepts them, unless a challenge is one of the nodes.
\<close>

subsection \<open>Messages\<close>

definition term_ok :: "nat \<Rightarrow> 'f MultilinearExtension list \<Rightarrow> 'f IndexTerm \<Rightarrow> bool" where
  "term_ok d ms t \<longleftrightarrow> idx_ok ms (term_product t) \<and> length (term_product t) \<le> 6 \<and> length (term_product t) \<le> d"

definition terms_ok :: "nat \<Rightarrow> 'f MultilinearExtension list \<Rightarrow> 'f MonomialTerms list \<Rightarrow> bool" where
  "terms_ok d ms ps \<longleftrightarrow> (\<forall>mt\<in>set ps. \<forall>t\<in>set (terms mt). term_ok d ms t)"

lemma factor_line:
  assumes "mle_ok m" and "num_vars m \<le> length xs + Suc (length b)"
  defines "f \<equiv> \<lambda>x. ml_value (drop (length xs + Suc (length b) - num_vars m) (xs @ x # b)) (evals m)"
  shows "f x = f 0 + (f 1 - f 0) * x"
proof (cases "length b < num_vars m")
  case True
  define ys where "ys = drop (length xs + Suc (length b) - num_vars m) xs"
  define vs where "vs = fold fold_list ys (evals m)"
  have len: "length ys + Suc (length b) = num_vars m" using True assms(2) by (auto simp: ys_def)
  then have "length (evals m) = 2 ^ (length ys + length (x # b))" for x :: 'a using assms(1) by (simp add: mle_ok_def)
  moreover have "drop (length xs + Suc (length b) - num_vars m) (xs @ x # b) = ys @ x # b" for x
    using True by (simp add: ys_def)
  ultimately have f: "f x = ml_value (x # b) vs" for x
    by (simp only: f_def vs_def ml_value_append)
  have "length (fold fold_list ys ws) = 2 ^ k" if "length ws = 2 ^ (length ys + k)" for ws :: "'a list" and k
    using that by (induction ys arbitrary: ws) auto
  from this [of "evals m" "Suc (length b)"] have "length vs = 2 ^ Suc (length b)"
    using len assms(1) by (simp only: vs_def mle_ok_def)
  from ml_value_line [OF this, of x] show ?thesis by (simp only: f)
next
  case False
  then show ?thesis by (simp add: f_def drop_Cons')
qed

lemma product_poly:
  assumes "mles_ok (length xs + Suc (length b)) ms" and "\<And>i. i \<in> set idx \<Longrightarrow> i < length ms"
  shows "poly_of_degree (length idx) (\<lambda>x. product_value ms (xs @ x # b) idx)"
proof -
  let ?f = "\<lambda>i x. ml_value (drop (length xs + Suc (length b) - num_vars (ms ! i)) (xs @ x # b)) (evals (ms ! i))"
  have line: "?f i x = ?f i 0 + (?f i 1 - ?f i 0) * x" if "i \<in> set idx" for i x
    using assms(1) nth_mem [OF assms(2) [OF that]]
    by (intro factor_line) (auto simp: mles_ok_def)
  have "product_value ms (xs @ x # b) idx = (\<Prod>p\<leftarrow>map (\<lambda>i. (?f i 0, ?f i 1 - ?f i 0)) idx. fst p + snd p * x)" for x
    unfolding product_value_def map_map comp_def fst_conv snd_conv length_append length_Cons
    by (rule arg_cong [where f = prod_list], rule map_cong [OF refl], rule line)
  then show ?thesis
    using poly_prod_list_linear [of "map (\<lambda>i. (?f i 0, ?f i 1 - ?f i 0)) idx" "length idx"] by simp
qed

lemma term_poly:
  assumes "mles_ok (length xs + Suc (length b)) ms" and "term_ok d ms t"
  shows "poly_of_degree (length (term_product t)) (\<lambda>x. term_value ms (xs @ x # b) t)"
  unfolding term_value_def using assms
  by (intro poly_scale product_poly) (auto simp: term_ok_def idx_ok_def)

lemma poly_sum_list:
  "(\<And>y. y \<in> set ys \<Longrightarrow> poly_of_degree d (f y)) \<Longrightarrow> poly_of_degree d (\<lambda>x. \<Sum>y\<leftarrow>ys. f y x)"
  by (induction ys) (simp_all add: poly_intros)

lemma poly_value_degree:
  assumes "mles_ok n ms" and "terms_ok d ms ps"
  shows "degree_in_each n d (poly_value ps ms)"
proof -
  have "poly_of_degree d (\<lambda>x. term_value ms (xs @ x # ys) t)"
    if "Suc (length xs + length ys) = n" "mt \<in> set ps" "t \<in> set (terms mt)" for xs ys :: "'a list" and mt t
  proof -
    have "term_ok d ms t" using assms(2) that by (auto simp: terms_ok_def)
    then show ?thesis
      using assms(1) that(1) by (intro poly_mono [OF term_poly]) (auto simp: term_ok_def)
  qed
  then show ?thesis
    unfolding degree_in_each_def poly_value_def by (intro allI impI poly_sum_list)
qed

lemma term_message_value:
  fixes s :: "'f::field IOPProverState"
  defines "ms \<equiv> flattened_ml_extensions (poly s)" and "d \<equiv> max_degree (aux_info (poly s))"
  assumes ok: "mles_ok k ms" "0 < k" "term_ok d ms t" and nodes: "nodes_distinct TYPE('f) d"
    and state: "expected_numvars_at_round s = k" "p_poly_meta s = replicate (length ms) Normal"
  shows "term_message s t =
    Inr (map (\<lambda>x. cube_sum (k - 1) (\<lambda>b. term_value ms (of_nat x # b) t)) [0..<d + 1])"
proof -
  define len where "len = length (term_product t)"
  define g where "g x = cube_sum (k - 1) (\<lambda>b. term_value ms (x # b) t)" for x
  have len: "1 \<le> len" "len \<le> 6" "len \<le> d"
    using ok(3) by (auto simp: term_ok_def idx_ok_def len_def Suc_le_eq)
  have idx: "idx_ok ms (term_product t)" using ok(3) by (simp add: term_ok_def)
  have g: "poly_of_degree len g"
    unfolding g_def len_def using ok(2)
    by (intro cube_sum_poly term_poly [OF _ ok(3), of "[]", simplified]) (use ok(1) in auto)
  obtain mono where mono: "sumcheck_code_gen s (term_product t) = Inr mono"
    and mono_eq: "mono = map (\<lambda>x. cube_sum (k - 1) (\<lambda>b. product_value ms (of_nat x # b) (term_product t))) [0..<len + 1]"
    using code_gen_value [of k s "term_product t"] ok idx state by (simp add: ms_def len_def)
  let ?written = "map (\<lambda>x. g (of_nat x)) [0..<len + 1]"
  have scaled: "map (\<lambda>m. m * either_value (term_scalar t)) (take (min (len + 1) (d + 1)) mono) = ?written"
    unfolding mono_eq using len by (simp add: g_def term_value_def cube_sum_scale mult.commute min_def del: upt_Suc)
  have mono_len: "length mono = len + 1" by (simp add: mono_eq)
  show ?thesis
  proof (cases "len < d")
    case False
    with len have "len = d" by simp
    then show ?thesis
      using mono mono_len scaled len
      by (simp add: term_message_def Let_def len_def [symmetric] d_def [symmetric] g_def del: upt_Suc)
  next
    case True
    let ?uni = "?written @ replicate (d - len) 0"
    have "extrapolate_from_table ?uni (len + 1) =
        Inr (?written @ map (\<lambda>x. interpolate ?written (of_nat x)) [len + 1..<d + 1])"
      using True nodes len extrapolate_from_table_correct [of ?uni "len + 1"] by (simp del: upt_Suc)
    moreover have "interpolate ?written (of_nat x) = g (of_nat x)" for x
      using nodes_distinct_le [OF nodes len(3)] g
      by (intro interpolate_unique) (auto simp: less_Suc_eq_le simp del: upt_Suc)
    moreover have "?written @ map (\<lambda>x. g (of_nat x)) [len + 1..<d + 1] = map (\<lambda>x. g (of_nat x)) [0..<d + 1]"
      using True upt_add_eq_append [of 0 "len + 1" "d - len"]
      by (simp only: map_append [symmetric]) (simp del: upt_Suc)
    ultimately show ?thesis
      unfolding g_def [symmetric] using mono mono_len scaled len True
      by (simp add: term_message_def Let_def len_def [symmetric] d_def [symmetric] del: upt_Suc)
  qed
qed

lemma foldE_pure_add:
  assumes "\<And>x. x \<in> set xs \<Longrightarrow> f x = Inr (map (g x) [0..<n])"
  shows "foldE (\<lambda>acc x. bindE (f x) (\<lambda>v. Inr (additive_vec_add acc v))) (map h [0..<n]) xs =
    Inr (map (\<lambda>i. h i + (\<Sum>x\<leftarrow>xs. g x i)) [0..<n])"
  using assms by (induction xs arbitrary: h) (auto simp: additive_vec_add_map add.assoc)

lemma foldE_nested_add:
  assumes "\<And>y x. y \<in> set ys \<Longrightarrow> x \<in> set (xs y) \<Longrightarrow> f x = Inr (map (g x) [0..<n])"
  shows "foldE (\<lambda>acc y. foldE (\<lambda>acc x. bindE (f x) (\<lambda>v. Inr (additive_vec_add acc v))) acc (xs y)) (map h [0..<n]) ys =
    Inr (map (\<lambda>i. h i + (\<Sum>y\<leftarrow>ys. \<Sum>x\<leftarrow>xs y. g x i)) [0..<n])"
  using assms
proof (induction ys arbitrary: h)
  case (Cons y ys)
  have "foldE (\<lambda>acc x. bindE (f x) (\<lambda>v. Inr (additive_vec_add acc v))) (map h [0..<n]) (xs y) =
      Inr (map (\<lambda>i. h i + (\<Sum>x\<leftarrow>xs y. g x i)) [0..<n])"
    by (rule foldE_pure_add) (use Cons.prems in auto)
  moreover have "foldE (\<lambda>acc y. foldE (\<lambda>acc x. bindE (f x) (\<lambda>v. Inr (additive_vec_add acc v))) acc (xs y)) (map h [0..<n]) ys =
      Inr (map (\<lambda>i. h i + (\<Sum>y\<leftarrow>ys. \<Sum>x\<leftarrow>xs y. g x i)) [0..<n])" for h
    by (rule Cons.IH) (use Cons.prems in auto)
  ultimately show ?case by (simp add: add.assoc)
qed simp

definition all_terms_message :: "'f::field IOPProverState \<Rightarrow> 'f list checked" where
  "all_terms_message s = foldE (\<lambda>uni_polys mt. foldE (\<lambda>uni_polys t.
            bindE (term_message s t) (\<lambda>uni_variate. Inr (additive_vec_add uni_polys uni_variate)))
          uni_polys (terms mt)) (additive_vec_new (max_degree (aux_info (poly s)) + 1)) (products (poly s))"

lemma all_terms_message_value:
  fixes s :: "'f::field IOPProverState"
  defines "ms \<equiv> flattened_ml_extensions (poly s)" and "d \<equiv> max_degree (aux_info (poly s))"
  assumes ok: "mles_ok k ms" "0 < k" "terms_ok d ms (products (poly s))" and nodes: "nodes_distinct TYPE('f) d"
    and state: "expected_numvars_at_round s = k" "p_poly_meta s = replicate (length ms) Normal"
  shows "all_terms_message s =
    Inr (map (\<lambda>x. cube_sum (k - 1) (\<lambda>b. poly_value (products (poly s)) ms (of_nat x # b))) [0..<d + 1])"
proof -
  have "term_message s t = Inr (map (\<lambda>x. cube_sum (k - 1) (\<lambda>b. term_value ms (of_nat x # b) t)) [0..<d + 1])"
    if "mt \<in> set (products (poly s))" "t \<in> set (terms mt)" for mt t
    using that ok nodes state unfolding ms_def d_def
    by (intro term_message_value) (auto simp: terms_ok_def)
  then have "all_terms_message s = Inr (map (\<lambda>x. 0 + (\<Sum>mt\<leftarrow>products (poly s). \<Sum>t\<leftarrow>terms mt.
      cube_sum (k - 1) (\<lambda>b. term_value ms (of_nat x # b) t))) [0..<d + 1])"
    unfolding all_terms_message_def additive_vec_new_def map_replicate_const [symmetric]
    using foldE_nested_add [where ys = "products (poly s)" and xs = terms and f = "term_message s" and n = "d + 1"
        and g = "\<lambda>t x. cube_sum (k - 1) (\<lambda>b. term_value ms (of_nat x # b) t)" and h = "\<lambda>x. 0"]
    by (simp add: d_def map_replicate_const del: upt_Suc replicate_Suc)
  then show ?thesis by (simp add: poly_value_def cube_sum_list del: upt_Suc)
qed


subsection \<open>Fixing a variable\<close>

lemma mapE_ex:
  "(\<And>x. x \<in> set xs \<Longrightarrow> \<exists>y. f x = Inr y \<and> R x y) \<Longrightarrow> \<exists>ys. mapE f xs = Inr ys \<and> list_all2 R xs ys"
proof (induction xs)
  case (Cons x xs)
  then obtain y ys where "f x = Inr y" "R x y" "mapE f xs = Inr ys" "list_all2 R xs ys" by force
  then show ?case by simp
qed simp

definition fixed_at :: "nat \<Rightarrow> 'f::field \<Rightarrow> 'f MultilinearExtension \<Rightarrow> 'f MultilinearExtension \<Rightarrow> bool" where
  "fixed_at k r m m' \<longleftrightarrow> (if num_vars m = k then folded m r m' else m' = m)"

lemma zip_replicate_member:
  "x \<in> set (zip ms (replicate n v)) \<Longrightarrow> snd x = v \<and> fst x \<in> set ms"
  by (cases x) (auto dest: set_zip_leftD set_zip_rightD)

lemma fix_var_value:
  fixes s :: "'f::field IOPProverState"
  defines "ms \<equiv> flattened_ml_extensions (poly s)"
  assumes "mles_ok k ms" and "0 < k" and "expected_numvars_at_round s = k"
    and "p_poly_meta s = replicate (length ms) Normal"
  shows "\<exists>ms'. fix_var s r = Inr (s\<lparr>poly := (poly s)\<lparr>flattened_ml_extensions := ms'\<rparr>\<rparr>) \<and>
    list_all2 (fixed_at k r) ms ms'"
proof -
  let ?f = "\<lambda>(m, poly_type). if k = num_vars m \<and> poly_type = Normal
           then if is_mut m then fix_variables_in_place m [r] else fix_variables m [r] else Inr m"
  have "\<exists>y. ?f x = Inr y \<and> fixed_at k r (fst x) y" if "x \<in> set (zip ms (replicate (length ms) Normal))" for x
  proof -
    from zip_replicate_member [OF that] obtain m where x: "x = (m, Normal)" "m \<in> set ms" by (cases x) simp
    then have m: "mle_ok m" "0 < num_vars m" using assms(2, 3) by (auto simp: mles_ok_def)
    then show ?thesis
      using fix_one_variable [of m r] fix_variables_in_place_folds [of m r] by (auto simp: x fixed_at_def)
  qed
  then obtain ms' where ms': "mapE ?f (zip ms (replicate (length ms) Normal)) = Inr ms'"
    "list_all2 (\<lambda>x y. fixed_at k r (fst x) y) (zip ms (replicate (length ms) Normal)) ms'"
    using mapE_ex [where R = "\<lambda>x y. fixed_at k r (fst x) y"] by blast
  have "list_all2 (fixed_at k r) (map fst (zip ms (replicate (length ms) Normal))) ms'"
    using ms'(2) unfolding list_all2_map1 .
  then have "list_all2 (fixed_at k r) ms ms'" by simp
  moreover have "fix_var s r = Inr (s\<lparr>poly := (poly s)\<lparr>flattened_ml_extensions := ms'\<rparr>\<rparr>)"
    using ms'(1) assms by (simp add: fix_var_def Let_def)
  ultimately show ?thesis by blast
qed

lemma fixed_mles_ok:
  assumes "list_all2 (fixed_at k r) ms ms'" and "mles_ok k ms" and "0 < k"
  shows "mles_ok (k - 1) ms'"
  unfolding mles_ok_def
proof
  fix m' assume "m' \<in> set ms'"
  then obtain i where i: "i < length ms'" "m' = ms' ! i" by (auto simp: in_set_conv_nth)
  then have "fixed_at k r (ms ! i) m'" "ms ! i \<in> set ms"
    using assms(1) by (auto simp: list_all2_conv_all_nth)
  with assms(2, 3) show "mle_ok m' \<and> num_vars m' \<le> k - 1 \<and> (0 < k - 1 \<longrightarrow> 0 < num_vars m')"
    unfolding mles_ok_def by (fastforce simp: fixed_at_def folded_def split: if_splits)
qed

lemma fixed_idx_ok:
  assumes "list_all2 (fixed_at k r) ms ms'" and "idx_ok ms idx"
  shows "idx_ok ms' idx"
proof -
  have nv: "num_vars (ms' ! i) = (if num_vars (ms ! i) = k then k - 1 else num_vars (ms ! i))" if "i < length ms" for i
    using assms(1) that by (auto simp: list_all2_conv_all_nth fixed_at_def folded_def)
  have "hd idx \<in> set idx" using assms(2) by (auto simp: idx_ok_def)
  then show ?thesis
    using assms list_all2_lengthD [OF assms(1)] unfolding idx_ok_def by (metis nv)
qed

lemma fixed_factor:
  assumes "fixed_at k r m m'" and "mle_ok m" and "num_vars m \<le> k" and "0 < k" and "length b = k - 1"
  shows "ml_value (drop (length b - num_vars m') b) (evals m') =
    ml_value (drop (k - num_vars m) (r # b)) (evals m)"
proof (cases "num_vars m = k")
  case True
  with assms have "length (evals m) = 2 ^ Suc (length b)" by (simp add: mle_ok_def)
  with True assms show ?thesis by (simp add: fixed_at_def folded_def ml_value_Cons)
next
  case False
  with assms have "k - num_vars m = Suc (k - 1 - num_vars m)" by simp
  with False assms show ?thesis by (simp add: fixed_at_def)
qed

lemma fixed_poly_value:
  assumes "list_all2 (fixed_at k r) ms ms'" and "mles_ok k ms" and "0 < k" and "length b = k - 1"
    and "terms_ok d ms ps"
  shows "poly_value ps ms' b = poly_value ps ms (r # b)"
proof -
  have factor: "ml_value (drop (length b - num_vars (ms' ! i)) b) (evals (ms' ! i)) =
      ml_value (drop (k - num_vars (ms ! i)) (r # b)) (evals (ms ! i))" if "i < length ms" for i
    using assms(1, 2, 3, 4) that nth_mem [OF that]
    by (intro fixed_factor [of k r]) (auto simp: list_all2_conv_all_nth mles_ok_def)
  have "term_value ms' b t = term_value ms (r # b) t" if "mt \<in> set ps" "t \<in> set (terms mt)" for mt t
  proof -
    have "idx_ok ms (term_product t)" using assms(5) that by (auto simp: terms_ok_def term_ok_def)
    moreover have "length (r # b) = k" using assms(3, 4) by simp
    ultimately show ?thesis
      unfolding term_value_def product_value_def
      by (intro arg_cong [where f = "\<lambda>x. either_value (term_scalar t) * prod_list x"] map_cong refl)
        (simp only: factor idx_ok_def)
  qed
  then show ?thesis
    unfolding poly_value_def by (intro arg_cong [where f = sum_list] map_cong refl)
qed


subsection \<open>The rounds\<close>

text \<open>
  A prover state in which the challenges \<open>cs\<close> have been fixed and \<open>k\<close> variables remain: what is left is
  the partial evaluation of the original polynomial \<open>g\<close>.
\<close>

definition prover_ready ::
  "'f::field VirtualPolynomial \<Rightarrow> ('f list \<Rightarrow> 'f) \<Rightarrow> nat \<Rightarrow> 'f list \<Rightarrow> 'f IOPProverState \<Rightarrow> bool" where
  "prover_ready p g k cs s \<longleftrightarrow>
     length cs + k = max_num_variables (aux_info p) \<and> challenges s = cs \<and>
     p_max_num_variables s = max_num_variables (aux_info p) \<and>
     aux_info (poly s) = aux_info p \<and> products (poly s) = products p \<and>
     p_poly_meta s = replicate (length (flattened_ml_extensions (poly s))) Normal \<and>
     mles_ok k (flattened_ml_extensions (poly s)) \<and>
     terms_ok (max_degree (aux_info p)) (flattened_ml_extensions (poly s)) (products p) \<and>
     (\<forall>b. length b = k \<longrightarrow> poly_value (products p) (flattened_ml_extensions (poly s)) b = g (cs @ b))"

definition honest_message :: "'f::field VirtualPolynomial \<Rightarrow> ('f list \<Rightarrow> 'f) \<Rightarrow> 'f list \<Rightarrow> 'f IOPProverMessage" where
  "honest_message p g cs = \<lparr>message_evaluations =
     map (\<lambda>x. honest_round (max_num_variables (aux_info p)) g cs (of_nat x)) [0..<max_degree (aux_info p) + 1]\<rparr>"

lemma ready_round [simp]: "prover_ready p g k cs (s\<lparr>p_round := r\<rparr>) = prover_ready p g k cs s"
  by (simp add: prover_ready_def)

lemma fix_ready:
  fixes s :: "'f::field IOPProverState"
  assumes "prover_ready p g k cs s" and "0 < k" and "p_round s = length cs + 1"
  shows "\<exists>s'. fix_var (push_challenges [c] s) c = Inr s' \<and> prover_ready p g (k - 1) (cs @ [c]) s' \<and> p_round s' = p_round s"
proof -
  let ?s = "push_challenges [c] s" and ?ms = "flattened_ml_extensions (poly s)"
  have s: "mles_ok k ?ms" "terms_ok (max_degree (aux_info p)) ?ms (products p)"
    "length cs + k = max_num_variables (aux_info p)" "expected_numvars_at_round ?s = k"
    "p_poly_meta ?s = replicate (length ?ms) Normal" "poly ?s = poly s"
    using assms by (auto simp: prover_ready_def push_challenges_def expected_numvars_at_round_def)
  obtain ms' where ms': "fix_var ?s c = Inr (?s\<lparr>poly := (poly ?s)\<lparr>flattened_ml_extensions := ms'\<rparr>\<rparr>)"
    "list_all2 (fixed_at k c) ?ms ms'"
    using fix_var_value [of k ?s c] s assms(2) by auto
  let ?s' = "?s\<lparr>poly := (poly ?s)\<lparr>flattened_ml_extensions := ms'\<rparr>\<rparr>"
  have "terms_ok (max_degree (aux_info p)) ms' (products p)"
    using s(2) fixed_idx_ok [OF ms'(2)] by (auto simp: terms_ok_def term_ok_def)
  moreover have "poly_value (products p) ms' b = g (cs @ c # b)" if "length b = k - 1" for b
    using fixed_poly_value [OF ms'(2) s(1) assms(2) that s(2)] assms(1, 2) that
    by (auto simp: prover_ready_def)
  moreover note fixed_mles_ok [OF ms'(2) s(1) assms(2)] list_all2_lengthD [OF ms'(2)]
  ultimately have "prover_ready p g (k - 1) (cs @ [c]) ?s'"
    using assms(1, 2) by (auto simp: prover_ready_def push_challenges_def)
  with ms'(1) show ?thesis by (auto simp: push_challenges_def)
qed

lemma message_ready:
  fixes s :: "'f::field IOPProverState"
  assumes "prover_ready p g k cs s" and "0 < k" and "p_round s = length cs + 1"
    and nodes: "nodes_distinct TYPE('f) (max_degree (aux_info p))"
  shows "all_terms_message s = Inr (message_evaluations (honest_message p g cs))"
proof -
  have sent: "all_terms_message s = Inr (map (\<lambda>x. cube_sum (k - 1) (\<lambda>b. poly_value (products (poly s))
      (flattened_ml_extensions (poly s)) (of_nat x # b))) [0..<max_degree (aux_info (poly s)) + 1])"
    using assms by (intro all_terms_message_value) (auto simp: prover_ready_def expected_numvars_at_round_def)
  have "cube_sum (k - 1) (\<lambda>b. poly_value (products (poly s)) (flattened_ml_extensions (poly s)) (x # b)) =
      honest_round (max_num_variables (aux_info p)) g cs x" for x
  proof -
    have "max_num_variables (aux_info p) - Suc (length cs) = k - 1" using assms(1) by (auto simp: prover_ready_def)
    moreover have "cube_sum (k - 1) (\<lambda>b. poly_value (products (poly s)) (flattened_ml_extensions (poly s)) (x # b)) =
        cube_sum (k - 1) (\<lambda>b. g (cs @ x # b))"
      using assms(1, 2) by (intro cube_sum_cong) (auto simp: prover_ready_def)
    ultimately show ?thesis by (simp add: honest_round_def)
  qed
  with sent show ?thesis using assms(1) by (simp add: honest_message_def prover_ready_def del: upt_Suc)
qed

lemma prove_round_unfold:
  "prove_round_and_update_state s challenge =
     assert_that (p_round s < max_num_variables (aux_info (poly s)))
      (bindE (if 0 < p_round s
         then (case challenge of None \<Rightarrow> Inl AssertionFailed | Some chal \<Rightarrow> fix_var (push_challenges [chal] s) chal)
         else Inr s) (\<lambda>s. bindE (all_terms_message (s\<lparr>p_round := p_round s + 1\<rparr>))
           (\<lambda>u. Inr (\<lparr>message_evaluations = u\<rparr>, s\<lparr>p_round := p_round s + 1\<rparr>))))"
  by (simp add: prove_round_and_update_state_def all_terms_message_def Let_def)

lemma first_round:
  fixes s :: "'f::field IOPProverState"
  assumes "prover_ready p g k [] s" and "0 < k" and "p_round s = 0"
    and nodes: "nodes_distinct TYPE('f) (max_degree (aux_info p))"
  shows "\<exists>s'. prove_round_and_update_state s None = Inr (honest_message p g [], s') \<and>
    prover_ready p g k [] s' \<and> p_round s' = 1"
  using assms message_ready [of p g k "[]" "s\<lparr>p_round := 1\<rparr>"]
  by (auto simp: prove_round_unfold prover_ready_def honest_message_def)

lemma next_round:
  fixes s :: "'f::field IOPProverState"
  assumes "prover_ready p g k cs s" and "1 < k" and "p_round s = length cs + 1"
    and nodes: "nodes_distinct TYPE('f) (max_degree (aux_info p))"
  shows "\<exists>s'. prove_round_and_update_state s (Some c) = Inr (honest_message p g (cs @ [c]), s') \<and>
    prover_ready p g (k - 1) (cs @ [c]) s' \<and> p_round s' = length (cs @ [c]) + 1"
proof -
  obtain s1 where s1: "fix_var (push_challenges [c] s) c = Inr s1" "prover_ready p g (k - 1) (cs @ [c]) s1"
    "p_round s1 = p_round s" using fix_ready [of p g k cs s c] assms by auto
  moreover have "all_terms_message (s1\<lparr>p_round := p_round s1 + 1\<rparr>) =
      Inr (message_evaluations (honest_message p g (cs @ [c])))"
    using s1 assms by (intro message_ready) auto
  moreover have "p_round s < max_num_variables (aux_info (poly s))"
    using assms by (auto simp: prover_ready_def)
  ultimately show ?thesis using assms(3) by (auto simp: prove_round_unfold honest_message_def)
qed


subsection \<open>The honest verifier run\<close>

lemma mapE_nth_pure:
  "length ys = length xs \<Longrightarrow> (\<And>i. i < length xs \<Longrightarrow> f (xs ! i) = Inr (ys ! i)) \<Longrightarrow> mapE f xs = Inr ys"
proof (induction xs arbitrary: ys)
  case (Cons x xs)
  then obtain y ys' where ys: "ys = y # ys'" by (cases ys) auto
  moreover have "f x = Inr y" using Cons.prems(2) [of 0] ys by simp
  moreover have "mapE f xs = Inr ys'" using Cons.prems Cons.prems(2) [of "Suc _"] ys by (intro Cons.IH) auto
  ultimately show ?case by simp
qed simp

lemma honest_round_sum:
  assumes "length cs < n"
  shows "honest_round n g cs 0 + honest_round n g cs 1 = cube_sum (n - length cs) (\<lambda>b. g (cs @ b))"
proof -
  obtain k where "n - length cs = Suc k" "n - Suc (length cs) = k"
    using assms by (metis Suc_diff_Suc)
  then show ?thesis by (simp add: honest_round_def)
qed

lemma honest_round_at:
  "honest_round n g cs c = cube_sum (n - length (cs @ [c])) (\<lambda>b. g ((cs @ [c]) @ b))"
  by (simp add: honest_round_def)

lemma honest_accepted:
  fixes g :: "'f::field list \<Rightarrow> 'f"
  assumes g: "degree_in_each (max_num_variables aux) (max_degree aux) g"
    and n: "0 < max_num_variables aux" and d: "1 \<le> max_degree aux" "max_degree aux \<le> 4"
    and nodes: "nodes_distinct TYPE('f) (max_degree aux)"
    and len: "length (proofs prf) = max_num_variables aux"
    and cs: "round_challenges ops (map message_evaluations (proofs prf)) (start_transcript ops aux t) = (cs, t')"
    and honest: "\<And>i. i < max_num_variables aux \<Longrightarrow> message_evaluations (proofs prf ! i) =
      map (\<lambda>x. honest_round (max_num_variables aux) g (take i cs) (of_nat x)) [0..<max_degree aux + 1]"
    and lucky: "\<And>c. c \<in> set cs \<Longrightarrow> c \<notin> of_nat ` {..max_degree aux}"
  shows "verify ops (cube_sum (max_num_variables aux) g) prf aux t =
    Inr (\<lparr>point = cs, expected_evaluation = g cs\<rparr>, t')"
proof -
  let ?n = "max_num_variables aux" and ?d = "max_degree aux"
  let ?ms = "map message_evaluations (proofs prf)"
  let ?h = "\<lambda>i. honest_round ?n g (take i cs)"
  define ex where "ex = map (\<lambda>i. ?h i (cs ! i)) [0..<?n]"
  have received: "received prf ?n = ?ms" using len by (simp add: received_def)
  have len_cs: "length cs = ?n" using cs len by (metis fst_conv length_map length_round_challenges)
  let ?vs = "\<lparr>v_round = ?n, v_num_vars = ?n, v_max_degree = ?d, finished = True,
      polynomials_received = ?ms, v_challenges = cs\<rparr>"
  have expected: "mapE (\<lambda>(evaluations, challenge). assert_that (length evaluations = ?d + 1)
      (extrapolate_uni_poly evaluations challenge)) (zip ?ms cs) = Inr ex"
  proof (rule mapE_nth_pure)
    fix i assume "i < length (zip ?ms cs)"
    then have i: "i < ?n" using len len_cs by simp
    have "poly_of_degree ?d (?h i)" using g i len_cs by (intro honest_round_poly) auto
    then have "interpolate (?ms ! i) (cs ! i) = ?h i (cs ! i)"
      using honest [OF i] i len nodes by (intro interpolate_unique) (auto simp: less_Suc_eq_le simp del: upt_Suc)
    moreover have "cs ! i \<notin> of_nat ` {..?d}" using lucky i len_cs by simp
    ultimately show "(case zip ?ms cs ! i of (ev, ch) \<Rightarrow> assert_that (length ev = ?d + 1)
        (extrapolate_uni_poly ev ch)) = Inr (ex ! i)"
      using extrapolate_uni_poly_correct [OF nodes, of "?ms ! i" "cs ! i"] honest [OF i] i len len_cs d
      by (simp add: ex_def del: upt_Suc)
  qed (simp add: ex_def len len_cs)
  have claim: "?h i 0 + ?h i 1 = (cube_sum ?n g # ex) ! i" if "i < ?n" for i
  proof (cases i)
    case 0
    with that show ?thesis using honest_round_sum [of "[]" ?n g] by simp
  next
    case (Suc j)
    with that have "take i cs = take j cs @ [cs ! j]" using len_cs by (simp add: take_Suc_conv_app_nth)
    with that Suc show ?thesis
      using honest_round_sum [of "take i cs" ?n g] honest_round_at [of ?n g "take j cs" "cs ! j"] len_cs
      by (simp add: ex_def)
  qed
  have checks: "mapE (\<lambda>(evaluations, expected). bindE (checked_nth evaluations 0) (\<lambda>e0.
      bindE (checked_nth evaluations 1) (\<lambda>e1. assert_that (e0 + e1 = expected) (Inr ()))))
      (take ?n (zip ?ms (cube_sum ?n g # ex))) = Inr (replicate ?n ())"
  proof (rule mapE_nth_pure)
    fix i assume "i < length (take ?n (zip ?ms (cube_sum ?n g # ex)))"
    then have i: "i < ?n" by simp
    have "?ms ! i ! 0 + ?ms ! i ! 1 = (cube_sum ?n g # ex) ! i" "2 \<le> length (?ms ! i)" "?ms ! i \<noteq> []"
      using honest [OF i] i len d claim [OF i] by (simp_all del: upt_Suc)
    then show "(case take ?n (zip ?ms (cube_sum ?n g # ex)) ! i of (ev, expected) \<Rightarrow>
        bindE (checked_nth ev 0) (\<lambda>e0. bindE (checked_nth ev 1) (\<lambda>e1.
        assert_that (e0 + e1 = expected) (Inr ())))) = Inr (replicate ?n () ! i)"
      using i len by (simp add: ex_def del: upt_Suc)
  qed (simp add: ex_def len)
  have last: "(cube_sum ?n g # ex) ! ?n = g cs"
  proof -
    obtain k where k: "?n = Suc k" using n by (cases ?n) auto
    then have "take k cs @ [cs ! k] = cs" using len_cs by (metis lessI take_Suc_conv_app_nth take_all_iff order_refl)
    then show ?thesis
      using honest_round_at [of ?n g "take k cs" "cs ! k"] len_cs k by (simp add: ex_def nth_append)
  qed
  have "check_and_generate_subclaim ?vs (cube_sum ?n g) = Inr \<lparr>point = cs, expected_evaluation = g cs\<rparr>"
    using expected checks last len by (simp add: check_and_generate_subclaim_def Let_def ex_def)
  moreover have "rounds_state ops aux ?ms (start_transcript ops aux t) = (?vs, t')"
    using cs len by (simp add: rounds_state_def)
  ultimately show ?thesis
    using verifier_rounds [of aux ?n ops "prf" "start_transcript ops aux t"] n len received
    by (simp add: verify_def Let_def start_transcript_def)
qed


subsection \<open>One thread\<close>

text \<open>What the builder makes of polynomials of at least one variable for one thread.\<close>

definition single_thread :: "'f::field VirtualPolynomials \<Rightarrow> 'f VirtualPolynomial \<Rightarrow> bool" where
  "single_thread vps p \<longleftrightarrow>
     num_threads vps = 1 \<and> polys vps = [p] \<and>
     (\<forall>i<length (flattened_ml_extensions p). poly_meta vps i \<noteq> Some Phase2Only) \<and>
     0 < max_num_variables (aux_info p) \<and>
     mles_ok (max_num_variables (aux_info p)) (flattened_ml_extensions p) \<and>
     terms_ok (max_degree (aux_info p)) (flattened_ml_extensions p) (products p) \<and>
     (\<exists>mt\<in>set (products p). terms mt \<noteq> [])"

definition virtual_value :: "'f::field VirtualPolynomial \<Rightarrow> 'f list \<Rightarrow> 'f" where
  "virtual_value p = poly_value (products p) (flattened_ml_extensions p)"

lemma repeatE_snoc: "repeatE (Suc n) f s = bindE (repeatE n f s) f"
proof (induction n arbitrary: s)
  case (Suc n)
  then show ?case by (cases "f s") auto
qed (simp add: bindE_def split: sum.split)

lemma additive_vec_zero: "length v = n \<Longrightarrow> additive_vec_add (additive_vec_new n) v = v"
  by (auto simp: additive_vec_add_def additive_vec_new_def intro: nth_equalityI)

lemma phase1_round_single:
  assumes "prove_round_and_update_state s ch = Inr (m, s')" and "length (message_evaluations m) = d + 1"
    and "round_challenge ops (message_evaluations m) t = (c, t')"
  shows "phase1_round ops d ([s], ch, msgs, t) = Inr ([s'], Some c, msgs @ [m], t')"
  using assms
  by (simp add: phase1_round_def additive_vec_zero round_challenge_def Let_def append_field_element_exts_def)

lemma length_honest_message [simp]:
  "length (message_evaluations (honest_message p g cs)) = max_degree (aux_info p) + 1"
  by (simp add: honest_message_def)

lemma rounds_single:
  fixes s0 :: "'f::field IOPProverState" and p :: "'f VirtualPolynomial"
  defines "n \<equiv> max_num_variables (aux_info p)" and "d \<equiv> max_degree (aux_info p)"
  assumes start: "prover_ready p g n [] s0" "p_round s0 = 0" and nodes: "nodes_distinct TYPE('f) d" and j: "j < n"
  shows "\<exists>s cs c msgs t'. repeatE (Suc j) (phase1_round ops d) ([s0], None, [], t) = Inr ([s], Some c, msgs, t') \<and>
    length cs = j \<and> prover_ready p g (n - j) cs s \<and> p_round s = j + 1 \<and>
    round_challenges ops (map message_evaluations msgs) t = (cs @ [c], t') \<and>
    msgs = map (\<lambda>i. honest_message p g (take i (cs @ [c]))) [0..<Suc j]"
  using j
proof (induction j)
  case 0
  obtain s1 where s1: "prove_round_and_update_state s0 None = Inr (honest_message p g [], s1)"
    "prover_ready p g n [] s1" "p_round s1 = 1"
    using first_round [of p g n s0] start nodes 0 by (auto simp: d_def)
  obtain c t1 where "round_challenge ops (message_evaluations (honest_message p g [])) t = (c, t1)" by fastforce
  with s1 phase1_round_single [OF s1(1) _ this] show ?case by (auto simp: d_def)
next
  case (Suc j)
  then have "j < n" by simp
  from Suc.IH [OF this] obtain s cs c msgs t1 where IH:
    "repeatE (Suc j) (phase1_round ops d) ([s0], None, [], t) = Inr ([s], Some c, msgs, t1)"
    "length cs = j" "prover_ready p g (n - j) cs s" "p_round s = j + 1"
    "round_challenges ops (map message_evaluations msgs) t = (cs @ [c], t1)"
    "msgs = map (\<lambda>i. honest_message p g (take i (cs @ [c]))) [0..<Suc j]" by blast
  have "1 < n - j" using Suc.prems by simp
  then obtain s2 where s2: "prove_round_and_update_state s (Some c) = Inr (honest_message p g (cs @ [c]), s2)"
    "prover_ready p g (n - j - 1) (cs @ [c]) s2" "p_round s2 = length (cs @ [c]) + 1"
    using next_round [of p g "n - j" cs s c] IH(2-4) nodes by (auto simp: d_def)
  obtain c' t2 where c': "round_challenge ops (message_evaluations (honest_message p g (cs @ [c]))) t1 = (c', t2)"
    by fastforce
  have "repeatE (Suc (Suc j)) (phase1_round ops d) ([s0], None, [], t) =
      Inr ([s2], Some c', msgs @ [honest_message p g (cs @ [c])], t2)"
    using IH(1) phase1_round_single [OF s2(1) _ c', of d msgs] by (simp only: repeatE_snoc) (simp add: d_def)
  moreover have "round_challenges ops (map message_evaluations (msgs @ [honest_message p g (cs @ [c])])) t =
      ((cs @ [c]) @ [c'], t2)"
    using IH(5) c' by (simp add: round_challenges_append)
  moreover have "msgs @ [honest_message p g (cs @ [c])] =
      map (\<lambda>i. honest_message p g (take i ((cs @ [c]) @ [c']))) [0..<Suc (Suc j)]"
    using IH(2, 6) by (simp add: upt_Suc_append [of 0 "Suc j"] del: upt_Suc)
  moreover have "prover_ready p g (n - Suc j) (cs @ [c]) s2" using s2(2) by simp
  moreover have "length (cs @ [c]) = Suc j" "p_round s2 = Suc j + 1" using IH(2) s2(3) by simp_all
  ultimately show ?case by blast
qed


lemma phase1_single:
  fixes p :: "'f::field VirtualPolynomial"
  defines "n \<equiv> max_num_variables (aux_info p)" and "d \<equiv> max_degree (aux_info p)"
  assumes single: "single_thread vps p" and pool: "0 < pool" and nodes: "nodes_distinct TYPE('f) d"
  shows "\<exists>s cs msgs t'. phase1_sumcheck ops pool 1 n (replicate (length (flattened_ml_extensions p)) Normal) [p] d t =
      Inr ([s], msgs, t') \<and> prover_ready p (virtual_value p) 0 cs s \<and>
    round_challenges ops (map message_evaluations msgs) t = (cs, t') \<and>
    msgs = map (\<lambda>i. honest_message p (virtual_value p) (take i cs)) [0..<n]"
proof -
  let ?meta = "replicate (length (flattened_ml_extensions p)) Normal"
  obtain k where k: "n = Suc k" using single by (cases n) (auto simp: single_thread_def n_def)
  let ?s0 = "\<lparr>is_main_worker = True, challenges = [], p_round = 0, poly = p, p_max_num_variables = n,
      p_poly_meta = ?meta, phase2_numvar = Some 0\<rparr>"
  have init: "prover_init True p (Some 0) (Some ?meta) = Inr ?s0"
    using k by (simp add: prover_init_def n_def)
  have rdy: "prover_ready p (virtual_value p) n [] ?s0"
    using single by (simp add: prover_ready_def single_thread_def n_def virtual_value_def)
  have "p_round ?s0 = 0" "k < n" using k by simp_all
  from rounds_single [of p "virtual_value p" ?s0 k ops t, folded n_def d_def, OF rdy this(1) nodes this(2)]
  obtain s cs c msgs t' where run:
    "repeatE (Suc k) (phase1_round ops d) ([?s0], None, [], t) = Inr ([s], Some c, msgs, t')"
    "length cs = k" "prover_ready p (virtual_value p) (n - k) cs s" "p_round s = k + 1"
    "round_challenges ops (map message_evaluations msgs) t = (cs @ [c], t')"
    "msgs = map (\<lambda>i. honest_message p (virtual_value p) (take i (cs @ [c]))) [0..<Suc k]"
    by blast
  obtain s' where "fix_var (push_challenges [c] s) c = Inr s'" "prover_ready p (virtual_value p) 0 (cs @ [c]) s'"
    using fix_ready [of p "virtual_value p" "n - k" cs s c] run(2-4) k by auto
  with run init pool k show ?thesis
    by (intro exI [of _ s'] exI [of _ "cs @ [c]"] exI [of _ msgs] exI [of _ t'])
      (simp add: phase1_sumcheck_def ceil_log2_power [of 0, simplified] finish_state_def del: upt_Suc repeatE.simps)
qed

lemma prove_single:
  fixes p :: "'f::field VirtualPolynomial"
  defines "n \<equiv> max_num_variables (aux_info p)" and "d \<equiv> max_degree (aux_info p)"
  assumes single: "single_thread vps p" and pool: "0 < pool" and nodes: "nodes_distinct TYPE('f) d"
  shows "\<exists>s msgs t'. prove ops pool vps t = Inr (\<lparr>proofs = msgs\<rparr>, s, t') \<and>
    prover_ready p (virtual_value p) 0 (challenges s) s \<and>
    round_challenges ops (map message_evaluations msgs) (start_transcript ops (aux_info p) t) = (challenges s, t') \<and>
    msgs = map (\<lambda>i. honest_message p (virtual_value p) (take i (challenges s))) [0..<n]"
proof -
  let ?meta = "replicate (length (flattened_ml_extensions p)) Normal"
  obtain s cs msgs t' where run:
    "phase1_sumcheck ops pool 1 n ?meta [p] d (start_transcript ops (aux_info p) t) = Inr ([s], msgs, t')"
    "prover_ready p (virtual_value p) 0 cs s"
    "round_challenges ops (map message_evaluations msgs) (start_transcript ops (aux_info p) t) = (cs, t')"
    "msgs = map (\<lambda>i. honest_message p (virtual_value p) (take i cs)) [0..<n]"
    using phase1_single [OF single pool nodes [unfolded d_def], of ops "start_transcript ops (aux_info p) t"]
    unfolding n_def d_def by blast
  have normal: "(case poly_meta vps i of None \<Rightarrow> Normal | Some m \<Rightarrow> m) = Normal"
    if "i < length (flattened_ml_extensions p)" for i
  proof (cases "poly_meta vps i")
    case (Some m)
    with single that show ?thesis by (cases m) (auto simp: single_thread_def)
  qed simp
  have meta: "map (\<lambda>i. case poly_meta vps i of None \<Rightarrow> Normal | Some m \<Rightarrow> m)
      [0..<length (flattened_ml_extensions p)] = ?meta"
    using normal by (intro nth_equalityI) simp_all
  obtain mt where "mt \<in> set (products p)" "terms mt \<noteq> []" using single unfolding single_thread_def by blast
  then have "concat (map (\<lambda>mt. map (\<lambda>t. length (term_product t)) (terms mt)) (products p)) \<noteq> []"
    by (auto simp: concat_eq_Nil_conv)
  then obtain x xs where "concat (map (\<lambda>mt. map (\<lambda>t. length (term_product t)) (terms mt)) (products p)) = x # xs"
    by (meson neq_Nil_conv)
  then obtain m where m: "min_product_length p = Inr m" by (simp add: min_product_length_def)
  have batched: "get_batched_polys vps = Inr ([p], ?meta)"
    using single meta by (simp add: get_batched_polys_def single_thread_def)
  have one: "is_power_of_two 1" "ceil_log2 1 = Inr 0"
    using ceil_log2_power [of 0] by (simp_all add: is_power_of_two_def trailing_zeros.simps)
  obtain tbl where tbl: "ExtrapolationTable_new m d = (Inr tbl :: 'f list list list checked)"
    using table_new [OF nodes] by blast
  have parts: "num_threads vps = 1" "0 < n" using single by (simp_all add: single_thread_def n_def)
  have "prove ops pool vps t = Inr (\<lparr>proofs = msgs\<rparr>, s, t')"
    unfolding prove_def Let_def parts(1) batched
    using run(1) parts(2) m one tbl
    by (simp add: all_equal_def n_def [symmetric] d_def [symmetric] start_transcript_def finish_state_def)
  moreover have "cs = challenges s" using run(2) by (simp add: prover_ready_def)
  ultimately show ?thesis using run by blast
qed

text \<open>The prover returns, and the verifier accepts what it returns.\<close>

lemma completeness_core:
  fixes p :: "'f::field VirtualPolynomial"
  defines "n \<equiv> max_num_variables (aux_info p)" and "d \<equiv> max_degree (aux_info p)"
  assumes single: "single_thread vps p" and pool: "0 < pool" and nodes: "nodes_distinct TYPE('f) d"
    and d: "1 \<le> d" "d \<le> 4"
  shows "\<exists>prf s t'. prove ops pool vps t = Inr (prf, s, t') \<and> extract_sum prf = Inr (cube_sum n (virtual_value p)) \<and>
    proofs prf = map (\<lambda>i. honest_message p (virtual_value p) (take i (challenges s))) [0..<n] \<and>
    ((\<forall>c\<in>set (challenges s). c \<notin> of_nat ` {..d}) \<longrightarrow>
      verify ops (cube_sum n (virtual_value p)) prf (aux_info p) t =
        Inr (\<lparr>point = challenges s, expected_evaluation = virtual_value p (challenges s)\<rparr>, t'))"
proof -
  obtain s msgs t' where run: "prove ops pool vps t = Inr (\<lparr>proofs = msgs\<rparr>, s, t')"
    "prover_ready p (virtual_value p) 0 (challenges s) s"
    "round_challenges ops (map message_evaluations msgs) (start_transcript ops (aux_info p) t) = (challenges s, t')"
    "msgs = map (\<lambda>i. honest_message p (virtual_value p) (take i (challenges s))) [0..<n]"
    using prove_single [OF single pool, of ops t] nodes by (auto simp: n_def d_def)
  have "verify ops (cube_sum n (virtual_value p)) \<lparr>proofs = msgs\<rparr> (aux_info p) t =
      Inr (\<lparr>point = challenges s, expected_evaluation = virtual_value p (challenges s)\<rparr>, t')"
    if "\<forall>c\<in>set (challenges s). c \<notin> of_nat ` {..d}"
    unfolding n_def
  proof (rule honest_accepted)
    show "degree_in_each (max_num_variables (aux_info p)) (max_degree (aux_info p)) (virtual_value p)"
      unfolding virtual_value_def using single by (intro poly_value_degree) (auto simp: single_thread_def)
    show "message_evaluations (proofs \<lparr>proofs = msgs\<rparr> ! i) =
        map (\<lambda>x. honest_round (max_num_variables (aux_info p)) (virtual_value p) (take i (challenges s)) (of_nat x))
          [0..<max_degree (aux_info p) + 1]" if "i < max_num_variables (aux_info p)" for i
      unfolding run(4) using that by (simp add: honest_message_def n_def del: upt_Suc)
  qed (use single d nodes run that in \<open>auto simp: single_thread_def n_def d_def\<close>)
  moreover have "extract_sum \<lparr>proofs = msgs\<rparr> = Inr (cube_sum n (virtual_value p))"
  proof -
    obtain k where k: "n = Suc k" using single by (cases n) (auto simp: single_thread_def n_def)
    have "honest_round n (virtual_value p) [] 0 + honest_round n (virtual_value p) [] 1 = cube_sum n (virtual_value p)"
      using k by (simp add: honest_round_def)
    with k d show ?thesis
      by (simp add: extract_sum_def run(4) honest_message_def n_def [symmetric] d_def [symmetric] checked_nth_def
          nth_append del: upt_Suc)
  qed
  ultimately show ?thesis using run(1, 4) by (intro exI [of _ "\<lparr>proofs = msgs\<rparr>"] exI [of _ s] exI [of _ t']) simp
qed

end
