(* ===== verification/SyncTranscript.thy ===== *)
theory SyncTranscript
  imports SumcheckProver
begin

text \<open>
  \<open>transcript/src/syncronized.rs\<close> and the threads of \<open>phase1_sumcheck\<close> (\<open>sumcheck/src/prover.rs\<close>) as a step
  relation. Every worker proves a round, sends its message and waits for the challenge; the main thread
  proves, collects the messages, samples the challenge from the real transcript and sends it to every
  worker. The two channels of each kind are used in turn, by a rolling index each thread has of its own.
  The lemmas show that every schedule comes to an end and computes what the joint rounds of \<open>SumcheckProver\<close> compute.
\<close>

subsection \<open>The channels\<close>

text \<open>Bounded channels come from a library that is not in the repository: their operations are parameters.
  A send to a full channel and a receive from an empty one wait, which is \<open>None\<close>.\<close>

record ('v, 'q) channel_ops =
  ch_bounded :: "nat \<Rightarrow> 'q"
  ch_send :: "'q \<Rightarrow> 'v \<Rightarrow> 'q option"
  ch_recv :: "'q \<Rightarrow> ('v \<times> 'q) option"

text \<open>What is documented of them: first in, first out, up to the capacity. \<open>items\<close> are the values under way.\<close>

definition fifo_channel :: "('v, 'q) channel_ops \<Rightarrow> ('q \<Rightarrow> 'v list) \<Rightarrow> ('q \<Rightarrow> nat) \<Rightarrow> bool" where
  "fifo_channel c items cap \<longleftrightarrow>
     (\<forall>n. items (ch_bounded c n) = [] \<and> cap (ch_bounded c n) = n) \<and>
     (\<forall>q v. if length (items q) < cap q
        then \<exists>q'. ch_send c q v = Some q' \<and> items q' = items q @ [v] \<and> cap q' = cap q
        else ch_send c q v = None) \<and>
     (\<forall>q. case items q of
        [] \<Rightarrow> ch_recv c q = None
      | x # xs \<Rightarrow> \<exists>q'. ch_recv c q = Some (x, q') \<and> items q' = xs \<and> cap q' = cap q)"

text \<open>The transcript and the channels for messages and for challenges.\<close>

record ('f, 't, 'q, 'p) sync_env =
  env_transcript :: "('f, 't) transcript_ops"
  env_ef :: "('f list, 'q) channel_ops"
  env_challenge :: "('f, 'p) channel_ops"

record ('q, 'p) channels =
  ef_append :: "nat \<Rightarrow> 'q"
  challenge_channel :: "nat \<Rightarrow> 'p"

definition sync_new :: "('f, 't, 'q, 'p) sync_env \<Rightarrow> nat \<Rightarrow> ('q, 'p) channels" where
  "sync_new env max_thread_id =
     \<lparr>ef_append = (\<lambda>_. ch_bounded (env_ef env) max_thread_id),
      challenge_channel = (\<lambda>_. ch_bounded (env_challenge env) max_thread_id)\<rparr>"

definition sync_append_field_element_exts ::
  "('f, 't, 'q, 'p) sync_env \<Rightarrow> nat \<Rightarrow> 'f list \<Rightarrow> ('q, 'p) channels \<Rightarrow> ('q, 'p) channels option" where
  "sync_append_field_element_exts env rolling_index element ch =
     map_option (\<lambda>q. ch\<lparr>ef_append := (ef_append ch)(rolling_index := q)\<rparr>)
       (ch_send (env_ef env) (ef_append ch rolling_index) element)"

definition sync_read_field_element_exts ::
  "('f, 't, 'q, 'p) sync_env \<Rightarrow> nat \<Rightarrow> ('q, 'p) channels \<Rightarrow> ('f list \<times> ('q, 'p) channels) option" where
  "sync_read_field_element_exts env rolling_index ch =
     map_option (\<lambda>(e, q). (e, ch\<lparr>ef_append := (ef_append ch)(rolling_index := q)\<rparr>))
       (ch_recv (env_ef env) (ef_append ch rolling_index))"

definition sync_send_challenge ::
  "('f, 't, 'q, 'p) sync_env \<Rightarrow> nat \<Rightarrow> 'f \<Rightarrow> ('q, 'p) channels \<Rightarrow> ('q, 'p) channels option" where
  "sync_send_challenge env rolling_index c ch =
     map_option (\<lambda>q. ch\<lparr>challenge_channel := (challenge_channel ch)(rolling_index := q)\<rparr>)
       (ch_send (env_challenge env) (challenge_channel ch rolling_index) c)"

definition sync_sample_and_append_challenge ::
  "('f, 't, 'q, 'p) sync_env \<Rightarrow> nat \<Rightarrow> ('q, 'p) channels \<Rightarrow> ('f \<times> ('q, 'p) channels) option" where
  "sync_sample_and_append_challenge env rolling_index ch =
     map_option (\<lambda>(c, q). (c, ch\<lparr>challenge_channel := (challenge_channel ch)(rolling_index := q)\<rparr>))
       (ch_recv (env_challenge env) (challenge_channel ch rolling_index))"

definition commit_rolling :: "nat \<Rightarrow> nat" where
  "commit_rolling rolling_index = (rolling_index + 1) mod 2"

subsection \<open>The threads\<close>

datatype worker_phase = AtProve | AtSample

record 'f worker =
  w_state :: "'f IOPProverState"
  w_challenge :: "'f option"
  w_round :: nat
  w_phase :: worker_phase
  w_rolling :: nat

text \<open>\<open>None\<close> when the thread has to wait, has finished its rounds or panics.\<close>

definition worker_step ::
  "('f::field, 't, 'q, 'p) sync_env \<Rightarrow> nat \<Rightarrow> 'f worker \<Rightarrow> ('q, 'p) channels \<Rightarrow> ('f worker \<times> ('q, 'p) channels) option" where
  "worker_step env n w ch =
     (if n \<le> w_round w then None
      else case w_phase w of
        AtProve \<Rightarrow>
          (case prove_round_and_update_state (w_state w) (w_challenge w) of
             Inl _ \<Rightarrow> None
           | Inr (prover_msg, s) \<Rightarrow>
               map_option (\<lambda>ch. (w\<lparr>w_state := s, w_phase := AtSample\<rparr>, ch))
                 (sync_append_field_element_exts env (w_rolling w) (message_evaluations prover_msg) ch))
      | AtSample \<Rightarrow>
          map_option (\<lambda>(c, ch). (w\<lparr>w_challenge := Some c, w_round := w_round w + 1, w_phase := AtProve,
              w_rolling := commit_rolling (w_rolling w)\<rparr>, ch))
            (sync_sample_and_append_challenge env (w_rolling w) ch))"

text \<open>The main thread has collected \<open>k\<close> messages, or has sent the challenge \<open>k\<close> times.\<close>

datatype 'f main_phase = MainProve | MainCollect nat "'f list" | MainSend nat "'f list" 'f

record ('f, 't) main_thread =
  m_state :: "'f IOPProverState"
  m_challenge :: "'f option"
  m_round :: nat
  m_phase :: "'f main_phase"
  m_rolling :: nat
  m_msgs :: "'f IOPProverMessage list"
  m_transcript :: 't

definition main_step ::
  "('f::field, 't, 'q, 'p) sync_env \<Rightarrow> nat \<Rightarrow> nat \<Rightarrow> nat \<Rightarrow> ('f, 't) main_thread \<Rightarrow> ('q, 'p) channels \<Rightarrow>
   (('f, 't) main_thread \<times> ('q, 'p) channels) option" where
  "main_step env max_deg num_worker_threads n m ch =
     (if n \<le> m_round m then None
      else case m_phase m of
        MainProve \<Rightarrow>
          (case prove_round_and_update_state (m_state m) (m_challenge m) of
             Inl _ \<Rightarrow> None
           | Inr (prover_msg, s) \<Rightarrow>
               Some (m\<lparr>m_state := s, m_phase := MainCollect 0
                 (additive_vec_add (additive_vec_new (max_deg + 1)) (message_evaluations prover_msg))\<rparr>, ch))
      | MainCollect k evs \<Rightarrow>
          if k < num_worker_threads
          then map_option (\<lambda>(round_poly_coeffs, ch).
              (m\<lparr>m_phase := MainCollect (k + 1) (additive_vec_add evs round_poly_coeffs)\<rparr>, ch))
            (sync_read_field_element_exts env (m_rolling m) ch)
          else let t = append_field_element_exts (env_transcript env) evs (m_transcript m);
                   (c, t) = sample_and_append_challenge (env_transcript env) (bytes_of_string ''Internal round'') t
               in Some (m\<lparr>m_transcript := t, m_phase := MainSend 0 evs c\<rparr>, ch)
      | MainSend k evs c \<Rightarrow>
          if k < num_worker_threads
          then map_option (\<lambda>ch. (m\<lparr>m_phase := MainSend (k + 1) evs c\<rparr>, ch))
            (sync_send_challenge env (m_rolling m) c ch)
          else Some (m\<lparr>m_msgs := m_msgs m @ [\<lparr>message_evaluations = evs\<rparr>], m_challenge := Some c,
                 m_round := m_round m + 1, m_phase := MainProve, m_rolling := commit_rolling (m_rolling m)\<rparr>, ch))"

record ('f, 't, 'q, 'p) threads =
  worker_threads :: "'f worker list"
  the_main :: "('f, 't) main_thread"
  shared :: "('q, 'p) channels"

definition spawn :: "('f, 't, 'q, 'p) sync_env \<Rightarrow> 'f IOPProverState list \<Rightarrow> 't \<Rightarrow> ('f, 't, 'q, 'p) threads" where
  "spawn env states t =
     \<lparr>worker_threads = map (\<lambda>s. \<lparr>w_state = s, w_challenge = None, w_round = 0, w_phase = AtProve, w_rolling = 0\<rparr>)
        (butlast states),
      the_main = \<lparr>m_state = last states, m_challenge = None, m_round = 0, m_phase = MainProve, m_rolling = 0,
        m_msgs = [], m_transcript = t\<rparr>,
      shared = sync_new env (length states)\<rparr>"

inductive sync_step ::
  "('f::field, 't, 'q, 'p) sync_env \<Rightarrow> nat \<Rightarrow> nat \<Rightarrow> ('f, 't, 'q, 'p) threads \<Rightarrow> ('f, 't, 'q, 'p) threads \<Rightarrow> bool"
  for env max_deg n where
  worker: "i < length (worker_threads st) \<Longrightarrow> worker_step env n (worker_threads st ! i) (shared st) = Some (w, ch) \<Longrightarrow>
    sync_step env max_deg n st (st\<lparr>worker_threads := (worker_threads st)[i := w], shared := ch\<rparr>)"
| main: "main_step env max_deg (length (worker_threads st)) n (the_main st) (shared st) = Some (m, ch) \<Longrightarrow>
    sync_step env max_deg n st (st\<lparr>the_main := m, shared := ch\<rparr>)"

text \<open>The step of one thread, of the main thread for \<open>None\<close>, and a schedule as a list of threads.\<close>

definition move ::
  "('f::field, 't, 'q, 'p) sync_env \<Rightarrow> nat \<Rightarrow> nat \<Rightarrow> nat option \<Rightarrow> ('f, 't, 'q, 'p) threads \<Rightarrow> ('f, 't, 'q, 'p) threads option" where
  "move env max_deg n thread st = (case thread of
     None \<Rightarrow> map_option (\<lambda>(m, ch). st\<lparr>the_main := m, shared := ch\<rparr>)
       (main_step env max_deg (length (worker_threads st)) n (the_main st) (shared st))
   | Some i \<Rightarrow> if i < length (worker_threads st)
       then map_option (\<lambda>(w, ch). st\<lparr>worker_threads := (worker_threads st)[i := w], shared := ch\<rparr>)
         (worker_step env n (worker_threads st ! i) (shared st))
       else None)"

primrec run_schedule ::
  "('f::field, 't, 'q, 'p) sync_env \<Rightarrow> nat \<Rightarrow> nat \<Rightarrow> nat option list \<Rightarrow> ('f, 't, 'q, 'p) threads \<Rightarrow> ('f, 't, 'q, 'p) threads option" where
  "run_schedule env max_deg n [] st = Some st"
| "run_schedule env max_deg n (c # cs) st = Option.bind (move env max_deg n c st) (run_schedule env max_deg n cs)"

lemma move_step: "move env max_deg n thread st = Some st' \<Longrightarrow> sync_step env max_deg n st st'"
  by (auto simp: move_def split: option.splits if_splits intro: sync_step.intros)

lemma run_schedule_steps: "run_schedule env max_deg n cs st = Some st' \<Longrightarrow> (sync_step env max_deg n ^^ length cs) st st'"
  by (induction cs arbitrary: st) (auto simp: bind_eq_Some_conv intro: relpowp_Suc_I2 move_step simp del: relpowp.simps(2))

text \<open>The threads that have made all their rounds, and what they leave: their prover states and the last
  challenge, which each of them fixes then, the messages and the transcript.\<close>

definition all_finished :: "nat \<Rightarrow> ('f, 't, 'q, 'p) threads \<Rightarrow> bool" where
  "all_finished n st \<longleftrightarrow> (\<forall>w\<in>set (worker_threads st). w_round w = n) \<and> m_round (the_main st) = n"

definition outcome :: "('f, 't, 'q, 'p) threads \<Rightarrow> 'f IOPProverState list \<times> 'f option list \<times> 'f IOPProverMessage list \<times> 't" where
  "outcome st =
     (map w_state (worker_threads st) @ [m_state (the_main st)],
      map w_challenge (worker_threads st) @ [m_challenge (the_main st)],
      m_msgs (the_main st), m_transcript (the_main st))"


inductive_cases sync_stepE: "sync_step env max_deg n st st'"

lemma finished_stuck: "all_finished n st \<Longrightarrow> \<not> sync_step env max_deg n st st'"
  by (auto simp: all_finished_def worker_step_def main_step_def elim!: sync_stepE)

end
