(* ===== verification/SyncFacts.thy ===== *)
theory SyncFacts
  imports SyncTranscript SumcheckComplete
begin

text \<open>
  Every schedule of the threads of the first phase ends, after the same number of steps, and leaves what
  the joint rounds leave. The invariant \<open>sync_inv\<close> relates a state of the threads to the sequence of joint
  rounds \<open>J\<close>: the workers are in the round \<open>B\<close>, or have still to receive its challenge from the other
  channel; the messages under way and collected are those of the workers that wait in round \<open>B\<close>.
\<close>

subsection \<open>Joint rounds\<close>

record ('f, 't) joint =
  jstates :: "nat \<Rightarrow> 'f IOPProverState list"
  jchal :: "nat \<Rightarrow> 'f option"
  jmsgs :: "nat \<Rightarrow> 'f IOPProverMessage list"
  jtrans :: "nat \<Rightarrow> 't"
  jev :: "nat \<Rightarrow> nat \<Rightarrow> 'f list"

definition add_messages :: "nat \<Rightarrow> 'f::field list list \<Rightarrow> 'f list" where
  "add_messages max_deg evs = fold (\<lambda>e acc. additive_vec_add acc e) evs (additive_vec_new (max_deg + 1))"

definition joint_rounds ::
  "('f::field, 't) transcript_ops \<Rightarrow> nat \<Rightarrow> nat \<Rightarrow> nat \<Rightarrow> ('f, 't) joint \<Rightarrow> bool" where
  "joint_rounds ops max_deg n W J \<longleftrightarrow>
     jchal J 0 = None \<and> jmsgs J 0 = [] \<and> (\<forall>r\<le>n. length (jstates J r) = Suc W) \<and>
     (\<forall>r<n. (\<forall>i\<le>W. prove_round_and_update_state (jstates J r ! i) (jchal J r) =
         Inr (\<lparr>message_evaluations = jev J r i\<rparr>, jstates J (Suc r) ! i)) \<and>
       (let evs = add_messages max_deg (map (jev J r) (W # [0..<W])) in
        jmsgs J (Suc r) = jmsgs J r @ [\<lparr>message_evaluations = evs\<rparr>] \<and>
        (\<exists>c. jchal J (Suc r) = Some c \<and>
          sample_and_append_challenge ops (bytes_of_string ''Internal round'')
            (append_field_element_exts ops evs (jtrans J r)) = (c, jtrans J (Suc r)))))"

lemma additive_vec_add_length [simp]: "length (additive_vec_add acc e) = length acc"
  by (simp add: additive_vec_add_def)

lemma additive_vec_add_nth:
  "i < length acc \<Longrightarrow> additive_vec_add acc e ! i = acc ! i + (if i < length e then e ! i else 0)"
  by (auto simp: additive_vec_add_def nth_append)

lemma additive_vec_add_commute:
  "additive_vec_add (additive_vec_add acc x) y = additive_vec_add (additive_vec_add acc y) x"
  by (rule nth_equalityI) (simp_all add: additive_vec_add_nth)

lemma add_messages_mset: "mset xs = mset ys \<Longrightarrow> add_messages max_deg xs = add_messages max_deg ys"
  unfolding add_messages_def
  by (rule fun_cong [of "fold _ xs"], rule fold_multiset_equiv) (auto simp: fun_eq_iff additive_vec_add_commute)

lemma add_messages_snoc: "add_messages max_deg (xs @ [x]) = additive_vec_add (add_messages max_deg xs) x"
  by (simp add: add_messages_def)

subsection \<open>The channels as lists\<close>

record ('f, 'q, 'p) views =
  ef_items :: "'q \<Rightarrow> 'f list list"
  ef_cap :: "'q \<Rightarrow> nat"
  ch_items :: "'p \<Rightarrow> 'f list"
  ch_cap :: "'p \<Rightarrow> nat"

definition env_ok :: "('f, 't, 'q, 'p) sync_env \<Rightarrow> ('f, 'q, 'p) views \<Rightarrow> bool" where
  "env_ok env v \<longleftrightarrow> fifo_channel (env_ef env) (ef_items v) (ef_cap v) \<and>
     fifo_channel (env_challenge env) (ch_items v) (ch_cap v)"

lemma fifo_new: "fifo_channel c items cap \<Longrightarrow> items (ch_bounded c n) = [] \<and> cap (ch_bounded c n) = n"
  by (simp add: fifo_channel_def)

lemma fifo_send_law:
  "fifo_channel c items cap \<Longrightarrow> if length (items q) < cap q
     then \<exists>q'. ch_send c q x = Some q' \<and> items q' = items q @ [x] \<and> cap q' = cap q
     else ch_send c q x = None"
  unfolding fifo_channel_def by (elim conjE allE) assumption

lemma fifo_recv_law:
  "fifo_channel c items cap \<Longrightarrow> case items q of [] \<Rightarrow> ch_recv c q = None
     | x # xs \<Rightarrow> \<exists>q'. ch_recv c q = Some (x, q') \<and> items q' = xs \<and> cap q' = cap q"
  unfolding fifo_channel_def by (elim conjE allE) assumption

lemma fifo_send: "fifo_channel c items cap \<Longrightarrow> ch_send c q x = Some q' \<Longrightarrow> items q' = items q @ [x] \<and> cap q' = cap q"
  using fifo_send_law [of c items cap q x] by (auto split: if_splits)

lemma fifo_full: "fifo_channel c items cap \<Longrightarrow> ch_send c q x = None \<Longrightarrow> cap q \<le> length (items q)"
  using fifo_send_law [of c items cap q x] by (auto split: if_splits)

lemma fifo_recv: "fifo_channel c items cap \<Longrightarrow> ch_recv c q = Some (x, q') \<Longrightarrow> items q = x # items q' \<and> cap q' = cap q"
  using fifo_recv_law [of c items cap q] by (auto split: list.splits)

lemma fifo_empty: "fifo_channel c items cap \<Longrightarrow> ch_recv c q = None \<Longrightarrow> items q = []"
  using fifo_recv_law [of c items cap q] by (auto split: list.splits)

subsection \<open>The invariant\<close>

text \<open>What a worker contributes to the messages of round \<open>r\<close> under way, and to those behind it.\<close>

definition waiting_message :: "('f, 't) joint \<Rightarrow> nat \<Rightarrow> nat \<Rightarrow> 'f worker \<Rightarrow> 'f list multiset" where
  "waiting_message J r i w = (if w_round w = r \<and> w_phase w = AtSample then {#jev J r i#} else {#})"

definition waiting_messages :: "('f, 't) joint \<Rightarrow> nat \<Rightarrow> 'f worker list \<Rightarrow> 'f list multiset" where
  "waiting_messages J r ws = (\<Sum>i<length ws. waiting_message J r i (ws ! i))"

definition behind :: "nat \<Rightarrow> 'f worker list \<Rightarrow> nat" where
  "behind r ws = (\<Sum>i<length ws. if w_round (ws ! i) < r then 1 else 0)"

definition worker_ok :: "('f, 't) joint \<Rightarrow> nat \<Rightarrow> nat \<Rightarrow> 'f worker \<Rightarrow> bool" where
  "worker_ok J n i w \<longleftrightarrow>
     (let r = w_round w in w_rolling w = r mod 2 \<and>
       (case w_phase w of
          AtProve \<Rightarrow> r \<le> n \<and> w_state w = jstates J r ! i \<and> w_challenge w = jchal J r
        | AtSample \<Rightarrow> r < n \<and> w_state w = jstates J (Suc r) ! i))"

definition workers_ok ::
  "('f, 'q, 'p) views \<Rightarrow> ('f, 't) joint \<Rightarrow> nat \<Rightarrow> nat \<Rightarrow> 'f list list \<Rightarrow> nat \<Rightarrow> 'f worker list \<Rightarrow> ('q, 'p) channels \<Rightarrow> bool" where
  "workers_ok v J n B coll sent ws ch \<longleftrightarrow>
     (\<forall>i<length ws. worker_ok J n i (ws ! i) \<and>
        (w_round (ws ! i) = B \<or> Suc (w_round (ws ! i)) = B \<and> w_phase (ws ! i) = AtSample)) \<and>
     (\<forall>j<2. ef_cap v (ef_append ch j) = Suc (length ws) \<and> ch_cap v (challenge_channel ch j) = Suc (length ws)) \<and>
     ch_items v (challenge_channel ch (B mod 2)) = [] \<and> ef_items v (ef_append ch (Suc B mod 2)) = [] \<and>
     mset (ef_items v (ef_append ch (B mod 2))) + mset coll = waiting_messages J B ws \<and>
     (\<forall>c\<in>set (ch_items v (challenge_channel ch (Suc B mod 2))). jchal J B = Some c) \<and>
     length (ch_items v (challenge_channel ch (Suc B mod 2))) + length ws = sent + behind B ws"

definition main_ok ::
  "nat \<Rightarrow> ('f::field, 't) joint \<Rightarrow> nat \<Rightarrow> nat \<Rightarrow> nat \<Rightarrow> 'f list list \<Rightarrow> nat \<Rightarrow> ('f, 't) main_thread \<Rightarrow> bool" where
  "main_ok max_deg J n W B coll sent m \<longleftrightarrow>
     m_rolling m = m_round m mod 2 \<and> m_msgs m = jmsgs J (m_round m) \<and> m_transcript m = jtrans J B \<and>
     (case m_phase m of
        MainProve \<Rightarrow> m_round m = B \<and> B \<le> n \<and> coll = [] \<and> sent = W \<and> m_state m = jstates J B ! W \<and>
          m_challenge m = jchal J B
      | MainCollect k evs \<Rightarrow> m_round m = B \<and> B < n \<and> k = length coll \<and> k \<le> W \<and> sent = W \<and>
          m_state m = jstates J (Suc B) ! W \<and> evs = add_messages max_deg (jev J B W # coll)
      | MainSend k evs c \<Rightarrow> Suc (m_round m) = B \<and> B \<le> n \<and> coll = [] \<and> sent = k \<and> k \<le> W \<and>
          m_state m = jstates J B ! W \<and> jchal J B = Some c \<and>
          jmsgs J B = jmsgs J (m_round m) @ [\<lparr>message_evaluations = evs\<rparr>])"

definition sync_inv :: "('f::field, 'q, 'p) views \<Rightarrow> nat \<Rightarrow> ('f::field, 't) joint \<Rightarrow> nat \<Rightarrow> nat \<Rightarrow> ('f, 't, 'q, 'p) threads \<Rightarrow> bool" where
  "sync_inv v max_deg J n W st \<longleftrightarrow> length (worker_threads st) = W \<and>
     (\<exists>B coll sent. workers_ok v J n B coll sent (worker_threads st) (shared st) \<and>
       main_ok max_deg J n W B coll sent (the_main st))"

lemma sum_update:
  fixes f g :: "nat \<Rightarrow> 'a::comm_monoid_add"
  assumes "i < n" and "\<And>j. j < n \<Longrightarrow> j \<noteq> i \<Longrightarrow> g j = f j"
  shows "(\<Sum>j<n. g j) + f i = (\<Sum>j<n. f j) + g i"
proof -
  have "(\<Sum>j<n. g j) = g i + (\<Sum>j\<in>{..<n} - {i}. g j)" "(\<Sum>j<n. f j) = f i + (\<Sum>j\<in>{..<n} - {i}. f j)"
    using assms(1) by (simp_all add: sum.remove)
  moreover have "(\<Sum>j\<in>{..<n} - {i}. g j) = (\<Sum>j\<in>{..<n} - {i}. f j)"
    using assms(2) by (intro sum.cong) auto
  ultimately show ?thesis by (simp add: ac_simps)
qed

lemma waiting_update:
  "i < length ws \<Longrightarrow> waiting_messages J r (ws[i := w]) + waiting_message J r i (ws ! i) =
     waiting_messages J r ws + waiting_message J r i w"
  unfolding waiting_messages_def
  using sum_update [of i "length ws" "\<lambda>j. waiting_message J r j (ws[i := w] ! j)" "\<lambda>j. waiting_message J r j (ws ! j)"]
  by simp

lemma behind_update:
  "i < length ws \<Longrightarrow> behind r (ws[i := w]) + (if w_round (ws ! i) < r then 1 else 0) =
     behind r ws + (if w_round w < r then 1 else 0)"
  unfolding behind_def
  using sum_update [of i "length ws" "\<lambda>j. if w_round (ws[i := w] ! j) < r then 1 else 0"
    "\<lambda>j. if w_round (ws ! j) < r then 1 else (0 :: nat)"]
  by simp

lemma size_sum_mset: "size (\<Sum>i<n. f i) = (\<Sum>i<n. size (f i :: 'a multiset))" for n :: nat
  by (induction n) auto

lemma waiting_message_size: "size (waiting_message J r i w) = (if w_round w = r \<and> w_phase w = AtSample then 1 else 0)"
  by (simp add: waiting_message_def)

lemma waiting_size: "size (waiting_messages J r ws) \<le> length ws"
proof -
  have "size (waiting_messages J r ws) \<le> (\<Sum>i<length ws. 1)"
    unfolding waiting_messages_def size_sum_mset by (intro sum_mono) (simp add: waiting_message_size)
  then show ?thesis by simp
qed

lemma waiting_size_less:
  assumes "i < length ws" and "\<not> (w_round (ws ! i) = r \<and> w_phase (ws ! i) = AtSample)"
  shows "size (waiting_messages J r ws) < length ws"
proof -
  have "size (waiting_messages J r ws) < (\<Sum>i<length ws. 1)"
    unfolding waiting_messages_def size_sum_mset
    using assms by (intro sum_strict_mono_ex1) (auto simp: waiting_message_size)
  then show ?thesis by simp
qed

lemma waiting_all:
  assumes "\<And>i. i < length ws \<Longrightarrow> w_round (ws ! i) = r \<and> w_phase (ws ! i) = AtSample"
  shows "waiting_messages J r ws = mset (map (jev J r) [0..<length ws])"
proof -
  have "(\<Sum>i<n. waiting_message J r i (ws ! i)) = mset (map (jev J r) [0..<n])" if "n \<le> length ws" for n
    using that assms by (induction n) (auto simp: waiting_message_def)
  then show ?thesis by (simp add: waiting_messages_def)
qed

lemma waiting_none:
  "(\<And>i. i < length ws \<Longrightarrow> \<not> (w_round (ws ! i) = r \<and> w_phase (ws ! i) = AtSample)) \<Longrightarrow> waiting_messages J r ws = {#}"
  unfolding waiting_messages_def by (rule sum.neutral) (auto simp: waiting_message_def)

lemma behind_pos: "0 < behind r ws \<longleftrightarrow> (\<exists>i<length ws. w_round (ws ! i) < r)"
  by (simp add: behind_def sum_eq_0_iff flip: neq0_conv) auto

lemma behind_all: "(\<And>i. i < length ws \<Longrightarrow> w_round (ws ! i) < r) \<Longrightarrow> behind r ws = length ws"
  by (simp add: behind_def)

lemma behind_le: "behind r ws \<le> length ws"
proof -
  have "behind r ws \<le> (\<Sum>i<length ws. 1)" unfolding behind_def by (intro sum_mono) simp
  then show ?thesis by simp
qed

lemma two_channels: "Suc (Suc B) mod 2 = B mod 2" "Suc B mod 2 \<noteq> B mod 2" "B mod 2 \<noteq> Suc B mod 2"
  by presburger+

subsection \<open>The steps keep it\<close>

lemma worker_keeps:
  assumes env: "env_ok env v" and J: "joint_rounds (env_transcript env) max_deg n (length ws) J" and inv: "workers_ok v J n B coll sent ws ch"
    and i: "i < length ws" and step: "worker_step env n (ws ! i) ch = Some (w, ch')"
  shows "workers_ok v J n B coll sent (ws[i := w]) ch'"
proof -
  let ?w = "ws ! i"
  have ok: "worker_ok J n i ?w" and pos: "w_round ?w = B \<or> Suc (w_round ?w) = B \<and> w_phase ?w = AtSample"
    using inv i by (auto simp: workers_ok_def)
  have rounds: "w_round ?w < n" using step by (auto simp: worker_step_def split: if_splits)
  note updates = waiting_update [OF i, of J B w] behind_update [OF i, of B w]
  show ?thesis
  proof (cases "w_phase ?w")
    case AtProve
    then have r: "w_round ?w = B" and state: "w_state ?w = jstates J B ! i" "w_challenge ?w = jchal J B"
      and rolling: "w_rolling ?w = B mod 2"
      using pos ok by (auto simp: worker_ok_def Let_def)
    have "prove_round_and_update_state (w_state ?w) (w_challenge ?w) =
        Inr (\<lparr>message_evaluations = jev J B i\<rparr>, jstates J (Suc B) ! i)"
      using J rounds r i state by (simp add: joint_rounds_def)
    with step AtProve rounds rolling obtain q where w: "w = ?w\<lparr>w_state := jstates J (Suc B) ! i, w_phase := AtSample\<rparr>"
      "ch' = ch\<lparr>ef_append := (ef_append ch)(B mod 2 := q)\<rparr>"
      and sent: "ch_send (env_ef env) (ef_append ch (B mod 2)) (jev J B i) = Some q"
      by (auto simp: worker_step_def sync_append_field_element_exts_def split: if_splits)
    have q: "ef_items v q = ef_items v (ef_append ch (B mod 2)) @ [jev J B i]" "ef_cap v q = ef_cap v (ef_append ch (B mod 2))"
      using fifo_send [OF _ sent] env by (auto simp: env_ok_def)
    have "worker_ok J n i w" using ok r rounds w AtProve by (simp add: worker_ok_def Let_def)
    moreover have "waiting_messages J B (ws[i := w]) = waiting_messages J B ws + {#jev J B i#}"
      using updates(1) w r AtProve by (simp add: waiting_message_def)
    moreover have "behind B (ws[i := w]) = behind B ws" using updates(2) w by simp
    moreover have "w_round w = B" using w r by simp
    ultimately show ?thesis using inv w(2) i two_channels [of B] q
      by (auto simp: workers_ok_def nth_list_update)
  next
    case AtSample
    have rolling: "w_rolling ?w = w_round ?w mod 2" using ok by (simp add: worker_ok_def Let_def)
    have r: "Suc (w_round ?w) = B"
    proof (rule ccontr)
      assume "Suc (w_round ?w) \<noteq> B"
      then have "ch_items v (challenge_channel ch (w_rolling ?w)) = []" using pos rolling inv by (auto simp: workers_ok_def)
      moreover from step AtSample rounds obtain c q where "ch_recv (env_challenge env) (challenge_channel ch (w_rolling ?w)) = Some (c, q)"
        by (auto simp: worker_step_def sync_sample_and_append_challenge_def)
      ultimately show False using fifo_recv [of "env_challenge env" "ch_items v"] env by (fastforce simp: env_ok_def)
    qed
    then have index: "w_rolling ?w = Suc B mod 2" using rolling two_channels(1) [of "w_round ?w"] by simp
    obtain c q where recv: "ch_recv (env_challenge env) (challenge_channel ch (Suc B mod 2)) = Some (c, q)"
      and w: "w = ?w\<lparr>w_challenge := Some c, w_round := B, w_phase := AtProve, w_rolling := commit_rolling (Suc B mod 2)\<rparr>"
      and ch': "ch' = ch\<lparr>challenge_channel := (challenge_channel ch)(Suc B mod 2 := q)\<rparr>"
      using step AtSample rounds r index
      by (auto simp: worker_step_def sync_sample_and_append_challenge_def)
    have q: "ch_items v (challenge_channel ch (Suc B mod 2)) = c # ch_items v q"
      "ch_cap v q = ch_cap v (challenge_channel ch (Suc B mod 2))"
      using fifo_recv [OF _ recv] env by (auto simp: env_ok_def)
    have c: "jchal J B = Some c" using inv q by (simp add: workers_ok_def)
    have "commit_rolling (Suc B mod 2) = B mod 2" unfolding commit_rolling_def by presburger
    then have "worker_ok J n i w" using ok r rounds w AtSample c by (simp add: worker_ok_def Let_def)
    moreover have "waiting_messages J B (ws[i := w]) = waiting_messages J B ws"
      using updates(1) w r by (simp add: waiting_message_def)
    moreover have "Suc (behind B (ws[i := w])) = behind B ws" using updates(2) w r by simp
    moreover have "w_round w = B" using w by simp
    ultimately show ?thesis using inv ch' q i two_channels [of B]
      by (auto simp: workers_ok_def nth_list_update)
  qed
qed

lemma main_keeps:
  assumes env: "env_ok env v" and J: "joint_rounds (env_transcript env) max_deg n W J" and W: "length ws = W"
    and inv: "workers_ok v J n B coll sent ws ch" "main_ok max_deg J n W B coll sent m"
    and step: "main_step env max_deg W n m ch = Some (m', ch')"
  shows "\<exists>B coll sent. workers_ok v J n B coll sent ws ch' \<and> main_ok max_deg J n W B coll sent m'"
proof (cases "m_phase m")
  case MainProve
  then have m: "m_round m = B" "B < n" "coll = []" "sent = W" "m_state m = jstates J B ! W"
      "m_challenge m = jchal J B"
    using inv(2) step by (auto simp: main_ok_def main_step_def split: if_splits)
  have "prove_round_and_update_state (m_state m) (m_challenge m) =
      Inr (\<lparr>message_evaluations = jev J B W\<rparr>, jstates J (Suc B) ! W)"
    using J m by (simp add: joint_rounds_def)
  with step MainProve m have "main_ok max_deg J n W B [] W m'" "ch' = ch"
    using inv(2) by (auto simp: main_step_def main_ok_def add_messages_def)
  with inv(1) m show ?thesis by blast
next
  case (MainCollect k evs)
  then have m: "m_round m = B" "B < n" "sent = W" "k = length coll" "k \<le> W"
      "m_state m = jstates J (Suc B) ! W" "evs = add_messages max_deg (jev J B W # coll)"
      "m_rolling m = B mod 2" "m_transcript m = jtrans J B"
    using inv(2) by (auto simp: main_ok_def)
  show ?thesis
  proof (cases "k < W")
    case True
    with step MainCollect m obtain e q where recv: "ch_recv (env_ef env) (ef_append ch (B mod 2)) = Some (e, q)"
      and e: "m' = m\<lparr>m_phase := MainCollect (k + 1) (additive_vec_add evs e)\<rparr>"
      "ch' = ch\<lparr>ef_append := (ef_append ch)(B mod 2 := q)\<rparr>"
      by (auto simp: main_step_def sync_read_field_element_exts_def)
    have q: "ef_items v (ef_append ch (B mod 2)) = e # ef_items v q" "ef_cap v q = ef_cap v (ef_append ch (B mod 2))"
      using fifo_recv [OF _ recv] env by (auto simp: env_ok_def)
    have "workers_ok v J n B (coll @ [e]) W ws ch'"
      using inv(1) e q m(3) two_channels [of B] by (auto simp: workers_ok_def ac_simps)
    moreover have "main_ok max_deg J n W B (coll @ [e]) W m'"
      using inv(2) True e(1) m MainCollect add_messages_snoc [of max_deg "jev J B W # coll" e]
      by (auto simp: main_ok_def)
    ultimately show ?thesis by blast
  next
    case False
    then have k: "length coll = W" using m by simp
    have waiting: "mset (ef_items v (ef_append ch (B mod 2))) + mset coll = waiting_messages J B ws"
      using inv(1) by (simp add: workers_ok_def)
    then have "size (mset (ef_items v (ef_append ch (B mod 2)))) + size (mset coll) = size (waiting_messages J B ws)"
      by (metis size_union)
    then have sizes: "size (waiting_messages J B ws) = W" "length (ef_items v (ef_append ch (B mod 2))) = 0"
      using k W waiting_size [of J B ws] by (simp_all del: length_0_conv)
    then have size: "size (waiting_messages J B ws) = W" and empty: "ef_items v (ef_append ch (B mod 2)) = []" by simp_all
    have all: "w_round (ws ! i) = B \<and> w_phase (ws ! i) = AtSample" if "i < length ws" for i
      using waiting_size_less [OF that] size W by fastforce
    have "mset coll = mset (map (jev J B) [0..<W])"
      using waiting empty waiting_all [OF all] W by simp
    then have evs: "evs = add_messages max_deg (map (jev J B) (W # [0..<W]))"
      unfolding m(7) by (intro add_messages_mset) simp
    obtain c where c: "jchal J (Suc B) = Some c"
      "sample_and_append_challenge (env_transcript env) (bytes_of_string ''Internal round'')
        (append_field_element_exts (env_transcript env) evs (jtrans J B)) = (c, jtrans J (Suc B))"
      "jmsgs J (Suc B) = jmsgs J B @ [\<lparr>message_evaluations = evs\<rparr>]"
      using J m(2) evs by (auto simp: joint_rounds_def Let_def)
    have m': "m' = m\<lparr>m_transcript := jtrans J (Suc B), m_phase := MainSend 0 evs c\<rparr>" "ch' = ch"
      using step MainCollect m False c(2) by (auto simp: main_step_def)
    have "behind B ws = 0" "behind (Suc B) ws = W"
      using behind_pos [of B ws] behind_all [of ws "Suc B"] all W by auto
    moreover have "waiting_messages J (Suc B) ws = {#}" using all by (intro waiting_none) auto
    moreover have "worker_ok J n i (ws ! i)" if "i < length ws" for i using inv(1) that by (simp add: workers_ok_def)
    ultimately have "workers_ok v J n (Suc B) [] 0 ws ch"
      using inv(1) all W empty m(3) two_channels [of B] by (auto simp: workers_ok_def)
    moreover have "main_ok max_deg J n W (Suc B) [] 0 m'"
      using inv(2) m m' c by (auto simp: main_ok_def)
    ultimately show ?thesis using m'(2) by blast
  qed
next
  case (MainSend k evs c)
  then have m: "Suc (m_round m) = B" "B \<le> n" "coll = []" "sent = k" "k \<le> W" "jchal J B = Some c"
      "m_rolling m = Suc B mod 2"
    using inv(2) two_channels(1) [of "m_round m"] by (auto simp: main_ok_def)
  show ?thesis
  proof (cases "k < W")
    case True
    with step MainSend m obtain q where m': "m' = m\<lparr>m_phase := MainSend (k + 1) evs c\<rparr>"
      "ch' = ch\<lparr>challenge_channel := (challenge_channel ch)(Suc B mod 2 := q)\<rparr>"
      and sent: "ch_send (env_challenge env) (challenge_channel ch (Suc B mod 2)) c = Some q"
      by (auto simp: main_step_def sync_send_challenge_def)
    have q: "ch_items v q = ch_items v (challenge_channel ch (Suc B mod 2)) @ [c]"
      "ch_cap v q = ch_cap v (challenge_channel ch (Suc B mod 2))"
      using fifo_send [OF _ sent] env by (auto simp: env_ok_def)
    have "workers_ok v J n B [] (k + 1) ws ch'"
      using inv(1) m m' q two_channels [of B] by (auto simp: workers_ok_def)
    moreover have "main_ok max_deg J n W B [] (k + 1) m'"
      using inv(2) m m'(1) MainSend True by (auto simp: main_ok_def)
    ultimately show ?thesis by blast
  next
    case False
    have "commit_rolling (Suc B mod 2) = B mod 2" unfolding commit_rolling_def by presburger
    with False step MainSend m inv(2) have "main_ok max_deg J n W B [] W m'" "ch' = ch"
      by (auto simp: main_ok_def main_step_def)
    with inv(1) m False show ?thesis by (metis le_less)
  qed
qed


subsection \<open>Some thread can always move\<close>

lemma worker_moves:
  assumes env: "env_ok env v" and J: "joint_rounds (env_transcript env) max_deg n (length ws) J" and inv: "workers_ok v J n B coll sent ws ch"
    and i: "i < length ws" and stuck: "worker_step env n (ws ! i) ch = None" and sent: "sent \<le> length ws"
  shows "w_round (ws ! i) = n \<or>
    (w_round (ws ! i) = B \<and> w_phase (ws ! i) = AtSample) \<or>
    (Suc (w_round (ws ! i)) = B \<and> ch_items v (challenge_channel ch (Suc B mod 2)) = [])"
proof -
  let ?w = "ws ! i"
  have ok: "worker_ok J n i ?w" and pos: "w_round ?w = B \<or> Suc (w_round ?w) = B \<and> w_phase ?w = AtSample"
    using inv i by (auto simp: workers_ok_def)
  show ?thesis
  proof (cases "w_phase ?w")
    case AtProve
    then have r: "w_round ?w = B" "w_state ?w = jstates J B ! i" "w_challenge ?w = jchal J B" "B \<le> n"
      "w_rolling ?w = B mod 2"
      using pos ok by (auto simp: worker_ok_def Let_def)
    have "prove_round_and_update_state (w_state ?w) (w_challenge ?w) =
        Inr (\<lparr>message_evaluations = jev J B i\<rparr>, jstates J (Suc B) ! i)" if "B < n"
      using J that r i by (simp add: joint_rounds_def)
    moreover have "length (ef_items v (ef_append ch (B mod 2))) < ef_cap v (ef_append ch (B mod 2))"
    proof -
      have "mset (ef_items v (ef_append ch (B mod 2))) + mset coll = waiting_messages J B ws"
        using inv by (simp add: workers_ok_def)
      then have "size (mset (ef_items v (ef_append ch (B mod 2)))) + size (mset coll) = size (waiting_messages J B ws)"
        by (metis size_union)
      then show ?thesis using waiting_size [of J B ws] inv by (simp add: workers_ok_def)
    qed
    ultimately have "w_round ?w = n"
      using stuck AtProve r env fifo_full [of "env_ef env" "ef_items v" "ef_cap v" "ef_append ch (B mod 2)" "jev J B i"]
      by (fastforce simp: worker_step_def sync_append_field_element_exts_def env_ok_def split: if_splits)
    then show ?thesis by simp
  next
    case AtSample
    show ?thesis
    proof (cases "Suc (w_round ?w) = B")
      case True
      then have "w_rolling ?w = Suc B mod 2" "\<not> n \<le> w_round ?w"
        using ok AtSample two_channels(1) [of "w_round ?w"] by (auto simp: worker_ok_def Let_def)
      with stuck AtSample True show ?thesis
        using env fifo_empty [of "env_challenge env" "ch_items v" "ch_cap v" "challenge_channel ch (Suc B mod 2)"]
        by (auto simp: worker_step_def sync_sample_and_append_challenge_def env_ok_def)
    qed (use pos AtSample in auto)
  qed
qed

lemma main_moves:
  assumes env: "env_ok env v" and J: "joint_rounds (env_transcript env) max_deg n W J" and W: "length ws = W"
    and inv: "workers_ok v J n B coll sent ws ch" "main_ok max_deg J n W B coll sent m"
    and stuck: "main_step env max_deg W n m ch = None"
  shows "(m_round m = n \<and> B = n \<and> m_phase m = MainProve) \<or>
    (B < n \<and> sent = W \<and> length coll < W \<and> ef_items v (ef_append ch (B mod 2)) = [])"
proof (cases "m_phase m")
  case MainProve
  then have "m_round m = B" "B \<le> n" "m_state m = jstates J B ! W" "m_challenge m = jchal J B"
    using inv(2) by (auto simp: main_ok_def)
  moreover have "prove_round_and_update_state (jstates J B ! W) (jchal J B) =
      Inr (\<lparr>message_evaluations = jev J B W\<rparr>, jstates J (Suc B) ! W)" if "B < n"
    using J that by (simp add: joint_rounds_def)
  ultimately show ?thesis using stuck MainProve by (auto simp: main_step_def split: if_splits)
next
  case (MainCollect k evs)
  then show ?thesis
    using inv(2) stuck env fifo_empty [of "env_ef env" "ef_items v" "ef_cap v" "ef_append ch (B mod 2)"]
    by (auto simp: main_ok_def main_step_def sync_read_field_element_exts_def env_ok_def Let_def
        case_prod_unfold split: if_splits)
next
  case (MainSend k evs c)
  then have m: "sent = k" "k \<le> W" "Suc (m_round m) = B" "B \<le> n" "m_rolling m = Suc B mod 2"
    using inv(2) two_channels(1) [of "m_round m"] by (auto simp: main_ok_def)
  have "length (ch_items v (challenge_channel ch (Suc B mod 2))) + W = k + behind B ws"
    "ch_cap v (challenge_channel ch (Suc B mod 2)) = Suc W"
    using inv(1) W m(1) by (simp_all add: workers_ok_def)
  moreover have "behind B ws \<le> W" using behind_le [of B ws] W by simp
  ultimately show ?thesis
    using stuck MainSend m env
      fifo_full [of "env_challenge env" "ch_items v" "ch_cap v" "challenge_channel ch (Suc B mod 2)" c]
    by (auto simp: main_step_def sync_send_challenge_def env_ok_def split: if_splits)
qed

lemma stuck_finished:
  assumes env: "env_ok env v" and J: "joint_rounds (env_transcript env) max_deg n W J" and inv: "sync_inv v max_deg J n W st"
    and stuck: "\<not> (\<exists>st'. sync_step env max_deg n st st')"
  shows "all_finished n st \<and> outcome st = (jstates J n, replicate (Suc W) (jchal J n), jmsgs J n, jtrans J n)"
proof -
  let ?ws = "worker_threads st" and ?m = "the_main st" and ?ch = "shared st"
  obtain B coll sent where W: "length ?ws = W" and inv: "workers_ok v J n B coll sent ?ws ?ch"
    "main_ok max_deg J n W B coll sent ?m"
    using inv unfolding sync_inv_def by blast
  have no_worker: "worker_step env n (?ws ! i) ?ch = None" if "i < W" for i
    using stuck that W by (cases "worker_step env n (?ws ! i) ?ch") (auto intro: sync_step.worker)
  have no_main: "main_step env max_deg W n ?m ?ch = None"
    using stuck W by (cases "main_step env max_deg W n ?m ?ch") (auto intro: sync_step.main)
  have sent: "sent \<le> W" using inv(2) by (auto simp: main_ok_def split: main_phase.splits)
  have moves: "w_round (?ws ! i) = n \<or> (w_round (?ws ! i) = B \<and> w_phase (?ws ! i) = AtSample) \<or>
      (Suc (w_round (?ws ! i)) = B \<and> ch_items v (challenge_channel ?ch (Suc B mod 2)) = [])" if "i < W" for i
    using worker_moves [of env v max_deg n ?ws J B coll sent ?ch i] env J inv(1) no_worker that sent W by simp
  have tokens: "length (ch_items v (challenge_channel ?ch (Suc B mod 2))) + W = sent + behind B ?ws"
    using inv(1) W by (simp add: workers_ok_def)
  have rounds: "w_round (?ws ! i) = B \<or> Suc (w_round (?ws ! i)) = B" if "i < W" for i
    using inv(1) W that by (auto simp: workers_ok_def)
  consider "m_round ?m = n" "B = n" "m_phase ?m = MainProve"
    | "B < n" "sent = W" "length coll < W" "ef_items v (ef_append ?ch (B mod 2)) = []"
    using main_moves [OF env J W inv no_main] by blast
  then show ?thesis
  proof cases
    case 1
    then have "sent = W" using inv(2) by (simp add: main_ok_def)
    have all: "w_round (?ws ! i) = n" if "i < W" for i
    proof (rule ccontr)
      assume "w_round (?ws ! i) \<noteq> n"
      then have "w_round (?ws ! i) < B" "ch_items v (challenge_channel ?ch (Suc B mod 2)) = []"
        using rounds [OF that] moves [OF that] 1(2) by auto
      moreover have "0 < behind B ?ws" using calculation(1) that W by (auto simp: behind_pos)
      ultimately show False using tokens \<open>sent = W\<close> by simp
    qed
    have ok: "worker_ok J n i (?ws ! i)" if "i < W" for i using inv(1) W that by (simp add: workers_ok_def)
    have worker: "w_state (?ws ! i) = jstates J n ! i \<and> w_challenge (?ws ! i) = jchal J n" if "i < W" for i
      using ok [OF that] all [OF that] by (auto simp: worker_ok_def Let_def split: worker_phase.splits)
    have mains: "m_state ?m = jstates J n ! W" "m_challenge ?m = jchal J n" using 1 inv(2) by (simp_all add: main_ok_def)
    have "length (jstates J n) = Suc W" using J by (simp add: joint_rounds_def)
    then have "map w_state ?ws @ [m_state ?m] = jstates J n"
      using worker W mains by (intro nth_equalityI) (auto simp: nth_append less_Suc_eq)
    moreover have "map w_challenge ?ws = replicate W (jchal J n)"
      using worker W by (intro nth_equalityI) simp_all
    then have "map w_challenge ?ws @ [m_challenge ?m] = replicate (Suc W) (jchal J n)"
      using mains(2) by (simp add: replicate_append_same del: replicate_append_same) (simp add: replicate_append_same)
    ultimately show ?thesis
      using 1 all W inv(2) by (auto simp: all_finished_def outcome_def main_ok_def in_set_conv_nth)
  next
    case 2
    have "w_round (?ws ! i) = B \<and> w_phase (?ws ! i) = AtSample" if "i < W" for i
    proof (rule ccontr)
      assume "\<not> ?thesis"
      then have "w_round (?ws ! i) < B" "ch_items v (challenge_channel ?ch (Suc B mod 2)) = []"
        using rounds [OF that] moves [OF that] 2(1) by auto
      moreover have "0 < behind B ?ws" using calculation(1) that W by (auto simp: behind_pos)
      ultimately show False using tokens 2(2) by simp
    qed
    then have "waiting_messages J B ?ws = mset (map (jev J B) [0..<W])" using W by (metis waiting_all)
    moreover have "mset (ef_items v (ef_append ?ch (B mod 2))) + mset coll = waiting_messages J B ?ws"
      using inv(1) by (simp add: workers_ok_def)
    ultimately have "size (mset coll) = W" using 2(4) by simp
    with 2(3) show ?thesis by simp
  qed
qed


subsection \<open>The number of steps\<close>

definition worker_pos :: "'f worker \<Rightarrow> nat" where
  "worker_pos w = 2 * w_round w + (case w_phase w of AtProve \<Rightarrow> 0 | AtSample \<Rightarrow> 1)"

definition main_pos :: "nat \<Rightarrow> ('f, 't) main_thread \<Rightarrow> nat" where
  "main_pos W m = m_round m * (2 * W + 3) +
     (case m_phase m of MainProve \<Rightarrow> 0 | MainCollect k _ \<Rightarrow> 1 + k | MainSend k _ _ \<Rightarrow> 2 + W + k)"

definition progress :: "('f, 't, 'q, 'p) threads \<Rightarrow> nat" where
  "progress st = sum_list (map worker_pos (worker_threads st)) + main_pos (length (worker_threads st)) (the_main st)"

lemma worker_step_pos: "worker_step env n w ch = Some (w', ch') \<Longrightarrow> worker_pos w' = Suc (worker_pos w)"
  by (auto simp: worker_step_def worker_pos_def split: if_splits worker_phase.splits sum.splits prod.splits)

lemma main_step_pos:
  "main_step env max_deg W n m ch = Some (m', ch') \<Longrightarrow> main_ok max_deg J n W B coll sent m \<Longrightarrow>
   main_pos W m' = Suc (main_pos W m)"
  by (auto simp: main_step_def main_pos_def main_ok_def Let_def split: if_splits main_phase.splits sum.splits prod.splits)

lemma sync_step_keeps:
  assumes "sync_step env max_deg n st st'" and "env_ok env v" and "joint_rounds (env_transcript env) max_deg n W J" and "sync_inv v max_deg J n W st"
  shows "sync_inv v max_deg J n W st' \<and> progress st' = Suc (progress st)"
  using assms
proof (induction rule: sync_step.induct)
  case (worker i st w ch)
  let ?ws = "worker_threads st"
  have W: "length ?ws = W" using worker.prems(3) by (simp add: sync_inv_def)
  obtain B coll sent where inv: "workers_ok v J n B coll sent ?ws (shared st)"
    "main_ok max_deg J n W B coll sent (the_main st)"
    using worker.prems(3) unfolding sync_inv_def by blast
  have "workers_ok v J n B coll sent (?ws[i := w]) ch"
    using worker_keeps [OF worker.prems(1) _ inv(1) worker.hyps] worker.prems(2) W by simp
  moreover have "sum_list (map worker_pos (?ws[i := w])) = Suc (sum_list (map worker_pos ?ws))"
    using worker.hyps(1) worker_step_pos [OF worker.hyps(2)] member_le_sum_list [of "worker_pos (?ws ! i)" "map worker_pos ?ws"]
    by (simp add: map_update sum_list_update)
  ultimately show ?case using inv(2) W by (auto simp: sync_inv_def progress_def)
next
  case (main st m ch)
  have W: "length (worker_threads st) = W" using main.prems(3) by (simp add: sync_inv_def)
  obtain B coll sent where inv: "workers_ok v J n B coll sent (worker_threads st) (shared st)"
    "main_ok max_deg J n W B coll sent (the_main st)"
    using main.prems(3) unfolding sync_inv_def by blast
  from main_keeps [OF main.prems(1, 2) W inv main.hyps [unfolded W]]
  show ?case using main_step_pos [OF main.hyps [unfolded W] inv(2)] W
    by (simp add: sync_inv_def progress_def)
qed

lemma sync_steps_keep:
  assumes "(sync_step env max_deg n ^^ k) st st'" and "env_ok env v" and "joint_rounds (env_transcript env) max_deg n W J" and "sync_inv v max_deg J n W st"
  shows "sync_inv v max_deg J n W st' \<and> progress st' = k + progress st"
  using assms
proof (induction k arbitrary: st')
  case (Suc k)
  then obtain st1 where "(sync_step env max_deg n ^^ k) st st1" "sync_step env max_deg n st1 st'" by auto
  with Suc sync_step_keeps [of env max_deg n st1 st' v W J] show ?case by auto
qed simp

lemma progress_bound:
  assumes "sync_inv v max_deg J n W st"
  shows "progress st \<le> n * (4 * W + 3)"
proof -
  let ?ws = "worker_threads st" and ?m = "the_main st"
  obtain B coll sent where W: "length ?ws = W" and inv: "workers_ok v J n B coll sent ?ws (shared st)"
    "main_ok max_deg J n W B coll sent ?m"
    using assms unfolding sync_inv_def by blast
  have "worker_pos (?ws ! i) \<le> 2 * n" if "i < length ?ws" for i
    using inv(1) that by (auto simp: workers_ok_def worker_ok_def worker_pos_def Let_def split: worker_phase.splits)
  then have "sum_list (map worker_pos ?ws) \<le> sum_list (map (\<lambda>_. 2 * n) ?ws)"
    by (intro sum_list_mono) (auto simp: in_set_conv_nth)
  moreover have "main_pos W ?m \<le> n * (2 * W + 3)"
  proof (cases "m_phase ?m")
    case MainProve
    then show ?thesis using inv(2) by (auto simp: main_ok_def main_pos_def)
  next
    case (MainCollect k evs)
    then have "Suc (m_round ?m) \<le> n" "k \<le> W" using inv(2) by (auto simp: main_ok_def)
    then have "Suc (m_round ?m) * (2 * W + 3) \<le> n * (2 * W + 3)" by (intro mult_le_mono1)
    with \<open>k \<le> W\<close> MainCollect show ?thesis by (simp add: main_pos_def)
  next
    case (MainSend k evs c)
    then have "Suc (m_round ?m) \<le> n" "k \<le> W" using inv(2) by (auto simp: main_ok_def)
    then have "Suc (m_round ?m) * (2 * W + 3) \<le> n * (2 * W + 3)" by (intro mult_le_mono1)
    with \<open>k \<le> W\<close> MainSend show ?thesis by (simp add: main_pos_def)
  qed
  ultimately show ?thesis using W by (simp add: progress_def sum_list_triv algebra_simps)
qed

lemma finished_progress:
  assumes "sync_inv v max_deg J n W st" and "all_finished n st"
  shows "progress st = n * (4 * W + 3)"
proof -
  let ?ws = "worker_threads st" and ?m = "the_main st"
  obtain B coll sent where W: "length ?ws = W" and inv: "workers_ok v J n B coll sent ?ws (shared st)"
    "main_ok max_deg J n W B coll sent ?m"
    using assms unfolding sync_inv_def by blast
  have "worker_pos w = 2 * n" if w: "w \<in> set ?ws" for w
  proof -
    from w obtain i where i: "w = ?ws ! i" "i < length ?ws" by (auto simp: in_set_conv_nth)
    then have "worker_ok J n i w" using inv(1) by (simp add: workers_ok_def)
    moreover have round: "w_round w = n" using assms(2) w by (simp add: all_finished_def)
    ultimately have "w_phase w = AtProve" by (cases "w_phase w") (simp_all add: worker_ok_def)
    with round show ?thesis by (simp add: worker_pos_def)
  qed
  then have "sum_list (map worker_pos ?ws) = sum_list (map (\<lambda>_. 2 * n) ?ws)" by (metis (no_types, lifting) map_eq_conv)
  moreover have "m_phase ?m = MainProve" "m_round ?m = n"
    using inv(2) assms(2) by (auto simp: main_ok_def all_finished_def split: main_phase.splits)
  ultimately show ?thesis using W by (simp add: progress_def main_pos_def sum_list_triv algebra_simps)
qed

subsection \<open>From the joint rounds of the prover\<close>

lemma joint_of_run:
  assumes run: "repeatE n (phase1_round ops max_deg) (states, None, [], t) = Inr (states', challenge, msgs, t')"
    and len: "length states = Suc W"
  obtains J where "joint_rounds ops max_deg n W J" and "jstates J 0 = states" and "jtrans J 0 = t"
    and "jstates J n = states'" and "jchal J n = challenge" and "jmsgs J n = msgs" and "jtrans J n = t'"
proof -
  let ?f = "phase1_round ops max_deg" and ?s = "(states, None, [], t)"
  have prefix: "\<exists>y. repeatE r ?f ?s = Inr y" if "r \<le> n" for r
    using that
  proof (induction rule: inc_induct)
    case (step r)
    then show ?case by (cases "repeatE r ?f ?s") (auto simp: repeatE_snoc simp del: repeatE.simps)
  qed (use run in blast)
  define x where "x r = projr (repeatE r ?f ?s)" for r
  have at: "repeatE r ?f ?s = Inr (x r)" if "r \<le> n" for r using prefix [OF that] by (auto simp: x_def)
  have succ: "?f (x r) = Inr (x (Suc r))" if "r < n" for r
    using at [of r] at [of "Suc r"] that by (simp add: repeatE_snoc del: repeatE.simps)
  have ends: "x 0 = (states, None, [], t)" "x n = (states', challenge, msgs, t')"
    using at [of 0] at [of n] run by simp_all
  let ?prove = "\<lambda>r i. prove_round_and_update_state (fst (x r) ! i) (fst (snd (x r)))"
  define J where "J = \<lparr>jstates = \<lambda>r. fst (x r), jchal = \<lambda>r. fst (snd (x r)), jmsgs = \<lambda>r. fst (snd (snd (x r))),
    jtrans = \<lambda>r. snd (snd (snd (x r))), jev = \<lambda>r i. message_evaluations (fst (projr (?prove r i)))\<rparr>"
  have round: "\<exists>rs. mapE (\<lambda>s. prove_round_and_update_state s (fst (snd (x r)))) (fst (x r)) = Inr rs \<and>
      fst (x (Suc r)) = map snd rs \<and>
      (let evs = map (\<lambda>(m, s). message_evaluations m) rs;
           ev = fold (\<lambda>e acc. additive_vec_add acc e) (last evs # butlast evs) (additive_vec_new (max_deg + 1)) in
       fst (snd (snd (x (Suc r)))) = fst (snd (snd (x r))) @ [\<lparr>message_evaluations = ev\<rparr>] \<and>
       (\<exists>c. fst (snd (x (Suc r))) = Some c \<and>
         sample_and_append_challenge ops (bytes_of_string ''Internal round'')
           (append_field_element_exts ops ev (snd (snd (snd (x r))))) = (c, snd (snd (snd (x (Suc r)))))))" if "r < n" for r
    using succ [OF that]
    by (cases "x r"; cases "x (Suc r)"; cases "mapE (\<lambda>s. prove_round_and_update_state s (fst (snd (x r)))) (fst (x r))")
      (auto simp: phase1_round_def Let_def case_prod_unfold)
  have length: "length (fst (x r)) = Suc W" if "r \<le> n" for r
    using that
  proof (induction r)
    case (Suc r)
    with round [of r] show ?case by (auto dest: mapE_length)
  qed (simp add: ends len)
  have "joint_rounds ops max_deg n W J"
    unfolding joint_rounds_def Let_def
  proof (intro conjI allI impI)
    fix r assume r: "r < n"
    from round [OF r] obtain rs where rs:
      "mapE (\<lambda>s. prove_round_and_update_state s (fst (snd (x r)))) (fst (x r)) = Inr rs" "fst (x (Suc r)) = map snd rs"
      and rest: "let evs = map (\<lambda>(m, s). message_evaluations m) rs;
           ev = fold (\<lambda>e acc. additive_vec_add acc e) (last evs # butlast evs) (additive_vec_new (max_deg + 1)) in
       fst (snd (snd (x (Suc r)))) = fst (snd (snd (x r))) @ [\<lparr>message_evaluations = ev\<rparr>] \<and>
       (\<exists>c. fst (snd (x (Suc r))) = Some c \<and>
         sample_and_append_challenge ops (bytes_of_string ''Internal round'')
           (append_field_element_exts ops ev (snd (snd (snd (x r))))) = (c, snd (snd (snd (x (Suc r))))))"
      by blast
    have n_rs: "length rs = Suc W" using mapE_length [OF rs(1)] length r by simp
    have each: "?prove r i = Inr (rs ! i)" if "i \<le> W" for i
      using mapE_nth [OF rs(1), of i] that length r by simp
    let ?evs = "map (\<lambda>(m, s). message_evaluations m) rs"
    have nth: "?evs ! i = jev J r i" if "i \<le> W" for i
      using n_rs each [OF that] that by (simp add: J_def case_prod_unfold)
    have "?evs \<noteq> []" using n_rs by auto
    then have "last ?evs = ?evs ! W" using last_conv_nth [of ?evs] n_rs by (simp only: length_map diff_Suc_1 not_False_eq_True)
    then have "last ?evs = jev J r W" using nth [of W] by simp
    moreover have "butlast ?evs = map (jev J r) [0..<W]"
      using nth n_rs by (intro nth_equalityI) (simp_all add: nth_butlast)
    ultimately have evs: "last ?evs # butlast ?evs = map (jev J r) (W # [0..<W])" by simp
    show "prove_round_and_update_state (jstates J r ! i) (jchal J r) =
        Inr (\<lparr>message_evaluations = jev J r i\<rparr>, jstates J (Suc r) ! i)" if "i \<le> W" for i
      using each [OF that] rs(2) n_rs that
      by (cases "rs ! i") (simp add: J_def)
    show "jmsgs J (Suc r) = jmsgs J r @ [\<lparr>message_evaluations = add_messages max_deg (map (jev J r) (W # [0..<W]))\<rparr>]"
      "\<exists>c. jchal J (Suc r) = Some c \<and>
        sample_and_append_challenge ops (bytes_of_string ''Internal round'')
          (append_field_element_exts ops (add_messages max_deg (map (jev J r) (W # [0..<W]))) (jtrans J r)) =
        (c, jtrans J (Suc r))"
      using rest unfolding Let_def evs add_messages_def by (simp_all add: J_def)
  qed (use ends length in \<open>simp_all add: J_def\<close>)
  moreover have "jstates J 0 = states" "jtrans J 0 = t" "jstates J n = states'" "jchal J n = challenge"
    "jmsgs J n = msgs" "jtrans J n = t'"
    using ends by (simp_all add: J_def)
  ultimately show thesis using that by blast
qed

lemma spawn_inv:
  assumes env: "env_ok env v" and "joint_rounds (env_transcript env) max_deg n W J" and "jstates J 0 = states" and "jtrans J 0 = t"
  shows "sync_inv v max_deg J n W (spawn env states t) \<and> progress (spawn env states t) = 0"
proof -
  have len: "length states = Suc W" "states \<noteq> []" and J: "jchal J 0 = None" "jmsgs J 0 = []"
    using assms by (auto simp: joint_rounds_def)
  have "workers_ok v J n 0 [] W (worker_threads (spawn env states t)) (shared (spawn env states t))"
    using len assms(3) J fifo_new [of "env_ef env" "ef_items v"] fifo_new [of "env_challenge env" "ch_items v"] env waiting_none [of "worker_threads (spawn env states t)" 0 J] behind_pos [of 0 "worker_threads (spawn env states t)"]
    by (auto simp: workers_ok_def spawn_def sync_new_def worker_ok_def nth_butlast env_ok_def)
  moreover have "main_ok max_deg J n W 0 [] W (the_main (spawn env states t))"
    using len assms J by (simp add: main_ok_def spawn_def last_conv_nth)
  moreover have "progress (spawn env states t) = 0"
    by (simp add: progress_def spawn_def worker_pos_def main_pos_def comp_def)
  moreover have "length (worker_threads (spawn env states t)) = W" using len by (simp add: spawn_def)
  ultimately show ?thesis unfolding sync_inv_def by blast
qed

lemma schedules_core:
  assumes env: "env_ok env v"
    and run: "repeatE n (phase1_round (env_transcript env) max_deg) (states, None, [], t) = Inr (states', challenge, msgs, t')"
    and some: "states \<noteq> []" and steps: "(sync_step env max_deg n ^^ k) (spawn env states t) st"
  shows "k \<le> n * (4 * length states - 1) \<and>
    ((\<nexists>st'. sync_step env max_deg n st st') \<longrightarrow>
      all_finished n st \<and> k = n * (4 * length states - 1) \<and>
      outcome st = (states', replicate (length states) challenge, msgs, t'))"
proof -
  obtain W where W: "length states = Suc W" using some by (cases states) auto
  obtain J where J: "joint_rounds (env_transcript env) max_deg n W J" "jstates J 0 = states" "jtrans J 0 = t"
    "jstates J n = states'" "jchal J n = challenge" "jmsgs J n = msgs" "jtrans J n = t'"
    using joint_of_run [OF run W] by blast
  have inv: "sync_inv v max_deg J n W st" "progress st = k"
    using sync_steps_keep [OF steps env J(1)] spawn_inv [OF env J(1-3)] by auto
  have bound: "n * (4 * length states - 1) = n * (4 * W + 3)" using W by simp
  show ?thesis
    using progress_bound [OF inv(1)] stuck_finished [OF env J(1) inv(1)] finished_progress [OF inv(1)] inv(2) J(4-7) W
    unfolding bound by auto
qed

end
