(* ===== verification/SumcheckTheorems.thy ===== *)
theory SumcheckTheorems
  imports SumcheckComplete SyncFacts Complex_Main
begin

text \<open>
  The properties of the sumcheck protocol and of the multilinear polynomials under it, each with a
  witness over the rationals: evaluation against the table of the equality polynomial, extrapolation of
  round polynomials, soundness of the verifier and completeness of the single-threaded prover.
\<close>

subsection \<open>A concrete transcript and polynomial for the witnesses\<close>

definition constant_challenge :: "rat \<Rightarrow> (rat, unit) transcript_ops" where
  "constant_challenge c = \<lparr>bytes_to_field_elements = map of_nat, append_field_elements = (\<lambda>_ t. t),
     append_field_element_ext = (\<lambda>_ t. t), read_challenge = (\<lambda>t. (c, t))\<rparr>"

definition line_mle :: "rat MultilinearExtension" where
  "line_mle = \<lparr>evaluations = Ext (Owned [3, 5]), num_vars = 1\<rparr>"

definition plane_mle :: "rat MultilinearExtension" where
  "plane_mle = \<lparr>evaluations = Ext (Owned [3, 1, 4, 1]), num_vars = 2\<rparr>"

definition line_poly :: "rat VirtualPolynomial" where
  "line_poly = \<lparr>aux_info = \<lparr>max_degree = 1, max_num_variables = 1\<rparr>,
     products = [\<lparr>terms = [\<lparr>term_scalar = Inr 2, term_product = [0]\<rparr>]\<rparr>], flattened_ml_extensions = [line_mle],
     raw_pointers_lookup_table = Map.empty\<rparr>"

definition line_polys :: "rat VirtualPolynomials" where
  "line_polys = \<lparr>num_threads = 1, polys = [line_poly], poly_meta = Map.empty\<rparr>"

lemma rat_nodes: "nodes_distinct TYPE(rat) d"
  by (simp add: nodes_distinct_def)

subsection \<open>Multilinear polynomials\<close>

text \<open>C17. Evaluating a multilinear polynomial by folding its table variable by variable gives the inner
  product of the table with the evaluations of the equality polynomial; that table is the same however many
  threads fill it, and folding it in turn gives the closed form \<open>eq_eval\<close>.\<close>

theorem multilinear_evaluation:
  fixes m :: "'f::comm_ring_1 MultilinearExtension"
  assumes "mle_ok m" and "0 < num_vars m" and "length r = num_vars m" and "0 < pool"
  shows "\<exists>tbl. build_eq_x_r_vec pool r = Inr tbl \<and> build_eq_x_r_vec_sequential r = Inr tbl \<and>
    length tbl = 2 ^ num_vars m \<and> evaluate m r = Inr (\<Sum>i<length tbl. tbl ! i * evals m ! i) \<and>
    (\<forall>x. length x = length r \<longrightarrow>
      (\<exists>e. build_eq_x_r pool x = Inr e \<and> eq_eval x r = evaluate e r))"
proof (intro exI [of _ "eq_table r 1"] conjI allI impI)
  fix x :: "'f list"
  assume x: "length x = length r"
  let ?e = "\<lparr>evaluations = Ext (Owned (eq_table x 1)), num_vars = length x\<rparr>"
  have "build_eq_x_r pool x = Inr ?e"
    using assms(4) by (simp add: build_eq_x_r_def vec_table from_evaluations_ext_vec_def)
  moreover have "evaluate ?e r = Inr (ml_value r (evals ?e))"
    using x assms by (intro evaluate_value) (auto simp: mle_ok_def)
  ultimately show "\<exists>e. build_eq_x_r pool x = Inr e \<and> eq_eval x r = evaluate e r"
    using x by (simp add: eq_eval_value)
next
  have "r \<noteq> []" using assms by auto
  then show "evaluate m r = Inr (\<Sum>i<length (eq_table r 1). eq_table r 1 ! i * evals m ! i)"
    using assms evaluate_value [of m r] by (simp only: ml_value_table)
qed (use assms in \<open>simp_all add: vec_table build_eq_x_r_vec_sequential_def sequential_table\<close>)

lemma multilinear_evaluation_witness:
  "\<exists>tbl. build_eq_x_r_vec 4 [1 / 2, 3] = Inr tbl \<and> build_eq_x_r_vec_sequential [1 / 2, 3] = Inr tbl \<and>
    length tbl = 4 \<and> evaluate plane_mle [1 / 2, 3] = Inr (\<Sum>i<length tbl. tbl ! i * evals plane_mle ! i)"
  using multilinear_evaluation [of plane_mle "[1 / 2, 3]" 4]
  by (auto simp: plane_mle_def mle_ok_def)

subsection \<open>Round polynomials\<close>

text \<open>C22. The verifier's unrolled formulas for the degrees one to four return the value at \<open>z\<close> of the
  polynomial through the round's evaluations, and panic exactly when \<open>z\<close> is one of the nodes; the table the
  prover extends its evaluations with gives the values of the same polynomial.\<close>

theorem extrapolation_interpolates:
  fixes ys :: "'f::field list"
  assumes "nodes_distinct TYPE('f) d" and "length ys = Suc d" and "1 \<le> d" and "d \<le> 4"
    and "length zs = k"
  shows "extrapolate_uni_poly ys z = (if z \<in> of_nat ` {..d} then Inl DivisionByZero else Inr (interpolate ys z)) \<and>
    (\<forall>j\<le>d. interpolate ys (of_nat j) = ys ! j) \<and>
    (nodes_distinct TYPE('f) (d + k) \<longrightarrow> 0 < k \<longrightarrow>
      extrapolate_from_table (ys @ zs) (Suc d) =
        Inr (ys @ map (\<lambda>i. interpolate ys (of_nat i)) [Suc d..<Suc (d + k)]))"
  using extrapolate_uni_poly_correct [OF assms(1-4), of z] interpolate_node [OF assms(1)]
    extrapolate_from_table_correct [of "ys @ zs" "Suc d"] assms
  by (auto simp del: upt_Suc)

lemma extrapolation_interpolates_witness:
  "extrapolate_uni_poly [0, 1, 4] (1 / 2 :: rat) = Inr (interpolate [0, 1, 4] (1 / 2)) \<and>
   extrapolate_from_table [0, 1, 4, 0, 0 :: rat] 3 =
     Inr ([0, 1, 4] @ map (\<lambda>i. interpolate [0, 1, 4] (of_nat i)) [3..<5])"
proof -
  have "(1 / 2 :: rat) \<notin> of_nat ` {..2}" by (simp add: atMost_nat_numeral atMost_Suc)
  then show ?thesis
    using extrapolation_interpolates [OF rat_nodes, of "[0, 1, 4]" 2 "[0, 0]" 2 "1 / 2"] rat_nodes
    by (simp add: numeral_eq_Suc)
qed

subsection \<open>The protocol\<close>

text \<open>C5. Soundness of the verifier: when it accepts a wrong sum for a polynomial of degree at most the
  announced one in each variable, and the sub-claim it returns is true, then some round's challenge, drawn
  after the message of that round was absorbed, is one of at most \<open>max_degree\<close> points where the message's
  polynomial meets the honest one.\<close>

theorem sumcheck_soundness:
  fixes claimed :: "'f::field"
  assumes "verify ops claimed proof aux t = Inr (sub, t')"
    and "nodes_distinct TYPE('f) (max_degree aux)"
    and "degree_in_each (max_num_variables aux) (max_degree aux) g"
    and "claimed \<noteq> cube_sum (max_num_variables aux) g"
    and "g (point sub) = expected_evaluation sub"
  shows "\<exists>i<max_num_variables aux.
    let ms = received proof (max_num_variables aux); p = interpolate (ms ! i);
        h = honest_round (max_num_variables aux) g (take i (point sub)) in
      point sub ! i = last (fst (round_challenges ops (take (Suc i) ms) (start_transcript ops aux t))) \<and>
      p (point sub ! i) = h (point sub ! i) \<and> finite {z. p z = h z} \<and> card {z. p z = h z} \<le> max_degree aux"
proof -
  let ?n = "max_num_variables aux"
  obtain i where i: "i < ?n" and bad:
    "let p = interpolate (received proof ?n ! i); h = honest_round ?n g (take i (point sub)) in
      point sub ! i \<in> {z. p z = h z} \<and> finite {z. p z = h z} \<and> card {z. p z = h z} \<le> max_degree aux"
    using soundness_core [OF assms] by blast
  have vars: "0 < ?n" using i by simp
  note run = verify_accepts [OF assms(1) vars assms(2)]
  have pt: "point sub = fst (round_challenges ops (received proof ?n) (start_transcript ops aux t))"
    using run(2) by (metis fst_conv)
  then have "point sub ! i =
      last (fst (round_challenges ops (take (Suc i) (received proof ?n)) (start_transcript ops aux t)))"
    using i run(1) by (simp add: round_challenges_take [of "Suc i"] take_Suc_conv_app_nth [of i "fst _"] del: take_Suc_conv_app_nth)
  with i bad show ?thesis by (auto simp: Let_def)
qed

text \<open>For the polynomial \<open>x\<close>, whose sum over the cube is one, the message \<open>1 + 3x\<close> claims five; the challenge
  is the point where the two lines meet.\<close>

definition lucky_aux :: VPAuxInfo where
  "lucky_aux = \<lparr>max_degree = 1, max_num_variables = 1\<rparr>"

definition lucky_proof :: "rat IOPProof" where
  "lucky_proof = \<lparr>proofs = [\<lparr>message_evaluations = [1, 4]\<rparr>]\<rparr>"

lemma lucky_accepted:
  "verify (constant_challenge (- 1 / 2)) 5 lucky_proof lucky_aux () =
    Inr (\<lparr>point = [- 1 / 2], expected_evaluation = - 1 / 2\<rparr>, ())"
  by (simp add: verify_def lucky_proof_def lucky_aux_def constant_challenge_def verifier_init_def
      verify_round_and_update_state_def check_and_generate_subclaim_def sample_and_append_challenge_def
      append_message_def checked_nth_def unrolled_defs)

lemma sumcheck_soundness_witness:
  "\<exists>i<1. let ms = received lucky_proof 1; p = interpolate (ms ! i); h = honest_round 1 hd (take i [- 1 / 2]) in
      [- 1 / 2] ! i = last (fst (round_challenges (constant_challenge (- 1 / 2)) (take (Suc i) ms)
        (start_transcript (constant_challenge (- 1 / 2)) lucky_aux ()))) \<and>
      p ([- 1 / 2] ! i) = h ([- 1 / 2] ! i) \<and> finite {z. p z = h z} \<and> card {z. p z = h z} \<le> 1"
proof -
  have "degree_in_each (max_num_variables lucky_aux) (max_degree lucky_aux) (hd :: rat list \<Rightarrow> rat)"
    by (auto simp: degree_in_each_def lucky_aux_def intro: poly_of_degreeI [of "[0, 1]"])
  from sumcheck_soundness [OF lucky_accepted rat_nodes this] show ?thesis
    by (simp add: lucky_aux_def)
qed

text \<open>C40. Completeness for one thread: the prover returns, its messages hold the sum and the evaluations of
  the honest round polynomials, and the verifier accepts them, with the value of the virtual polynomial at the
  challenges as its sub-claim and in the prover's transcript state, unless a challenge is one of the nodes,
  at which the verifier's formulas divide by zero.\<close>

theorem sumcheck_completeness:
  fixes p :: "'f::field VirtualPolynomial"
  assumes "single_thread vps p" and "0 < pool" and "nodes_distinct TYPE('f) (max_degree (aux_info p))"
    and "1 \<le> max_degree (aux_info p)" and "max_degree (aux_info p) \<le> 4"
  shows "\<exists>prf s t'. prove ops pool vps t = Inr (prf, s, t') \<and>
    extract_sum prf = Inr (cube_sum (max_num_variables (aux_info p)) (virtual_value p)) \<and>
    proofs prf = map (\<lambda>i. honest_message p (virtual_value p) (take i (challenges s))) [0..<max_num_variables (aux_info p)] \<and>
    ((\<forall>c\<in>set (challenges s). c \<notin> of_nat ` {..max_degree (aux_info p)}) \<longrightarrow>
      verify ops (cube_sum (max_num_variables (aux_info p)) (virtual_value p)) prf (aux_info p) t =
        Inr (\<lparr>point = challenges s, expected_evaluation = virtual_value p (challenges s)\<rparr>, t'))"
  by (rule completeness_core [OF assms])

lemma sumcheck_completeness_witness:
  "\<exists>prf s t'. prove (constant_challenge (1 / 2)) 4 line_polys () = Inr (prf, s, t') \<and>
    extract_sum prf = Inr (cube_sum 1 (virtual_value line_poly))"
proof -
  have "single_thread line_polys line_poly"
    by (auto simp: single_thread_def line_polys_def line_poly_def line_mle_def mles_ok_def mle_ok_def
        terms_ok_def term_ok_def idx_ok_def)
  from sumcheck_completeness [OF this _ rat_nodes, of 4 "constant_challenge (1 / 2)" "()"] show ?thesis
    by (auto simp: line_poly_def)
qed


subsection \<open>The threads of the first phase\<close>

text \<open>C12. When the joint rounds return, every schedule of the threads over first-in first-out channels ends: it
  makes at most \<open>n (4 T - 1)\<close> steps for \<open>T\<close> threads and \<open>n\<close> rounds, and where no thread can move, all have made
  their rounds and hold the states, the challenge, the messages and the transcript of the joint rounds.\<close>

theorem sumcheck_schedules_end:
  assumes "fifo_channel (env_ef env) ef_list ef_size" and "fifo_channel (env_challenge env) ch_list ch_size"
    and "repeatE n (phase1_round (env_transcript env) max_deg) (states, None, [], t) = Inr (states', challenge, msgs, t')"
    and "states \<noteq> []" and "(sync_step env max_deg n ^^ k) (spawn env states t) st"
  shows "k \<le> n * (4 * length states - 1) \<and>
    ((\<nexists>st'. sync_step env max_deg n st st') \<longrightarrow>
      all_finished n st \<and> k = n * (4 * length states - 1) \<and>
      outcome st = (states', replicate (length states) challenge, msgs, t'))"
proof -
  have "env_ok env \<lparr>ef_items = ef_list, ef_cap = ef_size, ch_items = ch_list, ch_cap = ch_size\<rparr>"
    using assms(1, 2) by (simp add: env_ok_def)
  then show ?thesis using assms(3-5) by (rule schedules_core)
qed

text \<open>A channel as a capacity and a list.\<close>

definition list_channel :: "('v, nat \<times> 'v list) channel_ops" where
  "list_channel = \<lparr>ch_bounded = (\<lambda>n. (n, [])),
     ch_send = (\<lambda>(n, q) v. if length q < n then Some (n, q @ [v]) else None),
     ch_recv = (\<lambda>(n, q). case q of [] \<Rightarrow> None | x # q \<Rightarrow> Some (x, (n, q)))\<rparr>"

lemma list_channel_fifo: "fifo_channel list_channel snd fst"
  by (auto simp: fifo_channel_def list_channel_def split: list.splits)

definition line_env :: "(rat, unit, nat \<times> rat list list, nat \<times> rat list) sync_env" where
  "line_env = \<lparr>env_transcript = constant_challenge (1 / 2), env_ef = list_channel, env_challenge = list_channel\<rparr>"

definition line_state :: "bool \<Rightarrow> rat IOPProverState" where
  "line_state main_worker = \<lparr>is_main_worker = main_worker, challenges = [], p_round = 0, poly = line_poly,
     p_max_num_variables = 1, p_poly_meta = [Normal], phase2_numvar = Some 1\<rparr>"

lemmas round_defs = prove_round_and_update_state_def term_message_def sumcheck_code_gen_def sort_by_field_def
  is_ext_def op_mle_def ceil_log2_def bit_length.simps expected_numvars_at_round_def even_indices_def
  largest_even_below_def additive_items_def row_factor_def additive_array_sum_def additive_vec_new_def
  additive_vec_add_def sample_and_append_challenge_def append_message_def append_field_element_exts_def

lemma line_rounds:
  "repeatE 1 (phase1_round (env_transcript line_env) 1) ([line_state False, line_state True], None, [], ()) =
    Inr ([line_state False\<lparr>p_round := 1\<rparr>, line_state True\<lparr>p_round := 1\<rparr>], Some (1 / 2),
      [\<lparr>message_evaluations = [12, 20]\<rparr>], ())"
  by (simp add: line_state_def line_poly_def line_mle_def line_env_def constant_challenge_def phase1_round_def round_defs)

text \<open>A schedule of two threads: the main thread proves first, the worker after it, and so on.\<close>

lemma line_schedule:
  "\<exists>st. run_schedule line_env 1 1 [None, Some 0, None, None, None, Some 0, None]
      (spawn line_env [line_state False, line_state True] ()) = Some st \<and> all_finished 1 st"
  by (simp add: line_state_def line_poly_def line_mle_def line_env_def list_channel_def constant_challenge_def spawn_def move_def worker_step_def
      main_step_def sync_new_def sync_append_field_element_exts_def sync_read_field_element_exts_def
      sync_send_challenge_def sync_sample_and_append_challenge_def all_finished_def round_defs)

lemma sumcheck_schedules_end_witness:
  "\<exists>st. (sync_step line_env 1 1 ^^ 7) (spawn line_env [line_state False, line_state True] ()) st \<and>
    outcome st = ([line_state False\<lparr>p_round := 1\<rparr>, line_state True\<lparr>p_round := 1\<rparr>], [Some (1 / 2), Some (1 / 2)],
      [\<lparr>message_evaluations = [12, 20]\<rparr>], ())"
proof -
  obtain st where st: "run_schedule line_env 1 1 [None, Some 0, None, None, None, Some 0, None]
      (spawn line_env [line_state False, line_state True] ()) = Some st" "all_finished 1 st"
    using line_schedule by blast
  have len: "length [None, Some 0, None, None, None, Some 0, None :: nat option] = 7" by simp
  have steps: "(sync_step line_env 1 1 ^^ 7) (spawn line_env [line_state False, line_state True] ()) st"
    using run_schedule_steps [OF st(1)] by (simp only: len)
  have channels: "fifo_channel (env_ef line_env) snd fst" "fifo_channel (env_challenge line_env) snd fst"
    by (simp_all add: line_env_def list_channel_fifo)
  have "\<nexists>st'. sync_step line_env 1 1 st st'" using finished_stuck [OF st(2)] by blast
  with sumcheck_schedules_end [OF channels line_rounds _ steps] steps show ?thesis
    by (intro exI [of _ st]) (simp add: numeral_2_eq_2 del: relpowp.simps)
qed

subsection \<open>Limits of the code\<close>

text \<open>A product of polynomials without variables adds nothing to a round, whatever its multiplicity.\<close>

lemma constants_are_dropped: "full_sum vs 1 multiplicity = Inr 0"
  by (simp add: full_sum_def largest_even_below_def)

text \<open>The verifier has no formula beyond degree four, the prover makes messages up to degree six.\<close>

lemma degree_five_unimplemented: "length p = 6 \<Longrightarrow> extrapolate_uni_poly p z = Inl UnimplementedCase"
  by (simp add: extrapolate_uni_poly_def)

text \<open>A polynomial with fewer variables is evaluated at a prefix of the point by \<open>VirtualPolynomial::evaluate\<close>, and
  at a suffix by \<open>evaluate_slow\<close>, by the prover and in the sub-claim.\<close>

definition batched_poly :: "rat VirtualPolynomial" where
  "batched_poly = line_poly\<lparr>aux_info := \<lparr>max_degree = 1, max_num_variables = 2\<rparr>\<rparr>"

lemma evaluations_differ:
  "vp_evaluate batched_poly [0, 1] = Inr 6"
  "evaluate_slow \<lparr>num_threads = 1, polys = [batched_poly], poly_meta = [0 \<mapsto> Normal]\<rparr> [0, 1] = Inr 10"
  by code_simp+

end
