(* ===== verification/Spec2Isabelle.thy ===== *)
theory Spec2Isabelle
  imports EmulatorTheorems Elf GadgetTheorems Samples SumcheckTheorems
begin

text \<open>
  A verification library for the Ceno zero-knowledge virtual machine.

  \<^bold>\<open>The program.\<close> Ceno proves the execution of RV32IM programs. The crate \<open>ceno_emul\<close> loads an ELF file,
  runs it and records, for every step, the registers and the memory word it touched with the cycle
  of their previous access; the other crates turn these records into witnesses of arithmetic
  circuits and prove them.

  \<^bold>\<open>The emulator.\<close>
  \<^item> \<open>Prelude\<close>: machine integers, fallible state passing (\<open>anyhow::Result\<close> and panics), ordered maps.
  \<^item> \<open>Addr\<close> (\<open>ceno_emul/src/addr.rs\<close>): byte and word addresses, ranges.
  \<^item> \<open>Platform\<close> (\<open>platform.rs\<close>): the memory layout and its predicates, \<open>validate\<close>.
  \<^item> \<open>Rv32im\<close> (\<open>rv32im.rs\<close>): instructions and \<open>step\<close> over the trait \<open>EmuContext\<close>, here the record
    \<open>emu_context\<close> of the operations a context provides.
  \<^item> \<open>Isa\<close>: an abstract RV32IM machine over integers and bytes, written from the instruction set and
    not from the code; the locale \<open>machine_context\<close> states what \<open>step\<close> relies on in a context, and
    \<open>step_refines\<close> there shows that a step refines the abstract machine.
  \<^item> \<open>Tracer\<close> (\<open>tracer.rs\<close>, \<open>SyscallWitness\<close> and \<open>finalize\<close> of \<open>syscalls.rs\<close>): step records, latest accesses,
    bounds of the accessed regions.
  \<^item> \<open>Machine\<close> (\<open>elf.rs\<close>, \<open>vm_state.rs\<close>, \<open>utils.rs\<close>): programs, machine states, memory views.
  \<^item> \<open>Syscalls\<close> (\<open>syscalls.rs\<close>, \<open>syscalls/\<close>): the precompiles and their dispatcher.
  \<^item> \<open>Vm\<close> (\<open>vm_state.rs\<close>): the operations of the machine as an \<open>EmuContext\<close>, environment calls, steps and
    runs; it interprets \<open>machine_context\<close>.
  \<^item> \<open>Elf\<close> (\<open>disassemble/mod.rs\<close>, \<open>elf.rs\<close>): the transpiler and the loader.

  \<^bold>\<open>The lemmas on the emulator.\<close> \<open>StepInvariant\<close> is a locale: a relation kept by each operation of a
  context in the phases of a step (reading, writing, finished) is kept by steps and runs. It is
  interpreted four times on the machine: for well-formedness (\<open>VmInv\<close>), for the balance of the
  offline memory checking argument (\<open>MemoryTrace\<close>), for the order of cycles (\<open>TraceOrder\<close>), and for the
  bounds of accessed regions (\<open>MmioBounds\<close>). \<open>TraceOrder\<close> puts balance and order together: a trace that has
  both can be replayed on a memory of values and cycles. \<open>NoPanic\<close> lists the errors a step can end with,
  \<open>SyscallFacts\<close> the memory effects of precompiles. The properties are in \<open>EmulatorTheorems\<close> and
  \<open>Elf\<close>.

  \<^bold>\<open>Expressions and constraint systems.\<close> The zkVM (\<open>ceno_zkvm\<close>) describes one step of every kind of
  instruction by columns, constraints that have to vanish, lookups in fixed tables, and records read
  from and written to the global state, the registers and memory.
  \<^item> \<open>Goldilocks\<close>: the prime field and canonical representatives. \<open>Expression\<close>, \<open>Monomial\<close>
    (\<open>multilinear_extensions/src/expression.rs\<close>, \<open>expression/\<close>): expressions with folding operators,
    evaluation, monomial forms. Challenges are the only place where the extension field occurs; the
    model takes the base field for both.
  \<^item> \<open>Rom\<close> (\<open>structs.rs\<close>, \<open>tables/\<close>, \<open>utils.rs\<close>): the contents of the lookup tables. \<open>Circuit\<close>
    (\<open>circuit_builder.rs\<close>, \<open>chip_handler/general.rs\<close>): the builder as a fallible state monad, names and
    namespaces left out. \<open>Witness\<close> (\<open>witness.rs\<close>): row assignment and lookup counts.
  \<^item> \<open>Gadgets\<close>, \<open>Signed\<close> (\<open>gadgets/\<close>): comparisons, zero tests, signs, signed values, division.
  \<^item> \<open>UInt\<close>, \<open>Values\<close> (\<open>uint.rs\<close>, \<open>uint/\<close>): words in limbs, symbolic and concrete.
  \<^item> \<open>Chips\<close> (\<open>chip_handler/\<close>, \<open>insn_base.rs\<close>), \<open>Formats\<close> (\<open>r_insn.rs\<close> and its siblings): the accesses of
    an instruction and its fetch.
  \<^item> \<open>Alu\<close>, \<open>Mul\<close>, \<open>DivRem\<close>, \<open>Immediate\<close>, \<open>Shift\<close>, \<open>Control\<close>, \<open>Loads\<close>, \<open>Stores\<close>, \<open>Halt\<close>
    (\<open>instructions/riscv/\<close>): the circuits of the instructions. The type parameter with \<open>INST_KIND\<close> is an
    argument, the feature \<open>forbid_overflow\<close> a Boolean.

  \<^bold>\<open>The lemmas on circuits.\<close> \<open>Satisfy\<close> defines satisfying rows and the judgement \<open>builds row m Q\<close>: if \<open>m\<close>
  returns and the row satisfies the system it leaves, the row satisfies the system it started from
  and \<open>Q\<close> holds of the result and of the values of the records added; \<open>enforces\<close> is the case without
  records, \<open>makes\<close> (\<open>Formats\<close>) lists them as accesses. Every gadget and circuit has a rule of this
  form. The locales \<open>r_circuit\<close>, \<open>i_circuit\<close>, \<open>b_circuit\<close>, \<open>im_circuit\<close> and \<open>s_circuit\<close> state what a circuit
  of a format promises and derive the step of the program; they are interpreted for every
  instruction. The converse direction is \<open>exact\<close> (\<open>Complete\<close>: all that the constraints ask for) and
  \<open>completes\<close> (\<open>Honest\<close>, \<open>Prover\<close>: the construction succeeds and a given row satisfies it). \<open>RowRuns\<close> has
  rules that run a circuit on a concrete row: it returns, the row satisfies it, and these are the
  records. \<open>Samples\<close> has such a row for every kind of instruction (three for the divisions: ordinary,
  by zero, overflow) and applies the properties to them. The properties are in \<open>Expression\<close>, \<open>Monomial\<close>,
  \<open>Witness\<close>, \<open>GadgetTheorems\<close>, \<open>InstrTheorems\<close> and \<open>Prover\<close>.

  \<^bold>\<open>Multilinear polynomials and sumcheck.\<close> The proof system reduces claims about sums over the hypercube to
  claims about values; the crates are \<open>multilinear_extensions\<close>, \<open>sumcheck\<close>, \<open>sumcheck_macro\<close> and \<open>transcript\<close>.
  Base and extension field are one field \<open>'f\<close> here, the variants \<open>Base\<close> and \<open>Ext\<close> are kept.
  \<^item> \<open>Univariate\<close>: polynomial functions, their roots, Lagrange interpolation at \<open>0, ..., d\<close>.
  \<^item> \<open>Mle\<close> (\<open>smart_slice.rs\<close>, \<open>mle.rs\<close>, \<open>util.rs\<close>): slices, evaluation vectors, \<open>fix_variables\<close> and its in-place
    and parallel versions, views and chunks. \<open>MleFacts\<close>: all of them fold the vector, stated by the locale
    \<open>folding\<close>, interpreted for the sequential and the parallel in-place version; \<open>evaluate\<close> returns
    \<open>ml_value\<close>, the sum of the values with the weights of the equality polynomial.
  \<^item> \<open>EqPoly\<close>, \<open>VirtualPoly\<close> (\<open>virtual_poly.rs\<close>, \<open>virtual_polys.rs\<close>): the equality polynomial, on uninitialised
    buffers and over threads; virtual polynomials, their registration, split over threads and builder.
  \<^item> \<open>Extrapolate\<close> (\<open>sumcheck/src/util.rs\<close>, \<open>extrapolate.rs\<close>): the unrolled formulas of the verifier and the
    cached tables of the prover, both shown to interpolate.
  \<^item> \<open>SumcheckVerifier\<close> (\<open>structs.rs\<close>, \<open>verifier.rs\<close>, \<open>transcript/src/lib.rs\<close>): the verifier over the record
    \<open>transcript_ops\<close> of what a transcript provides; \<open>soundness_core\<close>.
  \<^item> \<open>SumcheckProver\<close> (\<open>prover.rs\<close>, \<open>sumcheck_macro/src/lib.rs\<close>): the prover, both phases, with the rounds of
    the threads as joint steps. \<open>SumcheckRound\<close> gives the value of the generated round code,
    \<open>SumcheckComplete\<close> the messages and the acceptance of a single-threaded run.
  \<^item> \<open>SyncTranscript\<close> (\<open>transcript/src/syncronized.rs\<close>, \<open>phase1_sumcheck\<close>): the threads as a step relation over
    bounded channels, which are parameters with the law \<open>fifo_channel\<close>; \<open>SyncFacts\<close> shows that every schedule
    ends with the result of the joint rounds.
  \<^item> \<open>SumcheckTheorems\<close>: the properties of this part, with witnesses over the rationals.

  \<^bold>\<open>Conventions.\<close> Arithmetic of the code is that of a release build: \<open>+\<close> on a \<open>u32\<close> wraps. A \<open>panic\<close>, a
  failed \<open>assert\<close>, an \<open>unwrap\<close> of \<open>None\<close>, an index out of bounds and an \<open>Err\<close> are \<open>Inl\<close> results. A
  \<open>usize\<close> is a natural number. Crates that are not in the repository (the curve and hash
  libraries, the ELF parser, the RISC-V decoder) are parameters, fields of the record
  \<open>crypto_lib\<close> and function arguments. A run is \<open>run_steps\<close> with the number of steps to make, the
  iterator \<open>iter_until_halt\<close> taken that many times.

  \<^bold>\<open>Not modelled.\<close> Logging and formatting, the guest runtime (\<open>ceno_rt\<close>), the host-side
  input encoding (\<open>ceno_host\<close>), the command line, the memory tables and the grouping of steps into
  circuits (\<open>tables/ram\<close>, \<open>rv32im.rs\<close>), the prover and verifier of the whole argument (\<open>scheme/\<close>), the
  polynomial commitment schemes (\<open>mpcs\<close>, \<open>whir\<close>), the GKR protocol and its provers (\<open>gkr_iop\<close>), the
  arithmetic of extension fields, the sponge behind a transcript, and the deprecated parallel sumcheck
  prover. The completeness of the sumcheck prover is shown for one thread; for several, the interleaving of
  the first phase is reduced to its joint rounds, and the merge and the second phase are modelled without a
  proof that they continue the sum. Soundness is the algebraic part: which challenges are bad, not how
  likely the sponge is to draw one. That the records of all rows balance, which links the steps of the
  circuits to a run, is the statement of that argument; \<open>MemoryTrace\<close> and \<open>TraceOrder\<close> treat
  it for the records of the emulator.
\<close>

end
